(* ===== verification/Libcrux_Prelude.thy ===== *)
theory Libcrux_Prelude
  imports Main "HOL-Library.Word"
begin

section \<open>Prelude: machine integers, loops and slices\<close>

text \<open>
  What the components of the development share.

  \<^item> Machine integers. The signed C types \<open>int16_t\<close> and \<open>int32_t\<close> are HOL integers; every
    place where the C code converts to such a type (an explicit cast, an assignment of an
    \<open>int\<close>-promoted expression to an \<open>int16_t\<close> variable or array cell) is an explicit \<open>as_i16\<close>
    or \<open>as_i32\<close>, which wraps to the two's complement range. The unsigned types are words of their width
    (\<open>u8\<close>, \<open>u16\<close>, \<open>u32\<close>, \<open>u64\<close>).
  \<^item> Loops. A C \<open>for\<close> loop over a half-open index range is \<open>for_loop\<close>, a fold of the loop
    body over the list of indices; the lemmas turn the loop shapes of the code into list functions.
  \<^item> Slices. A sub-slice that is read is \<open>subslice\<close>; a copy into a mutable sub-slice is
    \<open>slice_copy\<close> at the start offset, which returns the whole updated array.
\<close>

unbundle bit_operations_syntax

type_synonym i16 = int
type_synonym i32 = int
type_synonym u8 = "8 word"
type_synonym u16 = "16 word"
type_synonym u32 = "32 word"
type_synonym u64 = "64 word"

named_theorems machine_simps \<open>unfolding of casts and of machine arithmetic\<close>
named_theorems range_intros \<open>range facts of machine integers\<close>
named_theorems loop_simps \<open>loops of the code as list functions\<close>

subsection \<open>Conversions to the signed types\<close>

definition as_i16 :: "int \<Rightarrow> i16" where
  "as_i16 x = signed_take_bit 15 x"

definition as_i32 :: "int \<Rightarrow> i32" where
  "as_i32 x = signed_take_bit 31 x"

definition as_i64 :: "int \<Rightarrow> int" where
  "as_i64 x = signed_take_bit 63 x"

definition is_i16 :: "int \<Rightarrow> bool" where
  "is_i16 x \<longleftrightarrow> - 32768 \<le> x \<and> x \<le> 32767"

definition is_i32 :: "int \<Rightarrow> bool" where
  "is_i32 x \<longleftrightarrow> - 2147483648 \<le> x \<and> x \<le> 2147483647"

text \<open>The C idiom \<open>(int16_t)((uint32_t)x << k)\<close>.\<close>

definition shl_i16 :: "i16 \<Rightarrow> nat \<Rightarrow> i16" where
  "shl_i16 x k = as_i16 (uint (push_bit k (word_of_int x :: u32)))"

subsection \<open>Loops and slices\<close>

definition for_loop :: "nat \<Rightarrow> nat \<Rightarrow> (nat \<Rightarrow> 's \<Rightarrow> 's) \<Rightarrow> 's \<Rightarrow> 's" where
  "for_loop lo hi body s = fold body [lo..<hi] s"

text \<open>The same loop when the body may not return (a panic, or an inner loop that does not end).\<close>

definition for_option :: "nat \<Rightarrow> nat \<Rightarrow> (nat \<Rightarrow> 's \<Rightarrow> 's option) \<Rightarrow> 's \<Rightarrow> 's option" where
  "for_option lo hi body s = fold (\<lambda>i r. Option.bind r (body i)) [lo..<hi] (Some s)"

definition subslice :: "'a list \<Rightarrow> nat \<Rightarrow> nat \<Rightarrow> 'a list" where
  "subslice xs start stop = take (stop - start) (drop start xs)"

definition slice_copy :: "'a list \<Rightarrow> nat \<Rightarrow> 'a list \<Rightarrow> 'a list" where
  "slice_copy dst start src = take start dst @ src @ drop (start + length src) dst"

text \<open>A call that gets a mutable sub-slice of an array and writes into it, and the same when the call may abort.\<close>

definition slice_apply :: "'a list \<Rightarrow> nat \<Rightarrow> nat \<Rightarrow> ('a list \<Rightarrow> 'a list) \<Rightarrow> 'a list" where
  "slice_apply xs start stop f = slice_copy xs start (f (subslice xs start stop))"

definition slice_apply_option :: "'a list \<Rightarrow> nat \<Rightarrow> nat \<Rightarrow> ('a list \<Rightarrow> 'a list option) \<Rightarrow> 'a list option" where
  "slice_apply_option xs start stop f = map_option (slice_copy xs start) (f (subslice xs start stop))"

subsection \<open>Facts on the conversions\<close>

lemma as_i16_id [simp]: "is_i16 x \<Longrightarrow> as_i16 x = x"
  unfolding as_i16_def is_i16_def by (rule signed_take_bit_int_eq_self) auto

lemma as_i32_id [simp]: "is_i32 x \<Longrightarrow> as_i32 x = x"
  unfolding as_i32_def is_i32_def by (rule signed_take_bit_int_eq_self) auto

lemma as_i64_id [simp]: "\<bar>x\<bar> \<le> 9223372036854775807 \<Longrightarrow> as_i64 x = x"
  unfolding as_i64_def by (rule signed_take_bit_int_eq_self) auto

lemma as_i16_range [range_intros]: "is_i16 (as_i16 x)"
  using signed_take_bit_int_greater_eq_minus_exp [of 15 x] signed_take_bit_int_less_exp [of 15 x]
  by (simp add: as_i16_def is_i16_def)

lemma as_i32_range [range_intros]: "is_i32 (as_i32 x)"
  using signed_take_bit_int_greater_eq_minus_exp [of 31 x] signed_take_bit_int_less_exp [of 31 x]
  by (simp add: as_i32_def is_i32_def)

lemma as_i16_mod: "as_i16 x mod 65536 = x mod 65536"
proof -
  have "take_bit 16 (signed_take_bit 15 x) = take_bit 16 x"
    by (simp add: take_bit_signed_take_bit)
  then show ?thesis by (simp add: as_i16_def take_bit_eq_mod)
qed

lemma as_i16_decomp: obtains k where "as_i16 x = x + 65536 * k"
proof -
  have "65536 dvd as_i16 x - x"
    using as_i16_mod [of x] by (simp add: mod_eq_dvd_iff)
  then obtain k where "as_i16 x - x = 65536 * k" by (elim dvdE)
  then have "as_i16 x = x + 65536 * k" by simp
  then show thesis by (rule that)
qed

lemma as_i32_decomp: obtains k where "as_i32 x = x + 4294967296 * k"
proof -
  have "take_bit 32 (signed_take_bit 31 x) = take_bit 32 x" by (simp add: take_bit_signed_take_bit)
  then have "4294967296 dvd as_i32 x - x" by (simp add: as_i32_def take_bit_eq_mod mod_eq_dvd_iff)
  then obtain k where "as_i32 x - x = 4294967296 * k" by (elim dvdE)
  then have "as_i32 x = x + 4294967296 * k" by simp
  then show thesis by (rule that)
qed

lemma is_i16_imp_is_i32 [range_intros]: "is_i16 x \<Longrightarrow> is_i32 x"
  by (simp add: is_i16_def is_i32_def)

lemma is_i16_abs: "\<bar>x\<bar> \<le> 32767 \<Longrightarrow> is_i16 x"
  by (simp add: is_i16_def abs_le_iff)

lemma int_div_less: "0 < q \<Longrightarrow> a < n * q \<Longrightarrow> a div q < (n :: int)"
proof (rule ccontr)
  assume "0 < q" "a < n * q" "\<not> a div q < n"
  then have "n * q \<le> a div q * q" by (intro mult_right_mono) auto
  also have "\<dots> \<le> a" using \<open>0 < q\<close> by (metis add_increasing2 div_mult_mod_eq order_refl pos_mod_sign)
  finally show False using \<open>a < n * q\<close> by simp
qed

lemma int_le_div: "0 < q \<Longrightarrow> n * q \<le> a \<Longrightarrow> n \<le> a div (q :: int)"
  using zdiv_mono1 [of "n * q" a q] by simp

lemma uint_u8_range: "0 \<le> uint (b :: u8)" "uint (b :: u8) < 256"
  using uint_lt2p [of b] by simp_all

lemma is_i16_uint_u8 [simp]: "is_i16 (uint (b :: u8))"
  using uint_u8_range [of b] unfolding is_i16_def by linarith

subsection \<open>Facts on loops\<close>

lemma for_loop_empty [simp]: "hi \<le> lo \<Longrightarrow> for_loop lo hi body s = s"
  by (simp add: for_loop_def)

lemma for_loop_step: "lo < hi \<Longrightarrow> for_loop lo hi body s = for_loop (Suc lo) hi body (body lo s)"
  by (simp add: for_loop_def upt_rec)

lemma for_loop_last: "lo \<le> hi \<Longrightarrow> for_loop lo (Suc hi) body s = body hi (for_loop lo hi body s)"
  by (simp add: for_loop_def)

lemma for_option_last: "lo \<le> hi \<Longrightarrow> for_option lo (Suc hi) body s = Option.bind (for_option lo hi body s) (body hi)"
  by (simp add: for_option_def)

lemma for_option_Some:
  assumes "\<And>i t. lo \<le> i \<Longrightarrow> i < hi \<Longrightarrow> body i t = Some (f i t)"
  shows "for_option lo hi body s = Some (for_loop lo hi f s)"
  using assms
proof (induction hi)
  case (Suc hi)
  show ?case
  proof (cases "lo \<le> hi")
    case True
    then show ?thesis using Suc by (simp add: for_option_last for_loop_last)
  qed (simp add: for_option_def)
qed (simp add: for_option_def)

lemma for_loop_cong:
  assumes "lo = lo'" and "hi = hi'" and "s = s'"
    and "\<And>i t. lo' \<le> i \<Longrightarrow> i < hi' \<Longrightarrow> body i t = body' i t"
  shows "for_loop lo hi body s = for_loop lo' hi' body' s'"
  unfolding for_loop_def assms(1,2,3) by (rule fold_cong) (auto simp: assms(4))

lemma for_loop_invariant:
  assumes "P lo s" and "lo \<le> hi"
    and "\<And>i t. lo \<le> i \<Longrightarrow> i < hi \<Longrightarrow> P i t \<Longrightarrow> P (Suc i) (body i t)"
  shows "P hi (for_loop lo hi body s)"
  using assms(2,3)
proof (induction hi)
  case 0
  then show ?case using assms(1) by simp
next
  case (Suc hi)
  show ?case
  proof (cases "lo \<le> hi")
    case True
    then have "P hi (for_loop lo hi body s)" using Suc by simp
    then show ?thesis using True Suc.prems(2) by (simp add: for_loop_last)
  next
    case False
    then have "lo = Suc hi" using Suc.prems(1) by simp
    then show ?thesis using assms(1) by simp
  qed
qed

text \<open>
  The loop that overwrites cell \<open>i\<close> with a value that depends on \<open>i\<close> and on the old cell
  only: the result as a comprehension over the indices.
\<close>

lemma for_loop_update_prefix:
  assumes "n \<le> length xs"
  shows "for_loop 0 n (\<lambda>i ys. ys[i := f i (ys ! i)]) xs = map (\<lambda>i. f i (xs ! i)) [0..<n] @ drop n xs"
  using assms
proof (induction n)
  case 0
  then show ?case by simp
next
  case (Suc n)
  let ?l = "for_loop 0 n (\<lambda>i ys. ys[i := f i (ys ! i)]) xs"
  have l: "?l = map (\<lambda>i. f i (xs ! i)) [0..<n] @ drop n xs" using Suc by simp
  moreover have "?l ! n = xs ! n" using Suc.prems by (simp add: l nth_append)
  moreover have "drop n xs = xs ! n # drop (Suc n) xs"
    using Suc.prems by (simp add: Cons_nth_drop_Suc)
  ultimately show ?case
    by (simp add: for_loop_last list_update_append)
qed

lemma for_loop_update [loop_simps]:
  "n = length xs \<Longrightarrow> for_loop 0 n (\<lambda>i ys. ys[i := f i (ys ! i)]) xs = map (\<lambda>i. f i (xs ! i)) [0..<n]"
  by (simp add: for_loop_update_prefix)

lemma map_nth_upt: "map (\<lambda>i. f (xs ! i)) [0..<length xs] = map f xs"
  by (rule nth_equalityI) auto

lemma for_loop_map [loop_simps]:
  "n = length xs \<Longrightarrow> for_loop 0 n (\<lambda>i ys. ys[i := f (ys ! i)]) xs = map f xs"
  using for_loop_update [of n xs "\<lambda>i. f"] by (simp add: map_nth_upt)

lemma map2_nth_upt:
  "length xs = length ys \<Longrightarrow> map (\<lambda>i. f (xs ! i) (ys ! i)) [0..<length xs] = map2 f xs ys"
  by (rule nth_equalityI) auto

lemma for_loop_map2 [loop_simps]:
  "n = length xs \<Longrightarrow> length ys = n \<Longrightarrow>
   for_loop 0 n (\<lambda>i zs. zs[i := f (zs ! i) (ys ! i)]) xs = map2 f xs ys"
  using for_loop_update [of n xs "\<lambda>i z. f z (ys ! i)"] by (simp add: map2_nth_upt)

text \<open>Index lists of the small fixed sizes of the code, with numerals for the indices.\<close>

lemma upt_evals:
  "[0..<2] = [0, 1]"
  "[0..<3] = [0, 1, 2]"
  "[0..<4] = [0, 1, 2, 3]"
  "[0..<5] = [0, 1, 2, 3, 4]"
  "[0..<8] = [0, 1, 2, 3, 4, 5, 6, 7]"
  "[0..<10] = [0, 1, 2, 3, 4, 5, 6, 7, 8, 9]"
  "[0..<11] = [0, 1, 2, 3, 4, 5, 6, 7, 8, 9, 10]"
  "[0..<12] = [0, 1, 2, 3, 4, 5, 6, 7, 8, 9, 10, 11]"
  "[0..<16] = [0, 1, 2, 3, 4, 5, 6, 7, 8, 9, 10, 11, 12, 13, 14, 15]"
  by code_simp+

subsection \<open>Facts on slices\<close>

lemma length_subslice [simp]:
  "length (subslice xs start stop) = min (stop - start) (length xs - start)"
  by (simp add: subslice_def)

lemma nth_subslice [simp]:
  "i < stop - start \<Longrightarrow> start + i < length xs \<Longrightarrow> subslice xs start stop ! i = xs ! (start + i)"
  by (simp add: subslice_def)

lemma subslice_append: "i \<le> j \<Longrightarrow> j \<le> k \<Longrightarrow> subslice xs i j @ subslice xs j k = subslice xs i k"
proof -
  assume "i \<le> j" "j \<le> k"
  then have "k - i = (j - i) + (k - j)" "drop j xs = drop (j - i) (drop i xs)" by simp_all
  then show ?thesis unfolding subslice_def by (simp only: take_add)
qed

lemma subslice_full: "n = length xs \<Longrightarrow> subslice xs 0 n = xs"
  by (simp add: subslice_def)

lemma length_slice_copy [simp]:
  "start + length src \<le> length dst \<Longrightarrow> length (slice_copy dst start src) = length dst"
  by (simp add: slice_copy_def)

subsection \<open>Cutting a list into chunks\<close>

fun chunks :: "nat \<Rightarrow> 'a list \<Rightarrow> 'a list list" where
  "chunks n xs = (if n = 0 \<or> xs = [] then [] else take n xs # chunks n (drop n xs))"

declare chunks.simps [simp del]

lemma chunks_Nil [simp]: "chunks n [] = []"
  by (simp add: chunks.simps)

lemma chunks_append: "0 < n \<Longrightarrow> length xs = n \<Longrightarrow> chunks n (xs @ ys) = xs # chunks n ys"
  by (subst chunks.simps) auto

lemma chunks_concat:
  "0 < n \<Longrightarrow> (\<And>x. x \<in> set xs \<Longrightarrow> length (f x) = n) \<Longrightarrow> chunks n (concat (map f xs)) = map f xs"
  by (induction xs) (auto simp: chunks_append)

lemma chunks_subslices:
  "0 < n \<Longrightarrow> length xs = k * n \<Longrightarrow> chunks n xs = map (\<lambda>i. subslice xs (i * n) (i * n + n)) [0..<k]"
proof (induction k arbitrary: xs)
  case 0
  then show ?case by simp
next
  case (Suc k)
  have "chunks n xs = take n xs # chunks n (drop n xs)"
    using Suc.prems by (subst chunks.simps) auto
  also have "chunks n (drop n xs) = map (\<lambda>i. subslice (drop n xs) (i * n) (i * n + n)) [0..<k]"
    using Suc by simp
  also have "\<dots> = map (\<lambda>i. subslice xs (i * n) (i * n + n)) (map Suc [0..<k])"
    by (simp add: subslice_def add.commute)
  finally show ?case by (simp only: upt_conv_Cons zero_less_Suc map_Suc_upt) (simp add: subslice_def)
qed

lemma length_chunks: "0 < n \<Longrightarrow> length xs = k * n \<Longrightarrow> length (chunks n xs) = k"
  by (simp add: chunks_subslices)

lemma chunks_member_length:
  "0 < n \<Longrightarrow> length xs = k * n \<Longrightarrow> c \<in> set (chunks n xs) \<Longrightarrow> length c = n"
proof -
  assume "0 < n" "length xs = k * n" "c \<in> set (chunks n xs)"
  then obtain i where i: "i < k" "c = subslice xs (i * n) (i * n + n)"
    by (auto simp: chunks_subslices)
  then have "(i + 1) * n \<le> k * n" by (intro mult_le_mono1) simp
  then show ?thesis using i \<open>length xs = k * n\<close> by simp
qed

lemma concat_chunks: "0 < n \<Longrightarrow> concat (chunks n xs) = xs"
  by (induction n xs rule: chunks.induct) (subst chunks.simps, auto)

text \<open>
  A loop that fills cell \<open>i\<close> of an array from the \<open>i\<close>-th block of the input, and a loop that copies
  blocks of one size, one after the other, into a buffer.
\<close>

lemma for_loop_from_chunks:
  assumes "length bs = k * n" and "length init = k" and "0 < n"
  shows "for_loop 0 k (\<lambda>i re. re[i := g (subslice bs (i * n) (i * n + n))]) init = map g (chunks n bs)"
proof -
  have "for_loop 0 k (\<lambda>i re. re[i := g (subslice bs (i * n) (i * n + n))]) init
      = map (\<lambda>i. g (subslice bs (i * n) (i * n + n))) [0..<k]"
    using for_loop_update [of k init "\<lambda>i _. g (subslice bs (i * n) (i * n + n))"] assms(2) by simp
  then show ?thesis by (simp add: chunks_subslices [OF assms(3,1)] comp_def)
qed

lemma length_concat_blocks:
  "(\<And>i. i < k \<Longrightarrow> length (h i) = n) \<Longrightarrow> length (concat (map h [0..<k])) = k * n"
  by (induction k) auto

lemma for_loop_blocks:
  assumes "\<And>i. i < k \<Longrightarrow> length (h i) = n" and "k * n \<le> length out"
  shows "for_loop 0 k (\<lambda>i out. slice_copy out (n * i) (h i)) out
    = concat (map h [0..<k]) @ drop (k * n) out"
  using assms
proof (induction k)
  case 0
  then show ?case by simp
next
  case (Suc k)
  have l: "length (concat (map h [0..<k])) = n * k"
    using length_concat_blocks [of k h n] Suc.prems(1) by (simp add: mult.commute)
  have "for_loop 0 (Suc k) (\<lambda>i out. slice_copy out (n * i) (h i)) out
      = slice_copy (concat (map h [0..<k]) @ drop (k * n) out) (n * k) (h k)"
    using Suc by (simp add: for_loop_last)
  also have "\<dots> = concat (map h [0..<Suc k]) @ drop (Suc k * n) out"
    using Suc.prems l by (simp add: slice_copy_def add.commute mult.commute)
  finally show ?case .
qed

text \<open>Cells of a matrix that is flattened row by row.\<close>

lemma nth_concat_uniform:
  "(\<And>v. v \<in> set xs \<Longrightarrow> length v = m) \<Longrightarrow> i < length xs * m \<Longrightarrow> concat xs ! i = xs ! (i div m) ! (i mod m)"
proof (induction xs arbitrary: i)
  case Nil
  then show ?case by simp
next
  case (Cons x xs)
  have m: "length x = m" "0 < m" using Cons.prems by (auto intro: gr0I)
  show ?case
  proof (cases "i < m")
    case True
    then show ?thesis using m by (simp add: nth_append)
  next
    case False
    then have "concat xs ! (i - m) = xs ! ((i - m) div m) ! ((i - m) mod m)"
      using Cons.prems by (intro Cons.IH) auto
    moreover have "i div m = Suc ((i - m) div m)" "(i - m) mod m = i mod m"
      using False m(2) by (simp_all add: le_div_geq le_mod_geq)
    ultimately show ?thesis using False m(1) by (simp add: nth_append)
  qed
qed

lemma length_concat_uniform:
  "(\<And>v. v \<in> set xs \<Longrightarrow> length v = m) \<Longrightarrow> length (concat xs) = length xs * m"
  by (induction xs) auto

text \<open>A loop that carries a counter and updates the cell of the loop index from the counter.\<close>

lemma for_loop_counter:
  assumes "zf 0 = z0" and "\<And>i. i < n \<Longrightarrow> zf (Suc i) = s (zf i)" and "n \<le> length re"
  shows "for_loop 0 n (\<lambda>i (z, re). (s z, re[i := h z (re ! i)])) (z0, re)
    = (zf n, map (\<lambda>i. h (zf i) (re ! i)) [0..<n] @ drop n re)"
  using assms(2,3)
proof (induction n)
  case 0
  then show ?case by (simp add: assms(1))
next
  case (Suc n)
  have "drop n re = re ! n # drop (Suc n) re"
    using Suc.prems(2) by (simp add: Cons_nth_drop_Suc)
  then show ?case
    using Suc by (simp add: for_loop_last list_update_append nth_append)
qed

text \<open>A loop whose calls fill consecutive blocks of a buffer, from an offset on.\<close>

lemma slice_apply_option_Some:
  "(\<And>s. f s = Some (g s)) \<Longrightarrow> slice_apply_option xs start stop f = Some (slice_apply xs start stop g)"
  by (simp add: slice_apply_option_def slice_apply_def)

lemma for_option_slice_apply:
  assumes "\<And>i s. i < k \<Longrightarrow> length s = n \<Longrightarrow> f i s = Some (h i)" and "\<And>i. i < k \<Longrightarrow> length (h i) = n" and "off + k * n \<le> length out"
  shows "for_option 0 k (\<lambda>i out. slice_apply_option out (off + i * n) (off + i * n + n) (f i)) out
    = Some (take off out @ concat (map h [0..<k]) @ drop (off + k * n) out)"
  using assms
proof (induction k)
  case 0
  then show ?case by (simp add: for_option_def)
next
  case (Suc k)
  have l: "length (concat (map h [0..<k])) = k * n" using Suc.prems(2) by (intro length_concat_blocks) simp
  have b: "off + k * n + n \<le> length out" using Suc.prems(3) by simp
  let ?o = "take off out @ concat (map h [0..<k]) @ drop (off + k * n) out"
  have lo: "length ?o = length out" using l b by simp
  have "f k (subslice ?o (off + k * n) (off + k * n + n)) = Some (h k)"
    using Suc.prems(1) [of k "subslice ?o (off + k * n) (off + k * n + n)"] lo b by simp
  then have "slice_apply_option ?o (off + k * n) (off + k * n + n) (f k) = Some (slice_copy ?o (off + k * n) (h k))"
    by (simp add: slice_apply_option_def)
  also have "slice_copy ?o (off + k * n) (h k) = take off out @ concat (map h [0..<Suc k]) @ drop (off + Suc k * n) out"
    using Suc.prems(2) [of k] l b by (simp add: slice_copy_def add.commute add.left_commute)
  finally show ?case using Suc by (simp add: for_option_last)
qed

lemma for_loop_slice_apply:
  assumes "\<And>i s. i < k \<Longrightarrow> length s = n \<Longrightarrow> f i s = h i" and "\<And>i. i < k \<Longrightarrow> length (h i) = n" and "off + k * n \<le> length out"
  shows "for_loop 0 k (\<lambda>i out. slice_apply out (off + i * n) (off + i * n + n) (f i)) out
    = take off out @ concat (map h [0..<k]) @ drop (off + k * n) out"
proof -
  have "for_option 0 k (\<lambda>i out. slice_apply_option out (off + i * n) (off + i * n + n) (\<lambda>s. Some (f i s))) out
      = Some (for_loop 0 k (\<lambda>i out. slice_apply out (off + i * n) (off + i * n + n) (f i)) out)"
    by (intro for_option_Some slice_apply_option_Some) simp
  moreover have "for_option 0 k (\<lambda>i out. slice_apply_option out (off + i * n) (off + i * n + n) (\<lambda>s. Some (f i s))) out
      = Some (take off out @ concat (map h [0..<k]) @ drop (off + k * n) out)"
    using assms by (intro for_option_slice_apply) simp_all
  ultimately show ?thesis by simp
qed

text \<open>The same loop when the code keeps the running offset in a variable.\<close>

lemma for_option_offset:
  "for_option 0 k (\<lambda>i (out, off). map_option (\<lambda>out. (out, off + n)) (g i off out)) (out, off)
    = map_option (\<lambda>out. (out, off + k * n)) (for_option 0 k (\<lambda>i out. g i (off + i * n) out) out)"
proof (induction k)
  case (Suc k)
  then show ?case
    by (cases "for_option 0 k (\<lambda>i out. g i (off + i * n) out) out") (simp_all add: for_option_last option.map_comp comp_def add.commute add.left_commute)
qed (simp add: for_option_def)

lemma for_loop_slice_apply_0:
  assumes "\<And>i s. i < k \<Longrightarrow> length s = n \<Longrightarrow> f i s = h i" and "\<And>i. i < k \<Longrightarrow> length (h i) = n" and "length out = k * n"
  shows "for_loop 0 k (\<lambda>i out. slice_apply out (i * n) ((i + 1) * n) (f i)) out = concat (map h [0..<k])"
proof -
  have "for_loop 0 k (\<lambda>i out. slice_apply out (0 + i * n) (0 + i * n + n) (f i)) out
      = take 0 out @ concat (map h [0..<k]) @ drop (0 + k * n) out"
    using assms by (intro for_loop_slice_apply) auto
  then show ?thesis using assms(3) by (simp add: add.commute)
qed

text \<open>A loop that overwrites cell \<open>i\<close> with the result of a call that may abort.\<close>

lemma for_option_update:
  assumes "\<And>i. i < k \<Longrightarrow> f i (xs ! i) = Some (h i)" and "k \<le> length xs"
  shows "for_option 0 k (\<lambda>i ys. map_option (\<lambda>v. ys[i := v]) (f i (ys ! i))) xs = Some (map h [0..<k] @ drop k xs)"
  using assms
proof (induction k)
  case 0
  then show ?case by (simp add: for_option_def)
next
  case (Suc k)
  have "drop k xs = xs ! k # drop (Suc k) xs" using Suc.prems(2) by (simp add: Cons_nth_drop_Suc)
  then show ?case using Suc by (simp add: for_option_last nth_append list_update_append)
qed

subsection \<open>Congruence modulo a field modulus\<close>

definition cong_mod :: "int \<Rightarrow> int \<Rightarrow> int \<Rightarrow> bool" where
  "cong_mod q x y \<longleftrightarrow> x mod q = y mod q"

lemma cong_mod_refl [simp, intro]: "cong_mod q x x"
  by (simp add: cong_mod_def)

lemma cong_mod_sym: "cong_mod q x y \<Longrightarrow> cong_mod q y x"
  by (simp add: cong_mod_def)

lemma cong_mod_trans [trans]: "cong_mod q x y \<Longrightarrow> cong_mod q y z \<Longrightarrow> cong_mod q x z"
  by (simp add: cong_mod_def)

lemma cong_mod_add: "cong_mod q x y \<Longrightarrow> cong_mod q u v \<Longrightarrow> cong_mod q (x + u) (y + v)"
  unfolding cong_mod_def by (rule mod_add_cong)

lemma cong_mod_diff: "cong_mod q x y \<Longrightarrow> cong_mod q u v \<Longrightarrow> cong_mod q (x - u) (y - v)"
  unfolding cong_mod_def by (rule mod_diff_cong)

lemma cong_mod_mult: "cong_mod q x y \<Longrightarrow> cong_mod q u v \<Longrightarrow> cong_mod q (x * u) (y * v)"
  unfolding cong_mod_def by (rule mod_mult_cong)

lemma cong_mod_minus: "cong_mod q x y \<Longrightarrow> cong_mod q (- x) (- y)"
  using cong_mod_diff [OF cong_mod_refl, of q x y 0] by simp

lemma cong_mod_sum: "(\<And>i. i \<in> S \<Longrightarrow> cong_mod q (f i) (g i)) \<Longrightarrow> cong_mod q (sum f S) (sum g S)"
  by (induction S rule: infinite_finite_induct) (auto intro!: cong_mod_add)

lemma cong_mod_mod: "cong_mod q (x mod q) x"
  by (simp add: cong_mod_def)

lemma cong_mod_multiple: "x = y + q * k \<Longrightarrow> cong_mod q x y"
  by (simp add: cong_mod_def)

lemmas cong_mod_intros = cong_mod_add cong_mod_diff cong_mod_mult cong_mod_minus cong_mod_refl

end
