(* ===== verification/MLKEM_Arith.thy ===== *)
theory MLKEM_Arith
  imports Libcrux_Prelude
begin

section \<open>Field arithmetic on vectors of sixteen coefficients\<close>

text \<open>
  The portable vector of ML-KEM (\<open>libcrux_ml_kem_vector_portable_vector_type_PortableVector\<close>, an array
  of sixteen \<open>int16_t\<close>) and its arithmetic: \<open>libcrux_mlkem_portable.c\<close> lines 25--620, the casts of
  \<open>libcrux_mlkem_core.c\<close> and the constants of \<open>libcrux_mlkem_portable.h\<close>. The trait wrappers
  that follow each C function (suffix \<open>_b8\<close>) only call it and are folded into it; the
  classify/declassify calls are identities in the C code and are left out.

  The lemmas give the behaviour of every operation on every input in range: exact values, congruence
  modulo the field modulus 3329 (\<open>cong_q\<close>) and bounds on the representatives.
\<close>

type_synonym portable_vector = "i16 list"

subsection \<open>Casts\<close>

definition as_u8_f5 :: "i16 \<Rightarrow> u8" where
  "as_u8_f5 self = word_of_int self"

definition as_i16_59 :: "u8 \<Rightarrow> i16" where
  "as_i16_59 self = as_i16 (uint self)"

definition as_i32_f5 :: "i16 \<Rightarrow> i32" where
  "as_i32_f5 self = self"

definition as_i16_36 :: "i32 \<Rightarrow> i16" where
  "as_i16_36 self = as_i16 self"

definition as_i32_b8 :: "u32 \<Rightarrow> i32" where
  "as_i32_b8 self = as_i32 (uint self)"

definition as_u16_f5 :: "i16 \<Rightarrow> u16" where
  "as_u16_f5 self = word_of_int self"

definition as_i16_ca :: "u16 \<Rightarrow> i16" where
  "as_i16_ca self = as_i16 (uint self)"

definition as_u64_ca :: "u16 \<Rightarrow> u64" where
  "as_u64_ca self = ucast self"

definition as_u32_a3 :: "u64 \<Rightarrow> u32" where
  "as_u32_a3 self = ucast self"

definition as_i16_b8 :: "u32 \<Rightarrow> i16" where
  "as_i16_b8 self = as_i16 (uint self)"

definition as_i16_f5 :: "i16 \<Rightarrow> i16" where
  "as_i16_f5 self = self"

subsection \<open>Constants\<close>

definition FIELD_ELEMENTS_IN_VECTOR :: nat where
  "FIELD_ELEMENTS_IN_VECTOR = 16"

definition MONTGOMERY_R_SQUARED_MOD_FIELD_MODULUS :: i16 where
  "MONTGOMERY_R_SQUARED_MOD_FIELD_MODULUS = 1353"

definition FIELD_MODULUS :: i16 where
  "FIELD_MODULUS = 3329"

definition INVERSE_OF_MODULUS_MOD_MONTGOMERY_R :: u32 where
  "INVERSE_OF_MODULUS_MOD_MONTGOMERY_R = 62209"

definition BARRETT_MULTIPLIER :: i32 where
  "BARRETT_MULTIPLIER = 20159"

definition BARRETT_SHIFT :: nat where
  "BARRETT_SHIFT = 26"

definition BARRETT_R :: i32 where
  "BARRETT_R = as_i32 (uint (push_bit BARRETT_SHIFT (1 :: u32)))"

definition MONTGOMERY_SHIFT :: nat where
  "MONTGOMERY_SHIFT = 16"

lemmas arith_consts =
  FIELD_ELEMENTS_IN_VECTOR_def MONTGOMERY_R_SQUARED_MOD_FIELD_MODULUS_def FIELD_MODULUS_def
  BARRETT_MULTIPLIER_def BARRETT_SHIFT_def MONTGOMERY_SHIFT_def

subsection \<open>The vector and its conversions\<close>

definition from_i16_array :: "i16 list \<Rightarrow> portable_vector" where
  "from_i16_array array = subslice array 0 16"

definition to_i16_array :: "portable_vector \<Rightarrow> i16 list" where
  "to_i16_array x = x"

definition vector_type_zero :: portable_vector where
  "vector_type_zero = replicate 16 0"

definition from_bytes :: "u8 list \<Rightarrow> portable_vector" where
  "from_bytes array =
     for_loop 0 FIELD_ELEMENTS_IN_VECTOR
       (\<lambda>i elements. elements[i := as_i16 (shl_i16 (as_i16_59 (array ! (2 * i + 1))) 8
                                            OR as_i16_59 (array ! (2 * i)))])
       (replicate 16 0)"

definition to_bytes :: "portable_vector \<Rightarrow> u8 list \<Rightarrow> u8 list" where
  "to_bytes x bytes =
     for_loop 0 FIELD_ELEMENTS_IN_VECTOR
       (\<lambda>i bytes. (bytes[2 * i + 1 := as_u8_f5 (as_i16 (drop_bit 8 (x ! i)))])
                        [2 * i := as_u8_f5 (x ! i)])
       bytes"

subsection \<open>Arithmetic\<close>

definition arithmetic_add :: "portable_vector \<Rightarrow> portable_vector \<Rightarrow> portable_vector" where
  "arithmetic_add lhs rhs =
     for_loop 0 FIELD_ELEMENTS_IN_VECTOR (\<lambda>i lhs. lhs[i := as_i16 (lhs ! i + rhs ! i)]) lhs"

definition arithmetic_sub :: "portable_vector \<Rightarrow> portable_vector \<Rightarrow> portable_vector" where
  "arithmetic_sub lhs rhs =
     for_loop 0 FIELD_ELEMENTS_IN_VECTOR (\<lambda>i lhs. lhs[i := as_i16 (lhs ! i - rhs ! i)]) lhs"

definition multiply_by_constant :: "portable_vector \<Rightarrow> i16 \<Rightarrow> portable_vector" where
  "multiply_by_constant vec c =
     for_loop 0 FIELD_ELEMENTS_IN_VECTOR (\<lambda>i vec. vec[i := as_i16 (vec ! i * c)]) vec"

definition cond_subtract_3329 :: "portable_vector \<Rightarrow> portable_vector" where
  "cond_subtract_3329 vec =
     for_loop 0 FIELD_ELEMENTS_IN_VECTOR
       (\<lambda>i vec. if vec ! i \<ge> 3329 then vec[i := as_i16 (vec ! i - 3329)] else vec) vec"

definition barrett_reduce_element :: "i16 \<Rightarrow> i16" where
  "barrett_reduce_element value =
     (let t = as_i32 (as_i32_f5 value * BARRETT_MULTIPLIER + drop_bit 1 BARRETT_R);
          quotient = as_i16_36 (drop_bit BARRETT_SHIFT t)
      in as_i16 (value - quotient * FIELD_MODULUS))"

definition barrett_reduce :: "portable_vector \<Rightarrow> portable_vector" where
  "barrett_reduce vec =
     for_loop 0 FIELD_ELEMENTS_IN_VECTOR
       (\<lambda>i vec. vec[i := barrett_reduce_element (vec ! i)]) vec"

definition montgomery_reduce_element :: "i32 \<Rightarrow> i16" where
  "montgomery_reduce_element value =
     (let k = as_i32 (as_i32_f5 (as_i16_36 value) * as_i32_b8 INVERSE_OF_MODULUS_MOD_MONTGOMERY_R);
          k_times_modulus = as_i32 (as_i32_f5 (as_i16_36 k) * as_i32_f5 FIELD_MODULUS);
          c = as_i16_36 (drop_bit MONTGOMERY_SHIFT k_times_modulus);
          value_high = as_i16_36 (drop_bit MONTGOMERY_SHIFT value)
      in as_i16 (value_high - c))"

definition montgomery_multiply_fe_by_fer :: "i16 \<Rightarrow> i16 \<Rightarrow> i16" where
  "montgomery_multiply_fe_by_fer fe fer =
     (let product = as_i32 (as_i32_f5 fe * as_i32_f5 fer)
      in montgomery_reduce_element product)"

definition montgomery_multiply_by_constant :: "portable_vector \<Rightarrow> i16 \<Rightarrow> portable_vector" where
  "montgomery_multiply_by_constant vec c =
     for_loop 0 FIELD_ELEMENTS_IN_VECTOR
       (\<lambda>i vec. vec[i := montgomery_multiply_fe_by_fer (vec ! i) c]) vec"

definition bitwise_and_with_constant :: "portable_vector \<Rightarrow> i16 \<Rightarrow> portable_vector" where
  "bitwise_and_with_constant vec c =
     for_loop 0 FIELD_ELEMENTS_IN_VECTOR (\<lambda>i vec. vec[i := as_i16 (vec ! i AND c)]) vec"

definition shift_right :: "nat \<Rightarrow> portable_vector \<Rightarrow> portable_vector" where
  "shift_right SHIFT_BY vec =
     for_loop 0 FIELD_ELEMENTS_IN_VECTOR (\<lambda>i vec. vec[i := as_i16 (drop_bit SHIFT_BY (vec ! i))]) vec"

definition to_unsigned_representative :: "portable_vector \<Rightarrow> portable_vector" where
  "to_unsigned_representative a =
     (let t = shift_right 15 a;
          fm = bitwise_and_with_constant t FIELD_MODULUS
      in arithmetic_add a fm)"

subsection \<open>Congruence modulo the field modulus\<close>

abbreviation cong_q :: "int \<Rightarrow> int \<Rightarrow> bool" where
  "cong_q \<equiv> cong_mod 3329"

lemmas cong_q_def = cong_mod_def [of 3329]
lemmas cong_q_refl = cong_mod_refl [of 3329]
lemmas cong_q_sym = cong_mod_sym [of 3329]
lemmas cong_q_trans = cong_mod_trans [of 3329]
lemmas cong_q_add = cong_mod_add [of 3329]
lemmas cong_q_diff = cong_mod_diff [of 3329]
lemmas cong_q_mult = cong_mod_mult [of 3329]
lemmas cong_q_intros = cong_q_add cong_q_diff cong_q_mult cong_q_refl
lemmas cong_q_multiple = cong_mod_multiple [where q = 3329]

text \<open>The Montgomery factor \<open>R = 2^16\<close> is invertible modulo 3329, with inverse 169.\<close>

lemma cong_q_montgomery: "cong_q (r * 65536) v \<Longrightarrow> cong_q r (v * 169)"
proof -
  assume "cong_q (r * 65536) v"
  then have "cong_q (r * 65536 * 169) (v * 169)" by (intro cong_q_mult) simp_all
  moreover have "cong_q r (r * 65536 * 169)"
    by (rule cong_q_sym, rule cong_q_multiple [where k = "r * 3327"]) simp
  ultimately show ?thesis by (rule cong_q_trans[rotated])
qed

subsection \<open>Reduction of one element\<close>

lemma BARRETT_R_val: "BARRETT_R = 67108864"
  by (simp add: BARRETT_R_def BARRETT_SHIFT_def as_i32_def)

lemma barrett_reduce_element_eq:
  assumes "is_i16 v"
  shows "barrett_reduce_element v = v - (v * 20159 + 33554432) div 67108864 * 3329"
    and "\<bar>barrett_reduce_element v\<bar> \<le> 1664"
proof -
  let ?qt = "(v * 20159 + 33554432) div 67108864"
  have v: "- 32768 \<le> v" "v \<le> 32767" using assms by (simp_all add: is_i16_def)
  have m: "?qt * 67108864 \<le> v * 20159 + 33554432" "v * 20159 + 33554432 < ?qt * 67108864 + 67108864"
    by linarith+
  have i32: "as_i32 (v * 20159 + 33554432) = v * 20159 + 33554432"
    using v by (simp add: is_i32_def)
  have "is_i16 ?qt" unfolding is_i16_def using v m by linarith
  moreover have b: "\<bar>v - ?qt * 3329\<bar> \<le> 1664" using v m by linarith
  moreover have "is_i16 (v - ?qt * 3329)" using b unfolding is_i16_def by linarith
  ultimately show "barrett_reduce_element v = v - ?qt * 3329"
    by (simp add: barrett_reduce_element_def arith_consts BARRETT_R_val as_i32_f5_def as_i16_36_def
        Let_def i32 drop_bit_eq_div)
  then show "\<bar>barrett_reduce_element v\<bar> \<le> 1664" using b by simp
qed

lemma barrett_reduce_element_cong: "is_i16 v \<Longrightarrow> cong_q (barrett_reduce_element v) v"
  by (rule cong_q_multiple [where k = "- ((v * 20159 + 33554432) div 67108864)"])
    (simp add: barrett_reduce_element_eq)

lemma montgomery_reduce_element_aux:
  assumes "\<bar>v\<bar> \<le> 3328 * 65536"
  shows "\<exists>k. is_i16 k \<and> montgomery_reduce_element v * 65536 = v - k * 3329"
proof -
  define k where "k = as_i16 (as_i16 v * 62209)"
  have ki: "is_i16 k" by (simp add: k_def as_i16_range)
  obtain a where a: "as_i16 v = v + 65536 * a" by (rule as_i16_decomp)
  obtain b where b: "k = as_i16 v * 62209 + 65536 * b" unfolding k_def by (rule as_i16_decomp)
  define h where "h = - (3160 * v + 3329 * 62209 * a + 3329 * b)"
  have h: "v - k * 3329 = 65536 * h" by (simp add: a b h_def algebra_simps)
  then have "v = k * 3329 + h * 65536" by simp
  then have "v div 65536 = h + k * 3329 div 65536" by simp
  then have vd: "v div 65536 - k * 3329 div 65536 = h" by simp
  have k: "- 32768 \<le> k" "k \<le> 32767" using ki by (simp_all add: is_i16_def)
  have v: "- (3328 * 65536) \<le> v" "v \<le> 3328 * 65536" using assms by linarith+
  have r16: "is_i16 (as_i16 v)" by (rule as_i16_range)
  have "as_i32 (as_i16 v * 62209) = as_i16 v * 62209"
    using r16 by (intro as_i32_id) (simp add: is_i16_def is_i32_def)
  moreover have "as_i32 (k * 3329) = k * 3329"
    using k by (simp add: is_i32_def)
  moreover have "as_i16 (k * 3329 div 65536) = k * 3329 div 65536"
    using k by (intro as_i16_id) (simp add: is_i16_def, linarith)
  moreover have "as_i16 (v div 65536) = v div 65536"
    using v by (intro as_i16_id) (simp add: is_i16_def, linarith)
  moreover have "as_i16 h = h"
    using h k v by (intro as_i16_id) (simp only: is_i16_def, linarith)
  ultimately have "montgomery_reduce_element v = h"
    by (simp add: montgomery_reduce_element_def arith_consts INVERSE_OF_MODULUS_MOD_MONTGOMERY_R_def
        as_i32_f5_def as_i16_36_def as_i32_b8_def Let_def drop_bit_eq_div is_i32_def vd
        flip: k_def)
  then show ?thesis using h ki by auto
qed

lemma montgomery_reduce_element_cong:
  "\<bar>v\<bar> \<le> 3328 * 65536 \<Longrightarrow> cong_q (montgomery_reduce_element v * 65536) v"
  using montgomery_reduce_element_aux [of v] by (metis cong_q_multiple add_uminus_conv_diff
      mult.commute mult_minus_right)

lemma montgomery_reduce_element_bound:
  assumes "\<bar>v\<bar> \<le> n * 65536" and "n \<le> 3328"
  shows "\<bar>montgomery_reduce_element v\<bar> \<le> n + 1664"
proof -
  have "\<bar>v\<bar> \<le> 3328 * 65536" using assms by linarith
  then obtain k where "is_i16 k" "montgomery_reduce_element v * 65536 = v - k * 3329"
    using montgomery_reduce_element_aux by blast
  then show ?thesis using assms unfolding is_i16_def by linarith
qed

text \<open>
  The product with a constant that is a reduced representative (\<open>|fer| \<le> 1664\<close>, as the zetas are):
  any 16-bit operand is allowed, and the result is again below the modulus in absolute value.
\<close>

lemma montgomery_multiply_product:
  assumes "is_i16 fe" and "\<bar>fer\<bar> \<le> 1664"
  shows "\<bar>fe * fer\<bar> \<le> 832 * 65536"
proof -
  have "\<bar>fe * fer\<bar> \<le> 32768 * 1664"
    unfolding abs_mult using assms by (intro mult_mono) (auto simp: is_i16_def)
  then show ?thesis by simp
qed

lemma montgomery_multiply_eq:
  "\<bar>fe * fer\<bar> \<le> 3328 * 65536 \<Longrightarrow>
   montgomery_multiply_fe_by_fer fe fer = montgomery_reduce_element (fe * fer)"
  by (simp add: montgomery_multiply_fe_by_fer_def as_i32_f5_def Let_def is_i32_def abs_le_iff)

lemma montgomery_multiply_cong:
  assumes "\<bar>fe * fer\<bar> \<le> 3328 * 65536"
  shows "cong_q (montgomery_multiply_fe_by_fer fe fer) (fe * fer * 169)"
  using assms montgomery_reduce_element_cong [of "fe * fer"]
  by (simp add: montgomery_multiply_eq cong_q_montgomery)

lemma montgomery_multiply_bound:
  assumes "is_i16 fe" and "\<bar>fer\<bar> \<le> 1664"
  shows "\<bar>montgomery_multiply_fe_by_fer fe fer\<bar> \<le> 2496"
  using montgomery_multiply_product [OF assms] montgomery_reduce_element_bound [of "fe * fer" 832]
  by (simp add: montgomery_multiply_eq)

lemma montgomery_multiply_bound_small:
  assumes "\<bar>fe\<bar> \<le> 3328" and "\<bar>fer\<bar> \<le> 3328"
  shows "\<bar>montgomery_multiply_fe_by_fer fe fer\<bar> \<le> 1833"
proof -
  have "\<bar>fe * fer\<bar> \<le> 3328 * 3328"
    unfolding abs_mult using assms by (intro mult_mono) auto
  then show ?thesis using montgomery_reduce_element_bound [of "fe * fer" 169]
    by (simp add: montgomery_multiply_eq)
qed

subsection \<open>Vector operations element by element\<close>

definition vec_ok :: "portable_vector \<Rightarrow> bool" where
  "vec_ok v \<longleftrightarrow> length v = 16 \<and> list_all is_i16 v"

definition vec_bounded :: "int \<Rightarrow> portable_vector \<Rightarrow> bool" where
  "vec_bounded b v \<longleftrightarrow> length v = 16 \<and> list_all (\<lambda>x. \<bar>x\<bar> \<le> b) v"

lemma vec_ok_nth: "vec_ok v \<Longrightarrow> i < 16 \<Longrightarrow> is_i16 (v ! i)"
  by (simp add: vec_ok_def list_all_length)

lemma vec_bounded_nth: "vec_bounded b v \<Longrightarrow> i < 16 \<Longrightarrow> \<bar>v ! i\<bar> \<le> b"
  by (simp add: vec_bounded_def list_all_length)

lemma vec_bounded_mono: "vec_bounded b v \<Longrightarrow> b \<le> c \<Longrightarrow> vec_bounded c v"
  by (auto simp: vec_bounded_def list_all_iff)

lemma vec_bounded_ok: "vec_bounded b v \<Longrightarrow> b \<le> 32767 \<Longrightarrow> vec_ok v"
  by (fastforce simp: vec_bounded_def vec_ok_def list_all_iff intro: is_i16_abs)

lemma length_vec_ok [simp]: "vec_ok v \<Longrightarrow> length v = 16" "vec_bounded b v \<Longrightarrow> length v = 16"
  by (simp_all add: vec_ok_def vec_bounded_def)

lemma arithmetic_add_eq [simp]:
  "length lhs = 16 \<Longrightarrow> length rhs = 16 \<Longrightarrow>
   arithmetic_add lhs rhs = map2 (\<lambda>x y. as_i16 (x + y)) lhs rhs"
  unfolding arithmetic_add_def arith_consts by (rule for_loop_map2) simp_all

lemma arithmetic_sub_eq [simp]:
  "length lhs = 16 \<Longrightarrow> length rhs = 16 \<Longrightarrow>
   arithmetic_sub lhs rhs = map2 (\<lambda>x y. as_i16 (x - y)) lhs rhs"
  unfolding arithmetic_sub_def arith_consts by (rule for_loop_map2) simp_all

lemma multiply_by_constant_eq [simp]:
  "length vec = 16 \<Longrightarrow> multiply_by_constant vec c = map (\<lambda>x. as_i16 (x * c)) vec"
  unfolding multiply_by_constant_def arith_consts by (rule for_loop_map) simp

lemma cond_subtract_3329_eq [simp]:
  assumes "length vec = 16"
  shows "cond_subtract_3329 vec = map (\<lambda>x. if x \<ge> 3329 then as_i16 (x - 3329) else x) vec"
proof -
  have "(if v ! i \<ge> 3329 then v[i := as_i16 (v ! i - 3329)] else v)
      = v[i := if v ! i \<ge> 3329 then as_i16 (v ! i - 3329) else v ! i]" for v :: "int list" and i
    by simp
  then show ?thesis
    unfolding cond_subtract_3329_def arith_consts
    by (simp only:) (rule for_loop_map, simp add: assms)
qed

lemma barrett_reduce_eq [simp]:
  "length vec = 16 \<Longrightarrow> barrett_reduce vec = map barrett_reduce_element vec"
  unfolding barrett_reduce_def arith_consts by (rule for_loop_map) simp

lemma montgomery_multiply_by_constant_eq [simp]:
  "length vec = 16 \<Longrightarrow>
   montgomery_multiply_by_constant vec c = map (\<lambda>x. montgomery_multiply_fe_by_fer x c) vec"
  unfolding montgomery_multiply_by_constant_def arith_consts by (rule for_loop_map) simp

lemma bitwise_and_with_constant_eq [simp]:
  "length vec = 16 \<Longrightarrow> bitwise_and_with_constant vec c = map (\<lambda>x. as_i16 (x AND c)) vec"
  unfolding bitwise_and_with_constant_def arith_consts by (rule for_loop_map) simp

lemma shift_right_eq [simp]:
  "length vec = 16 \<Longrightarrow> shift_right n vec = map (\<lambda>x. as_i16 (drop_bit n x)) vec"
  unfolding shift_right_def arith_consts by (rule for_loop_map) simp

text \<open>
  The sign mask: an arithmetic shift of a 16-bit value by 15 is 0 or -1, so that
  the masked modulus is added exactly to the negative coefficients.
\<close>

lemma drop_bit_15_i16: "is_i16 x \<Longrightarrow> drop_bit 15 x = (if x < 0 then - 1 else 0)"
  by (auto simp: is_i16_def drop_bit_eq_div)

lemma to_unsigned_representative_eq:
  assumes "vec_bounded 3328 a"
  shows "to_unsigned_representative a = map (\<lambda>x. if x < 0 then x + 3329 else x) a"
proof -
  have len: "length a = 16" using assms by simp
  have "to_unsigned_representative a
      = map2 (\<lambda>x y. as_i16 (x + y)) a (map (\<lambda>x. as_i16 (as_i16 (drop_bit 15 x) AND 3329)) a)"
    by (simp add: to_unsigned_representative_def arith_consts Let_def len comp_def)
  also have "\<dots> = map (\<lambda>x. if x < 0 then x + 3329 else x) a"
    using assms
    by (intro nth_equalityI)
      (auto simp: vec_bounded_def list_all_length drop_bit_15_i16 is_i16_abs is_i16_def abs_le_iff len)
  finally show ?thesis .
qed

subsection \<open>Properties\<close>

text \<open>
  Barrett reduction: for every 16-bit input (also beyond the bound 28296 the comment of the
  function states) the result is congruent to the input modulo 3329 and is the centred
  representative, of absolute value at most 1664; no intermediate value leaves its machine type.
\<close>

theorem barrett_reduce_element_correct:
  assumes "is_i16 v"
  shows "cong_q (barrett_reduce_element v) v
    \<and> \<bar>barrett_reduce_element v\<bar> \<le> 1664
    \<and> barrett_reduce_element v = (v + 1664) mod 3329 - 1664
    \<and> is_i32 (v * BARRETT_MULTIPLIER + drop_bit 1 BARRETT_R)"
proof (intro conjI)
  show c: "cong_q (barrett_reduce_element v) v"
    by (rule barrett_reduce_element_cong [OF assms])
  show b: "\<bar>barrett_reduce_element v\<bar> \<le> 1664"
    by (rule barrett_reduce_element_eq(2) [OF assms])
  have "(barrett_reduce_element v + 1664) mod 3329 = (v + 1664) mod 3329"
    using cong_q_add [OF c cong_q_refl, of 1664] by (simp add: cong_q_def)
  moreover have "(barrett_reduce_element v + 1664) mod 3329 = barrett_reduce_element v + 1664"
    using b by (intro mod_pos_pos_trivial) auto
  ultimately show "barrett_reduce_element v = (v + 1664) mod 3329 - 1664" by simp
  show "is_i32 (v * BARRETT_MULTIPLIER + drop_bit 1 BARRETT_R)"
    using assms by (simp add: is_i16_def is_i32_def BARRETT_MULTIPLIER_def BARRETT_R_val)
qed

theorem barrett_reduce_element_correct_witness:
  "barrett_reduce_element 28297 = - 1664 \<and> cong_q (barrett_reduce_element 28297) 28297
   \<and> barrett_reduce_element (- 32768) = 522"
  using barrett_reduce_element_correct [of 28297] barrett_reduce_element_correct [of "- 32768"]
  by (simp add: is_i16_def cong_q_def)

text \<open>
  Montgomery reduction: for every value of absolute value at most \<open>3328 * 2^16\<close> the result times \<open>2^16\<close>
  is congruent to the value modulo 3329, and the bounds the comment of the function promises hold:
  \<open>|value| / 2^16 + 1665\<close> in general, and \<open>3328\<close> for a product of two reduced field elements.
\<close>

theorem montgomery_reduce_element_correct:
  assumes "\<bar>v\<bar> \<le> 3328 * 65536"
  shows "cong_q (montgomery_reduce_element v * 65536) v
    \<and> \<bar>montgomery_reduce_element v\<bar> \<le> \<bar>v\<bar> div 65536 + 1665
    \<and> (\<bar>v\<bar> \<le> 3328 * 3328 \<longrightarrow> \<bar>montgomery_reduce_element v\<bar> \<le> 3328)"
proof (intro conjI impI)
  show "cong_q (montgomery_reduce_element v * 65536) v"
    by (rule montgomery_reduce_element_cong [OF assms])
  obtain k where k: "is_i16 k" "montgomery_reduce_element v * 65536 = v - k * 3329"
    using montgomery_reduce_element_aux [OF assms] by blast
  show "\<bar>montgomery_reduce_element v\<bar> \<le> \<bar>v\<bar> div 65536 + 1665"
    using k unfolding is_i16_def by linarith
  show "\<bar>montgomery_reduce_element v\<bar> \<le> 3328" if "\<bar>v\<bar> \<le> 3328 * 3328"
    using montgomery_reduce_element_bound [of v 169] that by linarith
qed

theorem montgomery_reduce_element_correct_witness:
  "cong_q (montgomery_reduce_element 11075584 * 65536) 11075584
   \<and> \<bar>montgomery_reduce_element 11075584\<bar> \<le> 3328"
  using montgomery_reduce_element_correct [of 11075584] by simp

end
