(* ===== verification/Libcrux_Bits.thy ===== *)
theory Libcrux_Bits
  imports Libcrux_Prelude
begin

section \<open>Bit streams\<close>

text \<open>
  Packing of \<open>d\<close>-bit coefficients into bytes, as a function on the stream of bits. Both schemes use it as the reference for their
  unrolled serializers: \<open>byte_encode\<close> and \<open>byte_decode\<close> are ByteEncode and ByteDecode of FIPS 203 and, with a change of interval
  before and after, the bit packing of FIPS 204. A packing is characterised by the equality of the two streams, which is what the
  component theories prove of the code.
\<close>

subsection \<open>Unsigned promotions\<close>

definition u32_of_u8 :: "u8 \<Rightarrow> u32" where
  "u32_of_u8 b = ucast b"

definition u8_of_u32 :: "u32 \<Rightarrow> u8" where
  "u8_of_u32 w = ucast w"

subsection \<open>Reference functions on bit streams\<close>

definition bits_of :: "nat \<Rightarrow> int \<Rightarrow> bool list" where
  "bits_of d x = map (bit x) [0..<d]"

definition byte_bits :: "u8 \<Rightarrow> bool list" where
  "byte_bits b = map (bit b) [0..<8]"

definition coeff_stream :: "nat \<Rightarrow> int list \<Rightarrow> bool list" where
  "coeff_stream d xs = concat (map (bits_of d) xs)"

definition byte_stream :: "u8 list \<Rightarrow> bool list" where
  "byte_stream bs = concat (map byte_bits bs)"

definition byte_encode :: "nat \<Rightarrow> int list \<Rightarrow> u8 list" where
  "byte_encode d xs = map (horner_sum of_bool 2) (chunks 8 (coeff_stream d xs))"

definition byte_decode :: "nat \<Rightarrow> u8 list \<Rightarrow> int list" where
  "byte_decode d bs = map (horner_sum of_bool 2) (chunks d (byte_stream bs))"

definition coeffs_in :: "nat \<Rightarrow> int list \<Rightarrow> bool" where
  "coeffs_in d xs \<longleftrightarrow> list_all (\<lambda>x. 0 \<le> x \<and> x < 2 ^ d) xs"

lemma length_bits_of [simp]: "length (bits_of d x) = d"
  by (simp add: bits_of_def)

lemma length_byte_bits [simp]: "length (byte_bits b) = 8"
  by (simp add: byte_bits_def)

lemma bits_of_inverse [simp]: "0 \<le> x \<Longrightarrow> x < 2 ^ d \<Longrightarrow> horner_sum of_bool 2 (bits_of d x) = x"
  by (simp add: bits_of_def horner_sum_bit_eq_take_bit take_bit_int_eq_self)

lemma byte_bits_inverse [simp]: "horner_sum of_bool 2 (byte_bits b) = b"
proof -
  have "take_bit 8 b = b" by (rule bit_word_eqI) (simp add: bit_simps)
  then show ?thesis by (simp add: byte_bits_def horner_sum_bit_eq_take_bit)
qed

lemma coeff_stream_append [simp]: "coeff_stream d (xs @ ys) = coeff_stream d xs @ coeff_stream d ys"
  by (simp add: coeff_stream_def)

lemma byte_stream_append [simp]: "byte_stream (xs @ ys) = byte_stream xs @ byte_stream ys"
  by (simp add: byte_stream_def)

lemma byte_encode_unique:
  assumes "byte_stream bs = coeff_stream d xs"
  shows "byte_encode d xs = bs"
  unfolding byte_encode_def assms [symmetric]
  by (simp add: byte_stream_def chunks_concat comp_def)

lemma byte_decode_unique:
  assumes "coeff_stream d xs = byte_stream bs" and "coeffs_in d xs" and "0 < d"
  shows "byte_decode d bs = xs"
  using assms(2,3) unfolding byte_decode_def assms(1) [symmetric]
  by (simp add: coeff_stream_def chunks_concat comp_def coeffs_in_def list_all_iff map_idI)

subsection \<open>Bits of bytes and coefficients\<close>

lemma bit_u8_high: "8 \<le> n \<Longrightarrow> \<not> bit (b :: u8) n"
  by (auto dest: bit_imp_le_length)

lemma and_low_masks:
  "x AND 1 = take_bit 1 x" "x AND 3 = take_bit 2 x" "x AND 7 = take_bit 3 x" "x AND 15 = take_bit 4 x"
  "x AND 31 = take_bit 5 x" "x AND 63 = take_bit 6 x" "x AND 127 = take_bit 7 x"
  "x AND 255 = take_bit 8 x" for x :: int
  by (simp_all add: take_bit_eq_mask mask_eq_exp_minus_1)

lemma and_low_masks_u32:
  "w AND 1 = take_bit 1 w" "w AND 3 = take_bit 2 w" "w AND 7 = take_bit 3 w" "w AND 15 = take_bit 4 w"
  "w AND 31 = take_bit 5 w" for w :: u32
  by (simp_all add: take_bit_eq_mask mask_eq_exp_minus_1)

definition fits :: "nat \<Rightarrow> int \<Rightarrow> bool" where
  "fits d x \<longleftrightarrow> (\<forall>n. bit x n \<longrightarrow> n < d)"

lemma fits_range: "fits d x \<Longrightarrow> 0 \<le> x \<and> x < 2 ^ d"
proof -
  assume "fits d x"
  then have "x = take_bit d x" by (intro bit_eqI) (auto simp: bit_simps fits_def)
  then show ?thesis using take_bit_nonnegative [of d x] take_bit_int_less_exp [of d x] by simp
qed

lemma coeffs_in_fits: "list_all (fits d) xs \<Longrightarrow> coeffs_in d xs"
  unfolding coeffs_in_def by (erule list.pred_mono_strong) (rule fits_range)

lemma coeffs_in_bit: "coeffs_in d v \<Longrightarrow> i < length v \<Longrightarrow> d \<le> n \<Longrightarrow> \<not> bit (v ! i) n"
proof -
  assume "coeffs_in d v" "i < length v" "d \<le> n"
  then have "take_bit d (v ! i) = v ! i"
    by (auto simp: coeffs_in_def list_all_length intro: take_bit_int_eq_self)
  then show ?thesis using \<open>d \<le> n\<close> by (metis bit_take_bit_iff not_le)
qed

lemma coeff_stream_nths:
  "length v = n \<Longrightarrow> coeff_stream d v = concat (map (\<lambda>i. bits_of d (v ! i)) [0..<n])"
  using map_nth_upt [of "bits_of d" v] by (simp add: coeff_stream_def)

lemma byte_stream_nths:
  "length bs = n \<Longrightarrow> byte_stream bs = concat (map (\<lambda>i. byte_bits (bs ! i)) [0..<n])"
  using map_nth_upt [of byte_bits bs] by (simp add: byte_stream_def)

lemma even_u32_of_u8: "even (ucast (b :: u8) :: u32) \<longleftrightarrow> even b"
  using bit_ucast_iff [of b 0, where 'a = 32] by (simp add: bit_0)

lemma coeffs_in_append [simp]: "coeffs_in d (xs @ ys) \<longleftrightarrow> coeffs_in d xs \<and> coeffs_in d ys"
  by (simp add: coeffs_in_def)

lemma coeffs_in_subslice: "coeffs_in d v \<Longrightarrow> coeffs_in d (subslice v i j)"
  unfolding coeffs_in_def subslice_def list_all_iff by (meson in_set_dropD in_set_takeD)

lemmas stream_unfold =
  byte_stream_def [of "_ # _"] byte_stream_def [of "[]"] coeff_stream_def [of _ "_ # _"]
  coeff_stream_def [of _ "[]"] byte_bits_def bits_of_def upt_evals Let_def

end
