(* ===== verification/MLKEM_Serialize.thy ===== *)
theory MLKEM_Serialize
  imports MLKEM_Arith Libcrux_Bits
begin

section \<open>Bit packing of vectors\<close>

text \<open>
  The packing of sixteen \<open>d\<close>-bit coefficients into \<open>2 * d\<close> bytes and back, for
  \<open>d = 1, 4, 5, 10, 11, 12\<close>: \<open>libcrux_mlkem_portable.c\<close> lines 70--245 and 1042--1680. The C structs of
  bytes or coefficients the \<open>_int\<close> functions return are lists here.

  The interface \<open>byte_codec\<close> states what a packing of width \<open>d\<close> promises: the stream of the
  output bits is the stream of the input bits. It is interpreted for all six widths; that
  each pair of functions agrees with the reference functions \<open>byte_encode\<close> and
  \<open>byte_decode\<close> (ByteEncode and ByteDecode of FIPS 203) and that the two are inverse to each other is
  proved once, inside the interface.
\<close>

subsection \<open>The packing functions\<close>

definition serialize_1 :: "portable_vector \<Rightarrow> u8 list" where
  "serialize_1 v =
     (let result0 = u8_of_u32 (((((((u32_of_u8 (as_u8_f5 (v ! 0))
              OR push_bit 1 (u32_of_u8 (as_u8_f5 (v ! 1))))
              OR push_bit 2 (u32_of_u8 (as_u8_f5 (v ! 2))))
              OR push_bit 3 (u32_of_u8 (as_u8_f5 (v ! 3))))
              OR push_bit 4 (u32_of_u8 (as_u8_f5 (v ! 4))))
              OR push_bit 5 (u32_of_u8 (as_u8_f5 (v ! 5))))
              OR push_bit 6 (u32_of_u8 (as_u8_f5 (v ! 6))))
              OR push_bit 7 (u32_of_u8 (as_u8_f5 (v ! 7))));
          result1 = u8_of_u32 (((((((u32_of_u8 (as_u8_f5 (v ! 8))
              OR push_bit 1 (u32_of_u8 (as_u8_f5 (v ! 9))))
              OR push_bit 2 (u32_of_u8 (as_u8_f5 (v ! 10))))
              OR push_bit 3 (u32_of_u8 (as_u8_f5 (v ! 11))))
              OR push_bit 4 (u32_of_u8 (as_u8_f5 (v ! 12))))
              OR push_bit 5 (u32_of_u8 (as_u8_f5 (v ! 13))))
              OR push_bit 6 (u32_of_u8 (as_u8_f5 (v ! 14))))
              OR push_bit 7 (u32_of_u8 (as_u8_f5 (v ! 15))))
      in [result0, result1])"

definition deserialize_1 :: "u8 list \<Rightarrow> portable_vector" where
  "deserialize_1 v =
     (let result0 = as_i16_59 (u8_of_u32 (u32_of_u8 (v ! 0) AND 1));
          result1 = as_i16_59 (u8_of_u32 (drop_bit 1 (u32_of_u8 (v ! 0)) AND 1));
          result2 = as_i16_59 (u8_of_u32 (drop_bit 2 (u32_of_u8 (v ! 0)) AND 1));
          result3 = as_i16_59 (u8_of_u32 (drop_bit 3 (u32_of_u8 (v ! 0)) AND 1));
          result4 = as_i16_59 (u8_of_u32 (drop_bit 4 (u32_of_u8 (v ! 0)) AND 1));
          result5 = as_i16_59 (u8_of_u32 (drop_bit 5 (u32_of_u8 (v ! 0)) AND 1));
          result6 = as_i16_59 (u8_of_u32 (drop_bit 6 (u32_of_u8 (v ! 0)) AND 1));
          result7 = as_i16_59 (u8_of_u32 (drop_bit 7 (u32_of_u8 (v ! 0)) AND 1));
          result8 = as_i16_59 (u8_of_u32 (u32_of_u8 (v ! 1) AND 1));
          result9 = as_i16_59 (u8_of_u32 (drop_bit 1 (u32_of_u8 (v ! 1)) AND 1));
          result10 = as_i16_59 (u8_of_u32 (drop_bit 2 (u32_of_u8 (v ! 1)) AND 1));
          result11 = as_i16_59 (u8_of_u32 (drop_bit 3 (u32_of_u8 (v ! 1)) AND 1));
          result12 = as_i16_59 (u8_of_u32 (drop_bit 4 (u32_of_u8 (v ! 1)) AND 1));
          result13 = as_i16_59 (u8_of_u32 (drop_bit 5 (u32_of_u8 (v ! 1)) AND 1));
          result14 = as_i16_59 (u8_of_u32 (drop_bit 6 (u32_of_u8 (v ! 1)) AND 1));
          result15 = as_i16_59 (u8_of_u32 (drop_bit 7 (u32_of_u8 (v ! 1)) AND 1))
      in [result0, result1, result2, result3, result4, result5, result6, result7, result8, result9, result10, result11, result12, result13, result14, result15])"

definition serialize_4_int :: "i16 list \<Rightarrow> u8 list" where
  "serialize_4_int v =
     (let result0 = u8_of_u32 (push_bit 4 (u32_of_u8 (as_u8_f5 (v ! 1)))
              OR u32_of_u8 (as_u8_f5 (v ! 0)));
          result1 = u8_of_u32 (push_bit 4 (u32_of_u8 (as_u8_f5 (v ! 3)))
              OR u32_of_u8 (as_u8_f5 (v ! 2)));
          result2 = u8_of_u32 (push_bit 4 (u32_of_u8 (as_u8_f5 (v ! 5)))
              OR u32_of_u8 (as_u8_f5 (v ! 4)));
          result3 = u8_of_u32 (push_bit 4 (u32_of_u8 (as_u8_f5 (v ! 7)))
              OR u32_of_u8 (as_u8_f5 (v ! 6)))
      in [result0, result1, result2, result3])"

definition serialize_4 :: "portable_vector \<Rightarrow> u8 list" where
  "serialize_4 v =
     serialize_4_int (subslice v 0 8) @
     serialize_4_int (subslice v 8 16)"

definition deserialize_4_int :: "u8 list \<Rightarrow> i16 list" where
  "deserialize_4_int bytes =
     (let v0 = as_i16_59 (u8_of_u32 (u32_of_u8 (bytes ! 0) AND 15));
          v1 = as_i16_59 (u8_of_u32 (drop_bit 4 (u32_of_u8 (bytes ! 0)) AND 15));
          v2 = as_i16_59 (u8_of_u32 (u32_of_u8 (bytes ! 1) AND 15));
          v3 = as_i16_59 (u8_of_u32 (drop_bit 4 (u32_of_u8 (bytes ! 1)) AND 15));
          v4 = as_i16_59 (u8_of_u32 (u32_of_u8 (bytes ! 2) AND 15));
          v5 = as_i16_59 (u8_of_u32 (drop_bit 4 (u32_of_u8 (bytes ! 2)) AND 15));
          v6 = as_i16_59 (u8_of_u32 (u32_of_u8 (bytes ! 3) AND 15));
          v7 = as_i16_59 (u8_of_u32 (drop_bit 4 (u32_of_u8 (bytes ! 3)) AND 15))
      in [v0, v1, v2, v3, v4, v5, v6, v7])"

definition deserialize_4 :: "u8 list \<Rightarrow> portable_vector" where
  "deserialize_4 bytes =
     deserialize_4_int (subslice bytes 0 4) @
     deserialize_4_int (subslice bytes 4 8)"

definition serialize_5_int :: "i16 list \<Rightarrow> u8 list" where
  "serialize_5_int v =
     (let r0 = as_u8_f5 (v ! 0 OR shl_i16 (v ! 1) 5);
          r1 = as_u8_f5 ((drop_bit 3 (v ! 1) OR shl_i16 (v ! 2) 2) OR shl_i16 (v ! 3) 7);
          r2 = as_u8_f5 (drop_bit 1 (v ! 3) OR shl_i16 (v ! 4) 4);
          r3 = as_u8_f5 ((drop_bit 4 (v ! 4) OR shl_i16 (v ! 5) 1) OR shl_i16 (v ! 6) 6);
          r4 = as_u8_f5 (drop_bit 2 (v ! 6) OR shl_i16 (v ! 7) 3)
      in [r0, r1, r2, r3, r4])"

definition serialize_5 :: "portable_vector \<Rightarrow> u8 list" where
  "serialize_5 v =
     serialize_5_int (subslice v 0 8) @
     serialize_5_int (subslice v 8 16)"

definition deserialize_5_int :: "u8 list \<Rightarrow> i16 list" where
  "deserialize_5_int bytes =
     (let v0 = as_i16_59 (u8_of_u32 (u32_of_u8 (bytes ! 0) AND 31));
          v1 = as_i16_59 (u8_of_u32 (push_bit 3 (u32_of_u8 (bytes ! 1) AND 3)
              OR drop_bit 5 (u32_of_u8 (bytes ! 0))));
          v2 = as_i16_59 (u8_of_u32 (drop_bit 2 (u32_of_u8 (bytes ! 1)) AND 31));
          v3 = as_i16_59 (u8_of_u32 (push_bit 1 (u32_of_u8 (bytes ! 2) AND 15)
              OR drop_bit 7 (u32_of_u8 (bytes ! 1))));
          v4 = as_i16_59 (u8_of_u32 (push_bit 4 (u32_of_u8 (bytes ! 3) AND 1)
              OR drop_bit 4 (u32_of_u8 (bytes ! 2))));
          v5 = as_i16_59 (u8_of_u32 (drop_bit 1 (u32_of_u8 (bytes ! 3)) AND 31));
          v6 = as_i16_59 (u8_of_u32 (push_bit 2 (u32_of_u8 (bytes ! 4) AND 7)
              OR drop_bit 6 (u32_of_u8 (bytes ! 3))));
          v7 = as_i16_59 (u8_of_u32 (drop_bit 3 (u32_of_u8 (bytes ! 4))))
      in [v0, v1, v2, v3, v4, v5, v6, v7])"

definition deserialize_5 :: "u8 list \<Rightarrow> portable_vector" where
  "deserialize_5 bytes =
     deserialize_5_int (subslice bytes 0 5) @
     deserialize_5_int (subslice bytes 5 10)"

definition serialize_10_int :: "i16 list \<Rightarrow> u8 list" where
  "serialize_10_int v =
     (let r0 = as_u8_f5 (v ! 0 AND 255);
          r1 = u8_of_u32 (push_bit 2 (u32_of_u8 (as_u8_f5 (v ! 1 AND 63)))
              OR u32_of_u8 (as_u8_f5 (drop_bit 8 (v ! 0) AND 3)));
          r2 = u8_of_u32 (push_bit 4 (u32_of_u8 (as_u8_f5 (v ! 2 AND 15)))
              OR u32_of_u8 (as_u8_f5 (drop_bit 6 (v ! 1) AND 15)));
          r3 = u8_of_u32 (push_bit 6 (u32_of_u8 (as_u8_f5 (v ! 3 AND 3)))
              OR u32_of_u8 (as_u8_f5 (drop_bit 4 (v ! 2) AND 63)));
          r4 = as_u8_f5 (drop_bit 2 (v ! 3) AND 255)
      in [r0, r1, r2, r3, r4])"

definition serialize_10 :: "portable_vector \<Rightarrow> u8 list" where
  "serialize_10 v =
     serialize_10_int (subslice v 0 4) @
     serialize_10_int (subslice v 4 8) @
     serialize_10_int (subslice v 8 12) @
     serialize_10_int (subslice v 12 16)"

definition deserialize_10_int :: "u8 list \<Rightarrow> i16 list" where
  "deserialize_10_int bytes =
     (let r0 = as_i16_f5 (shl_i16 (as_i16_59 (bytes ! 1) AND 3) 8
              OR (as_i16_59 (bytes ! 0) AND 255));
          r1 = as_i16_f5 (shl_i16 (as_i16_59 (bytes ! 2) AND 15) 6
              OR drop_bit 2 (as_i16_59 (bytes ! 1)));
          r2 = as_i16_f5 (shl_i16 (as_i16_59 (bytes ! 3) AND 63) 4
              OR drop_bit 4 (as_i16_59 (bytes ! 2)));
          r3 = as_i16_f5 (shl_i16 (as_i16_59 (bytes ! 4)) 2 OR drop_bit 6 (as_i16_59 (bytes ! 3)));
          r4 = as_i16_f5 (shl_i16 (as_i16_59 (bytes ! 6) AND 3) 8
              OR (as_i16_59 (bytes ! 5) AND 255));
          r5 = as_i16_f5 (shl_i16 (as_i16_59 (bytes ! 7) AND 15) 6
              OR drop_bit 2 (as_i16_59 (bytes ! 6)));
          r6 = as_i16_f5 (shl_i16 (as_i16_59 (bytes ! 8) AND 63) 4
              OR drop_bit 4 (as_i16_59 (bytes ! 7)));
          r7 = as_i16_f5 (shl_i16 (as_i16_59 (bytes ! 9)) 2 OR drop_bit 6 (as_i16_59 (bytes ! 8)))
      in [r0, r1, r2, r3, r4, r5, r6, r7])"

definition deserialize_10 :: "u8 list \<Rightarrow> portable_vector" where
  "deserialize_10 bytes =
     deserialize_10_int (subslice bytes 0 10) @
     deserialize_10_int (subslice bytes 10 20)"

definition serialize_11_int :: "i16 list \<Rightarrow> u8 list" where
  "serialize_11_int v =
     (let r0 = as_u8_f5 (v ! 0);
          r1 = u8_of_u32 (push_bit 3 (u32_of_u8 (as_u8_f5 (v ! 1 AND 31)))
              OR u32_of_u8 (as_u8_f5 (drop_bit 8 (v ! 0))));
          r2 = u8_of_u32 (push_bit 6 (u32_of_u8 (as_u8_f5 (v ! 2 AND 3)))
              OR u32_of_u8 (as_u8_f5 (drop_bit 5 (v ! 1))));
          r3 = as_u8_f5 (drop_bit 2 (v ! 2) AND 255);
          r4 = u8_of_u32 (push_bit 1 (u32_of_u8 (as_u8_f5 (v ! 3 AND 127)))
              OR u32_of_u8 (as_u8_f5 (drop_bit 10 (v ! 2))));
          r5 = u8_of_u32 (push_bit 4 (u32_of_u8 (as_u8_f5 (v ! 4 AND 15)))
              OR u32_of_u8 (as_u8_f5 (drop_bit 7 (v ! 3))));
          r6 = u8_of_u32 (push_bit 7 (u32_of_u8 (as_u8_f5 (v ! 5 AND 1)))
              OR u32_of_u8 (as_u8_f5 (drop_bit 4 (v ! 4))));
          r7 = as_u8_f5 (drop_bit 1 (v ! 5) AND 255);
          r8 = u8_of_u32 (push_bit 2 (u32_of_u8 (as_u8_f5 (v ! 6 AND 63)))
              OR u32_of_u8 (as_u8_f5 (drop_bit 9 (v ! 5))));
          r9 = u8_of_u32 (push_bit 5 (u32_of_u8 (as_u8_f5 (v ! 7 AND 7)))
              OR u32_of_u8 (as_u8_f5 (drop_bit 6 (v ! 6))));
          r10 = as_u8_f5 (drop_bit 3 (v ! 7))
      in [r0, r1, r2, r3, r4, r5, r6, r7, r8, r9, r10])"

definition serialize_11 :: "portable_vector \<Rightarrow> u8 list" where
  "serialize_11 v =
     serialize_11_int (subslice v 0 8) @
     serialize_11_int (subslice v 8 16)"

definition deserialize_11_int :: "u8 list \<Rightarrow> i16 list" where
  "deserialize_11_int bytes =
     (let r0 = shl_i16 (as_i16_59 (bytes ! 1) AND 7) 8 OR as_i16_59 (bytes ! 0);
          r1 = shl_i16 (as_i16_59 (bytes ! 2) AND 63) 5 OR drop_bit 3 (as_i16_59 (bytes ! 1));
          r2 = (shl_i16 (as_i16_59 (bytes ! 4) AND 1) 10 OR shl_i16 (as_i16_59 (bytes ! 3)) 2)
              OR drop_bit 6 (as_i16_59 (bytes ! 2));
          r3 = shl_i16 (as_i16_59 (bytes ! 5) AND 15) 7 OR drop_bit 1 (as_i16_59 (bytes ! 4));
          r4 = shl_i16 (as_i16_59 (bytes ! 6) AND 127) 4 OR drop_bit 4 (as_i16_59 (bytes ! 5));
          r5 = (shl_i16 (as_i16_59 (bytes ! 8) AND 3) 9 OR shl_i16 (as_i16_59 (bytes ! 7)) 1)
              OR drop_bit 7 (as_i16_59 (bytes ! 6));
          r6 = shl_i16 (as_i16_59 (bytes ! 9) AND 31) 6 OR drop_bit 2 (as_i16_59 (bytes ! 8));
          r7 = shl_i16 (as_i16_59 (bytes ! 10)) 3 OR drop_bit 5 (as_i16_59 (bytes ! 9))
      in [r0, r1, r2, r3, r4, r5, r6, r7])"

definition deserialize_11 :: "u8 list \<Rightarrow> portable_vector" where
  "deserialize_11 bytes =
     deserialize_11_int (subslice bytes 0 11) @
     deserialize_11_int (subslice bytes 11 22)"

definition serialize_12_int :: "i16 list \<Rightarrow> u8 list" where
  "serialize_12_int v =
     (let r0 = as_u8_f5 (v ! 0 AND 255);
          r1 = as_u8_f5 (drop_bit 8 (v ! 0) OR shl_i16 (v ! 1 AND 15) 4);
          r2 = as_u8_f5 (drop_bit 4 (v ! 1) AND 255)
      in [r0, r1, r2])"

definition serialize_12 :: "portable_vector \<Rightarrow> u8 list" where
  "serialize_12 v =
     serialize_12_int (subslice v 0 2) @
     serialize_12_int (subslice v 2 4) @
     serialize_12_int (subslice v 4 6) @
     serialize_12_int (subslice v 6 8) @
     serialize_12_int (subslice v 8 10) @
     serialize_12_int (subslice v 10 12) @
     serialize_12_int (subslice v 12 14) @
     serialize_12_int (subslice v 14 16)"

definition deserialize_12_int :: "u8 list \<Rightarrow> i16 list" where
  "deserialize_12_int bytes =
     (let byte0 = as_i16_59 (bytes ! 0);
          byte1 = as_i16_59 (bytes ! 1);
          byte2 = as_i16_59 (bytes ! 2);
          r0 = shl_i16 (byte1 AND 15) 8 OR (byte0 AND 255);
          r1 = shl_i16 byte2 4 OR (drop_bit 4 byte1 AND 15)
      in [r0, r1])"

definition deserialize_12 :: "u8 list \<Rightarrow> portable_vector" where
  "deserialize_12 bytes =
     deserialize_12_int (subslice bytes 0 3) @
     deserialize_12_int (subslice bytes 3 6) @
     deserialize_12_int (subslice bytes 6 9) @
     deserialize_12_int (subslice bytes 9 12) @
     deserialize_12_int (subslice bytes 12 15) @
     deserialize_12_int (subslice bytes 15 18) @
     deserialize_12_int (subslice bytes 18 21) @
     deserialize_12_int (subslice bytes 21 24)"

subsection \<open>The interface of a packing\<close>

locale byte_codec =
  fixes d :: nat and ser :: "int list \<Rightarrow> u8 list" and deser :: "u8 list \<Rightarrow> int list"
  assumes width_pos: "0 < d"
    and ser_length: "length v = 16 \<Longrightarrow> length (ser v) = 2 * d"
    and ser_stream: "length v = 16 \<Longrightarrow> coeffs_in d v \<Longrightarrow> byte_stream (ser v) = coeff_stream d v"
    and deser_length: "length bs = 2 * d \<Longrightarrow> length (deser bs) = 16"
    and deser_range: "length bs = 2 * d \<Longrightarrow> coeffs_in d (deser bs)"
    and deser_stream: "length bs = 2 * d \<Longrightarrow> coeff_stream d (deser bs) = byte_stream bs"
begin

lemma ser_eq_encode: "length v = 16 \<Longrightarrow> coeffs_in d v \<Longrightarrow> ser v = byte_encode d v"
  by (rule byte_encode_unique [symmetric], rule ser_stream)

lemma deser_eq_decode: "length bs = 2 * d \<Longrightarrow> deser bs = byte_decode d bs"
  by (rule byte_decode_unique [symmetric]) (simp_all add: deser_stream deser_range width_pos)

lemma deser_ser: "length v = 16 \<Longrightarrow> coeffs_in d v \<Longrightarrow> deser (ser v) = v"
  by (simp add: deser_eq_decode ser_length byte_decode_unique ser_stream width_pos)

lemma ser_deser: "length bs = 2 * d \<Longrightarrow> ser (deser bs) = bs"
  by (simp add: ser_eq_encode deser_length deser_range byte_encode_unique deser_stream)

end

lemma bit_shl_i16: "bit (shl_i16 x k) n \<longleftrightarrow> k \<le> min n 15 \<and> bit x (min n 15 - k)"
  by (auto simp: shl_i16_def as_i16_def bit_simps min.commute)

lemma bit_as_i16_59: "bit (as_i16_59 b) n \<longleftrightarrow> bit b n"
  by (auto simp: as_i16_59_def bit_uint_iff dest: bit_imp_le_length)

lemma fits_intros:
  "fits d x \<Longrightarrow> fits d y \<Longrightarrow> fits d (x OR y)"
  "k \<le> d \<Longrightarrow> fits d (take_bit k x)"
  "1 \<le> d \<Longrightarrow> fits d (x mod 2)"
  "1 + j \<le> d \<Longrightarrow> d \<le> 15 \<Longrightarrow> fits d (shl_i16 (x mod 2) j)"
  "8 \<le> d + k \<Longrightarrow> fits d (drop_bit k (as_i16_59 b))"
  "8 \<le> d \<Longrightarrow> fits d (as_i16_59 b)"
  "k + j \<le> d \<Longrightarrow> d \<le> 15 \<Longrightarrow> fits d (shl_i16 (take_bit k x) j)"
  "8 + j \<le> d \<Longrightarrow> d \<le> 15 \<Longrightarrow> fits d (shl_i16 (as_i16_59 b) j)"
  by (fastforce simp: fits_def bit_simps bit_as_i16_59 bit_shl_i16 min_def split: if_splits
      dest: bit_imp_le_length)+

definition fits_u32 :: "nat \<Rightarrow> u32 \<Rightarrow> bool" where
  "fits_u32 d w \<longleftrightarrow> (\<forall>n. bit w n \<longrightarrow> n < d)"

lemma fits_u32_intros:
  "fits_u32 d w \<Longrightarrow> fits_u32 d w' \<Longrightarrow> fits_u32 d (w OR w')"
  "k \<le> d \<Longrightarrow> fits_u32 d (take_bit k w)"
  "1 \<le> d \<Longrightarrow> fits_u32 d (w mod 2)"
  "8 \<le> d + k \<Longrightarrow> fits_u32 d (drop_bit k (u32_of_u8 b))"
  "k + j \<le> d \<Longrightarrow> fits_u32 d (push_bit j (take_bit k w))"
  "1 + j \<le> d \<Longrightarrow> fits_u32 d (push_bit j (w mod 2))"
  by (fastforce simp: fits_u32_def bit_simps u32_of_u8_def dest: bit_imp_le_length)+

lemma fits_u8_of_u32: "fits_u32 d w \<Longrightarrow> fits d (as_i16_59 (u8_of_u32 w))"
  by (auto simp: fits_def fits_u32_def bit_as_i16_59 u8_of_u32_def bit_simps)

lemma bit_as_i16_59_0: "odd (as_i16_59 b) \<longleftrightarrow> odd b"
  using bit_as_i16_59 [of b 0] by (simp add: bit_0)

lemmas packing_bits =
  u8_of_u32_def u32_of_u8_def as_u8_f5_def as_i16_f5_def bit_simps bit_shl_i16 bit_as_i16_59
  and_low_masks and_low_masks_u32 bit_u8_high bit_as_i16_59_0

lemmas packing_parity = bit_0 eval_nat_numeral even_drop_bit_iff_not_bit bit_ucast_iff even_u32_of_u8
lemmas fits_packing = and_low_masks and_low_masks_u32 fits_intros fits_u32_intros fits_u8_of_u32

lemma serialize_1_stream:
  assumes "length v = 16" and "coeffs_in 1 v"
  shows "byte_stream (serialize_1 v) = coeff_stream 1 v"
  by (simp add: coeff_stream_nths [OF assms(1)] serialize_1_def stream_unfold del: push_bit_Suc)
    (simp add: packing_bits coeffs_in_bit [OF assms(2)] assms(1) del: push_bit_Suc,
      (simp add: packing_parity)?)

lemma deserialize_1_stream:
  assumes "length bs = 2"
  shows "coeff_stream 1 (deserialize_1 bs) = byte_stream bs"
  by (simp add: byte_stream_nths [OF assms] deserialize_1_def stream_unfold del: push_bit_Suc)
    (simp add: packing_bits del: push_bit_Suc, (simp add: packing_parity)?)

lemma deserialize_1_range: "coeffs_in 1 (deserialize_1 bs)"
  by (rule coeffs_in_fits) (simp add: deserialize_1_def Let_def as_i16_f5_def fits_packing
      del: push_bit_Suc)

lemma serialize_4_int_stream:
  assumes "length v = 8" and "coeffs_in 4 v"
  shows "byte_stream (serialize_4_int v) = coeff_stream 4 v"
  by (simp add: coeff_stream_nths [OF assms(1)] serialize_4_int_def stream_unfold del: push_bit_Suc)
    (simp add: packing_bits coeffs_in_bit [OF assms(2)] assms(1) del: push_bit_Suc,
      (simp add: packing_parity)?)

lemma deserialize_4_int_stream:
  assumes "length bs = 4"
  shows "coeff_stream 4 (deserialize_4_int bs) = byte_stream bs"
  by (simp add: byte_stream_nths [OF assms] deserialize_4_int_def stream_unfold del: push_bit_Suc)
    (simp add: packing_bits del: push_bit_Suc, (simp add: packing_parity)?)

lemma deserialize_4_int_range: "coeffs_in 4 (deserialize_4_int bs)"
  by (rule coeffs_in_fits) (simp add: deserialize_4_int_def Let_def as_i16_f5_def fits_packing
      del: push_bit_Suc)

lemma serialize_5_int_stream:
  assumes "length v = 8" and "coeffs_in 5 v"
  shows "byte_stream (serialize_5_int v) = coeff_stream 5 v"
  by (simp add: coeff_stream_nths [OF assms(1)] serialize_5_int_def stream_unfold del: push_bit_Suc)
    (simp add: packing_bits coeffs_in_bit [OF assms(2)] assms(1) del: push_bit_Suc,
      (simp add: packing_parity)?)

lemma deserialize_5_int_stream:
  assumes "length bs = 5"
  shows "coeff_stream 5 (deserialize_5_int bs) = byte_stream bs"
  by (simp add: byte_stream_nths [OF assms] deserialize_5_int_def stream_unfold del: push_bit_Suc)
    (simp add: packing_bits del: push_bit_Suc, (simp add: packing_parity)?)

lemma deserialize_5_int_range: "coeffs_in 5 (deserialize_5_int bs)"
  by (rule coeffs_in_fits) (simp add: deserialize_5_int_def Let_def as_i16_f5_def fits_packing
      del: push_bit_Suc)

lemma serialize_10_int_stream:
  assumes "length v = 4" and "coeffs_in 10 v"
  shows "byte_stream (serialize_10_int v) = coeff_stream 10 v"
  by (simp add: coeff_stream_nths [OF assms(1)] serialize_10_int_def stream_unfold del: push_bit_Suc)
    (simp add: packing_bits coeffs_in_bit [OF assms(2)] assms(1) del: push_bit_Suc,
      (simp add: packing_parity)?)

lemma deserialize_10_int_stream:
  assumes "length bs = 10"
  shows "coeff_stream 10 (deserialize_10_int bs) = byte_stream bs"
  by (simp add: byte_stream_nths [OF assms] deserialize_10_int_def stream_unfold del: push_bit_Suc)
    (simp add: packing_bits del: push_bit_Suc, (simp add: packing_parity)?)

lemma deserialize_10_int_range: "coeffs_in 10 (deserialize_10_int bs)"
  by (rule coeffs_in_fits) (simp add: deserialize_10_int_def Let_def as_i16_f5_def fits_packing
      del: push_bit_Suc)

lemma serialize_11_int_stream:
  assumes "length v = 8" and "coeffs_in 11 v"
  shows "byte_stream (serialize_11_int v) = coeff_stream 11 v"
  by (simp add: coeff_stream_nths [OF assms(1)] serialize_11_int_def stream_unfold del: push_bit_Suc)
    (simp add: packing_bits coeffs_in_bit [OF assms(2)] assms(1) del: push_bit_Suc,
      (simp add: packing_parity)?)

lemma deserialize_11_int_stream:
  assumes "length bs = 11"
  shows "coeff_stream 11 (deserialize_11_int bs) = byte_stream bs"
  by (simp add: byte_stream_nths [OF assms] deserialize_11_int_def stream_unfold del: push_bit_Suc)
    (simp add: packing_bits del: push_bit_Suc, (simp add: packing_parity)?)

lemma deserialize_11_int_range: "coeffs_in 11 (deserialize_11_int bs)"
  by (rule coeffs_in_fits) (simp add: deserialize_11_int_def Let_def as_i16_f5_def fits_packing
      del: push_bit_Suc)

lemma serialize_12_int_stream:
  assumes "length v = 2" and "coeffs_in 12 v"
  shows "byte_stream (serialize_12_int v) = coeff_stream 12 v"
  by (simp add: coeff_stream_nths [OF assms(1)] serialize_12_int_def stream_unfold del: push_bit_Suc)
    (simp add: packing_bits coeffs_in_bit [OF assms(2)] assms(1) del: push_bit_Suc,
      (simp add: packing_parity)?)

lemma deserialize_12_int_stream:
  assumes "length bs = 3"
  shows "coeff_stream 12 (deserialize_12_int bs) = byte_stream bs"
  by (simp add: byte_stream_nths [OF assms] deserialize_12_int_def stream_unfold del: push_bit_Suc)
    (simp add: packing_bits del: push_bit_Suc, (simp add: packing_parity)?)

lemma deserialize_12_int_range: "coeffs_in 12 (deserialize_12_int bs)"
  by (rule coeffs_in_fits) (simp add: deserialize_12_int_def Let_def as_i16_f5_def fits_packing
      del: push_bit_Suc)

subsection \<open>The six packings provide the interface\<close>

text \<open>A vector is packed block by block; a block of the vector is a vector of coefficients in range.\<close>

lemma deser_length_simps [simp]:
  "length (deserialize_1 bs) = 16" "length (deserialize_4 bs) = 16" "length (deserialize_5 bs) = 16"
  "length (deserialize_10 bs) = 16" "length (deserialize_11 bs) = 16" "length (deserialize_12 bs) = 16"
  by (simp_all add: deserialize_1_def deserialize_4_def deserialize_4_int_def deserialize_5_def
      deserialize_5_int_def deserialize_10_def deserialize_10_int_def deserialize_11_def
      deserialize_11_int_def deserialize_12_def deserialize_12_int_def Let_def)

lemma ser_length_simps [simp]:
  "length (serialize_1 v) = 2" "length (serialize_4 v) = 8" "length (serialize_5 v) = 10"
  "length (serialize_10 v) = 20" "length (serialize_11 v) = 22" "length (serialize_12 v) = 24"
  by (simp_all add: serialize_1_def serialize_4_def serialize_4_int_def serialize_5_def
      serialize_5_int_def serialize_10_def serialize_10_int_def serialize_11_def
      serialize_11_int_def serialize_12_def serialize_12_int_def Let_def)

lemma serialize_4_stream:
  "length v = 16 \<Longrightarrow> coeffs_in 4 v \<Longrightarrow> byte_stream (serialize_4 v) = coeff_stream 4 v"
  by (simp add: serialize_4_def serialize_4_int_stream coeffs_in_subslice)
    (simp add: subslice_append subslice_full flip: coeff_stream_append)

lemma deserialize_4_stream:
  "length bs = 8 \<Longrightarrow> coeff_stream 4 (deserialize_4 bs) = byte_stream bs"
  by (simp add: deserialize_4_def deserialize_4_int_stream)
    (simp add: subslice_append subslice_full flip: byte_stream_append)

lemma deserialize_4_range: "coeffs_in 4 (deserialize_4 bs)"
  by (simp add: deserialize_4_def deserialize_4_int_range)

lemma serialize_5_stream:
  "length v = 16 \<Longrightarrow> coeffs_in 5 v \<Longrightarrow> byte_stream (serialize_5 v) = coeff_stream 5 v"
  by (simp add: serialize_5_def serialize_5_int_stream coeffs_in_subslice)
    (simp add: subslice_append subslice_full flip: coeff_stream_append)

lemma deserialize_5_stream:
  "length bs = 10 \<Longrightarrow> coeff_stream 5 (deserialize_5 bs) = byte_stream bs"
  by (simp add: deserialize_5_def deserialize_5_int_stream)
    (simp add: subslice_append subslice_full flip: byte_stream_append)

lemma deserialize_5_range: "coeffs_in 5 (deserialize_5 bs)"
  by (simp add: deserialize_5_def deserialize_5_int_range)

lemma serialize_10_stream:
  "length v = 16 \<Longrightarrow> coeffs_in 10 v \<Longrightarrow> byte_stream (serialize_10 v) = coeff_stream 10 v"
  by (simp add: serialize_10_def serialize_10_int_stream coeffs_in_subslice)
    (simp add: subslice_append subslice_full flip: coeff_stream_append)

lemma deserialize_10_stream:
  "length bs = 20 \<Longrightarrow> coeff_stream 10 (deserialize_10 bs) = byte_stream bs"
  by (simp add: deserialize_10_def deserialize_10_int_stream)
    (simp add: subslice_append subslice_full flip: byte_stream_append)

lemma deserialize_10_range: "coeffs_in 10 (deserialize_10 bs)"
  by (simp add: deserialize_10_def deserialize_10_int_range)

lemma serialize_11_stream:
  "length v = 16 \<Longrightarrow> coeffs_in 11 v \<Longrightarrow> byte_stream (serialize_11 v) = coeff_stream 11 v"
  by (simp add: serialize_11_def serialize_11_int_stream coeffs_in_subslice)
    (simp add: subslice_append subslice_full flip: coeff_stream_append)

lemma deserialize_11_stream:
  "length bs = 22 \<Longrightarrow> coeff_stream 11 (deserialize_11 bs) = byte_stream bs"
  by (simp add: deserialize_11_def deserialize_11_int_stream)
    (simp add: subslice_append subslice_full flip: byte_stream_append)

lemma deserialize_11_range: "coeffs_in 11 (deserialize_11 bs)"
  by (simp add: deserialize_11_def deserialize_11_int_range)

lemma serialize_12_stream:
  "length v = 16 \<Longrightarrow> coeffs_in 12 v \<Longrightarrow> byte_stream (serialize_12 v) = coeff_stream 12 v"
  by (simp add: serialize_12_def serialize_12_int_stream coeffs_in_subslice)
    (simp add: subslice_append subslice_full flip: coeff_stream_append)

lemma deserialize_12_stream:
  "length bs = 24 \<Longrightarrow> coeff_stream 12 (deserialize_12 bs) = byte_stream bs"
  by (simp add: deserialize_12_def deserialize_12_int_stream)
    (simp add: subslice_append subslice_full flip: byte_stream_append)

lemma deserialize_12_range: "coeffs_in 12 (deserialize_12 bs)"
  by (simp add: deserialize_12_def deserialize_12_int_range)

interpretation codec_1: byte_codec 1 serialize_1 deserialize_1
  by unfold_locales
    (simp_all add: serialize_1_stream deserialize_1_stream deserialize_1_range del: One_nat_def)

interpretation codec_4: byte_codec 4 serialize_4 deserialize_4
  by unfold_locales (simp_all add: serialize_4_stream deserialize_4_stream deserialize_4_range)

interpretation codec_5: byte_codec 5 serialize_5 deserialize_5
  by unfold_locales (simp_all add: serialize_5_stream deserialize_5_stream deserialize_5_range)

interpretation codec_10: byte_codec 10 serialize_10 deserialize_10
  by unfold_locales (simp_all add: serialize_10_stream deserialize_10_stream deserialize_10_range)

interpretation codec_11: byte_codec 11 serialize_11 deserialize_11
  by unfold_locales (simp_all add: serialize_11_stream deserialize_11_stream deserialize_11_range)

interpretation codec_12: byte_codec 12 serialize_12 deserialize_12
  by unfold_locales (simp_all add: serialize_12_stream deserialize_12_stream deserialize_12_range)

subsection \<open>Properties\<close>

text \<open>
  C16. Packing: for each of the six widths, the bytes of a vector of coefficients in range are the
  bytes of ByteEncode of FIPS 203.
\<close>

theorem serialize_correct:
  assumes "length v = 16"
  shows "(coeffs_in 1 v \<longrightarrow> serialize_1 v = byte_encode 1 v)
    \<and> (coeffs_in 4 v \<longrightarrow> serialize_4 v = byte_encode 4 v)
    \<and> (coeffs_in 5 v \<longrightarrow> serialize_5 v = byte_encode 5 v)
    \<and> (coeffs_in 10 v \<longrightarrow> serialize_10 v = byte_encode 10 v)
    \<and> (coeffs_in 11 v \<longrightarrow> serialize_11 v = byte_encode 11 v)
    \<and> (coeffs_in 12 v \<longrightarrow> serialize_12 v = byte_encode 12 v)"
  using assms codec_1.ser_eq_encode codec_4.ser_eq_encode codec_5.ser_eq_encode
    codec_10.ser_eq_encode codec_11.ser_eq_encode codec_12.ser_eq_encode by blast

theorem serialize_correct_witness:
  "serialize_12 (replicate 16 3328) = byte_encode 12 (replicate 16 3328)
   \<and> serialize_5 (replicate 16 31) = byte_encode 5 (replicate 16 31)"
  using serialize_correct [of "replicate 16 3328"] serialize_correct [of "replicate 16 31"]
  by (simp add: coeffs_in_def list_all_iff)

text \<open>
  C17. Unpacking: for each of the six widths the unpacked coefficients are those of ByteDecode, packing
  them gives back the bytes, and unpacking packed coefficients gives back the coefficients.
\<close>

theorem deserialize_correct:
  shows "(length bs = 2 \<longrightarrow> deserialize_1 bs = byte_decode 1 bs \<and> serialize_1 (deserialize_1 bs) = bs)
    \<and> (length bs = 8 \<longrightarrow> deserialize_4 bs = byte_decode 4 bs \<and> serialize_4 (deserialize_4 bs) = bs)
    \<and> (length bs = 10 \<longrightarrow> deserialize_5 bs = byte_decode 5 bs \<and> serialize_5 (deserialize_5 bs) = bs)
    \<and> (length bs = 20 \<longrightarrow> deserialize_10 bs = byte_decode 10 bs \<and> serialize_10 (deserialize_10 bs) = bs)
    \<and> (length bs = 22 \<longrightarrow> deserialize_11 bs = byte_decode 11 bs \<and> serialize_11 (deserialize_11 bs) = bs)
    \<and> (length bs = 24 \<longrightarrow> deserialize_12 bs = byte_decode 12 bs \<and> serialize_12 (deserialize_12 bs) = bs)
    \<and> (length v = 16 \<and> coeffs_in 12 v \<longrightarrow> deserialize_12 (serialize_12 v) = v)
    \<and> (length v = 16 \<and> coeffs_in 11 v \<longrightarrow> deserialize_11 (serialize_11 v) = v)
    \<and> (length v = 16 \<and> coeffs_in 10 v \<longrightarrow> deserialize_10 (serialize_10 v) = v)
    \<and> (length v = 16 \<and> coeffs_in 5 v \<longrightarrow> deserialize_5 (serialize_5 v) = v)
    \<and> (length v = 16 \<and> coeffs_in 4 v \<longrightarrow> deserialize_4 (serialize_4 v) = v)
    \<and> (length v = 16 \<and> coeffs_in 1 v \<longrightarrow> deserialize_1 (serialize_1 v) = v)"
  using codec_1.deser_eq_decode [of bs] codec_4.deser_eq_decode [of bs] codec_5.deser_eq_decode [of bs]
    codec_10.deser_eq_decode [of bs] codec_11.deser_eq_decode [of bs] codec_12.deser_eq_decode [of bs]
    codec_1.ser_deser [of bs] codec_4.ser_deser [of bs] codec_5.ser_deser [of bs]
    codec_10.ser_deser [of bs] codec_11.ser_deser [of bs] codec_12.ser_deser [of bs]
    codec_1.deser_ser [of v] codec_4.deser_ser [of v] codec_5.deser_ser [of v]
    codec_10.deser_ser [of v] codec_11.deser_ser [of v] codec_12.deser_ser [of v]
  by (simp del: One_nat_def)

theorem deserialize_correct_witness:
  "serialize_11 (deserialize_11 (replicate 22 171)) = replicate 22 171
   \<and> deserialize_11 (serialize_11 (replicate 16 2047)) = replicate 16 2047"
  using deserialize_correct [of "replicate 22 171" "replicate 16 2047"]
  by (simp add: coeffs_in_def list_all_iff) metis

end
