(* ===== verification/MLKEM_Compress.thy ===== *)
theory MLKEM_Compress
  imports MLKEM_Serialize
begin

section \<open>Compression and decompression of coefficients\<close>

text \<open>
  Lossy compression of field elements to \<open>d\<close> bits: \<open>libcrux_mlkem_portable.c\<close> lines 629--700, 4226--4290,
  4525--4610, 4832--4925 and 5040--5130. The C file has one copy of the vector functions per
  value of \<open>COEFFICIENT_BITS\<close> (4, 5, 10, 11); the definitions here take it as an argument.

  The lemmas show that the constant-time code (no division, a multiplication by 10321340 and a shift)
  computes the rounding of FIPS 203, \<open>compress_spec\<close> and \<open>decompress_spec\<close>, and give the round trip and
  the error bound of the lossy direction.
\<close>

subsection \<open>Operations\<close>

definition shl_i32 :: "i32 \<Rightarrow> nat \<Rightarrow> i32" where
  "shl_i32 x k = as_i32 (uint (push_bit k (word_of_int x :: u32)))"

definition compress_message_coefficient :: "u16 \<Rightarrow> u8" where
  "compress_message_coefficient fe =
     (let shifted = as_i16 (1664 - as_i16_ca fe);
          mask = as_i16 (drop_bit 15 shifted);
          shifted_to_positive = as_i16 (mask XOR shifted);
          shifted_positive_in_range = as_i16 (shifted_to_positive - 832);
          r0 = as_i16 (drop_bit 15 shifted_positive_in_range);
          r1 = as_i16 (r0 AND 1)
      in as_u8_f5 r1)"

definition compress_1 :: "portable_vector \<Rightarrow> portable_vector" where
  "compress_1 a =
     for_loop 0 FIELD_ELEMENTS_IN_VECTOR
       (\<lambda>i a. a[i := as_i16_59 (compress_message_coefficient (as_u16_f5 (a ! i)))]) a"

definition get_n_least_significant_bits :: "u8 \<Rightarrow> u32 \<Rightarrow> u32" where
  "get_n_least_significant_bits n v = v AND (push_bit (unat n) 1 - 1)"

definition compress_ciphertext_coefficient :: "u8 \<Rightarrow> u16 \<Rightarrow> i16" where
  "compress_ciphertext_coefficient coefficient_bits fe =
     (let compressed = push_bit (unat coefficient_bits) (as_u64_ca fe);
          compressed = compressed + 1664;
          compressed = compressed * 10321340;
          compressed = drop_bit 35 compressed
      in as_i16_b8 (get_n_least_significant_bits coefficient_bits (as_u32_a3 compressed)))"

definition decompress_1 :: "portable_vector \<Rightarrow> portable_vector" where
  "decompress_1 a =
     (let z = vector_type_zero;
          s = arithmetic_sub z a;
          res = bitwise_and_with_constant s 1665
      in res)"

definition compress :: "nat \<Rightarrow> portable_vector \<Rightarrow> portable_vector" where
  "compress COEFFICIENT_BITS a =
     for_loop 0 FIELD_ELEMENTS_IN_VECTOR
       (\<lambda>i a. a[i := as_i16_f5 (compress_ciphertext_coefficient (of_nat COEFFICIENT_BITS)
                                   (as_u16_f5 (a ! i)))]) a"

definition decompress_ciphertext_coefficient :: "nat \<Rightarrow> portable_vector \<Rightarrow> portable_vector" where
  "decompress_ciphertext_coefficient COEFFICIENT_BITS a =
     for_loop 0 FIELD_ELEMENTS_IN_VECTOR
       (\<lambda>i a.
          let decompressed = as_i32 (as_i32_f5 (a ! i) * as_i32_f5 FIELD_MODULUS);
              decompressed = as_i32 (shl_i32 decompressed 1 + shl_i32 1 COEFFICIENT_BITS);
              decompressed = as_i32 (drop_bit (COEFFICIENT_BITS + 1) decompressed)
          in a[i := as_i16_36 decompressed]) a"

subsection \<open>Reference functions\<close>

text \<open>
  Compress and Decompress of FIPS 203 (expressions 4.7 and 4.8): \<open>2^d / q * x\<close> and \<open>q / 2^d * y\<close>, rounded
  to the nearest integer with ties up, written with integer division.
\<close>

definition compress_spec :: "nat \<Rightarrow> int \<Rightarrow> int" where
  "compress_spec d x = ((2 ^ (d + 1) * x + 3329) div 6658) mod 2 ^ d"

definition decompress_spec :: "nat \<Rightarrow> int \<Rightarrow> int" where
  "decompress_spec d y = (2 * 3329 * y + 2 ^ d) div 2 ^ (d + 1)"

text \<open>The coefficients a ciphertext or message is compressed from: reduced field elements.\<close>

definition in_field :: "int \<Rightarrow> bool" where
  "in_field x \<longleftrightarrow> 0 \<le> x \<and> x < 3329"

subsection \<open>One coefficient\<close>

lemma as_i16_ca_id: "0 \<le> x \<Longrightarrow> x \<le> 32767 \<Longrightarrow> as_i16_ca (as_u16_f5 x) = x"
  by (simp add: as_i16_ca_def as_u16_f5_def is_i16_def unsigned_of_int take_bit_int_eq_self)

lemma compress_message_coefficient_val:
  assumes "in_field x"
  shows "compress_message_coefficient (as_u16_f5 x) = (if 833 \<le> x \<and> x \<le> 2496 then 1 else 0)"
proof -
  have x: "0 \<le> x" "x < 3329" using assms by (simp_all add: in_field_def)
  let ?p = "if x \<le> 1664 then 1664 - x else x - 1665"
  have "as_i16 (1664 - x) = 1664 - x" using x by (simp add: is_i16_def)
  moreover have "as_i16 (drop_bit 15 (1664 - x)) = (if x \<le> 1664 then 0 else - 1)"
    using x by (simp add: drop_bit_15_i16 is_i16_def)
  moreover have "as_i16 ((if x \<le> 1664 then 0 else - 1) XOR (1664 - x)) = ?p"
    using x by (simp add: not_int_def is_i16_def)
  moreover have "as_i16 (?p - 832) = ?p - 832" using x by (simp add: is_i16_def)
  moreover have "as_i16 (drop_bit 15 (?p - 832)) = (if ?p < 832 then - 1 else 0)"
    using x by (simp add: drop_bit_15_i16 is_i16_def)
  ultimately have "compress_message_coefficient (as_u16_f5 x)
      = as_u8_f5 (as_i16 ((if ?p < 832 then - 1 else 0) AND 1))"
    using x by (simp only: compress_message_coefficient_def as_i16_ca_id Let_def)
  also have "(?p < 832) = (833 \<le> x \<and> x \<le> 2496)" by auto
  finally show ?thesis by (auto simp: as_u8_f5_def is_i16_def)
qed

lemma compress_spec_alt: "compress_spec d x = ((2 ^ d * x + 1664) div 3329) mod 2 ^ d"
proof -
  have "(2 * n + 3329) div 6658 = (n + 1664) div 3329" for n :: int by linarith
  from this [of "2 ^ d * x"] show ?thesis by (simp add: compress_spec_def mult.assoc)
qed

lemma compress_spec_1:
  assumes "in_field x"
  shows "compress_spec 1 x = (if 833 \<le> x \<and> x \<le> 2496 then 1 else 0)"
proof -
  have "(2 * x + 1664) div 3329 = (if x \<le> 832 then 0 else if x \<le> 2496 then 1 else 2)"
    using assms unfolding in_field_def by auto
  then show ?thesis by (simp add: compress_spec_alt)
qed

text \<open>
  The division by 3329 as multiplication and shift: exact for every numerator a coefficient of
  at most eleven bits can give.
\<close>

lemma magic_division:
  fixes y :: int
  assumes "0 \<le> y" and "y < 6818000"
  shows "y * 10321340 div 34359738368 = y div 3329"
proof -
  define k r where "k = y div 3329" and "r = y mod 3329"
  have y: "y = 3329 * k + r" by (simp add: k_def r_def)
  have "0 \<le> r" "r < 3329" "0 \<le> k" using assms by (auto simp: r_def k_def)
  moreover have "k \<le> 2048" using assms(2) calculation unfolding y by linarith
  ultimately have "0 \<le> k * 2492 + r * 10321340" "k * 2492 + r * 10321340 < 34359738368" by linarith+
  then have "(k * 2492 + r * 10321340) div 34359738368 = 0" by simp
  moreover have "y * 10321340 = (k * 2492 + r * 10321340) + k * 34359738368" unfolding y by simp
  ultimately show ?thesis by (simp only: div_mult_self1) (simp add: k_def)
qed

lemma get_n_bits_val: "get_n_least_significant_bits n v = take_bit (unat n) v"
  by (simp add: get_n_least_significant_bits_def take_bit_eq_mask mask_eq_exp_minus_1 push_bit_eq_mult)

lemma compress_numerator_bound:
  assumes "in_field x" and "d \<le> 11"
  shows "0 \<le> 2 ^ d * x + 1664" "2 ^ d * x + 1664 < 6818000"
proof -
  have "(2 :: int) ^ d \<le> 2 ^ 11" using assms(2) by (intro power_increasing) auto
  then have "2 ^ d * x \<le> 2048 * 3328"
    using assms(1) by (intro mult_mono) (auto simp: in_field_def)
  then show "2 ^ d * x + 1664 < 6818000" by simp
  show "0 \<le> 2 ^ d * x + 1664" using assms(1) by (simp add: in_field_def)
qed

lemma compress_ciphertext_coefficient_val:
  assumes "in_field x" and "d \<le> 11"
  shows "compress_ciphertext_coefficient (of_nat d) (as_u16_f5 x) = compress_spec d x"
proof -
  define y where "y = 2 ^ d * x + 1664"
  have y: "0 \<le> y" "y < 6818000" using compress_numerator_bound [OF assms] by (simp_all add: y_def)
  have d: "unat (of_nat d :: u8) = d" using assms(2) by (simp add: unat_of_nat)
  have fe: "as_u64_ca (as_u16_f5 x) = word_of_int x"
    using assms(1) by (simp add: as_u64_ca_def as_u16_f5_def in_field_def unsigned_of_int take_bit_int_eq_self)
  have "push_bit d (word_of_int x :: u64) + 1664 = word_of_int y"
    by (simp add: y_def push_bit_eq_mult mult.commute)
  moreover have "drop_bit 35 (word_of_int y * 10321340 :: u64) = word_of_int (y div 3329)"
  proof -
    have "uint (word_of_int (y * 10321340) :: u64) = y * 10321340"
      using y by (subst uint_word_of_int) simp
    moreover have "uint (drop_bit 35 w) = uint w div 34359738368" for w :: u64
      using uint_lt2p [of w] by (simp only: unsigned_drop_bit_eq)
        (simp add: drop_bit_eq_div take_bit_int_eq_self)
    ultimately have "uint (drop_bit 35 (word_of_int (y * 10321340) :: u64)) = y * 10321340 div 34359738368"
      by metis
    then have "uint (drop_bit 35 (word_of_int (y * 10321340) :: u64)) = y div 3329"
      by (simp only: magic_division [OF y])
    then have "word_of_int (uint (drop_bit 35 (word_of_int (y * 10321340) :: u64)))
        = (word_of_int (y div 3329) :: u64)" by (simp only:)
    then show ?thesis by simp
  qed
  moreover have "as_u32_a3 (word_of_int (y div 3329)) = word_of_int (y div 3329)"
  proof -
    have "0 \<le> y div 3329" "y div 3329 < 2 ^ 64" using y by auto
    then show ?thesis by (simp add: as_u32_a3_def unsigned_of_int take_bit_int_eq_self)
  qed
  moreover have "as_i16_b8 (take_bit d (word_of_int (y div 3329))) = (y div 3329) mod 2 ^ d"
  proof -
    have "uint (take_bit d (word_of_int (y div 3329) :: u32)) = take_bit d (y div 3329)"
      using assms(2) by (simp add: unsigned_take_bit_eq unsigned_of_int take_bit_take_bit)
    moreover have "take_bit d (y div 3329) < 2 ^ 11"
      by (rule order_less_le_trans [OF take_bit_int_less_exp], rule power_increasing [OF assms(2)]) simp
    moreover have "0 \<le> take_bit d (y div 3329)" by simp
    ultimately show ?thesis by (simp add: as_i16_b8_def is_i16_abs flip: take_bit_eq_mod)
  qed
  ultimately show ?thesis
    by (simp only: compress_ciphertext_coefficient_def Let_def d fe get_n_bits_val compress_spec_alt
        flip: y_def)
qed

text \<open>Decompression: no intermediate value leaves its machine type, and the result is a field element.\<close>

lemma shl_i32_val: "0 \<le> x \<Longrightarrow> x * 2 ^ k < 2147483648 \<Longrightarrow> shl_i32 x k = x * 2 ^ k"
proof -
  assume x: "0 \<le> x" "x * 2 ^ k < 2147483648"
  have "push_bit k (word_of_int x :: u32) = word_of_int (x * 2 ^ k)"
    by (simp add: push_bit_eq_mult)
  moreover have "uint (word_of_int (x * 2 ^ k) :: u32) = x * 2 ^ k"
    using x by (subst uint_word_of_int) simp
  moreover have "is_i32 (x * 2 ^ k)"
    using x zero_le_power [of "2 :: int" k] by (simp add: is_i32_def order_trans [of "- 2147483648" 0])
  ultimately show ?thesis by (simp only: shl_i32_def as_i32_id)
qed

lemma decompress_spec_range:
  assumes "0 \<le> y" and "y < 2 ^ d" and "d \<le> 11"
  shows "in_field (decompress_spec d y)"
proof -
  have p: "0 < (2 :: int) ^ d" by simp
  have "(2 :: int) ^ d \<le> 2048" using power_increasing [of d 11 "2 :: int"] assms(3) by simp
  then have "2 * 3329 * y + 2 ^ d < 3329 * 2 ^ (d + 1)" using assms(2) by simp
  then have "decompress_spec d y < 3329"
    unfolding decompress_spec_def by (intro int_div_less) simp_all
  moreover have "0 \<le> decompress_spec d y"
    unfolding decompress_spec_def using assms p by (simp add: pos_imp_zdiv_nonneg_iff)
  ultimately show ?thesis by (simp add: in_field_def)
qed

lemma decompress_coefficient_val:
  assumes "0 \<le> y" and "y < 2 ^ d" and "d \<le> 11"
  shows "as_i16_36 (as_i32 (drop_bit (d + 1)
      (as_i32 (shl_i32 (as_i32 (as_i32_f5 y * as_i32_f5 FIELD_MODULUS)) 1 + shl_i32 1 d))))
    = decompress_spec d y"
proof -
  have d: "(2 :: int) ^ d \<le> 2048" using power_increasing [of d 11 "2 :: int"] assms(3) by simp
  have y: "y < 2048" using assms(2) d by simp
  have a: "as_i32 (y * 3329) = y * 3329" using assms(1) y by (simp add: is_i32_def)
  have b: "shl_i32 (y * 3329) 1 = y * 3329 * 2" using assms(1) y by (simp add: shl_i32_val)
  have c: "shl_i32 1 d = 2 ^ d" using d by (simp add: shl_i32_val)
  have e: "as_i32 (y * 3329 * 2 + 2 ^ d) = y * 3329 * 2 + 2 ^ d"
    using assms(1) y d zero_le_power [of "2 :: int" d]
    by (intro as_i32_id) (simp only: is_i32_def, linarith)
  have r: "in_field (decompress_spec d y)" using assms by (rule decompress_spec_range)
  have f: "drop_bit (d + 1) (y * 3329 * 2 + 2 ^ d) = decompress_spec d y"
    by (simp add: drop_bit_eq_div decompress_spec_def mult.commute)
  show ?thesis
    using r unfolding as_i32_f5_def as_i16_36_def FIELD_MODULUS_def a b c e f
    by (simp add: in_field_def is_i32_def is_i16_def)
qed

subsection \<open>Vectors\<close>

lemma compress_1_eq:
  assumes "length a = 16" and "list_all in_field a"
  shows "compress_1 a = map (compress_spec 1) a"
proof -
  have "compress_1 a = map (\<lambda>x. as_i16_59 (compress_message_coefficient (as_u16_f5 x))) a"
    unfolding compress_1_def arith_consts by (rule for_loop_map) (simp add: assms(1))
  also have "\<dots> = map (compress_spec 1) a"
    using assms(2)
    by (auto simp: list_all_iff compress_message_coefficient_val compress_spec_1 as_i16_59_def is_i16_def
        simp del: One_nat_def)
  finally show ?thesis .
qed

lemma compress_eq:
  assumes "length a = 16" and "list_all in_field a" and "d \<le> 11"
  shows "compress d a = map (compress_spec d) a"
proof -
  have "compress d a
      = map (\<lambda>x. as_i16_f5 (compress_ciphertext_coefficient (of_nat d) (as_u16_f5 x))) a"
    unfolding compress_def arith_consts by (rule for_loop_map) (simp add: assms(1))
  also have "\<dots> = map (compress_spec d) a"
    using assms(2,3) by (simp add: list_all_iff compress_ciphertext_coefficient_val as_i16_f5_def)
  finally show ?thesis .
qed

lemma decompress_ciphertext_coefficient_eq:
  assumes "length a = 16" and "coeffs_in d a" and "d \<le> 11"
  shows "decompress_ciphertext_coefficient d a = map (decompress_spec d) a"
proof -
  have "decompress_ciphertext_coefficient d a = map (\<lambda>y. as_i16_36 (as_i32 (drop_bit (d + 1)
      (as_i32 (shl_i32 (as_i32 (as_i32_f5 y * as_i32_f5 FIELD_MODULUS)) 1 + shl_i32 1 d))))) a"
    unfolding decompress_ciphertext_coefficient_def FIELD_ELEMENTS_IN_VECTOR_def Let_def
    by (rule for_loop_map) (simp add: assms(1))
  also have "\<dots> = map (decompress_spec d) a"
    using assms(2,3)
    by (intro map_cong refl decompress_coefficient_val) (auto simp: coeffs_in_def list_all_iff)
  finally show ?thesis .
qed

lemma decompress_1_eq:
  assumes "length a = 16" and "coeffs_in 1 a"
  shows "decompress_1 a = map (decompress_spec 1) a"
proof -
  have "decompress_1 a = map (\<lambda>x. as_i16 (as_i16 (0 - x) AND 1665)) a"
    using assms(1)
    by (simp add: decompress_1_def vector_type_zero_def Let_def map2_map_map zip_replicate1 comp_def)
  also have "as_i16 (as_i16 (0 - x) AND 1665) = decompress_spec 1 x" if "x \<in> set a" for x
  proof -
    have "x = 0 \<or> x = 1" using assms(2) that by (auto simp: coeffs_in_def list_all_iff)
    then show ?thesis by (auto simp: decompress_spec_def is_i16_def)
  qed
  then have "map (\<lambda>x. as_i16 (as_i16 (0 - x) AND 1665)) a = map (decompress_spec 1) a" by simp
  finally show ?thesis .
qed

lemma compress_spec_range: "coeffs_in d (map (compress_spec d) a)"
  by (simp add: coeffs_in_def list_all_iff compress_spec_def)

lemma decompress_spec_list: "d \<le> 11 \<Longrightarrow> coeffs_in d a \<Longrightarrow> list_all in_field (map (decompress_spec d) a)"
  by (auto simp: coeffs_in_def list_all_iff decompress_spec_range)

subsection \<open>Round trip and error of the lossy direction\<close>

text \<open>The rounding of \<open>decompress_spec\<close>: twice the result is within one unit of the exact quotient.\<close>

lemma decompress_spec_bounds:
  "2 ^ (d + 1) * decompress_spec d y \<le> 6658 * y + 2 ^ d"
  "6658 * y < 2 ^ (d + 1) * decompress_spec d y + 2 ^ d"
proof -
  let ?n = "2 * 3329 * y + 2 ^ d"
  have "2 ^ (d + 1) * (?n div 2 ^ (d + 1)) + ?n mod 2 ^ (d + 1) = ?n" by (rule mult_div_mod_eq)
  moreover have "0 \<le> ?n mod 2 ^ (d + 1)" "?n mod 2 ^ (d + 1) < 2 * 2 ^ d" by simp_all
  ultimately show "2 ^ (d + 1) * decompress_spec d y \<le> 6658 * y + 2 ^ d"
    and "6658 * y < 2 ^ (d + 1) * decompress_spec d y + 2 ^ d"
    unfolding decompress_spec_def by linarith+
qed

lemma compress_decompress_spec:
  assumes "0 \<le> y" and "y < 2 ^ d" and "d \<le> 11"
  shows "compress_spec d (decompress_spec d y) = y"
proof -
  define t where "t = 2 ^ d * decompress_spec d y"
  have d: "(2 :: int) ^ d \<le> 2048" using power_increasing [of d 11 "2 :: int"] assms(3) by simp
  have "2 * t \<le> 6658 * y + 2 ^ d" "6658 * y < 2 * t + 2 ^ d"
    using decompress_spec_bounds [where d = d and y = y] by (simp_all add: t_def)
  then have "(t + 1664) div 3329 = y" using d by linarith
  then show ?thesis using assms(1,2) by (simp add: compress_spec_alt flip: t_def)
qed

lemma decompress_spec_wrap: "decompress_spec d (2 ^ d) = 3329"
proof -
  have "decompress_spec d (2 ^ d) = (2 ^ d + 3329 * 2 ^ (d + 1)) div 2 ^ (d + 1)"
    by (simp add: decompress_spec_def)
  also have "\<dots> = 3329 + 2 ^ d div 2 ^ (d + 1)" by (rule div_mult_self1) simp
  finally show ?thesis by simp
qed

lemma decompress_compress_spec:
  assumes "in_field x" and "d \<le> 11"
  shows "\<exists>e. \<bar>e\<bar> \<le> (3329 + 2 ^ d) div 2 ^ (d + 1) \<and> cong_q (decompress_spec d (compress_spec d x)) (x + e)"
proof -
  define m where "m = (2 :: int) ^ d"
  have m: "1 \<le> m" by (simp add: m_def)
  define k where "k = (m * x + 1664) div 3329"
  have x: "0 \<le> x" "x \<le> 3328" using assms(1) by (simp_all add: in_field_def)
  have mx: "0 \<le> m * x" "m * x \<le> m * 3328" using x m by (auto intro: mult_left_mono)
  have k: "3329 * k \<le> m * x + 1664" "m * x + 1664 < 3329 * k + 3329" "0 \<le> k" "k \<le> m"
    using mx m unfolding k_def by linarith+
  define e where "e = decompress_spec d k - x"
  have b: "2 * (m * decompress_spec d k) \<le> 6658 * k + m" "6658 * k < 2 * (m * decompress_spec d k) + m"
    using decompress_spec_bounds [where d = d and y = k] by (simp_all add: m_def)
  have "2 * m * \<bar>e\<bar> \<le> m + 3329"
  proof -
    have "2 * m * e \<le> m + 3329" "- (2 * m * e) \<le> m + 3329"
      using b k unfolding e_def by (simp_all add: algebra_simps)
    then show ?thesis by (simp add: abs_if)
  qed
  then have "\<bar>e\<bar> \<le> (3329 + m) div (2 * m)"
    using m by (intro int_le_div) (simp_all add: ac_simps)
  moreover have "cong_q (decompress_spec d (compress_spec d x)) (x + e)"
  proof (cases "k = m")
    case True
    have "compress_spec d x = 0" using True by (simp add: compress_spec_alt k_def flip: m_def)
    moreover have "x + e = 3329" using True by (simp add: e_def m_def decompress_spec_wrap)
    ultimately show ?thesis by (simp add: cong_q_def decompress_spec_def)
  next
    case False
    then have "compress_spec d x = k" using k by (simp add: compress_spec_alt flip: m_def k_def)
    then show ?thesis by (simp add: e_def)
  qed
  ultimately show ?thesis by (auto simp: m_def)
qed

subsection \<open>Properties\<close>

text \<open>
  C18. Compression of a vector of reduced field elements, as the constant-time code computes it, is the
  rounding of FIPS 203 on every coefficient, for the one-bit messages and for every ciphertext width
  up to eleven bits.
\<close>

theorem compress_correct:
  assumes "length a = 16" and "list_all in_field a" and "d \<le> 11"
  shows "compress_1 a = map (compress_spec 1) a \<and> compress d a = map (compress_spec d) a"
  using compress_1_eq [OF assms(1,2)] compress_eq [OF assms] by simp

theorem compress_correct_witness:
  "compress_1 (replicate 16 833) = replicate 16 1 \<and> compress 10 (replicate 16 3328) = replicate 16 0"
  using compress_correct [of "replicate 16 833" 10] compress_correct [of "replicate 16 3328" 10]
  by (simp add: in_field_def compress_spec_def list_all_iff)

text \<open>
  Decompression computes the rounding of FIPS 203 without overflow, and compressing a
  decompressed vector gives back the vector.
\<close>

theorem decompress_correct:
  assumes "length a = 16" and "coeffs_in d a" and "d \<le> 11"
  shows "decompress_ciphertext_coefficient d a = map (decompress_spec d) a
    \<and> compress d (decompress_ciphertext_coefficient d a) = a"
proof -
  have e: "decompress_ciphertext_coefficient d a = map (decompress_spec d) a"
    by (rule decompress_ciphertext_coefficient_eq [OF assms])
  have "compress d (decompress_ciphertext_coefficient d a) = map (compress_spec d) (map (decompress_spec d) a)"
    unfolding e by (rule compress_eq) (use assms in \<open>simp_all add: decompress_spec_list del: list.pred_map\<close>)
  also have "\<dots> = a"
    using assms(2,3) by (auto simp: coeffs_in_def list_all_iff compress_decompress_spec intro!: map_idI)
  finally show ?thesis using e by simp
qed

theorem decompress_correct_witness:
  "decompress_ciphertext_coefficient 4 (replicate 16 15) = replicate 16 3121
   \<and> compress 4 (decompress_ciphertext_coefficient 4 (replicate 16 15)) = replicate 16 15"
  using decompress_correct [of "replicate 16 15" 4]
  by (simp add: coeffs_in_def decompress_spec_def list_all_iff del: One_nat_def) metis

text \<open>
  C19. What a coefficient loses: compressing to \<open>d\<close> bits and decompressing again changes the coefficient
  by at most \<open>q / 2^(d+1)\<close>, rounded, modulo \<open>q\<close>; the bound the failure analysis of ML-KEM rests on.
\<close>

theorem decompress_compress_error:
  assumes "length a = 16" and "list_all in_field a" and "d \<le> 11" and "i < 16"
  shows "\<exists>e. \<bar>e\<bar> \<le> (3329 + 2 ^ d) div 2 ^ (d + 1)
    \<and> cong_q (decompress_ciphertext_coefficient d (compress d a) ! i) (a ! i + e)"
proof -
  have "decompress_ciphertext_coefficient d (compress d a)
      = map (decompress_spec d) (map (compress_spec d) a)"
    unfolding compress_eq [OF assms(1-3)]
    by (rule decompress_ciphertext_coefficient_eq) (simp_all add: assms compress_spec_range)
  then have "decompress_ciphertext_coefficient d (compress d a) ! i
      = decompress_spec d (compress_spec d (a ! i))" using assms(1,4) by simp
  moreover have "in_field (a ! i)" using assms(1,2,4) by (simp add: list_all_length)
  ultimately show ?thesis using decompress_compress_spec [of "a ! i" d] assms(3) by simp
qed

theorem decompress_compress_error_witness:
  "\<exists>e. \<bar>e\<bar> \<le> 104 \<and> cong_q (decompress_ciphertext_coefficient 4 (compress 4 (replicate 16 100)) ! 3) (100 + e)"
  using decompress_compress_error [of "replicate 16 100" 4 3] by (simp add: in_field_def list_all_iff)

end
