(* ===== verification/MLKEM_RingSerialize.thy ===== *)
theory MLKEM_RingSerialize
  imports MLKEM_Compress
begin

section \<open>Ring elements and their encodings\<close>

text \<open>
  A ring element (\<open>PolynomialRingElement\<close>) is an array of sixteen vectors, 256 coefficients in all. This
  theory holds the encodings of whole ring elements in \<open>libcrux_mlkem_portable.c\<close>: uncompressed
  (twelve bits per coefficient, keys), compressed (10, 11, 4, 5 bits, ciphertexts) and messages (one
  bit), lines 1741--1800, 2372--2405, 2728--2750, 4291--4330, 4419--4440, 4558--4655, 4867--4968,
  5075--5178 and 5250--5275.

  The lemmas about the loops over the vectors of a ring element are proved once for the interface
  \<open>byte_codec\<close>; through its interpretations every encoding is \<open>byte_encode\<close> of the (compressed)
  coefficients modulo 3329, and every decoding is \<open>byte_decode\<close>.
\<close>

type_synonym ring_element = "portable_vector list"

definition VECTORS_IN_RING_ELEMENT :: nat where
  "VECTORS_IN_RING_ELEMENT = 16"

definition ZERO_d6 :: ring_element where
  "ZERO_d6 = replicate 16 vector_type_zero"

subsection \<open>Uncompressed ring elements\<close>

definition to_unsigned_field_modulus :: "portable_vector \<Rightarrow> portable_vector" where
  "to_unsigned_field_modulus a = to_unsigned_representative a"

definition serialize_uncompressed_ring_element :: "ring_element \<Rightarrow> u8 list" where
  "serialize_uncompressed_ring_element re =
     for_loop 0 VECTORS_IN_RING_ELEMENT
       (\<lambda>i serialized.
          let coefficient = to_unsigned_field_modulus (re ! i);
              bytes = serialize_12 coefficient
          in slice_copy serialized (24 * i) bytes)
       (replicate 384 0)"

definition deserialize_to_uncompressed_ring_element :: "u8 list \<Rightarrow> ring_element" where
  "deserialize_to_uncompressed_ring_element serialized =
     for_loop 0 (length serialized div 24)
       (\<lambda>i re.
          let bytes = subslice serialized (i * 24) (i * 24 + 24)
          in re[i := deserialize_12 bytes])
       ZERO_d6"

definition deserialize_to_reduced_ring_element :: "u8 list \<Rightarrow> ring_element" where
  "deserialize_to_reduced_ring_element serialized =
     for_loop 0 (length serialized div 24)
       (\<lambda>i re.
          let bytes = subslice serialized (i * 24) (i * 24 + 24);
              coefficient = deserialize_12 bytes
          in re[i := cond_subtract_3329 coefficient])
       ZERO_d6"

subsection \<open>Messages\<close>

definition deserialize_then_decompress_message :: "u8 list \<Rightarrow> ring_element" where
  "deserialize_then_decompress_message serialized =
     for_loop 0 16
       (\<lambda>i re.
          let coefficient_compressed = deserialize_1 (subslice serialized (2 * i) (2 * i + 2))
          in re[i := decompress_1 coefficient_compressed])
       ZERO_d6"

definition compress_then_serialize_message :: "ring_element \<Rightarrow> u8 list" where
  "compress_then_serialize_message re =
     for_loop 0 16
       (\<lambda>i serialized.
          let coefficient = to_unsigned_field_modulus (re ! i);
              coefficient_compressed = compress_1 coefficient;
              bytes = serialize_1 coefficient_compressed
          in slice_copy serialized (2 * i) bytes)
       (replicate 32 0)"

subsection \<open>Compressed ring elements\<close>

definition compress_then_serialize_10 :: "ring_element \<Rightarrow> u8 list" where
  "compress_then_serialize_10 re =
     for_loop 0 VECTORS_IN_RING_ELEMENT
       (\<lambda>i serialized.
          let coefficient = compress 10 (to_unsigned_field_modulus (re ! i));
              bytes = serialize_10 coefficient
          in slice_copy serialized (20 * i) bytes)
       (replicate 320 0)"

definition compress_then_serialize_11 :: "ring_element \<Rightarrow> u8 list" where
  "compress_then_serialize_11 re =
     for_loop 0 VECTORS_IN_RING_ELEMENT
       (\<lambda>i serialized.
          let coefficient = compress 11 (to_unsigned_representative (re ! i));
              bytes = serialize_11 coefficient
          in slice_copy serialized (22 * i) bytes)
       (replicate 352 0)"

definition compress_then_serialize_4 :: "ring_element \<Rightarrow> u8 list \<Rightarrow> u8 list" where
  "compress_then_serialize_4 re serialized =
     for_loop 0 VECTORS_IN_RING_ELEMENT
       (\<lambda>i serialized.
          let coefficient = compress 4 (to_unsigned_field_modulus (re ! i));
              bytes = serialize_4 coefficient
          in slice_copy serialized (8 * i) bytes)
       serialized"

definition compress_then_serialize_5 :: "ring_element \<Rightarrow> u8 list \<Rightarrow> u8 list" where
  "compress_then_serialize_5 re serialized =
     for_loop 0 VECTORS_IN_RING_ELEMENT
       (\<lambda>i serialized.
          let coefficient = compress 5 (to_unsigned_representative (re ! i));
              bytes = serialize_5 coefficient
          in slice_copy serialized (10 * i) bytes)
       serialized"

definition deserialize_then_decompress_10 :: "u8 list \<Rightarrow> ring_element" where
  "deserialize_then_decompress_10 serialized =
     for_loop 0 (length serialized div 20)
       (\<lambda>i re.
          let bytes = subslice serialized (i * 20) (i * 20 + 20);
              coefficient = deserialize_10 bytes
          in re[i := decompress_ciphertext_coefficient 10 coefficient])
       ZERO_d6"

definition deserialize_then_decompress_11 :: "u8 list \<Rightarrow> ring_element" where
  "deserialize_then_decompress_11 serialized =
     for_loop 0 (length serialized div 22)
       (\<lambda>i re.
          let bytes = subslice serialized (i * 22) (i * 22 + 22);
              coefficient = deserialize_11 bytes
          in re[i := decompress_ciphertext_coefficient 11 coefficient])
       ZERO_d6"

definition deserialize_then_decompress_4 :: "u8 list \<Rightarrow> ring_element" where
  "deserialize_then_decompress_4 serialized =
     for_loop 0 (length serialized div 8)
       (\<lambda>i re.
          let bytes = subslice serialized (i * 8) (i * 8 + 8);
              coefficient = deserialize_4 bytes
          in re[i := decompress_ciphertext_coefficient 4 coefficient])
       ZERO_d6"

definition deserialize_then_decompress_5 :: "u8 list \<Rightarrow> ring_element" where
  "deserialize_then_decompress_5 serialized =
     for_loop 0 (length serialized div 10)
       (\<lambda>i re.
          let bytes = subslice serialized (i * 10) (i * 10 + 10);
              coefficient = deserialize_5 bytes
          in re[i := decompress_ciphertext_coefficient 5 coefficient])
       ZERO_d6"

text \<open>
  The functions below are instantiated by the C file at one compression factor each, where only
  the branch of that factor is left: 11 and 5 for ML-KEM-1024, 10 and 4 for the smaller parameter sets.
\<close>

definition compress_then_serialize_ring_element_u :: "nat \<Rightarrow> ring_element \<Rightarrow> u8 list" where
  "compress_then_serialize_ring_element_u COMPRESSION_FACTOR re =
     (if COMPRESSION_FACTOR = 11 then compress_then_serialize_11 re
      else compress_then_serialize_10 re)"

definition compress_then_serialize_ring_element_v :: "nat \<Rightarrow> ring_element \<Rightarrow> u8 list \<Rightarrow> u8 list" where
  "compress_then_serialize_ring_element_v COMPRESSION_FACTOR re out =
     (if COMPRESSION_FACTOR = 5 then compress_then_serialize_5 re out
      else compress_then_serialize_4 re out)"

definition deserialize_then_decompress_ring_element_u :: "nat \<Rightarrow> u8 list \<Rightarrow> ring_element" where
  "deserialize_then_decompress_ring_element_u COMPRESSION_FACTOR serialized =
     (if COMPRESSION_FACTOR = 11 then deserialize_then_decompress_11 serialized
      else deserialize_then_decompress_10 serialized)"

definition deserialize_then_decompress_ring_element_v :: "nat \<Rightarrow> u8 list \<Rightarrow> ring_element" where
  "deserialize_then_decompress_ring_element_v COMPRESSION_FACTOR serialized =
     (if COMPRESSION_FACTOR = 5 then deserialize_then_decompress_5 serialized
      else deserialize_then_decompress_4 serialized)"

subsection \<open>Shape and range of ring elements\<close>

definition ring_ok :: "ring_element \<Rightarrow> bool" where
  "ring_ok re \<longleftrightarrow> length re = 16 \<and> list_all (\<lambda>v. length v = 16) re"

definition ring_bounded :: "int \<Rightarrow> ring_element \<Rightarrow> bool" where
  "ring_bounded b re \<longleftrightarrow> length re = 16 \<and> list_all (vec_bounded b) re"

definition coeffs :: "ring_element \<Rightarrow> int list" where
  "coeffs re = concat re"

lemma ring_bounded_ok: "ring_bounded b re \<Longrightarrow> ring_ok re"
  by (auto simp: ring_bounded_def ring_ok_def list_all_iff)

lemma ring_bounded_mono: "ring_bounded b re \<Longrightarrow> b \<le> c \<Longrightarrow> ring_bounded c re"
  by (auto simp: ring_bounded_def list_all_iff intro: vec_bounded_mono)

lemma ring_ok_lengths:
  "ring_ok re \<Longrightarrow> length re = 16" "ring_ok re \<Longrightarrow> i < 16 \<Longrightarrow> length (re ! i) = 16"
  by (auto simp: ring_ok_def list_all_length)

lemma ring_bounded_nth: "ring_bounded b re \<Longrightarrow> i < 16 \<Longrightarrow> vec_bounded b (re ! i)"
  by (simp add: ring_bounded_def list_all_length)

lemma ring_bounded_vec:
  assumes "ring_bounded b re"
  shows "length re = 16" "v \<in> set re \<Longrightarrow> vec_bounded b v" "v \<in> set re \<Longrightarrow> length v = 16"
  using assms by (auto simp: ring_bounded_def list_all_iff)

lemma length_coeffs [simp]: "ring_ok re \<Longrightarrow> length (coeffs re) = 256"
proof -
  assume "ring_ok re"
  then have "map length re = replicate 16 16"
    by (intro nth_equalityI) (auto simp: ring_ok_def list_all_length)
  then show ?thesis by (simp add: coeffs_def length_concat sum_list_replicate)
qed

lemma ring_bounded_coeffs: "ring_bounded b re \<Longrightarrow> x \<in> set (coeffs re) \<Longrightarrow> \<bar>x\<bar> \<le> b"
  by (auto simp: ring_bounded_def vec_bounded_def list_all_iff coeffs_def)

lemma length_ZERO_d6 [simp]: "length ZERO_d6 = 16"
  by (simp add: ZERO_d6_def)

lemma ring_ok_ZERO [simp]: "ring_ok ZERO_d6"
  by (simp add: ring_ok_def ZERO_d6_def vector_type_zero_def list_all_iff)

lemma ring_ok_map: "ring_ok re \<Longrightarrow> (\<And>v. length v = 16 \<Longrightarrow> length (f v) = 16) \<Longrightarrow> ring_ok (map f re)"
  by (auto simp: ring_ok_def list_all_iff)

subsection \<open>Loops over the vectors of a ring element\<close>

context byte_codec
begin

lemma ser_stream_vectors:
  "(\<And>v. v \<in> set vs \<Longrightarrow> length v = 16 \<and> coeffs_in d v) \<Longrightarrow>
   byte_stream (concat (map ser vs)) = coeff_stream d (concat vs)"
  by (induction vs) (simp_all add: ser_stream byte_stream_def [of "[]"] coeff_stream_def [of _ "[]"])

lemma ser_vectors:
  "(\<And>v. v \<in> set vs \<Longrightarrow> length v = 16 \<and> coeffs_in d v) \<Longrightarrow> concat (map ser vs) = byte_encode d (concat vs)"
  by (rule byte_encode_unique [symmetric], rule ser_stream_vectors)

lemma serialize_loop:
  assumes "length re = 16" and "\<And>v. v \<in> set re \<Longrightarrow> length (f v) = 16 \<and> coeffs_in d (f v)"
    and "length out = 32 * d"
  shows "for_loop 0 16 (\<lambda>i out. slice_copy out (2 * d * i) (ser (f (re ! i)))) out
    = byte_encode d (concat (map f re))"
proof -
  have l: "length (ser (f (re ! i))) = 2 * d" if "i < 16" for i
    using that assms(1,2) by (simp add: ser_length)
  have "for_loop 0 16 (\<lambda>i out. slice_copy out (2 * d * i) (ser (f (re ! i)))) out
      = concat (map (\<lambda>i. ser (f (re ! i))) [0..<16]) @ drop (16 * (2 * d)) out"
    by (rule for_loop_blocks) (simp_all add: l assms(3))
  also have "\<dots> = concat (map ser (map f re))"
    using map_nth_upt [of "\<lambda>v. ser (f v)" re] assms(1,3) by (simp add: comp_def)
  also have "\<dots> = byte_encode d (concat (map f re))"
    by (rule ser_vectors) (use assms(2) in auto)
  finally show ?thesis .
qed

lemma deserialize_loop:
  assumes "length bs = 32 * d" and "length init = 16"
  shows "for_loop 0 16 (\<lambda>i re. re[i := g (deser (subslice bs (i * (2 * d)) (i * (2 * d) + 2 * d)))]) init
    = map (\<lambda>c. g (deser c)) (chunks (2 * d) bs)"
  by (rule for_loop_from_chunks) (simp_all add: assms width_pos)

lemma deserialize_chunks:
  assumes "length bs = 32 * d"
  shows "concat (map deser (chunks (2 * d) bs)) = byte_decode d bs"
    and "ring_ok (map deser (chunks (2 * d) bs))"
    and "coeffs_in d (concat (map deser (chunks (2 * d) bs)))"
proof -
  have len: "c \<in> set (chunks (2 * d) bs) \<Longrightarrow> length c = 2 * d" for c
    using chunks_member_length [of "2 * d" bs 16 c] assms width_pos by simp
  have str: "coeff_stream d (concat (map deser cs)) = byte_stream (concat cs)"
    if "\<And>c. c \<in> set cs \<Longrightarrow> length c = 2 * d" for cs
    using that
    by (induction cs) (simp_all add: deser_stream byte_stream_def [of "[]"] coeff_stream_def [of _ "[]"])
  show r: "coeffs_in d (concat (map deser (chunks (2 * d) bs)))"
    using deser_range len by (fastforce simp: coeffs_in_def list_all_iff)
  have "coeff_stream d (concat (map deser (chunks (2 * d) bs))) = byte_stream bs"
    using str [OF len] width_pos by (simp add: concat_chunks)
  then show "concat (map deser (chunks (2 * d) bs)) = byte_decode d bs"
    using r width_pos by (simp add: byte_decode_unique)
  show "ring_ok (map deser (chunks (2 * d) bs))"
    using length_chunks [of "2 * d" bs 16] assms width_pos len
    by (auto simp: ring_ok_def list_all_iff deser_length)
qed

end

subsection \<open>The encodings as reference functions\<close>

lemma to_unsigned_mod:
  assumes "vec_bounded 3328 v"
  shows "to_unsigned_representative v = map (\<lambda>x. x mod 3329) v"
    and "list_all in_field (to_unsigned_representative v)"
    and "coeffs_in 12 (to_unsigned_representative v)"
proof -
  have "(if x < 0 then x + 3329 else x) = x mod 3329" if "x \<in> set v" for x
  proof -
    have "\<bar>x\<bar> \<le> 3328" using assms that by (simp add: vec_bounded_def list_all_iff)
    moreover have "x + 3329 = x mod 3329" if "x < 0" "- x \<le> 3328"
      using that mod_add_self2 [of x 3329] mod_pos_pos_trivial [of "x + 3329" 3329] by linarith
    ultimately show ?thesis by auto
  qed
  then show e: "to_unsigned_representative v = map (\<lambda>x. x mod 3329) v"
    using assms by (simp add: to_unsigned_representative_eq)
  show "list_all in_field (to_unsigned_representative v)"
    by (simp add: e list_all_iff in_field_def)
  show "coeffs_in 12 (to_unsigned_representative v)"
    unfolding e coeffs_in_def list.pred_map
    by (simp add: list_all_iff) (smt (verit) pos_mod_bound)
qed

lemma length_to_unsigned: "vec_bounded 3328 v \<Longrightarrow> length (to_unsigned_representative v) = 16"
  by (simp add: to_unsigned_mod(1))

lemma coeffs_map_map: "coeffs (map (map f) re) = map f (coeffs re)"
  by (simp add: coeffs_def map_concat)

lemma serialize_uncompressed_ring_element_eq:
  assumes "ring_bounded 3328 re"
  shows "serialize_uncompressed_ring_element re = byte_encode 12 (map (\<lambda>x. x mod 3329) (coeffs re))"
proof -
  have v: "vec_bounded 3328 v" if "v \<in> set re" for v
    using assms that by (simp add: ring_bounded_def list_all_iff)
  have "serialize_uncompressed_ring_element re
      = byte_encode 12 (concat (map to_unsigned_representative re))"
    using codec_12.serialize_loop [of re to_unsigned_representative "replicate 384 0"] assms v
    by (simp add: serialize_uncompressed_ring_element_def VECTORS_IN_RING_ELEMENT_def
        to_unsigned_field_modulus_def ring_bounded_def to_unsigned_mod(3) length_to_unsigned)
  also have "map to_unsigned_representative re = map (map (\<lambda>x. x mod 3329)) re"
    using v by (simp add: to_unsigned_mod(1))
  finally show ?thesis by (simp add: coeffs_def map_concat)
qed

lemma compress_vector_range:
  assumes "vec_bounded 3328 v" and "d \<le> 11"
  shows "compress d (to_unsigned_representative v) = map (\<lambda>x. compress_spec d (x mod 3329)) v"
    and "coeffs_in d (compress d (to_unsigned_representative v))"
    and "compress_1 (to_unsigned_representative v) = map (\<lambda>x. compress_spec 1 (x mod 3329)) v"
    and "coeffs_in 1 (compress_1 (to_unsigned_representative v))"
proof -
  have l: "length (to_unsigned_representative v) = 16"
    using assms by (simp add: to_unsigned_mod(1))
  have c: "compress d (to_unsigned_representative v) = map (compress_spec d) (to_unsigned_representative v)"
    "compress_1 (to_unsigned_representative v) = map (compress_spec 1) (to_unsigned_representative v)"
    using compress_eq [OF l to_unsigned_mod(2) assms(2)] compress_1_eq [OF l to_unsigned_mod(2)]
      assms(1) by blast+
  show "coeffs_in d (compress d (to_unsigned_representative v))"
    and "coeffs_in 1 (compress_1 (to_unsigned_representative v))"
    unfolding c by (rule compress_spec_range)+
  show "compress d (to_unsigned_representative v) = map (\<lambda>x. compress_spec d (x mod 3329)) v"
    and "compress_1 (to_unsigned_representative v) = map (\<lambda>x. compress_spec 1 (x mod 3329)) v"
    by (subst c, simp add: to_unsigned_mod(1) [OF assms(1)])+
qed

lemma coeffs_in_compress: "coeffs_in d (map (\<lambda>x. compress_spec d (f x)) v)"
  using compress_spec_range [of d "map f v"] by (simp add: comp_def)

text \<open>The compressing encoders, one interpretation of the interface each.\<close>

definition compressed_encoding :: "nat \<Rightarrow> ring_element \<Rightarrow> u8 list" where
  "compressed_encoding d re = byte_encode d (map (\<lambda>x. compress_spec d (x mod 3329)) (coeffs re))"

lemma compressed_encoding_vectors:
  assumes "ring_bounded 3328 re" and "d \<le> 11"
  shows "byte_encode d (concat (map (\<lambda>v. compress d (to_unsigned_representative v)) re))
    = compressed_encoding d re"
proof -
  have "map (\<lambda>v. compress d (to_unsigned_representative v)) re
      = map (map (\<lambda>x. compress_spec d (x mod 3329))) re"
    using assms by (auto simp: ring_bounded_def list_all_iff compress_vector_range(1))
  then show ?thesis by (simp only: compressed_encoding_def coeffs_def map_concat)
qed

lemma compress_then_serialize_10_eq:
  assumes "ring_bounded 3328 re"
  shows "compress_then_serialize_10 re = compressed_encoding 10 re"
  using codec_10.serialize_loop [of re "\<lambda>v. compress 10 (to_unsigned_representative v)" "replicate 320 0"]
    assms compressed_encoding_vectors [OF assms, of 10]
  by (simp add: compress_then_serialize_10_def VECTORS_IN_RING_ELEMENT_def to_unsigned_field_modulus_def
      ring_bounded_vec [OF assms(1)] compress_vector_range coeffs_in_compress)

lemma compress_then_serialize_11_eq:
  assumes "ring_bounded 3328 re"
  shows "compress_then_serialize_11 re = compressed_encoding 11 re"
  using codec_11.serialize_loop [of re "\<lambda>v. compress 11 (to_unsigned_representative v)" "replicate 352 0"]
    assms compressed_encoding_vectors [OF assms, of 11]
  by (simp add: compress_then_serialize_11_def VECTORS_IN_RING_ELEMENT_def to_unsigned_field_modulus_def
      ring_bounded_vec [OF assms(1)] compress_vector_range coeffs_in_compress)

lemma compress_then_serialize_4_eq:
  assumes "ring_bounded 3328 re" and "length out = 128"
  shows "compress_then_serialize_4 re out = compressed_encoding 4 re"
  using codec_4.serialize_loop [of re "\<lambda>v. compress 4 (to_unsigned_representative v)" out]
    assms compressed_encoding_vectors [OF assms(1), of 4]
  by (simp add: compress_then_serialize_4_def VECTORS_IN_RING_ELEMENT_def to_unsigned_field_modulus_def
      ring_bounded_vec [OF assms(1)] compress_vector_range coeffs_in_compress)

lemma compress_then_serialize_5_eq:
  assumes "ring_bounded 3328 re" and "length out = 160"
  shows "compress_then_serialize_5 re out = compressed_encoding 5 re"
  using codec_5.serialize_loop [of re "\<lambda>v. compress 5 (to_unsigned_representative v)" out]
    assms compressed_encoding_vectors [OF assms(1), of 5]
  by (simp add: compress_then_serialize_5_def VECTORS_IN_RING_ELEMENT_def to_unsigned_field_modulus_def
      ring_bounded_vec [OF assms(1)] compress_vector_range coeffs_in_compress)

lemma compress_then_serialize_message_eq:
  assumes "ring_bounded 3328 re"
  shows "compress_then_serialize_message re = compressed_encoding 1 re"
proof -
  have m: "map (\<lambda>v. compress_1 (to_unsigned_representative v)) re
      = map (map (\<lambda>x. compress_spec 1 (x mod 3329))) re"
    using assms compress_vector_range(3) [of _ 1] by (auto simp: ring_bounded_def list_all_iff)
  have "compress_then_serialize_message re
      = byte_encode 1 (concat (map (\<lambda>v. compress_1 (to_unsigned_representative v)) re))"
    using codec_1.serialize_loop [of re "\<lambda>v. compress_1 (to_unsigned_representative v)" "replicate 32 0"]
      compress_vector_range(3,4) [of _ 1]
    by (simp add: compress_then_serialize_message_def to_unsigned_field_modulus_def
        ring_bounded_vec [OF assms] del: One_nat_def)
  then show ?thesis by (simp add: m compressed_encoding_def coeffs_def map_concat)
qed

subsection \<open>The decodings as reference functions\<close>

context byte_codec
begin

lemma deserialize_map:
  assumes "length bs = 32 * d" and "length init = 16"
    and "\<And>v. length v = 16 \<Longrightarrow> coeffs_in d v \<Longrightarrow> g v = map f v"
  defines "re \<equiv> for_loop 0 16 (\<lambda>i re. re[i := g (deser (subslice bs (i * (2 * d)) (i * (2 * d) + 2 * d)))]) init"
  shows "re = map (map f) (map deser (chunks (2 * d) bs))" and "ring_ok re"
    and "coeffs re = map f (byte_decode d bs)"
proof -
  let ?ds = "map deser (chunks (2 * d) bs)"
  have v: "length v = 16" "coeffs_in d v" if "v \<in> set ?ds" for v
    using deserialize_chunks(2,3) [OF assms(1)] that
    by (auto simp: ring_ok_def coeffs_in_def list_all_iff)
  have "re = map (\<lambda>c. g (deser c)) (chunks (2 * d) bs)"
    unfolding re_def by (rule deserialize_loop [OF assms(1,2)])
  also have "\<dots> = map g ?ds" by simp
  also have "\<dots> = map (map f) ?ds" using v assms(3) by (intro map_cong) auto
  finally show e: "re = map (map f) ?ds" .
  show "ring_ok re"
    unfolding e using deserialize_chunks(2) [OF assms(1)] by (rule ring_ok_map) simp
  show "coeffs re = map f (byte_decode d bs)"
    unfolding e by (simp only: coeffs_map_map) (simp only: coeffs_def deserialize_chunks(1) [OF assms(1)])
qed

lemma decode_range: "length bs = 32 * d \<Longrightarrow> coeffs_in d (byte_decode d bs)"
  using deserialize_chunks(1,3) by metis

lemma encode_decode: "length bs = 32 * d \<Longrightarrow> byte_encode d (byte_decode d bs) = bs"
proof -
  assume l: "length bs = 32 * d"
  have len: "c \<in> set (chunks (2 * d) bs) \<Longrightarrow> length c = 2 * d" for c
    using chunks_member_length [of "2 * d" bs 16 c] l width_pos by simp
  have "byte_encode d (byte_decode d bs) = concat (map ser (map deser (chunks (2 * d) bs)))"
    unfolding deserialize_chunks(1) [OF l, symmetric]
    by (rule ser_vectors [symmetric]) (auto simp: len deser_length deser_range)
  also have "map ser (map deser (chunks (2 * d) bs)) = chunks (2 * d) bs"
    using len by (simp add: ser_deser map_idI)
  finally show ?thesis using width_pos by (simp add: concat_chunks)
qed

lemma decode_encode:
  assumes "length xs = 256" and "coeffs_in d xs"
  shows "byte_decode d (byte_encode d xs) = xs" and "length (byte_encode d xs) = 32 * d"
proof -
  let ?vs = "chunks 16 xs"
  have v: "length v = 16 \<and> coeffs_in d v" if "v \<in> set ?vs" for v
  proof
    show "length v = 16" using chunks_member_length [of 16 xs 16 v] that assms(1) by simp
    have "set v \<subseteq> set (concat ?vs)" using that by auto
    then show "coeffs_in d v" using assms(2) by (auto simp: coeffs_in_def list_all_iff concat_chunks)
  qed
  have e: "byte_encode d xs = concat (map ser ?vs)"
    using ser_vectors [OF v] by (simp add: concat_chunks)
  have "byte_stream (byte_encode d xs) = coeff_stream d (concat ?vs)"
    unfolding e by (rule ser_stream_vectors [OF v])
  then show "byte_decode d (byte_encode d xs) = xs"
    using assms(2) width_pos by (simp add: byte_decode_unique concat_chunks)
  have "map length (map ser ?vs) = replicate 16 (2 * d)"
    using v length_chunks [of 16 xs 16] assms(1)
    by (intro nth_equalityI) (auto simp: ser_length)
  then show "length (byte_encode d xs) = 32 * d"
    unfolding e by (simp add: length_concat sum_list_replicate del: map_map)
qed

end

lemma deserialize_to_uncompressed_ring_element_eq:
  assumes "length bs = 384"
  shows "ring_ok (deserialize_to_uncompressed_ring_element bs)"
    and "coeffs (deserialize_to_uncompressed_ring_element bs) = byte_decode 12 bs"
  using codec_12.deserialize_map [of bs ZERO_d6 "\<lambda>v. v" "\<lambda>x. x"] assms
  by (simp_all add: deserialize_to_uncompressed_ring_element_def)

lemma cond_subtract_mod:
  assumes "length v = 16" and "coeffs_in 12 v"
  shows "cond_subtract_3329 v = map (\<lambda>x. x mod 3329) v"
proof -
  have "(if x \<ge> 3329 then as_i16 (x - 3329) else x) = x mod 3329" if "x \<in> set v" for x
  proof -
    have x: "0 \<le> x" "x < 4096" using assms(2) that by (auto simp: coeffs_in_def list_all_iff)
    moreover have "x - 3329 = x mod 3329" if "3329 \<le> x"
      using x that minus_mod_self2 [of x 3329] mod_pos_pos_trivial [of "x - 3329" 3329] by linarith
    ultimately show ?thesis by (auto simp: is_i16_def)
  qed
  then show ?thesis using assms(1) by simp
qed

lemma deserialize_to_reduced_ring_element_eq:
  assumes "length bs = 384"
  shows "ring_ok (deserialize_to_reduced_ring_element bs)"
    and "coeffs (deserialize_to_reduced_ring_element bs) = map (\<lambda>x. x mod 3329) (byte_decode 12 bs)"
  using codec_12.deserialize_map [of bs ZERO_d6 cond_subtract_3329 "\<lambda>x. x mod 3329"] assms
  by (simp_all add: deserialize_to_reduced_ring_element_def cond_subtract_mod del: cond_subtract_3329_eq)

lemma deserialize_then_decompress_4_eq:
  assumes "length bs = 128"
  shows "ring_ok (deserialize_then_decompress_4 bs)"
    and "coeffs (deserialize_then_decompress_4 bs) = map (decompress_spec 4) (byte_decode 4 bs)"
  using codec_4.deserialize_map
    [of bs ZERO_d6 "decompress_ciphertext_coefficient 4" "decompress_spec 4"] assms
  by (simp_all add: deserialize_then_decompress_4_def decompress_ciphertext_coefficient_eq)

lemma deserialize_then_decompress_5_eq:
  assumes "length bs = 160"
  shows "ring_ok (deserialize_then_decompress_5 bs)"
    and "coeffs (deserialize_then_decompress_5 bs) = map (decompress_spec 5) (byte_decode 5 bs)"
  using codec_5.deserialize_map
    [of bs ZERO_d6 "decompress_ciphertext_coefficient 5" "decompress_spec 5"] assms
  by (simp_all add: deserialize_then_decompress_5_def decompress_ciphertext_coefficient_eq)

lemma deserialize_then_decompress_10_eq:
  assumes "length bs = 320"
  shows "ring_ok (deserialize_then_decompress_10 bs)"
    and "coeffs (deserialize_then_decompress_10 bs) = map (decompress_spec 10) (byte_decode 10 bs)"
  using codec_10.deserialize_map
    [of bs ZERO_d6 "decompress_ciphertext_coefficient 10" "decompress_spec 10"] assms
  by (simp_all add: deserialize_then_decompress_10_def decompress_ciphertext_coefficient_eq)

lemma deserialize_then_decompress_11_eq:
  assumes "length bs = 352"
  shows "ring_ok (deserialize_then_decompress_11 bs)"
    and "coeffs (deserialize_then_decompress_11 bs) = map (decompress_spec 11) (byte_decode 11 bs)"
  using codec_11.deserialize_map
    [of bs ZERO_d6 "decompress_ciphertext_coefficient 11" "decompress_spec 11"] assms
  by (simp_all add: deserialize_then_decompress_11_def decompress_ciphertext_coefficient_eq)

lemma deserialize_then_decompress_message_eq:
  assumes "length bs = 32"
  shows "ring_ok (deserialize_then_decompress_message bs)"
    and "coeffs (deserialize_then_decompress_message bs) = map (decompress_spec 1) (byte_decode 1 bs)"
  using codec_1.deserialize_map [of bs ZERO_d6 decompress_1 "decompress_spec 1"] assms
  by (simp_all add: deserialize_then_decompress_message_def decompress_1_eq mult.commute
      del: One_nat_def)

text \<open>A ring element is bounded by what its coefficients are bounded by.\<close>

lemma ring_bounded_iff:
  "ring_bounded b re \<longleftrightarrow> ring_ok re \<and> (\<forall>x \<in> set (coeffs re). \<bar>x\<bar> \<le> b)"
  by (auto simp: ring_bounded_def ring_ok_def vec_bounded_def list_all_iff coeffs_def)

lemma decompressed_bounded:
  assumes "ring_ok re" and "coeffs re = map (decompress_spec d) ys" and "coeffs_in d ys" and "d \<le> 11"
  shows "ring_bounded 3328 re" and "list_all in_field (coeffs re)"
proof -
  show f: "list_all in_field (coeffs re)"
    unfolding assms(2) using assms(3,4) by (simp add: decompress_spec_list del: list.pred_map)
  then show "ring_bounded 3328 re"
    using assms(1) by (auto simp: ring_bounded_iff list_all_iff in_field_def abs_le_iff)
qed

subsection \<open>Properties\<close>

lemma recompress:
  assumes "coeffs_in d ys" and "d \<le> 11"
  shows "map (\<lambda>x. compress_spec d (x mod 3329)) (map (decompress_spec d) ys) = ys"
proof -
  have "compress_spec d (decompress_spec d y mod 3329) = y" if "y \<in> set ys" for y
  proof -
    have y: "0 \<le> y" "y < 2 ^ d" using assms(1) that by (auto simp: coeffs_in_def list_all_iff)
    then have "in_field (decompress_spec d y)" by (rule decompress_spec_range [OF _ _ assms(2)])
    then show ?thesis
      using compress_decompress_spec [OF y assms(2)] by (simp add: in_field_def)
  qed
  then show ?thesis by (simp add: map_idI)
qed

lemma uncompressed_codec:
  assumes "ring_bounded 3328 re"
  shows "length (serialize_uncompressed_ring_element re) = 384"
    and "coeffs (deserialize_to_uncompressed_ring_element (serialize_uncompressed_ring_element re)) = map (\<lambda>x. x mod 3329) (coeffs re)"
    and "coeffs (deserialize_to_reduced_ring_element (serialize_uncompressed_ring_element re)) = map (\<lambda>x. x mod 3329) (coeffs re)"
proof -
  let ?xs = "map (\<lambda>x. x mod 3329) (coeffs re)"
  have "length ?xs = 256" using assms by (simp add: ring_bounded_ok)
  moreover have "coeffs_in 12 ?xs"
    unfolding coeffs_in_def list.pred_map by (simp add: list_all_iff) (smt (verit) pos_mod_bound)
  ultimately have "byte_decode 12 (byte_encode 12 ?xs) = ?xs" "length (byte_encode 12 ?xs) = 384"
    using codec_12.decode_encode by auto
  then show "length (serialize_uncompressed_ring_element re) = 384"
    "coeffs (deserialize_to_uncompressed_ring_element (serialize_uncompressed_ring_element re)) = ?xs"
    "coeffs (deserialize_to_reduced_ring_element (serialize_uncompressed_ring_element re)) = ?xs"
    using assms by (simp_all add: serialize_uncompressed_ring_element_eq
        deserialize_to_uncompressed_ring_element_eq deserialize_to_reduced_ring_element_eq)
qed

text \<open>
  C20. Keys: a ring element with coefficients of absolute value below 3329 is encoded in 384 bytes, and
  both decoders (of public keys, reducing, and of secret keys, not reducing) give back the
  coefficients modulo 3329.
\<close>

theorem uncompressed_roundtrip:
  assumes "ring_bounded 3328 re"
  shows "length (serialize_uncompressed_ring_element re) = 384
    \<and> coeffs (deserialize_to_uncompressed_ring_element (serialize_uncompressed_ring_element re))
      = map (\<lambda>x. x mod 3329) (coeffs re)
    \<and> coeffs (deserialize_to_reduced_ring_element (serialize_uncompressed_ring_element re))
      = map (\<lambda>x. x mod 3329) (coeffs re)"
  using uncompressed_codec [OF assms] by simp

theorem uncompressed_roundtrip_witness:
  "coeffs (deserialize_to_reduced_ring_element (serialize_uncompressed_ring_element
     (replicate 16 (replicate 16 (- 1))))) = replicate 256 3328"
  using uncompressed_roundtrip [of "replicate 16 (replicate 16 (- 1))"]
  by (simp add: ring_bounded_def vec_bounded_def list_all_iff coeffs_def numeral_eq_Suc)

text \<open>
  C21. Messages: every 32-byte message survives decoding to a ring element with coefficients 0 and 1665
  and encoding again.
\<close>

theorem message_roundtrip:
  assumes "length m = 32"
  shows "compress_then_serialize_message (deserialize_then_decompress_message m) = m
    \<and> list_all (\<lambda>x. x = 0 \<or> x = 1665) (coeffs (deserialize_then_decompress_message m))"
proof
  let ?re = "deserialize_then_decompress_message m"
  have r: "coeffs_in 1 (byte_decode 1 m)" using codec_1.decode_range assms by simp
  have b: "ring_bounded 3328 ?re"
    by (rule decompressed_bounded(1) [OF deserialize_then_decompress_message_eq [OF assms] r]) simp
  show "compress_then_serialize_message ?re = m"
    using codec_1.encode_decode [of m] assms
    by (simp add: compress_then_serialize_message_eq [OF b] compressed_encoding_def
        deserialize_then_decompress_message_eq(2) [OF assms] recompress [OF r, unfolded map_map]
        del: One_nat_def)
  have "y = 0 \<or> y = 1" if "y \<in> set (byte_decode 1 m)" for y
    using r that by (auto simp: coeffs_in_def list_all_iff)
  then show "list_all (\<lambda>x. x = 0 \<or> x = 1665) (coeffs ?re)"
    unfolding deserialize_then_decompress_message_eq(2) [OF assms]
    by (fastforce simp: list_all_iff decompress_spec_def)
qed

theorem message_roundtrip_witness:
  "compress_then_serialize_message (deserialize_then_decompress_message (replicate 32 165))
   = replicate 32 165"
  using message_roundtrip [of "replicate 32 165"] by simp

lemma ring_element_reencode:
  assumes "ring_ok re" and "coeffs re = map (decompress_spec d) (byte_decode d bs)" and "d \<le> 11"
    and "coeffs_in d (byte_decode d bs)" and "byte_encode d (byte_decode d bs) = bs"
  shows "compressed_encoding d re = bs" and "ring_bounded 3328 re"
proof -
  show "compressed_encoding d re = bs"
    unfolding compressed_encoding_def assms(2) recompress [OF assms(4,3)] by (rule assms(5))
  show "ring_bounded 3328 re" by (rule decompressed_bounded(1) [OF assms(1,2,4,3)])
qed

text \<open>
  C22. Ciphertexts: decompressing an encoded ring element of a ciphertext and compressing it again gives
  back the same bytes, for the four compression factors of the parameter sets; so no two
  byte strings of the right length decode to the same ring element.
\<close>

theorem ciphertext_reencode:
  assumes "du = 10 \<or> du = 11" and "dv = 4 \<or> dv = 5"
    and "length c1 = 32 * du" and "length c2 = 32 * dv"
  shows "compress_then_serialize_ring_element_u du (deserialize_then_decompress_ring_element_u du c1) = c1
    \<and> compress_then_serialize_ring_element_v dv (deserialize_then_decompress_ring_element_v dv c2)
        (replicate (32 * dv) 0) = c2"
proof
  show "compress_then_serialize_ring_element_u du (deserialize_then_decompress_ring_element_u du c1) = c1"
    using assms(1,3)
      ring_element_reencode [OF deserialize_then_decompress_10_eq _ codec_10.decode_range codec_10.encode_decode]
      ring_element_reencode [OF deserialize_then_decompress_11_eq _ codec_11.decode_range codec_11.encode_decode]
    by (auto simp: compress_then_serialize_ring_element_u_def deserialize_then_decompress_ring_element_u_def
        compress_then_serialize_10_eq compress_then_serialize_11_eq)
  show "compress_then_serialize_ring_element_v dv (deserialize_then_decompress_ring_element_v dv c2)
        (replicate (32 * dv) 0) = c2"
    using assms(2,4)
      ring_element_reencode [OF deserialize_then_decompress_4_eq _ codec_4.decode_range codec_4.encode_decode]
      ring_element_reencode [OF deserialize_then_decompress_5_eq _ codec_5.decode_range codec_5.encode_decode]
    by (auto simp: compress_then_serialize_ring_element_v_def deserialize_then_decompress_ring_element_v_def
        compress_then_serialize_4_eq compress_then_serialize_5_eq)
qed

theorem ciphertext_reencode_witness:
  "compress_then_serialize_ring_element_u 10 (deserialize_then_decompress_ring_element_u 10 (replicate 320 7))
   = replicate 320 7"
  using ciphertext_reencode [of 10 4 "replicate 320 7" "replicate 128 9"] by simp

end
