(* ===== verification/MLKEM_NTT.thy ===== *)
theory MLKEM_NTT
  imports MLKEM_RingSerialize
begin

section \<open>The number-theoretic transform\<close>

text \<open>
  The forward and the inverse number-theoretic transform, the product in the transformed domain and
  the other arithmetic of ring elements: \<open>libcrux_mlkem_portable.c\<close> lines 39--45, 704--1040, 3160--3365,
  3410--3585, 4001--4185, 4443--4490, 4965--4985 and 5173--5215. The functions that update a ring element and
  the index of the next root of unity through pointers return both.
\<close>

subsection \<open>Roots of unity\<close>

definition ZETAS_TIMES_MONTGOMERY_R :: "i16 list" where
  "ZETAS_TIMES_MONTGOMERY_R =
   [- 1044, - 758, - 359, - 1517, 1493, 1422, 287, 202, - 171, 622, 1577, 182, 962, - 1202, - 1474, 1468,
    573, - 1325, 264, 383, - 829, 1458, - 1602, - 130, - 681, 1017, 732, 608, - 1542, 411, - 205, - 1571,
    1223, 652, - 552, 1015, - 1293, 1491, - 282, - 1544, 516, - 8, - 320, - 666, - 1618, - 1162, 126, 1469,
    - 853, - 90, - 271, 830, 107, - 1421, - 247, - 951, - 398, 961, - 1508, - 725, 448, - 1065, 677, - 1275,
    - 1103, 430, 555, 843, - 1251, 871, 1550, 105, 422, 587, 177, - 235, - 291, - 460, 1574, 1653,
    - 246, 778, 1159, - 147, - 777, 1483, - 602, 1119, - 1590, 644, - 872, 349, 418, 329, - 156, - 75,
    817, 1097, 603, 610, 1322, - 1285, - 1465, 384, - 1215, - 136, 1218, - 1335, - 874, 220, - 1187, - 1659,
    - 1185, - 1530, - 1278, 794, - 1510, - 854, - 870, 478, - 108, - 308, 996, 991, 958, - 1460, 1522, 1628]"

definition zeta :: "nat \<Rightarrow> i16" where
  "zeta i = ZETAS_TIMES_MONTGOMERY_R ! i"

subsection \<open>Steps inside one vector\<close>

definition ntt_step :: "portable_vector \<Rightarrow> i16 \<Rightarrow> nat \<Rightarrow> nat \<Rightarrow> portable_vector" where
  "ntt_step vec z i j =
     (let t = montgomery_multiply_fe_by_fer (vec ! j) z;
          a_minus_t = as_i16 (vec ! i - t);
          a_plus_t = as_i16 (vec ! i + t);
          vec = vec[j := a_minus_t]
      in vec[i := a_plus_t])"

definition ntt_layer_1_step :: "portable_vector \<Rightarrow> i16 \<Rightarrow> i16 \<Rightarrow> i16 \<Rightarrow> i16 \<Rightarrow> portable_vector" where
  "ntt_layer_1_step vec zeta0 zeta1 zeta2 zeta3 =
     (let vec = ntt_step vec zeta0 0 2;
          vec = ntt_step vec zeta0 1 3;
          vec = ntt_step vec zeta1 4 6;
          vec = ntt_step vec zeta1 5 7;
          vec = ntt_step vec zeta2 8 10;
          vec = ntt_step vec zeta2 9 11;
          vec = ntt_step vec zeta3 12 14;
          vec = ntt_step vec zeta3 13 15
      in vec)"

definition ntt_layer_2_step :: "portable_vector \<Rightarrow> i16 \<Rightarrow> i16 \<Rightarrow> portable_vector" where
  "ntt_layer_2_step vec zeta0 zeta1 =
     (let vec = ntt_step vec zeta0 0 4;
          vec = ntt_step vec zeta0 1 5;
          vec = ntt_step vec zeta0 2 6;
          vec = ntt_step vec zeta0 3 7;
          vec = ntt_step vec zeta1 8 12;
          vec = ntt_step vec zeta1 9 13;
          vec = ntt_step vec zeta1 10 14;
          vec = ntt_step vec zeta1 11 15
      in vec)"

definition ntt_layer_3_step :: "portable_vector \<Rightarrow> i16 \<Rightarrow> portable_vector" where
  "ntt_layer_3_step vec z =
     (let vec = ntt_step vec z 0 8;
          vec = ntt_step vec z 1 9;
          vec = ntt_step vec z 2 10;
          vec = ntt_step vec z 3 11;
          vec = ntt_step vec z 4 12;
          vec = ntt_step vec z 5 13;
          vec = ntt_step vec z 6 14;
          vec = ntt_step vec z 7 15
      in vec)"

definition inv_ntt_step :: "portable_vector \<Rightarrow> i16 \<Rightarrow> nat \<Rightarrow> nat \<Rightarrow> portable_vector" where
  "inv_ntt_step vec z i j =
     (let a_minus_b = as_i16 (vec ! j - vec ! i);
          a_plus_b = as_i16 (vec ! j + vec ! i);
          o0 = barrett_reduce_element a_plus_b;
          o1 = montgomery_multiply_fe_by_fer a_minus_b z;
          vec = vec[i := o0]
      in vec[j := o1])"

definition inv_ntt_layer_1_step :: "portable_vector \<Rightarrow> i16 \<Rightarrow> i16 \<Rightarrow> i16 \<Rightarrow> i16 \<Rightarrow> portable_vector" where
  "inv_ntt_layer_1_step vec zeta0 zeta1 zeta2 zeta3 =
     (let vec = inv_ntt_step vec zeta0 0 2;
          vec = inv_ntt_step vec zeta0 1 3;
          vec = inv_ntt_step vec zeta1 4 6;
          vec = inv_ntt_step vec zeta1 5 7;
          vec = inv_ntt_step vec zeta2 8 10;
          vec = inv_ntt_step vec zeta2 9 11;
          vec = inv_ntt_step vec zeta3 12 14;
          vec = inv_ntt_step vec zeta3 13 15
      in vec)"

definition inv_ntt_layer_2_step :: "portable_vector \<Rightarrow> i16 \<Rightarrow> i16 \<Rightarrow> portable_vector" where
  "inv_ntt_layer_2_step vec zeta0 zeta1 =
     (let vec = inv_ntt_step vec zeta0 0 4;
          vec = inv_ntt_step vec zeta0 1 5;
          vec = inv_ntt_step vec zeta0 2 6;
          vec = inv_ntt_step vec zeta0 3 7;
          vec = inv_ntt_step vec zeta1 8 12;
          vec = inv_ntt_step vec zeta1 9 13;
          vec = inv_ntt_step vec zeta1 10 14;
          vec = inv_ntt_step vec zeta1 11 15
      in vec)"

definition inv_ntt_layer_3_step :: "portable_vector \<Rightarrow> i16 \<Rightarrow> portable_vector" where
  "inv_ntt_layer_3_step vec z =
     (let vec = inv_ntt_step vec z 0 8;
          vec = inv_ntt_step vec z 1 9;
          vec = inv_ntt_step vec z 2 10;
          vec = inv_ntt_step vec z 3 11;
          vec = inv_ntt_step vec z 4 12;
          vec = inv_ntt_step vec z 5 13;
          vec = inv_ntt_step vec z 6 14;
          vec = inv_ntt_step vec z 7 15
      in vec)"

definition ntt_multiply_binomials ::
  "portable_vector \<Rightarrow> portable_vector \<Rightarrow> i16 \<Rightarrow> nat \<Rightarrow> portable_vector \<Rightarrow> portable_vector" where
  "ntt_multiply_binomials a b z i out =
     (let ai = a ! (2 * i);
          bi = b ! (2 * i);
          aj = a ! (2 * i + 1);
          bj = b ! (2 * i + 1);
          ai_bi = as_i32 (as_i32_f5 ai * as_i32_f5 bi);
          aj_bj' = as_i32 (as_i32_f5 aj * as_i32_f5 bj);
          aj_bj = montgomery_reduce_element aj_bj';
          aj_bj_zeta = as_i32 (as_i32_f5 aj_bj * as_i32_f5 z);
          ai_bi_aj_bj = as_i32 (ai_bi + aj_bj_zeta);
          o0 = montgomery_reduce_element ai_bi_aj_bj;
          ai_bj = as_i32 (as_i32_f5 ai * as_i32_f5 bj);
          aj_bi = as_i32 (as_i32_f5 aj * as_i32_f5 bi);
          ai_bj_aj_bi = as_i32 (ai_bj + aj_bi);
          o1 = montgomery_reduce_element ai_bj_aj_bi;
          out = out[2 * i := o0]
      in out[2 * i + 1 := o1])"

definition vector_ntt_multiply ::
  "portable_vector \<Rightarrow> portable_vector \<Rightarrow> i16 \<Rightarrow> i16 \<Rightarrow> i16 \<Rightarrow> i16 \<Rightarrow> portable_vector" where
  "vector_ntt_multiply lhs rhs zeta0 zeta1 zeta2 zeta3 =
     (let nzeta0 = as_i16 (- zeta0);
          nzeta1 = as_i16 (- zeta1);
          nzeta2 = as_i16 (- zeta2);
          nzeta3 = as_i16 (- zeta3);
          out = vector_type_zero;
          out = ntt_multiply_binomials lhs rhs zeta0 0 out;
          out = ntt_multiply_binomials lhs rhs nzeta0 1 out;
          out = ntt_multiply_binomials lhs rhs zeta1 2 out;
          out = ntt_multiply_binomials lhs rhs nzeta1 3 out;
          out = ntt_multiply_binomials lhs rhs zeta2 4 out;
          out = ntt_multiply_binomials lhs rhs nzeta2 5 out;
          out = ntt_multiply_binomials lhs rhs zeta3 6 out;
          out = ntt_multiply_binomials lhs rhs nzeta3 7 out
      in out)"

subsection \<open>Forward transform of a ring element\<close>

definition ntt_at_layer_7 :: "ring_element \<Rightarrow> ring_element" where
  "ntt_at_layer_7 re =
     (let step = VECTORS_IN_RING_ELEMENT div 2
      in for_loop 0 step
           (\<lambda>j re.
              let t = multiply_by_constant (re ! (j + step)) (- 1600);
                  re = re[j + step := arithmetic_sub (re ! j) t]
              in re[j := arithmetic_add (re ! j) t]) re)"

definition ntt_layer_int_vec_step ::
  "portable_vector \<Rightarrow> portable_vector \<Rightarrow> i16 \<Rightarrow> portable_vector \<times> portable_vector" where
  "ntt_layer_int_vec_step a b zeta_r =
     (let t = montgomery_multiply_by_constant b zeta_r;
          b = arithmetic_sub a t;
          a = arithmetic_add a t
      in (a, b))"

definition ntt_at_layer_4_plus :: "nat \<Rightarrow> ring_element \<Rightarrow> nat \<Rightarrow> nat \<times> ring_element" where
  "ntt_at_layer_4_plus zeta_i re layer =
     (let step = 2 ^ layer
      in for_loop 0 (drop_bit layer 128)
           (\<lambda>round (zeta_i, re).
              let zeta_i = zeta_i + 1;
                  offset = round * step * 2;
                  offset_vec = offset div 16;
                  step_vec = step div 16
              in (zeta_i,
                  for_loop offset_vec (offset_vec + step_vec)
                    (\<lambda>j re.
                       let (x, y) = ntt_layer_int_vec_step (re ! j) (re ! (j + step_vec)) (zeta zeta_i)
                       in (re[j := x])[j + step_vec := y]) re))
           (zeta_i, re))"

definition ntt_at_layer_3 :: "nat \<Rightarrow> ring_element \<Rightarrow> nat \<times> ring_element" where
  "ntt_at_layer_3 zeta_i re =
     for_loop 0 16
       (\<lambda>round (zeta_i, re).
          let zeta_i = zeta_i + 1
          in (zeta_i, re[round := ntt_layer_3_step (re ! round) (zeta zeta_i)]))
       (zeta_i, re)"

definition ntt_at_layer_2 :: "nat \<Rightarrow> ring_element \<Rightarrow> nat \<times> ring_element" where
  "ntt_at_layer_2 zeta_i re =
     for_loop 0 16
       (\<lambda>round (zeta_i, re).
          let zeta_i = zeta_i + 1;
              re = re[round := ntt_layer_2_step (re ! round) (zeta zeta_i) (zeta (zeta_i + 1))]
          in (zeta_i + 1, re))
       (zeta_i, re)"

definition ntt_at_layer_1 :: "nat \<Rightarrow> ring_element \<Rightarrow> nat \<times> ring_element" where
  "ntt_at_layer_1 zeta_i re =
     for_loop 0 16
       (\<lambda>round (zeta_i, re).
          let zeta_i = zeta_i + 1;
              re = re[round := ntt_layer_1_step (re ! round) (zeta zeta_i) (zeta (zeta_i + 1))
                                 (zeta (zeta_i + 2)) (zeta (zeta_i + 3))]
          in (zeta_i + 3, re))
       (zeta_i, re)"

definition poly_barrett_reduce :: "ring_element \<Rightarrow> ring_element" where
  "poly_barrett_reduce myself =
     for_loop 0 VECTORS_IN_RING_ELEMENT (\<lambda>i re. re[i := barrett_reduce (re ! i)]) myself"

definition ntt_binomially_sampled_ring_element :: "ring_element \<Rightarrow> ring_element" where
  "ntt_binomially_sampled_ring_element re =
     (let re = ntt_at_layer_7 re;
          zeta_i = 1;
          (zeta_i, re) = ntt_at_layer_4_plus zeta_i re 6;
          (zeta_i, re) = ntt_at_layer_4_plus zeta_i re 5;
          (zeta_i, re) = ntt_at_layer_4_plus zeta_i re 4;
          (zeta_i, re) = ntt_at_layer_3 zeta_i re;
          (zeta_i, re) = ntt_at_layer_2 zeta_i re;
          (zeta_i, re) = ntt_at_layer_1 zeta_i re
      in poly_barrett_reduce re)"

definition ntt_vector_u :: "ring_element \<Rightarrow> ring_element" where
  "ntt_vector_u re =
     (let zeta_i = 0;
          (zeta_i, re) = ntt_at_layer_4_plus zeta_i re 7;
          (zeta_i, re) = ntt_at_layer_4_plus zeta_i re 6;
          (zeta_i, re) = ntt_at_layer_4_plus zeta_i re 5;
          (zeta_i, re) = ntt_at_layer_4_plus zeta_i re 4;
          (zeta_i, re) = ntt_at_layer_3 zeta_i re;
          (zeta_i, re) = ntt_at_layer_2 zeta_i re;
          (zeta_i, re) = ntt_at_layer_1 zeta_i re
      in poly_barrett_reduce re)"

subsection \<open>Inverse transform of a ring element\<close>

definition invert_ntt_at_layer_1 :: "nat \<Rightarrow> ring_element \<Rightarrow> nat \<times> ring_element" where
  "invert_ntt_at_layer_1 zeta_i re =
     for_loop 0 16
       (\<lambda>round (zeta_i, re).
          let zeta_i = zeta_i - 1;
              re = re[round := inv_ntt_layer_1_step (re ! round) (zeta zeta_i) (zeta (zeta_i - 1))
                                 (zeta (zeta_i - 2)) (zeta (zeta_i - 3))]
          in (zeta_i - 3, re))
       (zeta_i, re)"

definition invert_ntt_at_layer_2 :: "nat \<Rightarrow> ring_element \<Rightarrow> nat \<times> ring_element" where
  "invert_ntt_at_layer_2 zeta_i re =
     for_loop 0 16
       (\<lambda>round (zeta_i, re).
          let zeta_i = zeta_i - 1;
              re = re[round := inv_ntt_layer_2_step (re ! round) (zeta zeta_i) (zeta (zeta_i - 1))]
          in (zeta_i - 1, re))
       (zeta_i, re)"

definition invert_ntt_at_layer_3 :: "nat \<Rightarrow> ring_element \<Rightarrow> nat \<times> ring_element" where
  "invert_ntt_at_layer_3 zeta_i re =
     for_loop 0 16
       (\<lambda>round (zeta_i, re).
          let zeta_i = zeta_i - 1
          in (zeta_i, re[round := inv_ntt_layer_3_step (re ! round) (zeta zeta_i)]))
       (zeta_i, re)"

definition inv_ntt_layer_int_vec_step_reduce ::
  "portable_vector \<Rightarrow> portable_vector \<Rightarrow> i16 \<Rightarrow> portable_vector \<times> portable_vector" where
  "inv_ntt_layer_int_vec_step_reduce a b zeta_r =
     (let a_minus_b = arithmetic_sub b a;
          a = barrett_reduce (arithmetic_add a b);
          b = montgomery_multiply_by_constant a_minus_b zeta_r
      in (a, b))"

definition invert_ntt_at_layer_4_plus :: "nat \<Rightarrow> ring_element \<Rightarrow> nat \<Rightarrow> nat \<times> ring_element" where
  "invert_ntt_at_layer_4_plus zeta_i re layer =
     (let step = 2 ^ layer
      in for_loop 0 (drop_bit layer 128)
           (\<lambda>round (zeta_i, re).
              let zeta_i = zeta_i - 1;
                  offset = round * step * 2;
                  offset_vec = offset div FIELD_ELEMENTS_IN_VECTOR;
                  step_vec = step div FIELD_ELEMENTS_IN_VECTOR
              in (zeta_i,
                  for_loop offset_vec (offset_vec + step_vec)
                    (\<lambda>j re.
                       let (x, y) = inv_ntt_layer_int_vec_step_reduce (re ! j) (re ! (j + step_vec))
                                      (zeta zeta_i)
                       in (re[j := x])[j + step_vec := y]) re))
           (zeta_i, re))"

definition invert_ntt_montgomery :: "ring_element \<Rightarrow> ring_element" where
  "invert_ntt_montgomery re =
     (let zeta_i = 256 div 2;
          (zeta_i, re) = invert_ntt_at_layer_1 zeta_i re;
          (zeta_i, re) = invert_ntt_at_layer_2 zeta_i re;
          (zeta_i, re) = invert_ntt_at_layer_3 zeta_i re;
          (zeta_i, re) = invert_ntt_at_layer_4_plus zeta_i re 4;
          (zeta_i, re) = invert_ntt_at_layer_4_plus zeta_i re 5;
          (zeta_i, re) = invert_ntt_at_layer_4_plus zeta_i re 6;
          (zeta_i, re) = invert_ntt_at_layer_4_plus zeta_i re 7
      in poly_barrett_reduce re)"

subsection \<open>Arithmetic of ring elements\<close>

definition ntt_multiply :: "ring_element \<Rightarrow> ring_element \<Rightarrow> ring_element" where
  "ntt_multiply myself rhs =
     for_loop 0 VECTORS_IN_RING_ELEMENT
       (\<lambda>i out. out[i := vector_ntt_multiply (myself ! i) (rhs ! i) (zeta (64 + 4 * i))
                           (zeta (64 + 4 * i + 1)) (zeta (64 + 4 * i + 2)) (zeta (64 + 4 * i + 3))])
       ZERO_d6"

definition add_to_ring_element :: "ring_element \<Rightarrow> ring_element \<Rightarrow> ring_element" where
  "add_to_ring_element myself rhs =
     for_loop 0 16 (\<lambda>i re. re[i := arithmetic_add (re ! i) (rhs ! i)]) myself"

definition to_standard_domain :: "portable_vector \<Rightarrow> portable_vector" where
  "to_standard_domain vector =
     montgomery_multiply_by_constant vector MONTGOMERY_R_SQUARED_MOD_FIELD_MODULUS"

definition add_standard_error_reduce :: "ring_element \<Rightarrow> ring_element \<Rightarrow> ring_element" where
  "add_standard_error_reduce myself err =
     for_loop 0 VECTORS_IN_RING_ELEMENT
       (\<lambda>j re.
          let coefficient_normal_form = to_standard_domain (re ! j);
              s = arithmetic_add coefficient_normal_form (err ! j);
              red = barrett_reduce s
          in re[j := red]) myself"

definition add_error_reduce :: "ring_element \<Rightarrow> ring_element \<Rightarrow> ring_element" where
  "add_error_reduce myself err =
     for_loop 0 VECTORS_IN_RING_ELEMENT
       (\<lambda>j re.
          let coefficient_normal_form = montgomery_multiply_by_constant (re ! j) 1441;
              s = arithmetic_add coefficient_normal_form (err ! j);
              red = barrett_reduce s
          in re[j := red]) myself"

definition add_message_error_reduce :: "ring_element \<Rightarrow> ring_element \<Rightarrow> ring_element \<Rightarrow> ring_element" where
  "add_message_error_reduce myself message result =
     for_loop 0 VECTORS_IN_RING_ELEMENT
       (\<lambda>i result.
          let coefficient_normal_form = montgomery_multiply_by_constant (result ! i) 1441;
              sum1 = arithmetic_add (myself ! i) (message ! i);
              sum2 = arithmetic_add coefficient_normal_form sum1;
              red = barrett_reduce sum2
          in result[i := red]) result"

definition subtract_reduce :: "ring_element \<Rightarrow> ring_element \<Rightarrow> ring_element" where
  "subtract_reduce myself b =
     for_loop 0 VECTORS_IN_RING_ELEMENT
       (\<lambda>i b.
          let coefficient_normal_form = montgomery_multiply_by_constant (b ! i) 1441;
              diff = arithmetic_sub (myself ! i) coefficient_normal_form;
              red = barrett_reduce diff
          in b[i := red]) b"

end
