(* ===== verification/Libcrux_Layers.thy ===== *)
theory Libcrux_Layers
  imports Libcrux_Prelude
begin

section \<open>Layers of a number-theoretic transform\<close>

text \<open>
  One layer of a transform combines the coefficients at distance \<open>len\<close>, block by block, on the flat list of coefficients:
  \<open>layer_map\<close>. Both schemes spread the list over vectors of a fixed width \<open>w\<close>. A layer with \<open>len < w\<close> works inside each vector, a layer with
  \<open>len = w * sv\<close> combines whole vectors at distance \<open>sv\<close>; the two lifting lemmas turn either into \<open>layer_map\<close>. The last part
  composes layers, which the inverse transforms need.
\<close>

definition layer_map ::
  "nat \<Rightarrow> nat \<Rightarrow> (nat \<Rightarrow> int \<Rightarrow> int \<Rightarrow> int) \<Rightarrow> (nat \<Rightarrow> int \<Rightarrow> int \<Rightarrow> int) \<Rightarrow> int list \<Rightarrow> int list" where
  "layer_map n len f g p =
     map (\<lambda>i. if i mod (2 * len) < len then f (i div (2 * len)) (p ! i) (p ! (i + len))
              else g (i div (2 * len)) (p ! (i - len)) (p ! i)) [0..<n]"

lemma length_layer_map [simp]: "length (layer_map n len f g p) = n"
  by (simp add: layer_map_def)

lemma layer_map_cong:
  assumes "n = k * (2 * len)" and "\<And>r. r < k \<Longrightarrow> f r = f' r" and "\<And>r. r < k \<Longrightarrow> g r = g' r"
  shows "layer_map n len f g p = layer_map n len f' g' p"
  unfolding layer_map_def assms(1) using assms(2,3) by (intro map_cong) (auto simp: less_mult_imp_div_less)

lemma block_start_below: "a mod (2 * l) < l \<Longrightarrow> a < k * (2 * l) \<Longrightarrow> a + l < k * (2 * l)" for a l k :: nat
proof -
  assume a: "a mod (2 * l) < l" "a < k * (2 * l)"
  have "a div (2 * l) < k" using a(2) by (simp add: less_mult_imp_div_less)
  then have "Suc (a div (2 * l)) * (2 * l) \<le> k * (2 * l)" by (intro mult_le_mono1) simp
  then show ?thesis using a(1) div_mult_mod_eq [of a "2 * l"] by simp
qed

lemma block_high: "\<not> a mod (2 * l) < l \<Longrightarrow> l \<le> a" for a l :: nat
  using mod_less_eq_dividend [of a "2 * l"] by linarith

subsection \<open>From vectors to the flat list\<close>

lemma index_split_by: "b < w \<Longrightarrow> (w * a + b) div w = a" "b < w \<Longrightarrow> (w * a + b) mod w = b" for a b w :: nat
  by simp_all

lemma concat_map_upt_nth:
  assumes "\<And>a. a < n \<Longrightarrow> length (h a) = w" and "i < n * w"
  shows "concat (map h [0..<n]) ! i = h (i div w) ! (i mod w)"
proof -
  have "i div w < n" using assms(2) by (rule less_mult_imp_div_less)
  moreover have "concat (map h [0..<n]) ! i = map h [0..<n] ! (i div w) ! (i mod w)"
    using assms by (intro nth_concat_uniform) auto
  ultimately show ?thesis by simp
qed

lemma layers_inside_vectors:
  assumes n: "length re = n" and w: "\<And>v. v \<in> set re \<Longrightarrow> length v = w" and k: "w = k * (2 * len)"
    and f: "\<And>a r. r < k \<Longrightarrow> f a r = F (a * k + r)" and g: "\<And>a r. r < k \<Longrightarrow> g a r = G (a * k + r)"
  shows "concat (map (\<lambda>a. layer_map w len (f a) (g a) (re ! a)) [0..<n]) = layer_map (n * w) len F G (concat re)"
proof (rule nth_equalityI)
  show "length (concat (map (\<lambda>a. layer_map w len (f a) (g a) (re ! a)) [0..<n])) = length (layer_map (n * w) len F G (concat re))"
    using length_concat_blocks [of n "\<lambda>a. layer_map w len (f a) (g a) (re ! a)" w] by simp
next
  fix i assume "i < length (concat (map (\<lambda>a. layer_map w len (f a) (g a) (re ! a)) [0..<n]))"
  then have i: "i < n * w" using length_concat_blocks [of n "\<lambda>a. layer_map w len (f a) (g a) (re ! a)" w] by simp
  define a b where "a = i div w" and "b = i mod w"
  have pos: "0 < w" using i by (cases w) simp_all
  have ab: "i = w * a + b" "b < w" "a < n" using i pos by (auto simp: a_def b_def less_mult_imp_div_less)
  have cn: "concat re ! j = re ! (j div w) ! (j mod w)" if "j < n * w" for j using w n that by (intro nth_concat_uniform) auto
  have md: "i mod (2 * len) = b mod (2 * len)"
    unfolding b_def by (rule mod_mod_cancel [symmetric]) (simp add: k)
  have dv: "i div (2 * len) = a * k + b div (2 * len)"
  proof -
    have "i = b + (a * k) * (2 * len)" using ab(1) k by simp
    moreover have "2 * len \<noteq> 0" using k pos by (cases len) auto
    ultimately show ?thesis by (metis div_mult_self1 add.commute)
  qed
  have bd: "b div (2 * len) < k" using ab(2) unfolding k by (rule less_mult_imp_div_less)
  have same: "concat re ! (w * a + b') = re ! a ! b'" if "b' < w" for b'
  proof -
    have "w * a + b' < w * (a + 1)" using that by simp
    also have "\<dots> \<le> w * n" using ab(3) by (intro mult_le_mono2) simp
    finally show ?thesis using cn [of "w * a + b'"] index_split_by [OF that, of a] by (simp add: mult.commute)
  qed
  have lo: "concat re ! (i + len) = re ! a ! (b + len)" if "b mod (2 * len) < len"
  proof -
    have "b + len < w" using block_start_below [OF that, of k] ab(2) unfolding k .
    then show ?thesis using same [of "b + len"] ab(1) by (simp add: add.assoc)
  qed
  have hi: "concat re ! (i - len) = re ! a ! (b - len)" if "\<not> b mod (2 * len) < len"
    using same [of "b - len"] block_high [OF that] ab(1,2) by simp
  have "concat (map (\<lambda>a. layer_map w len (f a) (g a) (re ! a)) [0..<n]) ! i = layer_map w len (f a) (g a) (re ! a) ! b"
    using i by (subst concat_map_upt_nth) (simp_all add: a_def b_def)
  also have "\<dots> = layer_map (n * w) len F G (concat re) ! i"
    using i ab(2) lo hi f [OF bd] g [OF bd] same [OF ab(2)]
    by (simp add: layer_map_def md dv ab(1) [symmetric])
  finally show "concat (map (\<lambda>a. layer_map w len (f a) (g a) (re ! a)) [0..<n]) ! i = layer_map (n * w) len F G (concat re) ! i" .
qed

definition vector_layer :: "nat \<Rightarrow> (nat \<Rightarrow> 'v \<Rightarrow> 'v \<Rightarrow> 'v) \<Rightarrow> (nat \<Rightarrow> 'v \<Rightarrow> 'v \<Rightarrow> 'v) \<Rightarrow> nat \<Rightarrow> 'v list \<Rightarrow> 'v list" where
  "vector_layer n f g sv re =
     map (\<lambda>a. if a mod (2 * sv) < sv then f (a div (2 * sv)) (re ! a) (re ! (a + sv))
              else g (a div (2 * sv)) (re ! (a - sv)) (re ! a)) [0..<n]"

lemma length_vector_layer [simp]: "length (vector_layer n f g sv re) = n"
  by (simp add: vector_layer_def)

lemma layers_across_vectors:
  assumes n: "length re = n" and w: "\<And>v. v \<in> set re \<Longrightarrow> length v = w" and k: "n = k * (2 * sv)"
  shows "\<And>v. v \<in> set (vector_layer n (\<lambda>r. map2 (f r)) (\<lambda>r. map2 (g r)) sv re) \<Longrightarrow> length v = w"
    and "concat (vector_layer n (\<lambda>r. map2 (f r)) (\<lambda>r. map2 (g r)) sv re) = layer_map (n * w) (w * sv) f g (concat re)"
proof -
  let ?h = "\<lambda>a. if a mod (2 * sv) < sv then map2 (f (a div (2 * sv))) (re ! a) (re ! (a + sv))
              else map2 (g (a div (2 * sv))) (re ! (a - sv)) (re ! a)"
  have ln: "length (re ! a) = w" if "a < n" for a using w n that by simp
  have up: "a + sv < n" if "a mod (2 * sv) < sv" "a < n" for a
    using block_start_below [OF that(1), of k] that(2) unfolding k .
  have hl: "length (?h a) = w" if "a < n" for a
    using that ln [OF that] ln [of "a + sv"] ln [of "a - sv"] up by auto
  show "length v = w" if "v \<in> set (vector_layer n (\<lambda>r. map2 (f r)) (\<lambda>r. map2 (g r)) sv re)" for v
  proof -
    have "v \<in> ?h ` {0..<n}" using that by (simp add: vector_layer_def)
    then obtain a where "a < n" "v = ?h a" by (elim imageE) simp
    then show ?thesis using hl by blast
  qed
  show "concat (vector_layer n (\<lambda>r. map2 (f r)) (\<lambda>r. map2 (g r)) sv re) = layer_map (n * w) (w * sv) f g (concat re)"
    unfolding vector_layer_def
  proof (rule nth_equalityI)
    show len: "length (concat (map ?h [0..<n])) = length (layer_map (n * w) (w * sv) f g (concat re))"
      using length_concat_blocks [of n ?h w] hl by simp
    fix i assume "i < length (concat (map ?h [0..<n]))"
    then have i: "i < n * w" using len by simp
    define a b where "a = i div w" and "b = i mod w"
    have pos: "0 < w" using i by (cases w) simp_all
    have ab: "i = w * a + b" "b < w" "a < n" using i pos by (auto simp: a_def b_def less_mult_imp_div_less)
    have cn: "concat re ! (w * a' + b) = re ! a' ! b" if "a' < n" for a'
    proof -
      have "w * a' + b < w * (a' + 1)" using ab(2) by simp
      also have "\<dots> \<le> w * n" using that by (intro mult_le_mono2) simp
      finally have "concat re ! (w * a' + b) = re ! ((w * a' + b) div w) ! ((w * a' + b) mod w)"
        using w n by (intro nth_concat_uniform) (auto simp: mult.commute)
      then show ?thesis using index_split_by [OF ab(2), of a'] by simp
    qed
    have md: "i mod (2 * (w * sv)) = w * (a mod (2 * sv)) + b"
      unfolding a_def b_def using mod_mult2_eq [of i w "2 * sv"] by (simp add: ac_simps)
    have dv: "i div (2 * (w * sv)) = a div (2 * sv)"
      unfolding a_def using div_mult2_eq [of i w "2 * sv"] by (simp add: ac_simps)
    have cond: "i mod (2 * (w * sv)) < w * sv \<longleftrightarrow> a mod (2 * sv) < sv"
    proof
      assume "i mod (2 * (w * sv)) < w * sv"
      then have "w * (a mod (2 * sv)) < w * sv" unfolding md by (rule le_less_trans [rotated]) simp
      then show "a mod (2 * sv) < sv" by simp
    next
      assume "a mod (2 * sv) < sv"
      then have "w * (a mod (2 * sv) + 1) \<le> w * sv" by (intro mult_le_mono2) simp
      then show "i mod (2 * (w * sv)) < w * sv" unfolding md using ab(2) by simp
    qed
    have "concat (map ?h [0..<n]) ! i = ?h a ! b" using concat_map_upt_nth [OF hl i] by (simp only: a_def b_def)
    also have "\<dots> = layer_map (n * w) (w * sv) f g (concat re) ! i"
    proof (cases "a mod (2 * sv) < sv")
      case True
      have "concat re ! (i + w * sv) = re ! (a + sv) ! b"
        using cn [OF up [OF True ab(3)]] ab(1) by (simp add: add_mult_distrib2 add.assoc add.commute add.left_commute)
      then show ?thesis
        using i True ab(2,3) ln [OF ab(3)] ln [OF up [OF True ab(3)]] cn [OF ab(3)] cond dv
        by (simp add: layer_map_def ab(1) [symmetric])
    next
      case False
      have s: "sv \<le> a" "a - sv < n" using False ab(3) by (auto intro: block_high)
      then have "i - w * sv = w * (a - sv) + b" using ab(1) by (simp add: diff_mult_distrib2)
      then have "concat re ! (i - w * sv) = re ! (a - sv) ! b" using cn [OF s(2)] by simp
      then show ?thesis
        using i False ab(2,3) ln [OF ab(3)] ln [OF s(2)] cn [OF ab(3)] cond dv
        by (simp add: layer_map_def ab(1) [symmetric])
    qed
    finally show "concat (map ?h [0..<n]) ! i = layer_map (n * w) (w * sv) f g (concat re) ! i" .
  qed
qed

subsection \<open>Layers compose\<close>

lemma layer_map_nth:
  assumes "i < n" and "n = k * (2 * len)"
  shows "layer_map n len f g p ! i = (if i mod (2 * len) < len then f (i div (2 * len)) (p ! i) (p ! (i + len))
              else g (i div (2 * len)) (p ! (i - len)) (p ! i))"
  using assms by (simp add: layer_map_def)

lemma block_partner:
  "i mod (2 * len) < len \<Longrightarrow> \<not> (i + len) mod (2 * len) < len \<and> (i + len) div (2 * len) = i div (2 * len)"
  "\<not> i mod (2 * len) < len \<Longrightarrow> 0 < len \<Longrightarrow> (i - len) mod (2 * len) < len \<and> (i - len) div (2 * len) = i div (2 * len)"
  for i len :: nat
proof -
  let ?q = "i div (2 * len)" and ?m = "i mod (2 * len)"
  have i: "i = ?q * (2 * len) + ?m" by (rule div_mult_mod_eq [symmetric])
  have d: "(q * (2 * len) + m) mod (2 * len) = m" "(q * (2 * len) + m) div (2 * len) = q"
    if "m < 2 * len" for q m :: nat using that by auto
  show "\<not> (i + len) mod (2 * len) < len \<and> (i + len) div (2 * len) = ?q" if "?m < len"
  proof -
    have "i + len = ?q * (2 * len) + (?m + len)" using i by simp
    moreover have "?m + len < 2 * len" using that by simp
    ultimately show ?thesis using d by (metis not_add_less2)
  qed
  show "(i - len) mod (2 * len) < len \<and> (i - len) div (2 * len) = ?q" if "\<not> ?m < len" "0 < len"
  proof -
    have "i - len = ?q * (2 * len) + (?m - len)" using i that(1) by simp
    moreover have "?m < 2 * len" using that(2) by simp
    then have "?m - len < len" using that(2) by linarith
    ultimately show ?thesis using d [of "?m - len" ?q] by simp
  qed
qed

lemma layer_map_compose:
  assumes n: "n = k * (2 * len)" and "0 < len"
  shows "layer_map n len f g (layer_map n len f' g' p)
    = layer_map n len (\<lambda>r a b. f r (f' r a b) (g' r a b)) (\<lambda>r a b. g r (f' r a b) (g' r a b)) p"
proof (rule nth_equalityI)
  fix i assume "i < length (layer_map n len f g (layer_map n len f' g' p))"
  then have i: "i < n" by simp
  show "layer_map n len f g (layer_map n len f' g' p) ! i
    = layer_map n len (\<lambda>r a b. f r (f' r a b) (g' r a b)) (\<lambda>r a b. g r (f' r a b) (g' r a b)) p ! i"
  proof (cases "i mod (2 * len) < len")
    case True
    have "i + len < n" using block_start_below [OF True, of k] i unfolding n .
    then show ?thesis
      using True i block_partner(1) [OF True] by (simp add: layer_map_nth [OF _ n])
  next
    case False
    have "i - len < n" "len \<le> i" using i block_high [OF False] by auto
    then show ?thesis
      using False i block_partner(2) [OF False assms(2)] by (simp add: layer_map_nth [OF _ n])
  qed
qed simp

lemma layer_map_id:
  assumes "length p = n" and n: "n = k * (2 * len)" and P: "\<And>x. x \<in> set p \<Longrightarrow> P x"
    and "\<And>r a b. r < k \<Longrightarrow> P a \<Longrightarrow> P b \<Longrightarrow> f r a b = h a"
    and "\<And>r a b. r < k \<Longrightarrow> P a \<Longrightarrow> P b \<Longrightarrow> g r a b = h b"
  shows "layer_map n len f g p = map h p"
proof (rule nth_equalityI)
  fix i assume "i < length (layer_map n len f g p)"
  then have i: "i < n" by simp
  have r: "i div (2 * len) < k" using i unfolding n by (rule less_mult_imp_div_less)
  have "i + len < n" if "i mod (2 * len) < len"
    using block_start_below [OF that, of k] i unfolding n .
  then show "layer_map n len f g p ! i = map h p ! i"
    using i r assms(1,3-5) by (auto simp: layer_map_nth [OF i n])
qed (simp add: assms(1))

end
