(* ===== verification/MLKEM_NTT_Layers.thy ===== *)
theory MLKEM_NTT_Layers
  imports MLKEM_NTT Libcrux_Layers
begin

section \<open>The layers of the transform on flat coefficient lists\<close>

text \<open>
  Each layer of the forward and of the inverse transform, which the code spreads over sixteen vectors,
  as one function on the flat list of 256 coefficients: \<open>layer_map\<close> combines the coefficients at
  distance \<open>len\<close>, block by block, as the loops of FIPS 203, algorithms 9 and 10, do.
\<close>

definition fwd_lo :: "(nat \<Rightarrow> int) \<Rightarrow> nat \<Rightarrow> int \<Rightarrow> int \<Rightarrow> int" where
  "fwd_lo z r a b = as_i16 (a + montgomery_multiply_fe_by_fer b (z r))"

definition fwd_hi :: "(nat \<Rightarrow> int) \<Rightarrow> nat \<Rightarrow> int \<Rightarrow> int \<Rightarrow> int" where
  "fwd_hi z r a b = as_i16 (a - montgomery_multiply_fe_by_fer b (z r))"

definition inv_lo :: "nat \<Rightarrow> int \<Rightarrow> int \<Rightarrow> int" where
  "inv_lo r a b = barrett_reduce_element (as_i16 (b + a))"

definition inv_hi :: "(nat \<Rightarrow> int) \<Rightarrow> nat \<Rightarrow> int \<Rightarrow> int \<Rightarrow> int" where
  "inv_hi z r a b = montgomery_multiply_fe_by_fer (as_i16 (b - a)) (z r)"

subsection \<open>Layers inside the vectors\<close>

lemma length_16_E:
  assumes "length v = 16"
  obtains a0 a1 a2 a3 a4 a5 a6 a7 a8 a9 a10 a11 a12 a13 a14 a15
  where "v = [a0, a1, a2, a3, a4, a5, a6, a7, a8, a9, a10, a11, a12, a13, a14, a15]"
  using assms by (auto simp: numeral_eq_Suc length_Suc_conv)

lemma ntt_layer_1_step_eq:
  assumes "length v = 16"
  shows "ntt_layer_1_step v (zf 0) (zf 1) (zf 2) (zf 3) = layer_map 16 2 (fwd_lo zf) (fwd_hi zf) v"
  using assms
  by (rule length_16_E) (simp add: ntt_layer_1_step_def ntt_step_def layer_map_def Let_def upt_evals
      fwd_lo_def fwd_hi_def)

lemma ntt_layer_2_step_eq:
  assumes "length v = 16"
  shows "ntt_layer_2_step v (zf 0) (zf 1) = layer_map 16 4 (fwd_lo zf) (fwd_hi zf) v"
  using assms
  by (rule length_16_E) (simp add: ntt_layer_2_step_def ntt_step_def layer_map_def Let_def upt_evals
      fwd_lo_def fwd_hi_def)

lemma ntt_layer_3_step_eq:
  assumes "length v = 16"
  shows "ntt_layer_3_step v (zf 0) = layer_map 16 8 (fwd_lo zf) (fwd_hi zf) v"
  using assms
  by (rule length_16_E) (simp add: ntt_layer_3_step_def ntt_step_def layer_map_def Let_def upt_evals
      fwd_lo_def fwd_hi_def)

lemma inv_ntt_layer_1_step_eq:
  assumes "length v = 16"
  shows "inv_ntt_layer_1_step v (zf 0) (zf 1) (zf 2) (zf 3) = layer_map 16 2 inv_lo (inv_hi zf) v"
  using assms
  by (rule length_16_E) (simp add: inv_ntt_layer_1_step_def inv_ntt_step_def layer_map_def Let_def
      upt_evals inv_lo_def inv_hi_def)

lemma inv_ntt_layer_2_step_eq:
  assumes "length v = 16"
  shows "inv_ntt_layer_2_step v (zf 0) (zf 1) = layer_map 16 4 inv_lo (inv_hi zf) v"
  using assms
  by (rule length_16_E) (simp add: inv_ntt_layer_2_step_def inv_ntt_step_def layer_map_def Let_def
      upt_evals inv_lo_def inv_hi_def)

lemma inv_ntt_layer_3_step_eq:
  assumes "length v = 16"
  shows "inv_ntt_layer_3_step v (zf 0) = layer_map 16 8 inv_lo (inv_hi zf) v"
  using assms
  by (rule length_16_E) (simp add: inv_ntt_layer_3_step_def inv_ntt_step_def layer_map_def Let_def
      upt_evals inv_lo_def inv_hi_def)

subsection \<open>From vectors to the flat list\<close>

lemma coeffs_nth: "ring_ok re \<Longrightarrow> i < 256 \<Longrightarrow> coeffs re ! i = re ! (i div 16) ! (i mod 16)"
  unfolding coeffs_def by (rule nth_concat_uniform) (auto simp: ring_ok_def list_all_iff)

lemma coeffs_map_upt_nth:
  assumes "\<And>a. a < 16 \<Longrightarrow> length (h a) = 16" and "i < 256"
  shows "coeffs (map h [0..<16]) ! i = h (i div 16) ! (i mod 16)"
proof -
  have "ring_ok (map h [0..<16])" using assms(1) by (auto simp: ring_ok_def list_all_iff)
  then show ?thesis using assms(2) by (simp add: coeffs_nth)
qed

lemma ring_ok_map_upt: "(\<And>a. a < 16 \<Longrightarrow> length (h a) = 16) \<Longrightarrow> ring_ok (map h [0..<16])"
  by (auto simp: ring_ok_def list_all_iff)

lemma index_split: "b < 16 \<Longrightarrow> (16 * a + b) div 16 = a" "b < 16 \<Longrightarrow> (16 * a + b) mod 16 = b" for a b :: nat
  by simp_all

lemma ring_ok_blocks: "ring_ok re \<Longrightarrow> length re = 16" "ring_ok re \<Longrightarrow> v \<in> set re \<Longrightarrow> length v = 16"
  by (auto simp: ring_ok_def list_all_iff)

lemma lift_inner:
  assumes "ring_ok re" and "16 = k * (2 * len)"
    and "\<And>a r. r < k \<Longrightarrow> f a r = F (a * k + r)" and "\<And>a r. r < k \<Longrightarrow> g a r = G (a * k + r)"
  shows "coeffs (map (\<lambda>a. layer_map 16 len (f a) (g a) (re ! a)) [0..<16]) = layer_map 256 len F G (coeffs re)"
  using layers_inside_vectors [OF ring_ok_blocks(1) [OF assms(1)] ring_ok_blocks(2) [OF assms(1)] assms(2), of f F g G] assms(3,4)
  by (simp add: coeffs_def)

lemma lift_outer:
  assumes "ring_ok re" and "16 = k * (2 * sv)"
  shows "ring_ok (vector_layer 16 (\<lambda>r. map2 (f r)) (\<lambda>r. map2 (g r)) sv re)"
    and "coeffs (vector_layer 16 (\<lambda>r. map2 (f r)) (\<lambda>r. map2 (g r)) sv re) = layer_map 256 (16 * sv) f g (coeffs re)"
  using layers_across_vectors [OF ring_ok_blocks(1) [OF assms(1)] ring_ok_blocks(2) [OF assms(1)] assms(2), where f = f and g = g]
  by (simp_all add: coeffs_def ring_ok_def list_all_iff)

subsection \<open>The layers of the code\<close>

lemma drop_bit_128: "drop_bit 4 (128 :: nat) = 8" "drop_bit 5 (128 :: nat) = 4"
  "drop_bit 6 (128 :: nat) = 2" "drop_bit 7 (128 :: nat) = 1"
  by simp_all

lemma for_loop_unroll:
  "for_loop lo lo body s = s"
  "lo < hi \<Longrightarrow> for_loop lo hi body s = for_loop (lo + 1) hi body (body lo s)"
  by (simp_all add: for_loop_step)

lemma ntt_at_layer_7_unroll:
  assumes "length re = 16"
  shows "ntt_at_layer_7 re
    = vector_layer 16 (\<lambda>r a b. arithmetic_add a (multiply_by_constant b (- 1600)))
        (\<lambda>r a b. arithmetic_sub a (multiply_by_constant b (- 1600))) 8 re"
  using assms
  by (rule length_16_E)
    (simp add: ntt_at_layer_7_def VECTORS_IN_RING_ELEMENT_def for_loop_unroll vector_layer_def upt_evals Let_def
      del: arithmetic_add_eq arithmetic_sub_eq multiply_by_constant_eq)

lemma ntt_at_layer_4_plus_unroll:
  assumes "length re = 16"
  shows "ntt_at_layer_4_plus 7 re 4
    = (15, vector_layer 16 (\<lambda>r a b. fst (ntt_layer_int_vec_step a b (zeta (8 + r))))
        (\<lambda>r a b. snd (ntt_layer_int_vec_step a b (zeta (8 + r)))) 1 re)"
  using assms
  by (rule length_16_E)
    (simp add: ntt_at_layer_4_plus_def for_loop_unroll vector_layer_def upt_evals Let_def split_beta drop_bit_128)

lemma ntt_at_layer_5_plus_unroll:
  assumes "length re = 16"
  shows "ntt_at_layer_4_plus 3 re 5
    = (7, vector_layer 16 (\<lambda>r a b. fst (ntt_layer_int_vec_step a b (zeta (4 + r))))
        (\<lambda>r a b. snd (ntt_layer_int_vec_step a b (zeta (4 + r)))) 2 re)"
  using assms
  by (rule length_16_E)
    (simp add: ntt_at_layer_4_plus_def for_loop_unroll vector_layer_def upt_evals Let_def split_beta drop_bit_128)

lemma ntt_at_layer_6_plus_unroll:
  assumes "length re = 16"
  shows "ntt_at_layer_4_plus 1 re 6
    = (3, vector_layer 16 (\<lambda>r a b. fst (ntt_layer_int_vec_step a b (zeta (2 + r))))
        (\<lambda>r a b. snd (ntt_layer_int_vec_step a b (zeta (2 + r)))) 4 re)"
  using assms
  by (rule length_16_E)
    (simp add: ntt_at_layer_4_plus_def for_loop_unroll vector_layer_def upt_evals Let_def split_beta drop_bit_128)

lemma ntt_at_layer_7_plus_unroll:
  assumes "length re = 16"
  shows "ntt_at_layer_4_plus 0 re 7
    = (1, vector_layer 16 (\<lambda>r a b. fst (ntt_layer_int_vec_step a b (zeta (1 + r))))
        (\<lambda>r a b. snd (ntt_layer_int_vec_step a b (zeta (1 + r)))) 8 re)"
  using assms
  by (rule length_16_E)
    (simp add: ntt_at_layer_4_plus_def for_loop_unroll vector_layer_def upt_evals Let_def split_beta drop_bit_128)

lemma invert_ntt_at_layer_4_plus_unroll:
  assumes "length re = 16"
  shows "invert_ntt_at_layer_4_plus 16 re 4
    = (8, vector_layer 16 (\<lambda>r a b. fst (inv_ntt_layer_int_vec_step_reduce a b (zeta (15 - r))))
        (\<lambda>r a b. snd (inv_ntt_layer_int_vec_step_reduce a b (zeta (15 - r)))) 1 re)"
  using assms
  by (rule length_16_E)
    (simp add: invert_ntt_at_layer_4_plus_def FIELD_ELEMENTS_IN_VECTOR_def for_loop_unroll vector_layer_def
      upt_evals Let_def split_beta drop_bit_128)

lemma invert_ntt_at_layer_5_plus_unroll:
  assumes "length re = 16"
  shows "invert_ntt_at_layer_4_plus 8 re 5
    = (4, vector_layer 16 (\<lambda>r a b. fst (inv_ntt_layer_int_vec_step_reduce a b (zeta (7 - r))))
        (\<lambda>r a b. snd (inv_ntt_layer_int_vec_step_reduce a b (zeta (7 - r)))) 2 re)"
  using assms
  by (rule length_16_E)
    (simp add: invert_ntt_at_layer_4_plus_def FIELD_ELEMENTS_IN_VECTOR_def for_loop_unroll vector_layer_def
      upt_evals Let_def split_beta drop_bit_128)

lemma invert_ntt_at_layer_6_plus_unroll:
  assumes "length re = 16"
  shows "invert_ntt_at_layer_4_plus 4 re 6
    = (2, vector_layer 16 (\<lambda>r a b. fst (inv_ntt_layer_int_vec_step_reduce a b (zeta (3 - r))))
        (\<lambda>r a b. snd (inv_ntt_layer_int_vec_step_reduce a b (zeta (3 - r)))) 4 re)"
  using assms
  by (rule length_16_E)
    (simp add: invert_ntt_at_layer_4_plus_def FIELD_ELEMENTS_IN_VECTOR_def for_loop_unroll vector_layer_def
      upt_evals Let_def split_beta drop_bit_128)

lemma invert_ntt_at_layer_7_plus_unroll:
  assumes "length re = 16"
  shows "invert_ntt_at_layer_4_plus 2 re 7
    = (1, vector_layer 16 (\<lambda>r a b. fst (inv_ntt_layer_int_vec_step_reduce a b (zeta (1 - r))))
        (\<lambda>r a b. snd (inv_ntt_layer_int_vec_step_reduce a b (zeta (1 - r)))) 8 re)"
  using assms
  by (rule length_16_E)
    (simp add: invert_ntt_at_layer_4_plus_def FIELD_ELEMENTS_IN_VECTOR_def for_loop_unroll vector_layer_def
      upt_evals Let_def split_beta drop_bit_128)

subsection \<open>Every layer as a function on the flat list\<close>

definition fwd_layer :: "nat \<Rightarrow> int list \<Rightarrow> int list" where
  "fwd_layer len = layer_map 256 len (fwd_lo (\<lambda>r. zeta (128 div len + r))) (fwd_hi (\<lambda>r. zeta (128 div len + r)))"

definition inv_layer :: "nat \<Rightarrow> int list \<Rightarrow> int list" where
  "inv_layer len = layer_map 256 len inv_lo (inv_hi (\<lambda>r. zeta (256 div len - 1 - r)))"

lemma outer_layer_flat:
  assumes "ring_ok re" and "16 = k * (2 * sv)"
    and "\<And>r a b. length a = 16 \<Longrightarrow> length b = 16 \<Longrightarrow> f r a b = map2 (F r) a b"
    and "\<And>r a b. length a = 16 \<Longrightarrow> length b = 16 \<Longrightarrow> g r a b = map2 (G r) a b"
  shows "ring_ok (vector_layer 16 f g sv re) \<and> coeffs (vector_layer 16 f g sv re) = layer_map 256 (16 * sv) F G (coeffs re)"
proof -
  have ln: "length (re ! a) = 16" if "a < 16" for a using ring_ok_lengths(2) [OF assms(1) that] .
  have up: "a + sv < 16" if "a mod (2 * sv) < sv" "a < 16" for a
    using block_start_below [OF that(1), of k] that(2) unfolding assms(2) .
  have "vector_layer 16 f g sv re = vector_layer 16 (\<lambda>r. map2 (F r)) (\<lambda>r. map2 (G r)) sv re"
    unfolding vector_layer_def using up by (intro map_cong) (auto simp: ln assms(3,4))
  then show ?thesis using lift_outer [OF assms(1,2), of F G] by simp
qed

lemma map2_map_right: "map2 f xs (map g ys) = map2 (\<lambda>x y. f x (g y)) xs ys"
  by (simp add: zip_map2 split_beta comp_def)

lemma ntt_vec_step_map:
  assumes "length a = 16" and "length b = 16"
  shows "fst (ntt_layer_int_vec_step a b (z r)) = map2 (fwd_lo z r) a b"
    and "snd (ntt_layer_int_vec_step a b (z r)) = map2 (fwd_hi z r) a b"
  using assms
  by (simp_all add: ntt_layer_int_vec_step_def Let_def map2_map_right fwd_lo_def [abs_def] fwd_hi_def [abs_def])

lemma inv_ntt_vec_step_map:
  assumes "length a = 16" and "length b = 16"
  shows "fst (inv_ntt_layer_int_vec_step_reduce a b (z r)) = map2 (inv_lo r) a b"
    and "snd (inv_ntt_layer_int_vec_step_reduce a b (z r)) = map2 (inv_hi z r) a b"
  using assms
  by (auto simp: inv_ntt_layer_int_vec_step_reduce_def Let_def inv_lo_def inv_hi_def add.commute
      intro!: nth_equalityI)

lemma fwd_outer:
  assumes "ring_ok re" and "16 = k * (2 * sv)" and "128 div (16 * sv) = z"
  shows "ring_ok (vector_layer 16 (\<lambda>r a b. fst (ntt_layer_int_vec_step a b (zeta (z + r))))
      (\<lambda>r a b. snd (ntt_layer_int_vec_step a b (zeta (z + r)))) sv re)
    \<and> coeffs (vector_layer 16 (\<lambda>r a b. fst (ntt_layer_int_vec_step a b (zeta (z + r))))
      (\<lambda>r a b. snd (ntt_layer_int_vec_step a b (zeta (z + r)))) sv re) = fwd_layer (16 * sv) (coeffs re)"
  unfolding fwd_layer_def assms(3)
  by (rule outer_layer_flat [OF assms(1,2)]) (rule ntt_vec_step_map, assumption+)+

lemma inv_outer:
  assumes "ring_ok re" and "16 = k * (2 * sv)" and "256 div (16 * sv) - 1 = z"
  shows "ring_ok (vector_layer 16 (\<lambda>r a b. fst (inv_ntt_layer_int_vec_step_reduce a b (zeta (z - r))))
      (\<lambda>r a b. snd (inv_ntt_layer_int_vec_step_reduce a b (zeta (z - r)))) sv re)
    \<and> coeffs (vector_layer 16 (\<lambda>r a b. fst (inv_ntt_layer_int_vec_step_reduce a b (zeta (z - r))))
      (\<lambda>r a b. snd (inv_ntt_layer_int_vec_step_reduce a b (zeta (z - r)))) sv re)
      = inv_layer (16 * sv) (coeffs re)"
  unfolding inv_layer_def assms(3)
  by (rule outer_layer_flat [OF assms(1,2)]) (rule inv_ntt_vec_step_map, assumption+)+

lemma inner_layer_flat:
  assumes "ring_ok re" and "16 = k * (2 * len)"
    and "\<And>a. a < 16 \<Longrightarrow> h a (re ! a) = layer_map 16 len (\<lambda>r. F (a * k + r)) (\<lambda>r. G (a * k + r)) (re ! a)"
  shows "ring_ok (map (\<lambda>a. h a (re ! a)) [0..<16])
    \<and> coeffs (map (\<lambda>a. h a (re ! a)) [0..<16]) = layer_map 256 len F G (coeffs re)"
proof -
  have e: "map (\<lambda>a. h a (re ! a)) [0..<16]
      = map (\<lambda>a. layer_map 16 len (\<lambda>r. F (a * k + r)) (\<lambda>r. G (a * k + r)) (re ! a)) [0..<16]"
    using assms(3) by simp
  show ?thesis
    unfolding e
    using lift_inner [OF assms(1,2), of "\<lambda>a r. F (a * k + r)" F "\<lambda>a r. G (a * k + r)" G]
    by (simp add: ring_ok_map_upt)
qed

text \<open>
  The roots of unity a vector gets are those of the blocks it holds; in the inverse transform
  they are taken in decreasing order.
\<close>

lemma fwd_inner:
  assumes "ring_ok re" and "16 = k * (2 * len)"
    and "\<And>v zf. length v = 16 \<Longrightarrow> step v zf = layer_map 16 len (fwd_lo zf) (fwd_hi zf) v"
  shows "ring_ok (map (\<lambda>a. step (re ! a) (\<lambda>r. zeta (128 div len + (a * k + r)))) [0..<16])
    \<and> coeffs (map (\<lambda>a. step (re ! a) (\<lambda>r. zeta (128 div len + (a * k + r)))) [0..<16])
      = fwd_layer len (coeffs re)"
  unfolding fwd_layer_def
  by (rule inner_layer_flat [OF assms(1,2)])
    (simp add: assms(3) ring_ok_lengths [OF assms(1)] fwd_lo_def [abs_def] fwd_hi_def [abs_def])

lemma inv_inner:
  assumes "ring_ok re" and "16 = k * (2 * len)"
    and "\<And>v zf. length v = 16 \<Longrightarrow> step v zf = layer_map 16 len inv_lo (inv_hi zf) v"
  shows "ring_ok (map (\<lambda>a. step (re ! a) (\<lambda>r. zeta (256 div len - 1 - (a * k + r)))) [0..<16])
    \<and> coeffs (map (\<lambda>a. step (re ! a) (\<lambda>r. zeta (256 div len - 1 - (a * k + r)))) [0..<16])
      = inv_layer len (coeffs re)"
  unfolding inv_layer_def
  by (rule inner_layer_flat [OF assms(1,2)])
    (simp add: assms(3) ring_ok_lengths [OF assms(1)] inv_lo_def [abs_def] inv_hi_def [abs_def])

lemma ntt_at_layer_3_flat:
  assumes "ring_ok re"
  shows "\<exists>re'. ntt_at_layer_3 15 re = (31, re') \<and> ring_ok re' \<and> coeffs re' = fwd_layer 8 (coeffs re)"
proof -
  have "ntt_at_layer_3 15 re = (31, map (\<lambda>a. (\<lambda>v zf. ntt_layer_3_step v (zf 0)) (re ! a)
      (\<lambda>r. zeta (128 div 8 + (a * 1 + r)))) [0..<16])"
    unfolding ntt_at_layer_3_def Let_def
    using for_loop_counter [of "\<lambda>i. 15 + i * 1" 15 16 "\<lambda>z. z + 1" re
        "\<lambda>z v. ntt_layer_3_step v (zeta (z + 1))"] assms
    by (simp add: ring_ok_lengths add.assoc [symmetric])
  moreover note fwd_inner [OF assms _ ntt_layer_3_step_eq, of 1]
  ultimately show ?thesis by simp
qed

lemma ntt_at_layer_2_flat:
  assumes "ring_ok re"
  shows "\<exists>re'. ntt_at_layer_2 31 re = (63, re') \<and> ring_ok re' \<and> coeffs re' = fwd_layer 4 (coeffs re)"
proof -
  have "ntt_at_layer_2 31 re = (63, map (\<lambda>a. (\<lambda>v zf. ntt_layer_2_step v (zf 0) (zf 1)) (re ! a)
      (\<lambda>r. zeta (128 div 4 + (a * 2 + r)))) [0..<16])"
    unfolding ntt_at_layer_2_def Let_def
    using for_loop_counter [of "\<lambda>i. 31 + i * 2" 31 16 "\<lambda>z. z + 1 + 1" re
        "\<lambda>z v. ntt_layer_2_step v (zeta (z + 1)) (zeta (z + 1 + 1))"] assms
    by (simp add: ring_ok_lengths add.assoc [symmetric])
  moreover note fwd_inner [OF assms _ ntt_layer_2_step_eq, of 2]
  ultimately show ?thesis by simp
qed

lemma ntt_at_layer_1_flat:
  assumes "ring_ok re"
  shows "\<exists>re'. ntt_at_layer_1 63 re = (127, re') \<and> ring_ok re' \<and> coeffs re' = fwd_layer 2 (coeffs re)"
proof -
  have "ntt_at_layer_1 63 re = (127, map (\<lambda>a. (\<lambda>v zf. ntt_layer_1_step v (zf 0) (zf 1) (zf 2) (zf 3)) (re ! a)
      (\<lambda>r. zeta (128 div 2 + (a * 4 + r)))) [0..<16])"
    unfolding ntt_at_layer_1_def Let_def
    using for_loop_counter [of "\<lambda>i. 63 + i * 4" 63 16 "\<lambda>z. z + 1 + 3" re
        "\<lambda>z v. ntt_layer_1_step v (zeta (z + 1)) (zeta (z + 1 + 1)) (zeta (z + 1 + 2)) (zeta (z + 1 + 3))"] assms
    by (simp add: ring_ok_lengths add.assoc [symmetric])
  moreover note fwd_inner [OF assms _ ntt_layer_1_step_eq, of 4]
  ultimately show ?thesis by simp
qed

lemma invert_ntt_at_layer_1_flat:
  assumes "ring_ok re"
  shows "\<exists>re'. invert_ntt_at_layer_1 128 re = (64, re') \<and> ring_ok re' \<and> coeffs re' = inv_layer 2 (coeffs re)"
proof -
  have "invert_ntt_at_layer_1 128 re = (64, map (\<lambda>a. (\<lambda>v zf. inv_ntt_layer_1_step v (zf 0) (zf 1) (zf 2) (zf 3)) (re ! a)
      (\<lambda>r. zeta (256 div 2 - 1 - (a * 4 + r)))) [0..<16])"
    unfolding invert_ntt_at_layer_1_def Let_def
    using for_loop_counter [of "\<lambda>i. 128 - i * 4" 128 16 "\<lambda>z. z - 1 - 3" re
        "\<lambda>z v. inv_ntt_layer_1_step v (zeta (z - 1)) (zeta (z - 1 - 1)) (zeta (z - 1 - 2)) (zeta (z - 1 - 3))"] assms
    by (simp add: ring_ok_lengths)
  moreover note inv_inner [OF assms _ inv_ntt_layer_1_step_eq, of 4]
  ultimately show ?thesis by simp
qed

lemma invert_ntt_at_layer_2_flat:
  assumes "ring_ok re"
  shows "\<exists>re'. invert_ntt_at_layer_2 64 re = (32, re') \<and> ring_ok re' \<and> coeffs re' = inv_layer 4 (coeffs re)"
proof -
  have "invert_ntt_at_layer_2 64 re = (32, map (\<lambda>a. (\<lambda>v zf. inv_ntt_layer_2_step v (zf 0) (zf 1)) (re ! a)
      (\<lambda>r. zeta (256 div 4 - 1 - (a * 2 + r)))) [0..<16])"
    unfolding invert_ntt_at_layer_2_def Let_def
    using for_loop_counter [of "\<lambda>i. 64 - i * 2" 64 16 "\<lambda>z. z - 1 - 1" re
        "\<lambda>z v. inv_ntt_layer_2_step v (zeta (z - 1)) (zeta (z - 1 - 1))"] assms
    by (simp add: ring_ok_lengths)
  moreover note inv_inner [OF assms _ inv_ntt_layer_2_step_eq, of 2]
  ultimately show ?thesis by simp
qed

lemma invert_ntt_at_layer_3_flat:
  assumes "ring_ok re"
  shows "\<exists>re'. invert_ntt_at_layer_3 32 re = (16, re') \<and> ring_ok re' \<and> coeffs re' = inv_layer 8 (coeffs re)"
proof -
  have "invert_ntt_at_layer_3 32 re = (16, map (\<lambda>a. (\<lambda>v zf. inv_ntt_layer_3_step v (zf 0)) (re ! a)
      (\<lambda>r. zeta (256 div 8 - 1 - (a * 1 + r)))) [0..<16])"
    unfolding invert_ntt_at_layer_3_def Let_def
    using for_loop_counter [of "\<lambda>i. 32 - i * 1" 32 16 "\<lambda>z. z - 1" re
        "\<lambda>z v. inv_ntt_layer_3_step v (zeta (z - 1))"] assms
    by (simp add: ring_ok_lengths)
  moreover note inv_inner [OF assms _ inv_ntt_layer_3_step_eq, of 1]
  ultimately show ?thesis by simp
qed

end
