(* ===== verification/Libcrux_Transform.thy ===== *)
theory Libcrux_Transform
  imports Libcrux_Layers
begin

section \<open>Number-theoretic transforms\<close>

text \<open>
  The reference transforms of the two schemes are the same algorithm: \<open>J\<close> layers of butterflies on 256 residues modulo \<open>q\<close>, where the
  layer with \<open>2^j\<close> blocks uses the roots \<open>z (2^j)\<close>, ..., \<open>z (2^(j + 1) - 1)\<close>. The locale \<open>root_table\<close> states what the table of
  roots has to satisfy: \<open>z 1\<close> is a square root of \<open>- 1\<close>, the roots of a block are square roots of the two signs of the root above it,
  and the roots read backwards are the negated inverses. From these laws alone follow that the two transforms are inverse
  to each other up to the factor \<open>2^J\<close>, and that the transform turns the product modulo \<open>X^256 + 1\<close> into the \<open>2^J\<close> products modulo
  \<open>X^n - c\<close> with \<open>n = 256 div 2^J\<close>. ML-KEM interprets the locale with seven layers modulo 3329, ML-DSA with eight
  layers modulo 8380417.
\<close>

subsection \<open>Reference definitions\<close>

fun bit_reverse :: "nat \<Rightarrow> nat \<Rightarrow> nat" where
  "bit_reverse 0 k = 0"
| "bit_reverse (Suc n) k = (k mod 2) * 2 ^ n + bit_reverse n (k div 2)"

definition transform_layer :: "int \<Rightarrow> (nat \<Rightarrow> int) \<Rightarrow> nat \<Rightarrow> int list \<Rightarrow> int list" where
  "transform_layer q z len = layer_map 256 len
     (\<lambda>r a b. (a + z (128 div len + r) * b) mod q) (\<lambda>r a b. (a - z (128 div len + r) * b) mod q)"

definition inverse_transform_layer :: "int \<Rightarrow> (nat \<Rightarrow> int) \<Rightarrow> nat \<Rightarrow> int list \<Rightarrow> int list" where
  "inverse_transform_layer q z len = layer_map 256 len
     (\<lambda>r a b. (a + b) mod q) (\<lambda>r a b. (z (256 div len - 1 - r) * (b - a)) mod q)"

fun transform :: "int \<Rightarrow> (nat \<Rightarrow> int) \<Rightarrow> nat \<Rightarrow> int list \<Rightarrow> int list" where
  "transform q z 0 p = p"
| "transform q z (Suc j) p = transform_layer q z (128 div 2 ^ j) (transform q z j p)"

fun inverse_transform :: "int \<Rightarrow> (nat \<Rightarrow> int) \<Rightarrow> nat \<Rightarrow> int list \<Rightarrow> int list" where
  "inverse_transform q z 0 p = p"
| "inverse_transform q z (Suc j) p = inverse_transform q z j (inverse_transform_layer q z (128 div 2 ^ j) p)"

definition residues :: "int \<Rightarrow> int list \<Rightarrow> int list" where
  "residues q p = map (\<lambda>x. x mod q) p"

definition scale_mod :: "int \<Rightarrow> int \<Rightarrow> int list \<Rightarrow> int list" where
  "scale_mod q c p = map (\<lambda>x. (c * x) mod q) p"

lemma length_transform [simp]:
  "length (transform_layer q z len p) = 256" "length (inverse_transform_layer q z len p) = 256"
  "length (scale_mod q c p) = length p" "length (residues q p) = length p"
  by (simp_all add: transform_layer_def inverse_transform_layer_def scale_mod_def residues_def)

lemma length_transforms [simp]:
  "length p = 256 \<Longrightarrow> length (transform q z j p) = 256" "length p = 256 \<Longrightarrow> length (inverse_transform q z j p) = 256"
  by (cases j; simp) (induction j arbitrary: p; simp)

lemma transform_fold:
  "transform q z j p = fold (transform_layer q z) (map (\<lambda>i. 128 div 2 ^ i) [0..<j]) p"
  "inverse_transform q z j p = fold (inverse_transform_layer q z) (rev (map (\<lambda>i. 128 div 2 ^ i) [0..<j])) p"
proof -
  show "transform q z j p = fold (transform_layer q z) (map (\<lambda>i. 128 div 2 ^ i) [0..<j]) p"
    by (induction j) simp_all
  show "inverse_transform q z j p = fold (inverse_transform_layer q z) (rev (map (\<lambda>i. 128 div 2 ^ i) [0..<j])) p"
    by (induction j arbitrary: p) simp_all
qed

lemma scale_mod_scale_mod: "scale_mod q c (scale_mod q d p) = scale_mod q (c * d) p"
  by (simp add: scale_mod_def mod_simps mult.assoc)

lemma scale_mod_one:
  assumes "\<And>x. x \<in> set p \<Longrightarrow> 0 \<le> x \<and> x < q" and "cong_mod q c 1"
  shows "scale_mod q c p = p"
proof -
  have "(c * x) mod q = x" if "x \<in> set p" for x
    using cong_mod_mult [OF assms(2) cong_mod_refl, of x] assms(1) [OF that] by (simp add: cong_mod_def)
  then show ?thesis by (simp add: scale_mod_def map_idI)
qed

subsection \<open>Layers and residues\<close>

lemma layer_block_bound: "i < n \<Longrightarrow> n = k * (2 * len) \<Longrightarrow> i div (2 * len) < k" for i n len k :: nat
  by (simp add: less_mult_imp_div_less)

lemma layer_map_residues:
  assumes "length p = n" and k: "n = k * (2 * len)" and P: "\<And>x. x \<in> set p \<Longrightarrow> P x"
    and f: "\<And>r a b. r < k \<Longrightarrow> P a \<Longrightarrow> P b \<Longrightarrow> f r a b mod q = f' r (a mod q) (b mod q)"
    and g: "\<And>r a b. r < k \<Longrightarrow> P a \<Longrightarrow> P b \<Longrightarrow> g r a b mod q = g' r (a mod q) (b mod q)"
  shows "residues q (layer_map n len f g p) = layer_map n len f' g' (residues q p)"
proof -
  have up: "i + len < n" if "i mod (2 * len) < len" "i < n" for i
    using block_start_below [OF that(1), of k] that(2) unfolding k .
  have "(if i mod (2 * len) < len then f (i div (2 * len)) (p ! i) (p ! (i + len))
         else g (i div (2 * len)) (p ! (i - len)) (p ! i)) mod q
      = (if i mod (2 * len) < len then f' (i div (2 * len)) (residues q p ! i) (residues q p ! (i + len))
         else g' (i div (2 * len)) (residues q p ! (i - len)) (residues q p ! i))" if "i < n" for i
    using that up [OF _ that] layer_block_bound [OF that k] assms(1) P
    by (auto simp: residues_def f g)
  then show ?thesis by (auto simp: layer_map_def residues_def [of _ "map _ _"])
qed

lemma layer_map_all:
  assumes "length p = n" and k: "n = k * (2 * len)" and P: "\<And>x. x \<in> set p \<Longrightarrow> P x"
    and f: "\<And>r a b. r < k \<Longrightarrow> P a \<Longrightarrow> P b \<Longrightarrow> Q (f r a b)"
    and g: "\<And>r a b. r < k \<Longrightarrow> P a \<Longrightarrow> P b \<Longrightarrow> Q (g r a b)"
    and x: "x \<in> set (layer_map n len f g p)"
  shows "Q x"
proof -
  have up: "i + len < n" if "i mod (2 * len) < len" "i < n" for i
    using block_start_below [OF that(1), of k] that(2) unfolding k .
  obtain i where i: "i < n"
    and xi: "x = (if i mod (2 * len) < len then f (i div (2 * len)) (p ! i) (p ! (i + len))
                  else g (i div (2 * len)) (p ! (i - len)) (p ! i))"
    using x by (auto simp: layer_map_def)
  show ?thesis
    unfolding xi using up [OF _ i] i layer_block_bound [OF i k] assms(1) P by (auto simp: f g)
qed

lemma layer_map_scale:
  assumes "length p = n" and n: "n = k * (2 * len)"
    and "\<And>r a b. f r ((c * a) mod q) ((c * b) mod q) = (c * f r a b) mod q"
    and "\<And>r a b. g r ((c * a) mod q) ((c * b) mod q) = (c * g r a b) mod q"
  shows "layer_map n len f g (scale_mod q c p) = scale_mod q c (layer_map n len f g p)"
proof (rule nth_equalityI)
  fix i assume "i < length (layer_map n len f g (scale_mod q c p))"
  then have i: "i < n" by simp
  have "i + len < n" if "i mod (2 * len) < len"
    using block_start_below [OF that, of k] i unfolding n .
  then show "layer_map n len f g (scale_mod q c p) ! i = scale_mod q c (layer_map n len f g p) ! i"
    using i assms(1) by (auto simp: layer_map_nth [OF i n] scale_mod_def assms(3,4))
qed (simp add: scale_mod_def)

lemma mod_scale:
  "((c * a) mod q + (c * b) mod q) mod q = (c * ((a + b) mod q)) mod q"
  "(z * ((c * b) mod q - (c * a) mod q)) mod q = (c * ((z * (b - a)) mod q)) mod q"
  "((c * a) mod q + z * ((c * b) mod q)) mod q = (c * ((a + z * b) mod q)) mod q"
  "((c * a) mod q - z * ((c * b) mod q)) mod q = (c * ((a - z * b) mod q)) mod q"
  for a b c z q :: int
proof -
  have e: "u mod q = w mod q" if "cong_mod q u v" "cong_mod q w v'" "v = v'" for u v v' w
    using that by (simp add: cong_mod_def)
  show "((c * a) mod q + (c * b) mod q) mod q = (c * ((a + b) mod q)) mod q"
    by (rule e [where v = "c * a + c * b" and v' = "c * (a + b)"]) (intro cong_mod_intros cong_mod_mod | simp add: algebra_simps)+
  show "(z * ((c * b) mod q - (c * a) mod q)) mod q = (c * ((z * (b - a)) mod q)) mod q"
    by (rule e [where v = "z * (c * b - c * a)" and v' = "c * (z * (b - a))"]) (intro cong_mod_intros cong_mod_mod | simp add: algebra_simps)+
  show "((c * a) mod q + z * ((c * b) mod q)) mod q = (c * ((a + z * b) mod q)) mod q"
    by (rule e [where v = "c * a + z * (c * b)" and v' = "c * (a + z * b)"]) (intro cong_mod_intros cong_mod_mod | simp add: algebra_simps)+
  show "((c * a) mod q - z * ((c * b) mod q)) mod q = (c * ((a - z * b) mod q)) mod q"
    by (rule e [where v = "c * a - z * (c * b)" and v' = "c * (a - z * b)"]) (intro cong_mod_intros cong_mod_mod | simp add: algebra_simps)+
qed

text \<open>The layer with \<open>2^j\<close> blocks.\<close>

lemma layer_dims:
  fixes j :: nat
  assumes "j < 8"
  shows "0 < 128 div (2 :: nat) ^ j" "256 = (2 :: nat) ^ j * (2 * (128 div 2 ^ j))" "128 div (128 div (2 :: nat) ^ j) = 2 ^ j"
    "256 div (128 div (2 :: nat) ^ j) = 2 * 2 ^ j" "128 div 2 ^ j \<noteq> (256 :: nat)"
proof -
  have "j \<in> {0, 1, 2, 3, 4, 5, 6, 7}" using assms by auto
  then show "0 < 128 div (2 :: nat) ^ j" "256 = (2 :: nat) ^ j * (2 * (128 div 2 ^ j))" "128 div (128 div (2 :: nat) ^ j) = 2 ^ j"
    "256 div (128 div (2 :: nat) ^ j) = 2 * 2 ^ j" "128 div 2 ^ j \<noteq> (256 :: nat)" by auto
qed

lemma layers_scale:
  assumes "length p = 256" and "j < 8"
  shows "inverse_transform_layer q z (128 div 2 ^ j) (scale_mod q c p) = scale_mod q c (inverse_transform_layer q z (128 div 2 ^ j) p)"
    and "transform_layer q z (128 div 2 ^ j) (scale_mod q c p) = scale_mod q c (transform_layer q z (128 div 2 ^ j) p)"
  unfolding inverse_transform_layer_def transform_layer_def using layer_dims(2) [OF assms(2)]
  by (intro layer_map_scale [OF assms(1), where k = "2 ^ j"]; simp only: mod_scale)+

lemma transforms_scale:
  assumes "length p = 256" and "j \<le> 8"
  shows "transform q z j (scale_mod q c p) = scale_mod q c (transform q z j p)"
    and "inverse_transform q z j (scale_mod q c p) = scale_mod q c (inverse_transform q z j p)"
proof -
  show "transform q z j (scale_mod q c p) = scale_mod q c (transform q z j p)"
    using assms by (induction j) (simp_all add: layers_scale)
  show "inverse_transform q z j (scale_mod q c p) = scale_mod q c (inverse_transform q z j p)"
    using assms by (induction j arbitrary: p) (simp_all add: layers_scale)
qed

subsection \<open>Linearity of the transforms\<close>

definition linear_mod :: "int \<Rightarrow> int \<Rightarrow> int \<Rightarrow> int list \<Rightarrow> int list \<Rightarrow> int list \<Rightarrow> bool" where
  "linear_mod q \<alpha> \<beta> c a b \<longleftrightarrow> (\<forall>i < 256. cong_mod q (c ! i) (\<alpha> * a ! i + \<beta> * b ! i))"

lemma linear_butterfly:
  assumes "cong_mod q x (\<alpha> * a + \<beta> * b)" and "cong_mod q x' (\<alpha> * a' + \<beta> * b')"
  shows "cong_mod q ((x + z * x') mod q) (\<alpha> * ((a + z * a') mod q) + \<beta> * ((b + z * b') mod q))"
    and "cong_mod q ((x - z * x') mod q) (\<alpha> * ((a - z * a') mod q) + \<beta> * ((b - z * b') mod q))"
proof -
  have m: "cong_mod q (\<alpha> * u + \<beta> * v) (\<alpha> * (u mod q) + \<beta> * (v mod q))" for u v
    by (intro cong_mod_add cong_mod_mult cong_mod_refl cong_mod_sym [OF cong_mod_mod])
  have "cong_mod q ((x + z * x') mod q) ((\<alpha> * a + \<beta> * b) + z * (\<alpha> * a' + \<beta> * b'))"
    by (intro cong_mod_trans [OF cong_mod_mod] cong_mod_intros assms)
  also have "(\<alpha> * a + \<beta> * b) + z * (\<alpha> * a' + \<beta> * b') = \<alpha> * (a + z * a') + \<beta> * (b + z * b')" by (simp add: algebra_simps)
  finally show "cong_mod q ((x + z * x') mod q) (\<alpha> * ((a + z * a') mod q) + \<beta> * ((b + z * b') mod q))" using m cong_mod_trans by blast
  have "cong_mod q ((x - z * x') mod q) ((\<alpha> * a + \<beta> * b) - z * (\<alpha> * a' + \<beta> * b'))"
    by (intro cong_mod_trans [OF cong_mod_mod] cong_mod_intros assms)
  also have "(\<alpha> * a + \<beta> * b) - z * (\<alpha> * a' + \<beta> * b') = \<alpha> * (a - z * a') + \<beta> * (b - z * b')" by (simp add: algebra_simps)
  finally show "cong_mod q ((x - z * x') mod q) (\<alpha> * ((a - z * a') mod q) + \<beta> * ((b - z * b') mod q))" using m cong_mod_trans by blast
qed

lemma transform_layer_linear:
  assumes "linear_mod q \<alpha> \<beta> c a b" and "j < 8"
  shows "linear_mod q \<alpha> \<beta> (transform_layer q z (128 div 2 ^ j) c) (transform_layer q z (128 div 2 ^ j) a) (transform_layer q z (128 div 2 ^ j) b)"
  unfolding linear_mod_def
proof (intro allI impI)
  fix i :: nat assume i: "i < 256"
  let ?len = "128 div 2 ^ j :: nat"
  note dims = layer_dims(2) [OF assms(2)]
  have up: "i + ?len < 256" if "i mod (2 * ?len) < ?len" using block_start_below [OF that, of "2 ^ j"] i dims by simp
  have lin: "cong_mod q (c ! k) (\<alpha> * a ! k + \<beta> * b ! k)" if "k < 256" for k using assms(1) that by (simp add: linear_mod_def)
  have below: "i - ?len < 256" using i by simp
  show "cong_mod q (transform_layer q z ?len c ! i) (\<alpha> * transform_layer q z ?len a ! i + \<beta> * transform_layer q z ?len b ! i)"
    unfolding transform_layer_def layer_map_nth [OF i dims]
    using linear_butterfly(1) [OF lin [OF i] lin [OF up]] linear_butterfly(2) [OF lin [OF below] lin [OF i]] by simp
qed

lemma transform_linear:
  assumes "linear_mod q \<alpha> \<beta> c a b" and "j \<le> 8"
  shows "linear_mod q \<alpha> \<beta> (transform q z j c) (transform q z j a) (transform q z j b)"
  using assms(2) by (induction j) (simp_all add: assms(1) transform_layer_linear)

subsection \<open>Products of polynomials modulo a binomial\<close>

definition conv_lo :: "(nat \<Rightarrow> int) \<Rightarrow> (nat \<Rightarrow> int) \<Rightarrow> nat \<Rightarrow> int" where
  "conv_lo a b k = (\<Sum>i\<le>k. a i * b (k - i))"

definition conv_hi :: "nat \<Rightarrow> (nat \<Rightarrow> int) \<Rightarrow> (nat \<Rightarrow> int) \<Rightarrow> nat \<Rightarrow> int" where
  "conv_hi n a b k = (\<Sum>i\<in>{k<..<n}. a i * b (n + k - i))"

definition mul_mod :: "nat \<Rightarrow> int \<Rightarrow> (nat \<Rightarrow> int) \<Rightarrow> (nat \<Rightarrow> int) \<Rightarrow> nat \<Rightarrow> int" where
  "mul_mod n c a b k = conv_lo a b k + c * conv_hi n a b k"

lemma conv_lo_linear:
  "conv_lo (\<lambda>i. x i + z * x' i) b k = conv_lo x b k + z * conv_lo x' b k"
  "conv_lo a (\<lambda>i. y i + z * y' i) k = conv_lo a y k + z * conv_lo a y' k"
  by (simp_all add: conv_lo_def algebra_simps sum.distrib sum_distrib_left)

lemma conv_hi_linear:
  "conv_hi n (\<lambda>i. x i + z * x' i) b k = conv_hi n x b k + z * conv_hi n x' b k"
  "conv_hi n a (\<lambda>i. y i + z * y' i) k = conv_hi n a y k + z * conv_hi n a y' k"
  by (simp_all add: conv_hi_def algebra_simps sum.distrib sum_distrib_left)

lemma sum_shift:
  fixes f :: "nat \<Rightarrow> int"
  shows "(\<Sum>j\<le>k. f (m + j)) = sum f {m..m + k}"
    and "(\<Sum>j\<in>{k<..<m}. f (m + j)) = sum f {m + k<..<2 * m}"
  by (rule sum.reindex_bij_witness [where i = "\<lambda>i. i - m" and j = "\<lambda>j. m + j"]; auto)+

lemma sum_split_upper:
  fixes f :: "nat \<Rightarrow> int"
  assumes "k < m"
  shows "(\<Sum>i\<in>{k<..<2 * m}. f i) = (\<Sum>i\<in>{k<..<m}. f i) + (\<Sum>j\<le>k. f (m + j)) + (\<Sum>j\<in>{k<..<m}. f (m + j))"
proof -
  have "sum f {k<..<2 * m} = sum f {k<..<m} + sum f {m..m + k} + sum f {m + k<..<2 * m}"
  proof -
    have "{k<..<2 * m} = ({k<..<m} \<union> {m..m + k}) \<union> {m + k<..<2 * m}" using assms by auto
    then show ?thesis
      using assms by (simp only:) (subst sum.union_disjoint; (subst sum.union_disjoint)?; auto)
  qed
  then show ?thesis by (simp add: sum_shift)
qed

lemma sum_split_lower:
  fixes f :: "nat \<Rightarrow> int"
  assumes "k < m"
  shows "(\<Sum>i\<le>m + k. f i) = (\<Sum>i\<le>k. f i) + (\<Sum>i\<in>{k<..<m}. f i) + (\<Sum>j\<le>k. f (m + j))"
proof -
  have "sum f {..m + k} = sum f {..k} + sum f {k<..<m} + sum f {m..m + k}"
  proof -
    have "{..m + k} = ({..k} \<union> {k<..<m}) \<union> {m..m + k}" using assms by auto
    then show ?thesis
      using assms by (simp only:) (subst sum.union_disjoint; (subst sum.union_disjoint)?; auto)
  qed
  then show ?thesis by (simp add: sum_shift)
qed

text \<open>The product modulo \<open>X^(2m) - c\<close> in terms of the lower and the upper halves of the factors.\<close>

lemma mul_mod_halves:
  fixes a b :: "nat \<Rightarrow> int"
  assumes "k < m"
  defines "a' \<equiv> \<lambda>i. a (m + i)" and "b' \<equiv> \<lambda>i. b (m + i)"
  shows "mul_mod (2 * m) c a b k
      = conv_lo a b k + c * (conv_hi m a b' k + conv_lo a' b' k + conv_hi m a' b k)"
    and "mul_mod (2 * m) c a b (m + k)
      = conv_lo a b' k + conv_hi m a b k + conv_lo a' b k + c * conv_hi m a' b' k"
proof -
  have idx: "2 * m + k - i = m + (m + k - i)" if "i < m" for i using that by simp
  have "conv_hi (2 * m) a b k = conv_hi m a b' k + conv_lo a' b' k + conv_hi m a' b k"
    unfolding conv_hi_def [of "2 * m"] sum_split_upper [OF assms(1)]
    by (simp add: conv_hi_def conv_lo_def a'_def b'_def idx)
  then show "mul_mod (2 * m) c a b k
      = conv_lo a b k + c * (conv_hi m a b' k + conv_lo a' b' k + conv_hi m a' b k)"
    by (simp add: mul_mod_def)
  have "conv_lo a b (m + k) = conv_lo a b' k + conv_hi m a b k + conv_lo a' b k"
    unfolding conv_lo_def [of a b "m + k"] sum_split_lower [OF assms(1)]
    by (simp add: conv_hi_def conv_lo_def a'_def b'_def)
  moreover have "conv_hi (2 * m) a b (m + k) = conv_hi m a' b' k"
    unfolding conv_hi_def a'_def b'_def sum_shift(2) [symmetric]
    by (intro sum.cong) (auto simp: idx)
  ultimately show "mul_mod (2 * m) c a b (m + k)
      = conv_lo a b' k + conv_hi m a b k + conv_lo a' b k + c * conv_hi m a' b' k"
    by (simp add: mul_mod_def)
qed

text \<open>Reduction modulo \<open>X^m - z\<close> is multiplicative on polynomials modulo \<open>X^(2m) - z^2\<close>.\<close>

lemma mul_mod_split:
  assumes "k < m"
  shows "mul_mod (2 * m) (z * z) a b k + z * mul_mod (2 * m) (z * z) a b (m + k)
    = mul_mod m z (\<lambda>i. a i + z * a (m + i)) (\<lambda>i. b i + z * b (m + i)) k"
  unfolding mul_mod_halves [OF assms] mul_mod_def [of m] conv_lo_linear conv_hi_linear
  by (simp add: algebra_simps)

lemma mul_mod_cong:
  assumes "k < n" and "\<And>i. i < n \<Longrightarrow> cong_mod q (a i) (a' i)" and "\<And>i. i < n \<Longrightarrow> cong_mod q (b i) (b' i)" and "cong_mod q c c'"
  shows "cong_mod q (mul_mod n c a b k) (mul_mod n c' a' b' k)"
  unfolding mul_mod_def conv_lo_def conv_hi_def
  using assms by (intro cong_mod_add cong_mod_mult cong_mod_sum) auto

lemma mul_mod_1: "mul_mod 1 c a b 0 = a 0 * b 0"
proof -
  have "{0<..<Suc 0} = {}" by auto
  then show ?thesis by (simp add: mul_mod_def conv_lo_def conv_hi_def)
qed

lemma mul_mod_2:
  "mul_mod 2 c a b 0 = a 0 * b 0 + c * (a 1 * b 1)" "mul_mod 2 c a b 1 = a 0 * b 1 + a 1 * b 0"
proof -
  have "{0<..<2::nat} = {1}" "{1<..<2::nat} = {}" "{..1::nat} = {0, 1}" "{..0::nat} = {0}" by auto
  then show "mul_mod 2 c a b 0 = a 0 * b 0 + c * (a 1 * b 1)" "mul_mod 2 c a b 1 = a 0 * b 1 + a 1 * b 0"
    by (simp_all add: mul_mod_def conv_lo_def conv_hi_def)
qed

subsection \<open>Products of blocks\<close>

text \<open>The constant \<open>c\<close> of the \<open>r\<close>-th block modulo \<open>X^n - c\<close>, and the product of two lists block by block.\<close>

definition block :: "nat \<Rightarrow> nat \<Rightarrow> int list \<Rightarrow> nat \<Rightarrow> int" where
  "block n r p i = p ! (n * r + i)"

definition block_root :: "(nat \<Rightarrow> int) \<Rightarrow> nat \<Rightarrow> nat \<Rightarrow> int" where
  "block_root z n r =
     (if n = 256 then - 1 else if even r then z (128 div n + r div 2) else - z (128 div n + r div 2))"

definition block_product :: "int \<Rightarrow> nat \<Rightarrow> (nat \<Rightarrow> int) \<Rightarrow> int list \<Rightarrow> int list \<Rightarrow> int list" where
  "block_product q n c a b =
     map (\<lambda>i. mul_mod n (c (i div n)) (block n (i div n) a) (block n (i div n) b) (i mod n) mod q) [0..<256]"

lemma length_block_product [simp]: "length (block_product q n c a b) = 256"
  by (simp add: block_product_def)

lemma block_product_nth:
  assumes "n * r + j < 256" and "j < n"
  shows "block_product q n c a b ! (n * r + j) = mul_mod n (c r) (block n r a) (block n r b) j mod q"
  using assms by (simp add: block_product_def)

lemma transform_layer_block:
  assumes "256 = k * (2 * len)" and "R < k" and "j < len"
  shows "cong_mod q (block len (2 * R) (transform_layer q z len p) j)
      (block (2 * len) R p j + z (128 div len + R) * block (2 * len) R p (len + j))"
    and "cong_mod q (block len (2 * R + 1) (transform_layer q z len p) j)
      (block (2 * len) R p j + - z (128 div len + R) * block (2 * len) R p (len + j))"
proof -
  have lo: "2 * len * R + j < 256" and hi: "2 * len * R + (len + j) < 256"
  proof -
    have "(R + 1) * (2 * len) \<le> k * (2 * len)" using assms(2) by (intro mult_le_mono1) simp
    then show "2 * len * R + j < 256" and "2 * len * R + (len + j) < 256"
      using assms(1,3) by (simp_all add: algebra_simps)
  qed
  have ix: "len * (2 * R) + j = 2 * len * R + j" "len * (2 * R + 1) + j = 2 * len * R + (len + j)"
    by (simp_all add: algebra_simps)
  have "transform_layer q z len p ! (2 * len * R + j)
      = (p ! (2 * len * R + j) + z (128 div len + R) * p ! (2 * len * R + (len + j))) mod q"
    unfolding transform_layer_def using lo assms(3) by (simp add: layer_map_def add.assoc add.commute [of j])
  then show "cong_mod q (block len (2 * R) (transform_layer q z len p) j)
      (block (2 * len) R p j + z (128 div len + R) * block (2 * len) R p (len + j))"
    unfolding block_def ix by (simp add: cong_mod_def)
  have "(2 * len * R + (len + j)) mod (2 * len) = len + j" "(2 * len * R + (len + j)) div (2 * len) = R"
    using assms(3) by simp_all
  then have "transform_layer q z len p ! (2 * len * R + (len + j))
      = (p ! (2 * len * R + j) - z (128 div len + R) * p ! (2 * len * R + (len + j))) mod q"
    unfolding transform_layer_def layer_map_nth [OF hi assms(1)] by simp
  then show "cong_mod q (block len (2 * R + 1) (transform_layer q z len p) j)
      (block (2 * len) R p j + - z (128 div len + R) * block (2 * len) R p (len + j))"
    unfolding block_def ix by (simp add: cong_mod_def)
qed

lemma transform_layer_mod: "i < 256 \<Longrightarrow> transform_layer q z len p ! i mod q = transform_layer q z len p ! i"
  by (simp add: transform_layer_def layer_map_def)

subsection \<open>Tables of roots\<close>

locale root_table =
  fixes q :: int and z :: "nat \<Rightarrow> int" and J :: nat
  assumes layers: "J \<le> 8"
    and root_top: "cong_mod q (z 1 * z 1) (- 1)"
    and root_square: "1 \<le> k \<Longrightarrow> 2 * k < 2 ^ J \<Longrightarrow> cong_mod q (z (2 * k) * z (2 * k)) (z k)"
      "1 \<le> k \<Longrightarrow> 2 * k < 2 ^ J \<Longrightarrow> cong_mod q (z (2 * k + 1) * z (2 * k + 1)) (- z k)"
    and root_pair: "j < J \<Longrightarrow> r < 2 ^ j \<Longrightarrow> cong_mod q (z (2 * 2 ^ j - 1 - r) * z (2 ^ j + r)) (- 1)"
begin

lemma inverse_layer_after:
  assumes "length p = 256" and j: "j < J"
  shows "inverse_transform_layer q z (128 div 2 ^ j) (transform_layer q z (128 div 2 ^ j) p) = scale_mod q 2 p"
proof -
  note d = layer_dims [OF less_le_trans [OF j layers]]
  have lo: "((a + t) mod q + (a - t) mod q) mod q = (2 * a) mod q" for a t
    by (simp add: mod_simps)
  have hi: "(z (2 * 2 ^ j - 1 - r) * ((a - z (2 ^ j + r) * b) mod q - (a + z (2 ^ j + r) * b) mod q)) mod q = (2 * b) mod q"
    if "r < 2 ^ j" for r a b
  proof -
    have "cong_mod q (z (2 * 2 ^ j - 1 - r) * ((a - z (2 ^ j + r) * b) mod q - (a + z (2 ^ j + r) * b) mod q))
        (z (2 * 2 ^ j - 1 - r) * ((a - z (2 ^ j + r) * b) - (a + z (2 ^ j + r) * b)))"
      by (intro cong_mod_mult cong_mod_diff cong_mod_mod cong_mod_refl)
    then have "(z (2 * 2 ^ j - 1 - r) * ((a - z (2 ^ j + r) * b) mod q - (a + z (2 ^ j + r) * b) mod q)) mod q
        = ((z (2 * 2 ^ j - 1 - r) * z (2 ^ j + r)) * (- 2 * b)) mod q"
      by (simp add: cong_mod_def algebra_simps)
    also have "\<dots> = (- 1 * (- 2 * b)) mod q"
      using cong_mod_mult [OF root_pair [OF j that] cong_mod_refl, of "- 2 * b"] unfolding cong_mod_def .
    finally show ?thesis by simp
  qed
  have "inverse_transform_layer q z (128 div 2 ^ j) (transform_layer q z (128 div 2 ^ j) p) = map (\<lambda>x. (2 * x) mod q) p"
    unfolding inverse_transform_layer_def transform_layer_def layer_map_compose [OF d(2,1)] d(3,4)
    using lo hi by (intro layer_map_id [OF assms(1) d(2), where P = "\<lambda>_. True"]) auto
  then show ?thesis by (simp add: scale_mod_def)
qed

lemma layer_after_inverse:
  assumes "length p = 256" and j: "j < J"
  shows "transform_layer q z (128 div 2 ^ j) (inverse_transform_layer q z (128 div 2 ^ j) p) = scale_mod q 2 p"
proof -
  note d = layer_dims [OF less_le_trans [OF j layers]]
  have zz: "cong_mod q (z (2 ^ j + r) * ((z (2 * 2 ^ j - 1 - r) * (b - a)) mod q)) (a - b)" if "r < 2 ^ j" for r a b
  proof -
    have "cong_mod q (z (2 ^ j + r) * ((z (2 * 2 ^ j - 1 - r) * (b - a)) mod q)) ((z (2 * 2 ^ j - 1 - r) * z (2 ^ j + r)) * (b - a))"
      unfolding cong_mod_def mod_simps by (simp add: algebra_simps)
    also have "cong_mod q \<dots> (- 1 * (b - a))" by (intro cong_mod_mult root_pair [OF j that] cong_mod_refl)
    finally show ?thesis by simp
  qed
  have lo: "((a + b) mod q + z (2 ^ j + r) * ((z (2 * 2 ^ j - 1 - r) * (b - a)) mod q)) mod q = (2 * a) mod q"
    and hi: "((a + b) mod q - z (2 ^ j + r) * ((z (2 * 2 ^ j - 1 - r) * (b - a)) mod q)) mod q = (2 * b) mod q"
    if "r < 2 ^ j" for r a b
    using cong_mod_add [OF cong_mod_mod zz [OF that], of "a + b" b a] cong_mod_diff [OF cong_mod_mod zz [OF that], of "a + b" b a]
    by (simp_all add: cong_mod_def)
  have "transform_layer q z (128 div 2 ^ j) (inverse_transform_layer q z (128 div 2 ^ j) p) = map (\<lambda>x. (2 * x) mod q) p"
    unfolding inverse_transform_layer_def transform_layer_def layer_map_compose [OF d(2,1)] d(3,4)
    using lo hi by (intro layer_map_id [OF assms(1) d(2), where P = "\<lambda>_. True"]) auto
  then show ?thesis by (simp add: scale_mod_def)
qed

lemma inverse_after_transform:
  assumes "length p = 256" and "j \<le> J"
  shows "inverse_transform q z j (transform q z j p) = (if j = 0 then p else scale_mod q (2 ^ j) p)"
    and "transform q z j (inverse_transform q z j p) = (if j = 0 then p else scale_mod q (2 ^ j) p)"
proof -
  show "inverse_transform q z j (transform q z j p) = (if j = 0 then p else scale_mod q (2 ^ j) p)"
    using assms
  proof (induction j)
    case (Suc j)
    then show ?case using layers by (simp add: inverse_layer_after transforms_scale scale_mod_scale_mod)
  qed simp
  show "transform q z j (inverse_transform q z j p) = (if j = 0 then p else scale_mod q (2 ^ j) p)"
    using assms
  proof (induction j arbitrary: p)
    case (Suc j)
    then show ?case
      using layers layer_after_inverse [of p j] by (cases "j = 0") (simp_all add: layers_scale scale_mod_scale_mod mult.commute)
  qed simp
qed

lemma root_square_block:
  assumes "j < J" and "r < 2 ^ j"
  shows "cong_mod q (z (2 ^ j + r) * z (2 ^ j + r)) (block_root z (2 * (128 div 2 ^ j)) r)"
proof (cases j)
  case 0
  then show ?thesis using assms(2) root_top by (simp add: block_root_def)
next
  case (Suc i)
  have "j \<in> {1, 2, 3, 4, 5, 6, 7}" using Suc assms(1) layers by auto
  then have n: "2 * (128 div 2 ^ j) \<noteq> (256 :: nat)" "128 div (2 * (128 div 2 ^ j)) = (2 ^ i :: nat)" using Suc by auto
  define k where "k = 2 ^ i + r div 2"
  have k: "1 \<le> k" "2 * k < 2 ^ J"
  proof -
    have "2 * (r div 2) \<le> r" by simp
    moreover have "2 * k = 2 ^ j + 2 * (r div 2)" using Suc by (simp add: k_def)
    moreover have "(2 :: nat) ^ Suc j = 2 ^ j + 2 ^ j" by simp
    ultimately have "2 * k < 2 ^ Suc j" using assms(2) by linarith
    also have "(2 :: nat) ^ Suc j \<le> 2 ^ J" using assms(1) by (intro power_increasing) simp_all
    finally show "2 * k < 2 ^ J" .
    show "1 \<le> k" unfolding k_def by (simp add: Suc_le_eq)
  qed
  have "2 ^ j + r = (if even r then 2 * k else 2 * k + 1)" using Suc by (auto simp: k_def)
  then show ?thesis using root_square [OF k] n by (simp add: block_root_def k_def [symmetric])
qed

lemma transform_layer_product:
  assumes "j < J"
  defines "len \<equiv> 128 div 2 ^ j"
  shows "transform_layer q z len (block_product q (2 * len) (block_root z (2 * len)) a b)
    = block_product q len (block_root z len) (transform_layer q z len a) (transform_layer q z len b)"
proof (rule nth_equalityI)
  let ?M = "block_product q (2 * len) (block_root z (2 * len)) a b"
  note d = layer_dims [OF less_le_trans [OF assms(1) layers], folded len_def]
  fix i assume "i < length (transform_layer q z len ?M)"
  then have i: "i < 256" by simp
  define R j' where "R = i div (2 * len)" and "j' = i mod len"
  have R: "R < 2 ^ j" unfolding R_def by (rule layer_block_bound [OF i d(2)])
  have j: "j' < len" using d(1) by (simp add: j'_def)
  have bnd: "2 * len * R + t < 256" if "t < 2 * len" for t
  proof -
    have "(R + 1) * (2 * len) \<le> 2 ^ j * (2 * len)" using R by (intro mult_le_mono1) simp
    then show ?thesis using d(2) that by (simp add: algebra_simps)
  qed
  let ?z = "z (2 ^ j + R)" and ?A = "block (2 * len) R a" and ?B = "block (2 * len) R b"
  have M: "cong_mod q (block (2 * len) R ?M t) (mul_mod (2 * len) (?z * ?z) ?A ?B t)" if "t < 2 * len" for t
  proof -
    have "cong_mod q (block (2 * len) R ?M t) (mul_mod (2 * len) (block_root z (2 * len) R) ?A ?B t)"
      unfolding block_def using block_product_nth [OF bnd [OF that] that] by (simp add: cong_mod_def block_def [abs_def])
    moreover have "cong_mod q (mul_mod (2 * len) (block_root z (2 * len) R) ?A ?B t) (mul_mod (2 * len) (?z * ?z) ?A ?B t)"
      by (rule mul_mod_cong [OF that]) (simp_all add: cong_mod_sym [OF root_square_block [OF assms(1) R, folded len_def]])
    ultimately show ?thesis by (rule cong_mod_trans)
  qed
  have split: "cong_mod q (block (2 * len) R ?M j' + y * block (2 * len) R ?M (len + j'))
      (mul_mod len y (\<lambda>t. ?A t + y * ?A (len + t)) (\<lambda>t. ?B t + y * ?B (len + t)) j')"
    if "y * y = ?z * ?z" for y
    unfolding mul_mod_split [OF j, symmetric] that
    using j by (intro cong_mod_add cong_mod_mult M) simp_all
  have goal: "transform_layer q z len ?M ! i = block_product q len (block_root z len) (transform_layer q z len a) (transform_layer q z len b) ! i"
    if y: "y * y = ?z * ?z" "block_root z len Q = y" and iQ: "i = len * Q + j'"
      and bq: "\<And>p t. t < len \<Longrightarrow> cong_mod q (block len Q (transform_layer q z len p) t)
                (block (2 * len) R p t + y * block (2 * len) R p (len + t))" for y Q
  proof -
    have "cong_mod q (block len Q (transform_layer q z len ?M) j')
        (mul_mod len y (\<lambda>t. ?A t + y * ?A (len + t)) (\<lambda>t. ?B t + y * ?B (len + t)) j')"
      by (rule cong_mod_trans [OF bq [OF j] split [OF y(1)]])
    also have "cong_mod q \<dots> (mul_mod len y (block len Q (transform_layer q z len a)) (block len Q (transform_layer q z len b)) j')"
      by (rule mul_mod_cong [OF j]; (rule cong_mod_sym, rule bq)?) simp_all
    finally have "transform_layer q z len ?M ! i mod q
        = block_product q len (block_root z len) (transform_layer q z len a) (transform_layer q z len b) ! i"
      using block_product_nth [of len Q j'] i j unfolding iQ cong_mod_def block_def [of len Q "transform_layer q z len ?M"]
      by (simp add: y(2))
    then show ?thesis using transform_layer_mod [OF i, of q z len ?M] by simp
  qed
  note iR = div_mult_mod_eq [of i "2 * len", folded R_def, symmetric]
  note tb = transform_layer_block [OF d(2) R, unfolded d(3)]
  show "transform_layer q z len ?M ! i = block_product q len (block_root z len) (transform_layer q z len a) (transform_layer q z len b) ! i"
  proof (cases "i mod (2 * len) < len")
    case True
    then have jm: "i mod (2 * len) = j'" unfolding j'_def using mod_mod_cancel [of len "2 * len" i] by simp
    show ?thesis
    proof (rule goal [of ?z "2 * R"])
      show "i = len * (2 * R) + j'" using iR unfolding jm by (simp add: algebra_simps)
    qed (simp_all add: block_root_def d(3,5) tb(1))
  next
    case False
    have "i mod (2 * len) < 2 * len" using d(1) by simp
    then have "i mod (2 * len) mod len = i mod (2 * len) - len"
      using False by (simp add: le_mod_geq)
    moreover have "i mod (2 * len) mod len = j'" unfolding j'_def by (rule mod_mod_cancel) simp
    ultimately have jm: "i mod (2 * len) = len + j'" using False by simp
    show ?thesis
    proof (rule goal [of "- ?z" "2 * R + 1"])
      show "i = len * (2 * R + 1) + j'" using iR unfolding jm by (simp add: algebra_simps)
    qed (simp_all add: block_root_def d(3,5) tb(2) [simplified])
  qed
qed simp

lemma transform_product:
  assumes "j \<le> J"
  shows "transform q z j (block_product q 256 (block_root z 256) a b)
    = block_product q (256 div 2 ^ j) (block_root z (256 div 2 ^ j)) (transform q z j a) (transform q z j b)"
  using assms
proof (induction j)
  case (Suc j)
  have "256 div 2 ^ j = 2 * (128 div 2 ^ j :: nat)" "256 div 2 ^ Suc j = (128 div 2 ^ j :: nat)"
  proof -
    have "j \<in> {0, 1, 2, 3, 4, 5, 6, 7}" using Suc.prems layers by auto
    then show "256 div 2 ^ j = 2 * (128 div 2 ^ j :: nat)" "256 div 2 ^ Suc j = (128 div 2 ^ j :: nat)" by auto
  qed
  then show ?case using Suc transform_layer_product [of j a b] transform_layer_product [of j] by simp
qed simp

end

subsection \<open>Powers of a root of unity\<close>

text \<open>
  Both standards take the powers of a primitive root of unity \<open>g\<close> of order \<open>2^(J + 1)\<close> in bit-reversed order. Every such table satisfies
  the laws of \<open>root_table\<close>.
\<close>

lemma bit_reverse_zero [simp]: "bit_reverse n 0 = 0"
  by (induction n) simp_all

lemma bit_reverse_Suc_small: "k < 2 ^ n \<Longrightarrow> bit_reverse (Suc n) k = 2 * bit_reverse n k"
proof (induction n arbitrary: k)
  case (Suc n)
  have "k div 2 < 2 ^ n" using Suc.prems by auto
  have "bit_reverse (Suc (Suc n)) k = k mod 2 * 2 ^ Suc n + bit_reverse (Suc n) (k div 2)" by (rule bit_reverse.simps)
  also have "bit_reverse (Suc n) (k div 2) = 2 * bit_reverse n (k div 2)" by (rule Suc.IH) fact
  finally show ?case by simp
qed simp

lemma bit_reverse_add_power: "k < 2 ^ b \<Longrightarrow> b < n \<Longrightarrow> bit_reverse n (2 ^ b + k) = 2 ^ (n - 1 - b) + bit_reverse n k"
proof (induction b arbitrary: n k)
  case 0
  then show ?case by (cases n) simp_all
next
  case (Suc b)
  obtain m where m: "n = Suc m" using Suc.prems(2) by (cases n) simp_all
  have "(2 ^ Suc b + k) mod 2 = k mod 2" "(2 ^ Suc b + k) div 2 = 2 ^ b + k div 2" by simp_all
  then show ?case using Suc.IH [of "k div 2" m] Suc.prems by (auto simp: m)
qed

lemma complement_halves:
  fixes a r x :: nat
  assumes "a + r + 1 = 4 * x"
  shows "a mod 2 + r mod 2 = 1" and "a div 2 = 2 * x - 1 - r div 2"
proof -
  have "a mod 2 + r mod 2 = 1 \<and> a div 2 = 2 * x - 1 - r div 2"
  proof (cases "even r")
    case True
    then obtain s where s: "r = 2 * s" by (elim evenE)
    then have "a = 2 * (2 * x - 1 - s) + 1" using assms by simp
    then show ?thesis using s by simp
  next
    case False
    then obtain s where s: "r = 2 * s + 1" by (elim oddE)
    then have "a = 2 * (2 * x - 1 - s)" using assms by simp
    then show ?thesis using s by simp
  qed
  then show "a mod 2 + r mod 2 = 1" and "a div 2 = 2 * x - 1 - r div 2" by simp_all
qed

lemma bit_reverse_pair: "r < 2 ^ j \<Longrightarrow> j < n \<Longrightarrow> bit_reverse n (2 * 2 ^ j - 1 - r) + bit_reverse n (2 ^ j + r) = 2 ^ n"
proof (induction j arbitrary: n r)
  case 0
  then show ?case by (cases n) simp_all
next
  case (Suc j)
  obtain m where m: "n = Suc m" using Suc.prems(2) by (cases n) simp_all
  define a where "a = 2 * 2 ^ Suc j - 1 - r"
  have ar: "a + r + 1 = 4 * 2 ^ j" using Suc.prems(1) by (simp add: a_def)
  note par = complement_halves [OF ar]
  have half: "(2 ^ Suc j + r) mod 2 = r mod 2" "(2 ^ Suc j + r) div 2 = 2 ^ j + r div 2" by simp_all
  have "bit_reverse n a + bit_reverse n (2 ^ Suc j + r)
      = (a mod 2 + r mod 2) * 2 ^ m + (bit_reverse m (2 * 2 ^ j - 1 - r div 2) + bit_reverse m (2 ^ j + r div 2))"
    unfolding m bit_reverse.simps half par(2) by (simp only: add_mult_distrib add_mult_distrib2 ac_simps)
  also have "bit_reverse m (2 * 2 ^ j - 1 - r div 2) + bit_reverse m (2 ^ j + r div 2) = 2 ^ m"
    using Suc.prems by (intro Suc.IH) (auto simp: m)
  finally have "bit_reverse n a + bit_reverse n (2 ^ Suc j + r) = 2 ^ m + 2 ^ m" by (simp only: par(1) mult_1)
  also have "\<dots> = 2 ^ n" by (simp add: m)
  finally show ?case unfolding a_def .
qed

locale root_of_unity =
  fixes q g :: int and J :: nat
  assumes few_layers: "0 < J" "J \<le> 8" and negacyclic: "cong_mod q (g ^ 2 ^ J) (- 1)"
begin

lemma power_product:
  assumes "a + b = e"
  shows "cong_mod q (g ^ a mod q * (g ^ b mod q)) (g ^ e)"
  unfolding assms [symmetric] power_add by (intro cong_mod_mult cong_mod_mod)

end

sublocale root_of_unity \<subseteq> root_table q "\<lambda>k. g ^ bit_reverse J k mod q" J
proof
  obtain m where m: "J = Suc m" using few_layers(1) by (cases J) simp_all
  show "J \<le> 8" by (rule few_layers)
  show "cong_mod q (g ^ bit_reverse J 1 mod q * (g ^ bit_reverse J 1 mod q)) (- 1)"
    by (rule cong_mod_trans [OF power_product negacyclic]) (simp add: m)
  fix k :: nat assume k: "1 \<le> k" "2 * k < 2 ^ J"
  have small: "bit_reverse (Suc m) k = bit_reverse m k + bit_reverse m k" using k(2) bit_reverse_Suc_small [of k m] by (simp add: m)
  show "cong_mod q (g ^ bit_reverse J (2 * k) mod q * (g ^ bit_reverse J (2 * k) mod q)) (g ^ bit_reverse J k mod q)"
    by (rule cong_mod_trans [OF power_product cong_mod_sym [OF cong_mod_mod]]) (simp only: m small, simp)
  have "cong_mod q (g ^ bit_reverse J (2 * k + 1) mod q * (g ^ bit_reverse J (2 * k + 1) mod q)) (g ^ (2 ^ J + bit_reverse J k))"
    by (rule power_product) (simp only: m small, simp)
  also have "cong_mod q (g ^ (2 ^ J + bit_reverse J k)) (- 1 * (g ^ bit_reverse J k mod q))"
    unfolding power_add by (intro cong_mod_mult negacyclic cong_mod_sym [OF cong_mod_mod])
  finally show "cong_mod q (g ^ bit_reverse J (2 * k + 1) mod q * (g ^ bit_reverse J (2 * k + 1) mod q)) (- (g ^ bit_reverse J k mod q))"
    by simp
next
  fix j r :: nat assume "j < J" "r < 2 ^ j"
  then show "cong_mod q (g ^ bit_reverse J (2 * 2 ^ j - 1 - r) mod q * (g ^ bit_reverse J (2 ^ j + r) mod q)) (- 1)"
    by (intro cong_mod_trans [OF power_product negacyclic] bit_reverse_pair)
qed

end
