(* ===== verification/MLKEM_NTT_Algebra.thy ===== *)
theory MLKEM_NTT_Algebra
  imports MLKEM_NTT_Spec
begin

section \<open>Algebra of the transform\<close>

text \<open>
  17 is a root of unity of order 256 modulo 3329, so the laws of \<open>root_table\<close> hold with seven layers, and the reference transforms
  are inverse to each other and multiplicative.
\<close>

subsection \<open>The inverse transform\<close>

definition field_list :: "int list \<Rightarrow> bool" where
  "field_list p \<longleftrightarrow> length p = 256 \<and> list_all in_field p"

abbreviation scaleq :: "int \<Rightarrow> int list \<Rightarrow> int list" where
  "scaleq \<equiv> scale_mod 3329"

lemmas scaleq_def = scale_mod_def [of 3329]
lemmas scaleq_scaleq = scale_mod_scale_mod [of 3329]

lemma layers_transform: "ntt_layer = transform_layer 3329 zeta_spec" "inverse_ntt_layer = inverse_transform_layer 3329 zeta_spec"
  by (simp_all add: fun_eq_iff ntt_layer_def inverse_ntt_layer_def transform_layer_def inverse_transform_layer_def)

lemma NTT_transform: "NTT = transform 3329 zeta_spec 7" "NTT_inverse_unscaled = inverse_transform 3329 zeta_spec 7"
proof -
  have "map (\<lambda>i. 128 div 2 ^ i) [0..<7] = [128, 64, 32, 16, 8, 4, 2 :: nat]" by code_simp
  then show "NTT = transform 3329 zeta_spec 7" "NTT_inverse_unscaled = inverse_transform 3329 zeta_spec 7"
    by (simp_all add: fun_eq_iff NTT_def NTT_inverse_unscaled_def layers_transform transform_fold)
qed

lemma length_transform_simps [simp]: "length (ntt_layer len p) = 256" "length (inverse_ntt_layer len p) = 256"
  by (simp_all add: layers_transform)

lemmas ntt_layer_mod = transform_layer_mod [where q = 3329 and z = zeta_spec, folded layers_transform]

interpretation kem: root_of_unity 3329 17 7
  by unfold_locales (simp_all add: cong_q_def)

lemmas kem_transform = kem.inverse_after_transform kem.transform_product
lemmas zeta_spec_transform = kem_transform [folded zeta_spec_def [abs_def]]

lemma unscaled_inverse:
  assumes "length p = 256"
  shows "NTT_inverse_unscaled (NTT p) = scaleq 128 p" and "NTT (NTT_inverse_unscaled p) = scaleq 128 p"
  using zeta_spec_transform(1,2) [OF assms, of 7] by (simp_all add: NTT_transform)

lemma NTT_inverse_scaleq: "NTT_inverse p = scaleq 3303 (NTT_inverse_unscaled p)"
  by (simp add: NTT_inverse_def scaleq_def mult.commute)

lemma scaleq_one: "field_list p \<Longrightarrow> c mod 3329 = 1 \<Longrightarrow> scaleq c p = p"
  by (rule scale_mod_one) (auto simp: field_list_def list_all_iff in_field_def cong_q_def)

lemma NTT_scaleq:
  assumes "length p = 256"
  shows "NTT (scaleq c p) = scaleq c (NTT p)" and "NTT_inverse_unscaled (scaleq c p) = scaleq c (NTT_inverse_unscaled p)"
  using assms by (simp_all add: NTT_transform transforms_scale)

lemma NTT_inverses:
  assumes "field_list p"
  shows "NTT_inverse (NTT p) = p" and "NTT (NTT_inverse p) = p"
proof -
  have l: "length p = 256" using assms by (simp add: field_list_def)
  show "NTT_inverse (NTT p) = p"
    using unscaled_inverse(1) [OF l] assms by (simp add: NTT_inverse_scaleq scaleq_scaleq scaleq_one)
  have "length (NTT_inverse_unscaled p) = 256" by (simp add: NTT_inverse_unscaled_def)
  then show "NTT (NTT_inverse p) = p"
    using unscaled_inverse(2) [OF l] assms
    by (simp add: NTT_inverse_scaleq NTT_scaleq scaleq_scaleq scaleq_one)
qed

end
