(* ===== verification/MLKEM_NTT_Product.thy ===== *)
theory MLKEM_NTT_Product
  imports MLKEM_NTT_Algebra
begin

section \<open>Products through the transform\<close>

text \<open>
  The transform of ML-KEM turns the product modulo \<open>X^256 + 1\<close> (\<open>ring_mul\<close>) into the 128 products modulo \<open>X^2 - c\<close> that the code
  computes with \<open>ntt_multiply\<close>.
\<close>

subsection \<open>The transform is multiplicative\<close>

abbreviation block_mul :: "nat \<Rightarrow> (nat \<Rightarrow> int) \<Rightarrow> int list \<Rightarrow> int list \<Rightarrow> int list" where
  "block_mul \<equiv> block_product 3329"

abbreviation block_const :: "nat \<Rightarrow> nat \<Rightarrow> int" where
  "block_const \<equiv> block_root zeta_spec"

lemmas block_mul_def = block_product_def [of 3329]
lemmas block_mul_nth = block_product_nth [where q = 3329]
lemmas block_const_def = block_root_def [of zeta_spec]

definition ring_mul :: "int list \<Rightarrow> int list \<Rightarrow> int list" where
  "ring_mul a b = block_mul 256 (\<lambda>r. - 1) a b"

definition multiply_ntts :: "int list \<Rightarrow> int list \<Rightarrow> int list" where
  "multiply_ntts a b = block_mul 2 (block_const 2) a b"

lemma NTT_ring_mul: "NTT (ring_mul a b) = multiply_ntts (NTT a) (NTT b)"
proof -
  have "ring_mul a b = block_mul 256 (block_const 256) a b"
    by (simp add: ring_mul_def block_mul_def block_const_def)
  then show ?thesis using zeta_spec_transform(3) [of 7 a b] by (simp add: NTT_transform multiply_ntts_def)
qed

lemma field_list_block_mul: "field_list (block_mul n c a b)"
  by (simp add: field_list_def block_mul_def list_all_iff in_field_def)

lemma NTT_inverse_multiply: "NTT_inverse (multiply_ntts (NTT a) (NTT b)) = ring_mul a b"
proof -
  have "field_list (ring_mul a b)" by (simp add: ring_mul_def field_list_block_mul)
  then show ?thesis using NTT_inverses(1) [of "ring_mul a b"] by (simp add: NTT_ring_mul)
qed

subsection \<open>The products of the code\<close>

definition binomial_lo :: "int \<Rightarrow> int \<Rightarrow> int \<Rightarrow> int \<Rightarrow> int \<Rightarrow> int" where
  "binomial_lo z ai aj bi bj =
     montgomery_reduce_element (as_i32 (as_i32 (ai * bi) + as_i32 (montgomery_reduce_element (as_i32 (aj * bj)) * z)))"

definition binomial_hi :: "int \<Rightarrow> int \<Rightarrow> int \<Rightarrow> int \<Rightarrow> int" where
  "binomial_hi ai aj bi bj = montgomery_reduce_element (as_i32 (as_i32 (ai * bj) + as_i32 (aj * bi)))"

lemma abs_mult_le: "\<bar>x\<bar> \<le> m \<Longrightarrow> \<bar>y\<bar> \<le> n \<Longrightarrow> \<bar>x * y\<bar> \<le> m * n" for x y m n :: int
  unfolding abs_mult by (intro mult_mono) auto

lemma binomial_bounds:
  assumes "\<bar>ai\<bar> \<le> 4095" "\<bar>aj\<bar> \<le> 4095" "\<bar>bi\<bar> \<le> 4095" "\<bar>bj\<bar> \<le> 4095" and z: "\<bar>z\<bar> \<le> 1664"
  shows "cong_q (binomial_lo z ai aj bi bj) (169 * (ai * bi + z * 169 * (aj * bj)))"
    and "\<bar>binomial_lo z ai aj bi bj\<bar> \<le> 3328"
    and "cong_q (binomial_hi ai aj bi bj) (169 * (ai * bj + aj * bi))"
    and "\<bar>binomial_hi ai aj bi bj\<bar> \<le> 3328"
proof -
  have p: "\<bar>ai * bi\<bar> \<le> 16769025" "\<bar>aj * bj\<bar> \<le> 16769025" "\<bar>ai * bj\<bar> \<le> 16769025" "\<bar>aj * bi\<bar> \<le> 16769025"
    using abs_mult_le [OF assms(1,3)] abs_mult_le [OF assms(2,4)] abs_mult_le [OF assms(1,4)]
      abs_mult_le [OF assms(2,3)] by simp_all
  define m where "m = montgomery_reduce_element (aj * bj)"
  have m: "\<bar>m\<bar> \<le> 1920" "cong_q m (aj * bj * 169)"
    using p(2) montgomery_reduce_element_bound [of "aj * bj" 256] montgomery_reduce_element_cong [of "aj * bj"]
    by (simp_all add: m_def cong_q_montgomery)
  have mz: "\<bar>m * z\<bar> \<le> 3194880" using abs_mult_le [OF m(1) z] by simp
  have lo: "binomial_lo z ai aj bi bj = montgomery_reduce_element (ai * bi + m * z)"
  proof -
    have "as_i32 (aj * bj) = aj * bj" "as_i32 (ai * bi) = ai * bi" using p by (simp_all add: is_i32_def abs_le_iff)
    moreover have "as_i32 (m * z) = m * z" using mz by (simp add: is_i32_def abs_le_iff)
    moreover have "as_i32 (ai * bi + m * z) = ai * bi + m * z"
      using p mz by (intro as_i32_id) (simp only: is_i32_def, linarith)
    ultimately show ?thesis by (simp add: binomial_lo_def m_def)
  qed
  have hi: "binomial_hi ai aj bi bj = montgomery_reduce_element (ai * bj + aj * bi)"
  proof -
    have "as_i32 (ai * bj) = ai * bj" "as_i32 (aj * bi) = aj * bi" using p by (simp_all add: is_i32_def abs_le_iff)
    moreover have "as_i32 (ai * bj + aj * bi) = ai * bj + aj * bi"
      using p by (intro as_i32_id) (simp only: is_i32_def, linarith)
    ultimately show ?thesis by (simp add: binomial_hi_def)
  qed
  have s: "\<bar>ai * bi + m * z\<bar> \<le> 512 * 65536" "\<bar>ai * bj + aj * bi\<bar> \<le> 512 * 65536"
    using p mz by linarith+
  have "cong_q (binomial_lo z ai aj bi bj) ((ai * bi + m * z) * 169)"
    unfolding lo using s(1) by (intro cong_q_montgomery montgomery_reduce_element_cong) linarith
  also have "cong_q \<dots> ((ai * bi + aj * bj * 169 * z) * 169)"
    using m(2) by (intro cong_q_intros)
  finally show "cong_q (binomial_lo z ai aj bi bj) (169 * (ai * bi + z * 169 * (aj * bj)))"
    by (simp add: algebra_simps)
  show "cong_q (binomial_hi ai aj bi bj) (169 * (ai * bj + aj * bi))"
    unfolding hi mult.commute [of 169] using s(2)
    by (intro cong_q_montgomery montgomery_reduce_element_cong) linarith
  show "\<bar>binomial_lo z ai aj bi bj\<bar> \<le> 3328" "\<bar>binomial_hi ai aj bi bj\<bar> \<le> 3328"
    unfolding lo hi using montgomery_reduce_element_bound [OF s(1)] montgomery_reduce_element_bound [OF s(2)]
    by linarith+
qed

lemma length_vector_ntt_multiply [simp]: "length (vector_ntt_multiply a b z0 z1 z2 z3) = 16"
  by (simp add: vector_ntt_multiply_def ntt_multiply_binomials_def Let_def vector_type_zero_def)

lemma vector_ntt_multiply_nth:
  assumes "length a = 16" and "length b = 16" and "t < 8" and "\<And>j. j < 4 \<Longrightarrow> \<bar>zf j\<bar> \<le> 1664"
  shows "vector_ntt_multiply a b (zf 0) (zf 1) (zf 2) (zf 3) ! (2 * t)
      = binomial_lo (if even t then zf (t div 2) else - zf (t div 2)) (a ! (2 * t)) (a ! (2 * t + 1)) (b ! (2 * t)) (b ! (2 * t + 1))"
    and "vector_ntt_multiply a b (zf 0) (zf 1) (zf 2) (zf 3) ! (2 * t + 1)
      = binomial_hi (a ! (2 * t)) (a ! (2 * t + 1)) (b ! (2 * t)) (b ! (2 * t + 1))"
proof -
  have z: "as_i16 (- zf j) = - zf j" if "j < 4" for j using assms(4) [OF that] by (simp add: is_i16_abs)
  have t: "t \<in> {0, 1, 2, 3, 4, 5, 6, 7}" using assms(3) by auto
  have r: "replicate 16 0 = [0, 0, 0, 0, 0, 0, 0, 0, 0, 0, 0, 0, 0, 0, 0, 0 :: int]" by (simp add: numeral_eq_Suc)
  show "vector_ntt_multiply a b (zf 0) (zf 1) (zf 2) (zf 3) ! (2 * t)
      = binomial_lo (if even t then zf (t div 2) else - zf (t div 2)) (a ! (2 * t)) (a ! (2 * t + 1)) (b ! (2 * t)) (b ! (2 * t + 1))"
    and "vector_ntt_multiply a b (zf 0) (zf 1) (zf 2) (zf 3) ! (2 * t + 1)
      = binomial_hi (a ! (2 * t)) (a ! (2 * t + 1)) (b ! (2 * t)) (b ! (2 * t + 1))"
    using t z
    by (auto simp: vector_ntt_multiply_def ntt_multiply_binomials_def Let_def vector_type_zero_def
        as_i32_f5_def binomial_lo_def binomial_hi_def r)
qed

text \<open>A loop that computes the vectors of a ring element one by one.\<close>

lemma ring_loop:
  assumes "length re = 16" and "\<And>i. i < 16 \<Longrightarrow> length (h i (re ! i)) = 16"
  defines "re' \<equiv> for_loop 0 16 (\<lambda>i re. re[i := h i (re ! i)]) re"
  shows "ring_ok re'" and "i < 256 \<Longrightarrow> coeffs re' ! i = h (i div 16) (re ! (i div 16)) ! (i mod 16)"
proof -
  have e: "re' = map (\<lambda>i. h i (re ! i)) [0..<16]"
    unfolding re'_def using assms(1) by (intro for_loop_update) simp
  show "ring_ok re'" unfolding e using assms(2) by (rule ring_ok_map_upt)
  show "i < 256 \<Longrightarrow> coeffs re' ! i = h (i div 16) (re ! (i div 16)) ! (i mod 16)"
    unfolding e using assms(2) by (rule coeffs_map_upt_nth)
qed

lemma modq_nth: "i < length p \<Longrightarrow> modq p ! i = p ! i mod 3329"
  by (simp add: modq_def)

lemmas cong_q_mod = cong_mod_mod [of 3329]

lemma ntt_multiply_nth:
  assumes "ring_ok a" and "ring_ok b" and "r < 128"
  shows "ring_ok (ntt_multiply a b)"
    and "coeffs (ntt_multiply a b) ! (2 * r)
      = binomial_lo (if even r then zeta (64 + r div 2) else - zeta (64 + r div 2))
          (coeffs a ! (2 * r)) (coeffs a ! (2 * r + 1)) (coeffs b ! (2 * r)) (coeffs b ! (2 * r + 1))"
    and "coeffs (ntt_multiply a b) ! (2 * r + 1)
      = binomial_hi (coeffs a ! (2 * r)) (coeffs a ! (2 * r + 1)) (coeffs b ! (2 * r)) (coeffs b ! (2 * r + 1))"
proof -
  let ?h = "\<lambda>i (_ :: int list). vector_ntt_multiply (a ! i) (b ! i) (zeta (64 + 4 * i)) (zeta (64 + 4 * i + 1))
      (zeta (64 + 4 * i + 2)) (zeta (64 + 4 * i + 3))"
  define v t where "v = r div 8" and "t = r mod 8"
  have vt: "r = 8 * v + t" "t < 8" "v < 16" using assms(3) by (auto simp: v_def t_def)
  have zb: "\<bar>zeta (64 + 4 * i + j)\<bar> \<le> 1664" if "i < 16" "j < 4" for i j
    using that by (intro zeta_bound) simp
  have V: "length (?h i w) = 16"
      "s < 8 \<Longrightarrow> ?h i w ! (2 * s) = binomial_lo (if even s then zeta (64 + 4 * i + s div 2) else - zeta (64 + 4 * i + s div 2))
        (a ! i ! (2 * s)) (a ! i ! (2 * s + 1)) (b ! i ! (2 * s)) (b ! i ! (2 * s + 1))"
      "s < 8 \<Longrightarrow> ?h i w ! (2 * s + 1) = binomial_hi (a ! i ! (2 * s)) (a ! i ! (2 * s + 1)) (b ! i ! (2 * s)) (b ! i ! (2 * s + 1))"
    if "i < 16" for i s w
    using vector_ntt_multiply_nth [where zf = "\<lambda>j. zeta (64 + 4 * i + j)" and a = "a ! i" and b = "b ! i"]
      ring_ok_lengths(2) [OF assms(1) that] ring_ok_lengths(2) [OF assms(2) that] zb [OF that]
    by simp_all
  have e: "ntt_multiply a b = for_loop 0 16 (\<lambda>i re. re[i := ?h i (re ! i)]) ZERO_d6"
    by (simp add: ntt_multiply_def VECTORS_IN_RING_ELEMENT_def)
  note L = ring_loop [of ZERO_d6 ?h, OF length_ZERO_d6 length_vector_ntt_multiply, folded e]
  show "ring_ok (ntt_multiply a b)" by (rule L(1))
  have ix: "2 * r = 16 * v + 2 * t" using vt(1) by simp
  have dm: "(16 * v + 2 * t) div 16 = v" "(16 * v + 2 * t) mod 16 = 2 * t"
    "(16 * v + 2 * t + 1) div 16 = v" "(16 * v + 2 * t + 1) mod 16 = 2 * t + 1"
    using index_split [of "2 * t" v] index_split [of "2 * t + 1" v] vt(2) by simp_all
  have lt: "16 * v + 2 * t < 256" "16 * v + 2 * t + 1 < 256" using vt by linarith+
  have C: "coeffs x ! (16 * v + 2 * t) = x ! v ! (2 * t)" "coeffs x ! (16 * v + 2 * t + 1) = x ! v ! (2 * t + 1)"
    if "ring_ok x" for x
    using coeffs_nth [OF that lt(1)] coeffs_nth [OF that lt(2)] by (simp_all only: dm)
  have z: "64 + r div 2 = 64 + 4 * v + t div 2" "even r = even t" using vt(1) by auto
  show "coeffs (ntt_multiply a b) ! (2 * r)
      = binomial_lo (if even r then zeta (64 + r div 2) else - zeta (64 + r div 2))
          (coeffs a ! (2 * r)) (coeffs a ! (2 * r + 1)) (coeffs b ! (2 * r)) (coeffs b ! (2 * r + 1))"
    unfolding ix C [OF assms(1)] C [OF assms(2)] L(2) [OF lt(1)] dm using V(2) [OF vt(3,2)] z
    by (simp add: add.assoc)
  show "coeffs (ntt_multiply a b) ! (2 * r + 1)
      = binomial_hi (coeffs a ! (2 * r)) (coeffs a ! (2 * r + 1)) (coeffs b ! (2 * r)) (coeffs b ! (2 * r + 1))"
    unfolding ix C [OF assms(1)] C [OF assms(2)] L(2) [OF lt(2)] dm using V(3) [OF vt(3,2)] by simp
qed

lemma even_odd_index:
  fixes i :: nat
  assumes "i < 256"
  obtains r where "r < 128" "i = 2 * r" | r where "r < 128" "i = 2 * r + 1"
proof (cases "even i")
  case True
  then obtain r where "i = 2 * r" by (elim evenE)
  then show thesis using that(1) [of r] assms by simp
next
  case False
  then obtain r where "i = 2 * r + 1" by (elim oddE)
  then show thesis using that(2) [of r] assms by simp
qed

lemma block_2: "block 2 r p 0 = p ! (2 * r)" "block 2 r p 1 = p ! (2 * r + 1)"
  by (simp_all add: block_def)

lemma multiply_ntts_nth:
  assumes "r < 128"
  shows "multiply_ntts a b ! (2 * r)
      = (a ! (2 * r) * b ! (2 * r) + block_const 2 r * (a ! (2 * r + 1) * b ! (2 * r + 1))) mod 3329"
    and "multiply_ntts a b ! (2 * r + 1) = (a ! (2 * r) * b ! (2 * r + 1) + a ! (2 * r + 1) * b ! (2 * r)) mod 3329"
  using assms block_mul_nth [of 2 r 0] block_mul_nth [of 2 r 1]
  by (simp_all add: multiply_ntts_def mul_mod_2 [unfolded One_nat_def] block_2 [unfolded One_nat_def])

lemma binomial_const:
  assumes "r < 128"
  defines "z \<equiv> if even r then zeta (64 + r div 2) else - zeta (64 + r div 2)"
  shows "\<bar>z\<bar> \<le> 1664" and "cong_q (z * 169) (block_const 2 r)"
proof -
  have k: "64 + r div 2 < 128" using assms(1) by simp
  show "\<bar>z\<bar> \<le> 1664" using zeta_bound [OF k] by (simp add: z_def)
  have "cong_q (- 1 * (zeta (64 + r div 2) * 169)) (- 1 * zeta_spec (64 + r div 2))"
    by (rule cong_q_mult [OF cong_q_refl zeta_cong [OF k]])
  then show "cong_q (z * 169) (block_const 2 r)"
    using zeta_cong [OF k] by (simp add: z_def block_const_def)
qed

lemma ntt_multiply_refines:
  assumes "ring_bounded 4095 a" and "ring_bounded 4095 b"
  shows "ring_bounded 3328 (ntt_multiply a b)"
    and "modq (coeffs (ntt_multiply a b)) = scaleq 169 (multiply_ntts (modq (coeffs a)) (modq (coeffs b)))"
proof -
  note ok = ring_bounded_ok [OF assms(1)] ring_bounded_ok [OF assms(2)]
  note N = ntt_multiply_nth [OF ok]
  have okm: "ring_ok (ntt_multiply a b)" using N(1) [of 0] by simp
  have la: "\<bar>coeffs a ! i\<bar> \<le> 4095" "\<bar>coeffs b ! i\<bar> \<le> 4095" if "i < 256" for i
    using ring_bounded_coeffs [OF assms(1), of "coeffs a ! i"] ring_bounded_coeffs [OF assms(2), of "coeffs b ! i"]
      that ok by simp_all
  have mq: "cong_q (modq (coeffs x) ! i) (coeffs x ! i)" if "ring_ok x" "i < 256" for x i
    using that by (simp add: modq_nth cong_q_def)
  have B: "\<bar>coeffs (ntt_multiply a b) ! i\<bar> \<le> 3328
      \<and> cong_q (coeffs (ntt_multiply a b) ! i) (169 * multiply_ntts (modq (coeffs a)) (modq (coeffs b)) ! i)"
    if "i < 256" for i
    using that
  proof (cases rule: even_odd_index)
    case (1 r)
    note z = binomial_const [OF 1(1)]
    have l: "2 * r < 256" "2 * r + 1 < 256" using 1(1) by simp_all
    note b = binomial_bounds [OF la(1) [OF l(1)] la(1) [OF l(2)] la(2) [OF l(1)] la(2) [OF l(2)] z(1)]
    have "cong_q (169 * (coeffs a ! (2 * r) * coeffs b ! (2 * r)
          + (if even r then zeta (64 + r div 2) else - zeta (64 + r div 2)) * 169 * (coeffs a ! (2 * r + 1) * coeffs b ! (2 * r + 1))))
        (169 * multiply_ntts (modq (coeffs a)) (modq (coeffs b)) ! (2 * r))"
      unfolding multiply_ntts_nth(1) [OF 1(1)]
      by (intro cong_q_mult cong_q_refl,
          rule cong_q_trans [OF _ cong_q_sym [OF cong_q_mod]], intro cong_q_add cong_q_mult z(2) cong_q_sym [OF mq] ok l)
    then show ?thesis unfolding 1(2) N(2) [OF 1(1)] using b(1,2) cong_q_trans by blast
  next
    case (2 r)
    note z = binomial_const [OF 2(1)]
    have l: "2 * r < 256" "2 * r + 1 < 256" using 2(1) by simp_all
    note b = binomial_bounds [OF la(1) [OF l(1)] la(1) [OF l(2)] la(2) [OF l(1)] la(2) [OF l(2)] z(1)]
    have "cong_q (169 * (coeffs a ! (2 * r) * coeffs b ! (2 * r + 1) + coeffs a ! (2 * r + 1) * coeffs b ! (2 * r)))
        (169 * multiply_ntts (modq (coeffs a)) (modq (coeffs b)) ! (2 * r + 1))"
      unfolding multiply_ntts_nth(2) [OF 2(1)]
      by (intro cong_q_mult cong_q_refl,
          rule cong_q_trans [OF _ cong_q_sym [OF cong_q_mod]], intro cong_q_add cong_q_mult cong_q_sym [OF mq] ok l)
    then show ?thesis unfolding 2(2) N(3) [OF 2(1)] using b(3,4) cong_q_trans by blast
  qed
  show "ring_bounded 3328 (ntt_multiply a b)"
    using okm B by (auto simp: ring_bounded_iff in_set_conv_nth)
  show "modq (coeffs (ntt_multiply a b)) = scaleq 169 (multiply_ntts (modq (coeffs a)) (modq (coeffs b)))"
  proof (rule nth_equalityI)
    show "length (modq (coeffs (ntt_multiply a b)))
        = length (scaleq 169 (multiply_ntts (modq (coeffs a)) (modq (coeffs b))))"
      using okm by (simp add: multiply_ntts_def block_mul_def)
  next
    fix i assume "i < length (modq (coeffs (ntt_multiply a b)))"
    then have "i < 256" using okm by simp
    then show "modq (coeffs (ntt_multiply a b)) ! i
        = scaleq 169 (multiply_ntts (modq (coeffs a)) (modq (coeffs b))) ! i"
      using B [of i] okm by (simp add: modq_nth scaleq_def multiply_ntts_def block_mul_def cong_q_def)
  qed
qed

end
