(* ===== verification/MLKEM_Ring.thy ===== *)
theory MLKEM_Ring
  imports MLKEM_NTT_Product
begin

section \<open>Arithmetic of ring elements\<close>

text \<open>
  The operations that combine ring elements coefficient by coefficient (sums, differences, the
  reductions that follow an inverse transform) share one contract, the interface \<open>ring_op2\<close>: on operands
  bounded by the given numbers the code computes a given function of the field, coefficient by
  coefficient, and the result is bounded again. The interface gives the refinement of whole ring
  elements; it is shown for every operation of the code.
\<close>

definition zipq :: "(int \<Rightarrow> int \<Rightarrow> int) \<Rightarrow> int list \<Rightarrow> int list \<Rightarrow> int list" where
  "zipq F p q = map2 (\<lambda>a b. F a b mod 3329) p q"

locale ring_op2 =
  fixes op :: "ring_element \<Rightarrow> ring_element \<Rightarrow> ring_element"
    and f :: "int \<Rightarrow> int \<Rightarrow> int" and F :: "int \<Rightarrow> int \<Rightarrow> int"
    and bx :: int and bd :: int and bz :: int
  assumes op_ok: "ring_ok x \<Longrightarrow> ring_ok y \<Longrightarrow> ring_ok (op x y)"
    and op_nth: "ring_ok x \<Longrightarrow> ring_ok y \<Longrightarrow> i < 256 \<Longrightarrow> coeffs (op x y) ! i = f (coeffs x ! i) (coeffs y ! i)"
    and f_refines: "\<bar>a\<bar> \<le> bx \<Longrightarrow> \<bar>b\<bar> \<le> bd \<Longrightarrow> cong_q (f a b) (F a b)"
    and f_bound: "\<bar>a\<bar> \<le> bx \<Longrightarrow> \<bar>b\<bar> \<le> bd \<Longrightarrow> \<bar>f a b\<bar> \<le> bz"
    and F_cong: "cong_q a a' \<Longrightarrow> cong_q b b' \<Longrightarrow> cong_q (F a b) (F a' b')"
begin

lemma bounded:
  assumes "ring_bounded bx x" and "ring_bounded bd y"
  shows "ring_bounded bz (op x y)"
proof -
  note ok = ring_bounded_ok [OF assms(1)] ring_bounded_ok [OF assms(2)]
  have "\<bar>coeffs (op x y) ! i\<bar> \<le> bz" if "i < 256" for i
    using that ring_bounded_coeffs [OF assms(1), of "coeffs x ! i"] ring_bounded_coeffs [OF assms(2), of "coeffs y ! i"] ok
    by (simp add: op_nth f_bound)
  then show ?thesis using op_ok [OF ok] by (auto simp: ring_bounded_iff in_set_conv_nth)
qed

lemma refines:
  assumes "ring_bounded bx x" and "ring_bounded bd y"
  shows "modq (coeffs (op x y)) = zipq F (modq (coeffs x)) (modq (coeffs y))"
proof (rule nth_equalityI)
  note ok = ring_bounded_ok [OF assms(1)] ring_bounded_ok [OF assms(2)]
  show "length (modq (coeffs (op x y))) = length (zipq F (modq (coeffs x)) (modq (coeffs y)))"
    using ok op_ok [OF ok] by (simp add: zipq_def)
  fix i assume "i < length (modq (coeffs (op x y)))"
  then have i: "i < 256" using op_ok [OF ok] by simp
  have "cong_q (coeffs (op x y) ! i) (F (coeffs x ! i) (coeffs y ! i))"
    using i ring_bounded_coeffs [OF assms(1), of "coeffs x ! i"] ring_bounded_coeffs [OF assms(2), of "coeffs y ! i"] ok
    by (simp add: op_nth f_refines)
  also have "cong_q (F (coeffs x ! i) (coeffs y ! i)) (F (coeffs x ! i mod 3329) (coeffs y ! i mod 3329))"
    by (intro F_cong) (simp_all add: cong_q_def)
  finally show "modq (coeffs (op x y)) ! i = zipq F (modq (coeffs x)) (modq (coeffs y)) ! i"
    using i ok op_ok [OF ok] by (simp add: zipq_def modq_nth cong_q_def)
qed

end

subsection \<open>The operations provide the interface\<close>

lemma ring_loop2:
  assumes "ring_ok re" and "ring_ok err"
    and "\<And>v w. length v = 16 \<Longrightarrow> length w = 16 \<Longrightarrow> g v w = map2 f v w"
  shows "ring_ok (for_loop 0 16 (\<lambda>i re. re[i := g (re ! i) (err ! i)]) re)"
    and "i < 256 \<Longrightarrow> coeffs (for_loop 0 16 (\<lambda>i re. re[i := g (re ! i) (err ! i)]) re) ! i
      = f (coeffs re ! i) (coeffs err ! i)"
proof -
  have g: "g (re ! i) (err ! i) = map2 f (re ! i) (err ! i)" if "i < 16" for i
    using that assms by (simp add: ring_ok_lengths)
  have l: "\<And>i. i < 16 \<Longrightarrow> length (g (re ! i) (err ! i)) = 16"
    using assms by (simp add: g ring_ok_lengths)
  note L = ring_loop [of re "\<lambda>i v. g v (err ! i)", OF ring_ok_lengths(1) [OF assms(1)] l]
  show "ring_ok (for_loop 0 16 (\<lambda>i re. re[i := g (re ! i) (err ! i)]) re)" by (rule L(1))
  assume i: "i < 256"
  then have "i div 16 < 16" "i mod 16 < 16" by auto
  then show "coeffs (for_loop 0 16 (\<lambda>i re. re[i := g (re ! i) (err ! i)]) re) ! i
      = f (coeffs re ! i) (coeffs err ! i)"
    using L(2) [OF _ i] assms i by (simp add: g coeffs_nth ring_ok_lengths)
qed

lemma add_to_ring_element_op:
  assumes "0 \<le> bx" and "bx + bd \<le> 32767"
  shows "ring_op2 add_to_ring_element (\<lambda>a b. as_i16 (a + b)) (+) bx bd (bx + bd)"
proof
  fix a b assume "\<bar>a\<bar> \<le> bx" "\<bar>b\<bar> \<le> bd"
  then have "as_i16 (a + b) = a + b" using assms by (intro as_i16_id is_i16_abs) linarith
  with \<open>\<bar>a\<bar> \<le> bx\<close> \<open>\<bar>b\<bar> \<le> bd\<close> show "cong_q (as_i16 (a + b)) (a + b)" "\<bar>as_i16 (a + b)\<bar> \<le> bx + bd"
    by simp_all
qed (simp_all add: add_to_ring_element_def ring_loop2 [where g = arithmetic_add and f = "\<lambda>a b. as_i16 (a + b)"] cong_q_add)

text \<open>
  The reductions after an inverse transform: a Montgomery multiplication by a constant \<open>c\<close> of absolute
  value at most 1664, a sum or a difference, a Barrett reduction.
\<close>

lemma montgomery_const:
  assumes "\<bar>a\<bar> \<le> 32767" and "\<bar>c\<bar> \<le> 1664"
  shows "\<bar>montgomery_multiply_fe_by_fer a c\<bar> \<le> 2496"
    and "cong_q (montgomery_multiply_fe_by_fer a c) (c * 169 * a)"
proof -
  have i: "is_i16 a" using assms(1) by (rule is_i16_abs)
  show "\<bar>montgomery_multiply_fe_by_fer a c\<bar> \<le> 2496" by (rule montgomery_multiply_bound [OF i assms(2)])
  have "\<bar>a * c\<bar> \<le> 3328 * 65536" using montgomery_multiply_product [OF i assms(2)] by linarith
  then show "cong_q (montgomery_multiply_fe_by_fer a c) (c * 169 * a)"
    using montgomery_multiply_cong [of a c] by (simp add: ac_simps)
qed

lemma scale_add_reduce:
  assumes "\<bar>a\<bar> \<le> 32767" and "\<bar>c\<bar> \<le> 1664" and "\<bar>e\<bar> \<le> 30000" and "cong_q (c * 169) d"
  defines "t \<equiv> montgomery_multiply_fe_by_fer a c"
  shows "cong_q (barrett_reduce_element (as_i16 (t + e))) (d * a + e)"
    and "\<bar>barrett_reduce_element (as_i16 (t + e))\<bar> \<le> 1664"
    and "cong_q (barrett_reduce_element (as_i16 (e - t))) (e - d * a)"
    and "\<bar>barrett_reduce_element (as_i16 (e - t))\<bar> \<le> 1664"
proof -
  have t: "\<bar>t\<bar> \<le> 2496" "cong_q t (d * a)"
    using montgomery_const [OF assms(1,2)] cong_q_mult [OF assms(4) cong_q_refl, of a]
    by (auto simp: t_def intro: cong_q_trans)
  have i: "is_i16 (t + e)" "is_i16 (e - t)" using t(1) assms(3) by (intro is_i16_abs; linarith)+
  show "\<bar>barrett_reduce_element (as_i16 (t + e))\<bar> \<le> 1664" "\<bar>barrett_reduce_element (as_i16 (e - t))\<bar> \<le> 1664"
    by (rule barrett_reduce_element_eq(2), rule as_i16_range)+
  show "cong_q (barrett_reduce_element (as_i16 (t + e))) (d * a + e)"
    using cong_q_trans [OF barrett_reduce_element_cong [OF i(1)] cong_q_add [OF t(2) cong_q_refl]] i(1) by simp
  show "cong_q (barrett_reduce_element (as_i16 (e - t))) (e - d * a)"
    using cong_q_trans [OF barrett_reduce_element_cong [OF i(2)] cong_q_diff [OF cong_q_refl t(2)]] i(2) by simp
qed

lemma montgomery_constants: "cong_q (1441 * 169) 512" "cong_q (1353 * 169) 2285"
  by (simp_all add: cong_q_def)

interpretation add_error: ring_op2 add_error_reduce
  "\<lambda>a e. barrett_reduce_element (as_i16 (montgomery_multiply_fe_by_fer a 1441 + e))" "\<lambda>a e. 512 * a + e" 32767 30000 1664
proof
  fix a e :: int assume "\<bar>a\<bar> \<le> 32767" "\<bar>e\<bar> \<le> 30000"
  then show "cong_q (barrett_reduce_element (as_i16 (montgomery_multiply_fe_by_fer a 1441 + e))) (512 * a + e)"
    "\<bar>barrett_reduce_element (as_i16 (montgomery_multiply_fe_by_fer a 1441 + e))\<bar> \<le> 1664"
    using scale_add_reduce [OF _ _ _ montgomery_constants(1)] by simp_all
qed (simp_all add: add_error_reduce_def VECTORS_IN_RING_ELEMENT_def Let_def cong_q_intros
    ring_loop2 [where g = "\<lambda>v w. barrett_reduce (arithmetic_add (montgomery_multiply_by_constant v 1441) w)"
      and f = "\<lambda>a e. barrett_reduce_element (as_i16 (montgomery_multiply_fe_by_fer a 1441 + e))"]
    zip_map1 split_beta comp_def)

interpretation add_standard_error: ring_op2 add_standard_error_reduce
  "\<lambda>a e. barrett_reduce_element (as_i16 (montgomery_multiply_fe_by_fer a 1353 + e))" "\<lambda>a e. 2285 * a + e" 32767 30000 1664
proof
  fix a e :: int assume "\<bar>a\<bar> \<le> 32767" "\<bar>e\<bar> \<le> 30000"
  then show "cong_q (barrett_reduce_element (as_i16 (montgomery_multiply_fe_by_fer a 1353 + e))) (2285 * a + e)"
    "\<bar>barrett_reduce_element (as_i16 (montgomery_multiply_fe_by_fer a 1353 + e))\<bar> \<le> 1664"
    using scale_add_reduce [OF _ _ _ montgomery_constants(2)] by simp_all
qed (simp_all add: add_standard_error_reduce_def to_standard_domain_def MONTGOMERY_R_SQUARED_MOD_FIELD_MODULUS_def
    VECTORS_IN_RING_ELEMENT_def Let_def cong_q_intros
    ring_loop2 [where g = "\<lambda>v w. barrett_reduce (arithmetic_add (montgomery_multiply_by_constant v 1353) w)"
      and f = "\<lambda>a e. barrett_reduce_element (as_i16 (montgomery_multiply_fe_by_fer a 1353 + e))"]
    zip_map1 split_beta comp_def)

lemma subtract_vector:
  assumes "length v = 16" and "length w = 16"
  shows "barrett_reduce (arithmetic_sub w (montgomery_multiply_by_constant v 1441))
    = map2 (\<lambda>b v. barrett_reduce_element (as_i16 (v - montgomery_multiply_fe_by_fer b 1441))) v w"
  using assms by (intro nth_equalityI) simp_all

interpretation subtract: ring_op2 subtract_reduce
  "\<lambda>v b. barrett_reduce_element (as_i16 (v - montgomery_multiply_fe_by_fer b 1441))" "\<lambda>v b. v - 512 * b" 30000 32767 1664
proof
  fix v b :: int assume "\<bar>v\<bar> \<le> 30000" "\<bar>b\<bar> \<le> 32767"
  then show "cong_q (barrett_reduce_element (as_i16 (v - montgomery_multiply_fe_by_fer b 1441))) (v - 512 * b)"
    "\<bar>barrett_reduce_element (as_i16 (v - montgomery_multiply_fe_by_fer b 1441))\<bar> \<le> 1664"
    using scale_add_reduce [OF _ _ _ montgomery_constants(1)] by simp_all
qed (simp_all add: subtract_reduce_def VECTORS_IN_RING_ELEMENT_def Let_def cong_q_intros
    ring_loop2 [OF _ _ subtract_vector])

text \<open>The message and the error are added first; the rest is \<open>add_error_reduce\<close>.\<close>

lemma add_message_error_reduce_eq:
  assumes "ring_ok e" and "ring_ok m" and "ring_ok r"
  shows "add_message_error_reduce e m r = add_error_reduce r (add_to_ring_element e m)"
proof -
  have "add_to_ring_element e m = map (\<lambda>i. arithmetic_add (e ! i) (m ! i)) [0..<16]"
    using assms by (simp add: add_to_ring_element_def for_loop_update [where f = "\<lambda>i v. arithmetic_add v (m ! i)"] ring_ok_lengths)
  then show ?thesis
    unfolding add_message_error_reduce_def add_error_reduce_def VECTORS_IN_RING_ELEMENT_def Let_def
    by (intro for_loop_cong) simp_all
qed

subsection \<open>Products through the transform\<close>

text \<open>
  A product of the code carries the factor \<open>2^-16 = 169\<close>, the inverse transform lacks the factor
  \<open>1/128 = 3303\<close>; the constant 512 of the reductions supplies both.
\<close>

lemma scaleq_cong: "c mod 3329 = d mod 3329 \<Longrightarrow> scaleq c p = scaleq d p"
  unfolding scaleq_def by (metis mod_mult_left_eq)

lemma NTT_inverse_of_product:
  assumes "length X = 256"
  shows "scaleq 512 (NTT_inverse_unscaled (scaleq 169 X)) = NTT_inverse X"
proof -
  have "NTT_inverse_unscaled (scaleq 169 X) = scaleq 169 (NTT_inverse_unscaled X)"
    by (rule NTT_scaleq(2) [OF assms])
  then show ?thesis by (simp add: NTT_inverse_scaleq scaleq_scaleq scaleq_cong [of 86528 3303])
qed

lemma length_multiply_ntts [simp]: "length (multiply_ntts a b) = 256"
  by (simp add: multiply_ntts_def block_mul_def)

lemma zipq_scale_left: "length p = length r \<Longrightarrow> zipq (\<lambda>a e. c * a + e) p r = zipq (+) (scaleq c p) r"
  by (rule nth_equalityI) (simp_all add: zipq_def scaleq_def mod_simps)

lemma zipq_scale_right: "length p = length r \<Longrightarrow> zipq (\<lambda>v b. v - c * b) p r = zipq (-) p (scaleq c r)"
  by (rule nth_equalityI) (simp_all add: zipq_def scaleq_def mod_simps)

lemma length_NTT_inverse_unscaled [simp]: "length (NTT_inverse_unscaled p) = 256"
  by (simp add: NTT_inverse_unscaled_def)

text \<open>Transforming back a product or a sum of products, then adding or subtracting.\<close>

lemma invert_then_add:
  assumes "ring_bounded 16383 t" and "modq (coeffs t) = scaleq 169 X" and "length X = 256" and "ring_bounded 30000 e"
  shows "modq (coeffs (add_error_reduce (invert_ntt_montgomery t) e)) = zipq (+) (NTT_inverse X) (modq (coeffs e))"
    and "ring_bounded 1664 (add_error_reduce (invert_ntt_montgomery t) e)"
proof -
  note i = invert_ntt_montgomery_refines [OF assms(1)]
  have b: "ring_bounded 32767 (invert_ntt_montgomery t)" by (rule ring_bounded_mono [OF i(2)]) simp
  show "ring_bounded 1664 (add_error_reduce (invert_ntt_montgomery t) e)" by (rule add_error.bounded [OF b assms(4)])
  show "modq (coeffs (add_error_reduce (invert_ntt_montgomery t) e)) = zipq (+) (NTT_inverse X) (modq (coeffs e))"
    using add_error.refines [OF b assms(4)] ring_bounded_ok [OF assms(4)] assms(2,3)
    by (simp add: zipq_scale_left i(1) NTT_inverse_of_product)
qed

lemma invert_then_subtract:
  assumes "ring_bounded 16383 t" and "modq (coeffs t) = scaleq 169 X" and "length X = 256" and "ring_bounded 30000 v"
  shows "modq (coeffs (subtract_reduce v (invert_ntt_montgomery t))) = zipq (-) (modq (coeffs v)) (NTT_inverse X)"
    and "ring_bounded 1664 (subtract_reduce v (invert_ntt_montgomery t))"
proof -
  note i = invert_ntt_montgomery_refines [OF assms(1)]
  have b: "ring_bounded 32767 (invert_ntt_montgomery t)" by (rule ring_bounded_mono [OF i(2)]) simp
  show "ring_bounded 1664 (subtract_reduce v (invert_ntt_montgomery t))" by (rule subtract.bounded [OF assms(4) b])
  show "modq (coeffs (subtract_reduce v (invert_ntt_montgomery t))) = zipq (-) (modq (coeffs v)) (NTT_inverse X)"
    using subtract.refines [OF assms(4) b] ring_bounded_ok [OF assms(4)] assms(2,3)
    by (simp add: zipq_scale_right i(1) NTT_inverse_of_product)
qed

subsection \<open>Properties\<close>

text \<open>
  C23. The forward transform of decompressed ring elements: on coefficients of absolute value at most
  3328, the seven layers of \<open>ntt_vector_u\<close> with their Montgomery multiplications and 16-bit sums
  compute, modulo 3329, the transform of the standard, with the powers of 17 in
  bit-reversed order; no sum overflows and the result is reduced to at most 1664.
\<close>

theorem ntt_vector_u_correct:
  assumes "ring_bounded 3328 re"
  shows "modq (coeffs (ntt_vector_u re)) = NTT (modq (coeffs re)) \<and> ring_bounded 1664 (ntt_vector_u re)"
  using ntt_vector_u_refines [OF assms] by simp

theorem ntt_vector_u_correct_witness:
  "modq (coeffs (ntt_vector_u (replicate 16 (replicate 16 (- 3328)))))
   = NTT (modq (coeffs (replicate 16 (replicate 16 (- 3328)))))"
  using ntt_vector_u_correct [of "replicate 16 (replicate 16 (- 3328))"]
  by (simp add: ring_bounded_def vec_bounded_def list_all_iff)

text \<open>
  The forward transform of sampled ring elements, whose coefficients are at most three in absolute
  value: the shortcut of \<open>ntt_binomially_sampled_ring_element\<close>, a first layer of plain
  multiplications by - 1600 without any reduction, computes the same transform.
\<close>

theorem ntt_binomially_sampled_correct:
  assumes "ring_bounded 3 re"
  shows "modq (coeffs (ntt_binomially_sampled_ring_element re)) = NTT (modq (coeffs re))
    \<and> ring_bounded 1664 (ntt_binomially_sampled_ring_element re)"
  using ntt_binomially_sampled_refines [OF assms] by simp

theorem ntt_binomially_sampled_correct_witness:
  "modq (coeffs (ntt_binomially_sampled_ring_element (replicate 16 (replicate 16 (- 3)))))
   = NTT (modq (coeffs (replicate 16 (replicate 16 (- 3)))))"
  using ntt_binomially_sampled_correct [of "replicate 16 (replicate 16 (- 3))"]
  by (simp add: ring_bounded_def vec_bounded_def list_all_iff)

text \<open>
  C24. The inverse transform: after the forward transform, \<open>invert_ntt_montgomery\<close> gives back every
  coefficient times 128, the factor that the reductions after it divide out.
\<close>

theorem invert_ntt_montgomery_inverse:
  assumes "ring_bounded 3328 re"
  shows "modq (coeffs (invert_ntt_montgomery (ntt_vector_u re))) = map (\<lambda>x. (128 * x) mod 3329) (coeffs re)
    \<and> ring_bounded 1664 (invert_ntt_montgomery (ntt_vector_u re))"
proof -
  note u = ntt_vector_u_refines [OF assms]
  have b: "ring_bounded 16383 (ntt_vector_u re)" by (rule ring_bounded_mono [OF u(2)]) simp
  have "modq (coeffs (invert_ntt_montgomery (ntt_vector_u re))) = scaleq 128 (modq (coeffs re))"
    using ring_bounded_ok [OF assms] by (simp add: invert_ntt_montgomery_refines(1) [OF b] u(1) unscaled_inverse)
  then show ?thesis
    using invert_ntt_montgomery_refines(2) [OF b] by (simp add: scaleq_def modq_def mod_simps)
qed

theorem invert_ntt_montgomery_inverse_witness:
  "modq (coeffs (invert_ntt_montgomery (ntt_vector_u (replicate 16 (replicate 16 17))))) = replicate 256 2176"
proof -
  have "coeffs (replicate 16 (replicate 16 (17 :: int))) = replicate 256 17"
    by (simp add: coeffs_def eval_nat_numeral)
  then show ?thesis
    using invert_ntt_montgomery_inverse [of "replicate 16 (replicate 16 17)"]
    by (simp add: ring_bounded_def vec_bounded_def list_all_iff)
qed

text \<open>
  The product in the transformed domain: on coefficients of at most 4095 in absolute value (what a decoded
  key can hold), \<open>ntt_multiply\<close> computes the 128 products of binomials modulo \<open>X^2 - \<zeta>\<close>, times the factor
  \<open>2^-16 = 169\<close> of the Montgomery form, without overflow of the 32-bit intermediate values.
\<close>

theorem ntt_multiply_correct:
  assumes "ring_bounded 4095 a" and "ring_bounded 4095 b"
  shows "modq (coeffs (ntt_multiply a b)) = scaleq 169 (multiply_ntts (modq (coeffs a)) (modq (coeffs b)))
    \<and> ring_bounded 3328 (ntt_multiply a b)"
  using ntt_multiply_refines [OF assms] by simp

theorem ntt_multiply_correct_witness:
  "modq (coeffs (ntt_multiply (replicate 16 (replicate 16 4095)) (replicate 16 (replicate 16 (- 4095)))))
   = scaleq 169 (multiply_ntts (modq (coeffs (replicate 16 (replicate 16 4095))))
       (modq (coeffs (replicate 16 (replicate 16 (- 4095))))))"
  using ntt_multiply_correct [of "replicate 16 (replicate 16 4095)" "replicate 16 (replicate 16 (- 4095))"]
  by (simp add: ring_bounded_def vec_bounded_def list_all_iff)

text \<open>
  C25. The whole route of a product of polynomials: transform both operands, multiply, transform back and add
  an error with \<open>add_error_reduce\<close>. The result is, modulo 3329, the product in
  \<open>Z_3329[X]/(X^256 + 1)\<close> of the operands plus the error: all Montgomery and transform factors cancel.
\<close>

theorem polynomial_product_correct:
  assumes "ring_bounded 3328 a" and "ring_bounded 3328 b" and "ring_bounded 30000 e"
  shows "modq (coeffs (add_error_reduce (invert_ntt_montgomery (ntt_multiply (ntt_vector_u a) (ntt_vector_u b))) e))
    = map2 (\<lambda>x y. (x + y) mod 3329) (ring_mul (modq (coeffs a)) (modq (coeffs b))) (modq (coeffs e))"
proof -
  note u = ntt_vector_u_refines [OF assms(1)] ntt_vector_u_refines [OF assms(2)]
  have "ring_bounded 4095 (ntt_vector_u a)" "ring_bounded 4095 (ntt_vector_u b)"
    by (rule ring_bounded_mono [OF u(2)], simp, rule ring_bounded_mono [OF u(4)], simp)
  note m = ntt_multiply_refines [OF this]
  have "ring_bounded 16383 (ntt_multiply (ntt_vector_u a) (ntt_vector_u b))"
    by (rule ring_bounded_mono [OF m(1)]) simp
  from invert_then_add(1) [OF this m(2) _ assms(3)] show ?thesis
    by (simp add: u(1,3) NTT_inverse_multiply) (simp add: zipq_def)
qed

theorem polynomial_product_correct_witness:
  "modq (coeffs (add_error_reduce (invert_ntt_montgomery (ntt_multiply
     (ntt_vector_u (replicate 16 (replicate 16 3))) (ntt_vector_u (replicate 16 (replicate 16 (- 5))))))
     (replicate 16 (replicate 16 2))))
    = map2 (\<lambda>x y. (x + y) mod 3329) (ring_mul (modq (coeffs (replicate 16 (replicate 16 3))))
        (modq (coeffs (replicate 16 (replicate 16 (- 5)))))) (modq (coeffs (replicate 16 (replicate 16 2))))"
  by (rule polynomial_product_correct) (simp_all add: ring_bounded_def vec_bounded_def list_all_iff)

end
