(* ===== verification/SHA3_Keccak.thy ===== *)
theory SHA3_Keccak
  imports Libcrux_Prelude
begin

section \<open>SHA-3: the permutation Keccak-f[1600]\<close>

text \<open>
  The portable (one-lane) permutation of \<open>libcrux_sha3_portable.c\<close> lines 22--110 and 140--1782. The state is
  the array of 25 words of 64 bits; \<open>get_ij\<close> and \<open>set_ij\<close> read and write the word of row \<open>i\<close> and
  column \<open>j\<close>. The 24 monomorphic instances of \<open>xor_and_rotate\<close> are one definition with the rotation
  as an argument. The second half states the permutation as the standard does (FIPS 202, section 3) and
  proves that the unrolled code computes it.
\<close>

type_synonym keccak_state = "u64 list"

subsection \<open>Operations on one lane\<close>

definition zero_d2 :: u64 where
  "zero_d2 = 0"

definition xor5 :: "u64 \<Rightarrow> u64 \<Rightarrow> u64 \<Rightarrow> u64 \<Rightarrow> u64 \<Rightarrow> u64" where
  "xor5 a b c d e = (((a XOR b) XOR c) XOR d) XOR e"

definition rotate_left :: "u64 \<Rightarrow> nat \<Rightarrow> u64" where
  "rotate_left x n = push_bit n x OR drop_bit (unat ((- of_nat n :: u32) AND 63)) x"

definition rotate_left1_and_xor :: "u64 \<Rightarrow> u64 \<Rightarrow> u64" where
  "rotate_left1_and_xor a b = a XOR rotate_left b 1"

definition and_not_xor :: "u64 \<Rightarrow> u64 \<Rightarrow> u64 \<Rightarrow> u64" where
  "and_not_xor a b c = a XOR (b AND NOT c)"

definition xor_constant :: "u64 \<Rightarrow> u64 \<Rightarrow> u64" where
  "xor_constant a c = a XOR c"

definition xor_d2 :: "u64 \<Rightarrow> u64 \<Rightarrow> u64" where
  "xor_d2 a b = a XOR b"

definition xor_and_rotate :: "nat \<Rightarrow> u64 \<Rightarrow> u64 \<Rightarrow> u64" where
  "xor_and_rotate left a b = rotate_left (a XOR b) left"

subsection \<open>The state\<close>

definition keccak_new :: keccak_state where
  "keccak_new = map (\<lambda>i. zero_d2) [0..<25]"

definition get_ij :: "keccak_state \<Rightarrow> nat \<Rightarrow> nat \<Rightarrow> u64" where
  "get_ij arr i j = arr ! (5 * i + j)"

definition set_ij :: "keccak_state \<Rightarrow> nat \<Rightarrow> nat \<Rightarrow> u64 \<Rightarrow> keccak_state" where
  "set_ij arr i j v = arr[5 * i + j := v]"

subsection \<open>The steps of a round\<close>

definition keccak_theta :: "keccak_state \<Rightarrow> u64 list" where
  "keccak_theta s =
     (let c = [xor5 (get_ij s 0 0) (get_ij s 1 0) (get_ij s 2 0) (get_ij s 3 0) (get_ij s 4 0),
               xor5 (get_ij s 0 1) (get_ij s 1 1) (get_ij s 2 1) (get_ij s 3 1) (get_ij s 4 1),
               xor5 (get_ij s 0 2) (get_ij s 1 2) (get_ij s 2 2) (get_ij s 3 2) (get_ij s 4 2),
               xor5 (get_ij s 0 3) (get_ij s 1 3) (get_ij s 2 3) (get_ij s 3 3) (get_ij s 4 3),
               xor5 (get_ij s 0 4) (get_ij s 1 4) (get_ij s 2 4) (get_ij s 3 4) (get_ij s 4 4)]
      in [rotate_left1_and_xor (c ! ((0 + 4) mod 5)) (c ! ((0 + 1) mod 5)),
          rotate_left1_and_xor (c ! ((1 + 4) mod 5)) (c ! ((1 + 1) mod 5)),
          rotate_left1_and_xor (c ! ((2 + 4) mod 5)) (c ! ((2 + 1) mod 5)),
          rotate_left1_and_xor (c ! ((3 + 4) mod 5)) (c ! ((3 + 1) mod 5)),
          rotate_left1_and_xor (c ! ((4 + 4) mod 5)) (c ! ((4 + 1) mod 5))])"

definition rho_0 :: "keccak_state \<Rightarrow> u64 list \<Rightarrow> keccak_state" where
  "rho_0 s t =
     (let s = set_ij s 0 0 (xor_d2 (get_ij s 0 0) (t ! 0));
          s = set_ij s 1 0 (xor_and_rotate 36 (get_ij s 1 0) (t ! 0));
          s = set_ij s 2 0 (xor_and_rotate 3 (get_ij s 2 0) (t ! 0));
          s = set_ij s 3 0 (xor_and_rotate 41 (get_ij s 3 0) (t ! 0))
      in set_ij s 4 0 (xor_and_rotate 18 (get_ij s 4 0) (t ! 0)))"

definition rho_1 :: "keccak_state \<Rightarrow> u64 list \<Rightarrow> keccak_state" where
  "rho_1 s t =
     (let s = set_ij s 0 1 (xor_and_rotate 1 (get_ij s 0 1) (t ! 1));
          s = set_ij s 1 1 (xor_and_rotate 44 (get_ij s 1 1) (t ! 1));
          s = set_ij s 2 1 (xor_and_rotate 10 (get_ij s 2 1) (t ! 1));
          s = set_ij s 3 1 (xor_and_rotate 45 (get_ij s 3 1) (t ! 1))
      in set_ij s 4 1 (xor_and_rotate 2 (get_ij s 4 1) (t ! 1)))"

definition rho_2 :: "keccak_state \<Rightarrow> u64 list \<Rightarrow> keccak_state" where
  "rho_2 s t =
     (let s = set_ij s 0 2 (xor_and_rotate 62 (get_ij s 0 2) (t ! 2));
          s = set_ij s 1 2 (xor_and_rotate 6 (get_ij s 1 2) (t ! 2));
          s = set_ij s 2 2 (xor_and_rotate 43 (get_ij s 2 2) (t ! 2));
          s = set_ij s 3 2 (xor_and_rotate 15 (get_ij s 3 2) (t ! 2))
      in set_ij s 4 2 (xor_and_rotate 61 (get_ij s 4 2) (t ! 2)))"

definition rho_3 :: "keccak_state \<Rightarrow> u64 list \<Rightarrow> keccak_state" where
  "rho_3 s t =
     (let s = set_ij s 0 3 (xor_and_rotate 28 (get_ij s 0 3) (t ! 3));
          s = set_ij s 1 3 (xor_and_rotate 55 (get_ij s 1 3) (t ! 3));
          s = set_ij s 2 3 (xor_and_rotate 25 (get_ij s 2 3) (t ! 3));
          s = set_ij s 3 3 (xor_and_rotate 21 (get_ij s 3 3) (t ! 3))
      in set_ij s 4 3 (xor_and_rotate 56 (get_ij s 4 3) (t ! 3)))"

definition rho_4 :: "keccak_state \<Rightarrow> u64 list \<Rightarrow> keccak_state" where
  "rho_4 s t =
     (let s = set_ij s 0 4 (xor_and_rotate 27 (get_ij s 0 4) (t ! 4));
          s = set_ij s 1 4 (xor_and_rotate 20 (get_ij s 1 4) (t ! 4));
          s = set_ij s 2 4 (xor_and_rotate 39 (get_ij s 2 4) (t ! 4));
          s = set_ij s 3 4 (xor_and_rotate 8 (get_ij s 3 4) (t ! 4))
      in set_ij s 4 4 (xor_and_rotate 14 (get_ij s 4 4) (t ! 4)))"

definition keccak_rho :: "keccak_state \<Rightarrow> u64 list \<Rightarrow> keccak_state" where
  "keccak_rho s t =
     (let s = rho_0 s t;
          s = rho_1 s t;
          s = rho_2 s t;
          s = rho_3 s t
      in rho_4 s t)"

definition pi_0 :: "keccak_state \<Rightarrow> keccak_state \<Rightarrow> keccak_state" where
  "pi_0 s old =
     (let s = set_ij s 1 0 (get_ij old 0 3);
          s = set_ij s 2 0 (get_ij old 0 1);
          s = set_ij s 3 0 (get_ij old 0 4)
      in set_ij s 4 0 (get_ij old 0 2))"

definition pi_1 :: "keccak_state \<Rightarrow> keccak_state \<Rightarrow> keccak_state" where
  "pi_1 s old =
     (let s = set_ij s 0 1 (get_ij old 1 1);
          s = set_ij s 1 1 (get_ij old 1 4);
          s = set_ij s 2 1 (get_ij old 1 2);
          s = set_ij s 3 1 (get_ij old 1 0)
      in set_ij s 4 1 (get_ij old 1 3))"

definition pi_2 :: "keccak_state \<Rightarrow> keccak_state \<Rightarrow> keccak_state" where
  "pi_2 s old =
     (let s = set_ij s 0 2 (get_ij old 2 2);
          s = set_ij s 1 2 (get_ij old 2 0);
          s = set_ij s 2 2 (get_ij old 2 3);
          s = set_ij s 3 2 (get_ij old 2 1)
      in set_ij s 4 2 (get_ij old 2 4))"

definition pi_3 :: "keccak_state \<Rightarrow> keccak_state \<Rightarrow> keccak_state" where
  "pi_3 s old =
     (let s = set_ij s 0 3 (get_ij old 3 3);
          s = set_ij s 1 3 (get_ij old 3 1);
          s = set_ij s 2 3 (get_ij old 3 4);
          s = set_ij s 3 3 (get_ij old 3 2)
      in set_ij s 4 3 (get_ij old 3 0))"

definition pi_4 :: "keccak_state \<Rightarrow> keccak_state \<Rightarrow> keccak_state" where
  "pi_4 s old =
     (let s = set_ij s 0 4 (get_ij old 4 4);
          s = set_ij s 1 4 (get_ij old 4 2);
          s = set_ij s 2 4 (get_ij old 4 0);
          s = set_ij s 3 4 (get_ij old 4 3)
      in set_ij s 4 4 (get_ij old 4 1))"

definition keccak_pi :: "keccak_state \<Rightarrow> keccak_state" where
  "keccak_pi s =
     (let old = s;
          s = pi_0 s old;
          s = pi_1 s old;
          s = pi_2 s old;
          s = pi_3 s old
      in pi_4 s old)"

definition keccak_chi :: "keccak_state \<Rightarrow> keccak_state" where
  "keccak_chi s =
     (let old = s
      in for_loop 0 5
           (\<lambda>i s. for_loop 0 5
              (\<lambda>j s. set_ij s i j
                 (and_not_xor (get_ij s i j) (get_ij old i ((j + 2) mod 5)) (get_ij old i ((j + 1) mod 5)))) s) s)"

definition ROUNDCONSTANTS :: "u64 list" where
  "ROUNDCONSTANTS =
   [1, 32898, 9223372036854808714, 9223372039002292224, 32907, 2147483649, 9223372039002292353,
    9223372036854808585, 138, 136, 2147516425, 2147483658, 2147516555, 9223372036854775947,
    9223372036854808713, 9223372036854808579, 9223372036854808578, 9223372036854775936, 32778,
    9223372039002259466, 9223372039002292353, 9223372036854808704, 2147483649, 9223372039002292232]"

definition keccak_iota :: "keccak_state \<Rightarrow> nat \<Rightarrow> keccak_state" where
  "keccak_iota s i = set_ij s 0 0 (xor_constant (get_ij s 0 0) (ROUNDCONSTANTS ! i))"

definition keccakf1600 :: "keccak_state \<Rightarrow> keccak_state" where
  "keccakf1600 s =
     for_loop 0 24
       (\<lambda>i s.
          let t = keccak_theta s;
              s = keccak_rho s t;
              s = keccak_pi s;
              s = keccak_chi s
          in keccak_iota s i) s"

subsection \<open>The permutation of the standard\<close>

definition lane :: "keccak_state \<Rightarrow> nat \<Rightarrow> nat \<Rightarrow> u64" where
  "lane A x y = A ! (5 * (y mod 5) + x mod 5)"

definition lanes :: "(nat \<Rightarrow> nat \<Rightarrow> u64) \<Rightarrow> keccak_state" where
  "lanes f = map (\<lambda>i. f (i mod 5) (i div 5)) [0..<25]"

definition theta_column :: "keccak_state \<Rightarrow> nat \<Rightarrow> u64" where
  "theta_column A x = lane A x 0 XOR lane A x 1 XOR lane A x 2 XOR lane A x 3 XOR lane A x 4"

definition theta_spec :: "keccak_state \<Rightarrow> keccak_state" where
  "theta_spec A = lanes (\<lambda>x y. lane A x y XOR (theta_column A (x + 4) XOR word_rotl 1 (theta_column A (x + 1))))"

fun rho_walk :: "nat \<Rightarrow> nat \<times> nat" where
  "rho_walk 0 = (1, 0)"
| "rho_walk (Suc t) = (let (x, y) = rho_walk t in (y, (2 * x + 3 * y) mod 5))"

definition rho_offset :: "nat \<Rightarrow> nat \<Rightarrow> nat" where
  "rho_offset x y =
     (case map_of (map (\<lambda>t. (rho_walk t, (t + 1) * (t + 2) div 2 mod 64)) [0..<24]) (x, y) of
        None \<Rightarrow> 0 | Some r \<Rightarrow> r)"

definition rho_spec :: "keccak_state \<Rightarrow> keccak_state" where
  "rho_spec A = lanes (\<lambda>x y. word_rotl (rho_offset x y) (lane A x y))"

definition pi_spec :: "keccak_state \<Rightarrow> keccak_state" where
  "pi_spec A = lanes (\<lambda>x y. lane A (x + 3 * y) x)"

definition chi_spec :: "keccak_state \<Rightarrow> keccak_state" where
  "chi_spec A = lanes (\<lambda>x y. lane A x y XOR (NOT (lane A (x + 1) y) AND lane A (x + 2) y))"

definition lfsr_step :: "bool list \<Rightarrow> bool list" where
  "lfsr_step R =
     (let R = False # R;
          R = R[0 := R ! 0 \<noteq> R ! 8];
          R = R[4 := R ! 4 \<noteq> R ! 8];
          R = R[5 := R ! 5 \<noteq> R ! 8];
          R = R[6 := R ! 6 \<noteq> R ! 8]
      in take 8 R)"

fun lfsr_bits :: "nat \<Rightarrow> bool list \<Rightarrow> bool list" where
  "lfsr_bits 0 R = []"
| "lfsr_bits (Suc n) R = R ! 0 # lfsr_bits n (lfsr_step R)"

definition round_constant_bits :: "bool list" where
  "round_constant_bits = lfsr_bits 168 [True, False, False, False, False, False, False, False]"

definition round_constant :: "nat \<Rightarrow> u64" where
  "round_constant i = fold (\<lambda>j w. if round_constant_bits ! (j + 7 * i) then w OR push_bit (2 ^ j - 1) 1 else w) [0..<7] 0"

definition iota_spec :: "nat \<Rightarrow> keccak_state \<Rightarrow> keccak_state" where
  "iota_spec i A = lanes (\<lambda>x y. if x = 0 \<and> y = 0 then lane A x y XOR round_constant i else lane A x y)"

definition keccak_f_spec :: "keccak_state \<Rightarrow> keccak_state" where
  "keccak_f_spec A = fold (\<lambda>i A. iota_spec i (chi_spec (pi_spec (rho_spec (theta_spec A))))) [0..<24] A"

subsection \<open>The code computes the permutation\<close>

lemma length_lanes [simp]: "length (lanes f) = 25"
  by (simp add: lanes_def)

lemma neg_shift_amount:
  assumes "0 < n" and "n < 64"
  shows "unat ((- of_nat n :: u32) AND 63) = 64 - n"
proof -
  have m: "(- of_nat n :: u32) AND 63 = take_bit 6 (- of_nat n)"
    by (simp add: take_bit_eq_mask mask_eq_exp_minus_1)
  have w: "(- of_nat n :: u32) = word_of_int (- int n)" by simp
  have "uint (take_bit 6 (- of_nat n :: u32)) = (- int n) mod 64"
    unfolding w unsigned_take_bit_eq uint_word_of_int by (simp add: take_bit_eq_mod mod_mod_cancel)
  also have "\<dots> = 64 - int n" using assms by (simp add: zmod_zminus1_eq_if)
  finally show ?thesis unfolding m using assms by (simp add: unat_eq_nat_uint)
qed

lemma rotate_left_rotl:
  assumes "0 < n" and "n < 64"
  shows "rotate_left x n = word_rotl n x"
proof (rule bit_word_eqI)
  fix k assume "k < LENGTH(64)"
  then have k: "k < 64" by simp
  have "(k + (64 - n mod 64)) mod 64 = (if n \<le> k then k - n else k + 64 - n)"
  proof (cases "n \<le> k")
    case True
    then have "k + (64 - n mod 64) = (k - n) + 64" using assms by simp
    then have "(k + (64 - n mod 64)) mod 64 = (k - n) mod 64" by (simp only: mod_add_self2)
    then show ?thesis using True k by simp
  next
    case False
    then show ?thesis using k assms by simp
  qed
  then have "(k + (LENGTH(64) - n mod LENGTH(64))) mod LENGTH(64) = (if n \<le> k then k - n else k + 64 - n)"
    by simp
  then have "bit (word_rotl n x) k = bit x (if n \<le> k then k - n else k + 64 - n)"
    using k unfolding bit_word_rotl_iff by simp
  moreover have "bit (rotate_left x n) k = (n \<le> k \<and> bit x (k - n) \<or> bit x (64 - n + k))"
    unfolding rotate_left_def neg_shift_amount [OF assms] bit_or_iff bit_push_bit_iff bit_drop_bit_eq comp_def
    using k by simp
  ultimately show "bit (rotate_left x n) k = bit (word_rotl n x) k"
    using k assms bit_imp_le_length [of x "64 - n + k"] by (cases "n \<le> k") (auto simp: add.commute)
qed

lemma upt_25: "[0..<25] = [0, 1, 2, 3, 4, 5, 6, 7, 8, 9, 10, 11, 12, 13, 14, 15, 16, 17, 18, 19, 20, 21, 22, 23, 24]"
  by code_simp

lemma round_constants: "map round_constant [0..<24] = ROUNDCONSTANTS"
  by code_simp

lemma rho_table:
  "map (\<lambda>i. rho_offset (i mod 5) (i div 5)) [0..<25]
   = [0, 1, 62, 28, 27, 36, 44, 6, 55, 20, 3, 10, 43, 25, 39, 41, 45, 15, 21, 8, 18, 2, 61, 56, 14]"
  by code_simp

lemma rho_offsets:
  "rho_offset 0 0 = 0" "rho_offset 1 0 = 1" "rho_offset 2 0 = 62" "rho_offset 3 0 = 28" "rho_offset 4 0 = 27"
  "rho_offset 0 1 = 36" "rho_offset 1 1 = 44" "rho_offset 2 1 = 6" "rho_offset 3 1 = 55" "rho_offset 4 1 = 20"
  "rho_offset 0 2 = 3" "rho_offset 1 2 = 10" "rho_offset 2 2 = 43" "rho_offset 3 2 = 25" "rho_offset 4 2 = 39"
  "rho_offset 0 3 = 41" "rho_offset 1 3 = 45" "rho_offset 2 3 = 15" "rho_offset 3 3 = 21" "rho_offset 4 3 = 8"
  "rho_offset 0 4 = 18" "rho_offset 1 4 = 2" "rho_offset 2 4 = 61" "rho_offset 3 4 = 56" "rho_offset 4 4 = 14"
  using rho_table unfolding upt_25 by simp_all

lemma length_25_E:
  assumes "length s = 25"
  obtains a0 a1 a2 a3 a4 a5 a6 a7 a8 a9 a10 a11 a12 a13 a14 a15 a16 a17 a18 a19 a20 a21 a22 a23 a24
  where "s = [a0, a1, a2, a3, a4, a5, a6, a7, a8, a9, a10, a11, a12, a13, a14, a15, a16, a17, a18, a19, a20, a21, a22, a23, a24]"
  using assms by (auto simp: numeral_eq_Suc length_Suc_conv)

lemmas state_simps = get_ij_def set_ij_def lane_def lanes_def upt_25 Let_def

lemma pi_refines: "length s = 25 \<Longrightarrow> keccak_pi s = pi_spec s"
  by (rule length_25_E [of s]) (simp_all add: keccak_pi_def pi_0_def pi_1_def pi_2_def pi_3_def pi_4_def pi_spec_def state_simps)

lemma chi_refines: "length s = 25 \<Longrightarrow> keccak_chi s = chi_spec s"
  by (rule length_25_E [of s])
     (simp_all add: keccak_chi_def for_loop_def upt_evals and_not_xor_def chi_spec_def state_simps and.commute)

lemma rotl_0 [simp]: "word_rotl 0 (w :: u64) = w"
  by (rule bit_word_eqI) (simp add: bit_word_rotl_iff)

lemma theta_rho_refines: "length s = 25 \<Longrightarrow> keccak_rho s (keccak_theta s) = rho_spec (theta_spec s)"
  by (rule length_25_E [of s])
     (simp_all add: keccak_rho_def rho_0_def rho_1_def rho_2_def rho_3_def rho_4_def keccak_theta_def rho_spec_def
        theta_spec_def theta_column_def rotate_left1_and_xor_def xor_and_rotate_def xor_d2_def xor5_def rotate_left_rotl
        rho_offsets [unfolded One_nat_def] state_simps xor.assoc)

lemma iota_refines:
  assumes "length s = 25" and "i < 24"
  shows "keccak_iota s i = iota_spec i s"
proof -
  have "ROUNDCONSTANTS ! i = round_constant i"
    using assms(2) by (simp flip: round_constants)
  then show ?thesis
    using assms(1) by (elim length_25_E) (simp add: keccak_iota_def xor_constant_def iota_spec_def state_simps)
qed

lemma length_keccak_steps [simp]:
  "length (theta_spec s) = 25" "length (rho_spec s) = 25" "length (pi_spec s) = 25" "length (chi_spec s) = 25"
  "length (iota_spec i s) = 25"
  by (simp_all add: theta_spec_def rho_spec_def pi_spec_def chi_spec_def iota_spec_def)

lemma keccakf1600_refines:
  assumes "length s = 25"
  shows "keccakf1600 s = keccak_f_spec s" and "length (keccakf1600 s) = 25"
proof -
  let ?P = "\<lambda>n t. t = fold (\<lambda>i A. iota_spec i (chi_spec (pi_spec (rho_spec (theta_spec A))))) [0..<n] s \<and> length t = 25"
  have "?P 24 (keccakf1600 s)"
    unfolding keccakf1600_def Let_def
    by (rule for_loop_invariant [where P = ?P])
       (auto simp: assms theta_rho_refines pi_refines chi_refines iota_refines)
  then show "keccakf1600 s = keccak_f_spec s" "length (keccakf1600 s) = 25"
    unfolding keccak_f_spec_def by (rule conjunct1, rule conjunct2)
qed

text \<open>
  C26. The permutation: on every state of 25 words, the 24 unrolled rounds of \<open>keccakf1600\<close> compute
  Keccak-f[1600] of the standard, with the rotation offsets of its walk through the lanes and
  the round constants of its linear feedback register.
\<close>

theorem keccakf1600_correct:
  assumes "length s = 25"
  shows "keccakf1600 s = keccak_f_spec s \<and> length (keccakf1600 s) = 25"
  using keccakf1600_refines [OF assms] by simp

theorem keccakf1600_correct_witness:
  "keccakf1600 (map of_nat [0..<25]) = keccak_f_spec (map of_nat [0..<25])"
  using keccakf1600_correct [of "map of_nat [0..<25]"] by simp

end
