(* ===== verification/SHA3_Sponge.thy ===== *)
theory SHA3_Sponge
  imports SHA3_Keccak
begin

section \<open>SHA-3: the sponge\<close>

text \<open>
  Absorbing and squeezing of the one-lane sponge and the hash functions built on it:
  \<open>libcrux_sha3_portable.c\<close> lines 164--260 and 1784--4015. The C code has one copy of each function for every rate
  and delimiter; here the two constants are arguments, as in the generic source the copies come from, and the
  hash functions fix them. A slice that is written through is passed and returned.
\<close>

subsection \<open>Loading and storing blocks\<close>

definition from_le_bytes :: "u8 list \<Rightarrow> u64" where
  "from_le_bytes bs = fold (\<lambda>i w. w OR push_bit (8 * i) (ucast (bs ! i))) [0..<8] 0"

definition to_le_bytes :: "u64 \<Rightarrow> u8 list" where
  "to_le_bytes w = map (\<lambda>i. ucast (drop_bit (8 * i) w)) [0..<8]"

definition load_block :: "nat \<Rightarrow> keccak_state \<Rightarrow> u8 list \<Rightarrow> nat \<Rightarrow> keccak_state" where
  "load_block rate s blocks start =
     (let state_flat =
        for_loop 0 (rate div 8)
          (\<lambda>i state_flat.
             let offset = start + 8 * i
             in state_flat[i := from_le_bytes (subslice blocks offset (offset + 8))])
          (replicate 25 0)
      in for_loop 0 (rate div 8)
           (\<lambda>i s. set_ij s (i div 5) (i mod 5) (get_ij s (i div 5) (i mod 5) XOR state_flat ! i)) s)"

definition load_last :: "nat \<Rightarrow> u8 \<Rightarrow> keccak_state \<Rightarrow> u8 list \<Rightarrow> nat \<Rightarrow> nat \<Rightarrow> keccak_state" where
  "load_last rate delim s blocks start len =
     (let buffer = replicate rate 0;
          buffer = slice_copy buffer 0 (subslice blocks start (start + len));
          buffer = buffer[len := delim];
          buffer = buffer[rate - 1 := buffer ! (rate - 1) OR 128]
      in load_block rate s buffer 0)"

definition store_block :: "keccak_state \<Rightarrow> u8 list \<Rightarrow> nat \<Rightarrow> nat \<Rightarrow> u8 list" where
  "store_block s out start len =
     (let octets = len div 8;
          out = for_loop 0 octets
            (\<lambda>i out. slice_copy out (start + 8 * i) (to_le_bytes (get_ij s (i div 5) (i mod 5)))) out;
          remaining = len mod 8
      in if remaining > 0
         then slice_copy out (start + len - remaining)
                (take remaining (to_le_bytes (get_ij s (octets div 5) (octets mod 5))))
         else out)"

subsection \<open>The sponge\<close>

definition absorb_block :: "nat \<Rightarrow> keccak_state \<Rightarrow> u8 list \<Rightarrow> nat \<Rightarrow> keccak_state" where
  "absorb_block rate s input start = keccakf1600 (load_block rate s input start)"

definition absorb_final :: "nat \<Rightarrow> u8 \<Rightarrow> keccak_state \<Rightarrow> u8 list \<Rightarrow> nat \<Rightarrow> nat \<Rightarrow> keccak_state" where
  "absorb_final rate delim s input start len = keccakf1600 (load_last rate delim s input start len)"

definition keccak1 :: "nat \<Rightarrow> u8 \<Rightarrow> u8 list \<Rightarrow> u8 list \<Rightarrow> u8 list" where
  "keccak1 rate delim input output =
     (let s = keccak_new;
          input_len = length input;
          input_blocks = input_len div rate;
          input_rem = input_len mod rate;
          s = for_loop 0 input_blocks (\<lambda>i s. absorb_block rate s input (i * rate)) s;
          s = absorb_final rate delim s input (input_len - input_rem) input_rem;
          output_len = length output;
          output_blocks = output_len div rate;
          output_rem = output_len mod rate
      in if output_blocks = 0 then store_block s output 0 output_len
         else
           let output = store_block s output 0 rate;
               (s, output) = for_loop 1 output_blocks
                 (\<lambda>i (s, output).
                    let s = keccakf1600 s in (s, store_block s output (i * rate) rate)) (s, output)
           in if output_rem \<noteq> 0
              then let s = keccakf1600 s in store_block s output (output_len - output_rem) output_rem
              else output)"

subsection \<open>The hash functions\<close>

definition portable_shake128 :: "u8 list \<Rightarrow> u8 list \<Rightarrow> u8 list" where
  "portable_shake128 digest data = keccak1 168 31 data digest"

definition portable_shake256 :: "u8 list \<Rightarrow> u8 list \<Rightarrow> u8 list" where
  "portable_shake256 digest data = keccak1 136 31 data digest"

definition portable_sha512 :: "u8 list \<Rightarrow> u8 list \<Rightarrow> u8 list" where
  "portable_sha512 digest data = keccak1 72 6 data digest"

definition portable_sha256 :: "u8 list \<Rightarrow> u8 list \<Rightarrow> u8 list" where
  "portable_sha256 digest data = keccak1 136 6 data digest"

definition portable_sha224 :: "u8 list \<Rightarrow> u8 list \<Rightarrow> u8 list" where
  "portable_sha224 digest data = keccak1 144 6 data digest"

definition portable_sha384 :: "u8 list \<Rightarrow> u8 list \<Rightarrow> u8 list" where
  "portable_sha384 digest data = keccak1 104 6 data digest"

datatype sha3_algorithm = Sha224 | Sha256 | Sha384 | Sha512

fun digest_size :: "sha3_algorithm \<Rightarrow> nat" where
  "digest_size Sha224 = 28"
| "digest_size Sha256 = 32"
| "digest_size Sha384 = 48"
| "digest_size Sha512 = 64"

definition sha3_sha224 :: "u8 list \<Rightarrow> u8 list" where
  "sha3_sha224 data = portable_sha224 (replicate 28 0) data"

definition sha3_sha256 :: "u8 list \<Rightarrow> u8 list" where
  "sha3_sha256 data = portable_sha256 (replicate 32 0) data"

definition sha3_sha384 :: "u8 list \<Rightarrow> u8 list" where
  "sha3_sha384 data = portable_sha384 (replicate 48 0) data"

definition sha3_sha512 :: "u8 list \<Rightarrow> u8 list" where
  "sha3_sha512 data = portable_sha512 (replicate 64 0) data"

subsection \<open>Squeezing block by block\<close>

definition squeeze_first_block :: "nat \<Rightarrow> keccak_state \<Rightarrow> u8 list \<Rightarrow> u8 list" where
  "squeeze_first_block rate s out = store_block s out 0 rate"

definition squeeze_next_block :: "nat \<Rightarrow> keccak_state \<Rightarrow> u8 list \<Rightarrow> nat \<Rightarrow> keccak_state \<times> u8 list" where
  "squeeze_next_block rate s out start =
     (let s = keccakf1600 s in (s, store_block s out start rate))"

definition squeeze_first_three_blocks :: "nat \<Rightarrow> keccak_state \<Rightarrow> u8 list \<Rightarrow> keccak_state \<times> u8 list" where
  "squeeze_first_three_blocks rate s out =
     (let out = store_block s out 0 rate;
          s = keccakf1600 s;
          out = store_block s out rate rate;
          s = keccakf1600 s;
          out = store_block s out (2 * rate) rate
      in (s, out))"

definition squeeze_first_five_blocks :: "nat \<Rightarrow> keccak_state \<Rightarrow> u8 list \<Rightarrow> keccak_state \<times> u8 list" where
  "squeeze_first_five_blocks rate s out =
     (let out = store_block s out 0 rate;
          s = keccakf1600 s;
          out = store_block s out rate rate;
          s = keccakf1600 s;
          out = store_block s out (2 * rate) rate;
          s = keccakf1600 s;
          out = store_block s out (3 * rate) rate;
          s = keccakf1600 s;
          out = store_block s out (4 * rate) rate
      in (s, out))"

definition shake128_init :: keccak_state where
  "shake128_init = keccak_new"

definition shake128_absorb_final :: "keccak_state \<Rightarrow> u8 list \<Rightarrow> keccak_state" where
  "shake128_absorb_final s data = absorb_final 168 31 s data 0 (length data)"

definition shake128_squeeze_first_three_blocks :: "keccak_state \<Rightarrow> u8 list \<Rightarrow> keccak_state \<times> u8 list" where
  "shake128_squeeze_first_three_blocks s out = squeeze_first_three_blocks 168 s out"

definition shake128_squeeze_first_five_blocks :: "keccak_state \<Rightarrow> u8 list \<Rightarrow> keccak_state \<times> u8 list" where
  "shake128_squeeze_first_five_blocks s out = squeeze_first_five_blocks 168 s out"

definition shake128_squeeze_next_block :: "keccak_state \<Rightarrow> u8 list \<Rightarrow> keccak_state \<times> u8 list" where
  "shake128_squeeze_next_block s out = squeeze_next_block 168 s out 0"

definition shake256_init :: keccak_state where
  "shake256_init = keccak_new"

definition shake256_absorb_final :: "keccak_state \<Rightarrow> u8 list \<Rightarrow> keccak_state" where
  "shake256_absorb_final s data = absorb_final 136 31 s data 0 (length data)"

definition shake256_squeeze_first_block :: "keccak_state \<Rightarrow> u8 list \<Rightarrow> u8 list" where
  "shake256_squeeze_first_block s out = squeeze_first_block 136 s out"

definition shake256_squeeze_next_block :: "keccak_state \<Rightarrow> u8 list \<Rightarrow> keccak_state \<times> u8 list" where
  "shake256_squeeze_next_block s out = squeeze_next_block 136 s out 0"

subsection \<open>The sponge of the standard\<close>

text \<open>
  A block is combined into the first lanes of the state; a message is padded with the delimiter, zeros
  and the final bit; the output is the stream of the bytes of the first lanes of the iterated states.
\<close>

definition xor_block :: "nat \<Rightarrow> keccak_state \<Rightarrow> u8 list \<Rightarrow> keccak_state" where
  "xor_block rate s blk =
     map (\<lambda>i. if i < rate div 8 then s ! i XOR from_le_bytes (subslice blk (8 * i) (8 * i + 8)) else s ! i) [0..<25]"

definition pad_last :: "nat \<Rightarrow> u8 \<Rightarrow> u8 list \<Rightarrow> u8 list" where
  "pad_last rate delim m =
     (if length m = rate - 1 then m @ [delim OR 128]
      else m @ [delim] @ replicate (rate - 2 - length m) 0 @ [128])"

definition pad_message :: "nat \<Rightarrow> u8 \<Rightarrow> u8 list \<Rightarrow> u8 list" where
  "pad_message rate delim m =
     (let r = length m mod rate in take (length m - r) m @ pad_last rate delim (drop (length m - r) m))"

definition absorb_blocks :: "nat \<Rightarrow> u8 list \<Rightarrow> keccak_state \<Rightarrow> keccak_state" where
  "absorb_blocks rate bs s = fold (\<lambda>blk s. keccak_f_spec (xor_block rate s blk)) (chunks rate bs) s"

definition sponge_state :: "nat \<Rightarrow> u8 \<Rightarrow> u8 list \<Rightarrow> keccak_state" where
  "sponge_state rate delim m = absorb_blocks rate (pad_message rate delim m) (replicate 25 0)"

definition state_bytes :: "keccak_state \<Rightarrow> u8 list" where
  "state_bytes s = concat (map to_le_bytes s)"

definition sponge_stream :: "nat \<Rightarrow> keccak_state \<Rightarrow> nat \<Rightarrow> u8" where
  "sponge_stream rate s k = state_bytes ((keccak_f_spec ^^ (k div rate)) s) ! (k mod rate)"

definition sponge_spec :: "nat \<Rightarrow> u8 \<Rightarrow> u8 list \<Rightarrow> nat \<Rightarrow> u8 list" where
  "sponge_spec rate delim m n = map (sponge_stream rate (sponge_state rate delim m)) [0..<n]"

subsection \<open>Slices, lanes and padding\<close>

lemma subslice_subslice: "a + d \<le> b \<Longrightarrow> subslice (subslice xs a b) c d = subslice xs (a + c) (a + d)"
  by (simp add: subslice_def drop_take min_def ac_simps)

lemma slice_copy_Nil [simp]: "slice_copy out a [] = out"
  by (simp add: slice_copy_def)

lemma slice_copy_extend:
  "a + length xs + length ys \<le> length out \<Longrightarrow>
   slice_copy (slice_copy out a xs) (a + length xs) ys = slice_copy out a (xs @ ys)"
  by (simp add: slice_copy_def ac_simps)

lemma take_concat_uniform:
  "(\<And>v. v \<in> set xs \<Longrightarrow> length v = m) \<Longrightarrow> take (k * m) (concat xs) = concat (take k xs)"
proof (induction xs arbitrary: k)
  case (Cons x xs)
  then show ?case by (cases k) auto
qed simp

lemma chunks_append_blocks:
  "0 < n \<Longrightarrow> length xs = k * n \<Longrightarrow> chunks n (xs @ ys) = chunks n xs @ chunks n ys"
proof (induction k arbitrary: xs)
  case (Suc k)
  then have "length (take n xs) = n" "length (drop n xs) = k * n" by simp_all
  moreover have "xs = take n xs @ drop n xs" by simp
  ultimately show ?case
    using Suc.IH [of "drop n xs"] Suc.prems(1) by (metis append.assoc append_Cons chunks_append)
qed simp

lemma length_to_le_bytes [simp]: "length (to_le_bytes w) = 8"
  by (simp add: to_le_bytes_def)

lemma length_state_bytes [simp]: "length (state_bytes s) = 8 * length s"
  unfolding state_bytes_def by (subst length_concat_uniform [where m = 8]) auto

lemma take_state_bytes:
  assumes "i < length s" and "r \<le> 8"
  shows "take (8 * i + r) (state_bytes s) = take (8 * i) (state_bytes s) @ take r (to_le_bytes (s ! i))"
proof -
  have t: "take (8 * j) (state_bytes s) = concat (map to_le_bytes (take j s))" for j
    unfolding state_bytes_def by (subst mult.commute, subst take_concat_uniform) (auto simp: take_map)
  have "take (8 * i + r) (state_bytes s) = take (8 * i + r) (take (8 * Suc i) (state_bytes s))"
    using assms(2) by (simp add: min_def)
  also have "\<dots> = take (8 * i + r) (take (8 * i) (state_bytes s) @ to_le_bytes (s ! i))"
    using assms(1) by (simp only: t take_Suc_conv_app_nth) simp
  finally show ?thesis using assms by simp
qed

lemma length_xor_block [simp]: "length (xor_block rate s blk) = 25"
  by (simp add: xor_block_def)

lemma length_keccak_f_spec [simp]: "length s = 25 \<Longrightarrow> length (keccak_f_spec s) = 25"
  using keccakf1600_refines by metis

lemma length_keccak_f_iter [simp]: "length s = 25 \<Longrightarrow> length ((keccak_f_spec ^^ n) s) = 25"
  by (induction n) simp_all

lemma pad_last_eq:
  assumes "length m < rate"
  shows "(let buffer = (slice_copy (replicate rate 0) 0 m)[length m := delim]
          in buffer[rate - 1 := buffer ! (rate - 1) OR 128]) = pad_last rate delim m"
    (is "?l = _")
proof -
  obtain k where k: "rate = length m + Suc k" using assms less_imp_Suc_add by auto
  have b: "(slice_copy (replicate rate 0) 0 m)[length m := delim] = m @ delim # replicate k 0"
    unfolding slice_copy_def k replicate_add by simp
  show ?thesis
  proof (cases k)
    case 0
    then show ?thesis unfolding b by (simp add: k pad_last_def)
  next
    case (Suc j)
    then have "replicate k 0 = replicate j 0 @ [0 :: u8]" by (simp add: replicate_append_same)
    then show ?thesis unfolding b by (simp add: k Suc pad_last_def nth_append list_update_append)
  qed
qed

lemma length_pad_last [simp]: "length m < rate \<Longrightarrow> length (pad_last rate delim m) = rate"
  by (auto simp: pad_last_def)

subsection \<open>The interface of a sponge rate\<close>

text \<open>
  What the functions need of the rate: a positive number of whole lanes of the state. All correctness
  lemmas of the sponge follow from this alone; the five rates of the code satisfy it.
\<close>

locale sponge_rate =
  fixes rate :: nat
  assumes rate_pos: "0 < rate" and rate_lanes: "rate mod 8 = 0" and rate_le: "rate \<le> 200"
begin

lemma rate_div: "8 * (rate div 8) = rate" "rate div 8 \<le> 25"
  using rate_lanes rate_le by auto

lemma load_block_eq:
  assumes "length s = 25" and "start + rate \<le> length blocks"
  shows "load_block rate s blocks start = xor_block rate s (subslice blocks start (start + rate))"
proof -
  let ?n = "rate div 8"
  let ?c = "\<lambda>i. from_le_bytes (subslice blocks (start + 8 * i) (start + 8 * i + 8))"
  have 1: "for_loop 0 ?n (\<lambda>i sf. sf[i := ?c i]) (replicate 25 0) = map ?c [0..<?n] @ drop ?n (replicate 25 0)" (is "_ = ?sf")
    using for_loop_update_prefix [of ?n "replicate 25 0" "\<lambda>i _. ?c i"] rate_div(2) by simp
  have 2: "for_loop 0 ?n (\<lambda>i s. s[i := s ! i XOR ?sf ! i]) s = map (\<lambda>i. s ! i XOR ?sf ! i) [0..<?n] @ drop ?n s"
    using for_loop_update_prefix [of ?n s "\<lambda>i x. x XOR ?sf ! i"] rate_div(2) assms(1) by simp
  have c: "?c i = from_le_bytes (subslice (subslice blocks start (start + rate)) (8 * i) (8 * i + 8))" if "i < ?n" for i
    using that rate_div(1) by (subst subslice_subslice) (auto simp: add.assoc)
  show ?thesis
    unfolding load_block_def Let_def 1 get_ij_def set_ij_def mult_div_mod_eq 2
    using assms(1) rate_div(2) by (intro nth_equalityI) (simp_all add: xor_block_def nth_append c)
qed

lemma absorb_block_eq:
  assumes "length s = 25" and "start + rate \<le> length blocks"
  shows "absorb_block rate s blocks start = keccak_f_spec (xor_block rate s (subslice blocks start (start + rate)))"
  using keccakf1600_refines(1) by (simp add: absorb_block_def load_block_eq [OF assms])

lemma load_last_eq:
  assumes "length s = 25" and "len < rate" and "start + len \<le> length blocks"
  shows "load_last rate delim s blocks start len = xor_block rate s (pad_last rate delim (subslice blocks start (start + len)))"
proof -
  let ?m = "subslice blocks start (start + len)"
  have m: "length ?m = len" using assms(3) by simp
  have "load_last rate delim s blocks start len = load_block rate s (pad_last rate delim ?m) 0"
    using pad_last_eq [of ?m rate delim] assms(2) unfolding m by (simp add: load_last_def Let_def)
  also have "\<dots> = xor_block rate s (pad_last rate delim ?m)"
    using load_block_eq [OF assms(1), of 0 "pad_last rate delim ?m"] assms(2) m by (simp add: subslice_full)
  finally show ?thesis .
qed

lemma absorb_loop:
  assumes "length s = 25" and "off + k * rate \<le> length input"
  shows "for_loop 0 k (\<lambda>i s. absorb_block rate s input (i * rate + off)) s = absorb_blocks rate (subslice input off (off + k * rate)) s"
    and "length (absorb_blocks rate (subslice input off (off + k * rate)) s) = 25"
proof -
  let ?bs = "subslice input off (off + k * rate)"
  let ?g = "\<lambda>s i. keccak_f_spec (xor_block rate s (subslice ?bs (i * rate) (i * rate + rate)))"
  have c: "absorb_blocks rate ?bs s = fold (\<lambda>i s. ?g s i) [0..<k] s"
    unfolding absorb_blocks_def using chunks_subslices [OF rate_pos, of ?bs k] assms(2) by (simp add: fold_map comp_def)
  let ?P = "\<lambda>n t. t = fold (\<lambda>i s. ?g s i) [0..<n] s \<and> length t = 25"
  have "?P k (for_loop 0 k (\<lambda>i s. absorb_block rate s input (i * rate + off)) s)"
  proof (rule for_loop_invariant [where P = ?P])
    fix i t assume "0 \<le> i" "i < k" and t: "?P i t"
    have l: "i * rate + rate \<le> k * rate" using \<open>i < k\<close> by (metis Suc_leI add.commute mult_Suc mult_le_mono1)
    have "subslice input (i * rate + off) (i * rate + off + rate) = subslice ?bs (i * rate) (i * rate + rate)"
      using l by (simp add: subslice_subslice ac_simps)
    then have "absorb_block rate t input (i * rate + off) = ?g t i"
      using assms(2) l absorb_block_eq [OF conjunct2 [OF t], of "i * rate + off" input] by simp
    then show "?P (Suc i) (absorb_block rate t input (i * rate + off))"
      using t by simp
  qed (use assms in auto)
  then show "for_loop 0 k (\<lambda>i s. absorb_block rate s input (i * rate + off)) s = absorb_blocks rate ?bs s"
    "length (absorb_blocks rate ?bs s) = 25" unfolding c by (rule conjunct1, metis)
qed

lemma absorb_blocks_append:
  "length xs = k * rate \<Longrightarrow> absorb_blocks rate (xs @ ys) s = absorb_blocks rate ys (absorb_blocks rate xs s)"
  using chunks_append_blocks [OF rate_pos, of xs k ys] by (simp add: absorb_blocks_def)

lemma absorb_blocks_single: "length xs = rate \<Longrightarrow> absorb_blocks rate xs s = keccak_f_spec (xor_block rate s xs)"
  using chunks_append [OF rate_pos, of xs "[]"] by (simp add: absorb_blocks_def)

lemma store_block_eq:
  assumes "length s = 25" and "len \<le> 200" and "start + len \<le> length out"
  shows "store_block s out start len = slice_copy out start (take len (state_bytes s))"
proof -
  let ?o = "len div 8"
  have o: "8 * ?o + len mod 8 = len" by simp
  let ?P = "\<lambda>i t. t = slice_copy out start (take (8 * i) (state_bytes s))"
  have "?P ?o (for_loop 0 ?o (\<lambda>i out. slice_copy out (start + 8 * i) (to_le_bytes (s ! i))) out)"
  proof (rule for_loop_invariant [where P = ?P])
    fix i t assume i: "i < ?o" and t: "?P i t"
    have l: "8 * i + 8 \<le> len" using i by linarith
    then have "i < length s" using assms(1,2) by linarith
    then show "?P (Suc i) (slice_copy t (start + 8 * i) (to_le_bytes (s ! i)))"
      using slice_copy_extend [of start "take (8 * i) (state_bytes s)" "to_le_bytes (s ! i)" out] l assms
        take_state_bytes [of i s 8] by (simp add: t add.commute)
  qed simp_all
  note loop = this
  show ?thesis
  proof (cases "len mod 8 = 0")
    case True
    then have "8 * ?o = len" using o by simp
    then show ?thesis using True loop by (simp add: store_block_def Let_def get_ij_def)
  next
    case False
    then have "?o < length s" using assms(1,2) o by presburger
    moreover have "start + len - len mod 8 = start + 8 * ?o" using o by presburger
    ultimately show ?thesis
      using slice_copy_extend [of start "take (8 * ?o) (state_bytes s)" "take (len mod 8) (to_le_bytes (s ! ?o))" out]
        assms False take_state_bytes [of ?o s "len mod 8"] loop
      by (simp add: store_block_def Let_def get_ij_def)
  qed
qed

lemma absorb_final_eq:
  assumes "length s = 25" and "len < rate" and "start + len \<le> length blocks"
  shows "absorb_final rate delim s blocks start len
    = absorb_blocks rate (pad_last rate delim (subslice blocks start (start + len))) s"
proof -
  have "length (subslice blocks start (start + len)) < rate" using assms(2,3) by simp
  then show ?thesis
    using keccakf1600_refines(1) by (simp add: absorb_final_def load_last_eq [OF assms] absorb_blocks_single)
qed

lemma length_absorb_blocks [simp]: "length s = 25 \<Longrightarrow> length (absorb_blocks rate bs s) = 25"
  unfolding absorb_blocks_def by (rule fold_invariant [where Q = "\<lambda>_. True" and P = "\<lambda>s. length s = 25"]) simp_all

lemma length_sponge_state [simp]: "length (sponge_state rate delim m) = 25"
  by (simp add: sponge_state_def)

lemma absorb_message:
  assumes "length m = k * rate + r" and "r < rate"
  shows "absorb_final rate delim (for_loop 0 k (\<lambda>i s. absorb_block rate s m (i * rate)) keccak_new) m (k * rate) r
    = sponge_state rate delim m"
proof -
  have n: "keccak_new = replicate 25 0" by (simp add: keccak_new_def zero_d2_def map_replicate_const)
  have "length m mod rate = r" using assms by simp
  then have p: "pad_message rate delim m = take (k * rate) m @ pad_last rate delim (drop (k * rate) m)"
    using assms by (simp add: pad_message_def)
  have l: "for_loop 0 k (\<lambda>i s. absorb_block rate s m (i * rate)) keccak_new = absorb_blocks rate (take (k * rate) m) (replicate 25 0)"
    using absorb_loop(1) [of "replicate 25 0" 0 k m] assms by (simp add: n subslice_def)
  show ?thesis
    unfolding l sponge_state_def p
    using absorb_final_eq [of "absorb_blocks rate (take (k * rate) m) (replicate 25 0)" r "k * rate" m] assms
      absorb_blocks_append [of "take (k * rate) m" k]
    by (simp add: subslice_def)
qed

text \<open>
  Writing the block of the \<open>j\<close>-th iterated state extends what has been written of the stream.
\<close>

lemma stream_block:
  assumes "length s = 25" and "len \<le> rate"
  shows "take len (state_bytes ((keccak_f_spec ^^ j) s)) = map (sponge_stream rate s) [j * rate..<j * rate + len]"
  using assms rate_le rate_pos by (intro nth_equalityI) (simp_all add: sponge_stream_def)

lemma store_stream:
  assumes "length s = 25" and "k + a = j * rate" and "len \<le> rate" and "a + len \<le> length out"
  shows "store_block ((keccak_f_spec ^^ j) s) (map (sponge_stream rate s) [k..<k + a] @ drop a out) a len
    = map (sponge_stream rate s) [k..<k + (a + len)] @ drop (a + len) out"
proof -
  have "[k..<k + (a + len)] = [k..<k + a] @ [j * rate..<j * rate + len]"
    using upt_add_eq_append [of k "k + a" len] assms(2) by (metis add.assoc le_add1)
  moreover have "store_block ((keccak_f_spec ^^ j) s) (map (sponge_stream rate s) [k..<k + a] @ drop a out) a len
    = slice_copy (map (sponge_stream rate s) [k..<k + a] @ drop a out) a (map (sponge_stream rate s) [j * rate..<j * rate + len])"
    using assms rate_le by (subst store_block_eq) (simp_all add: stream_block)
  ultimately show ?thesis by (simp add: slice_copy_def add.commute)
qed

lemma squeeze_loop:
  assumes "length s = 25" and "k + a = j * rate" and "1 \<le> n" and "a + n * rate \<le> length out"
  shows "for_loop 1 n (\<lambda>i (s, output). let s = keccakf1600 s in (s, store_block s output (a + i * rate) rate))
      ((keccak_f_spec ^^ j) s, map (sponge_stream rate s) [k..<k + (a + rate)] @ drop (a + rate) out)
    = ((keccak_f_spec ^^ (j + n - 1)) s, map (sponge_stream rate s) [k..<k + (a + n * rate)] @ drop (a + n * rate) out)"
proof -
  let ?P = "\<lambda>i t. t = ((keccak_f_spec ^^ (j + i - 1)) s, map (sponge_stream rate s) [k..<k + (a + i * rate)] @ drop (a + i * rate) out)"
  show ?thesis
  proof (rule for_loop_invariant [where P = ?P])
    fix i t assume i: "1 \<le> i" "i < n" and t: "?P i t"
    have l: "i * rate + rate \<le> n * rate" using i(2) by (metis Suc_leI add.commute mult_Suc mult_le_mono1)
    have f: "keccakf1600 ((keccak_f_spec ^^ (j + i - 1)) s) = (keccak_f_spec ^^ (j + i)) s"
      using i(1) keccakf1600_refines(1) [of "(keccak_f_spec ^^ (j + i - 1)) s"] assms(1)
      by (cases i) simp_all
    show "?P (Suc i) (case t of (s, output) \<Rightarrow> let s = keccakf1600 s in (s, store_block s output (a + i * rate) rate))"
      using store_stream [OF assms(1), of k "a + i * rate" "j + i" rate out] assms(2,4) l
      unfolding t prod.case Let_def f by (simp add: algebra_simps)
  qed (use assms in auto)
qed

text \<open>The one-shot function is the sponge of the standard.\<close>

lemma keccak1_eq: "keccak1 rate delim input output = sponge_spec rate delim input (length output)"
proof -
  let ?S = "sponge_state rate delim input" and ?n = "length output"
  let ?b = "?n div rate" and ?r = "?n mod rate"
  have n: "?n = ?b * rate + ?r" by simp
  have S: "absorb_final rate delim (for_loop 0 (length input div rate) (\<lambda>i s. absorb_block rate s input (i * rate)) keccak_new)
      input (length input - length input mod rate) (length input mod rate) = ?S"
    using absorb_message [of input "length input div rate" "length input mod rate" delim] rate_pos
    by (simp add: minus_mod_eq_div_mult)
  have first: "store_block ?S output 0 len = map (sponge_stream rate ?S) [0..<len] @ drop len output"
    if "len \<le> rate" "len \<le> ?n" for len
    using store_stream [where s = ?S and k = 0 and a = 0 and j = 0 and len = len and out = "output"] that by simp
  show ?thesis
  proof (cases "?b = 0")
    case True
    then have "?n < rate" using rate_pos by (simp add: div_eq_0_iff)
    then show ?thesis using True first [of ?n] by (simp add: keccak1_def Let_def S sponge_spec_def)
  next
    case False
    then have "rate \<le> ?n" using rate_pos by (simp add: div_eq_0_iff)
    let ?out = "\<lambda>m. map (sponge_stream rate ?S) [0..<m] @ drop m output"
    have loop: "for_loop 1 ?b (\<lambda>i (s, output). let s = keccakf1600 s in (s, store_block s output (i * rate) rate)) (?S, ?out rate)
        = ((keccak_f_spec ^^ (?b - 1)) ?S, ?out (?b * rate))"
      using squeeze_loop [where s = ?S and k = 0 and a = 0 and j = 0 and n = ?b and out = "output"] False n by simp
    have f: "keccakf1600 ((keccak_f_spec ^^ (?b - 1)) ?S) = (keccak_f_spec ^^ ?b) ?S"
      using False keccakf1600_refines(1) [of "(keccak_f_spec ^^ (?b - 1)) ?S"] by (cases ?b) simp_all
    have last: "store_block ((keccak_f_spec ^^ ?b) ?S) (?out (?b * rate)) (?n - ?r) ?r = ?out ?n"
      using store_stream [where s = ?S and k = 0 and a = "?b * rate" and j = ?b and len = ?r and out = "output"] rate_pos n by (simp add: less_imp_le minus_mod_eq_div_mult)
    show ?thesis
      unfolding keccak1_def Let_def S
      using False loop f last first [of rate] \<open>rate \<le> ?n\<close> n by (auto simp: sponge_spec_def Let_def)
  qed
qed

end

subsection \<open>The rates of the code\<close>

interpretation rate_72: sponge_rate 72
  by unfold_locales simp_all

interpretation rate_104: sponge_rate 104
  by unfold_locales simp_all

interpretation rate_136: sponge_rate 136
  by unfold_locales simp_all

interpretation rate_144: sponge_rate 144
  by unfold_locales simp_all

interpretation rate_168: sponge_rate 168
  by unfold_locales simp_all

lemmas hash_eqs = rate_72.keccak1_eq rate_104.keccak1_eq rate_136.keccak1_eq rate_144.keccak1_eq rate_168.keccak1_eq

lemma length_sponge_spec [simp]: "length (sponge_spec rate delim m n) = n"
  by (simp add: sponge_spec_def)

lemma shake_eqs:
  "portable_shake128 digest data = sponge_spec 168 31 data (length digest)"
  "portable_shake256 digest data = sponge_spec 136 31 data (length digest)"
  "portable_sha512 digest data = sponge_spec 72 6 data (length digest)"
  "portable_sha256 digest data = sponge_spec 136 6 data (length digest)"
  by (simp_all add: portable_shake128_def portable_shake256_def portable_sha512_def portable_sha256_def hash_eqs)

text \<open>
  C27. The hash functions: the six one-shot functions are the sponge of the standard with the rate and the
  delimiter (6 for the hashes, 31 for the extendable-output functions) of each, for inputs and
  outputs of every length, and the digests have the length \<open>digest_size\<close> announces.
\<close>

theorem sha3_hashes_correct:
  "portable_shake128 digest data = sponge_spec 168 31 data (length digest)
   \<and> portable_shake256 digest data = sponge_spec 136 31 data (length digest)
   \<and> sha3_sha224 data = sponge_spec 144 6 data (digest_size Sha224)
   \<and> sha3_sha256 data = sponge_spec 136 6 data (digest_size Sha256)
   \<and> sha3_sha384 data = sponge_spec 104 6 data (digest_size Sha384)
   \<and> sha3_sha512 data = sponge_spec 72 6 data (digest_size Sha512)"
  by (simp add: shake_eqs sha3_sha224_def sha3_sha256_def sha3_sha384_def sha3_sha512_def portable_sha224_def
      portable_sha384_def hash_eqs)

subsection \<open>Squeezing block by block\<close>

lemma shake128_absorb_final_eq:
  "length data < 168 \<Longrightarrow> shake128_absorb_final shake128_init data = sponge_state 168 31 data"
  using rate_168.absorb_message [of data 0 "length data" 31] by (simp add: shake128_absorb_final_def shake128_init_def)

lemma shake256_absorb_final_eq:
  "length data < 136 \<Longrightarrow> shake256_absorb_final shake256_init data = sponge_state 136 31 data"
  using rate_136.absorb_message [of data 0 "length data" 31] by (simp add: shake256_absorb_final_def shake256_init_def)

context sponge_rate
begin

lemma next_block_eq:
  assumes "length s = 25" and "rate \<le> length out"
  shows "squeeze_next_block rate ((keccak_f_spec ^^ j) s) out 0
    = ((keccak_f_spec ^^ (j + 1)) s, map (sponge_stream rate s) [(j + 1) * rate..<(j + 2) * rate] @ drop rate out)"
proof -
  have "keccakf1600 ((keccak_f_spec ^^ j) s) = (keccak_f_spec ^^ (j + 1)) s"
    using keccakf1600_refines(1) [of "(keccak_f_spec ^^ j) s"] assms(1) by simp
  then show ?thesis
    using store_stream [where s = s and k = "(j + 1) * rate" and a = 0 and j = "j + 1" and len = rate and out = out] assms
    by (simp add: squeeze_next_block_def algebra_simps)
qed

lemma store_next:
  assumes "length s = 25" and "(j + 1) * rate \<le> length out"
  shows "store_block ((keccak_f_spec ^^ j) s) (map (sponge_stream rate s) [0..<j * rate] @ drop (j * rate) out) (j * rate) rate
      = map (sponge_stream rate s) [0..<(j + 1) * rate] @ drop ((j + 1) * rate) out"
    and "keccakf1600 ((keccak_f_spec ^^ j) s) = (keccak_f_spec ^^ (j + 1)) s"
proof -
  show "keccakf1600 ((keccak_f_spec ^^ j) s) = (keccak_f_spec ^^ (j + 1)) s"
    using keccakf1600_refines(1) [of "(keccak_f_spec ^^ j) s"] assms(1) by simp
  show "store_block ((keccak_f_spec ^^ j) s) (map (sponge_stream rate s) [0..<j * rate] @ drop (j * rate) out) (j * rate) rate
      = map (sponge_stream rate s) [0..<(j + 1) * rate] @ drop ((j + 1) * rate) out"
    using store_stream [where s = s and k = 0 and a = "j * rate" and j = j and len = rate and out = out] assms
    by (simp add: algebra_simps)
qed

lemma first_three_eq:
  assumes "length s = 25" and "3 * rate \<le> length out"
  shows "squeeze_first_three_blocks rate s out
    = ((keccak_f_spec ^^ 2) s, map (sponge_stream rate s) [0..<3 * rate] @ drop (3 * rate) out)"
  using store_next [OF assms(1), of 0 out] store_next [OF assms(1), of 1 out] store_next [OF assms(1), of 2 out] assms(2)
  by (simp add: squeeze_first_three_blocks_def numeral_eq_Suc)

lemma first_five_eq:
  assumes "length s = 25" and "5 * rate \<le> length out"
  shows "squeeze_first_five_blocks rate s out
    = ((keccak_f_spec ^^ 4) s, map (sponge_stream rate s) [0..<5 * rate] @ drop (5 * rate) out)"
  using store_next [OF assms(1), of 0 out] store_next [OF assms(1), of 1 out] store_next [OF assms(1), of 2 out]
    store_next [OF assms(1), of 3 out] store_next [OF assms(1), of 4 out] assms(2)
  by (simp add: squeeze_first_five_blocks_def numeral_eq_Suc)

end

lemma shake128_next_iter:
  assumes "length s = 25" and "length out = 168"
  shows "((\<lambda>s. fst (shake128_squeeze_next_block s out)) ^^ i) ((keccak_f_spec ^^ j) s) = (keccak_f_spec ^^ (i + j)) s"
proof (induction i)
  case (Suc i)
  then show ?case using rate_168.next_block_eq [OF assms(1), of out "i + j"] assms(2)
    by (simp add: shake128_squeeze_next_block_def)
qed simp

lemma concat_stream: "concat (map (\<lambda>i. map f [(i + a) * r..<(i + a + 1) * r]) [0..<n]) = map f [a * r..<(n + a) * r]"
proof (induction n)
  case (Suc n)
  have "[a * r..<(Suc n + a) * r] = [a * r..<(n + a) * r] @ [(n + a) * r..<(n + a + 1) * r]"
    using upt_add_eq_append [of "a * r" "(n + a) * r" r] by (simp add: algebra_simps)
  then show ?case using Suc by simp
qed simp

text \<open>
  Block-wise squeezing of SHAKE-128, as the matrix sampling uses it: after absorbing an input shorter than
  the rate, the first three blocks followed by any number of further blocks are, put together, exactly the
  output of the one-shot function; so are the first five blocks.
\<close>

theorem shake128_blocks_correct:
  assumes "length data < 168" and "length out3 = 504" and "length out5 = 840" and "length out = 168"
  defines "s0 \<equiv> shake128_absorb_final shake128_init data"
  defines "s1 \<equiv> fst (shake128_squeeze_first_three_blocks s0 out3)"
  shows "snd (shake128_squeeze_first_three_blocks s0 out3)
       @ concat (map (\<lambda>i. snd (shake128_squeeze_next_block (((\<lambda>s. fst (shake128_squeeze_next_block s out)) ^^ i) s1) out)) [0..<n])
     = portable_shake128 (replicate (504 + n * 168) 0) data
    \<and> snd (shake128_squeeze_first_five_blocks s0 out5) = portable_shake128 (replicate 840 0) data"
proof
  let ?S = "sponge_state 168 31 data"
  note s0 = shake128_absorb_final_eq [OF assms(1), folded s0_def]
  have S: "length ?S = 25" by simp
  note three = rate_168.first_three_eq [OF S, of out3] and five = rate_168.first_five_eq [OF S, of out5]
  have "snd (shake128_squeeze_next_block (((\<lambda>s. fst (shake128_squeeze_next_block s out)) ^^ i) s1) out)
      = map (sponge_stream 168 ?S) [(i + 3) * 168..<(i + 3 + 1) * 168]" for i
    using shake128_next_iter [OF S assms(4), of i 2] rate_168.next_block_eq [OF S, of out "i + 2"] three assms(2,4)
    by (simp add: s1_def s0 shake128_squeeze_first_three_blocks_def shake128_squeeze_next_block_def add.commute)
  moreover have "[0..<504 + n * 168] = [0..<504] @ [504..<(n + 3) * 168]"
    using upt_add_eq_append [of 0 504 "n * 168"] by (simp add: algebra_simps)
  ultimately show "snd (shake128_squeeze_first_three_blocks s0 out3)
       @ concat (map (\<lambda>i. snd (shake128_squeeze_next_block (((\<lambda>s. fst (shake128_squeeze_next_block s out)) ^^ i) s1) out)) [0..<n])
     = portable_shake128 (replicate (504 + n * 168) 0) data"
    using three assms(2) concat_stream [of "sponge_stream 168 ?S" 3 168 n]
    by (simp add: s0 shake128_squeeze_first_three_blocks_def shake_eqs sponge_spec_def)
  show "snd (shake128_squeeze_first_five_blocks s0 out5) = portable_shake128 (replicate 840 0) data"
    using five assms(3) by (simp add: s0 shake128_squeeze_first_five_blocks_def shake_eqs sponge_spec_def)
qed

theorem shake128_blocks_correct_witness:
  "snd (shake128_squeeze_first_five_blocks (shake128_absorb_final shake128_init (replicate 34 7)) (replicate 840 0))
   = portable_shake128 (replicate 840 0) (replicate 34 7)"
  using shake128_blocks_correct [of "replicate 34 7" "replicate 504 0" "replicate 840 0" "replicate 168 0" 0] by simp

end
