(* ===== verification/MLKEM_Sampling.thy ===== *)
theory MLKEM_Sampling
  imports MLKEM_RingSerialize SHA3_Sponge
begin

section \<open>Hash functions of ML-KEM and sampling from the centred binomial distribution\<close>

text \<open>
  The instances of the hash functions that ML-KEM uses (G, H, PRF), and the sampling of small
  ring elements: \<open>sample_from_binomial_distribution_2\<close> and \<open>sample_from_binomial_distribution_3\<close>,
  which add the coin tosses of a whole machine word in parallel, in fields of two or three bits. The lemmas
  show that no field overflows into its neighbour, so that the code computes the bit-by-bit definition
  of the standard (\<open>cbd_spec\<close>).
\<close>

definition COEFFICIENTS_IN_RING_ELEMENT :: nat where
  "COEFFICIENTS_IN_RING_ELEMENT = 256"

subsection \<open>Hash functions\<close>

definition G :: "u8 list \<Rightarrow> u8 list" where
  "G input = portable_sha512 (replicate 64 0) input"

definition H :: "u8 list \<Rightarrow> u8 list" where
  "H input = portable_sha256 (replicate 32 0) input"

definition PRF :: "nat \<Rightarrow> u8 list \<Rightarrow> u8 list" where
  "PRF LEN input = portable_shake256 (replicate LEN 0) input"

definition PRFxN :: "nat \<Rightarrow> nat \<Rightarrow> u8 list list \<Rightarrow> u8 list list" where
  "PRFxN K LEN input =
     for_loop 0 K (\<lambda>i out. out[i := portable_shake256 (out ! i) (input ! i)]) (replicate K (replicate LEN 0))"

definition prf_input_inc :: "nat \<Rightarrow> u8 list list \<Rightarrow> u8 \<Rightarrow> u8 \<times> u8 list list" where
  "prf_input_inc K prf_inputs domain_separator =
     for_loop 0 K (\<lambda>i (domain_separator, prf_inputs).
         (domain_separator + 1, prf_inputs[i := (prf_inputs ! i)[32 := domain_separator]]))
       (domain_separator, prf_inputs)"

subsection \<open>Ring elements from arrays\<close>

definition from_i16_array_d6 :: "i16 list \<Rightarrow> ring_element" where
  "from_i16_array_d6 a =
     for_loop 0 VECTORS_IN_RING_ELEMENT
       (\<lambda>i result. result[i := from_i16_array (subslice a (i * 16) ((i + 1) * 16))]) ZERO_d6"

subsection \<open>The binomial distribution\<close>

definition sample_from_binomial_distribution_2 :: "u8 list \<Rightarrow> ring_element" where
  "sample_from_binomial_distribution_2 randomness =
     from_i16_array_d6 (for_loop 0 (length randomness div 4)
       (\<lambda>chunk_number sampled_i16s.
          let byte_chunk = subslice randomness (chunk_number * 4) (chunk_number * 4 + 4);
              random_bits_as_u32 =
                (((u32_of_u8 (byte_chunk ! 0) OR push_bit 8 (u32_of_u8 (byte_chunk ! 1)))
                  OR push_bit 16 (u32_of_u8 (byte_chunk ! 2))) OR push_bit 24 (u32_of_u8 (byte_chunk ! 3)));
              even_bits = random_bits_as_u32 AND 1431655765;
              odd_bits = drop_bit 1 random_bits_as_u32 AND 1431655765;
              coin_toss_outcomes = even_bits + odd_bits
          in for_loop 0 (32 div 4)
               (\<lambda>outcome_set sampled_i16s.
                  let outcome_set0 = outcome_set * 4;
                      outcome_1 = as_i16 (uint (drop_bit outcome_set0 coin_toss_outcomes AND 3));
                      outcome_2 = as_i16 (uint (drop_bit (outcome_set0 + 2) coin_toss_outcomes AND 3));
                      offset = outcome_set0 div 4
                  in sampled_i16s[8 * chunk_number + offset := as_i16 (outcome_1 - outcome_2)])
               sampled_i16s)
       (replicate 256 0))"

definition sample_from_binomial_distribution_3 :: "u8 list \<Rightarrow> ring_element" where
  "sample_from_binomial_distribution_3 randomness =
     from_i16_array_d6 (for_loop 0 (length randomness div 3)
       (\<lambda>chunk_number sampled_i16s.
          let byte_chunk = subslice randomness (chunk_number * 3) (chunk_number * 3 + 3);
              random_bits_as_u24 =
                ((u32_of_u8 (byte_chunk ! 0) OR push_bit 8 (u32_of_u8 (byte_chunk ! 1)))
                  OR push_bit 16 (u32_of_u8 (byte_chunk ! 2)));
              first_bits = random_bits_as_u24 AND 2396745;
              second_bits = drop_bit 1 random_bits_as_u24 AND 2396745;
              third_bits = drop_bit 2 random_bits_as_u24 AND 2396745;
              coin_toss_outcomes = first_bits + second_bits + third_bits
          in for_loop 0 (24 div 6)
               (\<lambda>outcome_set sampled_i16s.
                  let outcome_set0 = outcome_set * 6;
                      outcome_1 = as_i16 (uint (drop_bit outcome_set0 coin_toss_outcomes AND 7));
                      outcome_2 = as_i16 (uint (drop_bit (outcome_set0 + 3) coin_toss_outcomes AND 7));
                      offset = outcome_set0 div 6
                  in sampled_i16s[4 * chunk_number + offset := as_i16 (outcome_1 - outcome_2)])
               sampled_i16s)
       (replicate 256 0))"

text \<open>The two values the key generation and the encryption use; any other is excluded by the types of the callers.\<close>

definition sample_from_binomial_distribution :: "nat \<Rightarrow> u8 list \<Rightarrow> ring_element" where
  "sample_from_binomial_distribution ETA randomness =
     (if ETA = 2 then sample_from_binomial_distribution_2 randomness
      else sample_from_binomial_distribution_3 randomness)"

subsection \<open>Reference definition\<close>

definition cbd_spec :: "nat \<Rightarrow> u8 list \<Rightarrow> int list" where
  "cbd_spec eta B =
     (let b = byte_stream B in
      map (\<lambda>i. sum_list (map (\<lambda>j. of_bool (b ! (2 * i * eta + j))) [0..<eta])
             - sum_list (map (\<lambda>j. of_bool (b ! (2 * i * eta + eta + j))) [0..<eta])) [0..<256])"

subsection \<open>Sums of coin tosses in parallel fields\<close>

text \<open>
  The mask selects the lowest bit of each of \<open>n\<close> fields of \<open>eta\<close> bits; a number is its list of fields
  (\<open>horner_sum\<close> in base \<open>2^eta\<close>), and a field of at most \<open>2^eta - 1\<close> can be read back.
\<close>

fun cbd_mask :: "nat \<Rightarrow> nat \<Rightarrow> int" where
  "cbd_mask eta 0 = 0"
| "cbd_mask eta (Suc n) = 1 + 2 ^ eta * cbd_mask eta n"

definition fields :: "nat \<Rightarrow> int list \<Rightarrow> int" where
  "fields eta ds = horner_sum id (2 ^ eta) ds"

lemma cbd_masks: "cbd_mask 2 16 = 1431655765" "cbd_mask 3 8 = 2396745"
  by (simp_all add: numeral_eq_Suc)

lemma and_one_plus:
  assumes "0 < eta"
  shows "y AND (1 + 2 ^ eta * m) = of_bool (odd y) + 2 ^ eta * ((y div 2 ^ eta) AND (m :: int))"
proof -
  have "push_bit eta m + 1 = push_bit eta m OR 1"
    by (rule disjunctive_add) (use assms in \<open>auto simp: bit_simps bit_1_iff\<close>)
  then have a: "1 + 2 ^ eta * m = push_bit eta m OR 1" by (simp add: push_bit_eq_mult ac_simps)
  have "push_bit eta (drop_bit eta y AND m) + of_bool (odd y) = push_bit eta (drop_bit eta y AND m) OR of_bool (odd y)"
    by (rule disjunctive_add) (use assms in \<open>auto simp: bit_simps bit_1_iff\<close>)
  then have b: "of_bool (odd y) + 2 ^ eta * ((y div 2 ^ eta) AND m) = push_bit eta (drop_bit eta y AND m) OR of_bool (odd y)"
    by (simp add: push_bit_eq_mult drop_bit_eq_div ac_simps)
  show ?thesis unfolding a b using assms
    by (intro bit_eqI) (auto simp: bit_simps bit_1_iff bit_0)
qed

lemma and_cbd_mask:
  assumes "0 < eta"
  shows "y AND cbd_mask eta n = fields eta (map (\<lambda>k. of_bool (bit y (eta * k))) [0..<n])"
proof (induction n arbitrary: y)
  case 0
  then show ?case by (simp add: fields_def)
next
  case (Suc n)
  have "map (\<lambda>k. of_bool (bit y (eta * k)) :: int) [0..<Suc n]
      = of_bool (odd y) # map (\<lambda>k. of_bool (bit (drop_bit eta y) (eta * k))) [0..<n]"
    by (simp add: upt_conv_Cons map_Suc_upt [symmetric] bit_0 bit_drop_bit_eq add.commute del: upt_Suc)
  then show ?case
    using Suc by (simp add: and_one_plus [OF assms] fields_def drop_bit_eq_div del: upt_Suc)
qed

lemma fields_add:
  "fields eta (map f [0..<n]) + fields eta (map g [0..<n]) = fields eta (map (\<lambda>k. f k + g k) [0..<n])"
proof -
  have "fields eta (map f ks) + fields eta (map g ks) = fields eta (map (\<lambda>k. f k + g k) ks)" for ks :: "nat list"
    by (induction ks) (simp_all add: fields_def distrib_left [symmetric])
  then show ?thesis .
qed

lemma fields_range: "list_all (\<lambda>d. 0 \<le> d \<and> d < 2 ^ eta) ds \<Longrightarrow> 0 \<le> fields eta ds \<and> fields eta ds < 2 ^ (eta * length ds)"
proof (induction ds)
  case Nil
  then show ?case by (simp add: fields_def)
next
  case (Cons d ds)
  let ?F = "fields eta ds"
  have d: "0 \<le> d" "d < 2 ^ eta" and F: "0 \<le> ?F" "?F + 1 \<le> 2 ^ (eta * length ds)" using Cons by auto
  have "d + 2 ^ eta * ?F < 2 ^ eta * (?F + 1)" using d by (simp add: algebra_simps)
  also have "\<dots> \<le> 2 ^ eta * 2 ^ (eta * length ds)" using F by (intro mult_left_mono) auto
  finally show ?case using d F(1) by (simp add: fields_def power_add)
qed

lemma fields_nth:
  "list_all (\<lambda>d. 0 \<le> d \<and> d < 2 ^ eta) ds \<Longrightarrow> k < length ds \<Longrightarrow> fields eta ds div 2 ^ (eta * k) mod 2 ^ eta = ds ! k"
proof (induction ds arbitrary: k)
  case (Cons d ds)
  show ?case
  proof (cases k)
    case (Suc j)
    have "fields eta (d # ds) div 2 ^ eta = fields eta ds" using Cons.prems by (simp add: fields_def)
    then have "fields eta (d # ds) div 2 ^ (eta * k) = fields eta ds div 2 ^ (eta * j)"
      by (simp add: Suc power_add zdiv_zmult2_eq)
    then show ?thesis using Cons Suc by simp
  qed (use Cons.prems in \<open>simp add: fields_def\<close>)
qed simp

lemma bit_uint: "bit (uint w) n \<longleftrightarrow> bit w n"
  by (auto simp: bit_uint_iff dest: bit_imp_le_length)

text \<open>The coin tosses of a 32-bit word, added up in fields.\<close>

definition coins :: "nat \<Rightarrow> u32 \<Rightarrow> nat \<Rightarrow> int" where
  "coins eta x k = sum_list (map (\<lambda>j. of_bool (bit x (eta * k + j))) [0..<eta])"

lemma coins_range: "0 \<le> coins eta x k" "coins eta x k \<le> int eta"
proof -
  show "0 \<le> coins eta x k" unfolding coins_def by (rule sum_list_nonneg) auto
  have "coins eta x k \<le> sum_list (map (\<lambda>j. 1) [0..<eta])"
    unfolding coins_def by (rule sum_list_mono) auto
  then show "coins eta x k \<le> int eta" by (simp add: sum_list_triv)
qed

lemma coins_list: "list_all (\<lambda>d. 0 \<le> d \<and> d < 2 ^ eta) (map (coins eta x) [0..<n])"
proof -
  have "int eta < 2 ^ eta" using less_exp [of eta] by (metis of_nat_less_iff of_nat_numeral of_nat_power)
  then have "coins eta x k < 2 ^ eta" for k by (rule le_less_trans [OF coins_range(2)])
  then show ?thesis by (simp add: list_all_iff coins_range(1))
qed

lemma coins_field:
  assumes "uint c = fields eta (map (coins eta x) [0..<n])" and "k < n"
  shows "uint (drop_bit (eta * k) c AND mask eta) = coins eta x k"
proof -
  have "uint (drop_bit (eta * k) c AND mask eta) = take_bit eta (drop_bit (eta * k) (uint c))"
    by (rule bit_eqI) (auto simp: bit_uint bit_simps dest: bit_imp_le_length)
  then show ?thesis
    using fields_nth [OF coins_list [of eta x n], of k] assms by (simp add: take_bit_eq_mod drop_bit_eq_div)
qed

lemma uint_field_masks: "uint (1431655765 :: u32) = cbd_mask 2 16" "uint (2396745 :: u32) = cbd_mask 3 8"
  by (simp_all add: cbd_masks)

lemma masked_bits:
  assumes "0 < eta" and "uint m = cbd_mask eta n"
  shows "uint (drop_bit j x AND m) = fields eta (map (\<lambda>k. of_bool (bit x (eta * k + j))) [0..<n])"
  using and_cbd_mask [OF assms(1), of "uint (drop_bit j x)" n] assms(2)
  by (simp add: unsigned_and_eq bit_uint bit_drop_bit_eq add.commute)

lemmas masked_bits_2 = masked_bits [OF _ uint_field_masks(1), simplified]
  and masked_bits_3 = masked_bits [OF _ uint_field_masks(2), simplified]

lemma coins_2:
  "uint ((x AND 1431655765) + (drop_bit 1 x AND 1431655765)) = fields 2 (map (coins 2 x) [0..<16])"
proof -
  let ?F = "fields 2 (map (coins 2 x) [0..<16])"
  have "uint (x AND 1431655765) + uint (drop_bit 1 x AND 1431655765) = ?F"
    using masked_bits_2 [of 0 x] masked_bits_2 [of 1 x]
    by (simp add: fields_add coins_def [abs_def] upt_evals(1))
  moreover have "0 \<le> ?F \<and> ?F < 2 ^ 32"
    using fields_range [OF coins_list [of 2 x 16]] by simp
  ultimately show ?thesis by (simp add: uint_word_ariths)
qed

lemma coins_3:
  "uint ((x AND 2396745) + (drop_bit 1 x AND 2396745) + (drop_bit 2 x AND 2396745)) = fields 3 (map (coins 3 x) [0..<8])"
proof -
  let ?F = "fields 3 (map (coins 3 x) [0..<8])"
  have "uint (x AND 2396745) + uint (drop_bit 1 x AND 2396745) + uint (drop_bit 2 x AND 2396745) = ?F"
    using masked_bits_3 [of 0 x] masked_bits_3 [of 1 x] masked_bits_3 [of 2 x]
    by (simp add: fields_add coins_def [abs_def] upt_evals(2) add.assoc)
  moreover have "0 \<le> ?F \<and> ?F < 2 ^ 24"
    using fields_range [OF coins_list [of 3 x 8]] by simp
  ultimately show ?thesis by (simp add: uint_word_ariths mod_simps)
qed

subsection \<open>The samplers are the binomial distribution of the standard\<close>

lemma for_loop_block:
  "a + k \<le> length xs \<Longrightarrow> for_loop 0 k (\<lambda>j xs. xs[a + j := g j]) xs = take a xs @ map g [0..<k] @ drop (a + k) xs"
proof (induction k)
  case (Suc k)
  have "drop (a + k) xs = xs ! (a + k) # drop (Suc (a + k)) xs"
    using Suc.prems by (simp add: Cons_nth_drop_Suc)
  then show ?case using Suc by (simp add: for_loop_last list_update_append min_def)
qed simp

lemma for_loop_nested:
  assumes "length xs = k * m" and "0 < k"
  shows "for_loop 0 m (\<lambda>i. for_loop 0 k (\<lambda>j xs. xs[k * i + j := f i j])) xs = map (\<lambda>n. f (n div k) (n mod k)) [0..<k * m]"
proof -
  have "for_loop 0 m' (\<lambda>i. for_loop 0 k (\<lambda>j xs. xs[k * i + j := f i j])) xs
      = map (\<lambda>n. f (n div k) (n mod k)) [0..<k * m'] @ drop (k * m') xs" if "m' \<le> m" for m'
    using that
  proof (induction m')
    case (Suc m')
    let ?ys = "map (\<lambda>n. f (n div k) (n mod k)) [0..<k * m'] @ drop (k * m') xs"
    have "k * Suc m' \<le> k * m" using Suc.prems by (rule mult_le_mono2)
    then have l: "k * m' + k \<le> length ?ys" using assms(1) by simp
    have "[0..<k * Suc m'] = [0..<k * m'] @ map (\<lambda>j. j + k * m') [0..<k]"
      using upt_add_eq_append [of 0 "k * m'" k] by (simp add: map_add_upt add.commute)
    moreover have "map (\<lambda>j. f ((j + k * m') div k) ((j + k * m') mod k)) [0..<k] = map (f m') [0..<k]"
      using assms(2) by (intro map_cong) simp_all
    ultimately have e: "map (\<lambda>n. f (n div k) (n mod k)) [0..<k * Suc m']
        = map (\<lambda>n. f (n div k) (n mod k)) [0..<k * m'] @ map (f m') [0..<k]"
      by (simp add: comp_def)
    show ?case
      using Suc for_loop_block [OF l, of "f m'"] by (simp only: e for_loop_last) (simp add: add.commute)
  qed simp
  from this [of m] show ?thesis using assms by simp
qed

lemma nth_byte_stream: "n < 8 * length B \<Longrightarrow> byte_stream B ! n = bit (B ! (n div 8)) (n mod 8)"
  unfolding byte_stream_def
  by (subst nth_concat_uniform [where m = 8]) (auto simp: byte_bits_def less_mult_imp_div_less mult.commute)

lemma not_bit_u8: "8 \<le> n \<Longrightarrow> \<not> bit (b :: u8) n"
  by (auto dest: bit_imp_le_length)

lemma bit_of_bytes:
  assumes "a < 4" and "b < 8"
  shows "bit (((u32_of_u8 (c ! 0) OR push_bit 8 (u32_of_u8 (c ! 1))) OR push_bit 16 (u32_of_u8 (c ! 2)))
      OR push_bit 24 (u32_of_u8 (c ! 3))) (8 * a + b) = bit (c ! a) b"
    and "a < 3 \<Longrightarrow> bit ((u32_of_u8 (c ! 0) OR push_bit 8 (u32_of_u8 (c ! 1))) OR push_bit 16 (u32_of_u8 (c ! 2))) (8 * a + b)
      = bit (c ! a) b"
proof -
  consider "a = 0" | "a = 1" | "a = 2" | "a = 3" using assms(1) by linarith
  then show "bit (((u32_of_u8 (c ! 0) OR push_bit 8 (u32_of_u8 (c ! 1))) OR push_bit 16 (u32_of_u8 (c ! 2)))
      OR push_bit 24 (u32_of_u8 (c ! 3))) (8 * a + b) = bit (c ! a) b"
    by cases (use assms(2) in \<open>simp_all add: u32_of_u8_def bit_simps not_bit_u8\<close>)
  assume "a < 3"
  then consider "a = 0" | "a = 1" | "a = 2" by linarith
  then show "bit ((u32_of_u8 (c ! 0) OR push_bit 8 (u32_of_u8 (c ! 1))) OR push_bit 16 (u32_of_u8 (c ! 2))) (8 * a + b)
      = bit (c ! a) b"
    by cases (use assms(2) in \<open>simp_all add: u32_of_u8_def bit_simps not_bit_u8\<close>)
qed

lemma coins_bits:
  assumes "\<And>j. j < eta \<Longrightarrow> bit x (eta * k + j) = byte_stream B ! (s + j)"
  shows "coins eta x k = sum_list (map (\<lambda>j. of_bool (byte_stream B ! (s + j))) [0..<eta])"
  unfolding coins_def using assms by (intro arg_cong [where f = sum_list] map_cong) auto

lemma block_byte: "(8 * k * c + n) div 8 = k * c + n div 8" "(8 * k * c + n) mod 8 = n mod (8 :: nat)"
proof -
  have "8 * k * c + n = n + 8 * (k * c)" by simp
  then show "(8 * k * c + n) div 8 = k * c + n div 8" "(8 * k * c + n) mod 8 = n mod 8"
    by (simp_all only: div_mult_self2 mod_mult_self2)
qed

lemma bits_of_chunk:
  assumes "length B = 4 * m" and "c < m" and "n < 32"
  defines "byte_chunk \<equiv> subslice B (c * 4) (c * 4 + 4)"
  shows "bit (((u32_of_u8 (byte_chunk ! 0) OR push_bit 8 (u32_of_u8 (byte_chunk ! 1)))
      OR push_bit 16 (u32_of_u8 (byte_chunk ! 2))) OR push_bit 24 (u32_of_u8 (byte_chunk ! 3))) n = byte_stream B ! (32 * c + n)"
proof -
  have n: "n div 8 < 4" using assms(3) by (simp add: less_mult_imp_div_less)
  have "byte_chunk ! (n div 8) = B ! (4 * c + n div 8)"
    using n assms(1,2) by (simp add: byte_chunk_def mult.commute)
  moreover have "byte_stream B ! (32 * c + n) = bit (B ! (4 * c + n div 8)) (n mod 8)"
    using nth_byte_stream [of "32 * c + n" B] block_byte [of 4 c n] assms(1,2,3) by simp
  moreover note bit_of_bytes(1) [of "n div 8" "n mod 8" byte_chunk, unfolded mult_div_mod_eq]
  ultimately show ?thesis using n by (simp only: mod_less_divisor zero_less_numeral)
qed

lemma bits_of_chunk_3:
  assumes "length B = 3 * m" and "c < m" and "n < 24"
  defines "byte_chunk \<equiv> subslice B (c * 3) (c * 3 + 3)"
  shows "bit ((u32_of_u8 (byte_chunk ! 0) OR push_bit 8 (u32_of_u8 (byte_chunk ! 1)))
      OR push_bit 16 (u32_of_u8 (byte_chunk ! 2))) n = byte_stream B ! (24 * c + n)"
proof -
  have n: "n div 8 < 3" using assms(3) by (simp add: less_mult_imp_div_less)
  have "byte_chunk ! (n div 8) = B ! (3 * c + n div 8)"
    using n assms(1,2) by (simp add: byte_chunk_def mult.commute)
  moreover have "byte_stream B ! (24 * c + n) = bit (B ! (3 * c + n div 8)) (n mod 8)"
    using nth_byte_stream [of "24 * c + n" B] block_byte [of 3 c n] assms(1,2,3) by simp
  moreover note bit_of_bytes(2) [of "n div 8" "n mod 8" byte_chunk, unfolded mult_div_mod_eq]
  ultimately show ?thesis using n by (simp only: mod_less_divisor zero_less_numeral)
qed

lemma from_i16_array_d6_eq:
  assumes "length a = 256"
  shows "from_i16_array_d6 a = chunks 16 a"
proof -
  have "from_i16_array_d6 a = map (\<lambda>i. subslice a (i * 16) (i * 16 + 16)) [0..<16]"
    using assms for_loop_update [of 16 ZERO_d6 "\<lambda>i _. from_i16_array (subslice a (i * 16) ((i + 1) * 16))"]
    by (simp add: from_i16_array_d6_def VECTORS_IN_RING_ELEMENT_def from_i16_array_def subslice_full add.commute)
  then show ?thesis using chunks_subslices [of 16 a 16] assms by simp
qed

lemma from_i16_array_d6_ok:
  assumes "length a = 256"
  shows "ring_ok (from_i16_array_d6 a)" and "coeffs (from_i16_array_d6 a) = a"
  using assms chunks_member_length [of 16 a 16] length_chunks [of 16 a 16]
  by (auto simp: from_i16_array_d6_eq ring_ok_def list_all_iff coeffs_def concat_chunks)

lemma coins_i16: "eta \<le> 3 \<Longrightarrow> as_i16 (as_i16 (coins eta x k) - as_i16 (coins eta x k')) = coins eta x k - coins eta x k'"
proof -
  assume "eta \<le> 3"
  then have "is_i16 (coins eta x k)" "is_i16 (coins eta x k')" "is_i16 (coins eta x k - coins eta x k')"
    using coins_range [of eta x k] coins_range [of eta x k'] by (auto simp: is_i16_def)
  then show ?thesis by simp
qed

lemma cbd_chunks:
  assumes word: "\<And>c n. c < m \<Longrightarrow> n < 2 * eta * k \<Longrightarrow> bit (word c) n = byte_stream B ! (2 * eta * k * c + n)"
    and coin: "\<And>c. c < m \<Longrightarrow> uint (coin c) = fields eta (map (coins eta (word c)) [0..<2 * k])"
    and "k * m = 256" and "0 < k" and "eta \<le> 3"
  shows "map (\<lambda>n. as_i16 (as_i16 (uint (drop_bit (eta * (2 * (n mod k))) (coin (n div k)) AND mask eta))
      - as_i16 (uint (drop_bit (eta * (2 * (n mod k) + 1)) (coin (n div k)) AND mask eta)))) [0..<256] = cbd_spec eta B"
  unfolding cbd_spec_def Let_def
proof (intro map_cong refl)
  fix n assume "n \<in> set [0..<256]"
  define c s where "c = n div k" and "s = n mod k"
  have c: "c < m" and s: "s < k"
    using \<open>n \<in> _\<close> assms(3,4) by (simp_all add: c_def s_def less_mult_imp_div_less mult.commute)
  have "2 * eta * (k * c + s) = 2 * eta * n" by (simp add: c_def s_def)
  then have n: "2 * eta * k * c + eta * (2 * s) = 2 * n * eta"
    "2 * eta * k * c + eta * (2 * s + 1) = 2 * n * eta + eta"
    by (simp_all add: algebra_simps)
  have toss: "coins eta (word c) i = sum_list (map (\<lambda>j. of_bool (byte_stream B ! (2 * eta * k * c + eta * i + j))) [0..<eta])"
    if "i < 2 * k" for i
  proof (rule coins_bits)
    fix j assume "j < eta"
    have "eta * i + eta \<le> eta * (2 * k)" using that by (metis Suc_leI mult_Suc_right mult_le_mono2 add.commute)
    then show "bit (word c) (eta * i + j) = byte_stream B ! (2 * eta * k * c + eta * i + j)"
      using \<open>j < eta\<close> word [OF c, of "eta * i + j"] by (simp add: add.assoc mult.commute mult.left_commute)
  qed
  have "as_i16 (as_i16 (uint (drop_bit (eta * (2 * s)) (coin c) AND mask eta))
      - as_i16 (uint (drop_bit (eta * (2 * s + 1)) (coin c) AND mask eta)))
      = coins eta (word c) (2 * s) - coins eta (word c) (2 * s + 1)"
    using coins_field [OF coin [OF c], of "2 * s"] coins_field [OF coin [OF c], of "2 * s + 1"] s assms(5)
    by (simp only: coins_i16)
  then show "as_i16 (as_i16 (uint (drop_bit (eta * (2 * (n mod k))) (coin (n div k)) AND mask eta))
      - as_i16 (uint (drop_bit (eta * (2 * (n mod k) + 1)) (coin (n div k)) AND mask eta)))
      = (\<Sum>j\<leftarrow>[0..<eta]. of_bool (byte_stream B ! (2 * n * eta + j)))
        - (\<Sum>j\<leftarrow>[0..<eta]. of_bool (byte_stream B ! (2 * n * eta + eta + j)))"
    using toss [of "2 * s"] toss [of "2 * s + 1"] s by (simp only: n c_def [symmetric] s_def [symmetric])
qed

lemma sample_2_eq:
  assumes "length B = 128"
  shows "sample_from_binomial_distribution_2 B = from_i16_array_d6 (cbd_spec 2 B)"
proof -
  define word where "word c = (((u32_of_u8 (subslice B (c * 4) (c * 4 + 4) ! 0) OR push_bit 8 (u32_of_u8 (subslice B (c * 4) (c * 4 + 4) ! 1)))
      OR push_bit 16 (u32_of_u8 (subslice B (c * 4) (c * 4 + 4) ! 2))) OR push_bit 24 (u32_of_u8 (subslice B (c * 4) (c * 4 + 4) ! 3)))" for c
  define coin where "coin c = (word c AND 1431655765) + (drop_bit 1 (word c) AND 1431655765)" for c
  define f where "f c s = as_i16 (as_i16 (uint (drop_bit (s * 4) (coin c) AND 3)) - as_i16 (uint (drop_bit (s * 4 + 2) (coin c) AND 3)))" for c s
  have "sample_from_binomial_distribution_2 B = from_i16_array_d6 (map (\<lambda>n. f (n div 8) (n mod 8)) [0..<256])"
    unfolding sample_from_binomial_distribution_2_def Let_def assms
    using for_loop_nested [of "replicate 256 0" 8 32 f] by (simp add: f_def coin_def word_def)
  also have "map (\<lambda>n. f (n div 8) (n mod 8)) [0..<256] = cbd_spec 2 B"
  proof -
    have f: "f c s = as_i16 (as_i16 (uint (drop_bit (2 * (2 * s)) (coin c) AND mask 2))
        - as_i16 (uint (drop_bit (2 * (2 * s + 1)) (coin c) AND mask 2)))" for c s
      by (simp add: f_def mask_eq_exp_minus_1 mult.commute add.commute)
    show ?thesis unfolding f
      by (rule cbd_chunks [where m = 32 and word = word])
        (use bits_of_chunk [of B 32, folded word_def] coins_2 assms in \<open>simp_all add: coin_def\<close>)
  qed
  finally show ?thesis .
qed

lemma sample_3_eq:
  assumes "length B = 192"
  shows "sample_from_binomial_distribution_3 B = from_i16_array_d6 (cbd_spec 3 B)"
proof -
  define word where "word c = ((u32_of_u8 (subslice B (c * 3) (c * 3 + 3) ! 0) OR push_bit 8 (u32_of_u8 (subslice B (c * 3) (c * 3 + 3) ! 1)))
      OR push_bit 16 (u32_of_u8 (subslice B (c * 3) (c * 3 + 3) ! 2)))" for c
  define coin where "coin c = (word c AND 2396745) + (drop_bit 1 (word c) AND 2396745) + (drop_bit 2 (word c) AND 2396745)" for c
  define f where "f c s = as_i16 (as_i16 (uint (drop_bit (s * 6) (coin c) AND 7)) - as_i16 (uint (drop_bit (s * 6 + 3) (coin c) AND 7)))" for c s
  have "sample_from_binomial_distribution_3 B = from_i16_array_d6 (map (\<lambda>n. f (n div 4) (n mod 4)) [0..<256])"
    unfolding sample_from_binomial_distribution_3_def Let_def assms
    using for_loop_nested [of "replicate 256 0" 4 64 f] by (simp add: f_def coin_def word_def)
  also have "map (\<lambda>n. f (n div 4) (n mod 4)) [0..<256] = cbd_spec 3 B"
  proof -
    have f: "f c s = as_i16 (as_i16 (uint (drop_bit (3 * (2 * s)) (coin c) AND mask 3))
        - as_i16 (uint (drop_bit (3 * (2 * s + 1)) (coin c) AND mask 3)))" for c s
      by (simp add: f_def mask_eq_exp_minus_1 mult.commute add.commute)
    show ?thesis unfolding f
      by (rule cbd_chunks [where m = 64 and word = word])
        (use bits_of_chunk_3 [of B 64, folded word_def] coins_3 assms in \<open>simp_all add: coin_def\<close>)
  qed
  finally show ?thesis .
qed

lemma length_cbd_spec [simp]: "length (cbd_spec eta B) = 256"
  by (simp add: cbd_spec_def Let_def)

lemma cbd_spec_range: "x \<in> set (cbd_spec eta B) \<Longrightarrow> \<bar>x\<bar> \<le> int eta"
proof -
  have r: "0 \<le> sum_list (map (\<lambda>j. of_bool (P j) :: int) [0..<eta])
      \<and> sum_list (map (\<lambda>j. of_bool (P j) :: int) [0..<eta]) \<le> int eta" for P
    by (induction eta) auto
  assume "x \<in> set (cbd_spec eta B)"
  then obtain P Q where "x = sum_list (map (\<lambda>j. of_bool (P j)) [0..<eta]) - sum_list (map (\<lambda>j. of_bool (Q j)) [0..<eta])"
    by (auto simp: cbd_spec_def Let_def)
  then show ?thesis using r [of P] r [of Q] by linarith
qed

text \<open>What the callers use, for either parameter.\<close>

lemma sample_from_binomial_distribution_eq:
  assumes "eta = 2 \<or> eta = 3" and "length B = 64 * eta"
  shows "coeffs (sample_from_binomial_distribution eta B) = cbd_spec eta B"
    and "ring_bounded (int eta) (sample_from_binomial_distribution eta B)"
proof -
  have e: "sample_from_binomial_distribution eta B = from_i16_array_d6 (cbd_spec eta B)"
    using assms by (auto simp: sample_from_binomial_distribution_def sample_2_eq sample_3_eq)
  show c: "coeffs (sample_from_binomial_distribution eta B) = cbd_spec eta B"
    by (simp add: e from_i16_array_d6_ok)
  have "ring_ok (sample_from_binomial_distribution eta B)" by (simp add: e from_i16_array_d6_ok)
  moreover have "\<bar>x\<bar> \<le> int eta" if "x \<in> set (coeffs (sample_from_binomial_distribution eta B))" for x
    using that cbd_spec_range by (simp add: c)
  ultimately show "ring_bounded (int eta) (sample_from_binomial_distribution eta B)"
    by (auto simp: ring_bounded_def ring_ok_def vec_bounded_def list_all_iff coeffs_def)
qed

subsection \<open>The pseudorandom function\<close>

lemma hash_functions_eq:
  "G m = sponge_spec 72 6 m 64" "H m = sponge_spec 136 6 m 32" "PRF n m = sponge_spec 136 31 m n"
  by (simp_all add: G_def H_def PRF_def shake_eqs)

lemma length_hashes [simp]: "length (G m) = 64" "length (H m) = 32" "length (PRF n m) = n"
  by (simp_all add: hash_functions_eq)

lemma PRFxN_eq: "length input = K \<Longrightarrow> PRFxN K LEN input = map (PRF LEN) input"
  by (rule nth_equalityI)
    (simp_all add: PRFxN_def PRF_def for_loop_update [where f = "\<lambda>i out. portable_shake256 out (input ! i)"])

lemma prf_input_inc_eq:
  assumes "length xs = K"
  shows "prf_input_inc K xs d = (d + of_nat K, map (\<lambda>i. (xs ! i)[32 := d + of_nat i]) [0..<K])"
  using for_loop_counter [of "\<lambda>i. d + of_nat i" d K "\<lambda>d. d + 1" xs "\<lambda>d x. x[32 := d]"] assms
  by (simp add: prf_input_inc_def ac_simps)

text \<open>
  C14. Sampling from the centred binomial distribution: for both values of the parameter, on the
  \<open>64 * eta\<close> bytes the callers provide, the parallel sums of the code compute, coefficient by
  coefficient, the differences of the coin tosses of the standard, and every coefficient has an absolute
  value of at most \<open>eta\<close>.
\<close>

theorem binomial_sampling_correct:
  assumes "eta = 2 \<or> eta = 3" and "length randomness = 64 * eta"
  shows "coeffs (sample_from_binomial_distribution eta randomness) = cbd_spec eta randomness
    \<and> ring_bounded (int eta) (sample_from_binomial_distribution eta randomness)"
  using sample_from_binomial_distribution_eq [OF assms] by simp

theorem binomial_sampling_correct_witness:
  "coeffs (sample_from_binomial_distribution 3 (replicate 192 0xA7)) = cbd_spec 3 (replicate 192 0xA7)"
  using binomial_sampling_correct [of 3 "replicate 192 0xA7"] by simp

end
