(* ===== verification/Libcrux_Stream.thy ===== *)
theory Libcrux_Stream
  imports SHA3_Sponge "HOL-Library.While_Combinator"
begin

section \<open>Loops that read a stream\<close>

text \<open>
  The rejection samplers of both schemes read the output of SHAKE block by block until they have enough coefficients. Shared by them: when a \<open>while_option\<close> returns, the
  output of SHAKE as an infinite stream of bytes, and the blocks of the stream that the incremental functions return.
\<close>

subsection \<open>Termination of loops\<close>

text \<open>A loop that has a reachable exit state stops in the first one.\<close>

lemma while_option_least:
  assumes "\<not> b ((c ^^ k) s)" and "\<And>j. j < k \<Longrightarrow> b ((c ^^ j) s)"
  shows "while_option b c s = Some ((c ^^ k) s)"
proof -
  have "(LEAST k. \<not> b ((c ^^ k) s)) = k"
    using assms by (intro Least_equality) (auto simp: not_less [symmetric])
  then show ?thesis using assms(1) by (auto simp: while_option_def)
qed

lemma while_option_never: "(\<And>k. b ((c ^^ k) s)) \<Longrightarrow> while_option b c s = None"
  by (simp add: while_option_def)

subsection \<open>Putting bytes together\<close>

lemma or_disjoint:
  assumes "0 \<le> b" and "b < 2 ^ k"
  shows "2 ^ k * a OR b = 2 ^ k * a + (b :: int)"
proof -
  have "take_bit k b = b" using assms by (simp add: take_bit_int_eq_self)
  then have "push_bit k a + b = push_bit k a OR b"
    by (intro disjunctive_add) (metis bit_push_bit_iff bit_take_bit_iff linorder_not_less)
  then show ?thesis by (simp add: push_bit_eq_mult mult.commute)
qed

subsection \<open>Streams\<close>

definition shake128_stream :: "u8 list \<Rightarrow> nat \<Rightarrow> u8" where
  "shake128_stream seed = sponge_stream 168 (sponge_state 168 31 seed)"

definition shake256_stream :: "u8 list \<Rightarrow> nat \<Rightarrow> u8" where
  "shake256_stream seed = sponge_stream 136 (sponge_state 136 31 seed)"

definition shake128_after :: "nat \<Rightarrow> u8 list \<Rightarrow> keccak_state" where
  "shake128_after j seed = (keccak_f_spec ^^ j) (sponge_state 168 31 seed)"

definition shake256_after :: "nat \<Rightarrow> u8 list \<Rightarrow> keccak_state" where
  "shake256_after j seed = (keccak_f_spec ^^ j) (sponge_state 136 31 seed)"

lemma shake_absorb_after:
  "length seed < 168 \<Longrightarrow> shake128_absorb_final shake128_init seed = shake128_after 0 seed"
  "length seed < 136 \<Longrightarrow> shake256_absorb_final shake256_init seed = shake256_after 0 seed"
  by (simp_all add: shake128_absorb_final_eq shake256_absorb_final_eq shake128_after_def shake256_after_def)

lemma shake_next_after:
  "length out = 168 \<Longrightarrow> shake128_squeeze_next_block (shake128_after j seed) out
    = (shake128_after (Suc j) seed, map (shake128_stream seed) [Suc j * 168..<Suc (Suc j) * 168])"
  "length out = 136 \<Longrightarrow> shake256_squeeze_next_block (shake256_after j seed) out
    = (shake256_after (Suc j) seed, map (shake256_stream seed) [Suc j * 136..<Suc (Suc j) * 136])"
  using rate_168.next_block_eq [of "sponge_state 168 31 seed" out j] rate_136.next_block_eq [of "sponge_state 136 31 seed" out j]
  by (simp_all add: shake128_squeeze_next_block_def shake256_squeeze_next_block_def shake128_after_def shake256_after_def
      shake128_stream_def shake256_stream_def)

lemma shake_first_after:
  "length out = 840 \<Longrightarrow> shake128_squeeze_first_five_blocks (shake128_after 0 seed) out
    = (shake128_after 4 seed, map (shake128_stream seed) [0..<840])"
  "length out = 136 \<Longrightarrow> shake256_squeeze_first_block (shake256_after 0 seed) out = map (shake256_stream seed) [0..<136]"
  using rate_168.first_five_eq [of "sponge_state 168 31 seed" out]
    rate_136.store_next(1) [of "sponge_state 136 31 seed" 0 out]
  by (simp_all add: shake128_squeeze_first_five_blocks_def shake256_squeeze_first_block_def squeeze_first_block_def shake128_after_def shake256_after_def
      shake128_stream_def shake256_stream_def)

end
