(* ===== verification/MLKEM_UniformSampling.thy ===== *)
theory MLKEM_UniformSampling
  imports MLKEM_Sampling Libcrux_Stream
begin

section \<open>Rejection sampling of the public matrix\<close>

text \<open>
  The sampling of uniformly distributed ring elements from the SHAKE-128 streams of K seeds. The code
  works on K lanes in parallel: it squeezes three blocks, then one block at a time, and hands 24
  bytes at a time to \<open>rej_sample\<close>, until every lane has 256 coefficients; a lane that has enough
  is left alone, and up to 15 surplus coefficients are stored behind the 256-th (the rows have 272 cells)
  and dropped. The loop of the code need not end: it is a \<open>while_option\<close>, whose value is
  \<open>None\<close> when it does not. The reference is Algorithm 7 (SampleNTT) of FIPS 203, a loop over
  three bytes at a time of one stream. The main lemma shows that the code returns exactly when the
  reference does on all the streams, with the same coefficients.
\<close>

subsection \<open>Operations\<close>

definition rej_sample_body :: "u8 list \<Rightarrow> nat \<Rightarrow> nat \<times> i16 list \<Rightarrow> nat \<times> i16 list" where
  "rej_sample_body a i = (\<lambda>(sampled, result).
       let b1 = as_i16 (uint (a ! (i * 3 + 0)));
           b2 = as_i16 (uint (a ! (i * 3 + 1)));
           b3 = as_i16 (uint (a ! (i * 3 + 2)));
           d1 = as_i16 (shl_i16 (b2 AND 15) 8 OR b1);
           d2 = as_i16 (shl_i16 b3 4 OR drop_bit 4 b2);
           (sampled, result) =
             (if d1 < FIELD_MODULUS then
                if sampled < 16 then (sampled + 1, result[sampled := d1]) else (sampled, result)
              else (sampled, result))
       in if d2 < FIELD_MODULUS then
            if sampled < 16 then (sampled + 1, result[sampled := d2]) else (sampled, result)
          else (sampled, result))"

definition rej_sample :: "u8 list \<Rightarrow> i16 list \<Rightarrow> nat \<times> i16 list" where
  "rej_sample a result = for_loop 0 (length a div 3) (rej_sample_body a) (0, result)"

definition shake128_init_absorb_final :: "nat \<Rightarrow> u8 list list \<Rightarrow> keccak_state list" where
  "shake128_init_absorb_final K input =
     for_loop 0 K (\<lambda>i st. st[i := shake128_absorb_final (st ! i) (input ! i)]) (replicate K shake128_init)"

definition hash_squeeze_first_three_blocks :: "nat \<Rightarrow> keccak_state list \<Rightarrow> keccak_state list \<times> u8 list list" where
  "hash_squeeze_first_three_blocks K st =
     for_loop 0 K (\<lambda>i (st, out).
         let (s, o') = shake128_squeeze_first_three_blocks (st ! i) (out ! i) in (st[i := s], out[i := o']))
       (st, replicate K (replicate 504 0))"

definition hash_squeeze_next_block :: "nat \<Rightarrow> keccak_state list \<Rightarrow> keccak_state list \<times> u8 list list" where
  "hash_squeeze_next_block K st =
     for_loop 0 K (\<lambda>i (st, out).
         let (s, o') = shake128_squeeze_next_block (st ! i) (out ! i) in (st[i := s], out[i := o']))
       (st, replicate K (replicate 168 0))"

text \<open>The result is the flag \<open>done\<close> with the updated counters and rows.\<close>

definition sample_from_uniform_distribution_next ::
    "nat \<Rightarrow> nat \<Rightarrow> u8 list list \<Rightarrow> nat list \<Rightarrow> i16 list list \<Rightarrow> bool \<times> nat list \<times> i16 list list" where
  "sample_from_uniform_distribution_next K N randomness sampled_coefficients out =
     (let (sampled_coefficients, out) =
        for_loop 0 K (\<lambda>i. for_loop 0 (N div 24) (\<lambda>r (sampled_coefficients, out).
            if sampled_coefficients ! i < COEFFICIENTS_IN_RING_ELEMENT then
              let (sampled, cells) =
                    rej_sample (subslice (randomness ! i) (r * 24) (r * 24 + 24))
                      (subslice (out ! i) (sampled_coefficients ! i) (sampled_coefficients ! i + 16))
              in (sampled_coefficients[i := sampled_coefficients ! i + sampled],
                  out[i := slice_copy (out ! i) (sampled_coefficients ! i) cells])
            else (sampled_coefficients, out))) (sampled_coefficients, out);
        (done, sampled_coefficients) =
        for_loop 0 K (\<lambda>i (done, sampled_coefficients).
            if sampled_coefficients ! i \<ge> COEFFICIENTS_IN_RING_ELEMENT
            then (done, sampled_coefficients[i := COEFFICIENTS_IN_RING_ELEMENT])
            else (False, sampled_coefficients)) (True, sampled_coefficients)
      in (done, sampled_coefficients, out))"

type_synonym xof_loop_state = "(bool \<times> nat list \<times> i16 list list) \<times> keccak_state list"

definition sample_from_xof_step :: "nat \<Rightarrow> xof_loop_state \<Rightarrow> xof_loop_state" where
  "sample_from_xof_step K = (\<lambda>((done, sampled_coefficients, out), xof_state).
     let (xof_state, randomness) = hash_squeeze_next_block K xof_state
     in (sample_from_uniform_distribution_next K 168 randomness sampled_coefficients out, xof_state))"

definition sample_from_xof :: "nat \<Rightarrow> u8 list list \<Rightarrow> ring_element list option" where
  "sample_from_xof K seeds =
     (let xof_state = shake128_init_absorb_final K seeds;
          (xof_state, randomness0) = hash_squeeze_first_three_blocks K xof_state;
          next = sample_from_uniform_distribution_next K 504 randomness0 (replicate K 0) (replicate K (replicate 272 0))
      in map_option (\<lambda>((done, sampled_coefficients, out), xof_state).
             map (\<lambda>s. from_i16_array_d6 (subslice s 0 256)) out)
           (while_option (\<lambda>((done, _), _). \<not> done) (sample_from_xof_step K) (next, xof_state)))"

subsection \<open>Reference definition\<close>

definition d1 :: "(nat \<Rightarrow> u8) \<Rightarrow> nat \<Rightarrow> int" where
  "d1 B i = uint (B i) + 256 * (uint (B (i + 1)) mod 16)"

definition d2 :: "(nat \<Rightarrow> u8) \<Rightarrow> nat \<Rightarrow> int" where
  "d2 B i = uint (B (i + 1)) div 16 + 16 * uint (B (i + 2))"

definition sample_ntt_step :: "(nat \<Rightarrow> u8) \<Rightarrow> nat \<times> int list \<Rightarrow> nat \<times> int list" where
  "sample_ntt_step B = (\<lambda>(i, a).
     let a = (if d1 B i < 3329 then a @ [d1 B i] else a);
         a = (if d2 B i < 3329 \<and> length a < 256 then a @ [d2 B i] else a)
     in (i + 3, a))"

definition sample_ntt :: "(nat \<Rightarrow> u8) \<Rightarrow> int list option" where
  "sample_ntt B = map_option snd (while_option (\<lambda>(i, a). length a < 256) (sample_ntt_step B) (0, []))"

subsection \<open>The accepted candidates of a stream\<close>

definition accept :: "int list \<Rightarrow> int list" where
  "accept ds = filter (\<lambda>d. d < 3329) ds"

definition accepted :: "(nat \<Rightarrow> u8) \<Rightarrow> nat \<Rightarrow> int list" where
  "accepted B n = accept (concat (map (\<lambda>i. [d1 B (3 * i), d2 B (3 * i)]) [0..<n]))"

lemma accepted_Suc: "accepted B (Suc n) = accepted B n @ accept [d1 B (3 * n), d2 B (3 * n)]"
  by (simp add: accepted_def accept_def)

lemma accepted_0 [simp]: "accepted B 0 = []"
  by (simp add: accepted_def accept_def)

lemma accepted_add: "accepted B (m + n) = accepted B m @ accepted (\<lambda>i. B (3 * m + i)) n"
  by (induction n) (simp_all add: accepted_Suc d1_def d2_def add.assoc)

lemma length_accepted_mono: "m \<le> n \<Longrightarrow> length (accepted B m) \<le> length (accepted B n)"
  using accepted_add [of B m "n - m"] by simp

lemma take_accepted:
  assumes "256 \<le> length (accepted B m)" and "256 \<le> length (accepted B n)"
  shows "take 256 (accepted B m) = take 256 (accepted B n)"
  using assms accepted_add [of B m "n - m"] accepted_add [of B n "m - n"] by (cases "m \<le> n") simp_all

subsection \<open>The reference\<close>

lemma sample_ntt_step_accepted:
  assumes "length (accepted B k) < 256"
  shows "sample_ntt_step B (3 * k, accepted B k) = (3 * Suc k, take 256 (accepted B (Suc k)))"
proof -
  obtain m where m: "256 - length (accepted B k) = Suc m" using assms by (cases "256 - length (accepted B k)") auto
  have full: "length (accepted B k) + 1 < 256 \<longleftrightarrow> m \<noteq> 0" using m by linarith
  have "take 256 (accepted B (Suc k)) = accepted B k @ take (Suc m) (accept [d1 B (3 * k), d2 B (3 * k)])"
    using assms by (simp add: accepted_Suc m)
  then show ?thesis using assms full by (cases m) (simp_all add: sample_ntt_step_def accept_def Let_def)
qed

lemma sample_ntt_iter:
  "(\<And>j. j < k \<Longrightarrow> length (accepted B j) < 256) \<Longrightarrow>
   (sample_ntt_step B ^^ k) (0, []) = (3 * k, take 256 (accepted B k))"
proof (induction k)
  case (Suc k)
  then have "(sample_ntt_step B ^^ k) (0, []) = (3 * k, accepted B k)" "length (accepted B k) < 256"
    by (simp_all add: less_imp_le)
  then show ?case using sample_ntt_step_accepted by simp
qed simp

lemma sample_ntt_eq:
  "sample_ntt B = (if \<exists>n. 256 \<le> length (accepted B n) then Some (take 256 (accepted B (LEAST n. 256 \<le> length (accepted B n)))) else None)"
proof (cases "\<exists>n. 256 \<le> length (accepted B n)")
  case True
  define k where "k = (LEAST n. 256 \<le> length (accepted B n))"
  have k: "256 \<le> length (accepted B k)" using True unfolding k_def by (rule LeastI_ex)
  have less: "length (accepted B j) < 256" if "j < k" for j
    using not_less_Least [OF that [unfolded k_def]] by simp
  have "while_option (\<lambda>(i, a). length a < 256) (sample_ntt_step B) (0, []) = Some ((sample_ntt_step B ^^ k) (0, []))"
    using k less sample_ntt_iter [of _ B] by (intro while_option_least) (auto simp: order.strict_trans)
  then show ?thesis using True sample_ntt_iter [of k B] less by (simp add: sample_ntt_def k_def)
next
  case False
  then have "while_option (\<lambda>(i, a). length a < 256) (sample_ntt_step B) (0, []) = None"
    using sample_ntt_iter [of _ B] by (intro while_option_never) (auto simp: not_le)
  then show ?thesis using False by (simp add: sample_ntt_def)
qed

lemma sample_ntt_Some:
  "256 \<le> length (accepted B n) \<Longrightarrow> sample_ntt B = Some (take 256 (accepted B n))"
  using take_accepted [OF LeastI [of "\<lambda>n. 256 \<le> length (accepted B n)" n]] by (auto simp: sample_ntt_eq)

lemma sample_ntt_None: "(\<And>n. length (accepted B n) < 256) \<Longrightarrow> sample_ntt B = None"
  by (auto simp: sample_ntt_eq not_le)

subsection \<open>Sampling from 24 bytes\<close>

lemma shl_i16_small:
  assumes "0 \<le> x" and "2 ^ k * x \<le> 32767"
  shows "shl_i16 x k = 2 ^ k * x"
proof -
  have "push_bit k (word_of_int x :: u32) = word_of_int (2 ^ k * x)" by (simp add: push_bit_eq_mult mult.commute)
  then have "uint (push_bit k (word_of_int x :: u32)) = (2 ^ k * x) mod 4294967296" by (simp only: uint_word_of_int) simp
  moreover have "0 \<le> 2 ^ k * x" using assms(1) by simp
  ultimately show ?thesis using assms(2) by (simp add: shl_i16_def is_i16_def del: zero_le_mult_iff)
qed

lemma candidates:
  fixes b1 b2 b3 :: u8
  shows "as_i16 (shl_i16 (as_i16 (uint b2) AND 15) 8 OR as_i16 (uint b1)) = uint b1 + 256 * (uint b2 mod 16)"
    and "as_i16 (shl_i16 (as_i16 (uint b3)) 4 OR drop_bit 4 (as_i16 (uint b2))) = uint b2 div 16 + 16 * uint b3"
proof -
  note b = uint_u8_range [of b1] uint_u8_range [of b2] uint_u8_range [of b3]
  have low: "uint b2 AND 15 = uint b2 mod 16"
    using take_bit_eq_mask [of 4 "uint b2"] by (simp add: take_bit_eq_mod mask_eq_exp_minus_1)
  have m: "0 \<le> uint b2 mod 16" "uint b2 mod 16 < 16" by simp_all
  have q: "0 \<le> uint b2 div 16" "uint b2 div 16 < 16" using b by (simp_all add: pos_imp_zdiv_nonneg_iff int_div_less)
  have "shl_i16 (uint b2 mod 16) 8 OR uint b1 = 256 * (uint b2 mod 16) + uint b1"
    using or_disjoint [of "uint b1" 8 "uint b2 mod 16"] shl_i16_small [of "uint b2 mod 16" 8] b m by simp
  moreover have "is_i16 (256 * (uint b2 mod 16) + uint b1)" using b m unfolding is_i16_def by linarith
  ultimately show "as_i16 (shl_i16 (as_i16 (uint b2) AND 15) 8 OR as_i16 (uint b1)) = uint b1 + 256 * (uint b2 mod 16)"
    by (simp add: low)
  have "shl_i16 (uint b3) 4 OR drop_bit 4 (uint b2) = 16 * uint b3 + uint b2 div 16"
    using or_disjoint [of "uint b2 div 16" 4 "uint b3"] shl_i16_small [of "uint b3" 4] b q by (simp add: drop_bit_eq_div)
  moreover have "is_i16 (16 * uint b3 + uint b2 div 16)" using b q unfolding is_i16_def by linarith
  ultimately show "as_i16 (shl_i16 (as_i16 (uint b3)) 4 OR drop_bit 4 (as_i16 (uint b2))) = uint b2 div 16 + 16 * uint b3"
    by simp
qed

text \<open>The state of the loop: a row whose first cells hold the accepted candidates.\<close>

definition store_row :: "int list \<Rightarrow> i16 list \<Rightarrow> nat \<times> i16 list" where
  "store_row ds row = (length ds, ds @ drop (length ds) row)"

lemma store_row_push:
  "length ds < length row \<Longrightarrow> (length ds + 1, (ds @ drop (length ds) row)[length ds := d]) = store_row (ds @ [d]) row"
  by (simp add: store_row_def list_update_append Cons_nth_drop_Suc [symmetric])

lemma candidate_nonneg: "0 \<le> d1 B i" "0 \<le> d2 B i"
  by (simp_all add: d1_def d2_def pos_imp_zdiv_nonneg_iff)

lemma accepted_bounds: "length (accepted B n) \<le> 2 * n" "x \<in> set (accepted B n) \<Longrightarrow> 0 \<le> x \<and> x < 3329"
proof -
  show "length (accepted B n) \<le> 2 * n"
    by (induction n) (auto simp: accepted_Suc accept_def)
  show "0 \<le> x \<and> x < 3329" if "x \<in> set (accepted B n)"
    using that by (induction n) (auto simp: accepted_Suc accept_def candidate_nonneg split: if_splits)
qed

lemma accepted_cong: "(\<And>i. i < 3 * n \<Longrightarrow> B i = C i) \<Longrightarrow> accepted B n = accepted C n"
  by (induction n) (simp_all add: accepted_Suc d1_def d2_def)

lemma rej_sample_body_eq:
  assumes "length ds < 15" and "length row = 16"
  shows "rej_sample_body a i (store_row ds row) = store_row (ds @ accept [d1 (nth a) (3 * i), d2 (nth a) (3 * i)]) row"
proof -
  have c: "as_i16 (shl_i16 (as_i16 (uint (a ! (i * 3 + 1))) AND 15) 8 OR as_i16 (uint (a ! (i * 3 + 0)))) = d1 (nth a) (3 * i)"
    "as_i16 (shl_i16 (as_i16 (uint (a ! (i * 3 + 2)))) 4 OR drop_bit 4 (as_i16 (uint (a ! (i * 3 + 1))))) = d2 (nth a) (3 * i)"
    unfolding candidates by (simp_all add: d1_def d2_def mult.commute)
  show ?thesis
    unfolding rej_sample_body_def Let_def c FIELD_MODULUS_def
    using assms store_row_push [of ds row "d1 (nth a) (3 * i)"] store_row_push [of ds row "d2 (nth a) (3 * i)"]
      store_row_push [of "ds @ [d1 (nth a) (3 * i)]" row "d2 (nth a) (3 * i)"]
    by (simp add: accept_def store_row_def)
qed

lemma rej_sample_eq:
  assumes "length a = 24" and "length row = 16"
  shows "rej_sample a row = store_row (accepted (nth a) 8) row"
proof -
  have "for_loop 0 8 (rej_sample_body a) (0, row) = store_row (accepted (nth a) 8) row"
  proof (rule for_loop_invariant)
    fix i t assume "i < 8" "t = store_row (accepted (nth a) i) row"
    moreover have "length (accepted (nth a) i) < 15" using accepted_bounds(1) [of "nth a" i] \<open>i < 8\<close> by simp
    ultimately show "rej_sample_body a i t = store_row (accepted (nth a) (Suc i)) row"
      using rej_sample_body_eq assms(2) by (simp add: accepted_Suc)
  qed (simp_all add: store_row_def)
  then show ?thesis by (simp add: rej_sample_def assms(1))
qed

subsection \<open>One lane\<close>

text \<open>
  After \<open>m\<close> blocks of 24 bytes of its stream, a lane holds the accepted candidates so far, cut at
  256; its counter may exceed 256 by at most 15 until it is reset.
\<close>

definition lane_ok :: "(nat \<Rightarrow> u8) \<Rightarrow> nat \<Rightarrow> nat \<Rightarrow> i16 list \<Rightarrow> bool" where
  "lane_ok B m sampled row \<longleftrightarrow> length row = 272 \<and> sampled \<le> 271
     \<and> min 256 sampled = min 256 (length (accepted B (8 * m)))
     \<and> take (min 256 sampled) row = take 256 (accepted B (8 * m))"

lemma lane_skip:
  assumes "lane_ok B m sampled row" and "256 \<le> sampled"
  shows "lane_ok B (Suc m) sampled row"
proof -
  have "256 \<le> length (accepted B (8 * m))" using assms by (simp add: lane_ok_def min_def split: if_splits)
  moreover from this have "256 \<le> length (accepted B (8 * Suc m))"
    using length_accepted_mono [of "8 * m" "8 * Suc m" B] by simp
  ultimately show ?thesis
    using assms take_accepted [of B "8 * m" "8 * Suc m"] by (simp add: lane_ok_def min_def)
qed

lemma lane_clamp: "lane_ok B m sampled row \<Longrightarrow> lane_ok B m (min 256 sampled) row"
proof -
  have "min 256 (min 256 sampled) = min 256 sampled" "min 256 sampled \<le> 271" by simp_all
  then show "lane_ok B m sampled row \<Longrightarrow> lane_ok B m (min 256 sampled) row" unfolding lane_ok_def by metis
qed

lemma lane_step:
  assumes "lane_ok B m sampled row" and "sampled < 256" and "length a = 24" and "\<And>i. i < 24 \<Longrightarrow> a ! i = B (24 * m + i)"
    and "rej_sample a (subslice row sampled (sampled + 16)) = (n, cells)"
  shows "lane_ok B (Suc m) (sampled + n) (slice_copy row sampled cells)"
proof -
  let ?new = "accepted (nth a) 8" and ?row = "subslice row sampled (sampled + 16)"
  have row: "length row = 272" and len: "length (accepted B (8 * m)) = sampled" and pre: "take sampled row = accepted B (8 * m)"
    using assms(1,2) by (auto simp: lane_ok_def min_def split: if_splits)
  have r: "n = length ?new" "cells = ?new @ drop (length ?new) ?row"
    using rej_sample_eq [OF assms(3), of ?row] assms(2,5) row by (auto simp: store_row_def)
  have n: "n \<le> 16" using accepted_bounds(1) [of "nth a" 8] r(1) by simp
  have "accepted (\<lambda>i. B (3 * (8 * m) + i)) 8 = ?new" using assms(4) by (intro accepted_cong) simp
  then have ext: "accepted B (8 * Suc m) = accepted B (8 * m) @ ?new"
    using accepted_add [of B "8 * m" 8] by (simp add: add.commute)
  define A where "A = accepted B (8 * Suc m)"
  define row' where "row' = slice_copy row sampled cells"
  have A: "length A = sampled + n" by (simp only: A_def ext length_append len r(1))
  have "row' = A @ drop (length ?new) ?row @ drop (sampled + length cells) row"
    unfolding row'_def slice_copy_def pre A_def ext by (simp add: r(2))
  then have "take (min 256 (sampled + n)) row' = take 256 A" by (simp add: A min_def)
  moreover have "length row' = 272" unfolding row'_def using n r assms(2) row by (subst length_slice_copy) simp_all
  ultimately show ?thesis
    using n assms(2) A unfolding lane_ok_def A_def [symmetric] row'_def [symmetric] by simp
qed

subsection \<open>All lanes\<close>

definition lanes_ok :: "nat \<Rightarrow> (nat \<Rightarrow> nat \<Rightarrow> u8) \<Rightarrow> (nat \<Rightarrow> nat) \<Rightarrow> nat list \<times> i16 list list \<Rightarrow> bool" where
  "lanes_ok K B ms = (\<lambda>(sampled_coefficients, out). length sampled_coefficients = K \<and> length out = K
     \<and> (\<forall>l < K. lane_ok (B l) (ms l) (sampled_coefficients ! l) (out ! l)))"

lemma lanes_ok_update:
  assumes "lanes_ok K B ms (sc, out)" and "i < K" and "lane_ok (B i) m' n row"
  shows "lanes_ok K B (ms(i := m')) (sc[i := n], out[i := row])"
  using assms by (auto simp: lanes_ok_def nth_list_update)

lemma next_rows:
  assumes "lanes_ok K B (\<lambda>_. m) (sc, out)"
    and "\<And>l. l < K \<Longrightarrow> length (R ! l) = 24 * T" and "\<And>l i. l < K \<Longrightarrow> i < 24 * T \<Longrightarrow> R ! l ! i = B l (24 * m + i)"
  shows "lanes_ok K B (\<lambda>_. m + T) (for_loop 0 K (\<lambda>i. for_loop 0 T (\<lambda>r (sc, out).
            if sc ! i < COEFFICIENTS_IN_RING_ELEMENT then
              let (sampled, cells) = rej_sample (subslice (R ! i) (r * 24) (r * 24 + 24)) (subslice (out ! i) (sc ! i) (sc ! i + 16))
              in (sc[i := sc ! i + sampled], out[i := slice_copy (out ! i) (sc ! i) cells])
            else (sc, out))) (sc, out))" (is "lanes_ok K B _ (for_loop 0 K (\<lambda>i. for_loop 0 T (?body i)) _)")
proof -
  have step: "lanes_ok K B (ms(i := m + Suc r)) (?body i r st)"
    if "lanes_ok K B (ms(i := m + r)) st" "i < K" "r < T" for ms i r st
  proof (cases st)
    case (Pair sc out)
    have lane: "lane_ok (B i) (m + r) (sc ! i) (out ! i)" using that by (auto simp: lanes_ok_def Pair)
    let ?a = "subslice (R ! i) (r * 24) (r * 24 + 24)"
    have "r * 24 + 24 \<le> 24 * T" using \<open>r < T\<close> by simp
    then have a: "length ?a = 24" "\<And>j. j < 24 \<Longrightarrow> ?a ! j = B i (24 * (m + r) + j)"
      using assms(2,3) [OF \<open>i < K\<close>] by (simp_all add: algebra_simps)
    show ?thesis
    proof (cases "sc ! i < 256")
      case True
      obtain n cells where rs: "rej_sample ?a (subslice (out ! i) (sc ! i) (sc ! i + 16)) = (n, cells)" by fastforce
      show ?thesis
        using lanes_ok_update [OF that(1) [unfolded Pair] \<open>i < K\<close> lane_step [OF lane True a rs]] True rs
        by (simp add: Pair COEFFICIENTS_IN_RING_ELEMENT_def)
    next
      case False
      then show ?thesis
        using lanes_ok_update [OF that(1) [unfolded Pair] \<open>i < K\<close> lane_skip [OF lane]] by (simp add: Pair COEFFICIENTS_IN_RING_ELEMENT_def)
    qed
  qed
  have row: "lanes_ok K B (ms(i := m + T)) (for_loop 0 T (?body i) st)" if "lanes_ok K B (ms(i := m)) st" "i < K" for ms i st
    using for_loop_invariant [of "\<lambda>r st. lanes_ok K B (ms(i := m + r)) st" 0 st T "?body i"] step that by simp
  have upd: "(\<lambda>l. if l < Suc i then m + T else m) = (\<lambda>l. if l < i then m + T else m)(i := m + T)"
    "(\<lambda>l. if l < i then m + T else m)(i := m) = (\<lambda>l. if l < i then m + T else m)" for i
    by (auto simp: less_Suc_eq)
  have "lanes_ok K B (\<lambda>l. if l < K then m + T else m) (for_loop 0 K (\<lambda>i. for_loop 0 T (?body i)) (sc, out))"
    by (rule for_loop_invariant [of "\<lambda>i st. lanes_ok K B (\<lambda>l. if l < i then m + T else m) st"])
      (use assms(1) row upd in simp_all)
  then show ?thesis by (auto simp: lanes_ok_def)
qed

lemma clamp_loop:
  assumes "length sc = K"
  shows "for_loop 0 K (\<lambda>i (done, sc). if sc ! i \<ge> COEFFICIENTS_IN_RING_ELEMENT
            then (done, sc[i := COEFFICIENTS_IN_RING_ELEMENT]) else (False, sc)) (True, sc)
    = (list_all (\<lambda>s. 256 \<le> s) sc, map (min 256) sc)"
proof -
  have "for_loop 0 k (\<lambda>i (done, sc). if sc ! i \<ge> COEFFICIENTS_IN_RING_ELEMENT
            then (done, sc[i := COEFFICIENTS_IN_RING_ELEMENT]) else (False, sc)) (True, sc)
    = (list_all (\<lambda>s. 256 \<le> s) (take k sc), map (min 256) (take k sc) @ drop k sc)" if "k \<le> K" for k
    using that
  proof (induction k)
    case (Suc k)
    then have "drop k sc = sc ! k # drop (Suc k) sc" using assms by (simp add: Cons_nth_drop_Suc)
    then show ?case using Suc assms
      by (auto simp: for_loop_last COEFFICIENTS_IN_RING_ELEMENT_def nth_append take_Suc_conv_app_nth list_update_append
          min_absorb1 min_absorb2)
  qed simp
  from this [of K] show ?thesis using assms by simp
qed

lemma next_lanes:
  assumes "lanes_ok K B (\<lambda>_. m) (sc, out)" and "N = 24 * T"
    and "\<And>l. l < K \<Longrightarrow> length (R ! l) = N" and "\<And>l i. l < K \<Longrightarrow> i < N \<Longrightarrow> R ! l ! i = B l (24 * m + i)"
  obtains sc' out' where "sample_from_uniform_distribution_next K N R sc out
      = ((\<forall>l < K. 256 \<le> length (accepted (B l) (8 * (m + T)))), sc', out')"
    and "lanes_ok K B (\<lambda>_. m + T) (sc', out')"
proof -
  obtain sc1 out' where loop: "for_loop 0 K (\<lambda>i. for_loop 0 (N div 24) (\<lambda>r (sc, out).
            if sc ! i < COEFFICIENTS_IN_RING_ELEMENT then
              let (sampled, cells) = rej_sample (subslice (R ! i) (r * 24) (r * 24 + 24)) (subslice (out ! i) (sc ! i) (sc ! i + 16))
              in (sc[i := sc ! i + sampled], out[i := slice_copy (out ! i) (sc ! i) cells])
            else (sc, out))) (sc, out) = (sc1, out')" by fastforce
  have ok: "lanes_ok K B (\<lambda>_. m + T) (sc1, out')"
    using next_rows [OF assms(1), of R T] assms(2-4) loop by simp
  then have "list_all (\<lambda>s. 256 \<le> s) sc1 \<longleftrightarrow> (\<forall>l < K. 256 \<le> length (accepted (B l) (8 * (m + T))))"
    by (auto simp: lanes_ok_def lane_ok_def list_all_length min_def split: if_splits)
  then have "sample_from_uniform_distribution_next K N R sc out
      = ((\<forall>l < K. 256 \<le> length (accepted (B l) (8 * (m + T)))), map (min 256) sc1, out')"
    using clamp_loop [of sc1 K] ok by (simp add: sample_from_uniform_distribution_next_def loop lanes_ok_def)
  moreover have "lanes_ok K B (\<lambda>_. m + T) (map (min 256) sc1, out')"
    using ok by (auto simp: lanes_ok_def intro: lane_clamp)
  ultimately show thesis by (rule that)
qed

subsection \<open>The streams of the lanes\<close>

lemma for_loop_pairs:
  assumes "length xs = K" and "length ys = K"
  shows "for_loop 0 K (\<lambda>i (xs, ys). let (x, y) = f (xs ! i) (ys ! i) in (xs[i := x], ys[i := y])) (xs, ys)
    = (map2 (\<lambda>x y. fst (f x y)) xs ys, map2 (\<lambda>x y. snd (f x y)) xs ys)"
proof -
  have "for_loop 0 k (\<lambda>i (xs, ys). let (x, y) = f (xs ! i) (ys ! i) in (xs[i := x], ys[i := y])) (xs, ys)
    = (map2 (\<lambda>x y. fst (f x y)) (take k xs) (take k ys) @ drop k xs,
       map2 (\<lambda>x y. snd (f x y)) (take k xs) (take k ys) @ drop k ys)" if "k \<le> K" for k
    using that
  proof (induction k)
    case (Suc k)
    then have "drop k xs = xs ! k # drop (Suc k) xs" "drop k ys = ys ! k # drop (Suc k) ys"
      using assms by (simp_all add: Cons_nth_drop_Suc)
    then show ?case using Suc assms
      by (simp add: for_loop_last nth_append take_Suc_conv_app_nth list_update_append split_beta Let_def)
  qed simp
  from this [of K] show ?thesis using assms by simp
qed

lemma map2_replicate: "length xs = K \<Longrightarrow> map2 f xs (replicate K c) = map (\<lambda>x. f x c) xs"
  by (rule nth_equalityI) simp_all

lemma init_absorb_final_eq:
  assumes "length seeds = K" and "\<And>seed. seed \<in> set seeds \<Longrightarrow> length seed < 168"
  shows "shake128_init_absorb_final K seeds = map (sponge_state 168 31) seeds"
  using assms
  by (intro nth_equalityI)
    (simp_all add: shake128_init_absorb_final_def for_loop_update [where f = "\<lambda>i st. shake128_absorb_final st (seeds ! i)"]
      shake128_absorb_final_eq)

lemma squeeze_first_three_eq:
  assumes "length S = K" and "\<And>s. s \<in> set S \<Longrightarrow> length s = 25"
  shows "hash_squeeze_first_three_blocks K S
    = (map (keccak_f_spec ^^ 2) S, map (\<lambda>s. map (sponge_stream 168 s) [0..<504]) S)"
  using assms rate_168.first_three_eq [of _ "replicate 504 0"]
  unfolding hash_squeeze_first_three_blocks_def
  by (subst for_loop_pairs [where f = shake128_squeeze_first_three_blocks])
    (simp_all add: map2_replicate shake128_squeeze_first_three_blocks_def)

lemma squeeze_next_eq:
  assumes "length S = K" and "\<And>s. s \<in> set S \<Longrightarrow> length s = 25"
  shows "hash_squeeze_next_block K (map (keccak_f_spec ^^ j) S)
    = (map (keccak_f_spec ^^ Suc j) S, map (\<lambda>s. map (sponge_stream 168 s) [(j + 1) * 168..<(j + 2) * 168]) S)"
  using assms rate_168.next_block_eq [of _ "replicate 168 0" j]
  unfolding hash_squeeze_next_block_def
  by (subst for_loop_pairs [where f = shake128_squeeze_next_block])
    (simp_all add: map2_replicate shake128_squeeze_next_block_def comp_def)

text \<open>The state of the loop after \<open>k\<close> further blocks.\<close>

lemma sample_from_xof_iter:
  assumes "length S = K" and "\<And>s. s \<in> set S \<Longrightarrow> length s = 25"
  defines "B \<equiv> \<lambda>l. sponge_stream 168 (S ! l)"
  defines "s0 \<equiv> (sample_from_uniform_distribution_next K 504 (map (\<lambda>s. map (sponge_stream 168 s) [0..<504]) S)
      (replicate K 0) (replicate K (replicate 272 0)), map (keccak_f_spec ^^ 2) S)"
  shows "\<exists>sc out. (sample_from_xof_step K ^^ k) s0
      = (((\<forall>l < K. 256 \<le> length (accepted (B l) (8 * (21 + 7 * k)))), sc, out), map (keccak_f_spec ^^ (k + 2)) S)
    \<and> lanes_ok K B (\<lambda>_. 21 + 7 * k) (sc, out)"
proof (induction k)
  case 0
  have "lanes_ok K B (\<lambda>_. 0) (replicate K 0, replicate K (replicate 272 0))"
    by (simp add: lanes_ok_def lane_ok_def)
  from next_lanes [OF this, of 504 21 "map (\<lambda>s. map (sponge_stream 168 s) [0..<504]) S"] assms(1)
  obtain sc out where "sample_from_uniform_distribution_next K 504 (map (\<lambda>s. map (sponge_stream 168 s) [0..<504]) S)
      (replicate K 0) (replicate K (replicate 272 0)) = ((\<forall>l < K. 256 \<le> length (accepted (B l) (8 * (0 + 21)))), sc, out)"
    "lanes_ok K B (\<lambda>_. 0 + 21) (sc, out)"
    by (auto simp: B_def)
  then show ?case by (auto simp: s0_def numeral_2_eq_2)
next
  case (Suc k)
  let ?R = "map (\<lambda>s. map (sponge_stream 168 s) [(k + 2 + 1) * 168..<(k + 2 + 2) * 168]) S"
  from Suc obtain sc out where IH: "(sample_from_xof_step K ^^ k) s0
      = (((\<forall>l < K. 256 \<le> length (accepted (B l) (8 * (21 + 7 * k)))), sc, out), map (keccak_f_spec ^^ (k + 2)) S)"
    and ok: "lanes_ok K B (\<lambda>_. 21 + 7 * k) (sc, out)" by blast
  have R: "length (?R ! l) = 168" "\<And>i. i < 168 \<Longrightarrow> ?R ! l ! i = B l (24 * (21 + 7 * k) + i)" if "l < K" for l
    using that assms(1) by (simp_all add: B_def algebra_simps)
  obtain sc' out' where n: "sample_from_uniform_distribution_next K 168 ?R sc out
      = ((\<forall>l < K. 256 \<le> length (accepted (B l) (8 * (21 + 7 * k + 7)))), sc', out')"
    and ok': "lanes_ok K B (\<lambda>_. 21 + 7 * k + 7) (sc', out')"
    by (rule next_lanes [OF ok, of 168 7 ?R]) (use R in simp_all)
  have "21 + 7 * Suc k = 21 + 7 * k + 7" by simp
  then show ?case
    using n ok' squeeze_next_eq [OF assms(1,2), of "k + 2"]
    by (simp only: funpow.simps comp_def IH) (simp add: sample_from_xof_step_def)
qed

subsection \<open>The code is the reference on all lanes\<close>

lemma those_map_Some: "(\<And>x. x \<in> set xs \<Longrightarrow> f x = Some (g x)) \<Longrightarrow> those (map f xs) = Some (map g xs)"
  by (induction xs) auto

lemma those_map_None: "x \<in> set xs \<Longrightarrow> f x = None \<Longrightarrow> those (map f xs) = None"
  by (induction xs) (auto split: option.splits)

lemma lanes_ok_rows:
  assumes "lanes_ok K B (\<lambda>_. m) (sc, out)" and "\<And>l. l < K \<Longrightarrow> 256 \<le> length (accepted (B l) (8 * m))"
  shows "map (\<lambda>s. from_i16_array_d6 (subslice s 0 256)) out
    = map (\<lambda>l. from_i16_array_d6 (take 256 (accepted (B l) (8 * m)))) [0..<K]"
proof (rule nth_equalityI)
  fix l assume "l < length (map (\<lambda>s. from_i16_array_d6 (subslice s 0 256)) out)"
  then have l: "l < K" "l < length out" using assms(1) by (simp_all add: lanes_ok_def)
  then have "lane_ok (B l) m (sc ! l) (out ! l)" using assms(1) by (simp add: lanes_ok_def)
  then have "take 256 (out ! l) = take 256 (accepted (B l) (8 * m))"
    using assms(2) [OF l(1)] by (auto simp: lane_ok_def min_def split: if_splits)
  then show "map (\<lambda>s. from_i16_array_d6 (subslice s 0 256)) out ! l
      = map (\<lambda>l. from_i16_array_d6 (take 256 (accepted (B l) (8 * m)))) [0..<K] ! l"
    using l by (simp add: subslice_def)
qed (use assms(1) in \<open>simp add: lanes_ok_def\<close>)

lemma lanes_all_finish:
  fixes K :: nat
  assumes "\<And>l. l < K \<Longrightarrow> \<exists>n. 256 \<le> length (accepted (B l) n)"
  shows "\<exists>k. \<forall>l < K. 256 \<le> length (accepted (B l) (8 * (21 + 7 * k)))"
proof -
  obtain f where f: "\<And>l. l < K \<Longrightarrow> 256 \<le> length (accepted (B l) (f l))" using assms by metis
  define k where "k = Max (f ` {..<K})"
  have le: "f l \<le> k" if "l < K" for l unfolding k_def using that by (intro Max_ge) auto
  have "f l \<le> 8 * (21 + 7 * k)" if "l < K" for l using le [OF that] by (simp add: add_increasing mult_le_mono trans_le_add2)
  then show ?thesis using f length_accepted_mono order_trans by blast
qed

lemma sample_from_xof_loop:
  assumes "length seeds = K" and "\<And>seed. seed \<in> set seeds \<Longrightarrow> length seed < 168"
  defines "B \<equiv> \<lambda>l. shake128_stream (seeds ! l)"
  shows "sample_from_xof K seeds = (if \<exists>k. \<forall>l < K. 256 \<le> length (accepted (B l) (8 * (21 + 7 * k)))
    then Some (map (\<lambda>l. from_i16_array_d6 (the (sample_ntt (B l)))) [0..<K]) else None)"
proof -
  define S where "S = map (sponge_state 168 31) seeds"
  define s0 where "s0 = (sample_from_uniform_distribution_next K 504 (map (\<lambda>s. map (sponge_stream 168 s) [0..<504]) S)
      (replicate K 0) (replicate K (replicate 272 0)), map (keccak_f_spec ^^ 2) S)"
  let ?b = "\<lambda>((done, _), _). \<not> done" and ?done = "\<lambda>k. \<forall>l < K. 256 \<le> length (accepted (B l) (8 * (21 + 7 * k)))"
  have S: "length S = K" "\<And>s. s \<in> set S \<Longrightarrow> length s = 25" using assms(1) by (auto simp: S_def)
  have init: "shake128_init_absorb_final K seeds = S" using init_absorb_final_eq [OF assms(1,2)] by (simp add: S_def)
  have code: "sample_from_xof K seeds = map_option (\<lambda>((done, sc, out), xof_state). map (\<lambda>s. from_i16_array_d6 (subslice s 0 256)) out)
      (while_option ?b (sample_from_xof_step K) s0)"
    using squeeze_first_three_eq [OF S] by (simp add: sample_from_xof_def init s0_def)
  have B: "l < K \<Longrightarrow> sponge_stream 168 (S ! l) = B l" for l
    using assms(1) by (simp add: B_def S_def shake128_stream_def)
  have iter: "\<exists>sc out. (sample_from_xof_step K ^^ k) s0 = ((?done k, sc, out), map (keccak_f_spec ^^ (k + 2)) S)
      \<and> lanes_ok K B (\<lambda>_. 21 + 7 * k) (sc, out)" for k
    using sample_from_xof_iter [OF S, of k] B unfolding s0_def by (simp add: lanes_ok_def)
  have exit: "?b ((sample_from_xof_step K ^^ k) s0) \<longleftrightarrow> \<not> ?done k" for k using iter [of k] by auto
  show ?thesis
  proof (cases "\<exists>k. ?done k")
    case True
    define k where "k = (LEAST k. ?done k)"
    have k: "?done k" unfolding k_def using True by (rule LeastI_ex)
    have "while_option ?b (sample_from_xof_step K) s0 = Some ((sample_from_xof_step K ^^ k) s0)"
      using k not_less_Least [of _ ?done] unfolding k_def [symmetric] by (intro while_option_least) (simp_all add: exit)
    then have "sample_from_xof K seeds = Some (map (\<lambda>l. from_i16_array_d6 (take 256 (accepted (B l) (8 * (21 + 7 * k))))) [0..<K])"
      using iter [of k] lanes_ok_rows [of K B "21 + 7 * k"] k by (auto simp: code)
    then show ?thesis using True k sample_ntt_Some [of "B _" "8 * (21 + 7 * k)"] by (auto intro!: map_cong)
  next
    case False
    then have "while_option ?b (sample_from_xof_step K) s0 = None"
      by (intro while_option_never) (simp add: exit)
    then show ?thesis using False by (auto simp: code)
  qed
qed

lemma sample_from_xof_eq:
  assumes "length seeds = K" and "\<And>seed. seed \<in> set seeds \<Longrightarrow> length seed < 168"
  shows "sample_from_xof K seeds = those (map (\<lambda>seed. map_option from_i16_array_d6 (sample_ntt (shake128_stream seed))) seeds)"
proof -
  let ?B = "\<lambda>l. shake128_stream (seeds ! l)" and ?s = "\<lambda>l. map_option from_i16_array_d6 (sample_ntt (shake128_stream (seeds ! l)))"
  note loop = sample_from_xof_loop [OF assms]
  have rhs: "map (\<lambda>seed. map_option from_i16_array_d6 (sample_ntt (shake128_stream seed))) seeds = map ?s [0..<K]"
    using assms(1) by (intro nth_equalityI) simp_all
  show ?thesis
  proof (cases "\<exists>k. \<forall>l < K. 256 \<le> length (accepted (?B l) (8 * (21 + 7 * k)))")
    case True
    then have "?s l = Some (from_i16_array_d6 (the (sample_ntt (?B l))))" if "l < K" for l
      using that sample_ntt_Some by fastforce
    then have "those (map ?s [0..<K]) = Some (map (\<lambda>l. from_i16_array_d6 (the (sample_ntt (?B l)))) [0..<K])"
      by (intro those_map_Some) simp
    then show ?thesis using True loop by (simp only: rhs if_True)
  next
    case False
    then obtain l where "l < K" "\<And>n. length (accepted (?B l) n) < 256"
      using lanes_all_finish [of K ?B] by (meson not_le)
    then have "those (map ?s [0..<K]) = None" by (intro those_map_None [of l]) (use sample_ntt_None in auto)
    then show ?thesis using False loop by (simp only: rhs if_False)
  qed
qed

lemma sample_ntt_range:
  assumes "sample_ntt B = Some a"
  shows "length a = 256" and "x \<in> set a \<Longrightarrow> 0 \<le> x \<and> x < 3329"
proof -
  obtain n where n: "256 \<le> length (accepted B n)" "a = take 256 (accepted B n)"
    using assms sample_ntt_Some [of B] sample_ntt_None [of B] by (metis linorder_not_less option.distinct(1) option.inject)
  then show "length a = 256" by simp
  show "x \<in> set a \<Longrightarrow> 0 \<le> x \<and> x < 3329" unfolding n(2) by (drule in_set_takeD) (rule accepted_bounds(2))
qed

text \<open>
  C13. Rejection sampling of K ring elements in parallel: on seeds shorter than one block the code, with its
  three-block and one-block squeezes, its calls of \<open>rej_sample\<close> on 24 bytes and its surplus cells, returns
  exactly when Algorithm 7 of the standard terminates on the SHAKE-128 stream of every seed, and then it
  returns the ring elements of that algorithm.
\<close>

theorem sample_from_xof_correct:
  assumes "length seeds = K" and "list_all (\<lambda>seed. length seed = 34) seeds"
  shows "sample_from_xof K seeds
    = those (map (\<lambda>seed. map_option (chunks 16) (sample_ntt (shake128_stream seed))) seeds)"
proof -
  have "map_option from_i16_array_d6 (sample_ntt B) = map_option (chunks 16) (sample_ntt B)" for B
    using sample_ntt_range(1) [of B] by (cases "sample_ntt B") (simp_all add: from_i16_array_d6_eq)
  then show ?thesis using sample_from_xof_eq [of seeds K] assms by (simp add: list_all_iff)
qed

theorem sample_from_xof_correct_witness:
  "sample_from_xof 2 [replicate 34 1, replicate 34 2]
    = those (map (\<lambda>seed. map_option (chunks 16) (sample_ntt (shake128_stream seed))) [replicate 34 1, replicate 34 2])"
  by (rule sample_from_xof_correct) simp_all

end
