(* ===== verification/MLKEM_IndCpa.thy ===== *)
theory MLKEM_IndCpa
  imports MLKEM_Ring MLKEM_UniformSampling
begin

section \<open>The public-key encryption scheme K-PKE\<close>

text \<open>
  Key generation, encryption and decryption of the scheme below the key encapsulation
  (\<open>ind_cpa\<close>, \<open>matrix\<close> and \<open>utils\<close> in the source). The C files hold one copy of each function per parameter
  set; here the parameters are an argument, the record \<open>mlkem_params\<close>, with the three instances of
  the headers. Sampling the public matrix may not terminate, so everything that
  depends on it is an option.
\<close>

subsection \<open>Parameters and sizes\<close>

record mlkem_params =
  RANK :: nat
  ETA1 :: nat
  ETA2 :: nat
  VECTOR_U_COMPRESSION_FACTOR :: nat
  VECTOR_V_COMPRESSION_FACTOR :: nat

definition mlkem512 :: mlkem_params where
  "mlkem512 = \<lparr>RANK = 2, ETA1 = 3, ETA2 = 2, VECTOR_U_COMPRESSION_FACTOR = 10, VECTOR_V_COMPRESSION_FACTOR = 4\<rparr>"

definition mlkem768 :: mlkem_params where
  "mlkem768 = \<lparr>RANK = 3, ETA1 = 2, ETA2 = 2, VECTOR_U_COMPRESSION_FACTOR = 10, VECTOR_V_COMPRESSION_FACTOR = 4\<rparr>"

definition mlkem1024 :: mlkem_params where
  "mlkem1024 = \<lparr>RANK = 4, ETA1 = 2, ETA2 = 2, VECTOR_U_COMPRESSION_FACTOR = 11, VECTOR_V_COMPRESSION_FACTOR = 5\<rparr>"

definition all_params :: "mlkem_params list" where
  "all_params = [mlkem512, mlkem768, mlkem1024]"

definition BITS_PER_COEFFICIENT :: nat where
  "BITS_PER_COEFFICIENT = 12"

definition BITS_PER_RING_ELEMENT :: nat where
  "BITS_PER_RING_ELEMENT = COEFFICIENTS_IN_RING_ELEMENT * 12"

definition BYTES_PER_RING_ELEMENT :: nat where
  "BYTES_PER_RING_ELEMENT = BITS_PER_RING_ELEMENT div 8"

definition CPA_PKE_KEY_GENERATION_SEED_SIZE :: nat where
  "CPA_PKE_KEY_GENERATION_SEED_SIZE = 32"

definition ranked_bytes_per_ring_element :: "nat \<Rightarrow> nat" where
  "ranked_bytes_per_ring_element rank = rank * BITS_PER_RING_ELEMENT div 8"

definition C1_BLOCK_SIZE :: "mlkem_params \<Rightarrow> nat" where
  "C1_BLOCK_SIZE p = COEFFICIENTS_IN_RING_ELEMENT * VECTOR_U_COMPRESSION_FACTOR p div 8"

definition C1_SIZE :: "mlkem_params \<Rightarrow> nat" where
  "C1_SIZE p = C1_BLOCK_SIZE p * RANK p"

definition C2_SIZE :: "mlkem_params \<Rightarrow> nat" where
  "C2_SIZE p = COEFFICIENTS_IN_RING_ELEMENT * VECTOR_V_COMPRESSION_FACTOR p div 8"

definition CPA_PKE_CIPHERTEXT_SIZE :: "mlkem_params \<Rightarrow> nat" where
  "CPA_PKE_CIPHERTEXT_SIZE p = C1_SIZE p + C2_SIZE p"

definition T_AS_NTT_ENCODED_SIZE :: "mlkem_params \<Rightarrow> nat" where
  "T_AS_NTT_ENCODED_SIZE p = RANK p * COEFFICIENTS_IN_RING_ELEMENT * BITS_PER_COEFFICIENT div 8"

definition CPA_PKE_PUBLIC_KEY_SIZE :: "mlkem_params \<Rightarrow> nat" where
  "CPA_PKE_PUBLIC_KEY_SIZE p = T_AS_NTT_ENCODED_SIZE p + 32"

definition CPA_PKE_SECRET_KEY_SIZE :: "mlkem_params \<Rightarrow> nat" where
  "CPA_PKE_SECRET_KEY_SIZE p = RANK p * COEFFICIENTS_IN_RING_ELEMENT * BITS_PER_COEFFICIENT div 8"

definition ETA1_RANDOMNESS_SIZE :: "mlkem_params \<Rightarrow> nat" where
  "ETA1_RANDOMNESS_SIZE p = ETA1 p * 64"

definition ETA2_RANDOMNESS_SIZE :: "mlkem_params \<Rightarrow> nat" where
  "ETA2_RANDOMNESS_SIZE p = ETA2 p * 64"

definition into_padded_array :: "nat \<Rightarrow> u8 list \<Rightarrow> u8 list" where
  "into_padded_array LEN xs = slice_copy (replicate LEN 0) 0 xs"

subsection \<open>The public matrix\<close>

definition sample_matrix_A :: "nat \<Rightarrow> ring_element list list \<Rightarrow> u8 list \<Rightarrow> bool \<Rightarrow> ring_element list list option" where
  "sample_matrix_A K A_transpose seed transposed =
     for_option 0 K (\<lambda>i A_transpose.
         let seeds = for_loop 0 K (\<lambda>j seeds. seeds[j := (seeds ! j)[32 := of_nat i, 33 := of_nat j]]) (replicate K seed)
         in Option.bind (sample_from_xof K seeds) (\<lambda>sampled.
              Some (for_loop 0 K (\<lambda>j A_transpose.
                  if transposed then A_transpose[j := (A_transpose ! j)[i := sampled ! j]]
                  else A_transpose[i := (A_transpose ! i)[j := sampled ! j]]) A_transpose)))
       A_transpose"

subsection \<open>Vectors of ring elements and their encodings\<close>

definition deserialize_ring_elements_reduced :: "u8 list \<Rightarrow> ring_element list \<Rightarrow> ring_element list" where
  "deserialize_ring_elements_reduced public_key deserialized_pk =
     for_loop 0 (length public_key div BYTES_PER_RING_ELEMENT) (\<lambda>i deserialized_pk.
         deserialized_pk[i := deserialize_to_reduced_ring_element
           (subslice public_key (i * BYTES_PER_RING_ELEMENT) (i * BYTES_PER_RING_ELEMENT + BYTES_PER_RING_ELEMENT))])
       deserialized_pk"

definition deserialize_ring_elements_reduced_out :: "nat \<Rightarrow> u8 list \<Rightarrow> ring_element list" where
  "deserialize_ring_elements_reduced_out K public_key =
     deserialize_ring_elements_reduced public_key (replicate K ZERO_d6)"

definition serialize_vector :: "nat \<Rightarrow> ring_element list \<Rightarrow> u8 list \<Rightarrow> u8 list" where
  "serialize_vector K key out =
     for_loop 0 K (\<lambda>i out. slice_copy out (i * BYTES_PER_RING_ELEMENT) (serialize_uncompressed_ring_element (key ! i))) out"

definition deserialize_vector :: "nat \<Rightarrow> u8 list \<Rightarrow> ring_element list \<Rightarrow> ring_element list" where
  "deserialize_vector K secret_key secret_as_ntt =
     for_loop 0 K (\<lambda>i secret_as_ntt.
         secret_as_ntt[i := deserialize_to_uncompressed_ring_element
           (subslice secret_key (i * BYTES_PER_RING_ELEMENT) ((i + 1) * BYTES_PER_RING_ELEMENT))])
       secret_as_ntt"

definition serialize_public_key_mut :: "nat \<Rightarrow> ring_element list \<Rightarrow> u8 list \<Rightarrow> u8 list \<Rightarrow> u8 list" where
  "serialize_public_key_mut K t_as_ntt seed_for_a serialized =
     (let n = ranked_bytes_per_ring_element K;
          serialized = slice_copy serialized 0 (serialize_vector K t_as_ntt (subslice serialized 0 n))
      in slice_copy serialized n seed_for_a)"

definition serialize_public_key :: "mlkem_params \<Rightarrow> ring_element list \<Rightarrow> u8 list \<Rightarrow> u8 list" where
  "serialize_public_key p t_as_ntt seed_for_a =
     serialize_public_key_mut (RANK p) t_as_ntt seed_for_a (replicate (CPA_PKE_PUBLIC_KEY_SIZE p) 0)"

subsection \<open>Keys\<close>

record ind_cpa_public_key =
  t_as_ntt :: "ring_element list"
  seed_for_A :: "u8 list"
  matrix_A :: "ring_element list list"

type_synonym ind_cpa_private_key = "ring_element list"

definition default_ind_cpa_private_key :: "nat \<Rightarrow> ind_cpa_private_key" where
  "default_ind_cpa_private_key K = replicate K ZERO_d6"

definition default_ind_cpa_public_key :: "nat \<Rightarrow> ind_cpa_public_key" where
  "default_ind_cpa_public_key K =
     \<lparr>t_as_ntt = replicate K ZERO_d6, seed_for_A = replicate 32 0, matrix_A = replicate K (replicate K ZERO_d6)\<rparr>"

definition serialize_unpacked_secret_key :: "mlkem_params \<Rightarrow> ind_cpa_public_key \<Rightarrow> ind_cpa_private_key \<Rightarrow> u8 list \<times> u8 list" where
  "serialize_unpacked_secret_key p public_key private_key =
     (let public_key_serialized = serialize_public_key p (t_as_ntt public_key) (seed_for_A public_key);
          secret_key_serialized = serialize_vector (RANK p) private_key (replicate (CPA_PKE_SECRET_KEY_SIZE p) 0)
      in (secret_key_serialized, public_key_serialized))"

definition build_unpacked_public_key_mut :: "mlkem_params \<Rightarrow> u8 list \<Rightarrow> ind_cpa_public_key \<Rightarrow> ind_cpa_public_key option" where
  "build_unpacked_public_key_mut p public_key unpacked_public_key =
     (let t = deserialize_ring_elements_reduced (subslice public_key 0 (T_AS_NTT_ENCODED_SIZE p)) (t_as_ntt unpacked_public_key);
          seed = drop (T_AS_NTT_ENCODED_SIZE p) public_key
      in Option.bind (sample_matrix_A (RANK p) (matrix_A unpacked_public_key) (into_padded_array 34 seed) False) (\<lambda>A.
           Some (unpacked_public_key\<lparr>t_as_ntt := t, matrix_A := A\<rparr>)))"

definition build_unpacked_public_key :: "mlkem_params \<Rightarrow> u8 list \<Rightarrow> ind_cpa_public_key option" where
  "build_unpacked_public_key p public_key =
     build_unpacked_public_key_mut p public_key (default_ind_cpa_public_key (RANK p))"

subsection \<open>Key generation\<close>

definition cpa_keygen_seed :: "nat \<Rightarrow> u8 list \<Rightarrow> u8 list" where
  "cpa_keygen_seed K key_generation_seed =
     (let seed = slice_copy (replicate 33 0) 0 key_generation_seed;
          seed = seed[CPA_PKE_KEY_GENERATION_SEED_SIZE := of_nat K]
      in G seed)"

definition sample_vector_cbd_then_ntt ::
    "nat \<Rightarrow> nat \<Rightarrow> nat \<Rightarrow> ring_element list \<Rightarrow> u8 list \<Rightarrow> u8 \<Rightarrow> u8 \<times> ring_element list" where
  "sample_vector_cbd_then_ntt K ETA LEN re_as_ntt prf_input domain_separator =
     (let prf_inputs = replicate K prf_input;
          (domain_separator, prf_inputs) = prf_input_inc K prf_inputs domain_separator;
          prf_outputs = PRFxN K LEN prf_inputs;
          re_as_ntt = for_loop 0 K (\<lambda>i re_as_ntt.
              let re_as_ntt = re_as_ntt[i := sample_from_binomial_distribution ETA (prf_outputs ! i)]
              in re_as_ntt[i := ntt_binomially_sampled_ring_element (re_as_ntt ! i)]) re_as_ntt
      in (domain_separator, re_as_ntt))"

definition compute_As_plus_e ::
    "nat \<Rightarrow> ring_element list \<Rightarrow> ring_element list list \<Rightarrow> ring_element list \<Rightarrow> ring_element list \<Rightarrow> ring_element list" where
  "compute_As_plus_e K t A s_as_ntt error_as_ntt =
     for_loop 0 K (\<lambda>i t.
         let t = t[i := ZERO_d6];
             t = for_loop 0 K (\<lambda>j t. t[i := add_to_ring_element (t ! i) (ntt_multiply (A ! i ! j) (s_as_ntt ! j))]) t
         in t[i := add_standard_error_reduce (t ! i) (error_as_ntt ! i)]) t"

definition generate_keypair_unpacked ::
    "mlkem_params \<Rightarrow> u8 list \<Rightarrow> ind_cpa_private_key \<Rightarrow> ind_cpa_public_key \<Rightarrow> (ind_cpa_private_key \<times> ind_cpa_public_key) option" where
  "generate_keypair_unpacked p key_generation_seed private_key public_key =
     (let hashed = cpa_keygen_seed (RANK p) key_generation_seed;
          seed_A = take 32 hashed;
          seed_for_secret_and_error = drop 32 hashed
      in Option.bind (sample_matrix_A (RANK p) (matrix_A public_key) (into_padded_array 34 seed_A) True) (\<lambda>A.
         let prf_input = into_padded_array 33 seed_for_secret_and_error;
             (domain_separator, private_key) =
               sample_vector_cbd_then_ntt (RANK p) (ETA1 p) (ETA1_RANDOMNESS_SIZE p) private_key prf_input 0;
             (_, error_as_ntt) =
               sample_vector_cbd_then_ntt (RANK p) (ETA1 p) (ETA1_RANDOMNESS_SIZE p)
                 (replicate (RANK p) ZERO_d6) prf_input domain_separator;
             t = compute_As_plus_e (RANK p) (t_as_ntt public_key) A private_key error_as_ntt
         in Some (private_key, public_key\<lparr>t_as_ntt := t, seed_for_A := seed_A, matrix_A := A\<rparr>)))"

definition cpa_generate_keypair :: "mlkem_params \<Rightarrow> u8 list \<Rightarrow> (u8 list \<times> u8 list) option" where
  "cpa_generate_keypair p key_generation_seed =
     Option.bind (generate_keypair_unpacked p key_generation_seed
         (default_ind_cpa_private_key (RANK p)) (default_ind_cpa_public_key (RANK p)))
       (\<lambda>(private_key, public_key). Some (serialize_unpacked_secret_key p public_key private_key))"

subsection \<open>Encryption\<close>

definition sample_ring_element_cbd ::
    "nat \<Rightarrow> nat \<Rightarrow> nat \<Rightarrow> u8 list \<Rightarrow> u8 \<Rightarrow> ring_element list \<Rightarrow> u8 \<times> ring_element list" where
  "sample_ring_element_cbd K ETA2' LEN prf_input domain_separator error_1 =
     (let prf_inputs = replicate K prf_input;
          (domain_separator, prf_inputs) = prf_input_inc K prf_inputs domain_separator;
          prf_outputs = PRFxN K LEN prf_inputs;
          error_1 = for_loop 0 K (\<lambda>i error_1. error_1[i := sample_from_binomial_distribution ETA2' (prf_outputs ! i)]) error_1
      in (domain_separator, error_1))"

definition compute_vector_u ::
    "nat \<Rightarrow> ring_element list list \<Rightarrow> ring_element list \<Rightarrow> ring_element list \<Rightarrow> ring_element list" where
  "compute_vector_u K a_as_ntt r_as_ntt error_1 =
     for_loop 0 K (\<lambda>i result.
         let result = for_loop 0 K (\<lambda>j result.
               result[i := add_to_ring_element (result ! i) (ntt_multiply (a_as_ntt ! i ! j) (r_as_ntt ! j))]) result;
             result = result[i := invert_ntt_montgomery (result ! i)]
         in result[i := add_error_reduce (result ! i) (error_1 ! i)]) (replicate K ZERO_d6)"

definition compress_then_serialize_u :: "mlkem_params \<Rightarrow> ring_element list \<Rightarrow> u8 list \<Rightarrow> u8 list" where
  "compress_then_serialize_u p input out =
     for_loop 0 (RANK p) (\<lambda>i out.
         slice_copy out (i * (C1_SIZE p div RANK p))
           (compress_then_serialize_ring_element_u (VECTOR_U_COMPRESSION_FACTOR p) (input ! i))) out"

definition encrypt_c1 ::
    "mlkem_params \<Rightarrow> u8 list \<Rightarrow> ring_element list list \<Rightarrow> u8 list \<Rightarrow> (ring_element list \<times> ring_element) \<times> u8 list" where
  "encrypt_c1 p randomness matrix ciphertext =
     (let prf_input = into_padded_array 33 randomness;
          (domain_separator0, r_as_ntt) =
            sample_vector_cbd_then_ntt (RANK p) (ETA1 p) (ETA1_RANDOMNESS_SIZE p) (replicate (RANK p) ZERO_d6) prf_input 0;
          (domain_separator, error_1) =
            sample_ring_element_cbd (RANK p) (ETA2 p) (ETA2_RANDOMNESS_SIZE p) prf_input domain_separator0 (replicate (RANK p) ZERO_d6);
          prf_input = prf_input[32 := domain_separator];
          prf_output = PRF (ETA2_RANDOMNESS_SIZE p) prf_input;
          error_2 = sample_from_binomial_distribution (ETA2 p) prf_output;
          u = compute_vector_u (RANK p) matrix r_as_ntt error_1
      in ((r_as_ntt, error_2), compress_then_serialize_u p u ciphertext))"

definition compute_ring_element_v ::
    "nat \<Rightarrow> ring_element list \<Rightarrow> ring_element list \<Rightarrow> ring_element \<Rightarrow> ring_element \<Rightarrow> ring_element" where
  "compute_ring_element_v K t r_as_ntt error_2 message =
     (let result = for_loop 0 K (\<lambda>i result. add_to_ring_element result (ntt_multiply (t ! i) (r_as_ntt ! i))) ZERO_d6;
          result = invert_ntt_montgomery result
      in add_message_error_reduce error_2 message result)"

definition encrypt_c2 ::
    "mlkem_params \<Rightarrow> ring_element list \<Rightarrow> ring_element list \<Rightarrow> ring_element \<Rightarrow> u8 list \<Rightarrow> u8 list \<Rightarrow> u8 list" where
  "encrypt_c2 p t r_as_ntt error_2 message ciphertext =
     (let message_as_ring_element = deserialize_then_decompress_message message;
          v = compute_ring_element_v (RANK p) t r_as_ntt error_2 message_as_ring_element
      in compress_then_serialize_ring_element_v (VECTOR_V_COMPRESSION_FACTOR p) v ciphertext)"

definition encrypt_unpacked :: "mlkem_params \<Rightarrow> ind_cpa_public_key \<Rightarrow> u8 list \<Rightarrow> u8 list \<Rightarrow> u8 list" where
  "encrypt_unpacked p public_key message randomness =
     (let ciphertext = replicate (CPA_PKE_CIPHERTEXT_SIZE p) 0;
          ((r_as_ntt, error_2), c1) = encrypt_c1 p randomness (matrix_A public_key) (subslice ciphertext 0 (C1_SIZE p));
          ciphertext = slice_copy ciphertext 0 c1;
          c2 = encrypt_c2 p (t_as_ntt public_key) r_as_ntt error_2 message (drop (C1_SIZE p) ciphertext)
      in slice_copy ciphertext (C1_SIZE p) c2)"

definition cpa_encrypt :: "mlkem_params \<Rightarrow> u8 list \<Rightarrow> u8 list \<Rightarrow> u8 list \<Rightarrow> u8 list option" where
  "cpa_encrypt p public_key message randomness =
     Option.bind (build_unpacked_public_key p public_key)
       (\<lambda>unpacked_public_key. Some (encrypt_unpacked p unpacked_public_key message randomness))"

subsection \<open>Decryption\<close>

definition deserialize_then_decompress_u :: "mlkem_params \<Rightarrow> u8 list \<Rightarrow> ring_element list" where
  "deserialize_then_decompress_u p ciphertext =
     (let n = COEFFICIENTS_IN_RING_ELEMENT * VECTOR_U_COMPRESSION_FACTOR p div 8
      in for_loop 0 (CPA_PKE_CIPHERTEXT_SIZE p div n) (\<lambda>i u_as_ntt.
           let u_bytes = subslice ciphertext (i * n) (i * n + n);
               u_as_ntt = u_as_ntt[i := deserialize_then_decompress_ring_element_u (VECTOR_U_COMPRESSION_FACTOR p) u_bytes]
           in u_as_ntt[i := ntt_vector_u (u_as_ntt ! i)]) (replicate (RANK p) ZERO_d6))"

definition compute_message :: "nat \<Rightarrow> ring_element \<Rightarrow> ring_element list \<Rightarrow> ring_element list \<Rightarrow> ring_element" where
  "compute_message K v secret_as_ntt u_as_ntt =
     (let result = for_loop 0 K (\<lambda>i result. add_to_ring_element result (ntt_multiply (secret_as_ntt ! i) (u_as_ntt ! i))) ZERO_d6;
          result = invert_ntt_montgomery result
      in subtract_reduce v result)"

definition decrypt_unpacked :: "mlkem_params \<Rightarrow> ind_cpa_private_key \<Rightarrow> u8 list \<Rightarrow> u8 list" where
  "decrypt_unpacked p secret_key ciphertext =
     (let u_as_ntt = deserialize_then_decompress_u p ciphertext;
          v = deserialize_then_decompress_ring_element_v (VECTOR_V_COMPRESSION_FACTOR p) (drop (C1_SIZE p) ciphertext);
          message = compute_message (RANK p) v secret_key u_as_ntt
      in compress_then_serialize_message message)"

definition cpa_decrypt :: "mlkem_params \<Rightarrow> u8 list \<Rightarrow> u8 list \<Rightarrow> u8 list" where
  "cpa_decrypt p secret_key ciphertext =
     (let secret_key_unpacked = deserialize_vector (RANK p) secret_key (replicate (RANK p) ZERO_d6)
      in decrypt_unpacked p secret_key_unpacked ciphertext)"

subsection \<open>What the parameter sets have in common\<close>

locale valid_params =
  fixes p :: mlkem_params
  assumes rank: "2 \<le> RANK p" "RANK p \<le> 4"
    and eta1: "ETA1 p = 2 \<or> ETA1 p = 3"
    and eta2: "ETA2 p = 2"
    and du: "VECTOR_U_COMPRESSION_FACTOR p = 10 \<or> VECTOR_U_COMPRESSION_FACTOR p = 11"
    and dv: "VECTOR_V_COMPRESSION_FACTOR p = 4 \<or> VECTOR_V_COMPRESSION_FACTOR p = 5"
begin

lemma sizes:
  "C1_BLOCK_SIZE p = 32 * VECTOR_U_COMPRESSION_FACTOR p"
  "C1_SIZE p = 32 * VECTOR_U_COMPRESSION_FACTOR p * RANK p"
  "C2_SIZE p = 32 * VECTOR_V_COMPRESSION_FACTOR p"
  "CPA_PKE_CIPHERTEXT_SIZE p = 32 * VECTOR_U_COMPRESSION_FACTOR p * RANK p + 32 * VECTOR_V_COMPRESSION_FACTOR p"
  "T_AS_NTT_ENCODED_SIZE p = 384 * RANK p"
  "CPA_PKE_PUBLIC_KEY_SIZE p = 384 * RANK p + 32"
  "CPA_PKE_SECRET_KEY_SIZE p = 384 * RANK p"
  "ranked_bytes_per_ring_element (RANK p) = 384 * RANK p"
  "ETA1_RANDOMNESS_SIZE p = 64 * ETA1 p"
  "ETA2_RANDOMNESS_SIZE p = 64 * ETA2 p"
  by (simp_all add: C1_BLOCK_SIZE_def C1_SIZE_def C2_SIZE_def CPA_PKE_CIPHERTEXT_SIZE_def T_AS_NTT_ENCODED_SIZE_def
      CPA_PKE_PUBLIC_KEY_SIZE_def CPA_PKE_SECRET_KEY_SIZE_def ranked_bytes_per_ring_element_def ETA1_RANDOMNESS_SIZE_def
      ETA2_RANDOMNESS_SIZE_def BITS_PER_COEFFICIENT_def BITS_PER_RING_ELEMENT_def COEFFICIENTS_IN_RING_ELEMENT_def)

text \<open>The loop of \<open>deserialize_then_decompress_u\<close> runs once per ring element: \<open>v\<close> is shorter than one more block.\<close>

lemma ciphertext_blocks: "CPA_PKE_CIPHERTEXT_SIZE p div (32 * VECTOR_U_COMPRESSION_FACTOR p) = RANK p"
  using du dv unfolding sizes by auto

lemma rank_pos: "0 < RANK p"
  using rank(1) by simp

end

interpretation params_512: valid_params mlkem512
  by unfold_locales (simp_all add: mlkem512_def)

interpretation params_768: valid_params mlkem768
  by unfold_locales (simp_all add: mlkem768_def)

interpretation params_1024: valid_params mlkem1024
  by unfold_locales (simp_all add: mlkem1024_def)

lemma all_params_valid: "p \<in> set all_params \<Longrightarrow> valid_params p"
  by (auto simp: all_params_def params_512.valid_params_axioms params_768.valid_params_axioms params_1024.valid_params_axioms)

lemma BYTES_PER_RING_ELEMENT_eq [simp]: "BYTES_PER_RING_ELEMENT = 384"
  by (simp add: BYTES_PER_RING_ELEMENT_def BITS_PER_RING_ELEMENT_def COEFFICIENTS_IN_RING_ELEMENT_def)

subsection \<open>Encodings of vectors\<close>

lemma into_padded_array_eq: "length xs \<le> LEN \<Longrightarrow> into_padded_array LEN xs = xs @ replicate (LEN - length xs) 0"
  by (simp add: into_padded_array_def slice_copy_def)

lemma serialize_vector_eq:
  assumes "\<And>i. i < K \<Longrightarrow> ring_bounded 3328 (key ! i)" and "length out = 384 * K"
  shows "serialize_vector K key out = concat (map (\<lambda>i. serialize_uncompressed_ring_element (key ! i)) [0..<K])"
proof -
  show ?thesis
    using uncompressed_codec(1) [OF assms(1)] for_loop_blocks [of K "\<lambda>i. serialize_uncompressed_ring_element (key ! i)" 384 out] assms(2)
    by (simp add: serialize_vector_def mult.commute)
qed

lemma deserialize_vector_eq:
  assumes "length bs = 384 * K" and "length init = K"
  shows "deserialize_vector K bs init = map deserialize_to_uncompressed_ring_element (chunks 384 bs)"
  using for_loop_from_chunks [of bs K 384 init deserialize_to_uncompressed_ring_element] assms
  by (simp add: deserialize_vector_def mult.commute add.commute)

lemma deserialize_ring_elements_reduced_eq:
  assumes "length bs = 384 * K" and "length init = K"
  shows "deserialize_ring_elements_reduced bs init = map deserialize_to_reduced_ring_element (chunks 384 bs)"
  using for_loop_from_chunks [of bs K 384 init deserialize_to_reduced_ring_element] assms
  by (simp add: deserialize_ring_elements_reduced_def mult.commute)

lemma length_serialized_vector:
  "(\<And>i. i < K \<Longrightarrow> ring_bounded 3328 (key ! i)) \<Longrightarrow>
   length (concat (map (\<lambda>i. serialize_uncompressed_ring_element (key ! i)) [0..<K])) = 384 * K"
  using length_concat_blocks [of K "\<lambda>i. serialize_uncompressed_ring_element (key ! i)" 384] uncompressed_codec(1)
  by (simp add: mult.commute)

lemma chunks_serialized_vector:
  "(\<And>i. i < K \<Longrightarrow> ring_bounded 3328 (key ! i)) \<Longrightarrow>
   chunks 384 (concat (map (\<lambda>i. serialize_uncompressed_ring_element (key ! i)) [0..<K]))
     = map (\<lambda>i. serialize_uncompressed_ring_element (key ! i)) [0..<K]"
  by (rule chunks_concat) (simp_all add: uncompressed_codec(1))

context valid_params
begin

lemma serialize_public_key_eq:
  assumes "\<And>i. i < RANK p \<Longrightarrow> ring_bounded 3328 (t ! i)" and "length seed = 32"
  shows "serialize_public_key p t seed = concat (map (\<lambda>i. serialize_uncompressed_ring_element (t ! i)) [0..<RANK p]) @ seed"
proof -
  note l = length_serialized_vector [OF assms(1)]
  show ?thesis
    using assms(2) l serialize_vector_eq [OF assms(1), of "RANK p" "replicate (384 * RANK p) 0"]
    by (simp add: serialize_public_key_def serialize_public_key_mut_def sizes subslice_def slice_copy_def min_def Let_def)
qed

end

subsection \<open>Sampling the matrix\<close>

text \<open>The entry of the matrix that the standard derives from the seed and the two indices appended to it.\<close>

definition matrix_entry :: "u8 list \<Rightarrow> nat \<Rightarrow> nat \<Rightarrow> ring_element option" where
  "matrix_entry seed i j = map_option from_i16_array_d6 (sample_ntt (shake128_stream (seed[32 := of_nat i, 33 := of_nat j])))"

definition entries_exist :: "nat \<Rightarrow> u8 list \<Rightarrow> bool" where
  "entries_exist K seed = list_all (\<lambda>i. list_all (\<lambda>j. matrix_entry seed i j \<noteq> None) [0..<K]) [0..<K]"

lemma sample_row:
  assumes "length seed = 34"
  shows "sample_from_xof K (for_loop 0 K (\<lambda>j seeds. seeds[j := (seeds ! j)[32 := of_nat i, 33 := of_nat j]]) (replicate K seed))
    = (if list_all (\<lambda>j. matrix_entry seed i j \<noteq> None) [0..<K] then Some (map (\<lambda>j. the (matrix_entry seed i j)) [0..<K]) else None)"
proof -
  have "for_loop 0 K (\<lambda>j seeds. seeds[j := (seeds ! j)[32 := of_nat i, 33 := of_nat j]]) (replicate K seed)
      = map (\<lambda>j. seed[32 := of_nat i, 33 := of_nat j]) [0..<K]"
    by (simp add: for_loop_update [where f = "\<lambda>j s. s[32 := of_nat i, 33 := of_nat j]"])
  then have r: "sample_from_xof K (for_loop 0 K (\<lambda>j seeds. seeds[j := (seeds ! j)[32 := of_nat i, 33 := of_nat j]]) (replicate K seed))
      = those (map (matrix_entry seed i) [0..<K])"
    using assms by (simp only:) (subst sample_from_xof_eq, auto simp: matrix_entry_def [abs_def] comp_def)
  show ?thesis
  proof (cases "list_all (\<lambda>j. matrix_entry seed i j \<noteq> None) [0..<K]")
    case True
    then have "those (map (matrix_entry seed i) [0..<K]) = Some (map (\<lambda>j. the (matrix_entry seed i j)) [0..<K])"
      by (intro those_map_Some) (auto simp: list_all_iff)
    then show ?thesis using True r by simp
  next
    case False
    then obtain j where "j \<in> set [0..<K]" "matrix_entry seed i j = None" by (auto simp: list_all_iff)
    from those_map_None [of j "[0..<K]" "matrix_entry seed i", OF this] show ?thesis using False r by simp
  qed
qed

definition matrix_shape :: "nat \<Rightarrow> 'a list list \<Rightarrow> bool" where
  "matrix_shape K A \<longleftrightarrow> length A = K \<and> list_all (\<lambda>r. length r = K) A"

text \<open>Storing a row, or a column, of the matrix.\<close>

lemma store_row_cells:
  assumes "matrix_shape K A" and "i < K" and "length row = K"
  shows "for_loop 0 K (\<lambda>j A. A[i := (A ! i)[j := row ! j]]) A = A[i := row]"
proof -
  have A: "length A = K" "length (A ! i) = K" using assms(1,2) by (auto simp: matrix_shape_def list_all_length)
  have "for_loop 0 n (\<lambda>j A. A[i := (A ! i)[j := row ! j]]) A = A[i := take n row @ drop n (A ! i)]" if "n \<le> K" for n
    using that
  proof (induction n)
    case (Suc n)
    have "drop n (A ! i) = A ! i ! n # drop (Suc n) (A ! i)" using Suc.prems A by (simp add: Cons_nth_drop_Suc)
    then show ?case using Suc A assms by (simp add: for_loop_last list_update_append take_Suc_conv_app_nth)
  qed (use A assms(2) in simp)
  from this [of K] show ?thesis using assms A by simp
qed

lemma store_column_cells:
  assumes "matrix_shape K A" and "i < K" and "length col = K"
  shows "for_loop 0 K (\<lambda>j A. A[j := (A ! j)[i := col ! j]]) A = map2 (\<lambda>r c. r[i := c]) A col"
  using assms for_loop_update [of K A "\<lambda>j r. r[i := col ! j]"]
  by (intro nth_equalityI) (simp_all add: matrix_shape_def)

lemma sample_matrix_A_eq:
  assumes "matrix_shape K A" and "length seed = 34"
  shows "sample_matrix_A K A seed transposed = (if entries_exist K seed
      then Some (map (\<lambda>i. map (\<lambda>j. the (if transposed then matrix_entry seed j i else matrix_entry seed i j)) [0..<K]) [0..<K])
      else None)"
proof -
  let ?row = "\<lambda>i. map (\<lambda>j. the (matrix_entry seed i j)) [0..<K]"
  let ?ok = "\<lambda>n. list_all (\<lambda>i. list_all (\<lambda>j. matrix_entry seed i j \<noteq> None) [0..<K]) [0..<n]"
  define body where "body i A = Option.bind (if list_all (\<lambda>j. matrix_entry seed i j \<noteq> None) [0..<K] then Some (?row i) else None)
      (\<lambda>sampled. Some (for_loop 0 K (\<lambda>j A. if transposed then A[j := (A ! j)[i := sampled ! j]] else A[i := (A ! i)[j := sampled ! j]]) A))" for i A
  define M where "M n i j = (if transposed then (if j < n then the (matrix_entry seed j i) else A ! i ! j)
      else (if i < n then the (matrix_entry seed i j) else A ! i ! j))" for n i j
  have shape: "matrix_shape K (map (\<lambda>i. map (\<lambda>j. M n i j) [0..<K]) [0..<K])" for n by (simp add: matrix_shape_def list_all_iff)
  have "for_option 0 n body A = (if ?ok n then Some (map (\<lambda>i. map (\<lambda>j. M n i j) [0..<K]) [0..<K]) else None)" if "n \<le> K" for n
    using that
  proof (induction n)
    case 0
    have "A = map (\<lambda>i. map (\<lambda>j. A ! i ! j) [0..<K]) [0..<K]"
      using assms(1) by (intro nth_equalityI) (auto simp: matrix_shape_def list_all_length intro!: nth_equalityI)
    moreover have "M 0 i = (!) (A ! i)" for i by (simp add: M_def fun_eq_iff)
    ultimately show ?case by (simp add: for_option_def)
  next
    case (Suc n)
    have step: "for_loop 0 K (\<lambda>j A. if transposed then A[j := (A ! j)[n := ?row n ! j]] else A[n := (A ! n)[j := ?row n ! j]])
        (map (\<lambda>i. map (\<lambda>j. M n i j) [0..<K]) [0..<K]) = map (\<lambda>i. map (\<lambda>j. M (Suc n) i j) [0..<K]) [0..<K]"
    proof (cases transposed)
      case True
      then show ?thesis using store_column_cells [OF shape, of n "?row n" n] Suc.prems
        by (auto simp: M_def nth_list_update intro!: nth_equalityI)
    next
      case False
      then show ?thesis using store_row_cells [OF shape, of n "?row n" n] Suc.prems
        by (auto simp: M_def nth_list_update intro!: nth_equalityI)
    qed
    have b: "body n (map (\<lambda>i. map (\<lambda>j. M n i j) [0..<K]) [0..<K])
        = (if list_all (\<lambda>j. matrix_entry seed n j \<noteq> None) [0..<K] then Some (map (\<lambda>i. map (\<lambda>j. M (Suc n) i j) [0..<K]) [0..<K]) else None)"
      unfolding body_def using step by simp
    have "?ok (Suc n) \<longleftrightarrow> ?ok n \<and> list_all (\<lambda>j. matrix_entry seed n j \<noteq> None) [0..<K]" by simp
    then show ?case using Suc b by (simp add: for_option_last del: upt_Suc)
  qed
  from this [of K] have "for_option 0 K body A = (if entries_exist K seed then Some (map (\<lambda>i. map (\<lambda>j. M K i j) [0..<K]) [0..<K]) else None)"
    by (simp add: entries_exist_def)
  moreover have "sample_matrix_A K A seed transposed = for_option 0 K body A"
    unfolding sample_matrix_A_def Let_def sample_row [OF assms(2)] body_def ..
  moreover have "map (\<lambda>i. map (\<lambda>j. M K i j) [0..<K]) [0..<K]
      = map (\<lambda>i. map (\<lambda>j. the (if transposed then matrix_entry seed j i else matrix_entry seed i j)) [0..<K]) [0..<K]"
    by (auto simp: M_def)
  ultimately show ?thesis by simp
qed

end
