(* ===== verification/MLKEM_Module.thy ===== *)
theory MLKEM_Module
  imports MLKEM_Ring
begin

section \<open>The ring of transformed polynomials\<close>

text \<open>
  Lists of 256 field elements as a type, \<open>fpoly\<close>, with the sum of the field and the product of the transformed
  domain (\<open>multiply_ntts\<close>): a commutative ring, so that the sums of products of the scheme can be
  rearranged with the library's lemmas. The transforms are additive bijections of this type.
  The abstraction \<open>poly_of\<close> maps a ring element of the code, whose coefficients are 16-bit
  representatives, to its element of \<open>fpoly\<close>.
\<close>

subsection \<open>The transforms are additive\<close>

lemma zipq_nth: "i < length p \<Longrightarrow> i < length r \<Longrightarrow> zipq F p r ! i = F (p ! i) (r ! i) mod 3329"
  by (simp add: zipq_def)

lemma length_zipq [simp]: "length (zipq F p r) = min (length p) (length r)"
  by (simp add: zipq_def)

lemma layer_map_add:
  assumes "length p = 256" and "length r = 256" and n: "256 = k * (2 * len)"
    and "\<And>i a b a' b'. f i ((a + a') mod 3329) ((b + b') mod 3329) = (f i a b + f i a' b') mod 3329"
    and "\<And>i a b a' b'. g i ((a + a') mod 3329) ((b + b') mod 3329) = (g i a b + g i a' b') mod 3329"
  shows "layer_map 256 len f g (zipq (+) p r) = zipq (+) (layer_map 256 len f g p) (layer_map 256 len f g r)"
proof (rule nth_equalityI)
  fix i assume "i < length (layer_map 256 len f g (zipq (+) p r))"
  then have i: "i < 256" by simp
  have "i + len < 256" if "i mod (2 * len) < len"
    using block_start_below [OF that, of k] i unfolding n .
  then show "layer_map 256 len f g (zipq (+) p r) ! i = zipq (+) (layer_map 256 len f g p) (layer_map 256 len f g r) ! i"
    using i assms(1,2) by (auto simp: layer_map_nth [OF i n] zipq_nth assms(4,5))
qed simp

lemma mod_mult_inner:
  "(u + z * (x mod 3329)) mod 3329 = (u + z * x) mod 3329" "(u - z * (x mod 3329)) mod 3329 = (u - z * x) mod 3329"
  "(z * (x mod 3329 - y mod 3329)) mod 3329 = (z * (x - y)) mod 3329" for u x y z :: int
  by (metis mod_add_right_eq mod_mult_right_eq, metis mod_diff_right_eq mod_mult_right_eq, metis mod_diff_eq mod_mult_right_eq)

lemma mod_add_linear:
  "((a + a') mod 3329 + (b + b') mod 3329) mod 3329 = ((a + b) mod 3329 + (a' + b') mod 3329) mod 3329"
  "(z * ((b + b') mod 3329 - (a + a') mod 3329)) mod 3329 = ((z * (b - a)) mod 3329 + (z * (b' - a')) mod 3329) mod 3329"
  "((a + a') mod 3329 + z * ((b + b') mod 3329)) mod 3329 = ((a + z * b) mod 3329 + (a' + z * b') mod 3329) mod 3329"
  "((a + a') mod 3329 - z * ((b + b') mod 3329)) mod 3329 = ((a - z * b) mod 3329 + (a' - z * b') mod 3329) mod 3329"
  for a a' b b' z :: int
  by (simp_all only: mod_simps mod_mult_inner) (simp_all only: algebra_simps)

lemma layers_add:
  assumes "length p = 256" and "length r = 256" and "len \<in> {2, 4, 8, 16, 32, 64, 128}"
  shows "inverse_ntt_layer len (zipq (+) p r) = zipq (+) (inverse_ntt_layer len p) (inverse_ntt_layer len r)"
    and "ntt_layer len (zipq (+) p r) = zipq (+) (ntt_layer len p) (ntt_layer len r)"
proof -
  have n: "256 = (128 div len) * (2 * len)" using assms(3) by auto
  show "inverse_ntt_layer len (zipq (+) p r) = zipq (+) (inverse_ntt_layer len p) (inverse_ntt_layer len r)"
    and "ntt_layer len (zipq (+) p r) = zipq (+) (ntt_layer len p) (ntt_layer len r)"
    unfolding inverse_ntt_layer_def ntt_layer_def by (intro layer_map_add [OF assms(1,2) n]; simp only: mod_add_linear)+
qed

lemma NTT_add: "length p = 256 \<Longrightarrow> length r = 256 \<Longrightarrow> NTT (zipq (+) p r) = zipq (+) (NTT p) (NTT r)"
  by (simp add: NTT_def layers_add)

lemma scaleq_add: "length p = length r \<Longrightarrow> scaleq c (zipq (+) p r) = zipq (+) (scaleq c p) (scaleq c r)"
  by (rule nth_equalityI) (simp_all add: scaleq_def zipq_nth mod_simps algebra_simps)

lemma NTT_inverse_add:
  "length p = 256 \<Longrightarrow> length r = 256 \<Longrightarrow> NTT_inverse (zipq (+) p r) = zipq (+) (NTT_inverse p) (NTT_inverse r)"
  by (simp add: NTT_inverse_scaleq NTT_inverse_unscaled_def layers_add scaleq_add)

lemma field_list_zipq: "length p = 256 \<Longrightarrow> length r = 256 \<Longrightarrow> field_list (zipq F p r)"
  by (auto simp: field_list_def zipq_def list_all_iff in_field_def)

lemma field_list_modq: "length p = 256 \<Longrightarrow> field_list (modq p)"
  by (auto simp: field_list_def modq_def list_all_iff in_field_def)

lemma field_list_scaleq: "length p = 256 \<Longrightarrow> field_list (scaleq c p)"
  by (auto simp: field_list_def scaleq_def list_all_iff in_field_def)

lemma length_NTT [simp]: "length (NTT p) = 256" "length (NTT_inverse p) = 256"
  by (simp_all add: NTT_def NTT_inverse_scaleq NTT_inverse_unscaled_def)

lemma field_list_NTT: "field_list (NTT_inverse p)" "field_list (NTT p)"
proof -
  show "field_list (NTT_inverse p)" by (simp add: NTT_inverse_scaleq field_list_scaleq)
  show "field_list (NTT p)"
    using ntt_layer_mod [of _ 2]
    by (auto simp: field_list_def NTT_def list_all_length in_field_def) (metis pos_mod_sign zero_less_numeral, metis pos_mod_bound zero_less_numeral)
qed

subsection \<open>The type\<close>

text \<open>Products of binomials modulo \<open>X^2 - z\<close>: both coefficients are distributive and associative.\<close>

lemma binomial_mod_inner:
  "(x mod 3329 * c + u) mod 3329 = (x * c + u) mod 3329" "(c * (x mod 3329) + u) mod 3329 = (c * x + u) mod 3329"
  "(u + z * (x mod 3329 * c)) mod 3329 = (u + z * (x * c)) mod 3329" "(u + z * (c * (x mod 3329))) mod 3329 = (u + z * (c * x)) mod 3329"
  "(u + x mod 3329 * c) mod 3329 = (u + x * c) mod 3329" "(u + c * (x mod 3329)) mod 3329 = (u + c * x) mod 3329"
  for x c u z :: int
  unfolding cong_q_def [symmetric] by (intro cong_q_add cong_q_mult cong_q_refl cong_q_mod)+

lemma binomial_commute:
  "(a0 * b0 + z * (a1 * b1)) mod 3329 = (b0 * a0 + z * (b1 * a1)) mod 3329"
  "(a0 * b1 + a1 * b0) mod 3329 = (b0 * a1 + b1 * a0) mod 3329" for a0 :: int
  by (simp_all only: ac_simps)

lemma binomial_distrib:
  "((a0 + b0) mod 3329 * c0 + z * ((a1 + b1) mod 3329 * c1)) mod 3329
   = ((a0 * c0 + z * (a1 * c1)) mod 3329 + (b0 * c0 + z * (b1 * c1)) mod 3329) mod 3329" for a0 :: int
  unfolding binomial_mod_inner mod_add_eq by (simp only: algebra_simps)

lemma binomial_distrib_hi:
  "((a0 + b0) mod 3329 * c1 + (a1 + b1) mod 3329 * c0) mod 3329
   = ((a0 * c1 + a1 * c0) mod 3329 + (b0 * c1 + b1 * c0) mod 3329) mod 3329" for a0 :: int
  unfolding binomial_mod_inner mod_add_eq by (simp only: algebra_simps)

lemma binomial_assoc:
  "((a0 * b0 + z * (a1 * b1)) mod 3329 * c0 + z * ((a0 * b1 + a1 * b0) mod 3329 * c1)) mod 3329
   = (a0 * ((b0 * c0 + z * (b1 * c1)) mod 3329) + z * (a1 * ((b0 * c1 + b1 * c0) mod 3329))) mod 3329" for a0 :: int
  unfolding binomial_mod_inner by (simp only: algebra_simps)

lemma binomial_assoc_hi:
  "((a0 * b0 + z * (a1 * b1)) mod 3329 * c1 + (a0 * b1 + a1 * b0) mod 3329 * c0) mod 3329
   = (a0 * ((b0 * c1 + b1 * c0) mod 3329) + a1 * ((b0 * c0 + z * (b1 * c1)) mod 3329)) mod 3329" for a0 :: int
  unfolding binomial_mod_inner by (simp only: algebra_simps)


typedef fpoly = "{p. field_list p}" morphisms list_of_fpoly fpoly_of_list
  by (rule exI [of _ "modq (replicate 256 0)"]) (simp add: field_list_modq)

setup_lifting type_definition_fpoly

instantiation fpoly :: comm_ring
begin

lift_definition zero_fpoly :: fpoly is "replicate 256 0"
  by (simp add: field_list_def in_field_def list_all_iff)

lift_definition plus_fpoly :: "fpoly \<Rightarrow> fpoly \<Rightarrow> fpoly" is "zipq (+)"
  by (simp add: field_list_zipq field_list_def [THEN iffD1, THEN conjunct1])

lift_definition minus_fpoly :: "fpoly \<Rightarrow> fpoly \<Rightarrow> fpoly" is "zipq (-)"
  by (simp add: field_list_zipq field_list_def [THEN iffD1, THEN conjunct1])

lift_definition uminus_fpoly :: "fpoly \<Rightarrow> fpoly" is "scaleq (- 1)"
  by (simp add: field_list_scaleq field_list_def [THEN iffD1, THEN conjunct1])

lift_definition times_fpoly :: "fpoly \<Rightarrow> fpoly \<Rightarrow> fpoly" is multiply_ntts
  by (simp add: multiply_ntts_def field_list_block_mul)

instance proof
  have len: "field_list p \<Longrightarrow> length p = 256" for p by (simp add: field_list_def)
  have fld: "field_list p \<Longrightarrow> i < 256 \<Longrightarrow> p ! i mod 3329 = p ! i" for p i
    by (simp add: field_list_def list_all_length in_field_def)
  fix a b c :: fpoly
  show "a + b + c = a + (b + c)"
    by (transfer, rule nth_equalityI) (simp_all add: len zipq_nth mod_simps add.assoc)
  show "a + b = b + a" by (transfer, rule nth_equalityI) (simp_all add: len zipq_nth add.commute)
  show "0 + a = a" by (transfer, rule nth_equalityI) (simp_all add: len zipq_nth fld)
  show "- a + a = 0" by (transfer, rule nth_equalityI) (simp_all add: len zipq_nth scaleq_def mod_simps)
  show "a - b = a + - b" by (transfer, rule nth_equalityI) (simp_all add: len zipq_nth scaleq_def mod_simps)
  show "a * b = b * a"
  proof (transfer, rule nth_equalityI)
    fix a b i assume "i < length (multiply_ntts a b)"
    then have "i < 256" by simp
    then show "multiply_ntts a b ! i = multiply_ntts b a ! i"
      by (cases i rule: even_odd_index) (metis multiply_ntts_nth binomial_commute)+
  qed simp
  show "(a + b) * c = a * c + b * c"
  proof (transfer, rule nth_equalityI)
    fix a b c i assume "field_list a" "field_list b" "field_list c" "i < length (multiply_ntts (zipq (+) a b) c)"
    then have "i < 256" by simp
    then show "multiply_ntts (zipq (+) a b) c ! i = zipq (+) (multiply_ntts a c) (multiply_ntts b c) ! i"
      using \<open>field_list a\<close> \<open>field_list b\<close>
      by (cases i rule: even_odd_index) (simp_all add: multiply_ntts_nth zipq_nth len binomial_distrib binomial_distrib_hi del: One_nat_def add_Suc_right)
  qed simp
  show "a * b * c = a * (b * c)"
  proof (transfer, rule nth_equalityI)
    fix a b c i assume "field_list a" "field_list b" "field_list c" "i < length (multiply_ntts (multiply_ntts a b) c)"
    then have "i < 256" by simp
    then show "multiply_ntts (multiply_ntts a b) c ! i = multiply_ntts a (multiply_ntts b c) ! i"
      by (cases i rule: even_odd_index) (simp_all add: multiply_ntts_nth binomial_assoc binomial_assoc_hi del: One_nat_def add_Suc_right)
  qed simp
qed

end

subsection \<open>Transforms and scaling\<close>

lift_definition ntt_fpoly :: "fpoly \<Rightarrow> fpoly" is NTT
  by (rule field_list_NTT)

lift_definition inv_fpoly :: "fpoly \<Rightarrow> fpoly" is NTT_inverse
  by (rule field_list_NTT)

lift_definition scale_fpoly :: "int \<Rightarrow> fpoly \<Rightarrow> fpoly" is scaleq
  by (simp add: field_list_scaleq field_list_def [THEN iffD1, THEN conjunct1])

lift_definition mul_fpoly :: "fpoly \<Rightarrow> fpoly \<Rightarrow> fpoly" is ring_mul
  by (simp add: ring_mul_def field_list_block_mul)

lemma field_list_length: "field_list p \<Longrightarrow> length p = 256"
  by (simp add: field_list_def)

lemma ntt_inv [simp]: "ntt_fpoly (inv_fpoly p) = p" "inv_fpoly (ntt_fpoly p) = p"
  by (transfer, simp add: NTT_inverses)+

lemma ntt_add: "ntt_fpoly (p + r) = ntt_fpoly p + ntt_fpoly r"
  by transfer (simp add: NTT_add field_list_length)

lemma inv_add: "inv_fpoly (p + r) = inv_fpoly p + inv_fpoly r"
  by transfer (simp add: NTT_inverse_add field_list_length)

lemma inv_minus: "inv_fpoly (p - r) = inv_fpoly p - inv_fpoly r"
  using inv_add [of "p - r" r] by (simp add: algebra_simps)

lemma inv_zero [simp]: "inv_fpoly 0 = 0"
  using inv_add [of 0 0] by simp

lemma ntt_zero [simp]: "ntt_fpoly 0 = 0"
  using ntt_add [of 0 0] by simp

lemma inv_sum: "inv_fpoly (\<Sum>i \<in> I. f i) = (\<Sum>i \<in> I. inv_fpoly (f i))"
  by (induction I rule: infinite_finite_induct) (simp_all add: inv_add)

lemma inv_mult: "inv_fpoly (ntt_fpoly a * ntt_fpoly b) = mul_fpoly a b"
  by transfer (rule NTT_inverse_multiply)

lemma scale_add: "scale_fpoly c (p + r) = scale_fpoly c p + scale_fpoly c r"
  by transfer (simp add: scaleq_add field_list_length)

lemma scale_scale: "scale_fpoly c (scale_fpoly d p) = scale_fpoly (c * d) p"
  by transfer (rule scaleq_scaleq)

lemma scale_one: "c mod 3329 = 1 \<Longrightarrow> scale_fpoly c p = p"
  by transfer (rule scaleq_one)

lemma scale_zero [simp]: "scale_fpoly c 0 = 0"
  using scale_add [of c 0 0] by simp

lemma scale_sum: "scale_fpoly c (\<Sum>i \<in> I. f i) = (\<Sum>i \<in> I. scale_fpoly c (f i))"
  by (induction I rule: infinite_finite_induct) (simp_all add: scale_add)

subsection \<open>The abstraction of ring elements\<close>

definition poly_of :: "ring_element \<Rightarrow> fpoly" where
  "poly_of re = fpoly_of_list (modq (coeffs re))"

lemma list_of_poly_of: "ring_ok re \<Longrightarrow> list_of_fpoly (poly_of re) = modq (coeffs re)"
  by (simp add: poly_of_def fpoly_of_list_inverse field_list_modq)

lemma poly_of_eqI:
  "ring_ok re \<Longrightarrow> modq (coeffs re) = list_of_fpoly p \<Longrightarrow> poly_of re = p"
  by (simp add: poly_of_def list_of_fpoly_inverse)

lemma poly_of_ZERO [simp]: "poly_of ZERO_d6 = 0"
proof (rule poly_of_eqI)
  have "coeffs ZERO_d6 = replicate 256 0"
    by (simp add: coeffs_def ZERO_d6_def vector_type_zero_def eval_nat_numeral)
  then show "modq (coeffs ZERO_d6) = list_of_fpoly 0" by (simp add: zero_fpoly.rep_eq modq_def)
qed simp

lemma ring_bounded_ZERO: "0 \<le> b \<Longrightarrow> ring_bounded b ZERO_d6"
  by (simp add: ring_bounded_def ZERO_d6_def vector_type_zero_def vec_bounded_def list_all_iff)

lemma list_of_fpoly_length [simp]: "length (list_of_fpoly p) = 256"
  using list_of_fpoly [of p] by (simp add: field_list_def)

lemma poly_of_add:
  assumes "ring_bounded b a" and "ring_bounded c d" and "0 \<le> b" and "b + c \<le> 32767"
  shows "poly_of (add_to_ring_element a d) = poly_of a + poly_of d" and "ring_bounded (b + c) (add_to_ring_element a d)"
proof -
  note op = add_to_ring_element_op [OF assms(3,4)]
  show "ring_bounded (b + c) (add_to_ring_element a d)" by (rule ring_op2.bounded [OF op assms(1,2)])
  then show "poly_of (add_to_ring_element a d) = poly_of a + poly_of d"
    using ring_op2.refines [OF op assms(1,2)] assms(1,2)
    by (intro poly_of_eqI) (simp_all add: ring_bounded_ok plus_fpoly.rep_eq list_of_poly_of)
qed

lemma poly_of_ntt_multiply:
  assumes "ring_bounded 4095 a" and "ring_bounded 4095 b"
  shows "poly_of (ntt_multiply a b) = scale_fpoly 169 (poly_of a * poly_of b)" and "ring_bounded 3328 (ntt_multiply a b)"
proof -
  note m = ntt_multiply_refines [OF assms]
  show "ring_bounded 3328 (ntt_multiply a b)" by (rule m(1))
  then show "poly_of (ntt_multiply a b) = scale_fpoly 169 (poly_of a * poly_of b)"
    using m(2) assms by (intro poly_of_eqI) (simp_all add: ring_bounded_ok scale_fpoly.rep_eq times_fpoly.rep_eq list_of_poly_of)
qed

text \<open>The accumulation of up to four products stays within 16 bits.\<close>

lemma product_loop:
  assumes "\<And>j. j < n \<Longrightarrow> ring_bounded 4095 (f j)" and "\<And>j. j < n \<Longrightarrow> ring_bounded 4095 (g j)" and "n \<le> 4"
  defines "acc \<equiv> for_loop 0 n (\<lambda>j acc. add_to_ring_element acc (ntt_multiply (f j) (g j))) ZERO_d6"
  shows "poly_of acc = scale_fpoly 169 (\<Sum>j < n. poly_of (f j) * poly_of (g j))" and "ring_bounded (3328 * int n) acc"
proof -
  have "poly_of acc = scale_fpoly 169 (\<Sum>j < n. poly_of (f j) * poly_of (g j)) \<and> ring_bounded (3328 * int n) acc"
    unfolding acc_def
  proof (rule for_loop_invariant)
    show "poly_of ZERO_d6 = scale_fpoly 169 (\<Sum>j < 0. poly_of (f j) * poly_of (g j)) \<and> ring_bounded (3328 * int 0) ZERO_d6"
      by (simp add: ring_bounded_ZERO)
  next
    fix i t assume i: "i < n" and t: "poly_of t = scale_fpoly 169 (\<Sum>j < i. poly_of (f j) * poly_of (g j)) \<and> ring_bounded (3328 * int i) t"
    note m = poly_of_ntt_multiply [OF assms(1,2) [OF i]]
    have "3328 * int i + 3328 \<le> 32767" using i assms(3) by simp
    note a = poly_of_add [OF conjunct2 [OF t] m(2) _ this]
    show "poly_of (add_to_ring_element t (ntt_multiply (f i) (g i))) = scale_fpoly 169 (\<Sum>j < Suc i. poly_of (f j) * poly_of (g j))
      \<and> ring_bounded (3328 * int (Suc i)) (add_to_ring_element t (ntt_multiply (f i) (g i)))"
      using a t m(1) by (simp add: scale_add add.commute)
  qed simp
  then show "poly_of acc = scale_fpoly 169 (\<Sum>j < n. poly_of (f j) * poly_of (g j))" "ring_bounded (3328 * int n) acc" by simp_all
qed

lemma poly_of_invert_add:
  assumes "ring_bounded 16383 t" and "poly_of t = scale_fpoly 169 X" and "ring_bounded 30000 e"
  shows "poly_of (add_error_reduce (invert_ntt_montgomery t) e) = inv_fpoly X + poly_of e"
    and "ring_bounded 1664 (add_error_reduce (invert_ntt_montgomery t) e)"
proof -
  have "modq (coeffs t) = scaleq 169 (list_of_fpoly X)"
    using assms(1,2) by (metis list_of_poly_of ring_bounded_ok scale_fpoly.rep_eq)
  note i = invert_then_add [OF assms(1) this _ assms(3)]
  show "ring_bounded 1664 (add_error_reduce (invert_ntt_montgomery t) e)" using i(2) by simp
  then show "poly_of (add_error_reduce (invert_ntt_montgomery t) e) = inv_fpoly X + poly_of e"
    using i(1) assms(3)
    by (intro poly_of_eqI) (simp_all add: ring_bounded_ok plus_fpoly.rep_eq inv_fpoly.rep_eq list_of_poly_of)
qed

lemma poly_of_invert_subtract:
  assumes "ring_bounded 16383 t" and "poly_of t = scale_fpoly 169 X" and "ring_bounded 30000 v"
  shows "poly_of (subtract_reduce v (invert_ntt_montgomery t)) = poly_of v - inv_fpoly X"
    and "ring_bounded 1664 (subtract_reduce v (invert_ntt_montgomery t))"
proof -
  have "modq (coeffs t) = scaleq 169 (list_of_fpoly X)"
    using assms(1,2) by (metis list_of_poly_of ring_bounded_ok scale_fpoly.rep_eq)
  note i = invert_then_subtract [OF assms(1) this _ assms(3)]
  show "ring_bounded 1664 (subtract_reduce v (invert_ntt_montgomery t))" using i(2) by simp
  then show "poly_of (subtract_reduce v (invert_ntt_montgomery t)) = poly_of v - inv_fpoly X"
    using i(1) assms(3)
    by (intro poly_of_eqI) (simp_all add: ring_bounded_ok minus_fpoly.rep_eq inv_fpoly.rep_eq list_of_poly_of)
qed

lemma poly_of_add_standard:
  assumes "ring_bounded 32767 t" and "poly_of t = scale_fpoly 169 X" and "ring_bounded 30000 e"
  shows "poly_of (add_standard_error_reduce t e) = X + poly_of e" and "ring_bounded 1664 (add_standard_error_reduce t e)"
proof -
  show b: "ring_bounded 1664 (add_standard_error_reduce t e)" by (rule add_standard_error.bounded [OF assms(1,3)])
  have "modq (coeffs (add_standard_error_reduce t e)) = zipq (+) (scaleq 2285 (modq (coeffs t))) (modq (coeffs e))"
    using add_standard_error.refines [OF assms(1,3)] assms(1,3) by (simp add: zipq_scale_left ring_bounded_ok)
  then have "poly_of (add_standard_error_reduce t e) = scale_fpoly 2285 (poly_of t) + poly_of e"
    using b assms(1,3) by (intro poly_of_eqI) (simp_all add: ring_bounded_ok plus_fpoly.rep_eq scale_fpoly.rep_eq list_of_poly_of)
  then show "poly_of (add_standard_error_reduce t e) = X + poly_of e" by (simp add: assms(2) scale_scale scale_one)
qed

lemma poly_of_ntt:
  "ring_bounded 3 re \<Longrightarrow> poly_of (ntt_binomially_sampled_ring_element re) = ntt_fpoly (poly_of re)"
  "ring_bounded 3328 re \<Longrightarrow> poly_of (ntt_vector_u re) = ntt_fpoly (poly_of re)"
  using ntt_binomially_sampled_refines [of re] ntt_vector_u_refines [of re]
  by (auto intro!: poly_of_eqI simp: ring_bounded_ok ntt_fpoly.rep_eq list_of_poly_of)

end
