(* ===== verification/MLKEM_IndCpaAlgebra.thy ===== *)
theory MLKEM_IndCpaAlgebra
  imports MLKEM_IndCpa MLKEM_Module
begin

section \<open>The linear algebra of K-PKE\<close>

text \<open>
  The functions of \<open>matrix\<close> in the source compute, over the ring \<open>fpoly\<close>, the products of the scheme:
  \<open>compute_As_plus_e\<close> the public key, \<open>compute_vector_u\<close> and \<open>compute_ring_element_v\<close> the two parts of a
  ciphertext, \<open>compute_message\<close> the noisy message. From these equations follows, by rearranging sums, what
  decryption recovers: the message plus a noise polynomial that is written out.
\<close>

subsection \<open>Loops that update one cell\<close>

lemma for_loop_cell:
  assumes "i < length t"
  shows "for_loop lo n (\<lambda>j t. t[i := f j (t ! i)]) t = t[i := for_loop lo n f (t ! i)]"
proof (induction n)
  case 0
  then show ?case by simp
next
  case (Suc n)
  then show ?case using assms by (cases "lo \<le> n") (simp_all add: for_loop_last)
qed

lemma for_loop_fill:
  assumes "length t = n" and "\<And>i t. i < n \<Longrightarrow> length t = n \<Longrightarrow> body i t = t[i := h i (t ! i)]"
  shows "for_loop 0 n body t = map (\<lambda>i. h i (t ! i)) [0..<n]"
proof -
  have "length (for_loop 0 k body t) = n \<and> for_loop 0 k body t = for_loop 0 k (\<lambda>i t. t[i := h i (t ! i)]) t" if "k \<le> n" for k
    using that
  proof (induction k)
    case (Suc k)
    let ?t = "for_loop 0 k (\<lambda>i t. t[i := h i (t ! i)]) t"
    have "length ?t = n" "for_loop 0 k body t = ?t" using Suc by auto
    then show ?case using assms(2) [of k ?t] Suc.prems by (simp add: for_loop_last)
  qed (simp add: assms(1))
  then have "for_loop 0 n body t = for_loop 0 n (\<lambda>i t. t[i := h i (t ! i)]) t" by blast
  then show ?thesis using assms(1) by (simp add: for_loop_update)
qed

subsection \<open>The products of the scheme\<close>

text \<open>The invariant on the vectors of the code: \<open>K\<close> ring elements within a bound.\<close>

definition vector_bounded :: "nat \<Rightarrow> int \<Rightarrow> ring_element list \<Rightarrow> bool" where
  "vector_bounded K b v \<longleftrightarrow> length v = K \<and> list_all (ring_bounded b) v"

definition matrix_bounded :: "nat \<Rightarrow> int \<Rightarrow> ring_element list list \<Rightarrow> bool" where
  "matrix_bounded K b A \<longleftrightarrow> length A = K \<and> list_all (vector_bounded K b) A"

lemma vector_bounded_nth: "vector_bounded K b v \<Longrightarrow> i < K \<Longrightarrow> ring_bounded b (v ! i)"
  by (simp add: vector_bounded_def list_all_length)

lemma vector_bounded_mono: "vector_bounded K b v \<Longrightarrow> b \<le> c \<Longrightarrow> vector_bounded K c v"
  by (auto simp: vector_bounded_def list_all_iff intro: ring_bounded_mono)

lemma matrix_bounded_nth: "matrix_bounded K b A \<Longrightarrow> i < K \<Longrightarrow> j < K \<Longrightarrow> ring_bounded b (A ! i ! j)"
  by (auto simp: matrix_bounded_def list_all_length intro: vector_bounded_nth)

lemma vector_bounded_map: "(\<And>i. i < K \<Longrightarrow> ring_bounded b (f i)) \<Longrightarrow> vector_bounded K b (map f [0..<K])"
  by (simp add: vector_bounded_def list_all_iff)

lemma row_product:
  assumes "K \<le> 4" and "vector_bounded K 4095 a" and "vector_bounded K 4095 b"
  defines "acc \<equiv> for_loop 0 K (\<lambda>j acc. add_to_ring_element acc (ntt_multiply (a ! j) (b ! j))) ZERO_d6"
  shows "poly_of acc = scale_fpoly 169 (\<Sum>j < K. poly_of (a ! j) * poly_of (b ! j))" and "ring_bounded 16383 acc"
proof -
  note l = product_loop [of K "\<lambda>j. a ! j" "\<lambda>j. b ! j", OF vector_bounded_nth [OF assms(2)] vector_bounded_nth [OF assms(3)] assms(1)]
  show "poly_of acc = scale_fpoly 169 (\<Sum>j < K. poly_of (a ! j) * poly_of (b ! j))" unfolding acc_def by (rule l(1))
  have "ring_bounded (3328 * int K) acc" unfolding acc_def by (rule l(2))
  then show "ring_bounded 16383 acc" by (rule ring_bounded_mono) (use assms(1) in linarith)
qed

lemma compute_As_plus_e_eq:
  assumes "length t = K"
  shows "compute_As_plus_e K t A s e = map (\<lambda>i. add_standard_error_reduce
      (for_loop 0 K (\<lambda>j acc. add_to_ring_element acc (ntt_multiply (A ! i ! j) (s ! j))) ZERO_d6) (e ! i)) [0..<K]"
  unfolding compute_As_plus_e_def Let_def
proof (rule for_loop_fill [OF assms, where h = "\<lambda>i _. add_standard_error_reduce
        (for_loop 0 K (\<lambda>j acc. add_to_ring_element acc (ntt_multiply (A ! i ! j) (s ! j))) ZERO_d6) (e ! i)"])
  fix i and t :: "ring_element list" assume "i < K" "length t = K"
  then show "(for_loop 0 K (\<lambda>j t. t[i := add_to_ring_element (t ! i) (ntt_multiply (A ! i ! j) (s ! j))]) (t[i := ZERO_d6]))
      [i := add_standard_error_reduce (for_loop 0 K (\<lambda>j t. t[i := add_to_ring_element (t ! i) (ntt_multiply (A ! i ! j) (s ! j))])
          (t[i := ZERO_d6]) ! i) (e ! i)]
    = t[i := add_standard_error_reduce (for_loop 0 K (\<lambda>j acc. add_to_ring_element acc (ntt_multiply (A ! i ! j) (s ! j))) ZERO_d6) (e ! i)]"
    by (subst (1 2) for_loop_cell [where f = "\<lambda>j acc. add_to_ring_element acc (ntt_multiply (A ! i ! j) (s ! j))"]) simp_all
qed

lemma compute_As_plus_e_refines:
  assumes "K \<le> 4" and "length t = K" and "matrix_bounded K 4095 A" and "vector_bounded K 4095 s" and "vector_bounded K 30000 e"
  shows "vector_bounded K 1664 (compute_As_plus_e K t A s e)"
    and "i < K \<Longrightarrow> poly_of (compute_As_plus_e K t A s e ! i) = (\<Sum>j < K. poly_of (A ! i ! j) * poly_of (s ! j)) + poly_of (e ! i)"
proof -
  define acc where "acc i = for_loop 0 K (\<lambda>j acc. add_to_ring_element acc (ntt_multiply (A ! i ! j) (s ! j))) ZERO_d6" for i
  note eq = compute_As_plus_e_eq [OF assms(2), where A = A and s = s and e = e, folded acc_def]
  have cell: "poly_of (add_standard_error_reduce (acc i) (e ! i)) = (\<Sum>j < K. poly_of (A ! i ! j) * poly_of (s ! j)) + poly_of (e ! i)"
    "ring_bounded 1664 (add_standard_error_reduce (acc i) (e ! i))" if "i < K" for i
  proof -
    have "vector_bounded K 4095 (A ! i)" using assms(3) that by (simp add: matrix_bounded_def list_all_length)
    note r = row_product [OF assms(1) this assms(4), folded acc_def]
    note s = poly_of_add_standard [OF ring_bounded_mono [OF r(2)] r(1) vector_bounded_nth [OF assms(5) that]]
    show "poly_of (add_standard_error_reduce (acc i) (e ! i)) = (\<Sum>j < K. poly_of (A ! i ! j) * poly_of (s ! j)) + poly_of (e ! i)"
      "ring_bounded 1664 (add_standard_error_reduce (acc i) (e ! i))" using s by simp_all
  qed
  show "vector_bounded K 1664 (compute_As_plus_e K t A s e)" unfolding eq by (rule vector_bounded_map) (rule cell(2))
  show "i < K \<Longrightarrow> poly_of (compute_As_plus_e K t A s e ! i) = (\<Sum>j < K. poly_of (A ! i ! j) * poly_of (s ! j)) + poly_of (e ! i)"
    unfolding eq using cell(1) by simp
qed

lemma compute_vector_u_refines:
  assumes "K \<le> 4" and "matrix_bounded K 4095 A" and "vector_bounded K 4095 r" and "vector_bounded K 30000 e"
  shows "vector_bounded K 1664 (compute_vector_u K A r e)"
    and "i < K \<Longrightarrow> poly_of (compute_vector_u K A r e ! i) = inv_fpoly (\<Sum>j < K. poly_of (A ! i ! j) * poly_of (r ! j)) + poly_of (e ! i)"
proof -
  define acc where "acc i = for_loop 0 K (\<lambda>j acc. add_to_ring_element acc (ntt_multiply (A ! i ! j) (r ! j))) ZERO_d6" for i
  have "compute_vector_u K A r e = map (\<lambda>i. add_error_reduce (invert_ntt_montgomery
      (for_loop 0 K (\<lambda>j acc. add_to_ring_element acc (ntt_multiply (A ! i ! j) (r ! j))) (replicate K ZERO_d6 ! i))) (e ! i)) [0..<K]"
    unfolding compute_vector_u_def Let_def
  proof (rule for_loop_fill [where h = "\<lambda>i z. add_error_reduce (invert_ntt_montgomery
          (for_loop 0 K (\<lambda>j acc. add_to_ring_element acc (ntt_multiply (A ! i ! j) (r ! j))) z)) (e ! i)"])
    fix i and t :: "ring_element list" assume i: "i < K" "length t = K"
    define t' where "t' = for_loop 0 K (\<lambda>j t. t[i := add_to_ring_element (t ! i) (ntt_multiply (A ! i ! j) (r ! j))]) t"
    have "t' = t[i := for_loop 0 K (\<lambda>j acc. add_to_ring_element acc (ntt_multiply (A ! i ! j) (r ! j))) (t ! i)]"
      unfolding t'_def using i by (intro for_loop_cell [where f = "\<lambda>j acc. add_to_ring_element acc (ntt_multiply (A ! i ! j) (r ! j))"]) simp
    then show "t'[i := invert_ntt_montgomery (t' ! i), i := add_error_reduce (t'[i := invert_ntt_montgomery (t' ! i)] ! i) (e ! i)]
      = t[i := add_error_reduce (invert_ntt_montgomery (for_loop 0 K (\<lambda>j acc. add_to_ring_element acc (ntt_multiply (A ! i ! j) (r ! j))) (t ! i))) (e ! i)]"
      using i by simp
  qed simp
  then have eq: "compute_vector_u K A r e = map (\<lambda>i. add_error_reduce (invert_ntt_montgomery (acc i)) (e ! i)) [0..<K]"
    by (simp add: acc_def)
  have cell: "poly_of (add_error_reduce (invert_ntt_montgomery (acc i)) (e ! i)) = inv_fpoly (\<Sum>j < K. poly_of (A ! i ! j) * poly_of (r ! j)) + poly_of (e ! i)"
    "ring_bounded 1664 (add_error_reduce (invert_ntt_montgomery (acc i)) (e ! i))" if "i < K" for i
  proof -
    have "vector_bounded K 4095 (A ! i)" using assms(2) that by (simp add: matrix_bounded_def list_all_length)
    note p = row_product [OF assms(1) this assms(3), folded acc_def]
    note s = poly_of_invert_add [OF p(2,1) vector_bounded_nth [OF assms(4) that]]
    show "poly_of (add_error_reduce (invert_ntt_montgomery (acc i)) (e ! i)) = inv_fpoly (\<Sum>j < K. poly_of (A ! i ! j) * poly_of (r ! j)) + poly_of (e ! i)"
      "ring_bounded 1664 (add_error_reduce (invert_ntt_montgomery (acc i)) (e ! i))" using s by simp_all
  qed
  show "vector_bounded K 1664 (compute_vector_u K A r e)" unfolding eq by (rule vector_bounded_map) (rule cell(2))
  show "i < K \<Longrightarrow> poly_of (compute_vector_u K A r e ! i) = inv_fpoly (\<Sum>j < K. poly_of (A ! i ! j) * poly_of (r ! j)) + poly_of (e ! i)"
    unfolding eq using cell(1) by simp
qed

lemma compute_ring_element_v_refines:
  assumes "K \<le> 4" and "vector_bounded K 4095 t" and "vector_bounded K 4095 r" and "ring_bounded 3 e" and "ring_bounded 3328 m"
  shows "ring_bounded 1664 (compute_ring_element_v K t r e m)"
    and "poly_of (compute_ring_element_v K t r e m) = inv_fpoly (\<Sum>j < K. poly_of (t ! j) * poly_of (r ! j)) + (poly_of e + poly_of m)"
proof -
  define acc where "acc = for_loop 0 K (\<lambda>j acc. add_to_ring_element acc (ntt_multiply (t ! j) (r ! j))) ZERO_d6"
  note p = row_product [OF assms(1-3), folded acc_def]
  note a = poly_of_add [OF assms(4,5)]
  have "ring_bounded 30000 (add_to_ring_element e m)" by (rule ring_bounded_mono [OF a(2)]) simp_all
  note s = poly_of_invert_add [OF p(2,1) this]
  have "ring_ok (invert_ntt_montgomery acc)" using invert_ntt_montgomery_refines(2) [OF p(2)] by (rule ring_bounded_ok)
  then have "compute_ring_element_v K t r e m = add_error_reduce (invert_ntt_montgomery acc) (add_to_ring_element e m)"
    using assms(4,5) by (simp add: compute_ring_element_v_def acc_def add_message_error_reduce_eq ring_bounded_ok)
  then show "ring_bounded 1664 (compute_ring_element_v K t r e m)"
    "poly_of (compute_ring_element_v K t r e m) = inv_fpoly (\<Sum>j < K. poly_of (t ! j) * poly_of (r ! j)) + (poly_of e + poly_of m)"
    using s a(1) by simp_all
qed

lemma compute_message_refines:
  assumes "K \<le> 4" and "vector_bounded K 4095 s" and "vector_bounded K 4095 u" and "ring_bounded 3328 v"
  shows "ring_bounded 1664 (compute_message K v s u)"
    and "poly_of (compute_message K v s u) = poly_of v - inv_fpoly (\<Sum>j < K. poly_of (s ! j) * poly_of (u ! j))"
proof -
  define acc where "acc = for_loop 0 K (\<lambda>j acc. add_to_ring_element acc (ntt_multiply (s ! j) (u ! j))) ZERO_d6"
  note p = row_product [OF assms(1-3), folded acc_def]
  have "ring_bounded 30000 v" by (rule ring_bounded_mono [OF assms(4)]) simp
  note s = poly_of_invert_subtract [OF p(2,1) this]
  have "compute_message K v s u = subtract_reduce v (invert_ntt_montgomery acc)"
    by (simp add: compute_message_def acc_def)
  then show "ring_bounded 1664 (compute_message K v s u)"
    "poly_of (compute_message K v s u) = poly_of v - inv_fpoly (\<Sum>j < K. poly_of (s ! j) * poly_of (u ! j))"
    using s by simp_all
qed

subsection \<open>What decryption recovers\<close>

text \<open>
  All sums over the ring, in the transformed domain except for the arguments of the transforms. The product of
  the matrix with the secrets occurs once in \<open>v\<close> and once, transposed, under \<open>u\<close>, and cancels.
\<close>

lemma swap_matrix_products:
  "(\<Sum>i < n. (\<Sum>j < n. A i j * s j) * r i) = (\<Sum>i < n. s i * (\<Sum>j < n. A j i * (r j :: fpoly)))"
proof -
  have "(\<Sum>i < n. (\<Sum>j < n. A i j * s j) * r i) = (\<Sum>i < n. \<Sum>j < n. A i j * s j * r i)"
    by (simp add: sum_distrib_right)
  also have "\<dots> = (\<Sum>j < n. \<Sum>i < n. A i j * s j * r i)" by (rule sum.swap)
  also have "\<dots> = (\<Sum>j < n. s j * (\<Sum>i < n. A i j * r i))"
    by (simp add: sum_distrib_left mult.assoc mult.left_commute)
  finally show ?thesis .
qed

definition decryption_noise ::
    "nat \<Rightarrow> (nat \<Rightarrow> fpoly) \<Rightarrow> (nat \<Rightarrow> fpoly) \<Rightarrow> (nat \<Rightarrow> fpoly) \<Rightarrow> (nat \<Rightarrow> fpoly) \<Rightarrow> fpoly \<Rightarrow> (nat \<Rightarrow> fpoly) \<Rightarrow> fpoly \<Rightarrow> fpoly" where
  "decryption_noise n s e r e1 e2 cu cv =
     e2 + cv + (\<Sum>i < n. mul_fpoly (e i) (r i)) - (\<Sum>i < n. mul_fpoly (s i) (e1 i + cu i))"

lemma decryption_identity:
  assumes t: "\<And>i. i < n \<Longrightarrow> t i = (\<Sum>j < n. A i j * ntt_fpoly (s j)) + ntt_fpoly (e i)"
    and u: "\<And>i. i < n \<Longrightarrow> u i = inv_fpoly (\<Sum>j < n. A j i * ntt_fpoly (r j)) + e1 i"
    and v: "v = inv_fpoly (\<Sum>i < n. t i * ntt_fpoly (r i)) + (e2 + m)"
  shows "(v + cv) - inv_fpoly (\<Sum>i < n. ntt_fpoly (s i) * ntt_fpoly (u i + cu i)) = m + decryption_noise n s e r e1 e2 cu cv"
proof -
  let ?M = "\<Sum>i < n. ntt_fpoly (s i) * (\<Sum>j < n. A j i * ntt_fpoly (r j))"
  have "(\<Sum>i < n. t i * ntt_fpoly (r i)) = ?M + (\<Sum>i < n. ntt_fpoly (e i) * ntt_fpoly (r i))"
    using swap_matrix_products [where A = A and s = "\<lambda>i. ntt_fpoly (s i)" and r = "\<lambda>i. ntt_fpoly (r i)" and n = n]
    by (simp add: t distrib_right sum.distrib)
  moreover have "(\<Sum>i < n. ntt_fpoly (s i) * ntt_fpoly (u i + cu i))
      = ?M + (\<Sum>i < n. ntt_fpoly (s i) * ntt_fpoly (e1 i + cu i))"
    by (simp add: u ntt_add distrib_left sum.distrib add.assoc)
  ultimately show ?thesis
    by (simp add: v inv_add inv_sum inv_mult decryption_noise_def)
qed

subsection \<open>Lossy compression\<close>

definition lossy :: "nat \<Rightarrow> fpoly \<Rightarrow> fpoly" where
  "lossy d p = fpoly_of_list (map (\<lambda>x. decompress_spec d (compress_spec d x)) (list_of_fpoly p))"

lemma list_of_lossy:
  assumes "d \<le> 11"
  shows "list_of_fpoly (lossy d p) = map (\<lambda>x. decompress_spec d (compress_spec d x)) (list_of_fpoly p)"
proof -
  have "list_all in_field (map (decompress_spec d) (map (compress_spec d) (list_of_fpoly p)))"
    by (rule decompress_spec_list [OF assms compress_spec_range])
  then have "field_list (map (\<lambda>x. decompress_spec d (compress_spec d x)) (list_of_fpoly p))"
    by (simp add: field_list_def comp_def)
  then show ?thesis by (simp add: lossy_def fpoly_of_list_inverse)
qed

lemma poly_of_decompressed:
  assumes "ring_bounded 3328 re" and "d \<le> 11"
    and "ring_ok re'" and "coeffs re' = map (decompress_spec d) (byte_decode d (compressed_encoding d re))"
    and "\<And>xs. length xs = 256 \<Longrightarrow> coeffs_in d xs \<Longrightarrow> byte_decode d (byte_encode d xs) = xs"
  shows "poly_of re' = lossy d (poly_of re)" and "ring_bounded 3328 re'"
proof -
  have c: "coeffs_in d (map (\<lambda>x. compress_spec d (x mod 3329)) (coeffs re))" by (rule coeffs_in_compress)
  have l: "length (coeffs re) = 256" using assms(1) by (simp add: ring_bounded_ok)
  then have e: "coeffs re' = map (decompress_spec d) (map (\<lambda>x. compress_spec d (x mod 3329)) (coeffs re))"
    using assms(4,5) c by (simp add: compressed_encoding_def)
  show b: "ring_bounded 3328 re'" by (rule decompressed_bounded(1) [OF assms(3) e c assms(2)])
  have "list_all in_field (coeffs re')" by (rule decompressed_bounded(2) [OF assms(3) e c assms(2)])
  then have "modq (coeffs re') = coeffs re'" by (auto simp: modq_def list_all_iff in_field_def intro!: map_idI)
  then show "poly_of re' = lossy d (poly_of re)"
    using assms(1,3) e by (intro poly_of_eqI) (simp_all add: list_of_lossy [OF assms(2)] list_of_poly_of ring_bounded_ok modq_def)
qed

lemma compressed_u:
  assumes "ring_bounded 3328 re" and "d = 10 \<or> d = 11"
  defines "re' \<equiv> deserialize_then_decompress_ring_element_u d (compress_then_serialize_ring_element_u d re)"
  shows "poly_of re' = lossy d (poly_of re)" and "ring_bounded 3328 re'"
    and "length (compress_then_serialize_ring_element_u d re) = 32 * d"
proof -
  have l: "length (map (\<lambda>x. compress_spec d (x mod 3329)) (coeffs re)) = 256" using assms(1) by (simp add: ring_bounded_ok)
  have e: "compress_then_serialize_ring_element_u d re = compressed_encoding d re"
    using assms(1,2) by (auto simp: compress_then_serialize_ring_element_u_def compress_then_serialize_10_eq compress_then_serialize_11_eq)
  show n: "length (compress_then_serialize_ring_element_u d re) = 32 * d"
    using assms(2) codec_10.decode_encode(2) [OF l] codec_11.decode_encode(2) [OF l] coeffs_in_compress
    unfolding e compressed_encoding_def by metis
  have r: "ring_ok re'" "coeffs re' = map (decompress_spec d) (byte_decode d (compressed_encoding d re))"
    using assms(2) n deserialize_then_decompress_10_eq [of "compressed_encoding 10 re"] deserialize_then_decompress_11_eq [of "compressed_encoding 11 re"]
    by (auto simp: re'_def e deserialize_then_decompress_ring_element_u_def)
  show "poly_of re' = lossy d (poly_of re)" "ring_bounded 3328 re'"
    using assms(2) poly_of_decompressed [OF assms(1) _ r] codec_10.decode_encode(1) codec_11.decode_encode(1) by auto
qed

lemma compressed_v:
  assumes "ring_bounded 3328 re" and "d = 4 \<or> d = 5" and "length out = 32 * d"
  defines "re' \<equiv> deserialize_then_decompress_ring_element_v d (compress_then_serialize_ring_element_v d re out)"
  shows "poly_of re' = lossy d (poly_of re)" and "ring_bounded 3328 re'"
    and "length (compress_then_serialize_ring_element_v d re out) = 32 * d"
proof -
  have l: "length (map (\<lambda>x. compress_spec d (x mod 3329)) (coeffs re)) = 256" using assms(1) by (simp add: ring_bounded_ok)
  have e: "compress_then_serialize_ring_element_v d re out = compressed_encoding d re"
    using assms(1-3) by (auto simp: compress_then_serialize_ring_element_v_def compress_then_serialize_4_eq compress_then_serialize_5_eq)
  show n: "length (compress_then_serialize_ring_element_v d re out) = 32 * d"
    using assms(2) codec_4.decode_encode(2) [OF l] codec_5.decode_encode(2) [OF l] coeffs_in_compress
    unfolding e compressed_encoding_def by metis
  have r: "ring_ok re'" "coeffs re' = map (decompress_spec d) (byte_decode d (compressed_encoding d re))"
    using assms(2) n deserialize_then_decompress_4_eq [of "compressed_encoding 4 re"] deserialize_then_decompress_5_eq [of "compressed_encoding 5 re"]
    by (auto simp: re'_def e deserialize_then_decompress_ring_element_v_def)
  show "poly_of re' = lossy d (poly_of re)" "ring_bounded 3328 re'"
    using assms(2) poly_of_decompressed [OF assms(1) _ r] codec_4.decode_encode(1) codec_5.decode_encode(1) by auto
qed

end
