(* ===== verification/MLKEM_IndCpaCorrect.thy ===== *)
theory MLKEM_IndCpaCorrect
  imports MLKEM_IndCpaAlgebra
begin

section \<open>Correctness of K-PKE\<close>

text \<open>
  Encryption and decryption of the code as a composition of the equations of the linear algebra, and
  the correctness of decryption: the message comes back whenever every coefficient of the decryption noise lies
  between - 832 and 831 modulo 3329. Then the keys: what key generation returns, that packed and unpacked
  keys represent the same ring elements, and that encryption and decryption with packed keys
  agree with those with unpacked keys.
\<close>

subsection \<open>Decoding a noisy message\<close>

definition small_noise :: "fpoly \<Rightarrow> bool" where
  "small_noise n = list_all (\<lambda>x. x \<le> 831 \<or> 2497 \<le> x) (list_of_fpoly n)"

lemma noisy_bit:
  assumes "b = 0 \<or> b = 1" and "in_field n" and "n \<le> 831 \<or> 2497 \<le> n"
  shows "compress_spec 1 ((decompress_spec 1 b + n) mod 3329) = b"
proof -
  have n: "0 \<le> n" "n < 3329" using assms(2) by (simp_all add: in_field_def)
  have d: "decompress_spec 1 0 = 0" "decompress_spec 1 1 = 1665" by (simp_all add: decompress_spec_def)
  have "in_field ((decompress_spec 1 b + n) mod 3329)" by (simp add: in_field_def)
  moreover have "(1665 + n) mod 3329 = (if n \<le> 1663 then 1665 + n else n - 1664)"
    using n mod_pos_pos_trivial [of "n - 1664" 3329] by (auto simp: mod_pos_pos_trivial) (smt (verit) minus_mod_self2 mod_pos_pos_trivial)
  ultimately show ?thesis using assms(1,3) n by (auto simp: compress_spec_1 d simp del: One_nat_def)
qed

lemma decode_noisy_message:
  assumes "ring_bounded 3328 w" and "length m = 32"
    and "poly_of w = poly_of (deserialize_then_decompress_message m) + noise" and "small_noise noise"
  shows "compress_then_serialize_message w = m"
proof -
  let ?re = "deserialize_then_decompress_message m" and ?n = "list_of_fpoly noise"
  let ?b = "byte_decode 1 m"
  have r: "coeffs_in 1 ?b" using codec_1.decode_range assms(2) by simp
  note re = deserialize_then_decompress_message_eq [OF assms(2)]
  have lb: "length ?b = 256" using re by (metis length_coeffs length_map)
  have lw: "length (coeffs w) = 256" using assms(1) by (simp add: ring_bounded_ok)
  have n: "field_list ?n" using list_of_fpoly by simp
  have e: "modq (coeffs w) = zipq (+) (modq (coeffs ?re)) ?n"
    using arg_cong [OF assms(3), of list_of_fpoly] assms(1) re(1) by (simp add: list_of_poly_of ring_bounded_ok plus_fpoly.rep_eq)
  have "map (\<lambda>x. compress_spec 1 (x mod 3329)) (coeffs w) = ?b"
  proof (rule nth_equalityI)
    fix i assume "i < length (map (\<lambda>x. compress_spec 1 (x mod 3329)) (coeffs w))"
    then have i: "i < 256" using lw by simp
    have "coeffs w ! i mod 3329 = (decompress_spec 1 (?b ! i) mod 3329 + ?n ! i) mod 3329"
      using arg_cong [OF e, of "\<lambda>l. l ! i"] i lw lb re by (simp add: modq_nth zipq_nth)
    moreover have "?b ! i = 0 \<or> ?b ! i = 1" using r i lb by (auto simp: coeffs_in_def list_all_length)
    moreover have "in_field (?n ! i)" "?n ! i \<le> 831 \<or> 2497 \<le> ?n ! i"
      using n assms(4) i by (auto simp: field_list_def small_noise_def list_all_length)
    ultimately show "map (\<lambda>x. compress_spec 1 (x mod 3329)) (coeffs w) ! i = ?b ! i"
      using noisy_bit [of "?b ! i" "?n ! i"] i lw by (simp add: mod_simps del: One_nat_def)
  qed (simp add: lw lb del: One_nat_def)
  then show ?thesis
    using codec_1.encode_decode [of m] assms(2)
    by (simp add: compress_then_serialize_message_eq [OF assms(1)] compressed_encoding_def del: One_nat_def)
qed

subsection \<open>Sampled vectors\<close>

text \<open>Secrets and errors: one call of the pseudorandom function per ring element, with consecutive domain separators.\<close>

definition cbd_element :: "nat \<Rightarrow> u8 list \<Rightarrow> u8 \<Rightarrow> ring_element" where
  "cbd_element eta prf_input d = sample_from_binomial_distribution eta (PRF (64 * eta) (prf_input[32 := d]))"

definition cbd_vector :: "nat \<Rightarrow> nat \<Rightarrow> u8 list \<Rightarrow> u8 \<Rightarrow> ring_element list" where
  "cbd_vector K eta prf_input d = map (\<lambda>i. cbd_element eta prf_input (d + of_nat i)) [0..<K]"

lemma cbd_element_bounded: "eta = 2 \<or> eta = 3 \<Longrightarrow> ring_bounded 3 (cbd_element eta prf_input d)"
  unfolding cbd_element_def
  by (rule ring_bounded_mono [OF sample_from_binomial_distribution_eq(2)]) auto

lemma cbd_vector_bounded: "eta = 2 \<or> eta = 3 \<Longrightarrow> vector_bounded K 3 (cbd_vector K eta prf_input d)"
  unfolding cbd_vector_def by (rule vector_bounded_map) (rule cbd_element_bounded)

lemma prf_outputs:
  "PRFxN K LEN (snd (prf_input_inc K (replicate K prf_input) d)) = map (\<lambda>i. PRF LEN (prf_input[32 := d + of_nat i])) [0..<K]"
  by (simp add: prf_input_inc_eq PRFxN_eq comp_def)

lemma sample_vector_cbd_then_ntt_eq:
  assumes "length re = K"
  shows "sample_vector_cbd_then_ntt K eta (64 * eta) re prf_input d
    = (d + of_nat K, map ntt_binomially_sampled_ring_element (cbd_vector K eta prf_input d))"
proof -
  have "for_loop 0 K (\<lambda>i re. re[i := sample_from_binomial_distribution eta (outs ! i),
        i := ntt_binomially_sampled_ring_element (re[i := sample_from_binomial_distribution eta (outs ! i)] ! i)]) re
      = map (\<lambda>i. ntt_binomially_sampled_ring_element (sample_from_binomial_distribution eta (outs ! i))) [0..<K]" for outs
    by (rule for_loop_fill [OF assms]) simp
  then show ?thesis
    using prf_outputs [of K "64 * eta" prf_input d]
    by (simp add: sample_vector_cbd_then_ntt_def Let_def split_beta prf_input_inc_eq cbd_vector_def cbd_element_def comp_def cong: map_cong)
qed

lemma sample_ring_element_cbd_eq:
  assumes "length re = K"
  shows "sample_ring_element_cbd K eta (64 * eta) prf_input d re = (d + of_nat K, cbd_vector K eta prf_input d)"
proof -
  have "for_loop 0 K (\<lambda>i re. re[i := sample_from_binomial_distribution eta (outs ! i)]) re
      = map (\<lambda>i. sample_from_binomial_distribution eta (outs ! i)) [0..<K]" for outs
    by (rule for_loop_fill [OF assms]) simp
  then show ?thesis
    using prf_outputs [of K "64 * eta" prf_input d]
    by (simp add: sample_ring_element_cbd_def Let_def split_beta prf_input_inc_eq cbd_vector_def cbd_element_def cong: map_cong)
qed

subsection \<open>Encryption and decryption\<close>

text \<open>The secrets of an encryption, and the two parts of the ciphertext before compression.\<close>

definition encryption_r :: "mlkem_params \<Rightarrow> u8 list \<Rightarrow> ring_element list" where
  "encryption_r p randomness = cbd_vector (RANK p) (ETA1 p) (into_padded_array 33 randomness) 0"

definition encryption_e1 :: "mlkem_params \<Rightarrow> u8 list \<Rightarrow> ring_element list" where
  "encryption_e1 p randomness = cbd_vector (RANK p) (ETA2 p) (into_padded_array 33 randomness) (of_nat (RANK p))"

definition encryption_e2 :: "mlkem_params \<Rightarrow> u8 list \<Rightarrow> ring_element" where
  "encryption_e2 p randomness = cbd_element (ETA2 p) (into_padded_array 33 randomness) (of_nat (2 * RANK p))"

definition encryption_u :: "mlkem_params \<Rightarrow> ind_cpa_public_key \<Rightarrow> u8 list \<Rightarrow> ring_element list" where
  "encryption_u p pk randomness = compute_vector_u (RANK p) (matrix_A pk)
     (map ntt_binomially_sampled_ring_element (encryption_r p randomness)) (encryption_e1 p randomness)"

definition encryption_v :: "mlkem_params \<Rightarrow> ind_cpa_public_key \<Rightarrow> u8 list \<Rightarrow> u8 list \<Rightarrow> ring_element" where
  "encryption_v p pk m randomness = compute_ring_element_v (RANK p) (t_as_ntt pk)
     (map ntt_binomially_sampled_ring_element (encryption_r p randomness)) (encryption_e2 p randomness)
     (deserialize_then_decompress_message m)"

text \<open>
  A pair of unpacked keys for the secrets \<open>s\<close> and \<open>e\<close>: the public key holds the transposed matrix and
  \<open>A s + e\<close>, the private key the transform of \<open>s\<close>, up to the representatives of the coefficients.
\<close>

definition public_key_ok :: "mlkem_params \<Rightarrow> ind_cpa_public_key \<Rightarrow> bool" where
  "public_key_ok p pk \<longleftrightarrow> vector_bounded (RANK p) 4095 (t_as_ntt pk) \<and> matrix_bounded (RANK p) 4095 (matrix_A pk)"

definition key_pair_ok ::
    "mlkem_params \<Rightarrow> ind_cpa_private_key \<Rightarrow> ind_cpa_public_key \<Rightarrow> ring_element list \<Rightarrow> ring_element list \<Rightarrow> bool" where
  "key_pair_ok p sk pk s e \<longleftrightarrow> public_key_ok p pk \<and> vector_bounded (RANK p) 4095 sk
     \<and> (\<forall>i < RANK p. poly_of (sk ! i) = ntt_fpoly (poly_of (s ! i)))
     \<and> (\<forall>i < RANK p. poly_of (t_as_ntt pk ! i)
          = (\<Sum>j < RANK p. poly_of (matrix_A pk ! j ! i) * ntt_fpoly (poly_of (s ! j))) + ntt_fpoly (poly_of (e ! i)))"

definition encryption_noise ::
    "mlkem_params \<Rightarrow> ind_cpa_public_key \<Rightarrow> ring_element list \<Rightarrow> ring_element list \<Rightarrow> u8 list \<Rightarrow> u8 list \<Rightarrow> fpoly" where
  "encryption_noise p pk s e m randomness =
     decryption_noise (RANK p) (\<lambda>i. poly_of (s ! i)) (\<lambda>i. poly_of (e ! i)) (\<lambda>i. poly_of (encryption_r p randomness ! i))
       (\<lambda>i. poly_of (encryption_e1 p randomness ! i)) (poly_of (encryption_e2 p randomness))
       (\<lambda>i. lossy (VECTOR_U_COMPRESSION_FACTOR p) (poly_of (encryption_u p pk randomness ! i)) - poly_of (encryption_u p pk randomness ! i))
       (lossy (VECTOR_V_COMPRESSION_FACTOR p) (poly_of (encryption_v p pk m randomness)) - poly_of (encryption_v p pk m randomness))"

context valid_params
begin

lemma r_bounded:
  "vector_bounded (RANK p) 3 (encryption_r p randomness)"
  "vector_bounded (RANK p) 30000 (encryption_e1 p randomness)"
  "ring_bounded 3 (encryption_e2 p randomness)"
  unfolding encryption_r_def encryption_e1_def encryption_e2_def
  by (rule cbd_vector_bounded [OF eta1], rule vector_bounded_mono [OF cbd_vector_bounded],
      use eta2 in simp, simp, rule cbd_element_bounded, use eta2 in simp)

lemma ntt_r:
  assumes "vector_bounded K 3 r"
  shows "vector_bounded K 4095 (map ntt_binomially_sampled_ring_element r)"
    and "i < K \<Longrightarrow> poly_of (map ntt_binomially_sampled_ring_element r ! i) = ntt_fpoly (poly_of (r ! i))"
proof -
  have l: "length r = K" and b: "\<And>i. i < K \<Longrightarrow> ring_bounded 3 (r ! i)"
    using assms by (simp_all add: vector_bounded_def list_all_length)
  then show "vector_bounded K 4095 (map ntt_binomially_sampled_ring_element r)"
    using ring_bounded_mono [OF ntt_binomially_sampled_refines(2), of _ 4095] by (simp add: vector_bounded_def list_all_length)
  show "i < K \<Longrightarrow> poly_of (map ntt_binomially_sampled_ring_element r ! i) = ntt_fpoly (poly_of (r ! i))"
    using l b by (simp add: poly_of_ntt)
qed

lemma message_bounded: "length m = 32 \<Longrightarrow> ring_bounded 3328 (deserialize_then_decompress_message m)"
  by (rule decompressed_bounded(1) [OF deserialize_then_decompress_message_eq codec_1.decode_range]) simp_all

lemma u_refines:
  assumes "public_key_ok p pk"
  shows "vector_bounded (RANK p) 1664 (encryption_u p pk randomness)"
    and "i < RANK p \<Longrightarrow> poly_of (encryption_u p pk randomness ! i)
      = inv_fpoly (\<Sum>j < RANK p. poly_of (matrix_A pk ! i ! j) * ntt_fpoly (poly_of (encryption_r p randomness ! j)))
        + poly_of (encryption_e1 p randomness ! i)"
proof -
  have A: "matrix_bounded (RANK p) 4095 (matrix_A pk)" using assms by (simp add: public_key_ok_def)
  note r = ntt_r [OF r_bounded(1) [of randomness]]
  note c = compute_vector_u_refines [OF rank(2) A r(1) r_bounded(2) [of randomness], folded encryption_u_def]
  show "vector_bounded (RANK p) 1664 (encryption_u p pk randomness)" by (rule c(1))
  show "i < RANK p \<Longrightarrow> poly_of (encryption_u p pk randomness ! i)
      = inv_fpoly (\<Sum>j < RANK p. poly_of (matrix_A pk ! i ! j) * ntt_fpoly (poly_of (encryption_r p randomness ! j)))
        + poly_of (encryption_e1 p randomness ! i)"
    using c(2) r(2) by simp
qed

lemma v_refines:
  assumes "public_key_ok p pk" and "length m = 32"
  shows "ring_bounded 1664 (encryption_v p pk m randomness)"
    and "poly_of (encryption_v p pk m randomness)
      = inv_fpoly (\<Sum>j < RANK p. poly_of (t_as_ntt pk ! j) * ntt_fpoly (poly_of (encryption_r p randomness ! j)))
        + (poly_of (encryption_e2 p randomness) + poly_of (deserialize_then_decompress_message m))"
proof -
  have t: "vector_bounded (RANK p) 4095 (t_as_ntt pk)" using assms by (simp add: public_key_ok_def)
  note r = ntt_r [OF r_bounded(1) [of randomness]]
  note c = compute_ring_element_v_refines [OF rank(2) t r(1) r_bounded(3) [of randomness] message_bounded [OF assms(2)], folded encryption_v_def]
  show "ring_bounded 1664 (encryption_v p pk m randomness)" by (rule c(1))
  show "poly_of (encryption_v p pk m randomness)
      = inv_fpoly (\<Sum>j < RANK p. poly_of (t_as_ntt pk ! j) * ntt_fpoly (poly_of (encryption_r p randomness ! j)))
        + (poly_of (encryption_e2 p randomness) + poly_of (deserialize_then_decompress_message m))"
    using c(2) r(2) by simp
qed

text \<open>The layout of a ciphertext: the blocks of \<open>u\<close>, then \<open>v\<close>.\<close>

abbreviation u_block :: "ring_element \<Rightarrow> u8 list" where
  "u_block re \<equiv> compress_then_serialize_ring_element_u (VECTOR_U_COMPRESSION_FACTOR p) re"

abbreviation v_block :: "ring_element \<Rightarrow> u8 list" where
  "v_block re \<equiv> compress_then_serialize_ring_element_v (VECTOR_V_COMPRESSION_FACTOR p) re (replicate (C2_SIZE p) 0)"

lemma u_blocks_length:
  assumes "vector_bounded (RANK p) 1664 u"
  shows "i < RANK p \<Longrightarrow> length (u_block (u ! i)) = 32 * VECTOR_U_COMPRESSION_FACTOR p"
    and "length (concat (map (\<lambda>i. u_block (u ! i)) [0..<RANK p])) = C1_SIZE p"
proof -
  have b: "ring_bounded 3328 (u ! i)" if "i < RANK p" for i
    using ring_bounded_mono [OF vector_bounded_nth [OF assms that]] by simp
  show l: "i < RANK p \<Longrightarrow> length (u_block (u ! i)) = 32 * VECTOR_U_COMPRESSION_FACTOR p" for i
    using compressed_u(3) [OF b du] by simp
  show "length (concat (map (\<lambda>i. u_block (u ! i)) [0..<RANK p])) = C1_SIZE p"
    using length_concat_blocks [of "RANK p" "\<lambda>i. u_block (u ! i)" "32 * VECTOR_U_COMPRESSION_FACTOR p"] l
    by (simp add: sizes mult.commute)
qed

lemma compress_then_serialize_u_eq:
  assumes "vector_bounded (RANK p) 1664 u" and "length out = C1_SIZE p"
  shows "compress_then_serialize_u p u out = concat (map (\<lambda>i. u_block (u ! i)) [0..<RANK p])"
proof -
  have "C1_SIZE p div RANK p = 32 * VECTOR_U_COMPRESSION_FACTOR p" using rank_pos by (simp add: sizes)
  then show ?thesis
    using for_loop_blocks [of "RANK p" "\<lambda>i. u_block (u ! i)" "32 * VECTOR_U_COMPRESSION_FACTOR p" out] u_blocks_length [OF assms(1)] assms(2)
    by (simp add: compress_then_serialize_u_def sizes mult.commute)
qed

lemma v_block_length: "ring_bounded 1664 v \<Longrightarrow> length (v_block v) = C2_SIZE p"
  using compressed_v(3) [OF ring_bounded_mono dv] by (simp add: sizes)

lemma encrypt_unpacked_eq:
  assumes "public_key_ok p pk" and "length m = 32"
  shows "encrypt_unpacked p pk m randomness
    = concat (map (\<lambda>i. u_block (encryption_u p pk randomness ! i)) [0..<RANK p]) @ v_block (encryption_v p pk m randomness)"
proof -
  let ?r = "map ntt_binomially_sampled_ring_element (encryption_r p randomness)"
  note u = u_refines(1) [OF assms(1), of randomness]
  have c1: "encrypt_c1 p randomness (matrix_A pk) (replicate (C1_SIZE p) 0)
      = ((?r, encryption_e2 p randomness), concat (map (\<lambda>i. u_block (encryption_u p pk randomness ! i)) [0..<RANK p]))"
    using compress_then_serialize_u_eq [OF u, of "replicate (C1_SIZE p) 0"]
    by (simp add: encrypt_c1_def Let_def sizes(9,10) sample_vector_cbd_then_ntt_eq sample_ring_element_cbd_eq
        encryption_r_def [symmetric] encryption_e1_def [symmetric] encryption_u_def [symmetric])
      (simp add: encryption_e2_def cbd_element_def)
  have "subslice (replicate (CPA_PKE_CIPHERTEXT_SIZE p) (0 :: u8)) 0 (C1_SIZE p) = replicate (C1_SIZE p) 0"
    by (simp add: subslice_def CPA_PKE_CIPHERTEXT_SIZE_def)
  moreover have "slice_copy (replicate (CPA_PKE_CIPHERTEXT_SIZE p) (0 :: u8)) 0 c = c @ replicate (C2_SIZE p) 0" if "length c = C1_SIZE p" for c
    using that by (simp add: slice_copy_def CPA_PKE_CIPHERTEXT_SIZE_def)
  ultimately show ?thesis
    using c1 u_blocks_length(2) [OF u] v_block_length [OF v_refines(1) [OF assms]]
    by (simp add: encrypt_unpacked_def encrypt_c2_def Let_def encryption_v_def [symmetric]) (simp add: slice_copy_def)
qed

lemma length_encrypt_unpacked:
  "public_key_ok p pk \<Longrightarrow> length m = 32 \<Longrightarrow> length (encrypt_unpacked p pk m randomness) = CPA_PKE_CIPHERTEXT_SIZE p"
  using u_blocks_length(2) [OF u_refines(1)] v_block_length [OF v_refines(1)]
  by (simp add: encrypt_unpacked_eq CPA_PKE_CIPHERTEXT_SIZE_def)

lemma deserialize_then_decompress_u_eq:
  assumes "vector_bounded (RANK p) 1664 u"
  shows "deserialize_then_decompress_u p (concat (map (\<lambda>i. u_block (u ! i)) [0..<RANK p]) @ rest)
    = map (\<lambda>i. ntt_vector_u (deserialize_then_decompress_ring_element_u (VECTOR_U_COMPRESSION_FACTOR p) (u_block (u ! i)))) [0..<RANK p]"
proof -
  let ?n = "32 * VECTOR_U_COMPRESSION_FACTOR p" and ?c = "concat (map (\<lambda>i. u_block (u ! i)) [0..<RANK p])"
  have n: "COEFFICIENTS_IN_RING_ELEMENT * VECTOR_U_COMPRESSION_FACTOR p div 8 = ?n" by (simp add: COEFFICIENTS_IN_RING_ELEMENT_def)
  note l = u_blocks_length [OF assms]
  have npos: "0 < ?n" using du by auto
  have ch: "chunks ?n ?c = map (\<lambda>i. u_block (u ! i)) [0..<RANK p]" using npos l(1) by (intro chunks_concat) auto
  have "length ?c = RANK p * ?n" using l(2) by (simp add: sizes)
  from chunks_subslices [OF npos this] ch
  have "map (\<lambda>i. subslice ?c (i * ?n) (i * ?n + ?n)) [0..<RANK p] = map (\<lambda>i. u_block (u ! i)) [0..<RANK p]" by simp
  then have s: "subslice ?c (i * ?n) (i * ?n + ?n) = u_block (u ! i)" if "i < RANK p" for i
    using that by (simp add: map_eq_conv)
  have block: "subslice (?c @ rest) (i * ?n) (i * ?n + ?n) = u_block (u ! i)" if "i < RANK p" for i
  proof -
    have "(i + 1) * ?n \<le> RANK p * ?n" using that by (intro mult_le_mono1) simp
    then have "subslice (?c @ rest) (i * ?n) (i * ?n + ?n) = subslice ?c (i * ?n) (i * ?n + ?n)"
      using \<open>length ?c = RANK p * ?n\<close> by (simp add: subslice_def algebra_simps)
    then show ?thesis using s [OF that] by simp
  qed
  show ?thesis unfolding deserialize_then_decompress_u_def Let_def n ciphertext_blocks
    by (subst for_loop_fill [where h = "\<lambda>i _. ntt_vector_u (deserialize_then_decompress_ring_element_u (VECTOR_U_COMPRESSION_FACTOR p) (u_block (u ! i)))"])
      (simp_all add: block)
qed

lemma decrypt_encrypt:
  assumes "key_pair_ok p sk pk s e" and "length m = 32" and "small_noise (encryption_noise p pk s e m randomness)"
  shows "decrypt_unpacked p sk (encrypt_unpacked p pk m randomness) = m"
proof -
  let ?K = "RANK p" and ?du = "VECTOR_U_COMPRESSION_FACTOR p" and ?dv = "VECTOR_V_COMPRESSION_FACTOR p"
  let ?u = "encryption_u p pk randomness" and ?v = "encryption_v p pk m randomness"
  let ?c1 = "concat (map (\<lambda>i. u_block (?u ! i)) [0..<?K])"
  have pk: "public_key_ok p pk" and sk: "vector_bounded ?K 4095 sk"
    and sp: "\<And>i. i < ?K \<Longrightarrow> poly_of (sk ! i) = ntt_fpoly (poly_of (s ! i))"
    and tp: "\<And>i. i < ?K \<Longrightarrow> poly_of (t_as_ntt pk ! i)
        = (\<Sum>j < ?K. poly_of (matrix_A pk ! j ! i) * ntt_fpoly (poly_of (s ! j))) + ntt_fpoly (poly_of (e ! i))"
    using assms(1) by (auto simp: key_pair_ok_def)
  note u = u_refines [OF pk, where randomness = randomness] and v = v_refines [OF pk assms(2), of randomness]
  have ub: "ring_bounded 3328 (?u ! i)" if "i < ?K" for i using ring_bounded_mono [OF vector_bounded_nth [OF u(1) that]] by simp
  have vb: "ring_bounded 3328 ?v" using ring_bounded_mono [OF v(1)] by simp
  define u' where "u' = map (\<lambda>i. ntt_vector_u (deserialize_then_decompress_ring_element_u ?du (u_block (?u ! i)))) [0..<?K]"
  define v' where "v' = deserialize_then_decompress_ring_element_v ?dv (v_block ?v)"
  have u': "vector_bounded ?K 4095 u'" "\<And>i. i < ?K \<Longrightarrow> poly_of (u' ! i) = ntt_fpoly (lossy ?du (poly_of (?u ! i)))"
    unfolding u'_def using ring_bounded_mono [OF ntt_vector_u_refines(2) [OF compressed_u(2) [OF ub du]], of _ 4095]
    by (auto simp: poly_of_ntt(2) [OF compressed_u(2) [OF ub du]] compressed_u(1) [OF ub du] intro: vector_bounded_map)
  have v': "ring_bounded 3328 v'" "poly_of v' = lossy ?dv (poly_of ?v)"
    unfolding v'_def using compressed_v(1,2) [OF vb dv] by (simp_all add: sizes)
  have "drop (C1_SIZE p) (?c1 @ v_block ?v) = v_block ?v" using u_blocks_length(2) [OF u(1)] by simp
  then have "decrypt_unpacked p sk (encrypt_unpacked p pk m randomness) = compress_then_serialize_message (compute_message ?K v' sk u')"
    by (simp add: encrypt_unpacked_eq [OF pk assms(2)] decrypt_unpacked_def deserialize_then_decompress_u_eq [OF u(1)] u'_def v'_def)
  moreover have "poly_of (compute_message ?K v' sk u') = poly_of (deserialize_then_decompress_message m) + encryption_noise p pk s e m randomness"
  proof -
    note w = compute_message_refines(2) [OF rank(2) sk u'(1) v'(1)]
    note d = decryption_identity [where n = ?K and A = "\<lambda>i j. poly_of (matrix_A pk ! j ! i)" and s = "\<lambda>i. poly_of (s ! i)"
        and e = "\<lambda>i. poly_of (e ! i)" and r = "\<lambda>i. poly_of (encryption_r p randomness ! i)" and t = "\<lambda>i. poly_of (t_as_ntt pk ! i)"
        and u = "\<lambda>i. poly_of (?u ! i)" and ?e1.0 = "\<lambda>i. poly_of (encryption_e1 p randomness ! i)", OF tp u(2) v(2)]
    show ?thesis
      unfolding w encryption_noise_def
      using d [where cu = "\<lambda>i. lossy ?du (poly_of (?u ! i)) - poly_of (?u ! i)" and cv = "lossy ?dv (poly_of ?v) - poly_of ?v"]
        u'(2) sp v'(2) by simp
  qed
  ultimately show ?thesis
    using decode_noisy_message [OF ring_bounded_mono [OF compute_message_refines(1) [OF rank(2) sk u'(1) v'(1)]] assms(2) _ assms(3)] by simp
qed

end

end
