(* ===== verification/MLKEM_IndCpaKeys.thy ===== *)
theory MLKEM_IndCpaKeys
  imports MLKEM_IndCpaCorrect
begin

section \<open>Keys of K-PKE\<close>

text \<open>
  What key generation returns, what the encodings of the keys preserve, and that the results of encryption
  and decryption depend on the keys only through the polynomials they represent.
\<close>

subsection \<open>Ciphertexts and messages depend on polynomials only\<close>

lemma compressed_encoding_poly:
  "ring_ok re \<Longrightarrow> compressed_encoding d re = byte_encode d (map (compress_spec d) (list_of_fpoly (poly_of re)))"
  by (simp add: compressed_encoding_def list_of_poly_of modq_def comp_def)

lemma encodings_cong:
  assumes "ring_bounded 1664 a" and "ring_bounded 1664 b" and "poly_of a = poly_of b"
  shows "du = 10 \<or> du = 11 \<Longrightarrow> compress_then_serialize_ring_element_u du a = compress_then_serialize_ring_element_u du b"
    and "dv = 4 \<or> dv = 5 \<Longrightarrow> length out = 32 * dv \<Longrightarrow> compress_then_serialize_ring_element_v dv a out = compress_then_serialize_ring_element_v dv b out"
    and "compress_then_serialize_message a = compress_then_serialize_message b"
proof -
  have b: "ring_bounded 3328 a" "ring_bounded 3328 b" using assms(1,2) by (auto intro: ring_bounded_mono)
  have e: "compressed_encoding d a = compressed_encoding d b" for d
    using b assms(3) by (simp add: compressed_encoding_poly ring_bounded_ok)
  show "du = 10 \<or> du = 11 \<Longrightarrow> compress_then_serialize_ring_element_u du a = compress_then_serialize_ring_element_u du b"
    using b e by (auto simp: compress_then_serialize_ring_element_u_def compress_then_serialize_10_eq compress_then_serialize_11_eq)
  show "dv = 4 \<or> dv = 5 \<Longrightarrow> length out = 32 * dv \<Longrightarrow> compress_then_serialize_ring_element_v dv a out = compress_then_serialize_ring_element_v dv b out"
    using b e by (auto simp: compress_then_serialize_ring_element_v_def compress_then_serialize_4_eq compress_then_serialize_5_eq)
  show "compress_then_serialize_message a = compress_then_serialize_message b"
    using b e by (simp add: compress_then_serialize_message_eq)
qed

definition same_public_key :: "mlkem_params \<Rightarrow> ind_cpa_public_key \<Rightarrow> ind_cpa_public_key \<Rightarrow> bool" where
  "same_public_key p pk pk' \<longleftrightarrow> (\<forall>i < RANK p. poly_of (t_as_ntt pk ! i) = poly_of (t_as_ntt pk' ! i))
     \<and> (\<forall>i < RANK p. \<forall>j < RANK p. poly_of (matrix_A pk ! i ! j) = poly_of (matrix_A pk' ! i ! j))"

context valid_params
begin

lemma encrypt_unpacked_cong:
  assumes "public_key_ok p pk" and "public_key_ok p pk'" and "same_public_key p pk pk'" and "length m = 32"
  shows "encrypt_unpacked p pk m randomness = encrypt_unpacked p pk' m randomness"
proof -
  note u = u_refines [OF assms(1), where randomness = randomness] u_refines [OF assms(2), where randomness = randomness]
  note v = v_refines [OF assms(1,4), of randomness] v_refines [OF assms(2,4), of randomness]
  have "poly_of (encryption_u p pk randomness ! i) = poly_of (encryption_u p pk' randomness ! i)" if "i < RANK p" for i
    using assms(3) that by (simp add: u(2,4) same_public_key_def)
  then have "u_block (encryption_u p pk randomness ! i) = u_block (encryption_u p pk' randomness ! i)" if "i < RANK p" for i
    using encodings_cong(1) [OF vector_bounded_nth [OF u(1) that] vector_bounded_nth [OF u(3) that] _ du] that by simp
  moreover have "v_block (encryption_v p pk m randomness) = v_block (encryption_v p pk' m randomness)"
    using encodings_cong(2) [OF v(1,3) _ dv] assms(3) by (simp add: v(2,4) same_public_key_def sizes)
  moreover from calculation(1) have "map (\<lambda>i. u_block (encryption_u p pk randomness ! i)) [0..<RANK p]
      = map (\<lambda>i. u_block (encryption_u p pk' randomness ! i)) [0..<RANK p]" by simp
  ultimately show ?thesis by (simp only: encrypt_unpacked_eq [OF assms(1,4)] encrypt_unpacked_eq [OF assms(2,4)])
qed

text \<open>Every byte string of the length of a ciphertext decodes to bounded ring elements.\<close>

lemma decoded_ciphertext:
  assumes "length c = CPA_PKE_CIPHERTEXT_SIZE p"
  shows "vector_bounded (RANK p) 4095 (deserialize_then_decompress_u p c)"
    and "ring_bounded 3328 (deserialize_then_decompress_ring_element_v (VECTOR_V_COMPRESSION_FACTOR p) (drop (C1_SIZE p) c))"
proof -
  let ?n = "32 * VECTOR_U_COMPRESSION_FACTOR p"
  have n: "COEFFICIENTS_IN_RING_ELEMENT * VECTOR_U_COMPRESSION_FACTOR p div 8 = ?n" by (simp add: COEFFICIENTS_IN_RING_ELEMENT_def)
  have "deserialize_then_decompress_u p c = map (\<lambda>i. ntt_vector_u (deserialize_then_decompress_ring_element_u
      (VECTOR_U_COMPRESSION_FACTOR p) (subslice c (i * ?n) (i * ?n + ?n)))) [0..<RANK p]"
    unfolding deserialize_then_decompress_u_def Let_def n ciphertext_blocks
    by (rule for_loop_fill [where h = "\<lambda>i _. ntt_vector_u (deserialize_then_decompress_ring_element_u
        (VECTOR_U_COMPRESSION_FACTOR p) (subslice c (i * ?n) (i * ?n + ?n)))"]) simp_all
  moreover have "ring_bounded 4095 (ntt_vector_u (deserialize_then_decompress_ring_element_u
      (VECTOR_U_COMPRESSION_FACTOR p) (subslice c (i * ?n) (i * ?n + ?n))))" if "i < RANK p" for i
  proof -
    have "(i + 1) * ?n \<le> RANK p * ?n" using that by (intro mult_le_mono1) simp
    moreover have "length c = RANK p * ?n + 32 * VECTOR_V_COMPRESSION_FACTOR p" using assms by (simp add: sizes)
    ultimately have "i * ?n + ?n \<le> length c" by (simp only: distrib_right)
    then have "length (subslice c (i * ?n) (i * ?n + ?n)) = ?n" by simp
    then have "ring_bounded 3328 (deserialize_then_decompress_ring_element_u (VECTOR_U_COMPRESSION_FACTOR p) (subslice c (i * ?n) (i * ?n + ?n)))"
      using du decompressed_bounded(1) [OF deserialize_then_decompress_10_eq codec_10.decode_range]
        decompressed_bounded(1) [OF deserialize_then_decompress_11_eq codec_11.decode_range]
      by (auto simp: deserialize_then_decompress_ring_element_u_def)
    then show ?thesis using ring_bounded_mono [OF ntt_vector_u_refines(2)] by simp
  qed
  ultimately show "vector_bounded (RANK p) 4095 (deserialize_then_decompress_u p c)" by (simp add: vector_bounded_map)
  have "length (drop (C1_SIZE p) c) = 32 * VECTOR_V_COMPRESSION_FACTOR p" using assms by (simp add: sizes)
  then show "ring_bounded 3328 (deserialize_then_decompress_ring_element_v (VECTOR_V_COMPRESSION_FACTOR p) (drop (C1_SIZE p) c))"
    using dv decompressed_bounded(1) [OF deserialize_then_decompress_4_eq codec_4.decode_range]
      decompressed_bounded(1) [OF deserialize_then_decompress_5_eq codec_5.decode_range]
    by (auto simp: deserialize_then_decompress_ring_element_v_def)
qed

lemma decrypt_unpacked_cong:
  assumes "vector_bounded (RANK p) 4095 sk" and "vector_bounded (RANK p) 4095 sk'"
    and "\<And>i. i < RANK p \<Longrightarrow> poly_of (sk ! i) = poly_of (sk' ! i)" and "length c = CPA_PKE_CIPHERTEXT_SIZE p"
  shows "decrypt_unpacked p sk c = decrypt_unpacked p sk' c"
proof -
  note d = decoded_ciphertext [OF assms(4)]
  note w = compute_message_refines [OF rank(2) assms(1) d] compute_message_refines [OF rank(2) assms(2) d]
  show ?thesis
    using encodings_cong(3) [OF w(1,3)] assms(3) by (simp add: decrypt_unpacked_def Let_def w(2,4))
qed

lemma length_decrypt_unpacked:
  assumes "vector_bounded (RANK p) 4095 sk" and "length c = CPA_PKE_CIPHERTEXT_SIZE p"
  shows "length (decrypt_unpacked p sk c) = 32"
proof -
  note w = compute_message_refines(1) [OF rank(2) assms(1) decoded_ciphertext [OF assms(2)]]
  have "ring_bounded 3328 (compute_message (RANK p) (deserialize_then_decompress_ring_element_v (VECTOR_V_COMPRESSION_FACTOR p)
      (drop (C1_SIZE p) c)) sk (deserialize_then_decompress_u p c))" by (rule ring_bounded_mono [OF w]) simp
  then show ?thesis
    using codec_1.decode_encode(2) [OF _ coeffs_in_compress, where v1 = "coeffs _"]
    by (simp add: decrypt_unpacked_def Let_def compress_then_serialize_message_eq compressed_encoding_def ring_bounded_ok del: One_nat_def)
qed

end

subsection \<open>Encoded vectors\<close>

definition encode_vector :: "nat \<Rightarrow> ring_element list \<Rightarrow> u8 list" where
  "encode_vector K v = concat (map (\<lambda>i. serialize_uncompressed_ring_element (v ! i)) [0..<K])"

lemma decoded_element:
  assumes "ring_bounded 3328 re"
  shows "ring_bounded 3328 (deserialize_to_uncompressed_ring_element (serialize_uncompressed_ring_element re))"
    and "poly_of (deserialize_to_uncompressed_ring_element (serialize_uncompressed_ring_element re)) = poly_of re"
    and "ring_bounded 3328 (deserialize_to_reduced_ring_element (serialize_uncompressed_ring_element re))"
    and "poly_of (deserialize_to_reduced_ring_element (serialize_uncompressed_ring_element re)) = poly_of re"
proof -
  note c = uncompressed_codec [OF assms]
  have ok: "ring_ok (deserialize_to_uncompressed_ring_element (serialize_uncompressed_ring_element re))"
    "ring_ok (deserialize_to_reduced_ring_element (serialize_uncompressed_ring_element re))"
    by (rule deserialize_to_uncompressed_ring_element_eq [OF c(1)], rule deserialize_to_reduced_ring_element_eq [OF c(1)])
  have m: "\<bar>x mod 3329\<bar> \<le> 3328" for x :: int by (smt (verit) pos_mod_bound pos_mod_sign)
  show "ring_bounded 3328 (deserialize_to_uncompressed_ring_element (serialize_uncompressed_ring_element re))"
    "ring_bounded 3328 (deserialize_to_reduced_ring_element (serialize_uncompressed_ring_element re))"
    using ok m by (auto simp: ring_bounded_iff c)
  show "poly_of (deserialize_to_uncompressed_ring_element (serialize_uncompressed_ring_element re)) = poly_of re"
    "poly_of (deserialize_to_reduced_ring_element (serialize_uncompressed_ring_element re)) = poly_of re"
    using ok assms by (simp_all add: poly_of_def c modq_def comp_def)
qed

lemma encode_vector_decode:
  assumes "vector_bounded K 3328 v" and "length init = K"
  shows "length (encode_vector K v) = 384 * K"
    and "deserialize_vector K (encode_vector K v) init
      = map (\<lambda>i. deserialize_to_uncompressed_ring_element (serialize_uncompressed_ring_element (v ! i))) [0..<K]"
    and "deserialize_ring_elements_reduced (encode_vector K v) init
      = map (\<lambda>i. deserialize_to_reduced_ring_element (serialize_uncompressed_ring_element (v ! i))) [0..<K]"
proof -
  note b = vector_bounded_nth [OF assms(1)]
  show l: "length (encode_vector K v) = 384 * K" using length_serialized_vector b by (simp add: encode_vector_def)
  note ch = chunks_serialized_vector [of K v, OF b, folded encode_vector_def]
  show "deserialize_vector K (encode_vector K v) init
      = map (\<lambda>i. deserialize_to_uncompressed_ring_element (serialize_uncompressed_ring_element (v ! i))) [0..<K]"
    using deserialize_vector_eq [OF l assms(2)] ch by (simp add: comp_def)
  show "deserialize_ring_elements_reduced (encode_vector K v) init
      = map (\<lambda>i. deserialize_to_reduced_ring_element (serialize_uncompressed_ring_element (v ! i))) [0..<K]"
    using deserialize_ring_elements_reduced_eq [OF l assms(2)] ch by (simp add: comp_def)
qed

lemma decoded_vector:
  assumes "vector_bounded K 3328 v" and "length init = K"
  shows "vector_bounded K 3328 (deserialize_vector K (encode_vector K v) init)"
    and "i < K \<Longrightarrow> poly_of (deserialize_vector K (encode_vector K v) init ! i) = poly_of (v ! i)"
    and "vector_bounded K 3328 (deserialize_ring_elements_reduced (encode_vector K v) init)"
    and "i < K \<Longrightarrow> poly_of (deserialize_ring_elements_reduced (encode_vector K v) init ! i) = poly_of (v ! i)"
  unfolding encode_vector_decode(2,3) [OF assms]
  using decoded_element [OF vector_bounded_nth [OF assms(1)]] by (simp_all add: vector_bounded_map)

subsection \<open>The sampled matrix\<close>

definition matrix_of :: "nat \<Rightarrow> u8 list \<Rightarrow> ring_element list list" where
  "matrix_of K rho = map (\<lambda>i. map (\<lambda>j. the (matrix_entry (into_padded_array 34 rho) i j)) [0..<K]) [0..<K]"

definition transposed_matrix :: "nat \<Rightarrow> 'a list list \<Rightarrow> 'a list list" where
  "transposed_matrix K A = map (\<lambda>i. map (\<lambda>j. A ! j ! i) [0..<K]) [0..<K]"

lemma matrix_entry_bounded:
  assumes "matrix_entry seed i j = Some re"
  shows "ring_bounded 3328 re"
proof -
  obtain a where a: "sample_ntt (shake128_stream (seed[32 := of_nat i, 33 := of_nat j])) = Some a" "re = from_i16_array_d6 a"
    using assms by (auto simp: matrix_entry_def)
  note r = sample_ntt_range [OF a(1)]
  have "\<bar>x\<bar> \<le> 3328" if "x \<in> set a" for x using r(2) [OF that] by simp
  then show ?thesis using from_i16_array_d6_ok [OF r(1)] by (simp add: ring_bounded_iff a(2))
qed

lemma matrix_of_bounded:
  assumes "entries_exist K (into_padded_array 34 rho)"
  shows "matrix_bounded K 3328 (matrix_of K rho)" and "matrix_bounded K 3328 (transposed_matrix K (matrix_of K rho))"
proof -
  have "ring_bounded 3328 (the (matrix_entry (into_padded_array 34 rho) i j))" if ij: "i < K" "j < K" for i j
  proof -
    obtain re where "matrix_entry (into_padded_array 34 rho) i j = Some re"
      using assms ij by (fastforce simp: entries_exist_def list_all_iff)
    then show ?thesis using matrix_entry_bounded by simp
  qed
  then show "matrix_bounded K 3328 (matrix_of K rho)" "matrix_bounded K 3328 (transposed_matrix K (matrix_of K rho))"
    by (auto simp: matrix_bounded_def matrix_of_def transposed_matrix_def list_all_iff intro: vector_bounded_map)
qed

lemma matrix_bounded_mono: "matrix_bounded K b A \<Longrightarrow> b \<le> c \<Longrightarrow> matrix_bounded K c A"
  by (auto simp: matrix_bounded_def list_all_iff intro: vector_bounded_mono)

lemma sample_matrix_A_matrix_of:
  assumes "matrix_shape K A" and "length rho = 32"
  shows "sample_matrix_A K A (into_padded_array 34 rho) False
      = (if entries_exist K (into_padded_array 34 rho) then Some (matrix_of K rho) else None)"
    and "sample_matrix_A K A (into_padded_array 34 rho) True
      = (if entries_exist K (into_padded_array 34 rho) then Some (transposed_matrix K (matrix_of K rho)) else None)"
proof -
  have "length (into_padded_array 34 rho) = 34" using assms(2) by (simp add: into_padded_array_eq)
  then show "sample_matrix_A K A (into_padded_array 34 rho) False
      = (if entries_exist K (into_padded_array 34 rho) then Some (matrix_of K rho) else None)"
    "sample_matrix_A K A (into_padded_array 34 rho) True
      = (if entries_exist K (into_padded_array 34 rho) then Some (transposed_matrix K (matrix_of K rho)) else None)"
    by (simp_all add: sample_matrix_A_eq [OF assms(1)] matrix_of_def transposed_matrix_def)
qed

lemma matrix_shape_default: "matrix_shape K (matrix_A (default_ind_cpa_public_key K))"
  by (simp add: matrix_shape_def default_ind_cpa_public_key_def list_all_iff)

subsection \<open>Key generation\<close>

text \<open>What the seed determines: the seed of the matrix, the secret and the error.\<close>

definition keygen_rho :: "mlkem_params \<Rightarrow> u8 list \<Rightarrow> u8 list" where
  "keygen_rho p d = take 32 (cpa_keygen_seed (RANK p) d)"

definition keygen_s :: "mlkem_params \<Rightarrow> u8 list \<Rightarrow> ring_element list" where
  "keygen_s p d = cbd_vector (RANK p) (ETA1 p) (into_padded_array 33 (drop 32 (cpa_keygen_seed (RANK p) d))) 0"

definition keygen_e :: "mlkem_params \<Rightarrow> u8 list \<Rightarrow> ring_element list" where
  "keygen_e p d = cbd_vector (RANK p) (ETA1 p) (into_padded_array 33 (drop 32 (cpa_keygen_seed (RANK p) d))) (of_nat (RANK p))"

definition keygen_sk :: "mlkem_params \<Rightarrow> u8 list \<Rightarrow> ring_element list" where
  "keygen_sk p d = map ntt_binomially_sampled_ring_element (keygen_s p d)"

definition keygen_t :: "mlkem_params \<Rightarrow> u8 list \<Rightarrow> ring_element list" where
  "keygen_t p d = compute_As_plus_e (RANK p) (replicate (RANK p) ZERO_d6) (transposed_matrix (RANK p) (matrix_of (RANK p) (keygen_rho p d)))
     (keygen_sk p d) (map ntt_binomially_sampled_ring_element (keygen_e p d))"

text \<open>The matrix exists: the rejection sampling of each of its entries ends.\<close>

definition matrix_exists :: "mlkem_params \<Rightarrow> u8 list \<Rightarrow> bool" where
  "matrix_exists p rho = entries_exist (RANK p) (into_padded_array 34 rho)"

definition rebuilt_public_key :: "mlkem_params \<Rightarrow> u8 list \<Rightarrow> ind_cpa_public_key" where
  "rebuilt_public_key p pk = \<lparr>t_as_ntt = deserialize_ring_elements_reduced (take (T_AS_NTT_ENCODED_SIZE p) pk) (replicate (RANK p) ZERO_d6),
     seed_for_A = replicate 32 0, matrix_A = matrix_of (RANK p) (drop (T_AS_NTT_ENCODED_SIZE p) pk)\<rparr>"

lemma public_key_updated: "pk\<lparr>t_as_ntt := t, seed_for_A := seed, matrix_A := A\<rparr> = \<lparr>t_as_ntt = t, seed_for_A = seed, matrix_A = A\<rparr>"
  by (cases pk) simp

lemma length_cpa_keygen_seed [simp]: "length (cpa_keygen_seed K d) = 64"
  by (simp add: cpa_keygen_seed_def Let_def)

lemma length_keygen_rho [simp]: "length (keygen_rho p d) = 32"
  by (simp add: keygen_rho_def)

context valid_params
begin

lemma keygen_bounded:
  "vector_bounded (RANK p) 3 (keygen_s p d)"
  "vector_bounded (RANK p) 3 (keygen_e p d)"
  unfolding keygen_s_def keygen_e_def by (rule cbd_vector_bounded [OF eta1])+

lemma ntt_binomial_3328:
  assumes "vector_bounded K 3 r"
  shows "vector_bounded K 3328 (map ntt_binomially_sampled_ring_element r)"
proof -
  have l: "length r = K" and b: "\<And>i. i < K \<Longrightarrow> ring_bounded 3 (r ! i)"
    using assms by (simp_all add: vector_bounded_def list_all_length)
  then show ?thesis
    using ring_bounded_mono [OF ntt_binomially_sampled_refines(2), of _ 3328] by (simp add: vector_bounded_def list_all_length)
qed

lemma keygen_t_indep:
  assumes "length t = RANK p"
  shows "compute_As_plus_e (RANK p) t A s e = compute_As_plus_e (RANK p) (replicate (RANK p) ZERO_d6) A s e"
  using compute_As_plus_e_eq [OF assms] compute_As_plus_e_eq [OF length_replicate] by simp

lemma generate_keypair_unpacked_eq:
  assumes "length sk0 = RANK p" and "length (t_as_ntt pk0) = RANK p" and "matrix_shape (RANK p) (matrix_A pk0)"
  shows "generate_keypair_unpacked p d sk0 pk0 = (if matrix_exists p (keygen_rho p d)
    then Some (keygen_sk p d, pk0\<lparr>t_as_ntt := keygen_t p d, seed_for_A := keygen_rho p d, matrix_A := transposed_matrix (RANK p) (matrix_of (RANK p) (keygen_rho p d))\<rparr>)
    else None)"
  using sample_matrix_A_matrix_of(2) [OF assms(3) length_keygen_rho, of p d, unfolded keygen_rho_def]
  by (simp add: generate_keypair_unpacked_def Let_def sizes(9) sample_vector_cbd_then_ntt_eq assms(1)
      keygen_t_indep [OF assms(2)]
      keygen_t_def keygen_sk_def keygen_s_def keygen_e_def keygen_rho_def matrix_exists_def)

lemma keygen_t_refines:
  assumes "matrix_exists p (keygen_rho p d)"
  shows "vector_bounded (RANK p) 1664 (keygen_t p d)"
    and "i < RANK p \<Longrightarrow> poly_of (keygen_t p d ! i)
      = (\<Sum>j < RANK p. poly_of (matrix_of (RANK p) (keygen_rho p d) ! j ! i) * ntt_fpoly (poly_of (keygen_s p d ! j)))
        + ntt_fpoly (poly_of (keygen_e p d ! i))"
proof -
  have A: "matrix_bounded (RANK p) 4095 (transposed_matrix (RANK p) (matrix_of (RANK p) (keygen_rho p d)))"
    by (rule matrix_bounded_mono [OF matrix_of_bounded(2) [OF assms [unfolded matrix_exists_def]]]) simp
  note s = ntt_r [OF keygen_bounded(1) [of d], folded keygen_sk_def] and e = ntt_r [OF keygen_bounded(2) [of d]]
  note c = compute_As_plus_e_refines [OF rank(2) length_replicate [where x = ZERO_d6] A s(1) vector_bounded_mono [OF e(1)], folded keygen_t_def]
  show "vector_bounded (RANK p) 1664 (keygen_t p d)" by (rule c(1)) simp
  show "i < RANK p \<Longrightarrow> poly_of (keygen_t p d ! i)
      = (\<Sum>j < RANK p. poly_of (matrix_of (RANK p) (keygen_rho p d) ! j ! i) * ntt_fpoly (poly_of (keygen_s p d ! j)))
        + ntt_fpoly (poly_of (keygen_e p d ! i))"
    using c(2) s(2) e(2) by (simp add: transposed_matrix_def)
qed

text \<open>The pair of unpacked keys, with the matrix in the layout of encryption.\<close>

lemma keygen_pair_ok:
  assumes "matrix_exists p (keygen_rho p d)"
  shows "key_pair_ok p (keygen_sk p d) \<lparr>t_as_ntt = keygen_t p d, seed_for_A = seed, matrix_A = matrix_of (RANK p) (keygen_rho p d)\<rparr>
    (keygen_s p d) (keygen_e p d)"
proof -
  have "matrix_bounded (RANK p) 4095 (matrix_of (RANK p) (keygen_rho p d))"
    by (rule matrix_bounded_mono [OF matrix_of_bounded(1) [OF assms [unfolded matrix_exists_def]]]) simp
  moreover have "vector_bounded (RANK p) 4095 (keygen_t p d)"
    by (rule vector_bounded_mono [OF keygen_t_refines(1) [OF assms]]) simp
  ultimately show ?thesis
    using ntt_r [OF keygen_bounded(1) [of d], folded keygen_sk_def] keygen_t_refines(2) [OF assms]
    by (simp add: key_pair_ok_def public_key_ok_def)
qed

lemma keygen_sk_bounded: "vector_bounded (RANK p) 3328 (keygen_sk p d)"
  unfolding keygen_sk_def by (rule ntt_binomial_3328 [OF keygen_bounded(1)])

lemma keygen_t_bounded: "matrix_exists p (keygen_rho p d) \<Longrightarrow> vector_bounded (RANK p) 3328 (keygen_t p d)"
  by (rule vector_bounded_mono [OF keygen_t_refines(1)]) simp_all

subsection \<open>Packed keys\<close>

lemma serialize_unpacked_secret_key_eq:
  assumes "vector_bounded (RANK p) 3328 sk" and "vector_bounded (RANK p) 3328 (t_as_ntt pk)" and "length (seed_for_A pk) = 32"
  shows "serialize_unpacked_secret_key p pk sk = (encode_vector (RANK p) sk, encode_vector (RANK p) (t_as_ntt pk) @ seed_for_A pk)"
  using serialize_public_key_eq [OF vector_bounded_nth [OF assms(2)] assms(3)]
    serialize_vector_eq [OF vector_bounded_nth [OF assms(1)], where out = "replicate (384 * RANK p) 0"]
  by (simp add: serialize_unpacked_secret_key_def Let_def sizes encode_vector_def)

lemma default_key_shapes:
  "length (default_ind_cpa_private_key (RANK p)) = RANK p" "length (t_as_ntt (default_ind_cpa_public_key (RANK p))) = RANK p"
  by (simp_all add: default_ind_cpa_private_key_def default_ind_cpa_public_key_def)

lemmas generate_default_keypair_eq = generate_keypair_unpacked_eq [OF default_key_shapes matrix_shape_default]

lemma cpa_generate_keypair_eq:
  "cpa_generate_keypair p d = (if matrix_exists p (keygen_rho p d)
    then Some (encode_vector (RANK p) (keygen_sk p d), encode_vector (RANK p) (keygen_t p d) @ keygen_rho p d) else None)"
  by (simp add: cpa_generate_keypair_def generate_default_keypair_eq serialize_unpacked_secret_key_eq keygen_sk_bounded keygen_t_bounded)

text \<open>Every byte string of the length of a public key decodes to bounded ring elements.\<close>

lemma decoded_public_key:
  assumes "length bs = 384 * K" and "length init = K"
  shows "vector_bounded K 3328 (deserialize_ring_elements_reduced bs init)"
proof -
  have l: "length c = 384" if "c \<in> set (chunks 384 bs)" for c
    using chunks_member_length [of 384 bs K] assms(1) that by (simp add: mult.commute)
  have "ring_bounded 3328 (deserialize_to_reduced_ring_element c)" if "length c = 384" for c
    using deserialize_to_reduced_ring_element_eq [OF that]
    by (auto simp: ring_bounded_iff abs_le_iff)
  then show ?thesis
    using l length_chunks [of 384 bs K] assms
    by (auto simp: deserialize_ring_elements_reduced_eq [OF assms] vector_bounded_def list_all_iff mult.commute)
qed

lemma build_unpacked_public_key_eq:
  assumes "length pk = CPA_PKE_PUBLIC_KEY_SIZE p"
  shows "build_unpacked_public_key p pk
      = (if matrix_exists p (drop (T_AS_NTT_ENCODED_SIZE p) pk) then Some (rebuilt_public_key p pk) else None)"
    and "matrix_exists p (drop (T_AS_NTT_ENCODED_SIZE p) pk) \<Longrightarrow> public_key_ok p (rebuilt_public_key p pk)"
proof -
  have l: "length (drop (T_AS_NTT_ENCODED_SIZE p) pk) = 32" "length (take (T_AS_NTT_ENCODED_SIZE p) pk) = 384 * RANK p"
    using assms by (simp_all add: sizes)
  show "build_unpacked_public_key p pk
      = (if matrix_exists p (drop (T_AS_NTT_ENCODED_SIZE p) pk) then Some (rebuilt_public_key p pk) else None)"
    using sample_matrix_A_matrix_of(1) [OF matrix_shape_default l(1), of "RANK p"]
    by (simp add: build_unpacked_public_key_def build_unpacked_public_key_mut_def Let_def matrix_exists_def rebuilt_public_key_def subslice_def
        default_ind_cpa_public_key_def)
  show "public_key_ok p (rebuilt_public_key p pk)" if "matrix_exists p (drop (T_AS_NTT_ENCODED_SIZE p) pk)"
    using vector_bounded_mono [OF decoded_public_key [OF l(2) length_replicate]]
      matrix_bounded_mono [OF matrix_of_bounded(1) [OF that [unfolded matrix_exists_def]]]
    by (simp add: public_key_ok_def rebuilt_public_key_def)
qed

lemma rebuilt_public_key_encoded:
  assumes "vector_bounded (RANK p) 3328 t" and "length rho = 32"
  shows "length (encode_vector (RANK p) t @ rho) = CPA_PKE_PUBLIC_KEY_SIZE p"
    and "drop (T_AS_NTT_ENCODED_SIZE p) (encode_vector (RANK p) t @ rho) = rho"
    and "same_public_key p (rebuilt_public_key p (encode_vector (RANK p) t @ rho))
      \<lparr>t_as_ntt = t, seed_for_A = seed, matrix_A = matrix_of (RANK p) rho\<rparr>"
proof -
  note l = encode_vector_decode(1) [OF assms(1) length_replicate]
  show "length (encode_vector (RANK p) t @ rho) = CPA_PKE_PUBLIC_KEY_SIZE p"
    "drop (T_AS_NTT_ENCODED_SIZE p) (encode_vector (RANK p) t @ rho) = rho" using l assms(2) by (simp_all add: sizes)
  show "same_public_key p (rebuilt_public_key p (encode_vector (RANK p) t @ rho))
      \<lparr>t_as_ntt = t, seed_for_A = seed, matrix_A = matrix_of (RANK p) rho\<rparr>"
    using l decoded_vector(4) [OF assms(1) length_replicate] by (simp add: same_public_key_def rebuilt_public_key_def sizes)
qed

lemma cpa_encrypt_eq:
  "length pk = CPA_PKE_PUBLIC_KEY_SIZE p \<Longrightarrow> cpa_encrypt p pk m randomness
    = (if matrix_exists p (drop (T_AS_NTT_ENCODED_SIZE p) pk) then Some (encrypt_unpacked p (rebuilt_public_key p pk) m randomness) else None)"
  by (simp add: cpa_encrypt_def build_unpacked_public_key_eq(1))

text \<open>The packed keys represent the same pair as the unpacked ones.\<close>

lemma packed_pair_ok:
  assumes "matrix_exists p (keygen_rho p d)"
  shows "key_pair_ok p (deserialize_vector (RANK p) (encode_vector (RANK p) (keygen_sk p d)) (replicate (RANK p) ZERO_d6))
    (rebuilt_public_key p (encode_vector (RANK p) (keygen_t p d) @ keygen_rho p d)) (keygen_s p d) (keygen_e p d)"
proof -
  note t = rebuilt_public_key_encoded(1,2) [OF keygen_t_bounded [OF assms] length_keygen_rho]
    rebuilt_public_key_encoded(3) [OF keygen_t_bounded [OF assms] length_keygen_rho, where seed = "[]"]
  note s = decoded_vector(1,2) [OF keygen_sk_bounded [of d] length_replicate [where x = ZERO_d6]]
  note ok = keygen_pair_ok [OF assms, of "[]"]
  have "public_key_ok p (rebuilt_public_key p (encode_vector (RANK p) (keygen_t p d) @ keygen_rho p d))"
    using build_unpacked_public_key_eq(2) [OF t(1)] t(2) assms by simp
  then show ?thesis
    using t(3) ok s(2) vector_bounded_mono [OF s(1), of 4095] by (simp add: key_pair_ok_def same_public_key_def)
qed

lemma packed_same_results:
  assumes "matrix_exists p (keygen_rho p d)" and "length m = 32"
  shows "encrypt_unpacked p (rebuilt_public_key p (encode_vector (RANK p) (keygen_t p d) @ keygen_rho p d)) m randomness
      = encrypt_unpacked p \<lparr>t_as_ntt = keygen_t p d, seed_for_A = seed, matrix_A = matrix_of (RANK p) (keygen_rho p d)\<rparr> m randomness"
    and "length c = CPA_PKE_CIPHERTEXT_SIZE p \<Longrightarrow>
      cpa_decrypt p (encode_vector (RANK p) (keygen_sk p d)) c = decrypt_unpacked p (keygen_sk p d) c"
proof -
  note pok = packed_pair_ok [OF assms(1)] and uok = keygen_pair_ok [OF assms(1), of seed]
  note t = rebuilt_public_key_encoded(3) [OF keygen_t_bounded [OF assms(1)] length_keygen_rho, where seed = seed]
  show "encrypt_unpacked p (rebuilt_public_key p (encode_vector (RANK p) (keygen_t p d) @ keygen_rho p d)) m randomness
      = encrypt_unpacked p \<lparr>t_as_ntt = keygen_t p d, seed_for_A = seed, matrix_A = matrix_of (RANK p) (keygen_rho p d)\<rparr> m randomness"
    using encrypt_unpacked_cong [OF _ _ t assms(2)] pok uok by (simp add: key_pair_ok_def)
  show "cpa_decrypt p (encode_vector (RANK p) (keygen_sk p d)) c = decrypt_unpacked p (keygen_sk p d) c"
    if "length c = CPA_PKE_CIPHERTEXT_SIZE p"
    using decrypt_unpacked_cong [OF _ _ _ that] pok uok by (simp add: cpa_decrypt_def key_pair_ok_def)
qed

end

lemma transposed_matrix_of: "transposed_matrix K (transposed_matrix K (matrix_of K rho)) = matrix_of K rho"
  by (simp add: transposed_matrix_def matrix_of_def cong: map_cong)

subsection \<open>Correctness of decryption\<close>

text \<open>
  A pair of keys without secrets: all ring elements are zero. The noise of an encryption under it is the second error
  and the rounding of \<open>v\<close>, so it is small for every message and randomness.
\<close>

definition zero_public_key :: "nat \<Rightarrow> ind_cpa_public_key" where
  "zero_public_key K = \<lparr>t_as_ntt = replicate K ZERO_d6, seed_for_A = [], matrix_A = replicate K (replicate K ZERO_d6)\<rparr>"

lemma mul_zero [simp]: "mul_fpoly 0 a = 0"
  by (simp add: inv_mult [symmetric])

lemma zero_key_pair_ok: "key_pair_ok p (replicate (RANK p) ZERO_d6) (zero_public_key (RANK p)) (replicate (RANK p) ZERO_d6) (replicate (RANK p) ZERO_d6)"
  by (simp add: key_pair_ok_def public_key_ok_def zero_public_key_def vector_bounded_def matrix_bounded_def list_all_iff ring_bounded_ZERO)

lemma rounded_bit_noise:
  assumes "e \<in> {0, 1, 2, 3, 3326, 3327, 3328}" and "b = 0 \<or> b = 1665"
  shows "(decompress_spec 4 (compress_spec 4 ((e + b) mod 3329)) - b) mod 3329 \<le> 831
    \<or> 2497 \<le> (decompress_spec 4 (compress_spec 4 ((e + b) mod 3329)) - b) mod 3329"
  using assms by (auto simp: decompress_spec_def compress_spec_def)

lemma small_residue: "\<bar>x :: int\<bar> \<le> 3 \<Longrightarrow> x mod 3329 \<in> {0, 1, 2, 3, 3326, 3327, 3328}"
proof -
  assume "\<bar>x\<bar> \<le> 3"
  then have "x \<in> {- 3, - 2, - 1, 0, 1, 2, 3}" by auto
  then show ?thesis by auto
qed

context valid_params
begin

lemma zero_key_noise:
  assumes "VECTOR_V_COMPRESSION_FACTOR p = 4" and "length m = 32"
  shows "small_noise (encryption_noise p (zero_public_key (RANK p)) (replicate (RANK p) ZERO_d6) (replicate (RANK p) ZERO_d6) m randomness)"
    (is "small_noise ?n")
proof -
  let ?pk = "zero_public_key (RANK p)" and ?e2 = "encryption_e2 p randomness" and ?mu = "deserialize_then_decompress_message m"
  have pk: "public_key_ok p ?pk" using zero_key_pair_ok by (simp add: key_pair_ok_def)
  have "poly_of (encryption_v p ?pk m randomness) = poly_of ?e2 + poly_of ?mu"
    using v_refines(2) [OF pk assms(2)] by (simp add: zero_public_key_def)
  then have n: "?n = lossy 4 (poly_of ?e2 + poly_of ?mu) - poly_of ?mu"
    by (simp add: encryption_noise_def decryption_noise_def assms(1))
  note d = deserialize_then_decompress_message_eq [OF assms(2)]
  have ok: "ring_ok ?e2" "ring_ok ?mu" using r_bounded(3) d(1) by (auto intro: ring_bounded_ok)
  then have l: "length (coeffs ?e2) = 256" "length (coeffs ?mu) = 256" by simp_all
  have r: "coeffs_in 1 (byte_decode 1 m)" using codec_1.decode_range assms(2) by simp
  show ?thesis unfolding small_noise_def list_all_length
  proof (intro allI impI)
    fix i assume "i < length (list_of_fpoly ?n)"
    then have i: "i < 256" by simp
    define x where "x = coeffs ?e2 ! i"
    define b where "b = coeffs ?mu ! i"
    have "\<bar>x\<bar> \<le> 3" unfolding x_def using l i by (intro ring_bounded_coeffs [OF r_bounded(3) [of randomness]] nth_mem) simp
    then have "x mod 3329 \<in> {0, 1, 2, 3, 3326, 3327, 3328}" by (rule small_residue)
    moreover have "byte_decode 1 m ! i \<in> {0, 1}" using r l i d(2) by (auto simp: coeffs_in_def list_all_length simp del: One_nat_def)
    then have "b = 0 \<or> b = 1665"
      unfolding b_def d(2) using l i d(2) by (auto simp: decompress_spec_def simp del: One_nat_def)
    moreover note \<open>b = 0 \<or> b = 1665\<close>
    moreover have "list_of_fpoly ?n ! i = (decompress_spec 4 (compress_spec 4 ((x mod 3329 + b) mod 3329)) - b) mod 3329"
      using i l ok \<open>b = 0 \<or> b = 1665\<close>
      by (simp add: n minus_fpoly.rep_eq plus_fpoly.rep_eq list_of_lossy list_of_poly_of zipq_nth modq_nth x_def [symmetric] b_def [symmetric] mod_simps)
    ultimately show "list_of_fpoly ?n ! i \<le> 831 \<or> 2497 \<le> list_of_fpoly ?n ! i" using rounded_bit_noise by simp
  qed
qed

end

text \<open>
  C5. For each of the three parameter sets: if the private key is the transform of a secret \<open>s\<close>, the
  public key holds \<open>A s + e\<close>, and every coefficient of the decryption noise of this message and
  randomness lies within - 832 and 831 modulo 3329, then decrypting the encryption of a 32-byte
  message gives the message back.
\<close>

theorem kpke_decryption_correct:
  assumes "p \<in> set all_params" and "key_pair_ok p sk pk s e" and "length m = 32"
    and "small_noise (encryption_noise p pk s e m randomness)"
  shows "decrypt_unpacked p sk (encrypt_unpacked p pk m randomness) = m"
  using valid_params.decrypt_encrypt [OF all_params_valid [OF assms(1)] assms(2-4)] .

theorem kpke_decryption_correct_witness:
  "decrypt_unpacked mlkem768 (replicate 3 ZERO_d6) (encrypt_unpacked mlkem768 (zero_public_key 3) (replicate 32 90) (replicate 32 7))
    = replicate 32 90"
  using kpke_decryption_correct [of mlkem768 "replicate 3 ZERO_d6" "zero_public_key 3" "replicate 3 ZERO_d6" "replicate 3 ZERO_d6"
      "replicate 32 90" "replicate 32 7"] zero_key_pair_ok [of mlkem768]
    params_768.zero_key_noise [of "replicate 32 90" "replicate 32 7"]
  by (simp add: all_params_def mlkem768_def)

text \<open>
  C6. For each parameter set, the operations with packed keys (the byte strings that key generation returns)
  compute what the operations with unpacked keys compute on the same seed: the same
  ciphertext and the same decryption of it, and key generation, encryption and
  decryption return exactly when the matrix can be sampled.
\<close>

theorem kpke_packed_keys:
  assumes "p \<in> set all_params" and "length m = 32"
  shows "Option.bind (cpa_generate_keypair p d) (\<lambda>(sk, pk). map_option (\<lambda>c. (c, cpa_decrypt p sk c)) (cpa_encrypt p pk m randomness))
    = map_option (\<lambda>(sk, pk). let c = encrypt_unpacked p (pk\<lparr>matrix_A := transposed_matrix (RANK p) (matrix_A pk)\<rparr>) m randomness
          in (c, decrypt_unpacked p sk c))
        (generate_keypair_unpacked p d (default_ind_cpa_private_key (RANK p)) (default_ind_cpa_public_key (RANK p)))"
    (is "?l = ?r")
proof -
  from assms(1) have "valid_params p" by (rule all_params_valid)
  note v = valid_params.cpa_generate_keypair_eq [OF this] valid_params.generate_default_keypair_eq [OF this] valid_params.cpa_encrypt_eq [OF this]
  note q = valid_params.packed_same_results [OF \<open>valid_params p\<close> _ assms(2)]
    valid_params.rebuilt_public_key_encoded(1,2) [OF \<open>valid_params p\<close> valid_params.keygen_t_bounded [OF \<open>valid_params p\<close>] length_keygen_rho]
  have len: "length (encrypt_unpacked p \<lparr>t_as_ntt = keygen_t p d, seed_for_A = keygen_rho p d, matrix_A = matrix_of (RANK p) (keygen_rho p d)\<rparr> m randomness)
      = CPA_PKE_CIPHERTEXT_SIZE p" if "matrix_exists p (keygen_rho p d)"
    using valid_params.length_encrypt_unpacked [OF \<open>valid_params p\<close> _ assms(2)] valid_params.keygen_pair_ok [OF \<open>valid_params p\<close> that]
    by (simp add: key_pair_ok_def)
  show ?thesis
  proof (cases "matrix_exists p (keygen_rho p d)")
    case True
    then show ?thesis
      using q(2) [OF True len [OF True]] by (simp add: v(1,2) v(3) [OF q(3) [OF True]] q(4) [OF True] True Let_def del: drop_append
        add: transposed_matrix_of public_key_updated q(1) [OF True, where seed = "keygen_rho p d"])
  qed (simp add: v)
qed

theorem kpke_packed_keys_witness:
  "Option.bind (cpa_generate_keypair mlkem512 (replicate 32 1))
      (\<lambda>(sk, pk). map_option (\<lambda>c. (c, cpa_decrypt mlkem512 sk c)) (cpa_encrypt mlkem512 pk (replicate 32 5) (replicate 32 7)))
    = map_option (\<lambda>(sk, pk). let c = encrypt_unpacked mlkem512 (pk\<lparr>matrix_A := transposed_matrix 2 (matrix_A pk)\<rparr>) (replicate 32 5) (replicate 32 7)
          in (c, decrypt_unpacked mlkem512 sk c))
        (generate_keypair_unpacked mlkem512 (replicate 32 1) (default_ind_cpa_private_key 2) (default_ind_cpa_public_key 2))"
  using kpke_packed_keys [of mlkem512 "replicate 32 5" "replicate 32 1" "replicate 32 7"]
  by (simp add: all_params_def mlkem512_def)

end
