(* ===== verification/MLKEM_CtOps.thy ===== *)
theory MLKEM_CtOps
  imports Libcrux_Prelude
begin

section \<open>Constant-time comparison and selection\<close>

text \<open>
  The byte operations of \<open>libcrux_ct_ops.c\<close> that decapsulation uses for implicit rejection: a
  comparison of two ciphertexts and a selection between two shared secrets, both without a branch on
  secret data. The lemmas show that the branch-free code computes the comparison and the
  conditional one expects. (Timing is not part of the model.)
\<close>

definition SHARED_SECRET_SIZE :: nat where
  "SHARED_SECRET_SIZE = 32"

definition inz :: "u8 \<Rightarrow> u8" where
  "inz byte =
    (let value0 = (ucast (ucast byte :: u32) :: u16);
         result = (ucast (drop_bit 8 (ucast (NOT value0 + 1) :: u32) AND 0xFFFF) :: u8)
     in ucast ((ucast result :: u32) AND 1))"

definition is_non_zero :: "u8 \<Rightarrow> u8" where
  "is_non_zero byte = inz byte"

definition compare_bytes :: "u8 list \<Rightarrow> u8 list \<Rightarrow> u8" where
  "compare_bytes lhs rhs =
    is_non_zero (for_loop 0 (length lhs) (\<lambda>i r. r OR (lhs ! i XOR rhs ! i)) 0)"

definition compare_ciphertexts_in_constant_time :: "u8 list \<Rightarrow> u8 list \<Rightarrow> u8" where
  "compare_ciphertexts_in_constant_time lhs rhs = compare_bytes lhs rhs"

definition select_ct :: "u8 list \<Rightarrow> u8 list \<Rightarrow> u8 \<Rightarrow> u8 list" where
  "select_ct lhs rhs selector =
    (let mask = is_non_zero selector - 1;
         out = replicate SHARED_SECRET_SIZE 0
     in for_loop 0 SHARED_SECRET_SIZE
          (\<lambda>i out. out[i := (lhs ! i AND mask) OR (rhs ! i AND NOT mask)]) out)"

definition select_shared_secret_in_constant_time :: "u8 list \<Rightarrow> u8 list \<Rightarrow> u8 \<Rightarrow> u8 list" where
  "select_shared_secret_in_constant_time lhs rhs selector = select_ct lhs rhs selector"

definition compare_ciphertexts_select_shared_secret_in_constant_time ::
    "u8 list \<Rightarrow> u8 list \<Rightarrow> u8 list \<Rightarrow> u8 list \<Rightarrow> u8 list" where
  "compare_ciphertexts_select_shared_secret_in_constant_time lhs_c rhs_c lhs_s rhs_s =
    select_shared_secret_in_constant_time lhs_s rhs_s
      (compare_ciphertexts_in_constant_time lhs_c rhs_c)"

subsection \<open>The flag of a byte\<close>

text \<open>
  The carry out of the low byte of \<open>- value\<close>: bit 8 of the 16-bit negation is set exactly when the
  byte is not zero.
\<close>

lemma neg_u16_bit8: "bit (- (ucast (b :: u8)) :: u16) 8 \<longleftrightarrow> b \<noteq> 0"
proof (cases "b = 0")
  case False
  then have u: "0 < uint b" "uint b < 256"
    using uint_lt2p [of b] by (auto simp: word_greater_zero_iff uint_0_iff order_less_le)
  have "uint (- (ucast b) :: u16) = (- uint b) mod 65536"
    by (simp add: uint_word_ariths unsigned_ucast_eq take_bit_eq_mod mod_minus_eq)
  also have "\<dots> = 65536 - uint b" using u by (simp add: zmod_zminus1_eq_if)
  finally have "uint (- (ucast b) :: u16) div 256 = 255" using u by simp
  then have "drop_bit 8 (uint (- (ucast b) :: u16)) = 255" by (simp add: drop_bit_eq_div)
  then have "bit (drop_bit 8 (uint (- (ucast b) :: u16))) 0" by (simp add: bit_0)
  then show ?thesis using False by (simp add: bit_drop_bit_eq bit_uint_iff)
qed simp

lemma inz_eq: "inz b = (if b = 0 then 0 else 1)"
proof -
  have neg: "NOT (ucast (ucast b :: u32) :: u16) + 1 = - (ucast b)"
    unfolding minus_eq_not_plus_1 [symmetric]
    by (rule arg_cong [where f = uminus], rule bit_word_eqI) (auto simp: bit_simps)
  have "bit (inz b) n \<longleftrightarrow> n = 0 \<and> bit (- (ucast b) :: u16) 8" for n
    unfolding inz_def Let_def neg by (auto simp: bit_simps bit_1_iff bit_0 simp del: unsigned_minus_1_eq_mask)
  then have "bit (inz b) n \<longleftrightarrow> bit (if b = 0 then 0 else 1 :: u8) n" for n
    by (simp add: neg_u16_bit8 bit_1_iff)
  then show ?thesis by (intro bit_word_eqI) simp
qed

subsection \<open>Comparison\<close>

lemma word_xor_eq_0_iff: "a XOR b = 0 \<longleftrightarrow> a = (b :: 'a :: len word)"
  by (metis xor.left_neutral xor.assoc xor_self_eq)

lemma fold_or_xor_eq_0:
  "n \<le> length lhs \<Longrightarrow> for_loop 0 n (\<lambda>i r. r OR (lhs ! i XOR rhs ! i)) (0 :: u8) = 0
    \<longleftrightarrow> (\<forall>i < n. lhs ! i = rhs ! i)"
  by (induction n) (auto simp: for_loop_last or_eq_0_iff less_Suc_eq word_xor_eq_0_iff)

lemma compare_bytes_eq:
  "length lhs = length rhs \<Longrightarrow> compare_bytes lhs rhs = (if lhs = rhs then 0 else 1)"
  unfolding compare_bytes_def is_non_zero_def inz_eq fold_or_xor_eq_0 [OF order_refl]
  by (simp add: list_eq_iff_nth_eq [of lhs rhs])

subsection \<open>Selection\<close>

lemma select_ct_eq:
  assumes "length lhs = SHARED_SECRET_SIZE" and "length rhs = SHARED_SECRET_SIZE"
  shows "select_ct lhs rhs selector = (if selector = 0 then lhs else rhs)"
proof -
  have "select_ct lhs rhs selector
      = map (\<lambda>i. (lhs ! i AND (is_non_zero selector - 1)) OR (rhs ! i AND NOT (is_non_zero selector - 1)))
          [0..<SHARED_SECRET_SIZE]"
    unfolding select_ct_def Let_def
    by (subst for_loop_update [where f = "\<lambda>i _. (lhs ! i AND (is_non_zero selector - 1))
          OR (rhs ! i AND NOT (is_non_zero selector - 1))"]) simp_all
  also have "\<dots> = map (\<lambda>i. (if selector = 0 then lhs else rhs) ! i) [0..<SHARED_SECRET_SIZE]"
    by (auto simp: is_non_zero_def inz_eq)
  finally show ?thesis using assms map_nth [of lhs] map_nth [of rhs] by simp
qed

text \<open>C15. The comparison of two ciphertexts of one length and the selection that follows it return the
  first secret exactly when the ciphertexts are equal, and the second one otherwise.\<close>

theorem compare_select_correct:
  assumes "length c = length c'" and "length s = SHARED_SECRET_SIZE" and "length s' = SHARED_SECRET_SIZE"
  shows "compare_ciphertexts_select_shared_secret_in_constant_time c c' s s' = (if c = c' then s else s')"
  using assms
  by (simp add: compare_ciphertexts_select_shared_secret_in_constant_time_def
      select_shared_secret_in_constant_time_def compare_ciphertexts_in_constant_time_def
      compare_bytes_eq select_ct_eq)

theorem compare_select_correct_witness:
  "compare_ciphertexts_select_shared_secret_in_constant_time [1, 2] [1, 3]
     (replicate 32 5) (replicate 32 6) = replicate 32 6"
  using compare_select_correct [of "[1, 2]" "[1, 3]" "replicate 32 5" "replicate 32 6"]
  by (simp add: SHARED_SECRET_SIZE_def)

end
