(* ===== verification/MLKEM_IndCca.thy ===== *)
theory MLKEM_IndCca
  imports MLKEM_IndCpaKeys MLKEM_CtOps
begin

section \<open>The key encapsulation mechanism\<close>

text \<open>
  Key generation, encapsulation and decapsulation (\<open>ind_cca\<close> in the source), with serialized keys and with
  unpacked keys, and the validation of keys. As in the scheme below, everything that samples the public matrix
  is an option.
\<close>

subsection \<open>Constants and the layout of a private key\<close>

definition H_DIGEST_SIZE :: nat where
  "H_DIGEST_SIZE = 32"

definition SECRET_KEY_SIZE :: "mlkem_params \<Rightarrow> nat" where
  "SECRET_KEY_SIZE p = CPA_PKE_SECRET_KEY_SIZE p + CPA_PKE_PUBLIC_KEY_SIZE p + H_DIGEST_SIZE + SHARED_SECRET_SIZE"

definition IMPLICIT_REJECTION_HASH_INPUT_SIZE :: "mlkem_params \<Rightarrow> nat" where
  "IMPLICIT_REJECTION_HASH_INPUT_SIZE p = SHARED_SECRET_SIZE + CPA_PKE_CIPHERTEXT_SIZE p"

definition unpack_private_key :: "mlkem_params \<Rightarrow> u8 list \<Rightarrow> u8 list \<times> u8 list \<times> u8 list \<times> u8 list" where
  "unpack_private_key p private_key =
     (let (ind_cpa_secret_key, secret_key0) = (take (CPA_PKE_SECRET_KEY_SIZE p) private_key, drop (CPA_PKE_SECRET_KEY_SIZE p) private_key);
          (ind_cpa_pk, secret_key) = (take (CPA_PKE_PUBLIC_KEY_SIZE p) secret_key0, drop (CPA_PKE_PUBLIC_KEY_SIZE p) secret_key0);
          (ind_cpa_pk_hash, rejection_value) = (take H_DIGEST_SIZE secret_key, drop H_DIGEST_SIZE secret_key)
      in (ind_cpa_secret_key, ind_cpa_pk, ind_cpa_pk_hash, rejection_value))"

definition serialize_kem_secret_key_mut :: "u8 list \<Rightarrow> u8 list \<Rightarrow> u8 list \<Rightarrow> u8 list \<Rightarrow> u8 list" where
  "serialize_kem_secret_key_mut private_key public_key rejection_value serialized =
     (let pointer = 0;
          serialized = slice_copy serialized pointer private_key;
          pointer = pointer + length private_key;
          serialized = slice_copy serialized pointer public_key;
          pointer = pointer + length public_key;
          serialized = slice_copy serialized pointer (H public_key);
          pointer = pointer + H_DIGEST_SIZE
      in slice_copy serialized pointer rejection_value)"

definition serialize_kem_secret_key :: "mlkem_params \<Rightarrow> u8 list \<Rightarrow> u8 list \<Rightarrow> u8 list \<Rightarrow> u8 list" where
  "serialize_kem_secret_key p private_key public_key rejection_value =
     serialize_kem_secret_key_mut private_key public_key rejection_value (replicate (SECRET_KEY_SIZE p) 0)"

subsection \<open>Unpacked keys\<close>

record MlKemPublicKeyUnpacked =
  ind_cpa_public_key :: ind_cpa_public_key
  public_key_hash :: "u8 list"

record MlKemPrivateKeyUnpacked =
  ind_cpa_private_key :: ind_cpa_private_key
  implicit_rejection_value :: "u8 list"

record MlKemKeyPairUnpacked =
  kp_private_key :: MlKemPrivateKeyUnpacked
  kp_public_key :: MlKemPublicKeyUnpacked

definition default_public_key_unpacked :: "nat \<Rightarrow> MlKemPublicKeyUnpacked" where
  "default_public_key_unpacked K =
     \<lparr>ind_cpa_public_key = default_ind_cpa_public_key K, public_key_hash = replicate 32 0\<rparr>"

definition default_key_pair_unpacked :: "nat \<Rightarrow> MlKemKeyPairUnpacked" where
  "default_key_pair_unpacked K =
     \<lparr>kp_private_key = \<lparr>ind_cpa_private_key = default_ind_cpa_private_key K, implicit_rejection_value = replicate 32 0\<rparr>,
      kp_public_key = default_public_key_unpacked K\<rparr>"

definition unpack_public_key :: "mlkem_params \<Rightarrow> u8 list \<Rightarrow> MlKemPublicKeyUnpacked \<Rightarrow> MlKemPublicKeyUnpacked option" where
  "unpack_public_key p public_key unpacked_public_key =
     (let cpa = ind_cpa_public_key unpacked_public_key;
          cpa = cpa\<lparr>t_as_ntt := deserialize_ring_elements_reduced (subslice public_key 0 (T_AS_NTT_ENCODED_SIZE p)) (t_as_ntt cpa)\<rparr>;
          cpa = cpa\<lparr>seed_for_A := into_padded_array 32 (drop (T_AS_NTT_ENCODED_SIZE p) public_key)\<rparr>
      in Option.bind (sample_matrix_A (RANK p) (matrix_A cpa) (into_padded_array 34 (drop (T_AS_NTT_ENCODED_SIZE p) public_key)) False) (\<lambda>A.
           Some (unpacked_public_key\<lparr>ind_cpa_public_key := cpa\<lparr>matrix_A := A\<rparr>, public_key_hash := H public_key\<rparr>)))"

definition serialized_mut_dd :: "mlkem_params \<Rightarrow> MlKemPublicKeyUnpacked \<Rightarrow> u8 list \<Rightarrow> u8 list" where
  "serialized_mut_dd p self serialized =
     serialize_public_key_mut (RANK p) (t_as_ntt (ind_cpa_public_key self)) (seed_for_A (ind_cpa_public_key self)) serialized"

definition serialized_dd :: "mlkem_params \<Rightarrow> MlKemPublicKeyUnpacked \<Rightarrow> u8 list" where
  "serialized_dd p self = serialize_public_key p (t_as_ntt (ind_cpa_public_key self)) (seed_for_A (ind_cpa_public_key self))"

definition serialized_public_key_mut_11 :: "mlkem_params \<Rightarrow> MlKemKeyPairUnpacked \<Rightarrow> u8 list \<Rightarrow> u8 list" where
  "serialized_public_key_mut_11 p self serialized = serialized_mut_dd p (kp_public_key self) serialized"

definition serialized_public_key_11 :: "mlkem_params \<Rightarrow> MlKemKeyPairUnpacked \<Rightarrow> u8 list" where
  "serialized_public_key_11 p self = serialized_dd p (kp_public_key self)"

definition serialized_private_key_mut_11 :: "mlkem_params \<Rightarrow> MlKemKeyPairUnpacked \<Rightarrow> u8 list \<Rightarrow> u8 list" where
  "serialized_private_key_mut_11 p self serialized =
     (let (cpa_private_key, cpa_public_key) = serialize_unpacked_secret_key p
            (ind_cpa_public_key (kp_public_key self)) (ind_cpa_private_key (kp_private_key self))
      in serialize_kem_secret_key_mut cpa_private_key cpa_public_key (implicit_rejection_value (kp_private_key self)) serialized)"

definition serialized_private_key_11 :: "mlkem_params \<Rightarrow> MlKemKeyPairUnpacked \<Rightarrow> u8 list" where
  "serialized_private_key_11 p self = serialized_private_key_mut_11 p self (replicate (SECRET_KEY_SIZE p) 0)"

definition keys_from_private_key :: "mlkem_params \<Rightarrow> u8 list \<Rightarrow> MlKemKeyPairUnpacked \<Rightarrow> MlKemKeyPairUnpacked option" where
  "keys_from_private_key p private_key key_pair =
     (let (cpa_secret_key, cpa_public_key, cpa_public_key_hash, rejection_value) = unpack_private_key p private_key;
          s = deserialize_vector (RANK p) cpa_secret_key (ind_cpa_private_key (kp_private_key key_pair))
      in Option.bind (build_unpacked_public_key_mut p cpa_public_key (ind_cpa_public_key (kp_public_key key_pair))) (\<lambda>cpa.
           Some \<lparr>kp_private_key = \<lparr>ind_cpa_private_key = s,
                   implicit_rejection_value = slice_copy (implicit_rejection_value (kp_private_key key_pair)) 0 rejection_value\<rparr>,
                 kp_public_key = \<lparr>ind_cpa_public_key =
                     cpa\<lparr>seed_for_A := slice_copy (seed_for_A cpa) 0 (drop (T_AS_NTT_ENCODED_SIZE p) cpa_public_key)\<rparr>,
                   public_key_hash = slice_copy (public_key_hash (kp_public_key key_pair)) 0 cpa_public_key_hash\<rparr>\<rparr>))"

subsection \<open>The operations with unpacked keys\<close>

definition transpose_a :: "nat \<Rightarrow> ring_element list list \<Rightarrow> ring_element list list" where
  "transpose_a K ind_cpa_a =
     for_loop 0 K (\<lambda>i A. for_loop 0 K (\<lambda>j A. A[i := (A ! i)[j := ind_cpa_a ! j ! i]]) A) (replicate K (replicate K ZERO_d6))"

definition unpacked_generate_keypair :: "mlkem_params \<Rightarrow> u8 list \<Rightarrow> MlKemKeyPairUnpacked \<Rightarrow> MlKemKeyPairUnpacked option" where
  "unpacked_generate_keypair p randomness out =
     (let ind_cpa_keypair_randomness = subslice randomness 0 CPA_PKE_KEY_GENERATION_SEED_SIZE;
          rejection_value = drop CPA_PKE_KEY_GENERATION_SEED_SIZE randomness
      in Option.bind (generate_keypair_unpacked p ind_cpa_keypair_randomness
             (ind_cpa_private_key (kp_private_key out)) (ind_cpa_public_key (kp_public_key out))) (\<lambda>(cpa_sk, cpa_pk).
           let cpa_pk = cpa_pk\<lparr>matrix_A := transpose_a (RANK p) (matrix_A cpa_pk)\<rparr>;
               pk_serialized = serialize_public_key p (t_as_ntt cpa_pk) (seed_for_A cpa_pk)
           in Some \<lparr>kp_private_key = \<lparr>ind_cpa_private_key = cpa_sk, implicit_rejection_value = rejection_value\<rparr>,
                    kp_public_key = \<lparr>ind_cpa_public_key = cpa_pk, public_key_hash = H pk_serialized\<rparr>\<rparr>))"

definition encaps_prepare :: "u8 list \<Rightarrow> u8 list \<Rightarrow> u8 list" where
  "encaps_prepare randomness pk_hash = G (slice_copy (into_padded_array 64 randomness) H_DIGEST_SIZE pk_hash)"

definition unpacked_encapsulate :: "mlkem_params \<Rightarrow> MlKemPublicKeyUnpacked \<Rightarrow> u8 list \<Rightarrow> u8 list \<times> u8 list" where
  "unpacked_encapsulate p public_key randomness =
     (let hashed = encaps_prepare randomness (public_key_hash public_key);
          (shared_secret, pseudorandomness) = (take SHARED_SECRET_SIZE hashed, drop SHARED_SECRET_SIZE hashed);
          ciphertext = encrypt_unpacked p (ind_cpa_public_key public_key) randomness pseudorandomness;
          shared_secret_array = slice_copy (replicate 32 0) 0 shared_secret
      in (ciphertext, shared_secret_array))"

definition unpacked_decapsulate :: "mlkem_params \<Rightarrow> MlKemKeyPairUnpacked \<Rightarrow> u8 list \<Rightarrow> u8 list" where
  "unpacked_decapsulate p key_pair ciphertext =
     (let decrypted = decrypt_unpacked p (ind_cpa_private_key (kp_private_key key_pair)) ciphertext;
          to_hash0 = slice_copy (into_padded_array 64 decrypted) SHARED_SECRET_SIZE (public_key_hash (kp_public_key key_pair));
          hashed = G to_hash0;
          (shared_secret, pseudorandomness) = (take SHARED_SECRET_SIZE hashed, drop SHARED_SECRET_SIZE hashed);
          to_hash = slice_copy (into_padded_array (IMPLICIT_REJECTION_HASH_INPUT_SIZE p) (implicit_rejection_value (kp_private_key key_pair)))
            SHARED_SECRET_SIZE ciphertext;
          implicit_rejection_shared_secret = PRF 32 to_hash;
          expected_ciphertext = encrypt_unpacked p (ind_cpa_public_key (kp_public_key key_pair)) decrypted pseudorandomness;
          selector = compare_ciphertexts_in_constant_time ciphertext expected_ciphertext
      in select_shared_secret_in_constant_time shared_secret implicit_rejection_shared_secret selector)"

subsection \<open>Validation\<close>

definition validate_public_key :: "mlkem_params \<Rightarrow> u8 list \<Rightarrow> bool" where
  "validate_public_key p public_key =
     (let deserialized_pk = deserialize_ring_elements_reduced_out (RANK p) (subslice public_key 0 (ranked_bytes_per_ring_element (RANK p)));
          public_key_serialized = serialize_public_key p deserialized_pk (drop (ranked_bytes_per_ring_element (RANK p)) public_key)
      in public_key = public_key_serialized)"

definition validate_private_key_only :: "mlkem_params \<Rightarrow> u8 list \<Rightarrow> bool" where
  "validate_private_key_only p private_key =
     (let t = H (subslice private_key (384 * RANK p) (768 * RANK p + 32));
          expected = subslice private_key (768 * RANK p + 32) (768 * RANK p + 64)
      in t = expected)"

definition validate_private_key :: "mlkem_params \<Rightarrow> u8 list \<Rightarrow> u8 list \<Rightarrow> bool" where
  "validate_private_key p private_key ciphertext = validate_private_key_only p private_key"

subsection \<open>The operations with serialized keys\<close>

definition generate_keypair :: "mlkem_params \<Rightarrow> u8 list \<Rightarrow> (u8 list \<times> u8 list) option" where
  "generate_keypair p randomness =
     (let ind_cpa_keypair_randomness = subslice randomness 0 CPA_PKE_KEY_GENERATION_SEED_SIZE;
          rejection_value = drop CPA_PKE_KEY_GENERATION_SEED_SIZE randomness
      in Option.bind (cpa_generate_keypair p ind_cpa_keypair_randomness) (\<lambda>(cpa_private_key, public_key).
           let secret_key_serialized = serialize_kem_secret_key p cpa_private_key public_key rejection_value
           in Some (secret_key_serialized, public_key)))"

definition entropy_preprocess :: "u8 list \<Rightarrow> u8 list" where
  "entropy_preprocess randomness = slice_copy (replicate 32 0) 0 randomness"

definition kdf :: "u8 list \<Rightarrow> u8 list" where
  "kdf shared_secret = slice_copy (replicate 32 0) 0 shared_secret"

definition encapsulate :: "mlkem_params \<Rightarrow> u8 list \<Rightarrow> u8 list \<Rightarrow> (u8 list \<times> u8 list) option" where
  "encapsulate p public_key randomness =
     (let randomness0 = entropy_preprocess randomness;
          to_hash = slice_copy (into_padded_array 64 randomness0) H_DIGEST_SIZE (H public_key);
          hashed = G to_hash;
          (shared_secret, pseudorandomness) = (take SHARED_SECRET_SIZE hashed, drop SHARED_SECRET_SIZE hashed)
      in Option.bind (cpa_encrypt p public_key randomness0 pseudorandomness) (\<lambda>ciphertext.
           Some (ciphertext, kdf shared_secret)))"

definition decapsulate :: "mlkem_params \<Rightarrow> u8 list \<Rightarrow> u8 list \<Rightarrow> u8 list option" where
  "decapsulate p private_key ciphertext =
     (let (cpa_secret_key, cpa_public_key, cpa_public_key_hash, rejection_value) = unpack_private_key p private_key;
          decrypted = cpa_decrypt p cpa_secret_key ciphertext;
          to_hash0 = slice_copy (into_padded_array 64 decrypted) SHARED_SECRET_SIZE cpa_public_key_hash;
          hashed = G to_hash0;
          (shared_secret0, pseudorandomness) = (take SHARED_SECRET_SIZE hashed, drop SHARED_SECRET_SIZE hashed);
          to_hash = slice_copy (into_padded_array (IMPLICIT_REJECTION_HASH_INPUT_SIZE p) rejection_value) SHARED_SECRET_SIZE ciphertext;
          implicit_rejection_shared_secret = PRF 32 to_hash
      in Option.bind (cpa_encrypt p cpa_public_key decrypted pseudorandomness) (\<lambda>expected_ciphertext.
           let implicit_rejection_shared_secret0 = kdf implicit_rejection_shared_secret;
               shared_secret = kdf shared_secret0
           in Some (compare_ciphertexts_select_shared_secret_in_constant_time ciphertext expected_ciphertext
                 shared_secret implicit_rejection_shared_secret0)))"

end
