(* ===== verification/MLKEM_IndCcaCorrect.thy ===== *)
theory MLKEM_IndCcaCorrect
  imports MLKEM_IndCca
begin

section \<open>Correctness of the key encapsulation mechanism\<close>

text \<open>
  The code of encapsulation and decapsulation is the Fujisaki-Okamoto transform with implicit rejection
  (\<open>fo_encapsulate\<close>, \<open>fo_decapsulate\<close>) applied to the encryption scheme. What the transform needs of the
  scheme is the locale \<open>pke\<close>, interpreted by the scheme of the code for every parameter set. Then: packed and unpacked keys
  give the same results, private keys survive serialization, and validation accepts exactly the reduced public
  keys and the private keys with the right hash.
\<close>

subsection \<open>The transform\<close>

definition fo_encapsulate ::
    "('pk \<Rightarrow> u8 list \<Rightarrow> u8 list \<Rightarrow> u8 list option) \<Rightarrow> 'pk \<Rightarrow> u8 list \<Rightarrow> u8 list \<Rightarrow> (u8 list \<times> u8 list) option" where
  "fo_encapsulate enc pk h m = map_option (\<lambda>c. (c, take 32 (G (m @ h)))) (enc pk m (drop 32 (G (m @ h))))"

definition fo_decapsulate ::
    "('pk \<Rightarrow> u8 list \<Rightarrow> u8 list \<Rightarrow> u8 list option) \<Rightarrow> ('sk \<Rightarrow> u8 list \<Rightarrow> u8 list) \<Rightarrow> 'sk \<Rightarrow> 'pk \<Rightarrow> u8 list \<Rightarrow> u8 list \<Rightarrow> u8 list \<Rightarrow> u8 list option" where
  "fo_decapsulate enc dec sk pk h z c =
     map_option (\<lambda>c'. if c = c' then take 32 (G (dec sk c @ h)) else PRF 32 (z @ c)) (enc pk (dec sk c) (drop 32 (G (dec sk c @ h))))"

text \<open>
  An encryption scheme with deterministic key generation from a seed: \<open>good seed m r\<close> says that the noise of encrypting \<open>m\<close> with
  randomness \<open>r\<close> under the keys of \<open>seed\<close> is small enough.
\<close>

locale pke =
  fixes keygen :: "u8 list \<Rightarrow> ('sk \<times> 'pk) option"
    and enc :: "'pk \<Rightarrow> u8 list \<Rightarrow> u8 list \<Rightarrow> u8 list option"
    and dec :: "'sk \<Rightarrow> u8 list \<Rightarrow> u8 list"
    and good :: "u8 list \<Rightarrow> u8 list \<Rightarrow> u8 list \<Rightarrow> bool"
    and size :: nat
  assumes enc_total: "keygen d = Some (sk, pk) \<Longrightarrow> length m = 32 \<Longrightarrow> \<exists>c. enc pk m r = Some c \<and> length c = size"
    and dec_enc: "keygen d = Some (sk, pk) \<Longrightarrow> length m = 32 \<Longrightarrow> good d m r \<Longrightarrow> enc pk m r = Some c \<Longrightarrow> dec sk c = m"
    and length_dec: "keygen d = Some (sk, pk) \<Longrightarrow> length c = size \<Longrightarrow> length (dec sk c) = 32"
begin

lemma encapsulation_returns:
  assumes "keygen d = Some (sk, pk)" and "length m = 32"
  obtains c where "fo_encapsulate enc pk h m = Some (c, take 32 (G (m @ h)))" and "length c = size"
    and "enc pk m (drop 32 (G (m @ h))) = Some c"
  using enc_total [OF assms, of "drop 32 (G (m @ h))"] that by (auto simp: fo_encapsulate_def)

lemma decapsulation_returns:
  assumes "keygen d = Some (sk, pk)" and "length c = size"
  shows "fo_decapsulate enc dec sk pk h z c \<noteq> None"
  using enc_total [OF assms(1) length_dec [OF assms], of "drop 32 (G (dec sk c @ h))"] by (auto simp: fo_decapsulate_def)

lemma agreement:
  assumes "keygen d = Some (sk, pk)" and "length m = 32" and "good d m (drop 32 (G (m @ h)))"
    and "fo_encapsulate enc pk h m = Some (c, K)"
  shows "fo_decapsulate enc dec sk pk h z c = Some K"
proof -
  obtain c' where c: "enc pk m (drop 32 (G (m @ h))) = Some c'" "c = c'" "K = take 32 (G (m @ h))"
    using assms(4) by (auto simp: fo_encapsulate_def)
  then show ?thesis using dec_enc [OF assms(1-3) c(1)] by (simp add: fo_decapsulate_def)
qed

end

subsection \<open>The scheme of the code satisfies the interface\<close>

definition keygen_good :: "mlkem_params \<Rightarrow> u8 list \<Rightarrow> u8 list \<Rightarrow> u8 list \<Rightarrow> bool" where
  "keygen_good p d m r = small_noise (encryption_noise p
     (rebuilt_public_key p (encode_vector (RANK p) (keygen_t p d) @ keygen_rho p d)) (keygen_s p d) (keygen_e p d) m r)"

text \<open>Every byte string of the length of a secret key decodes to 12-bit coefficients.\<close>

lemma decoded_secret_key:
  assumes "length bs = 384 * K" and "length init = K"
  shows "vector_bounded K 4095 (deserialize_vector K bs init)"
proof -
  have l: "length c = 384" if "c \<in> set (chunks 384 bs)" for c
    using chunks_member_length [of 384 bs K] assms(1) that by (simp add: mult.commute)
  have "ring_bounded 4095 (deserialize_to_uncompressed_ring_element c)" if "length c = 384" for c
  proof -
    have "coeffs_in 12 (byte_decode 12 c)" using codec_12.decode_range that by simp
    then show ?thesis
      using deserialize_to_uncompressed_ring_element_eq [OF that] by (auto simp: ring_bounded_iff coeffs_in_def list_all_iff)
  qed
  then show ?thesis
    using l length_chunks [of 384 bs K] assms
    by (auto simp: deserialize_vector_eq [OF assms] vector_bounded_def list_all_iff mult.commute)
qed

context valid_params
begin

lemma public_key_encoded:
  assumes "cpa_generate_keypair p d = Some (sk, pk)"
  shows "matrix_exists p (keygen_rho p d)" and "sk = encode_vector (RANK p) (keygen_sk p d)"
    and "pk = encode_vector (RANK p) (keygen_t p d) @ keygen_rho p d"
    and "length pk = CPA_PKE_PUBLIC_KEY_SIZE p" and "length sk = CPA_PKE_SECRET_KEY_SIZE p"
    and "drop (T_AS_NTT_ENCODED_SIZE p) pk = keygen_rho p d"
proof -
  show m: "matrix_exists p (keygen_rho p d)" and sk: "sk = encode_vector (RANK p) (keygen_sk p d)"
    and pk: "pk = encode_vector (RANK p) (keygen_t p d) @ keygen_rho p d"
    using assms by (auto simp: cpa_generate_keypair_eq split: if_splits)
  show "length pk = CPA_PKE_PUBLIC_KEY_SIZE p" "drop (T_AS_NTT_ENCODED_SIZE p) pk = keygen_rho p d"
    unfolding pk by (rule rebuilt_public_key_encoded(1,2) [OF keygen_t_bounded [OF m] length_keygen_rho])+
  show "length sk = CPA_PKE_SECRET_KEY_SIZE p"
    unfolding sk using encode_vector_decode(1) [OF keygen_sk_bounded length_replicate] by (simp add: sizes)
qed

lemma length_cpa_decrypt:
  assumes "length sk = CPA_PKE_SECRET_KEY_SIZE p" and "length c = CPA_PKE_CIPHERTEXT_SIZE p"
  shows "length (cpa_decrypt p sk c) = 32"
  using length_decrypt_unpacked [OF decoded_secret_key assms(2)] assms(1) by (simp add: cpa_decrypt_def sizes)

end

sublocale valid_params < kpke: pke "cpa_generate_keypair p" "cpa_encrypt p" "cpa_decrypt p" "keygen_good p" "CPA_PKE_CIPHERTEXT_SIZE p"
proof
  fix d sk pk m r :: "u8 list" assume k: "cpa_generate_keypair p d = Some (sk, pk)" and m: "length m = 32"
  note e = public_key_encoded [OF k]
  have "public_key_ok p (rebuilt_public_key p pk)" using build_unpacked_public_key_eq(2) [OF e(4)] e(1,6) by simp
  then show "\<exists>c. cpa_encrypt p pk m r = Some c \<and> length c = CPA_PKE_CIPHERTEXT_SIZE p"
    using cpa_encrypt_eq [OF e(4)] e(1,6) length_encrypt_unpacked m by simp
  fix c :: "u8 list" assume g: "keygen_good p d m r" and c: "cpa_encrypt p pk m r = Some c"
  have "c = encrypt_unpacked p (rebuilt_public_key p pk) m r" using c cpa_encrypt_eq [OF e(4)] e(1,6) by simp
  then show "cpa_decrypt p sk c = m"
    using decrypt_encrypt [OF packed_pair_ok [OF e(1)] m] g e(2,3) by (simp add: keygen_good_def cpa_decrypt_def)
next
  fix d sk pk c :: "u8 list" assume "cpa_generate_keypair p d = Some (sk, pk)" and "length c = CPA_PKE_CIPHERTEXT_SIZE p"
  then show "length (cpa_decrypt p sk c) = 32" using length_cpa_decrypt public_key_encoded(5) by blast
qed

subsection \<open>Buffers\<close>

lemma padded_concat: "length a + length b = n \<Longrightarrow> length a = k \<Longrightarrow> slice_copy (into_padded_array n a) k b = a @ b"
  by (auto simp: into_padded_array_eq slice_copy_def)

lemma kdf_eq: "length s = 32 \<Longrightarrow> kdf s = s" "length s = 32 \<Longrightarrow> entropy_preprocess s = s"
  by (simp_all add: kdf_def entropy_preprocess_def slice_copy_def)

lemma slice_copy_all: "length dst = length src \<Longrightarrow> slice_copy dst 0 src = src"
  by (simp add: slice_copy_def)

lemma transpose_a_eq: "transpose_a K A = transposed_matrix K A"
proof -
  let ?row = "\<lambda>i. map (\<lambda>j. A ! j ! i) [0..<K]"
  have "for_loop 0 n (\<lambda>i B. for_loop 0 K (\<lambda>j B. B[i := (B ! i)[j := A ! j ! i]]) B) (replicate K (replicate K ZERO_d6))
      = map (\<lambda>i. if i < n then ?row i else replicate K ZERO_d6) [0..<K]" if "n \<le> K" for n
    using that
  proof (induction n)
    case (Suc n)
    let ?B = "map (\<lambda>i. if i < n then ?row i else replicate K ZERO_d6) [0..<K]"
    have shape: "matrix_shape K ?B" by (auto simp: matrix_shape_def list_all_iff)
    have "for_loop 0 K (\<lambda>j B. B[n := (B ! n)[j := ?row n ! j]]) ?B = ?B[n := ?row n]"
      using Suc.prems by (intro store_row_cells [OF shape]) simp_all
    moreover have "for_loop 0 K (\<lambda>j B. B[n := (B ! n)[j := A ! j ! n]]) ?B = for_loop 0 K (\<lambda>j B. B[n := (B ! n)[j := ?row n ! j]]) ?B"
      unfolding for_loop_def by (rule fold_cong) simp_all
    moreover have "?B[n := ?row n] = map (\<lambda>i. if i < Suc n then ?row i else replicate K ZERO_d6) [0..<K]"
      using Suc.prems by (auto simp: nth_list_update intro!: nth_equalityI)
    ultimately show ?case using Suc by (simp add: for_loop_last)
  qed (auto simp: for_loop_def intro: nth_equalityI)
  from this [of K] show ?thesis by (simp add: transpose_a_def transposed_matrix_def cong: map_cong)
qed

lemma select_implicit_rejection:
  assumes "length c = length c'" and "length s = 32" and "length s' = 32"
  shows "select_shared_secret_in_constant_time s s' (compare_ciphertexts_in_constant_time c c') = (if c = c' then s else s')"
    and "compare_ciphertexts_select_shared_secret_in_constant_time c c' s s' = (if c = c' then s else s')"
  using assms
  by (simp_all add: compare_ciphertexts_select_shared_secret_in_constant_time_def select_shared_secret_in_constant_time_def
      compare_ciphertexts_in_constant_time_def compare_bytes_eq select_ct_eq SHARED_SECRET_SIZE_def)

subsection \<open>Serialized private keys\<close>

context valid_params
begin

lemma kem_sizes:
  "SECRET_KEY_SIZE p = 768 * RANK p + 96"
  "IMPLICIT_REJECTION_HASH_INPUT_SIZE p = 32 + CPA_PKE_CIPHERTEXT_SIZE p"
  by (simp_all add: SECRET_KEY_SIZE_def IMPLICIT_REJECTION_HASH_INPUT_SIZE_def H_DIGEST_SIZE_def SHARED_SECRET_SIZE_def sizes(6,7))

lemma unpack_private_key_lengths:
  assumes "length sk = SECRET_KEY_SIZE p" and "unpack_private_key p sk = (dk, ek, h, z)"
  shows "length dk = CPA_PKE_SECRET_KEY_SIZE p" and "length ek = CPA_PKE_PUBLIC_KEY_SIZE p" and "length h = 32" and "length z = 32"
    and "sk = dk @ ek @ h @ z"
proof -
  show "sk = dk @ ek @ h @ z" using assms(2) by (auto simp: unpack_private_key_def simp del: drop_drop)
  show "length dk = CPA_PKE_SECRET_KEY_SIZE p" "length ek = CPA_PKE_PUBLIC_KEY_SIZE p" "length h = 32" "length z = 32"
    using assms unfolding kem_sizes by (auto simp: unpack_private_key_def H_DIGEST_SIZE_def sizes(6,7) min_def)
qed

lemma unpack_private_key_append:
  "length dk = CPA_PKE_SECRET_KEY_SIZE p \<Longrightarrow> length ek = CPA_PKE_PUBLIC_KEY_SIZE p \<Longrightarrow> length h = 32 \<Longrightarrow> length z = 32
    \<Longrightarrow> unpack_private_key p (dk @ ek @ h @ z) = (dk, ek, h, z)"
  by (simp add: unpack_private_key_def H_DIGEST_SIZE_def)

lemma serialize_kem_secret_key_mut_eq:
  assumes "length dk = CPA_PKE_SECRET_KEY_SIZE p" and "length ek = CPA_PKE_PUBLIC_KEY_SIZE p" and "length z = 32"
    and "length buf = SECRET_KEY_SIZE p"
  shows "serialize_kem_secret_key_mut dk ek z buf = dk @ ek @ H ek @ z"
  using assms by (simp add: serialize_kem_secret_key_mut_def Let_def slice_copy_def kem_sizes sizes H_DIGEST_SIZE_def)

lemma serialize_kem_secret_key_eq:
  "length dk = CPA_PKE_SECRET_KEY_SIZE p \<Longrightarrow> length ek = CPA_PKE_PUBLIC_KEY_SIZE p \<Longrightarrow> length z = 32
    \<Longrightarrow> serialize_kem_secret_key p dk ek z = dk @ ek @ H ek @ z"
  by (simp add: serialize_kem_secret_key_def serialize_kem_secret_key_mut_eq)

lemma validate_private_key_only_iff:
  assumes "length sk = SECRET_KEY_SIZE p" and "unpack_private_key p sk = (dk, ek, h, z)"
  shows "validate_private_key_only p sk \<longleftrightarrow> H ek = h"
  using unpack_private_key_lengths [OF assms] by (simp add: validate_private_key_only_def subslice_def sizes)

subsection \<open>The code is the transform\<close>

lemma encapsulate_eq:
  assumes "length m = 32"
  shows "encapsulate p pk m = fo_encapsulate (cpa_encrypt p) pk (H pk) m"
proof -
  have "slice_copy (into_padded_array 64 m) 32 (H pk) = m @ H pk" using assms by (intro padded_concat) simp_all
  then show ?thesis
    by (cases "cpa_encrypt p pk m (drop 32 (G (m @ H pk)))")
      (simp_all add: encapsulate_def fo_encapsulate_def Let_def kdf_eq assms H_DIGEST_SIZE_def SHARED_SECRET_SIZE_def)
qed

lemma length_cpa_encrypt:
  assumes "length pk = CPA_PKE_PUBLIC_KEY_SIZE p" and "length m = 32" and "cpa_encrypt p pk m r = Some c"
  shows "length c = CPA_PKE_CIPHERTEXT_SIZE p"
  using assms build_unpacked_public_key_eq(2) length_encrypt_unpacked by (auto simp: cpa_encrypt_eq split: if_splits)

lemma decapsulate_eq:
  assumes "length sk = SECRET_KEY_SIZE p" and "unpack_private_key p sk = (dk, ek, h, z)" and "length c = CPA_PKE_CIPHERTEXT_SIZE p"
  shows "decapsulate p sk c = fo_decapsulate (cpa_encrypt p) (cpa_decrypt p) dk ek h z c"
proof -
  note l = unpack_private_key_lengths [OF assms(1,2)]
  note d = length_cpa_decrypt [OF l(1) assms(3)]
  have h1: "slice_copy (into_padded_array 64 (cpa_decrypt p dk c)) 32 h = cpa_decrypt p dk c @ h" using d l by (intro padded_concat) simp_all
  have h2: "slice_copy (into_padded_array (IMPLICIT_REJECTION_HASH_INPUT_SIZE p) z) 32 c = z @ c"
    using l assms(3) by (intro padded_concat) (simp_all add: kem_sizes)
  show ?thesis
  proof (cases "cpa_encrypt p ek (cpa_decrypt p dk c) (drop 32 (G (cpa_decrypt p dk c @ h)))")
    case (Some c')
    then have "length c = length c'" using length_cpa_encrypt [OF l(2) d] assms(3) by simp
    then show ?thesis
      using Some h1 h2 by (simp add: decapsulate_def fo_decapsulate_def assms(2) Let_def SHARED_SECRET_SIZE_def kdf_eq select_implicit_rejection)
  qed (simp add: decapsulate_def fo_decapsulate_def assms(2) Let_def SHARED_SECRET_SIZE_def h1)
qed

lemma generate_keypair_eq:
  assumes "length randomness = 64"
  shows "generate_keypair p randomness = map_option (\<lambda>(dk, ek). (dk @ ek @ H ek @ drop 32 randomness, ek)) (cpa_generate_keypair p (take 32 randomness))"
proof (cases "cpa_generate_keypair p (take 32 randomness)")
  case (Some k)
  obtain dk ek where k: "k = (dk, ek)" by (cases k)
  show ?thesis
    using public_key_encoded(4,5) [of "take 32 randomness" dk ek] Some k assms
    by (simp add: generate_keypair_def CPA_PKE_KEY_GENERATION_SEED_SIZE_def subslice_def Let_def serialize_kem_secret_key_eq)
qed (simp add: generate_keypair_def CPA_PKE_KEY_GENERATION_SEED_SIZE_def subslice_def Let_def)

subsection \<open>Unpacked keys\<close>

lemma unpack_public_key_eq:
  assumes "length pk = CPA_PKE_PUBLIC_KEY_SIZE p"
  shows "unpack_public_key p pk (default_public_key_unpacked (RANK p)) = (if matrix_exists p (drop (T_AS_NTT_ENCODED_SIZE p) pk)
    then Some \<lparr>ind_cpa_public_key = (rebuilt_public_key p pk)\<lparr>seed_for_A := drop (T_AS_NTT_ENCODED_SIZE p) pk\<rparr>, public_key_hash = H pk\<rparr> else None)"
proof -
  have l: "length (drop (T_AS_NTT_ENCODED_SIZE p) pk) = 32" using assms by (simp add: sizes)
  then show ?thesis
    using sample_matrix_A_matrix_of(1) [OF matrix_shape_default l, of "RANK p"]
    by (simp add: unpack_public_key_def default_public_key_unpacked_def Let_def subslice_def into_padded_array_eq matrix_exists_def
        rebuilt_public_key_def default_ind_cpa_public_key_def)
qed

lemma encrypt_unpacked_seed: "encrypt_unpacked p (pk\<lparr>seed_for_A := rho\<rparr>) m r = encrypt_unpacked p pk m r"
  by (simp add: encrypt_unpacked_def)

lemma unpacked_encapsulate_eq:
  assumes "length m = 32" and "length (public_key_hash upk) = 32"
  shows "unpacked_encapsulate p upk m = (encrypt_unpacked p (ind_cpa_public_key upk) m (drop 32 (G (m @ public_key_hash upk))),
    take 32 (G (m @ public_key_hash upk)))"
proof -
  have "slice_copy (into_padded_array 64 m) 32 (public_key_hash upk) = m @ public_key_hash upk" using assms by (intro padded_concat) simp_all
  then show ?thesis by (simp add: unpacked_encapsulate_def encaps_prepare_def Let_def H_DIGEST_SIZE_def SHARED_SECRET_SIZE_def slice_copy_all)
qed

lemma encapsulate_unpacked:
  assumes "length pk = CPA_PKE_PUBLIC_KEY_SIZE p" and "length m = 32"
  shows "encapsulate p pk m = map_option (\<lambda>upk. unpacked_encapsulate p upk m) (unpack_public_key p pk (default_public_key_unpacked (RANK p)))"
  using assms
  by (simp add: encapsulate_eq fo_encapsulate_def cpa_encrypt_eq unpack_public_key_eq unpacked_encapsulate_eq encrypt_unpacked_seed)

lemma unpacked_decapsulate_eq:
  assumes "vector_bounded (RANK p) 4095 (ind_cpa_private_key (kp_private_key kp))" and "public_key_ok p (ind_cpa_public_key (kp_public_key kp))"
    and "length (public_key_hash (kp_public_key kp)) = 32" and "length (implicit_rejection_value (kp_private_key kp)) = 32"
    and "length c = CPA_PKE_CIPHERTEXT_SIZE p"
  shows "fo_decapsulate (\<lambda>pk m r. Some (encrypt_unpacked p pk m r)) (decrypt_unpacked p) (ind_cpa_private_key (kp_private_key kp))
      (ind_cpa_public_key (kp_public_key kp)) (public_key_hash (kp_public_key kp)) (implicit_rejection_value (kp_private_key kp)) c
    = Some (unpacked_decapsulate p kp c)"
proof -
  let ?m = "decrypt_unpacked p (ind_cpa_private_key (kp_private_key kp)) c" and ?h = "public_key_hash (kp_public_key kp)"
  note d = length_decrypt_unpacked [OF assms(1,5)]
  have h1: "slice_copy (into_padded_array 64 ?m) 32 ?h = ?m @ ?h" using d assms(3) by (intro padded_concat) simp_all
  have h2: "slice_copy (into_padded_array (IMPLICIT_REJECTION_HASH_INPUT_SIZE p) (implicit_rejection_value (kp_private_key kp))) 32 c
      = implicit_rejection_value (kp_private_key kp) @ c"
    using assms(4,5) by (intro padded_concat) (simp_all add: kem_sizes)
  have "length c = length (encrypt_unpacked p (ind_cpa_public_key (kp_public_key kp)) ?m (drop 32 (G (?m @ ?h))))"
    using length_encrypt_unpacked [OF assms(2) d] assms(5) by simp
  then show ?thesis
    using h1 h2 by (simp add: unpacked_decapsulate_def fo_decapsulate_def Let_def SHARED_SECRET_SIZE_def select_implicit_rejection)
qed

lemma keys_from_private_key_eq:
  assumes "length sk = SECRET_KEY_SIZE p" and "unpack_private_key p sk = (dk, ek, h, z)"
  shows "keys_from_private_key p sk (default_key_pair_unpacked (RANK p)) = (if matrix_exists p (drop (T_AS_NTT_ENCODED_SIZE p) ek)
    then Some \<lparr>kp_private_key = \<lparr>ind_cpa_private_key = deserialize_vector (RANK p) dk (replicate (RANK p) ZERO_d6), implicit_rejection_value = z\<rparr>,
      kp_public_key = \<lparr>ind_cpa_public_key = (rebuilt_public_key p ek)\<lparr>seed_for_A := drop (T_AS_NTT_ENCODED_SIZE p) ek\<rparr>, public_key_hash = h\<rparr>\<rparr>
    else None)"
proof -
  note l = unpack_private_key_lengths [OF assms]
  have "length (drop (T_AS_NTT_ENCODED_SIZE p) ek) = 32" using l(2) by (simp add: sizes)
  then show ?thesis
    using build_unpacked_public_key_eq(1) [OF l(2), unfolded build_unpacked_public_key_def] l(3,4)
    by (simp add: keys_from_private_key_def assms(2) Let_def default_key_pair_unpacked_def default_public_key_unpacked_def
        default_ind_cpa_private_key_def slice_copy_all rebuilt_public_key_def)
qed

lemma decapsulate_unpacked:
  assumes "length sk = SECRET_KEY_SIZE p" and "length c = CPA_PKE_CIPHERTEXT_SIZE p"
  shows "decapsulate p sk c = map_option (\<lambda>kp. unpacked_decapsulate p kp c) (keys_from_private_key p sk (default_key_pair_unpacked (RANK p)))"
proof -
  obtain dk ek h z where u: "unpack_private_key p sk = (dk, ek, h, z)" by (cases "unpack_private_key p sk")
  note l = unpack_private_key_lengths [OF assms(1) u]
  note d = decapsulate_eq [OF assms(1) u assms(2)] and k = keys_from_private_key_eq [OF assms(1) u]
  show ?thesis
  proof (cases "matrix_exists p (drop (T_AS_NTT_ENCODED_SIZE p) ek)")
    case True
    let ?kp = "\<lparr>kp_private_key = \<lparr>ind_cpa_private_key = deserialize_vector (RANK p) dk (replicate (RANK p) ZERO_d6), implicit_rejection_value = z\<rparr>,
      kp_public_key = \<lparr>ind_cpa_public_key = (rebuilt_public_key p ek)\<lparr>seed_for_A := drop (T_AS_NTT_ENCODED_SIZE p) ek\<rparr>, public_key_hash = h\<rparr>\<rparr>"
    have "vector_bounded (RANK p) 4095 (deserialize_vector (RANK p) dk (replicate (RANK p) ZERO_d6))"
      using decoded_secret_key l(1) by (simp add: sizes)
    moreover have "public_key_ok p ((rebuilt_public_key p ek)\<lparr>seed_for_A := drop (T_AS_NTT_ENCODED_SIZE p) ek\<rparr>)"
      using build_unpacked_public_key_eq(2) [OF l(2) True] by (simp add: public_key_ok_def)
    ultimately have "Some (unpacked_decapsulate p ?kp c) = fo_decapsulate (\<lambda>pk m r. Some (encrypt_unpacked p pk m r)) (decrypt_unpacked p)
        (deserialize_vector (RANK p) dk (replicate (RANK p) ZERO_d6)) ((rebuilt_public_key p ek)\<lparr>seed_for_A := drop (T_AS_NTT_ENCODED_SIZE p) ek\<rparr>) h z c"
      using unpacked_decapsulate_eq [of ?kp c] l(3,4) assms(2) by simp
    then show ?thesis
      using True by (simp add: d k fo_decapsulate_def cpa_encrypt_eq [OF l(2)] cpa_decrypt_def encrypt_unpacked_seed)
  qed (simp add: d k fo_decapsulate_def cpa_encrypt_eq [OF l(2)])
qed

end

text \<open>Key generation with unpacked keys, and the serialization of its result.\<close>

definition keygen_pair :: "mlkem_params \<Rightarrow> u8 list \<Rightarrow> MlKemKeyPairUnpacked" where
  "keygen_pair p randomness = (let d = take 32 randomness in
     \<lparr>kp_private_key = \<lparr>ind_cpa_private_key = keygen_sk p d, implicit_rejection_value = drop 32 randomness\<rparr>,
      kp_public_key = \<lparr>ind_cpa_public_key = \<lparr>t_as_ntt = keygen_t p d, seed_for_A = keygen_rho p d, matrix_A = matrix_of (RANK p) (keygen_rho p d)\<rparr>,
        public_key_hash = H (encode_vector (RANK p) (keygen_t p d) @ keygen_rho p d)\<rparr>\<rparr>)"

context valid_params
begin

lemma unpacked_generate_keypair_eq:
  "unpacked_generate_keypair p randomness (default_key_pair_unpacked (RANK p))
    = (if matrix_exists p (keygen_rho p (take 32 randomness)) then Some (keygen_pair p randomness) else None)"
  by (simp add: unpacked_generate_keypair_def Let_def CPA_PKE_KEY_GENERATION_SEED_SIZE_def subslice_def default_key_pair_unpacked_def
      default_public_key_unpacked_def generate_default_keypair_eq keygen_pair_def transpose_a_eq transposed_matrix_of public_key_updated
      serialize_public_key_eq [OF vector_bounded_nth [OF keygen_t_bounded]] encode_vector_def)

lemma serialized_pair:
  assumes "vector_bounded (RANK p) 3328 (ind_cpa_private_key (kp_private_key kp))"
    and "vector_bounded (RANK p) 3328 (t_as_ntt (ind_cpa_public_key (kp_public_key kp)))"
    and "length (seed_for_A (ind_cpa_public_key (kp_public_key kp))) = 32" and "length (implicit_rejection_value (kp_private_key kp)) = 32"
  defines "dk \<equiv> encode_vector (RANK p) (ind_cpa_private_key (kp_private_key kp))"
    and "ek \<equiv> encode_vector (RANK p) (t_as_ntt (ind_cpa_public_key (kp_public_key kp))) @ seed_for_A (ind_cpa_public_key (kp_public_key kp))"
  shows "serialized_private_key_11 p kp = dk @ ek @ H ek @ implicit_rejection_value (kp_private_key kp)"
    and "serialized_public_key_11 p kp = ek"
proof -
  note s = serialize_unpacked_secret_key_eq [OF assms(1-3), folded dk_def ek_def]
  have "length dk = CPA_PKE_SECRET_KEY_SIZE p" "length ek = CPA_PKE_PUBLIC_KEY_SIZE p"
    using encode_vector_decode(1) [OF assms(1) length_replicate] encode_vector_decode(1) [OF assms(2) length_replicate] assms(3)
    by (simp_all add: dk_def ek_def sizes)
  then show "serialized_private_key_11 p kp = dk @ ek @ H ek @ implicit_rejection_value (kp_private_key kp)"
    by (simp add: serialized_private_key_11_def serialized_private_key_mut_11_def s serialize_kem_secret_key_mut_eq assms(4))
  show "serialized_public_key_11 p kp = ek" using s by (simp add: serialized_public_key_11_def serialized_dd_def serialize_unpacked_secret_key_def Let_def)
qed

end

end
