(* ===== verification/MLKEM_Kem.thy ===== *)
theory MLKEM_Kem
  imports MLKEM_IndCcaCorrect
begin

section \<open>Properties of the key encapsulation mechanism\<close>

text \<open>
  The properties of ML-KEM as its callers see it: agreement, implicit rejection, the equivalence of the interfaces with packed and
  unpacked keys, round trips of the key encodings, and validation.
\<close>

context valid_params
begin

lemma keygen_cases:
  assumes "length randomness = 64"
  shows "generate_keypair p randomness = (if matrix_exists p (keygen_rho p (take 32 randomness))
    then Some (let dk = encode_vector (RANK p) (keygen_sk p (take 32 randomness));
               ek = encode_vector (RANK p) (keygen_t p (take 32 randomness)) @ keygen_rho p (take 32 randomness)
           in (dk @ ek @ H ek @ drop 32 randomness, ek))
    else None)"
  by (simp add: generate_keypair_eq [OF assms] cpa_generate_keypair_eq Let_def)

lemma generated_private_key:
  assumes "cpa_generate_keypair p d = Some (dk, ek)" and "length z = 32"
  shows "length (dk @ ek @ H ek @ z) = SECRET_KEY_SIZE p" and "unpack_private_key p (dk @ ek @ H ek @ z) = (dk, ek, H ek, z)"
  using public_key_encoded(4,5) [OF assms(1)] assms(2)
  by (simp_all add: kem_sizes sizes unpack_private_key_append)

lemma agreement_eq:
  assumes "length randomness = 64" and "length m = 32"
  shows "Option.bind (generate_keypair p randomness) (\<lambda>(sk, pk). Option.bind (encapsulate p pk m) (\<lambda>(c, K).
        map_option (\<lambda>K'. keygen_good p (take 32 randomness) m (drop 32 (G (m @ H pk))) \<longrightarrow> K' = K) (decapsulate p sk c)))
    = (if matrix_exists p (keygen_rho p (take 32 randomness)) then Some True else None)"
proof (cases "matrix_exists p (keygen_rho p (take 32 randomness))")
  case True
  let ?d = "take 32 randomness" and ?z = "drop 32 randomness"
  obtain dk ek where k: "cpa_generate_keypair p ?d = Some (dk, ek)" using True by (simp add: cpa_generate_keypair_eq)
  obtain c where c: "fo_encapsulate (cpa_encrypt p) ek (H ek) m = Some (c, take 32 (G (m @ H ek)))" "length c = CPA_PKE_CIPHERTEXT_SIZE p"
    using kpke.encapsulation_returns [OF k assms(2)] by blast
  have z: "length ?z = 32" using assms(1) by simp
  note g = generated_private_key [OF k z]
  note d = decapsulate_eq [OF g c(2)]
  obtain K' where K': "decapsulate p (dk @ ek @ H ek @ ?z) c = Some K'"
    using kpke.decapsulation_returns [OF k c(2)] d by auto
  have "keygen_good p ?d m (drop 32 (G (m @ H ek))) \<longrightarrow> K' = take 32 (G (m @ H ek))"
    using kpke.agreement [OF k assms(2) _ c(1)] d K' by (metis option.inject)
  then show ?thesis using True k c(1) K' by (simp add: generate_keypair_eq [OF assms(1)] encapsulate_eq [OF assms(2)])
qed (simp add: keygen_cases [OF assms(1)])

lemma encode_decoded:
  assumes "ring_bounded 3328 re"
  shows "serialize_uncompressed_ring_element (deserialize_to_uncompressed_ring_element (serialize_uncompressed_ring_element re)) = serialize_uncompressed_ring_element re"
    and "serialize_uncompressed_ring_element (deserialize_to_reduced_ring_element (serialize_uncompressed_ring_element re)) = serialize_uncompressed_ring_element re"
proof -
  note c = uncompressed_codec(2,3) [OF assms] and e = serialize_uncompressed_ring_element_eq [OF assms]
  have "map (\<lambda>x. x mod 3329) (map (\<lambda>x. x mod 3329) (coeffs re)) = map (\<lambda>x. x mod 3329) (coeffs re)" by simp
  then show "serialize_uncompressed_ring_element (deserialize_to_uncompressed_ring_element (serialize_uncompressed_ring_element re)) = serialize_uncompressed_ring_element re"
    "serialize_uncompressed_ring_element (deserialize_to_reduced_ring_element (serialize_uncompressed_ring_element re)) = serialize_uncompressed_ring_element re"
    by (simp_all only: serialize_uncompressed_ring_element_eq [OF decoded_element(1) [OF assms]]
        serialize_uncompressed_ring_element_eq [OF decoded_element(3) [OF assms]] c) (simp_all only: e)
qed

lemma reencoded_vector:
  assumes "vector_bounded K 3328 v" and "length init = K"
  shows "encode_vector K (deserialize_vector K (encode_vector K v) init) = encode_vector K v"
    and "encode_vector K (deserialize_ring_elements_reduced (encode_vector K v) init) = encode_vector K v"
  unfolding encode_vector_decode(2,3) [OF assms]
  using encode_decoded [OF vector_bounded_nth [OF assms(1)]] by (auto simp: encode_vector_def intro!: arg_cong [where f = concat])

lemma keypair_unpacked_eq:
  assumes "length randomness = 64"
  shows "generate_keypair p randomness = map_option (\<lambda>kp. (serialized_private_key_11 p kp, serialized_public_key_11 p kp))
    (unpacked_generate_keypair p randomness (default_key_pair_unpacked (RANK p)))"
  using serialized_pair [of "keygen_pair p randomness"] assms keygen_sk_bounded [of "take 32 randomness"] keygen_t_bounded [of "take 32 randomness"]
  by (simp add: keygen_cases unpacked_generate_keypair_eq keygen_pair_def Let_def)

lemma keypair_roundtrip_eq:
  assumes "length randomness = 64"
  shows "Option.bind (generate_keypair p randomness) (\<lambda>(sk, pk).
      map_option (\<lambda>kp. (serialized_private_key_11 p kp, serialized_public_key_11 p kp)) (keys_from_private_key p sk (default_key_pair_unpacked (RANK p))))
    = generate_keypair p randomness"
proof (cases "cpa_generate_keypair p (take 32 randomness)")
  case (Some k)
  obtain dk ek where k: "k = (dk, ek)" by (cases k)
  note e = public_key_encoded [OF Some [unfolded k]]
  have z: "length (drop 32 randomness) = 32" using assms by simp
  note g = generated_private_key [OF Some [unfolded k] z]
  let ?s = "deserialize_vector (RANK p) dk (replicate (RANK p) ZERO_d6)" and ?rho = "keygen_rho p (take 32 randomness)"
  let ?pk = "(rebuilt_public_key p ek)\<lparr>seed_for_A := ?rho\<rparr>"
  let ?kp = "\<lparr>kp_private_key = \<lparr>ind_cpa_private_key = ?s, implicit_rejection_value = drop 32 randomness\<rparr>,
      kp_public_key = \<lparr>ind_cpa_public_key = ?pk, public_key_hash = H ek\<rparr>\<rparr>"
  have kf: "keys_from_private_key p (dk @ ek @ H ek @ drop 32 randomness) (default_key_pair_unpacked (RANK p)) = Some ?kp"
    using keys_from_private_key_eq [OF g] e(1,6) by simp
  have s: "vector_bounded (RANK p) 3328 ?s" "encode_vector (RANK p) ?s = dk"
    using decoded_vector(1) [OF keygen_sk_bounded length_replicate] reencoded_vector(1) [OF keygen_sk_bounded length_replicate] by (simp_all add: e(2))
  have tk: "take (T_AS_NTT_ENCODED_SIZE p) ek = encode_vector (RANK p) (keygen_t p (take 32 randomness))"
    using encode_vector_decode(1) [OF keygen_t_bounded [OF e(1)] length_replicate] by (simp add: e(3) sizes)
  have t: "vector_bounded (RANK p) 3328 (t_as_ntt ?pk)" "encode_vector (RANK p) (t_as_ntt ?pk) @ ?rho = ek"
    using decoded_vector(3) [OF keygen_t_bounded [OF e(1)] length_replicate] reencoded_vector(2) [OF keygen_t_bounded [OF e(1)] length_replicate]
    by (simp_all add: rebuilt_public_key_def tk) (simp add: e(3))
  have "serialized_private_key_11 p ?kp = dk @ ek @ H ek @ drop 32 randomness" "serialized_public_key_11 p ?kp = ek"
    using serialized_pair [of ?kp] s t z by (simp_all add: rebuilt_public_key_def)
  then show ?thesis using Some k kf by (simp add: generate_keypair_eq [OF assms])
qed (simp add: generate_keypair_eq [OF assms])

text \<open>The modulus check accepts a public key when decoding and encoding again leaves it unchanged.\<close>

lemma serialize_reduced:
  assumes "length c = 384"
  shows "serialize_uncompressed_ring_element (deserialize_to_reduced_ring_element c) = c
    \<longleftrightarrow> list_all (\<lambda>x. x < 3329) (byte_decode 12 c)"
proof -
  let ?xs = "byte_decode 12 c"
  have r: "coeffs_in 12 ?xs" using codec_12.decode_range assms by simp
  note d = deserialize_to_reduced_ring_element_eq [OF assms]
  have b: "ring_bounded 3328 (deserialize_to_reduced_ring_element c)" using d by (auto simp: ring_bounded_iff abs_le_iff)
  have e: "serialize_uncompressed_ring_element (deserialize_to_reduced_ring_element c) = byte_encode 12 (map (\<lambda>x. x mod 3329) ?xs)"
    by (simp add: serialize_uncompressed_ring_element_eq [OF b] d(2) comp_def)
  have lx: "length ?xs = 256" using d by (metis length_coeffs length_map)
  have m: "coeffs_in 12 (map (\<lambda>x. x mod 3329) ?xs)"
    unfolding coeffs_in_def list.pred_map by (simp add: list_all_iff) (smt (verit) pos_mod_bound)
  have f: "byte_decode 12 (byte_encode 12 (map (\<lambda>x. x mod 3329) ?xs)) = map (\<lambda>x. x mod 3329) ?xs"
    using codec_12.decode_encode(1) [OF _ m] lx by simp
  have g: "byte_encode 12 ?xs = c" using codec_12.encode_decode [of c] assms by simp
  have "byte_encode 12 (map (\<lambda>x. x mod 3329) ?xs) = c \<longleftrightarrow> map (\<lambda>x. x mod 3329) ?xs = ?xs"
    by (rule iffI, drule arg_cong [where f = "byte_decode 12"], simp only: f, simp only: g)
  moreover have "map (\<lambda>x. x mod 3329) ?xs = ?xs \<longleftrightarrow> list_all (\<lambda>x. x < 3329) ?xs"
  proof
    assume "map (\<lambda>x. x mod 3329) ?xs = ?xs"
    then show "list_all (\<lambda>x. x < 3329) ?xs" by (metis (mono_tags, lifting) list_all_length length_map nth_map pos_mod_bound zero_less_numeral)
  next
    assume "list_all (\<lambda>x. x < 3329) ?xs"
    then show "map (\<lambda>x. x mod 3329) ?xs = ?xs" using r by (intro map_idI) (auto simp: coeffs_in_def list_all_iff)
  qed
  ultimately show ?thesis using e by simp
qed

lemma length_reduced_encoding:
  "length c = 384 \<Longrightarrow> length (serialize_uncompressed_ring_element (deserialize_to_reduced_ring_element c)) = 384"
  using deserialize_to_reduced_ring_element_eq [of c]
  by (intro uncompressed_codec(1)) (auto simp: ring_bounded_iff abs_le_iff)

lemma concat_map_fixed:
  assumes "\<And>c. c \<in> set cs \<Longrightarrow> length (f c) = length c"
  shows "concat (map f cs) = concat cs \<longleftrightarrow> (\<forall>c \<in> set cs. f c = c)"
proof
  assume e: "concat (map f cs) = concat cs"
  have "map f cs = cs" by (rule concat_injective [OF e]) (use assms in \<open>auto simp: set_zip\<close>)
  then show "\<forall>c \<in> set cs. f c = c" by (metis map_eq_conv map_ident)
qed (simp add: map_idI)

lemma validate_public_key_iff:
  assumes "length pk = CPA_PKE_PUBLIC_KEY_SIZE p"
  shows "validate_public_key p pk \<longleftrightarrow> list_all (\<lambda>c. list_all (\<lambda>x. x < 3329) (byte_decode 12 c)) (chunks 384 (take (384 * RANK p) pk))"
proof -
  let ?t = "take (384 * RANK p) pk" and ?rho = "drop (384 * RANK p) pk"
  let ?red = "deserialize_to_reduced_ring_element" and ?ser = serialize_uncompressed_ring_element
  have l: "length ?t = 384 * RANK p" "length ?rho = 32" "length ?t = RANK p * 384" using assms by (simp_all add: sizes)
  have cl: "length c = 384" if "c \<in> set (chunks 384 ?t)" for c
    by (rule chunks_member_length [OF _ l(3) that]) simp
  have d: "deserialize_ring_elements_reduced_out (RANK p) ?t = map ?red (chunks 384 ?t)"
    using deserialize_ring_elements_reduced_eq [OF l(1)] by (simp add: deserialize_ring_elements_reduced_out_def)
  have "vector_bounded (RANK p) 3328 (map ?red (chunks 384 ?t))"
    using decoded_public_key [OF l(1), of "replicate (RANK p) ZERO_d6"] deserialize_ring_elements_reduced_eq [OF l(1)] by simp
  then have "serialize_public_key p (map ?red (chunks 384 ?t)) ?rho = concat (map (\<lambda>i. ?ser (map ?red (chunks 384 ?t) ! i)) [0..<RANK p]) @ ?rho"
    using vector_bounded_nth l(2) by (intro serialize_public_key_eq) auto
  also have "map (\<lambda>i. ?ser (map ?red (chunks 384 ?t) ! i)) [0..<RANK p] = map (\<lambda>c. ?ser (?red c)) (chunks 384 ?t)"
    using length_chunks [OF _ l(3)] by (intro nth_equalityI) simp_all
  finally have e: "validate_public_key p pk \<longleftrightarrow> pk = concat (map (\<lambda>c. ?ser (?red c)) (chunks 384 ?t)) @ ?rho"
    by (simp add: validate_public_key_def sizes(8) subslice_def d Let_def)
  have "pk = concat (chunks 384 ?t) @ ?rho" by (simp add: concat_chunks)
  then have "validate_public_key p pk \<longleftrightarrow> concat (map (\<lambda>c. ?ser (?red c)) (chunks 384 ?t)) = concat (chunks 384 ?t)"
    using e by (metis append_same_eq)
  also have "\<dots> \<longleftrightarrow> (\<forall>c \<in> set (chunks 384 ?t). ?ser (?red c) = c)"
    by (rule concat_map_fixed) (simp add: cl length_reduced_encoding)
  finally show ?thesis using serialize_reduced cl by (simp add: list_all_iff)
qed

lemma generated_keys_valid:
  assumes "length randomness = 64"
  shows "map_option (\<lambda>(sk, pk). length sk = SECRET_KEY_SIZE p \<and> length pk = CPA_PKE_PUBLIC_KEY_SIZE p
      \<and> validate_private_key_only p sk \<and> validate_public_key p pk) (generate_keypair p randomness)
    = map_option (\<lambda>_. True) (generate_keypair p randomness)"
proof (cases "cpa_generate_keypair p (take 32 randomness)")
  case (Some k)
  obtain dk ek where k: "k = (dk, ek)" by (cases k)
  note e = public_key_encoded [OF Some [unfolded k]]
  have z: "length (drop 32 randomness) = 32" using assms by simp
  note g = generated_private_key [OF Some [unfolded k] z]
  let ?t = "keygen_t p (take 32 randomness)"
  note b = keygen_t_bounded [OF e(1)]
  have tk: "take (384 * RANK p) ek = encode_vector (RANK p) ?t" "drop (384 * RANK p) ek = keygen_rho p (take 32 randomness)"
    using encode_vector_decode(1) [OF b length_replicate] by (simp_all add: e(3))
  let ?t' = "deserialize_ring_elements_reduced (encode_vector (RANK p) ?t) (replicate (RANK p) ZERO_d6)"
  have "vector_bounded (RANK p) 3328 ?t'" "encode_vector (RANK p) ?t' = encode_vector (RANK p) ?t"
    using decoded_vector(3) [OF b length_replicate] reencoded_vector(2) [OF b length_replicate] by simp_all
  then have "serialize_public_key p ?t' (keygen_rho p (take 32 randomness)) = ek"
    using serialize_public_key_eq [OF vector_bounded_nth length_keygen_rho] by (simp add: encode_vector_def e(3))
  then have "validate_public_key p ek"
    by (simp add: validate_public_key_def sizes(8) subslice_def tk deserialize_ring_elements_reduced_out_def)
  then show ?thesis
    using Some k e(4) g validate_private_key_only_iff [OF g] by (simp add: generate_keypair_eq [OF assms])
qed (simp add: generate_keypair_eq [OF assms])

end

subsection \<open>Statements for the three parameter sets\<close>

text \<open>
  C1. Agreement: for every parameter set, 64 bytes of key generation randomness and 32 bytes of encapsulation randomness, when
  the rejection sampling of the public matrix ends, key generation, encapsulation and decapsulation all return, and the
  decapsulated secret equals the encapsulated one provided the noise of the encryption is small; when it does not end, key
  generation does not return.
\<close>

theorem kem_agreement:
  assumes "p \<in> set all_params" and "length randomness = 64" and "length m = 32"
  shows "Option.bind (generate_keypair p randomness) (\<lambda>(sk, pk). Option.bind (encapsulate p pk m) (\<lambda>(c, K).
        map_option (\<lambda>K'. keygen_good p (take 32 randomness) m (drop 32 (G (m @ H pk))) \<longrightarrow> K' = K) (decapsulate p sk c)))
    = (if matrix_exists p (keygen_rho p (take 32 randomness)) then Some True else None)"
  by (rule valid_params.agreement_eq [OF all_params_valid]) (rule assms)+

theorem kem_agreement_witness:
  "Option.bind (generate_keypair mlkem768 (replicate 64 1)) (\<lambda>(sk, pk). Option.bind (encapsulate mlkem768 pk (replicate 32 2)) (\<lambda>(c, K).
        map_option (\<lambda>K'. keygen_good mlkem768 (replicate 32 1) (replicate 32 2) (drop 32 (G (replicate 32 2 @ H pk))) \<longrightarrow> K' = K)
          (decapsulate mlkem768 sk c)))
    = (if matrix_exists mlkem768 (keygen_rho mlkem768 (replicate 32 1)) then Some True else None)"
  using kem_agreement [of mlkem768 "replicate 64 1" "replicate 32 2"] by (simp add: all_params_def)

text \<open>
  C4. Implicit rejection: decapsulation with any private key of the right length is the Fujisaki-Okamoto decapsulation over its four parts, which are at the offsets of
  the standard (the decryption key, the encryption key, the 32-byte hash \<open>h\<close> and the rejection value \<open>z\<close>, in this order): it decrypts to \<open>m'\<close>, derives a secret and
  randomness from \<open>G (m' @ h)\<close>, encrypts again, and returns the derived secret if the ciphertexts are equal and \<open>PRF (z @ c)\<close> if not.
\<close>

theorem decapsulate_refines_fo:
  assumes "p \<in> set all_params" and "length sk = SECRET_KEY_SIZE p" and "length c = CPA_PKE_CIPHERTEXT_SIZE p"
  defines "a \<equiv> CPA_PKE_SECRET_KEY_SIZE p" and "b \<equiv> CPA_PKE_SECRET_KEY_SIZE p + CPA_PKE_PUBLIC_KEY_SIZE p"
  shows "decapsulate p sk c
    = fo_decapsulate (cpa_encrypt p) (cpa_decrypt p) (take a sk) (subslice sk a b) (subslice sk b (b + 32)) (drop (b + 32) sk) c"
proof -
  have "unpack_private_key p sk = (take a sk, subslice sk a b, subslice sk b (b + 32), drop (b + 32) sk)"
    by (simp add: unpack_private_key_def a_def b_def subslice_def H_DIGEST_SIZE_def ac_simps)
  then show ?thesis using valid_params.decapsulate_eq [OF all_params_valid [OF assms(1)] assms(2) _ assms(3)] by simp
qed

theorem decapsulate_refines_fo_witness:
  "decapsulate mlkem512 (replicate 1632 3) (replicate 768 4)
    = fo_decapsulate (cpa_encrypt mlkem512) (cpa_decrypt mlkem512) (replicate 768 3) (replicate 800 3) (replicate 32 3) (replicate 32 3) (replicate 768 4)"
  using decapsulate_refines_fo [of mlkem512 "replicate 1632 3" "replicate 768 4"]
    params_512.sizes params_512.kem_sizes
  by (simp add: all_params_def mlkem512_def subslice_def)

text \<open>
  C8. Encapsulation with a serialized public key of the right length equals encapsulation with the key it unpacks to.
\<close>

theorem encapsulate_packed_unpacked:
  assumes "p \<in> set all_params" and "length pk = CPA_PKE_PUBLIC_KEY_SIZE p" and "length m = 32"
  shows "encapsulate p pk m = map_option (\<lambda>upk. unpacked_encapsulate p upk m) (unpack_public_key p pk (default_public_key_unpacked (RANK p)))"
  by (rule valid_params.encapsulate_unpacked [OF all_params_valid]) (rule assms)+

theorem encapsulate_packed_unpacked_witness:
  "encapsulate mlkem512 (replicate 800 3) (replicate 32 4)
    = map_option (\<lambda>upk. unpacked_encapsulate mlkem512 upk (replicate 32 4)) (unpack_public_key mlkem512 (replicate 800 3) (default_public_key_unpacked 2))"
  using encapsulate_packed_unpacked [of mlkem512 "replicate 800 3" "replicate 32 4"] params_512.sizes
  by (simp add: all_params_def mlkem512_def)

text \<open>
  C7. Decapsulation with any serialized private key of the right length equals decapsulation with the key pair it unpacks to.
\<close>

theorem decapsulate_packed_unpacked:
  assumes "p \<in> set all_params" and "length sk = SECRET_KEY_SIZE p" and "length c = CPA_PKE_CIPHERTEXT_SIZE p"
  shows "decapsulate p sk c = map_option (\<lambda>kp. unpacked_decapsulate p kp c) (keys_from_private_key p sk (default_key_pair_unpacked (RANK p)))"
  by (rule valid_params.decapsulate_unpacked [OF all_params_valid]) (rule assms)+

theorem decapsulate_packed_unpacked_witness:
  "decapsulate mlkem512 (replicate 1632 3) (replicate 768 4)
    = map_option (\<lambda>kp. unpacked_decapsulate mlkem512 kp (replicate 768 4)) (keys_from_private_key mlkem512 (replicate 1632 3) (default_key_pair_unpacked 2))"
  using decapsulate_packed_unpacked [of mlkem512 "replicate 1632 3" "replicate 768 4"] params_512.sizes params_512.kem_sizes
  by (simp add: all_params_def mlkem512_def)

text \<open>
  C9. Key generation in the packed interface returns the serialization of the pair that the unpacked interface generates from the same randomness.
\<close>

theorem generate_packed_unpacked:
  assumes "p \<in> set all_params" and "length randomness = 64"
  shows "generate_keypair p randomness = map_option (\<lambda>kp. (serialized_private_key_11 p kp, serialized_public_key_11 p kp))
    (unpacked_generate_keypair p randomness (default_key_pair_unpacked (RANK p)))"
  by (rule valid_params.keypair_unpacked_eq [OF all_params_valid]) (rule assms)+

theorem generate_packed_unpacked_witness:
  "generate_keypair mlkem512 (replicate 64 1)
    = map_option (\<lambda>kp. (serialized_private_key_11 mlkem512 kp, serialized_public_key_11 mlkem512 kp))
        (unpacked_generate_keypair mlkem512 (replicate 64 1) (default_key_pair_unpacked 2))"
  using generate_packed_unpacked [of mlkem512 "replicate 64 1"] by (simp add: all_params_def mlkem512_def)

text \<open>
  C10. Unpacking a generated private key and serializing the resulting pair gives back both generated keys.
\<close>

theorem private_key_roundtrip:
  assumes "p \<in> set all_params" and "length randomness = 64"
  shows "Option.bind (generate_keypair p randomness) (\<lambda>(sk, pk).
      map_option (\<lambda>kp. (serialized_private_key_11 p kp, serialized_public_key_11 p kp)) (keys_from_private_key p sk (default_key_pair_unpacked (RANK p))))
    = generate_keypair p randomness"
  by (rule valid_params.keypair_roundtrip_eq [OF all_params_valid]) (rule assms)+

theorem private_key_roundtrip_witness:
  "Option.bind (generate_keypair mlkem512 (replicate 64 1)) (\<lambda>(sk, pk).
      map_option (\<lambda>kp. (serialized_private_key_11 mlkem512 kp, serialized_public_key_11 mlkem512 kp)) (keys_from_private_key mlkem512 sk (default_key_pair_unpacked 2)))
    = generate_keypair mlkem512 (replicate 64 1)"
  using private_key_roundtrip [of mlkem512 "replicate 64 1"] by (simp add: all_params_def mlkem512_def)

text \<open>
  C11. The public key check accepts a byte string of the right length exactly when all its encoded coefficients are below 3329.
\<close>

theorem validate_public_key_correct:
  assumes "p \<in> set all_params" and "length pk = CPA_PKE_PUBLIC_KEY_SIZE p"
  shows "validate_public_key p pk \<longleftrightarrow> list_all (\<lambda>c. list_all (\<lambda>x. x < 3329) (byte_decode 12 c)) (chunks 384 (take (384 * RANK p) pk))"
  by (rule valid_params.validate_public_key_iff [OF all_params_valid]) (rule assms)+

theorem validate_public_key_correct_witness:
  "validate_public_key mlkem512 (replicate 800 255)
    = list_all (\<lambda>c. list_all (\<lambda>x. x < 3329) (byte_decode 12 c)) (chunks 384 (replicate 768 255))"
  using validate_public_key_correct [of mlkem512 "replicate 800 255"] params_512.sizes
  by (simp add: all_params_def mlkem512_def)

text \<open>
  C12. The keys that key generation returns have the lengths of the parameter set and pass both checks.
\<close>

theorem generated_keys_pass_validation:
  assumes "p \<in> set all_params" and "length randomness = 64"
  shows "map_option (\<lambda>(sk, pk). length sk = SECRET_KEY_SIZE p \<and> length pk = CPA_PKE_PUBLIC_KEY_SIZE p
      \<and> validate_private_key_only p sk \<and> validate_public_key p pk) (generate_keypair p randomness)
    = map_option (\<lambda>_. True) (generate_keypair p randomness)"
  by (rule valid_params.generated_keys_valid [OF all_params_valid]) (rule assms)+

theorem generated_keys_pass_validation_witness:
  "map_option (\<lambda>(sk, pk). length sk = SECRET_KEY_SIZE mlkem512 \<and> length pk = CPA_PKE_PUBLIC_KEY_SIZE mlkem512
      \<and> validate_private_key_only mlkem512 sk \<and> validate_public_key mlkem512 pk) (generate_keypair mlkem512 (replicate 64 1))
    = map_option (\<lambda>_. True) (generate_keypair mlkem512 (replicate 64 1))"
  using generated_keys_pass_validation [of mlkem512 "replicate 64 1"] by (simp add: all_params_def)

end
