(* ===== verification/MLDSA_Arith.thy ===== *)
theory MLDSA_Arith
  imports Libcrux_Prelude
begin

section \<open>ML-DSA: arithmetic and rounding\<close>

text \<open>
  The portable vector of ML-DSA (\<open>libcrux_ml_dsa_simd_portable_vector_type_Coefficients\<close>, an array of eight \<open>int32_t\<close>) and its
  arithmetic: \<open>libcrux_mldsa_core.c\<close> lines 300--785. The trait wrappers that follow each C function (suffix \<open>_65\<close>) only call it
  and are folded into it. A \<open>switch\<close> on the rounding parameter whose default branch aborts the program is an option.

  The lemmas relate the shift-and-mask code to the definitions of FIPS 204: reduction, \<open>Power2Round\<close>, \<open>Decompose\<close>, and the pair
  \<open>MakeHint\<close>/\<open>UseHint\<close>.
\<close>

type_synonym coefficients = "i32 list"

subsection \<open>Constants\<close>

definition COEFFICIENTS_IN_SIMD_UNIT :: nat where
  "COEFFICIENTS_IN_SIMD_UNIT = 8"

definition SIMD_UNITS_IN_RING_ELEMENT :: nat where
  "SIMD_UNITS_IN_RING_ELEMENT = 32"

definition DSA_FIELD_MODULUS :: i32 where
  "DSA_FIELD_MODULUS = 8380417"

definition BITS_IN_LOWER_PART_OF_T :: nat where
  "BITS_IN_LOWER_PART_OF_T = 13"

definition DSA_INVERSE_OF_MODULUS_MOD_MONTGOMERY_R :: u64 where
  "DSA_INVERSE_OF_MODULUS_MOD_MONTGOMERY_R = 58728449"

definition DSA_MONTGOMERY_SHIFT :: nat where
  "DSA_MONTGOMERY_SHIFT = 32"

text \<open>The C idiom \<open>(int32_t)((uint32_t)x << k)\<close>.\<close>

definition shl_i32 :: "i32 \<Rightarrow> nat \<Rightarrow> i32" where
  "shl_i32 x k = as_i32 (uint (push_bit k (word_of_int x :: u32)))"

subsection \<open>The vector\<close>

definition dsa_zero :: coefficients where
  "dsa_zero = replicate 8 0"

definition from_coefficient_array :: "i32 list \<Rightarrow> coefficients \<Rightarrow> coefficients" where
  "from_coefficient_array array out = slice_copy out 0 (subslice array 0 COEFFICIENTS_IN_SIMD_UNIT)"

definition to_coefficient_array :: "coefficients \<Rightarrow> i32 list \<Rightarrow> i32 list" where
  "to_coefficient_array x out = slice_copy out 0 x"

definition dsa_add :: "coefficients \<Rightarrow> coefficients \<Rightarrow> coefficients" where
  "dsa_add lhs rhs = for_loop 0 8 (\<lambda>i lhs. lhs[i := as_i32 (lhs ! i + rhs ! i)]) lhs"

definition dsa_subtract :: "coefficients \<Rightarrow> coefficients \<Rightarrow> coefficients" where
  "dsa_subtract lhs rhs = for_loop 0 8 (\<lambda>i lhs. lhs[i := as_i32 (lhs ! i - rhs ! i)]) lhs"

definition infinity_norm_exceeds :: "coefficients \<Rightarrow> i32 \<Rightarrow> bool" where
  "infinity_norm_exceeds simd_unit bound =
     for_loop 0 8 (\<lambda>i result.
         let coefficient = simd_unit ! i;
             sign = drop_bit 31 coefficient;
             normalized = as_i32 (coefficient - (sign AND as_i32 (2 * coefficient)))
         in if result then True else bound \<le> normalized) False"

subsection \<open>Decomposition and hints\<close>

definition decompose_element :: "i32 \<Rightarrow> i32 \<Rightarrow> (i32 \<times> i32) option" where
  "decompose_element gamma2 r =
     (let r0 = as_i32 (r + (drop_bit 31 r AND DSA_FIELD_MODULUS));
          ceil_of_r_by_128 = drop_bit 7 (as_i32 (r0 + 127));
          r1 = (if gamma2 = 95232 then
                  let result = drop_bit 24 (as_i32 (as_i32 (ceil_of_r_by_128 * 11275) + shl_i32 1 23))
                  in Some ((result XOR drop_bit 31 (as_i32 (43 - result))) AND result)
                else if gamma2 = 261888 then
                  let result = drop_bit 22 (as_i32 (as_i32 (ceil_of_r_by_128 * 1025) + shl_i32 1 21))
                  in Some (result AND 15)
                else None)
      in map_option (\<lambda>r1.
           let alpha = as_i32 (gamma2 * 2);
               r00 = as_i32 (r0 - as_i32 (r1 * alpha));
               r00 = as_i32 (r00 - (drop_bit 31 (as_i32 ((DSA_FIELD_MODULUS - 1) div 2 - r00)) AND DSA_FIELD_MODULUS))
           in (r00, r1)) r1)"

definition dsa_decompose :: "i32 \<Rightarrow> coefficients \<Rightarrow> coefficients \<Rightarrow> coefficients \<Rightarrow> (coefficients \<times> coefficients) option" where
  "dsa_decompose gamma2 simd_unit low high =
     for_option 0 8 (\<lambda>i (low, high).
         map_option (\<lambda>(r0, r1). (low[i := r0], high[i := r1])) (decompose_element gamma2 (simd_unit ! i))) (low, high)"

definition compute_one_hint :: "i32 \<Rightarrow> i32 \<Rightarrow> i32 \<Rightarrow> i32" where
  "compute_one_hint low high gamma2 =
     (if gamma2 < low then 1
      else if low < - gamma2 then 1
      else if low = - gamma2 then (if high \<noteq> 0 then 1 else 0)
      else 0)"

definition compute_hint :: "coefficients \<Rightarrow> coefficients \<Rightarrow> i32 \<Rightarrow> coefficients \<Rightarrow> nat \<times> coefficients" where
  "compute_hint low high gamma2 hint =
     for_loop 0 8 (\<lambda>i (one_hints_count, hint).
         let hint = hint[i := compute_one_hint (low ! i) (high ! i) gamma2]
         in (one_hints_count + nat (hint ! i), hint)) (0, hint)"

definition use_one_hint :: "i32 \<Rightarrow> i32 \<Rightarrow> i32 \<Rightarrow> i32 option" where
  "use_one_hint gamma2 r hint =
     Option.bind (decompose_element gamma2 r) (\<lambda>(r0, r1).
       if hint \<noteq> 0 then
         if gamma2 = 95232 then
           Some (if 0 < r0 then (if r1 = 43 then 0 else as_i32 (r1 + hint))
                 else if r1 = 0 then 43 else as_i32 (r1 - hint))
         else if gamma2 = 261888 then
           Some (if 0 < r0 then as_i32 (r1 + hint) AND 15 else as_i32 (r1 - hint) AND 15)
         else None
       else Some r1)"

definition dsa_use_hint :: "i32 \<Rightarrow> coefficients \<Rightarrow> coefficients \<Rightarrow> coefficients option" where
  "dsa_use_hint gamma2 simd_unit hint =
     for_option 0 8 (\<lambda>i hint. map_option (\<lambda>h. hint[i := h]) (use_one_hint gamma2 (simd_unit ! i) (hint ! i))) hint"

subsection \<open>Reductions\<close>

definition dsa_get_n_least_significant_bits :: "nat \<Rightarrow> u64 \<Rightarrow> u64" where
  "dsa_get_n_least_significant_bits n x = x AND (push_bit n 1 - 1)"

definition dsa_montgomery_reduce_element :: "int \<Rightarrow> i32" where
  "dsa_montgomery_reduce_element x =
     (let t = dsa_get_n_least_significant_bits DSA_MONTGOMERY_SHIFT (word_of_int x) * DSA_INVERSE_OF_MODULUS_MOD_MONTGOMERY_R;
          k = as_i32 (uint (dsa_get_n_least_significant_bits DSA_MONTGOMERY_SHIFT t));
          k_times_modulus = as_i64 (k * DSA_FIELD_MODULUS);
          c = as_i32 (drop_bit DSA_MONTGOMERY_SHIFT k_times_modulus);
          value_high = as_i32 (drop_bit DSA_MONTGOMERY_SHIFT x)
      in as_i32 (value_high - c))"

definition dsa_montgomery_multiply :: "coefficients \<Rightarrow> coefficients \<Rightarrow> coefficients" where
  "dsa_montgomery_multiply lhs rhs =
     for_loop 0 8 (\<lambda>i lhs. lhs[i := dsa_montgomery_reduce_element (as_i64 (lhs ! i * rhs ! i))]) lhs"

definition dsa_montgomery_multiply_by_constant :: "coefficients \<Rightarrow> i32 \<Rightarrow> coefficients" where
  "dsa_montgomery_multiply_by_constant simd_unit c =
     for_loop 0 8 (\<lambda>i simd_unit. simd_unit[i := dsa_montgomery_reduce_element (as_i64 (simd_unit ! i * c))]) simd_unit"

definition dsa_barrett_reduce_element :: "i32 \<Rightarrow> i32" where
  "dsa_barrett_reduce_element fe =
     (let quotient = drop_bit 23 (as_i32 (fe + shl_i32 1 22))
      in as_i32 (fe - as_i32 (quotient * DSA_FIELD_MODULUS)))"

definition barrett_reduce_simd_unit :: "coefficients \<Rightarrow> coefficients" where
  "barrett_reduce_simd_unit simd_unit =
     for_loop 0 8 (\<lambda>i simd_unit. simd_unit[i := dsa_barrett_reduce_element (simd_unit ! i)]) simd_unit"

definition shift_left_then_reduce :: "nat \<Rightarrow> coefficients \<Rightarrow> coefficients" where
  "shift_left_then_reduce SHIFT_BY simd_unit =
     barrett_reduce_simd_unit (for_loop 0 8 (\<lambda>i simd_unit. simd_unit[i := shl_i32 (simd_unit ! i) SHIFT_BY]) simd_unit)"

definition power2round_element :: "i32 \<Rightarrow> i32 \<times> i32" where
  "power2round_element t =
     (let t2 = as_i32 (t + (drop_bit 31 t AND DSA_FIELD_MODULUS));
          t1 = drop_bit BITS_IN_LOWER_PART_OF_T (as_i32 (as_i32 (t2 - 1) + shl_i32 1 (BITS_IN_LOWER_PART_OF_T - 1)));
          t0 = as_i32 (t2 - shl_i32 t1 BITS_IN_LOWER_PART_OF_T)
      in (t0, t1))"

definition dsa_power2round :: "coefficients \<Rightarrow> coefficients \<Rightarrow> coefficients \<times> coefficients" where
  "dsa_power2round t0 t1 =
     for_loop 0 8 (\<lambda>i (t0, t1).
         let (x, y) = power2round_element (t0 ! i) in (t0[i := x], t1[i := y])) (t0, t1)"

subsection \<open>Reference definitions\<close>

text \<open>The centered remainder, \<open>Power2Round\<close> and \<open>Decompose\<close> of FIPS 204.\<close>

definition mod_pm :: "int \<Rightarrow> int \<Rightarrow> int" where
  "mod_pm x a = (let y = x mod a in if a div 2 < y then y - a else y)"

definition power2round_spec :: "int \<Rightarrow> int \<times> int" where
  "power2round_spec r = (let rp = r mod 8380417; r0 = mod_pm rp (2 ^ 13) in (r0, (rp - r0) div 2 ^ 13))"

definition decompose_spec :: "int \<Rightarrow> int \<Rightarrow> int \<times> int" where
  "decompose_spec gamma2 r =
     (let rp = r mod 8380417; r0 = mod_pm rp (2 * gamma2)
      in if rp - r0 = 8380416 then (r0 - 1, 0) else (r0, (rp - r0) div (2 * gamma2)))"

lemma mod_pm_unique:
  assumes "even a" and "0 < a" and "- (a div 2) < y" and "y \<le> a div 2" and "x = y + k * a"
  shows "mod_pm x a = y"
proof (cases "0 \<le> y")
  case True
  then have "x mod a = y" using assms by simp
  then show ?thesis using assms by (simp add: mod_pm_def)
next
  case False
  have "x = (y + a) + (k - 1) * a" using assms(5) by (simp add: algebra_simps)
  moreover have "0 \<le> y + a" "y + a < a" using False assms by linarith+
  ultimately have "x mod a = y + a" by (simp only: mod_mult_self1 mod_pos_pos_trivial)
  moreover have "a div 2 < y + a" using assms(1,3) by (auto elim!: evenE)
  ultimately show ?thesis by (simp add: mod_pm_def)
qed

subsection \<open>Shifts and masks\<close>

lemma sign_mask: "is_i32 x \<Longrightarrow> drop_bit 31 x = (if x < 0 then - 1 else 0)"
  by (auto simp: drop_bit_eq_div is_i32_def)

lemma shl_i32_eq: "shl_i32 x k = as_i32 (x * 2 ^ k)"
proof -
  have "push_bit k (word_of_int x :: u32) = word_of_int (x * 2 ^ k)" by (simp add: push_bit_eq_mult)
  then have "uint (push_bit k (word_of_int x :: u32)) = take_bit 32 (x * 2 ^ k)" by (simp only: uint_word_of_int_eq) simp
  then show ?thesis by (simp add: shl_i32_def as_i32_def signed_take_bit_take_bit)
qed

lemma normalize_sign:
  assumes "- 8380417 < r" and "r < 8380417"
  shows "as_i32 (r + (drop_bit 31 r AND DSA_FIELD_MODULUS)) = r mod 8380417"
proof -
  have r: "is_i32 r" using assms by (simp add: is_i32_def)
  have "r mod 8380417 = (if r < 0 then r + 8380417 else r)"
    using assms by (auto simp: mod_pos_pos_trivial) (smt (verit) mod_add_self2 mod_pos_pos_trivial)
  moreover have "is_i32 (r + 8380417)" using assms by (simp add: is_i32_def)
  ultimately show ?thesis using r by (auto simp: sign_mask DSA_FIELD_MODULUS_def)
qed

subsection \<open>Power2Round\<close>

lemma power2round_element_eq:
  assumes "- 8380417 < t" and "t < 8380417"
  shows "power2round_element t = power2round_spec t"
proof -
  define rp where "rp = t mod 8380417"
  have rp: "0 \<le> rp" "rp < 8380417" by (simp_all add: rp_def)
  define t1 where "t1 = (rp + 4095) div 8192"
  have t1: "8192 * t1 \<le> rp + 4095" "rp + 4095 < 8192 * t1 + 8192" unfolding t1_def by linarith+
  have b: "0 \<le> t1" "t1 \<le> 1023" using t1 rp by linarith+
  have "mod_pm rp (2 ^ 13) = rp - 8192 * t1"
    using t1 by (intro mod_pm_unique [where k = t1]) simp_all
  then have "power2round_spec t = (rp - 8192 * t1, t1)" by (simp add: power2round_spec_def rp_def [symmetric])
  moreover have "power2round_element t = (rp - 8192 * t1, t1)"
  proof -
    have i: "is_i32 (rp - 1)" "is_i32 (4095 + rp)" "is_i32 (rp - 8192 * t1)" "is_i32 (t1 * 8192)" using rp b t1 by (simp_all add: is_i32_def)
    have d: "drop_bit 13 (4095 + rp) = t1" by (simp add: drop_bit_eq_div t1_def add.commute)
    have c: "as_i32 4096 = 4096" by (simp add: is_i32_def)
    show ?thesis
      unfolding power2round_element_def normalize_sign [OF assms] rp_def [symmetric] BITS_IN_LOWER_PART_OF_T_def
      using i d c by (simp add: Let_def shl_i32_eq mult.commute)
  qed
  ultimately show ?thesis by simp
qed

subsection \<open>Decompose\<close>

text \<open>
  The multiplication and shift of the code compute the nearest multiple of \<open>2 * gamma2\<close>: with \<open>c\<close> the rounded-up eighth-bit
  of \<open>r\<close>, both sides are the same quotient for every \<open>r\<close> in the field.
\<close>

lemma high_bits_95232:
  fixes r :: int
  assumes "0 \<le> r" and "r < 8380417"
  defines "k \<equiv> (r + 95231) div 190464"
  shows "(((r + 127) div 128) * 11275 + 8388608) div 16777216 = k" and "0 \<le> k" and "k \<le> 44"
    and "- 95232 < r - k * 190464" and "r - k * 190464 \<le> 95232"
proof -
  let ?c = "(r + 127) div 128"
  have c: "128 * ?c \<le> r + 127" "r + 127 < 128 * ?c + 128" by linarith+
  have k: "190464 * k \<le> r + 95231" "r + 95231 < 190464 * k + 190464" unfolding k_def by linarith+
  show kb: "0 \<le> k" "k \<le> 44" using k assms(1,2) by linarith+
  show "- 95232 < r - k * 190464" "r - k * 190464 \<le> 95232" using k by linarith+
  define s where "s = ?c + 743 - 1488 * k"
  have s: "0 \<le> s" "s < 1488" unfolding s_def using c k by linarith+
  have "?c * 11275 + 8388608 = 16777216 * k + (11275 * s + 11283 - 16 * k)" by (simp add: s_def)
  moreover have "0 \<le> 11275 * s + 11283 - 16 * k" "11275 * s + 11283 - 16 * k < 16777216" using s kb by linarith+
  ultimately show "(?c * 11275 + 8388608) div 16777216 = k" by simp
qed

lemma high_bits_261888:
  fixes r :: int
  assumes "0 \<le> r" and "r < 8380417"
  defines "k \<equiv> (r + 261887) div 523776"
  shows "(((r + 127) div 128) * 1025 + 2097152) div 4194304 = k" and "0 \<le> k" and "k \<le> 16"
    and "- 261888 < r - k * 523776" and "r - k * 523776 \<le> 261888"
proof -
  let ?c = "(r + 127) div 128"
  have c: "128 * ?c \<le> r + 127" "r + 127 < 128 * ?c + 128" by linarith+
  have k: "523776 * k \<le> r + 261887" "r + 261887 < 523776 * k + 523776" unfolding k_def by linarith+
  show kb: "0 \<le> k" "k \<le> 16" using k assms(1,2) by linarith+
  show "- 261888 < r - k * 523776" "r - k * 523776 \<le> 261888" using k by linarith+
  define s where "s = ?c + 2045 - 4092 * k"
  have s: "0 \<le> s" "s < 4092" unfolding s_def using c k by linarith+
  have "?c * 1025 + 2097152 = 4194304 * k + (1025 * s + 1027 - 4 * k)" by (simp add: s_def)
  moreover have "0 \<le> 1025 * s + 1027 - 4 * k" "1025 * s + 1027 - 4 * k < 4194304" using s kb by linarith+
  ultimately show "(?c * 1025 + 2097152) div 4194304 = k" by simp
qed

text \<open>The two masks that map the quotient of the last, half interval to zero.\<close>

lemma wrap_masks:
  "0 \<le> k \<Longrightarrow> k \<le> 44 \<Longrightarrow> (k XOR drop_bit 31 (as_i32 (43 - k))) AND k = (if k = 44 then 0 else k)"
  "0 \<le> k \<Longrightarrow> k \<le> 16 \<Longrightarrow> k AND 15 = (if k = 16 then 0 else k)"
proof -
  assume k: "0 \<le> k" "k \<le> 44"
  then have "as_i32 (43 - k) = 43 - k" "is_i32 (43 - k)" by (simp_all add: is_i32_def)
  then show "(k XOR drop_bit 31 (as_i32 (43 - k))) AND k = (if k = 44 then 0 else k)" using k by (simp add: sign_mask)
next
  assume "0 \<le> k" "k \<le> 16"
  moreover have "k AND 15 = k mod 16" using take_bit_eq_mask [of 4 k] by (simp add: take_bit_eq_mod mask_eq_exp_minus_1)
  ultimately show "k AND 15 = (if k = 16 then 0 else k)" by auto
qed

text \<open>The result of the code and of the standard, in terms of the quotient.\<close>

lemma center_low:
  assumes "0 \<le> r" and "r < 8380417" and "0 \<le> k" and "m * a = 8380416" and "k \<le> m" and "0 < a" and "even a"
    and "- (a div 2) < r - k * a" and "r - k * a \<le> a div 2" and "4190208 < 8380416 - a div 2" and "a div 2 \<le> 4190208" and "1 < m"
  defines "r1 \<equiv> (if k = m then 0 else k)"
  shows "as_i32 (as_i32 (r - as_i32 (r1 * a)) - (drop_bit 31 (as_i32 ((DSA_FIELD_MODULUS - 1) div 2 - as_i32 (r - as_i32 (r1 * a)))) AND DSA_FIELD_MODULUS))
      = (if k = m then r - 8380417 else r - k * a)"
    and "(let r0 = mod_pm r a in if r - r0 = 8380416 then (r0 - 1, 0) else (r0, (r - r0) div a))
      = (if k = m then r - 8380417 else r - k * a, r1)"
proof -
  have mp: "mod_pm r a = r - k * a" using assms by (intro mod_pm_unique [where k = k]) simp_all
  have km: "k * a = 8380416 \<longleftrightarrow> k = m" using assms(4,6) by (metis mult_right_cancel less_irrefl)
  show "(let r0 = mod_pm r a in if r - r0 = 8380416 then (r0 - 1, 0) else (r0, (r - r0) div a))
      = (if k = m then r - 8380417 else r - k * a, r1)"
    using km assms(4,6) by (auto simp: mp r1_def Let_def)
  have ka: "r1 * a \<le> 8380416" "0 \<le> r1 * a"
  proof -
    have "r1 * a \<le> m * a" using assms(3,5,6,12) by (intro mult_right_mono) (auto simp: r1_def)
    then show "r1 * a \<le> 8380416" using assms(4) by simp
    show "0 \<le> r1 * a" using assms(3,6) by (simp add: r1_def)
  qed
  have i: "is_i32 (r1 * a)" "is_i32 (r - r1 * a)" "is_i32 (4190208 - (r - r1 * a))" using ka assms(1,2) by (simp_all add: is_i32_def)
  have c: "(DSA_FIELD_MODULUS - 1) div 2 = 4190208" by (simp add: DSA_FIELD_MODULUS_def)
  show "as_i32 (as_i32 (r - as_i32 (r1 * a)) - (drop_bit 31 (as_i32 ((DSA_FIELD_MODULUS - 1) div 2 - as_i32 (r - as_i32 (r1 * a)))) AND DSA_FIELD_MODULUS))
      = (if k = m then r - 8380417 else r - k * a)"
  proof (cases "k = m")
    case True
    then have "r1 = 0" by (simp add: r1_def)
    moreover have "4190208 < r" using assms(4,8,10) True by simp
    moreover have "is_i32 r" "is_i32 (r - 8380417)" "is_i32 (4190208 - r)" using assms(1,2) by (simp_all add: is_i32_def)
    ultimately show ?thesis using True c by (simp add: sign_mask DSA_FIELD_MODULUS_def is_i32_def)
  next
    case False
    then have r1: "r1 = k" by (simp add: r1_def)
    then have "\<not> 4190208 - (r - r1 * a) < 0" using assms(9,11) by simp
    then show ?thesis using False i c by (simp add: sign_mask r1)
  qed
qed

lemma decompose_element_eq:
  assumes "gamma2 = 95232 \<or> gamma2 = 261888" and "- 8380417 < r" and "r < 8380417"
  shows "decompose_element gamma2 r = Some (decompose_spec gamma2 r)"
proof -
  define rp where "rp = r mod 8380417"
  have rp: "0 \<le> rp" "rp < 8380417" by (simp_all add: rp_def)
  have n: "as_i32 (r + (drop_bit 31 r AND DSA_FIELD_MODULUS)) = rp" using normalize_sign [OF assms(2,3)] by (simp add: rp_def)
  have i: "is_i32 (rp + 127)" "is_i32 (((rp + 127) div 128) * 11275)" "is_i32 (((rp + 127) div 128) * 11275 + 8388608)"
    "is_i32 (((rp + 127) div 128) * 1025)" "is_i32 (((rp + 127) div 128) * 1025 + 2097152)" using rp unfolding is_i32_def by linarith+
  have c: "shl_i32 1 23 = 8388608" "shl_i32 1 21 = 2097152" by (simp_all add: shl_i32_eq is_i32_def)
  have alphas: "2 * (95232 :: int) = 190464" "2 * (261888 :: int) = 523776" by simp_all
  show ?thesis
  proof (cases "gamma2 = 95232")
    case True
    note h = high_bits_95232 [OF rp]
    define k where "k = (rp + 95231) div 190464"
    note h = h [folded k_def]
    have hi: "drop_bit 24 (as_i32 (as_i32 (drop_bit 7 (as_i32 (rp + 127)) * 11275) + shl_i32 1 23)) = k"
      using i h(1) by (simp add: c drop_bit_eq_div)
    note cl = center_low [OF rp h(2), where m = 44 and a = 190464, simplified, OF h(3)]
    have "decompose_spec 95232 r = (if k = 44 then rp - 8380417 else rp - k * 190464, if k = 44 then 0 else k)"
      using cl(2) [OF h(4,5)] by (simp only: decompose_spec_def Let_def rp_def [symmetric] alphas)
    then show ?thesis
      unfolding decompose_element_def n Let_def hi wrap_masks(1) [OF h(2,3)]
      using cl(1) h(4,5) by (simp add: True is_i32_def)
  next
    case False
    then have g: "gamma2 = 261888" using assms(1) by simp
    note h = high_bits_261888 [OF rp]
    define k where "k = (rp + 261887) div 523776"
    note h = h [folded k_def]
    have hi: "drop_bit 22 (as_i32 (as_i32 (drop_bit 7 (as_i32 (rp + 127)) * 1025) + shl_i32 1 21)) = k"
      using i h(1) by (simp add: c drop_bit_eq_div)
    note cl = center_low [OF rp h(2), where m = 16 and a = 523776, simplified, OF h(3)]
    have "decompose_spec 261888 r = (if k = 16 then rp - 8380417 else rp - k * 523776, if k = 16 then 0 else k)"
      using cl(2) [OF h(4,5)] by (simp only: decompose_spec_def Let_def rp_def [symmetric] alphas)
    then show ?thesis
      unfolding decompose_element_def n Let_def hi wrap_masks(2) [OF h(2,3)]
      using cl(1) h(4,5) by (simp add: g is_i32_def)
  qed
qed

lemma decompose_spec_unique:
  assumes "m * (2 * gamma2) = 8380416" and "0 < gamma2"
  shows "r mod 8380417 = r1 * (2 * gamma2) + r0 \<Longrightarrow> 0 \<le> r1 \<Longrightarrow> r1 < m \<Longrightarrow> - gamma2 < r0 \<Longrightarrow> r0 \<le> gamma2
      \<Longrightarrow> decompose_spec gamma2 r = (r0, r1)"
    and "r mod 8380417 = 8380417 + r0 \<Longrightarrow> - gamma2 \<le> r0 \<Longrightarrow> r0 < 0 \<Longrightarrow> decompose_spec gamma2 r = (r0, 0)"
proof -
  assume r: "r mod 8380417 = r1 * (2 * gamma2) + r0" "0 \<le> r1" "r1 < m" "- gamma2 < r0" "r0 \<le> gamma2"
  have "r1 * (2 * gamma2) \<noteq> 8380416" using assms r(3) by (metis less_irrefl mult_right_cancel zero_less_mult_iff zero_less_numeral)
  moreover have "mod_pm (r mod 8380417) (2 * gamma2) = r0" using r assms(2) by (intro mod_pm_unique [where k = r1]) simp_all
  ultimately show "decompose_spec gamma2 r = (r0, r1)" using r(1) assms(2) by (simp add: decompose_spec_def Let_def)
next
  assume r: "r mod 8380417 = 8380417 + r0" "- gamma2 \<le> r0" "r0 < 0"
  have "8380417 + r0 = (r0 + 1) + m * (2 * gamma2)" using assms(1) by simp
  then have "mod_pm (r mod 8380417) (2 * gamma2) = r0 + 1" unfolding r(1) using r(2,3) assms(2) by (intro mod_pm_unique [where k = m]) simp_all
  then show "decompose_spec gamma2 r = (r0, 0)" using r(1) by (simp add: decompose_spec_def Let_def)
qed

subsection \<open>Hints\<close>

text \<open>Adding or subtracting one modulo the number of high parts.\<close>

definition apply_hint :: "int \<Rightarrow> int \<times> int \<Rightarrow> int" where
  "apply_hint m = (\<lambda>(r0, r1). if 0 < r0 then (if r1 = m - 1 then 0 else r1 + 1) else (if r1 = 0 then m - 1 else r1 - 1))"

lemma use_one_hint_eq:
  assumes "gamma2 = 95232 \<and> m = 44 \<or> gamma2 = 261888 \<and> m = 16" and "- 8380417 < r" and "r < 8380417" and "hint = 0 \<or> hint = 1"
    and "decompose_spec gamma2 r = (r0, r1)" and "0 \<le> r1" and "r1 < m"
  shows "use_one_hint gamma2 r hint = Some (if hint = 0 then r1 else apply_hint m (r0, r1))"
proof -
  have d: "decompose_element gamma2 r = Some (r0, r1)" using decompose_element_eq [OF _ assms(2,3)] assms(1,5) by auto
  have i: "is_i32 (r1 + 1)" "is_i32 (r1 - 1)" using assms(1,6,7) by (auto simp: is_i32_def)
  have a: "x AND 15 = x mod 16" for x :: int using take_bit_eq_mask [of 4 x] by (simp add: take_bit_eq_mod mask_eq_exp_minus_1)
  have "(r1 + 1) mod 16 = (if r1 = 15 then 0 else r1 + 1)" "(r1 - 1) mod 16 = (if r1 = 0 then 15 else r1 - 1)" if "m = 16"
    using assms(6,7) that by (auto simp: mod_pos_pos_trivial)
  then show ?thesis using assms(1,4) i d by (auto simp: use_one_hint_def apply_hint_def a)
qed

text \<open>
  What the correctness of hints needs of a rounding parameter \<open>gamma2\<close> with \<open>m\<close> high parts, and the argument once for both
  parameters: adding to \<open>high * 2 * gamma2\<close> a low part of up to one interval moves the high part by at most one, in the direction that the
  sign of the new low part shows.
\<close>

locale rounding =
  fixes gamma2 m :: int
  assumes intervals: "m * (2 * gamma2) = 8380416" and positive: "0 < gamma2" "1 < m" and small_gamma2: "gamma2 \<le> 261888"
    and use_hint: "- 8380417 < r \<Longrightarrow> r < 8380417 \<Longrightarrow> hint = 0 \<or> hint = 1 \<Longrightarrow> decompose_spec gamma2 r = (r0, r1) \<Longrightarrow> 0 \<le> r1 \<Longrightarrow> r1 < m
      \<Longrightarrow> use_one_hint gamma2 r hint = Some (if hint = 0 then r1 else apply_hint m (r0, r1))"
begin

lemmas unique = decompose_spec_unique [OF intervals positive(1)]

lemma below_top: "0 \<le> high \<Longrightarrow> high < m \<Longrightarrow> high * (2 * gamma2) \<le> 8380416 - 2 * gamma2"
proof -
  assume "0 \<le> high" "high < m"
  then have "high * (2 * gamma2) \<le> (m - 1) * (2 * gamma2)" using positive(1) by (intro mult_right_mono) auto
  then show ?thesis using intervals by (simp add: left_diff_distrib)
qed

lemma above_bottom: "0 < high \<Longrightarrow> 2 * gamma2 \<le> high * (2 * gamma2)"
  using mult_right_mono [of 1 high "2 * gamma2"] positive(1) by simp

lemma shift_mod: "- 8380417 \<le> x \<Longrightarrow> x < 0 \<Longrightarrow> x mod 8380417 = 8380417 + (x :: int)"
  using mod_add_self2 [of x 8380417] mod_pos_pos_trivial [of "x + 8380417" 8380417] by simp

lemma decompose_shifted:
  assumes "0 \<le> high" and "high < m" and "\<bar>low\<bar> < 2 * gamma2" and "r mod 8380417 = (high * (2 * gamma2) + low) mod 8380417"
  shows "decompose_spec gamma2 r =
    (if gamma2 < low then (if high = m - 1 then (low - 2 * gamma2 - 1, 0) else (low - 2 * gamma2, high + 1))
     else if low < - gamma2 \<or> low = - gamma2 \<and> high \<noteq> 0
       then (if high = 0 then (low + 2 * gamma2 + 1, m - 1) else (low + 2 * gamma2, high - 1))
     else (low, high))"
proof (cases "high * (2 * gamma2) + low < 0")
  case True
  then have high: "high = 0" using above_bottom [of high] assms(1,3) by (cases "high = 0") auto
  then have low: "low < 0" and r: "r mod 8380417 = 8380417 + low"
    using True shift_mod [of low] assms(3,4) small_gamma2 by auto
  show ?thesis
  proof (cases "low < - gamma2")
    case True
    have "r mod 8380417 = (m - 1) * (2 * gamma2) + (low + 2 * gamma2 + 1)" using r intervals by (simp add: left_diff_distrib)
    then show ?thesis using True unique(1) [of r "m - 1" "low + 2 * gamma2 + 1"] assms(3) positive high by simp
  qed (use unique(2) [OF r] low high positive(1) in auto)
next
  case False
  then have r: "r mod 8380417 = high * (2 * gamma2) + low" using below_top [OF assms(1,2)] assms(3,4) by simp
  consider (top) "gamma2 < low" "high = m - 1" | (above) "gamma2 < low" "high \<noteq> m - 1" | (below) "low \<le> - gamma2" "high \<noteq> 0"
    | (mid) "low \<le> gamma2" "- gamma2 < low" | (zero) "low \<le> - gamma2" "high = 0" by linarith
  then show ?thesis
  proof cases
    case top
    have "r mod 8380417 = 8380417 + (low - 2 * gamma2 - 1)" using r top(2) intervals by (simp add: left_diff_distrib)
    then show ?thesis using unique(2) [of r "low - 2 * gamma2 - 1"] top assms(3) by simp
  next
    case above
    have "r mod 8380417 = (high + 1) * (2 * gamma2) + (low - 2 * gamma2)" using r by (simp add: distrib_right)
    then show ?thesis using unique(1) [of r "high + 1" "low - 2 * gamma2"] above assms(1,2,3) by simp
  next
    case below
    have "r mod 8380417 = (high - 1) * (2 * gamma2) + (low + 2 * gamma2)" using r by (simp add: left_diff_distrib)
    then show ?thesis using unique(1) [of r "high - 1" "low + 2 * gamma2"] below assms(1,2,3) positive(1) by auto
  next
    case mid
    then show ?thesis using unique(1) [OF r assms(1,2)] by simp
  qed (use False positive(1) in simp)
qed

lemma hint_recovers_high:
  assumes "0 \<le> high" and "high < m" and "\<bar>low\<bar> < 2 * gamma2" and "- 8380417 < r" and "r < 8380417"
    and "r mod 8380417 = (high * (2 * gamma2) + low) mod 8380417"
  shows "use_one_hint gamma2 r (compute_one_hint low high gamma2) = Some high"
proof -
  let ?h = "compute_one_hint low high gamma2"
  obtain r0 r1 where d: "decompose_spec gamma2 r = (r0, r1)" by fastforce
  note e = decompose_shifted [OF assms(1-3,6), unfolded d]
  have h: "?h = 0 \<or> ?h = 1" by (simp add: compute_one_hint_def)
  have r: "0 \<le> r1" "r1 < m" using e assms(1,2) positive by (auto split: if_splits)
  have "(if ?h = 0 then r1 else apply_hint m (r0, r1)) = high"
    using e assms(1-3) positive by (auto simp: compute_one_hint_def apply_hint_def split: if_splits)
  then show ?thesis using use_hint [OF assms(4,5) h d r] by simp
qed

end

interpretation rounding_44: rounding 95232 44
  by unfold_locales (simp_all add: use_one_hint_eq)

interpretation rounding_16: rounding 261888 16
  by unfold_locales (simp_all add: use_one_hint_eq)

subsection \<open>Montgomery and Barrett reduction\<close>

lemma low_word: "uint (dsa_get_n_least_significant_bits 32 w) = uint w mod 4294967296"
proof -
  have "push_bit 32 1 - 1 = (mask 32 :: u64)" by (simp add: mask_eq_exp_minus_1 push_bit_eq_mult)
  then have "dsa_get_n_least_significant_bits 32 w = take_bit 32 w"
    by (simp add: dsa_get_n_least_significant_bits_def take_bit_eq_mask)
  then have "uint (dsa_get_n_least_significant_bits 32 w) = take_bit 32 (uint w)" by (simp only: unsigned_take_bit_eq)
  then show ?thesis by (simp add: take_bit_eq_mod)
qed

lemma montgomery_factor:
  "uint (dsa_get_n_least_significant_bits 32 (dsa_get_n_least_significant_bits 32 (word_of_int x) * 58728449))
    = (x * 58728449) mod 4294967296"
proof -
  have "uint (dsa_get_n_least_significant_bits 32 (word_of_int x :: u64) * 58728449)
      = (uint (dsa_get_n_least_significant_bits 32 (word_of_int x :: u64)) * 58728449) mod 18446744073709551616"
    by (simp add: uint_word_ariths)
  moreover have "uint (word_of_int x :: u64) mod 4294967296 = x mod 4294967296"
    by (simp add: uint_word_of_int_eq take_bit_eq_mod mod_mod_cancel)
  ultimately show ?thesis by (simp add: low_word mod_mod_cancel mod_mult_left_eq)
qed

lemma dsa_montgomery_aux:
  assumes "\<bar>x\<bar> \<le> 2147483648 * 8380416"
  shows "\<exists>k. is_i32 k \<and> dsa_montgomery_reduce_element x * 4294967296 = x - k * 8380417"
proof -
  define k where "k = as_i32 ((x * 58728449) mod 4294967296)"
  have ki: "is_i32 k" by (simp add: k_def as_i32_range)
  obtain b where b: "k = (x * 58728449) mod 4294967296 + 4294967296 * b" unfolding k_def by (rule as_i32_decomp)
  define a where "a = (x * 58728449) div 4294967296"
  have m: "(x * 58728449) mod 4294967296 = x * 58728449 - 4294967296 * a" by (simp add: a_def minus_mult_div_eq_mod)
  define h where "h = - (114592 * x + 8380417 * b - 8380417 * a)"
  have h: "x - k * 8380417 = 4294967296 * h" by (simp add: b m h_def algebra_simps)
  then have "x = k * 8380417 + h * 4294967296" by simp
  then have xd: "x div 4294967296 - k * 8380417 div 4294967296 = h" by simp
  have k: "- 2147483648 \<le> k" "k \<le> 2147483647" using ki by (simp_all add: is_i32_def)
  have x: "- (2147483648 * 8380416) \<le> x" "x \<le> 2147483648 * 8380416" using assms by linarith+
  have "as_i64 (k * 8380417) = k * 8380417" using k by (simp add: abs_le_iff)
  moreover have "as_i32 (k * 8380417 div 4294967296) = k * 8380417 div 4294967296"
    using k by (intro as_i32_id) (simp add: is_i32_def, linarith)
  moreover have "as_i32 (x div 4294967296) = x div 4294967296" using x by (intro as_i32_id) (simp add: is_i32_def, linarith)
  moreover have "as_i32 h = h" using h k x by (intro as_i32_id) (simp only: is_i32_def, linarith)
  ultimately have "dsa_montgomery_reduce_element x = h"
    unfolding dsa_montgomery_reduce_element_def DSA_MONTGOMERY_SHIFT_def DSA_INVERSE_OF_MODULUS_MOD_MONTGOMERY_R_def
      montgomery_factor Let_def k_def [symmetric] DSA_FIELD_MODULUS_def
    by (simp add: drop_bit_eq_div xd)
  then show ?thesis using h ki by auto
qed

lemma dsa_montgomery_reduce_element_eq:
  assumes "\<bar>x\<bar> \<le> 2147483648 * 8380416"
  shows "(dsa_montgomery_reduce_element x * 4294967296) mod 8380417 = x mod 8380417"
    and "\<bar>dsa_montgomery_reduce_element x\<bar> < 8380417"
proof -
  obtain k where k: "is_i32 k" "dsa_montgomery_reduce_element x * 4294967296 = x - k * 8380417" using dsa_montgomery_aux [OF assms] by blast
  show "(dsa_montgomery_reduce_element x * 4294967296) mod 8380417 = x mod 8380417"
    using k(2) by (simp add: mod_diff_eq [symmetric])
  show "\<bar>dsa_montgomery_reduce_element x\<bar> < 8380417" using k assms unfolding is_i32_def by linarith
qed

lemma dsa_barrett_reduce_element_eq:
  assumes "\<bar>fe\<bar> \<le> 2143289343"
  shows "dsa_barrett_reduce_element fe mod 8380417 = fe mod 8380417" and "\<bar>dsa_barrett_reduce_element fe\<bar> \<le> 6291200"
proof -
  define d where "d = (fe + 4194304) div 8388608"
  have d: "8388608 * d \<le> fe + 4194304" "fe + 4194304 < 8388608 * d + 8388608" unfolding d_def by linarith+
  have db: "- 256 \<le> d" "d \<le> 255" using d assms by linarith+
  have i: "is_i32 (fe + 4194304)" "is_i32 (d * 8380417)" "is_i32 (fe - d * 8380417)" using db d assms unfolding is_i32_def by linarith+
  have c: "shl_i32 1 22 = 4194304" by (simp add: shl_i32_eq is_i32_def)
  have e: "dsa_barrett_reduce_element fe = fe - d * 8380417"
    using i by (simp add: dsa_barrett_reduce_element_def c drop_bit_eq_div d_def [symmetric] DSA_FIELD_MODULUS_def)
  show "dsa_barrett_reduce_element fe mod 8380417 = fe mod 8380417" by (simp add: e mod_diff_eq [symmetric])
  show "\<bar>dsa_barrett_reduce_element fe\<bar> \<le> 6291200" using db d by (simp add: e abs_le_iff)
qed

subsection \<open>Vectors\<close>

lemma dsa_vector_ops:
  assumes "length lhs = 8" and "length rhs = 8"
  shows "dsa_add lhs rhs = map2 (\<lambda>x y. as_i32 (x + y)) lhs rhs" and "dsa_subtract lhs rhs = map2 (\<lambda>x y. as_i32 (x - y)) lhs rhs"
    and "dsa_montgomery_multiply lhs rhs = map2 (\<lambda>x y. dsa_montgomery_reduce_element (as_i64 (x * y))) lhs rhs"
    and "dsa_montgomery_multiply_by_constant lhs c = map (\<lambda>x. dsa_montgomery_reduce_element (as_i64 (x * c))) lhs"
    and "barrett_reduce_simd_unit lhs = map dsa_barrett_reduce_element lhs"
    and "shift_left_then_reduce k lhs = map (\<lambda>x. dsa_barrett_reduce_element (shl_i32 x k)) lhs"
  using assms for_loop_map2 [of 8 lhs rhs "\<lambda>x y. as_i32 (x + y)"] for_loop_map2 [of 8 lhs rhs "\<lambda>x y. as_i32 (x - y)"]
    for_loop_map2 [of 8 lhs rhs "\<lambda>x y. dsa_montgomery_reduce_element (as_i64 (x * y))"]
    for_loop_map [of 8 lhs "\<lambda>x. dsa_montgomery_reduce_element (as_i64 (x * c))"]
    for_loop_map [of 8 lhs dsa_barrett_reduce_element] for_loop_map [of 8 lhs "\<lambda>x. shl_i32 x k"]
    for_loop_map [of 8 "map (\<lambda>x. shl_i32 x k) lhs" dsa_barrett_reduce_element]
  by (simp_all add: dsa_add_def dsa_subtract_def dsa_montgomery_multiply_def dsa_montgomery_multiply_by_constant_def
      barrett_reduce_simd_unit_def shift_left_then_reduce_def comp_def)

lemma for_loop_pair:
  assumes "length a = n" and "length b = n"
  shows "for_loop 0 n (\<lambda>i (a, b). (a[i := fst (f i (a ! i))], b[i := snd (f i (a ! i))])) (a, b)
    = (map (\<lambda>i. fst (f i (a ! i))) [0..<n], map (\<lambda>i. snd (f i (a ! i))) [0..<n])"
proof -
  have "for_loop 0 j (\<lambda>i (a, b). (a[i := fst (f i (a ! i))], b[i := snd (f i (a ! i))])) (a, b)
      = (map (\<lambda>i. fst (f i (a ! i))) [0..<j] @ drop j a, map (\<lambda>i. snd (f i (a ! i))) [0..<j] @ drop j b)" if "j \<le> n" for j
    using that
  proof (induction j)
    case (Suc j)
    have "drop j a = a ! j # drop (Suc j) a" "drop j b = b ! j # drop (Suc j) b"
      using Suc.prems assms by (simp_all add: Cons_nth_drop_Suc)
    then show ?case using Suc assms by (simp add: for_loop_last list_update_append nth_append)
  qed simp
  from this [of n] show ?thesis using assms by simp
qed

lemma dsa_power2round_eq:
  assumes "length t0 = 8" and "length t1 = 8" and "\<forall>x \<in> set t0. - 8380417 < x \<and> x < 8380417"
  shows "dsa_power2round t0 t1 = (map (fst \<circ> power2round_spec) t0, map (snd \<circ> power2round_spec) t0)"
proof -
  have "dsa_power2round t0 t1 = (map (\<lambda>i. fst (power2round_element (t0 ! i))) [0..<8], map (\<lambda>i. snd (power2round_element (t0 ! i))) [0..<8])"
    using for_loop_pair [OF assms(1,2), of "\<lambda>i. power2round_element"] by (simp add: dsa_power2round_def Let_def split_beta)
  moreover have "power2round_element (t0 ! i) = power2round_spec (t0 ! i)" if "i < 8" for i
    using assms that by (intro power2round_element_eq) auto
  ultimately show ?thesis using assms(1) by (auto intro!: nth_equalityI)
qed

lemma dsa_decompose_eq:
  assumes "gamma2 = 95232 \<or> gamma2 = 261888" and "length r = 8" and "length low = 8" and "length high = 8" and "\<forall>x \<in> set r. - 8380417 < x \<and> x < 8380417"
  shows "dsa_decompose gamma2 r low high = Some (map (fst \<circ> decompose_spec gamma2) r, map (snd \<circ> decompose_spec gamma2) r)"
proof -
  have "decompose_element gamma2 (r ! i) = Some (decompose_spec gamma2 (r ! i))" if "i < 8" for i
    using assms that by (intro decompose_element_eq) auto
  then have "dsa_decompose gamma2 r low high = Some (for_loop 0 8 (\<lambda>i (low, high).
      (low[i := fst (decompose_spec gamma2 (r ! i))], high[i := snd (decompose_spec gamma2 (r ! i))])) (low, high))"
    unfolding dsa_decompose_def by (intro for_option_Some) (auto simp: split_beta)
  then show ?thesis
    using for_loop_pair [OF assms(3,4), of "\<lambda>i _. decompose_spec gamma2 (r ! i)"] assms(2) by (auto intro!: nth_equalityI)
qed

lemma compute_hint_eq:
  assumes "length hint = 8"
  shows "compute_hint low high gamma2 hint = (length (filter (\<lambda>i. compute_one_hint (low ! i) (high ! i) gamma2 = 1) [0..<8]),
    map (\<lambda>i. compute_one_hint (low ! i) (high ! i) gamma2) [0..<8])"
proof -
  let ?h = "\<lambda>i. compute_one_hint (low ! i) (high ! i) gamma2"
  have bit: "nat (?h i) = (if ?h i = 1 then 1 else 0)" for i by (simp add: compute_one_hint_def)
  have "for_loop 0 j (\<lambda>i (c, hint). let hint = hint[i := ?h i] in (c + nat (hint ! i), hint)) (0, hint)
      = (length (filter (\<lambda>i. ?h i = 1) [0..<j]), map ?h [0..<j] @ drop j hint)" if "j \<le> 8" for j
    using that
  proof (induction j)
    case (Suc j)
    have "drop j hint = hint ! j # drop (Suc j) hint" using Suc.prems assms by (simp add: Cons_nth_drop_Suc)
    then show ?case using Suc assms by (simp add: for_loop_last list_update_append nth_append bit)
  qed simp
  from this [of 8] show ?thesis using assms by (simp add: compute_hint_def)
qed

lemma dsa_use_hint_eq:
  assumes "length hint = 8" and "\<And>i. i < 8 \<Longrightarrow> use_one_hint gamma2 (r ! i) (hint ! i) = Some (f i)"
  shows "dsa_use_hint gamma2 r hint = Some (map f [0..<8])"
  using for_option_update [of 8 "\<lambda>i. use_one_hint gamma2 (r ! i)" hint f] assms by (simp add: dsa_use_hint_def)

lemma infinity_norm_exceeds_eq:
  assumes "length v = 8" and "\<forall>x \<in> set v. \<bar>x\<bar> \<le> 1073741823"
  shows "infinity_norm_exceeds v bound \<longleftrightarrow> (\<exists>x \<in> set v. bound \<le> \<bar>x\<bar>)"
proof -
  let ?n = "\<lambda>c. as_i32 (c - (drop_bit 31 c AND as_i32 (2 * c)))"
  have n: "?n c = \<bar>c\<bar>" if "c \<in> set v" for c
    using assms(2) that by (subst sign_mask) (auto simp: is_i32_def abs_le_iff)
  have "for_loop 0 j (\<lambda>i result. let coefficient = v ! i; sign = drop_bit 31 coefficient;
          normalized = as_i32 (coefficient - (sign AND as_i32 (2 * coefficient))) in if result then True else bound \<le> normalized) False
      \<longleftrightarrow> (\<exists>i < j. bound \<le> \<bar>v ! i\<bar>)" if "j \<le> 8" for j
    using that
  proof (induction j)
    case (Suc j)
    then show ?case using n [of "v ! j"] assms(1) by (auto simp: for_loop_last Let_def less_Suc_eq)
  qed simp
  from this [of 8] have "infinity_norm_exceeds v bound \<longleftrightarrow> (\<exists>i < 8. bound \<le> \<bar>v ! i\<bar>)" by (simp add: infinity_norm_exceeds_def)
  then show ?thesis using assms(1) by (metis in_set_conv_nth)
qed

subsection \<open>Properties\<close>

text \<open>
  C35. Reductions: in the stated ranges Montgomery reduction returns \<open>x / 2^32\<close> modulo 8380417 with absolute value below the
  modulus, and Barrett reduction a congruent representative of absolute value at most 6291200; neither overflows.
\<close>

theorem dsa_reductions_correct:
  assumes "\<bar>x\<bar> \<le> 2147483648 * 8380416" and "\<bar>fe\<bar> \<le> 2143289343"
  shows "(dsa_montgomery_reduce_element x * 4294967296) mod 8380417 = x mod 8380417 \<and> \<bar>dsa_montgomery_reduce_element x\<bar> < 8380417
    \<and> dsa_barrett_reduce_element fe mod 8380417 = fe mod 8380417 \<and> \<bar>dsa_barrett_reduce_element fe\<bar> \<le> 6291200"
  using dsa_montgomery_reduce_element_eq [OF assms(1)] dsa_barrett_reduce_element_eq [OF assms(2)] by simp

theorem dsa_reductions_correct_witness:
  "(dsa_montgomery_reduce_element (- 17996806323437568) * 4294967296) mod 8380417 = (- 17996806323437568) mod 8380417
    \<and> \<bar>dsa_barrett_reduce_element 2143289343\<bar> \<le> 6291200"
  using dsa_reductions_correct [of "- 17996806323437568" 2143289343] by simp

text \<open>
  C34. Rounding: on coefficients of absolute value below the modulus, the shift-and-mask code of \<open>power2round\<close> and \<open>decompose\<close> computes
  \<open>Power2Round\<close> and, for both rounding parameters, \<open>Decompose\<close> of FIPS 204; with another parameter \<open>decompose\<close> aborts.
\<close>

theorem dsa_rounding_correct:
  assumes "length r = 8" and "length a = 8" and "length b = 8" and "\<forall>x \<in> set r. - 8380417 < x \<and> x < 8380417"
  shows "dsa_power2round r b = (map (fst \<circ> power2round_spec) r, map (snd \<circ> power2round_spec) r)
    \<and> dsa_decompose gamma2 r a b = (if gamma2 = 95232 \<or> gamma2 = 261888
        then Some (map (fst \<circ> decompose_spec gamma2) r, map (snd \<circ> decompose_spec gamma2) r) else None)"
proof -
  have "dsa_decompose gamma2 r a b = None" if "\<not> (gamma2 = 95232 \<or> gamma2 = 261888)"
  proof -
    have "decompose_element gamma2 x = None" for x using that by (simp add: decompose_element_def)
    then have "for_option 0 (Suc j) (\<lambda>i (low, high). map_option (\<lambda>(r0, r1). (low[i := r0], high[i := r1])) (decompose_element gamma2 (r ! i))) (a, b) = None" for j
      by (cases "for_option 0 j (\<lambda>i (low, high). map_option (\<lambda>(r0, r1). (low[i := r0], high[i := r1])) (decompose_element gamma2 (r ! i))) (a, b)")
        (simp_all add: for_option_last split_beta)
    from this [of 7] show ?thesis by (simp add: dsa_decompose_def)
  qed
  then show ?thesis using dsa_power2round_eq [OF assms(1,3,4)] dsa_decompose_eq [OF _ assms] by simp
qed

theorem dsa_rounding_correct_witness:
  "dsa_decompose 95232 (replicate 8 8380416) (replicate 8 0) (replicate 8 0) = Some (replicate 8 (- 1), replicate 8 0)"
  using dsa_rounding_correct [of "replicate 8 8380416" "replicate 8 0" "replicate 8 0" 95232]
  by (simp add: decompose_spec_def mod_pm_def)

text \<open>
  C33. Hints: for either rounding parameter with \<open>m\<close> high parts, if \<open>w\<close> is congruent to \<open>high * 2 * gamma2 + low\<close> with \<open>high\<close> below \<open>m\<close> and the low
  parts of absolute value below \<open>2 * gamma2\<close>, then the hints computed from the low and high parts let \<open>use_hint\<close> recover the
  high parts from \<open>w\<close>, and the returned count is the number of ones.
\<close>

theorem dsa_hint_correct:
  assumes "(gamma2, m) \<in> {(95232, 44), (261888, 16)}" and "length w = 8" and "length high = 8" and "length hint = 8"
    and "\<forall>i < 8. 0 \<le> high ! i \<and> high ! i < m \<and> \<bar>low ! i\<bar> < 2 * gamma2 \<and> \<bar>w ! i\<bar> < 8380417
      \<and> (w ! i) mod 8380417 = (high ! i * (2 * gamma2) + low ! i) mod 8380417"
  shows "dsa_use_hint gamma2 w (snd (compute_hint low high gamma2 hint)) = Some high
    \<and> fst (compute_hint low high gamma2 hint) = length (filter (\<lambda>h. h = 1) (snd (compute_hint low high gamma2 hint)))"
proof -
  let ?h = "\<lambda>i. compute_one_hint (low ! i) (high ! i) gamma2"
  note e = compute_hint_eq [OF assms(4), of low high gamma2]
  have "use_one_hint gamma2 (w ! i) (?h i) = Some (high ! i)" if "i < 8" for i
    using assms(1,5) that rounding_44.hint_recovers_high [of "high ! i" "low ! i" "w ! i"]
      rounding_16.hint_recovers_high [of "high ! i" "low ! i" "w ! i"] by (auto simp: abs_less_iff)
  then have "dsa_use_hint gamma2 w (map ?h [0..<8]) = Some (map (\<lambda>i. high ! i) [0..<8])" by (intro dsa_use_hint_eq) simp_all
  moreover have "map (\<lambda>i. high ! i) [0..<8] = high" using map_nth [of high] assms(3) by simp
  ultimately show ?thesis by (simp add: e filter_map comp_def)
qed

theorem dsa_hint_correct_witness:
  "dsa_use_hint 95232 (replicate 8 8285185) (snd (compute_hint (replicate 8 95233) (replicate 8 43) 95232 (replicate 8 0))) = Some (replicate 8 43)"
  using dsa_hint_correct [of 95232 44 "replicate 8 8285185" "replicate 8 43" "replicate 8 0" "replicate 8 95233"]
  by simp

end
