(* ===== verification/MLDSA_Encoding.thy ===== *)
theory MLDSA_Encoding
  imports MLDSA_Arith Libcrux_Bits
begin

section \<open>ML-DSA: serialization of vectors\<close>

text \<open>
  The serializers of one vector of eight coefficients: \<open>libcrux_mldsa_core.c\<close> lines 917--1715. The C functions write into a byte
  slice or into the vector the caller passes; both are arguments here and the updated array is the result. A \<open>switch\<close> whose default
  branch aborts the program is an option. The trait wrappers (suffix \<open>_65\<close>) only call these functions and are folded into them.

  The interface \<open>bit_pack\<close> states what a pair of serializers of width \<open>d\<close> promises: after the change of interval (\<open>b - c\<close> for
  \<open>BitPack\<close> of FIPS 204, none for \<open>SimpleBitPack\<close>) the stream of the output bits is the stream of the coefficient bits. It is
  interpreted for the six pairs of the code; agreement with the reference packing and both round trips are proved inside it.
\<close>

subsection \<open>Constants\<close>

datatype eta = Eta_Two | Eta_Four

definition FIELD_MODULUS_MINUS_ONE_BIT_LENGTH :: nat where
  "FIELD_MODULUS_MINUS_ONE_BIT_LENGTH = 23"

definition BITS_IN_UPPER_PART_OF_T :: nat where
  "BITS_IN_UPPER_PART_OF_T = FIELD_MODULUS_MINUS_ONE_BIT_LENGTH - BITS_IN_LOWER_PART_OF_T"

definition GAMMA1_2_POW_19 :: i32 where
  "GAMMA1_2_POW_19 = shl_i32 1 19"

definition GAMMA1_2_POW_17 :: i32 where
  "GAMMA1_2_POW_17 = shl_i32 1 17"

definition GAMMA1_2_POW_19_TIMES_2_BITMASK :: i32 where
  "GAMMA1_2_POW_19_TIMES_2_BITMASK = as_i32 (shl_i32 GAMMA1_2_POW_19 1 - 1)"

definition GAMMA1_2_POW_17_TIMES_2_BITMASK :: i32 where
  "GAMMA1_2_POW_17_TIMES_2_BITMASK = as_i32 (shl_i32 GAMMA1_2_POW_17 1 - 1)"

definition BITS_IN_LOWER_PART_OF_T_MASK :: i32 where
  "BITS_IN_LOWER_PART_OF_T_MASK = as_i32 (shl_i32 1 BITS_IN_LOWER_PART_OF_T - 1)"

text \<open>The casts \<open>(uint8_t)x\<close> of an \<open>int32_t\<close> and \<open>(int32_t)(uint32_t)b\<close> of a byte.\<close>

definition u8_of_i32 :: "i32 \<Rightarrow> u8" where
  "u8_of_i32 x = word_of_int x"

definition i32_of_u8 :: "u8 \<Rightarrow> i32" where
  "i32_of_u8 b = as_i32 (uint (u32_of_u8 b))"

text \<open>The bitwise or of two bytes, computed on \<open>uint32_t\<close> and stored to a byte.\<close>

definition or_u8 :: "u8 \<Rightarrow> u8 \<Rightarrow> u8" where
  "or_u8 a b = u8_of_u32 (u32_of_u8 a OR u32_of_u8 b)"

subsection \<open>The mask polynomial\<close>

definition gamma1_serialize_when_gamma1_is_2_pow_19 :: "coefficients \<Rightarrow> u8 list \<Rightarrow> u8 list" where
  "gamma1_serialize_when_gamma1_is_2_pow_19 simd_unit serialized =
     for_loop 0 (8 div 2) (\<lambda>i serialized.
       let coefficients = subslice simd_unit (i * 2) (i * 2 + 2);
           coefficient0 = as_i32 (GAMMA1_2_POW_19 - coefficients ! 0);
           coefficient1 = as_i32 (GAMMA1_2_POW_19 - coefficients ! 1);
           serialized = serialized[5 * i := u8_of_i32 coefficient0];
           serialized = serialized[5 * i + 1 := u8_of_i32 (drop_bit 8 coefficient0)];
           serialized = serialized[5 * i + 2 := u8_of_i32 (drop_bit 16 coefficient0)];
           serialized = serialized[5 * i + 2 := or_u8 (serialized ! (5 * i + 2)) (u8_of_i32 (shl_i32 coefficient1 4))];
           serialized = serialized[5 * i + 3 := u8_of_i32 (drop_bit 4 coefficient1)];
           serialized = serialized[5 * i + 4 := u8_of_i32 (drop_bit 12 coefficient1)]
       in serialized) serialized"

definition gamma1_serialize_when_gamma1_is_2_pow_17 :: "coefficients \<Rightarrow> u8 list \<Rightarrow> u8 list" where
  "gamma1_serialize_when_gamma1_is_2_pow_17 simd_unit serialized =
     for_loop 0 (8 div 4) (\<lambda>i serialized.
       let coefficients = subslice simd_unit (i * 4) (i * 4 + 4);
           coefficient0 = as_i32 (GAMMA1_2_POW_17 - coefficients ! 0);
           coefficient1 = as_i32 (GAMMA1_2_POW_17 - coefficients ! 1);
           coefficient2 = as_i32 (GAMMA1_2_POW_17 - coefficients ! 2);
           coefficient3 = as_i32 (GAMMA1_2_POW_17 - coefficients ! 3);
           serialized = serialized[9 * i := u8_of_i32 coefficient0];
           serialized = serialized[9 * i + 1 := u8_of_i32 (drop_bit 8 coefficient0)];
           serialized = serialized[9 * i + 2 := u8_of_i32 (drop_bit 16 coefficient0)];
           serialized = serialized[9 * i + 2 := or_u8 (serialized ! (9 * i + 2)) (u8_of_i32 (shl_i32 coefficient1 2))];
           serialized = serialized[9 * i + 3 := u8_of_i32 (drop_bit 6 coefficient1)];
           serialized = serialized[9 * i + 4 := u8_of_i32 (drop_bit 14 coefficient1)];
           serialized = serialized[9 * i + 4 := or_u8 (serialized ! (9 * i + 4)) (u8_of_i32 (shl_i32 coefficient2 4))];
           serialized = serialized[9 * i + 5 := u8_of_i32 (drop_bit 4 coefficient2)];
           serialized = serialized[9 * i + 6 := u8_of_i32 (drop_bit 12 coefficient2)];
           serialized = serialized[9 * i + 6 := or_u8 (serialized ! (9 * i + 6)) (u8_of_i32 (shl_i32 coefficient3 6))];
           serialized = serialized[9 * i + 7 := u8_of_i32 (drop_bit 2 coefficient3)];
           serialized = serialized[9 * i + 8 := u8_of_i32 (drop_bit 10 coefficient3)]
       in serialized) serialized"

definition gamma1_serialize :: "coefficients \<Rightarrow> u8 list \<Rightarrow> nat \<Rightarrow> u8 list option" where
  "gamma1_serialize simd_unit serialized gamma1_exponent =
     (if gamma1_exponent = 17 then Some (gamma1_serialize_when_gamma1_is_2_pow_17 simd_unit serialized)
      else if gamma1_exponent = 19 then Some (gamma1_serialize_when_gamma1_is_2_pow_19 simd_unit serialized)
      else None)"

definition gamma1_deserialize_when_gamma1_is_2_pow_19 :: "u8 list \<Rightarrow> coefficients \<Rightarrow> coefficients" where
  "gamma1_deserialize_when_gamma1_is_2_pow_19 serialized simd_unit =
     for_loop 0 (length serialized div 5) (\<lambda>i simd_unit.
       let bytes = subslice serialized (i * 5) (i * 5 + 5);
           coefficient0 = i32_of_u8 (bytes ! 0);
           coefficient0 = coefficient0 OR shl_i32 (i32_of_u8 (bytes ! 1)) 8;
           coefficient0 = coefficient0 OR shl_i32 (i32_of_u8 (bytes ! 2)) 16;
           coefficient0 = coefficient0 AND GAMMA1_2_POW_19_TIMES_2_BITMASK;
           coefficient1 = drop_bit 4 (i32_of_u8 (bytes ! 2));
           coefficient1 = coefficient1 OR shl_i32 (i32_of_u8 (bytes ! 3)) 4;
           coefficient1 = coefficient1 OR shl_i32 (i32_of_u8 (bytes ! 4)) 12;
           simd_unit = simd_unit[2 * i := as_i32 (GAMMA1_2_POW_19 - coefficient0)];
           simd_unit = simd_unit[2 * i + 1 := as_i32 (GAMMA1_2_POW_19 - coefficient1)]
       in simd_unit) simd_unit"

definition gamma1_deserialize_when_gamma1_is_2_pow_17 :: "u8 list \<Rightarrow> coefficients \<Rightarrow> coefficients" where
  "gamma1_deserialize_when_gamma1_is_2_pow_17 serialized simd_unit =
     for_loop 0 (length serialized div 9) (\<lambda>i simd_unit.
       let bytes = subslice serialized (i * 9) (i * 9 + 9);
           coefficient0 = i32_of_u8 (bytes ! 0);
           coefficient0 = coefficient0 OR shl_i32 (i32_of_u8 (bytes ! 1)) 8;
           coefficient0 = coefficient0 OR shl_i32 (i32_of_u8 (bytes ! 2)) 16;
           coefficient0 = coefficient0 AND GAMMA1_2_POW_17_TIMES_2_BITMASK;
           coefficient1 = drop_bit 2 (i32_of_u8 (bytes ! 2));
           coefficient1 = coefficient1 OR shl_i32 (i32_of_u8 (bytes ! 3)) 6;
           coefficient1 = coefficient1 OR shl_i32 (i32_of_u8 (bytes ! 4)) 14;
           coefficient1 = coefficient1 AND GAMMA1_2_POW_17_TIMES_2_BITMASK;
           coefficient2 = drop_bit 4 (i32_of_u8 (bytes ! 4));
           coefficient2 = coefficient2 OR shl_i32 (i32_of_u8 (bytes ! 5)) 4;
           coefficient2 = coefficient2 OR shl_i32 (i32_of_u8 (bytes ! 6)) 12;
           coefficient2 = coefficient2 AND GAMMA1_2_POW_17_TIMES_2_BITMASK;
           coefficient3 = drop_bit 6 (i32_of_u8 (bytes ! 6));
           coefficient3 = coefficient3 OR shl_i32 (i32_of_u8 (bytes ! 7)) 2;
           coefficient3 = coefficient3 OR shl_i32 (i32_of_u8 (bytes ! 8)) 10;
           coefficient3 = coefficient3 AND GAMMA1_2_POW_17_TIMES_2_BITMASK;
           simd_unit = simd_unit[4 * i := as_i32 (GAMMA1_2_POW_17 - coefficient0)];
           simd_unit = simd_unit[4 * i + 1 := as_i32 (GAMMA1_2_POW_17 - coefficient1)];
           simd_unit = simd_unit[4 * i + 2 := as_i32 (GAMMA1_2_POW_17 - coefficient2)];
           simd_unit = simd_unit[4 * i + 3 := as_i32 (GAMMA1_2_POW_17 - coefficient3)]
       in simd_unit) simd_unit"

definition gamma1_deserialize :: "u8 list \<Rightarrow> coefficients \<Rightarrow> nat \<Rightarrow> coefficients option" where
  "gamma1_deserialize serialized out gamma1_exponent =
     (if gamma1_exponent = 17 then Some (gamma1_deserialize_when_gamma1_is_2_pow_17 serialized out)
      else if gamma1_exponent = 19 then Some (gamma1_deserialize_when_gamma1_is_2_pow_19 serialized out)
      else None)"

subsection \<open>The commitment\<close>

definition commitment_serialize_4 :: "coefficients \<Rightarrow> u8 list \<Rightarrow> u8 list" where
  "commitment_serialize_4 simd_unit serialized =
     (let coefficient0 = u8_of_i32 (simd_unit ! 0);
          coefficient1 = u8_of_i32 (simd_unit ! 1);
          coefficient2 = u8_of_i32 (simd_unit ! 2);
          coefficient3 = u8_of_i32 (simd_unit ! 3);
          coefficient4 = u8_of_i32 (simd_unit ! 4);
          coefficient5 = u8_of_i32 (simd_unit ! 5);
          coefficient6 = u8_of_i32 (simd_unit ! 6);
          coefficient7 = u8_of_i32 (simd_unit ! 7);
          byte0 = u8_of_u32 (push_bit 4 (u32_of_u8 coefficient1) OR u32_of_u8 coefficient0);
          byte1 = u8_of_u32 (push_bit 4 (u32_of_u8 coefficient3) OR u32_of_u8 coefficient2);
          byte2 = u8_of_u32 (push_bit 4 (u32_of_u8 coefficient5) OR u32_of_u8 coefficient4);
          byte3 = u8_of_u32 (push_bit 4 (u32_of_u8 coefficient7) OR u32_of_u8 coefficient6)
      in serialized[0 := byte0, 1 := byte1, 2 := byte2, 3 := byte3])"

definition commitment_serialize_6 :: "coefficients \<Rightarrow> u8 list \<Rightarrow> u8 list" where
  "commitment_serialize_6 simd_unit serialized =
     (let coefficient0 = u8_of_i32 (simd_unit ! 0);
          coefficient1 = u8_of_i32 (simd_unit ! 1);
          coefficient2 = u8_of_i32 (simd_unit ! 2);
          coefficient3 = u8_of_i32 (simd_unit ! 3);
          coefficient4 = u8_of_i32 (simd_unit ! 4);
          coefficient5 = u8_of_i32 (simd_unit ! 5);
          coefficient6 = u8_of_i32 (simd_unit ! 6);
          coefficient7 = u8_of_i32 (simd_unit ! 7);
          byte0 = u8_of_u32 (push_bit 6 (u32_of_u8 coefficient1) OR u32_of_u8 coefficient0);
          byte1 = u8_of_u32 (push_bit 4 (u32_of_u8 coefficient2) OR drop_bit 2 (u32_of_u8 coefficient1));
          byte2 = u8_of_u32 (push_bit 2 (u32_of_u8 coefficient3) OR drop_bit 4 (u32_of_u8 coefficient2));
          byte3 = u8_of_u32 (push_bit 6 (u32_of_u8 coefficient5) OR u32_of_u8 coefficient4);
          byte4 = u8_of_u32 (push_bit 4 (u32_of_u8 coefficient6) OR drop_bit 2 (u32_of_u8 coefficient5));
          byte5 = u8_of_u32 (push_bit 2 (u32_of_u8 coefficient7) OR drop_bit 4 (u32_of_u8 coefficient6))
      in serialized[0 := byte0, 1 := byte1, 2 := byte2, 3 := byte3, 4 := byte4, 5 := byte5])"

definition commitment_serialize :: "coefficients \<Rightarrow> u8 list \<Rightarrow> u8 list option" where
  "commitment_serialize simd_unit serialized =
     (if word_of_nat (length serialized) = (4 :: u8) then Some (commitment_serialize_4 simd_unit serialized)
      else if word_of_nat (length serialized) = (6 :: u8) then Some (commitment_serialize_6 simd_unit serialized)
      else None)"

subsection \<open>The secret vectors\<close>

definition error_serialize_when_eta_is_4 :: "coefficients \<Rightarrow> u8 list \<Rightarrow> u8 list" where
  "error_serialize_when_eta_is_4 simd_unit serialized =
     for_loop 0 (8 div 2) (\<lambda>i serialized.
       let coefficients = subslice simd_unit (i * 2) (i * 2 + 2);
           coefficient0 = u8_of_i32 (as_i32 (4 - coefficients ! 0));
           coefficient1 = u8_of_i32 (as_i32 (4 - coefficients ! 1))
       in serialized[i := u8_of_u32 (push_bit 4 (u32_of_u8 coefficient1) OR u32_of_u8 coefficient0)]) serialized"

definition error_serialize_when_eta_is_2 :: "coefficients \<Rightarrow> u8 list \<Rightarrow> u8 list" where
  "error_serialize_when_eta_is_2 simd_unit serialized =
     (let coefficient0 = u8_of_i32 (as_i32 (2 - simd_unit ! 0));
          coefficient1 = u8_of_i32 (as_i32 (2 - simd_unit ! 1));
          coefficient2 = u8_of_i32 (as_i32 (2 - simd_unit ! 2));
          coefficient3 = u8_of_i32 (as_i32 (2 - simd_unit ! 3));
          coefficient4 = u8_of_i32 (as_i32 (2 - simd_unit ! 4));
          coefficient5 = u8_of_i32 (as_i32 (2 - simd_unit ! 5));
          coefficient6 = u8_of_i32 (as_i32 (2 - simd_unit ! 6));
          coefficient7 = u8_of_i32 (as_i32 (2 - simd_unit ! 7));
          serialized = serialized[0 := u8_of_u32 ((push_bit 6 (u32_of_u8 coefficient2) OR push_bit 3 (u32_of_u8 coefficient1))
            OR u32_of_u8 coefficient0)];
          serialized = serialized[1 := u8_of_u32 (((push_bit 7 (u32_of_u8 coefficient5) OR push_bit 4 (u32_of_u8 coefficient4))
            OR push_bit 1 (u32_of_u8 coefficient3)) OR drop_bit 2 (u32_of_u8 coefficient2))];
          serialized = serialized[2 := u8_of_u32 ((push_bit 5 (u32_of_u8 coefficient7) OR push_bit 2 (u32_of_u8 coefficient6))
            OR drop_bit 1 (u32_of_u8 coefficient5))]
      in serialized)"

definition error_serialize :: "eta \<Rightarrow> coefficients \<Rightarrow> u8 list \<Rightarrow> u8 list" where
  "error_serialize eta simd_unit serialized =
     (case eta of Eta_Two \<Rightarrow> error_serialize_when_eta_is_2 simd_unit serialized
      | Eta_Four \<Rightarrow> error_serialize_when_eta_is_4 simd_unit serialized)"

definition error_deserialize_when_eta_is_4 :: "u8 list \<Rightarrow> coefficients \<Rightarrow> coefficients" where
  "error_deserialize_when_eta_is_4 serialized simd_units =
     for_loop 0 (length serialized) (\<lambda>i simd_units.
       let byte = serialized ! i;
           simd_units = simd_units[2 * i := as_i32 (4 - i32_of_u8 (byte AND 15))];
           simd_units = simd_units[2 * i + 1 := as_i32 (4 - i32_of_u8 (drop_bit 4 byte))]
       in simd_units) simd_units"

definition error_deserialize_when_eta_is_2 :: "u8 list \<Rightarrow> coefficients \<Rightarrow> coefficients" where
  "error_deserialize_when_eta_is_2 serialized simd_unit =
     (let byte0 = i32_of_u8 (serialized ! 0);
          byte1 = i32_of_u8 (serialized ! 1);
          byte2 = i32_of_u8 (serialized ! 2)
      in simd_unit[0 := as_i32 (2 - (byte0 AND 7)),
                   1 := as_i32 (2 - (drop_bit 3 byte0 AND 7)),
                   2 := as_i32 (2 - ((drop_bit 6 byte0 OR shl_i32 byte1 2) AND 7)),
                   3 := as_i32 (2 - (drop_bit 1 byte1 AND 7)),
                   4 := as_i32 (2 - (drop_bit 4 byte1 AND 7)),
                   5 := as_i32 (2 - ((drop_bit 7 byte1 OR shl_i32 byte2 1) AND 7)),
                   6 := as_i32 (2 - (drop_bit 2 byte2 AND 7)),
                   7 := as_i32 (2 - (drop_bit 5 byte2 AND 7))])"

definition error_deserialize :: "eta \<Rightarrow> u8 list \<Rightarrow> coefficients \<Rightarrow> coefficients" where
  "error_deserialize eta serialized out =
     (case eta of Eta_Two \<Rightarrow> error_deserialize_when_eta_is_2 serialized out
      | Eta_Four \<Rightarrow> error_deserialize_when_eta_is_4 serialized out)"

subsection \<open>The low bits of the public vector\<close>

definition change_t0_interval :: "i32 \<Rightarrow> i32" where
  "change_t0_interval t0 = as_i32 (shl_i32 1 (BITS_IN_LOWER_PART_OF_T - 1) - t0)"

definition t0_serialize :: "coefficients \<Rightarrow> u8 list \<Rightarrow> u8 list" where
  "t0_serialize simd_unit serialized =
     (let coefficient0 = change_t0_interval (simd_unit ! 0);
          coefficient1 = change_t0_interval (simd_unit ! 1);
          coefficient2 = change_t0_interval (simd_unit ! 2);
          coefficient3 = change_t0_interval (simd_unit ! 3);
          coefficient4 = change_t0_interval (simd_unit ! 4);
          coefficient5 = change_t0_interval (simd_unit ! 5);
          coefficient6 = change_t0_interval (simd_unit ! 6);
          coefficient7 = change_t0_interval (simd_unit ! 7)
      in serialized[0 := u8_of_i32 coefficient0,
           1 := or_u8 (u8_of_i32 (drop_bit 8 coefficient0)) (u8_of_i32 (shl_i32 coefficient1 5)),
           2 := u8_of_i32 (drop_bit 3 coefficient1),
           3 := or_u8 (u8_of_i32 (drop_bit 11 coefficient1)) (u8_of_i32 (shl_i32 coefficient2 2)),
           4 := or_u8 (u8_of_i32 (drop_bit 6 coefficient2)) (u8_of_i32 (shl_i32 coefficient3 7)),
           5 := u8_of_i32 (drop_bit 1 coefficient3),
           6 := or_u8 (u8_of_i32 (drop_bit 9 coefficient3)) (u8_of_i32 (shl_i32 coefficient4 4)),
           7 := u8_of_i32 (drop_bit 4 coefficient4),
           8 := or_u8 (u8_of_i32 (drop_bit 12 coefficient4)) (u8_of_i32 (shl_i32 coefficient5 1)),
           9 := or_u8 (u8_of_i32 (drop_bit 7 coefficient5)) (u8_of_i32 (shl_i32 coefficient6 6)),
           10 := u8_of_i32 (drop_bit 2 coefficient6),
           11 := or_u8 (u8_of_i32 (drop_bit 10 coefficient6)) (u8_of_i32 (shl_i32 coefficient7 3)),
           12 := u8_of_i32 (drop_bit 5 coefficient7)])"

definition t0_deserialize :: "u8 list \<Rightarrow> coefficients \<Rightarrow> coefficients" where
  "t0_deserialize serialized simd_unit =
     (let byte0 = i32_of_u8 (serialized ! 0);
          byte1 = i32_of_u8 (serialized ! 1);
          byte2 = i32_of_u8 (serialized ! 2);
          byte3 = i32_of_u8 (serialized ! 3);
          byte4 = i32_of_u8 (serialized ! 4);
          byte5 = i32_of_u8 (serialized ! 5);
          byte6 = i32_of_u8 (serialized ! 6);
          byte7 = i32_of_u8 (serialized ! 7);
          byte8 = i32_of_u8 (serialized ! 8);
          byte9 = i32_of_u8 (serialized ! 9);
          byte10 = i32_of_u8 (serialized ! 10);
          byte11 = i32_of_u8 (serialized ! 11);
          byte12 = i32_of_u8 (serialized ! 12);
          coefficient0 = byte0;
          coefficient0 = coefficient0 OR shl_i32 byte1 8;
          coefficient0 = coefficient0 AND BITS_IN_LOWER_PART_OF_T_MASK;
          coefficient1 = drop_bit 5 byte1;
          coefficient1 = coefficient1 OR shl_i32 byte2 3;
          coefficient1 = coefficient1 OR shl_i32 byte3 11;
          coefficient1 = coefficient1 AND BITS_IN_LOWER_PART_OF_T_MASK;
          coefficient2 = drop_bit 2 byte3;
          coefficient2 = coefficient2 OR shl_i32 byte4 6;
          coefficient2 = coefficient2 AND BITS_IN_LOWER_PART_OF_T_MASK;
          coefficient3 = drop_bit 7 byte4;
          coefficient3 = coefficient3 OR shl_i32 byte5 1;
          coefficient3 = coefficient3 OR shl_i32 byte6 9;
          coefficient3 = coefficient3 AND BITS_IN_LOWER_PART_OF_T_MASK;
          coefficient4 = drop_bit 4 byte6;
          coefficient4 = coefficient4 OR shl_i32 byte7 4;
          coefficient4 = coefficient4 OR shl_i32 byte8 12;
          coefficient4 = coefficient4 AND BITS_IN_LOWER_PART_OF_T_MASK;
          coefficient5 = drop_bit 1 byte8;
          coefficient5 = coefficient5 OR shl_i32 byte9 7;
          coefficient5 = coefficient5 AND BITS_IN_LOWER_PART_OF_T_MASK;
          coefficient6 = drop_bit 6 byte9;
          coefficient6 = coefficient6 OR shl_i32 byte10 2;
          coefficient6 = coefficient6 OR shl_i32 byte11 10;
          coefficient6 = coefficient6 AND BITS_IN_LOWER_PART_OF_T_MASK;
          coefficient7 = drop_bit 3 byte11;
          coefficient7 = coefficient7 OR shl_i32 byte12 5;
          coefficient7 = coefficient7 AND BITS_IN_LOWER_PART_OF_T_MASK
      in simd_unit[0 := change_t0_interval coefficient0,
           1 := change_t0_interval coefficient1,
           2 := change_t0_interval coefficient2,
           3 := change_t0_interval coefficient3,
           4 := change_t0_interval coefficient4,
           5 := change_t0_interval coefficient5,
           6 := change_t0_interval coefficient6,
           7 := change_t0_interval coefficient7])"

subsection \<open>The high bits of the public vector\<close>

definition t1_serialize :: "coefficients \<Rightarrow> u8 list \<Rightarrow> u8 list" where
  "t1_serialize simd_unit serialized =
     for_loop 0 (8 div 4) (\<lambda>i serialized.
       let coefficients = subslice simd_unit (i * 4) (i * 4 + 4);
           serialized = serialized[5 * i := u8_of_i32 (coefficients ! 0 AND 255)];
           serialized = serialized[5 * i + 1 := u8_of_u32 (push_bit 2 (u32_of_u8 (u8_of_i32 (coefficients ! 1 AND 63)))
             OR u32_of_u8 (u8_of_i32 (drop_bit 8 (coefficients ! 0) AND 3)))];
           serialized = serialized[5 * i + 2 := u8_of_u32 (push_bit 4 (u32_of_u8 (u8_of_i32 (coefficients ! 2 AND 15)))
             OR u32_of_u8 (u8_of_i32 (drop_bit 6 (coefficients ! 1) AND 15)))];
           serialized = serialized[5 * i + 3 := u8_of_u32 (push_bit 6 (u32_of_u8 (u8_of_i32 (coefficients ! 3 AND 3)))
             OR u32_of_u8 (u8_of_i32 (drop_bit 4 (coefficients ! 2) AND 63)))];
           serialized = serialized[5 * i + 4 := u8_of_i32 (drop_bit 2 (coefficients ! 3) AND 255)]
       in serialized) serialized"

definition t1_deserialize :: "u8 list \<Rightarrow> coefficients \<Rightarrow> coefficients" where
  "t1_deserialize serialized simd_unit =
     (let mask = as_i32 (shl_i32 1 BITS_IN_UPPER_PART_OF_T - 1)
      in for_loop 0 (length serialized div 5) (\<lambda>i simd_unit.
       let bytes = subslice serialized (i * 5) (i * 5 + 5);
           byte0 = i32_of_u8 (bytes ! 0);
           byte1 = i32_of_u8 (bytes ! 1);
           byte2 = i32_of_u8 (bytes ! 2);
           byte3 = i32_of_u8 (bytes ! 3);
           byte4 = i32_of_u8 (bytes ! 4);
           simd_unit = simd_unit[4 * i := (byte0 OR shl_i32 byte1 8) AND mask];
           simd_unit = simd_unit[4 * i + 1 := (drop_bit 2 byte1 OR shl_i32 byte2 6) AND mask];
           simd_unit = simd_unit[4 * i + 2 := (drop_bit 4 byte2 OR shl_i32 byte3 4) AND mask];
           simd_unit = simd_unit[4 * i + 3 := (drop_bit 6 byte3 OR shl_i32 byte4 2) AND mask]
       in simd_unit) simd_unit)"

subsection \<open>The interface of a packing\<close>

locale bit_pack =
  fixes d :: nat and f :: "int \<Rightarrow> int" and ser :: "int list \<Rightarrow> u8 list \<Rightarrow> u8 list" and deser :: "u8 list \<Rightarrow> int list \<Rightarrow> int list"
  assumes width_pos: "0 < d"
    and involution: "f (f x) = x"
    and ser_length: "length v = 8 \<Longrightarrow> length bs = d \<Longrightarrow> length (ser v bs) = d"
    and ser_stream: "length v = 8 \<Longrightarrow> length bs = d \<Longrightarrow> coeffs_in d (map f v) \<Longrightarrow> byte_stream (ser v bs) = coeff_stream d (map f v)"
    and deser_length: "length bs = d \<Longrightarrow> length v = 8 \<Longrightarrow> length (deser bs v) = 8"
    and deser_range: "length bs = d \<Longrightarrow> length v = 8 \<Longrightarrow> coeffs_in d (map f (deser bs v))"
    and deser_stream: "length bs = d \<Longrightarrow> length v = 8 \<Longrightarrow> coeff_stream d (map f (deser bs v)) = byte_stream bs"
begin

lemma ser_eq_encode:
  "length v = 8 \<Longrightarrow> length bs = d \<Longrightarrow> coeffs_in d (map f v) \<Longrightarrow> ser v bs = byte_encode d (map f v)"
  by (rule byte_encode_unique [symmetric], rule ser_stream)

lemma map_f_f: "map f (map f v) = v"
  by (simp add: involution comp_def)

lemma deser_eq_decode: "length bs = d \<Longrightarrow> length v = 8 \<Longrightarrow> deser bs v = map f (byte_decode d bs)"
  using byte_decode_unique [OF deser_stream deser_range width_pos, of bs v] map_f_f [of "deser bs v"] by simp

lemma deser_ser:
  "length v = 8 \<Longrightarrow> length bs = d \<Longrightarrow> length w = 8 \<Longrightarrow> coeffs_in d (map f v) \<Longrightarrow> deser (ser v bs) w = v"
  using byte_decode_unique [OF ser_stream [symmetric] _ width_pos, of v bs] map_f_f [of v]
  by (simp add: deser_eq_decode ser_length)

lemma ser_deser: "length bs = d \<Longrightarrow> length v = 8 \<Longrightarrow> length bs' = d \<Longrightarrow> ser (deser bs v) bs' = bs"
  by (simp add: ser_eq_encode deser_length deser_range byte_encode_unique deser_stream)

lemma packing:
  assumes "length v = 8" and "length out = 8" and "length s = d" and "length bs = d" and "coeffs_in d (map f v)"
  shows "ser v s = byte_encode d (map f v)" and "deser (byte_encode d (map f v)) out = v"
    and "deser bs out = map f (byte_decode d bs)" and "ser (map f (byte_decode d bs)) s = bs"
  using ser_eq_encode [OF assms(1,3,5)] deser_ser [OF assms(1,3,2,5)] deser_eq_decode [OF assms(4,2)] ser_deser [OF assms(4,2,3)]
  by simp_all

end

subsection \<open>Streams of the serializers\<close>

lemma bit_shl_i32: "bit (shl_i32 x k) n \<longleftrightarrow> k \<le> min n 31 \<and> bit x (min n 31 - k)"
  by (auto simp: shl_i32_def as_i32_def bit_simps min.commute)

lemma i32_of_u8_eq: "i32_of_u8 b = uint b"
proof -
  have "uint (u32_of_u8 b) = uint b" by (simp add: u32_of_u8_def unsigned_ucast_eq) (simp add: take_bit_int_eq_self uint_u8_range less_imp_le order.strict_trans2 [OF uint_u8_range(2)])
  then show ?thesis by (simp add: i32_of_u8_def is_i16_imp_is_i32)
qed

lemma bit_i32_of_u8: "bit (i32_of_u8 b) n \<longleftrightarrow> bit b n"
  by (auto simp: i32_of_u8_eq bit_uint_iff dest: bit_imp_le_length)

lemma bit_u8_of_i32: "bit (u8_of_i32 x) n \<longleftrightarrow> n < 8 \<and> bit x n"
  by (simp add: u8_of_i32_def bit_simps)

lemma or_u8_eq: "or_u8 a b = a OR b"
  by (rule bit_word_eqI) (simp add: or_u8_def u8_of_u32_def u32_of_u8_def bit_simps)

lemma list_nths: "length s = n \<Longrightarrow> s = map ((!) s) [0..<n]"
  by (metis map_nth)

lemma upt_evals':
  "[0..<6] = [0, 1, 2, 3, 4, 5]"
  "[0..<13] = [0, 1, 2, 3, 4, 5, 6, 7, 8, 9, 10, 11, 12]"
  "[0..<18] = [0, 1, 2, 3, 4, 5, 6, 7, 8, 9, 10, 11, 12, 13, 14, 15, 16, 17]"
  "[0..<20] = [0, 1, 2, 3, 4, 5, 6, 7, 8, 9, 10, 11, 12, 13, 14, 15, 16, 17, 18, 19]"
  by code_simp+

lemma wide_masks:
  "x AND 1023 = take_bit 10 x" "x AND 8191 = take_bit 13 x" "x AND 262143 = take_bit 18 x" "x AND 1048575 = take_bit 20 x" for x :: int
  by (simp_all add: take_bit_eq_mask mask_eq_exp_minus_1)

lemma u8_mask: "b AND 15 = take_bit 4 b" for b :: u8
  by (simp add: take_bit_eq_mask mask_eq_exp_minus_1)

lemma encoding_constants:
  "GAMMA1_2_POW_19 = 524288" "GAMMA1_2_POW_17 = 131072"
  "GAMMA1_2_POW_19_TIMES_2_BITMASK = 1048575" "GAMMA1_2_POW_17_TIMES_2_BITMASK = 262143"
  "BITS_IN_LOWER_PART_OF_T_MASK = 8191" "as_i32 (shl_i32 1 BITS_IN_UPPER_PART_OF_T - 1) = 1023"
  by code_simp+

lemma change_t0_interval_eq: "change_t0_interval t = as_i32 (4096 - t)"
proof -
  have "shl_i32 1 (BITS_IN_LOWER_PART_OF_T - 1) = 4096" by code_simp
  then show ?thesis by (simp add: change_t0_interval_def)
qed

lemma fits_dsa:
  "8 + k \<le> d \<Longrightarrow> d \<le> 31 \<Longrightarrow> fits d (shl_i32 (i32_of_u8 b) k)"
  "8 \<le> d + k \<Longrightarrow> fits d (drop_bit k (i32_of_u8 b))"
  "8 \<le> d \<Longrightarrow> fits d (i32_of_u8 b)"
  "k \<le> d \<Longrightarrow> fits d (take_bit k x)"
  "k \<le> d \<Longrightarrow> fits d (i32_of_u8 (take_bit k b))"
  "8 \<le> d + k \<Longrightarrow> fits d (i32_of_u8 (drop_bit k b))"
  "fits d x \<Longrightarrow> fits d y \<Longrightarrow> fits d (x OR y)"
  by (fastforce simp: fits_def bit_simps bit_i32_of_u8 bit_shl_i32 min_def split: if_splits dest: bit_imp_le_length)+

lemma coeffs_in_i32:
  assumes "coeffs_in d (map (\<lambda>c. g - c) v)" and "length v = 8" and "d \<le> 31" and "i < 8"
  shows "as_i32 (g - v ! i) = map (\<lambda>c. g - c) v ! i"
proof -
  have "0 \<le> g - v ! i" "g - v ! i < 2 ^ d" using assms by (auto simp: coeffs_in_def list_all_length)
  moreover have "(2 :: int) ^ d \<le> 2 ^ 31" using assms(3) by (intro power_increasing) simp_all
  ultimately show ?thesis using assms(2,4) by (simp add: is_i32_def)
qed

lemma interval_inverse:
  assumes "fits d x" and "d \<le> 20" and "0 \<le> g" and "g \<le> 2 ^ 20"
  shows "g - as_i32 (g - x) = x"
proof -
  have "(2 :: int) ^ d \<le> 2 ^ 20" using assms(2) by (intro power_increasing) simp_all
  then show ?thesis using fits_range [OF assms(1)] assms(3,4) by (simp add: is_i32_def)
qed

lemmas unrolled = for_loop_def upt_evals upt_evals' Let_def
lemmas dsa_bits = u8_of_u32_def u32_of_u8_def bit_shl_i32 bit_i32_of_u8 bit_u8_of_i32 or_u8_eq bit_simps bit_u8_high wide_masks and_low_masks u8_mask
lemmas dsa_parity = bit_0 eval_nat_numeral even_u32_of_u8

lemma gamma1_serialize_when_gamma1_is_2_pow_17_stream:
  assumes "length v = 8" and "length s = 18" and "coeffs_in 18 (map (\<lambda>c. 131072 - c) v)"
  shows "byte_stream (gamma1_serialize_when_gamma1_is_2_pow_17 v s) = coeff_stream 18 (map (\<lambda>c. 131072 - c) v)"
proof -
  define c where "c = map (\<lambda>c. 131072 - c) v"
  have l: "length c = 8" using assms(1) by (simp add: c_def)
  have c: "as_i32 (131072 - v ! i) = c ! i" if "i < 8" for i
    using coeffs_in_i32 [OF assms(3,1) _ that] that by (simp add: c_def)
  show ?thesis
    unfolding c_def [symmetric] coeff_stream_nths [OF l]
    by (subst list_nths [OF assms(2)], simp add: gamma1_serialize_when_gamma1_is_2_pow_17_def unrolled encoding_constants change_t0_interval_eq assms(1) c stream_unfold del: push_bit_Suc)
      (simp add: dsa_bits coeffs_in_bit [OF assms(3) [folded c_def]] l del: push_bit_Suc, (simp add: dsa_parity)?)
qed

lemma gamma1_serialize_when_gamma1_is_2_pow_19_stream:
  assumes "length v = 8" and "length s = 20" and "coeffs_in 20 (map (\<lambda>c. 524288 - c) v)"
  shows "byte_stream (gamma1_serialize_when_gamma1_is_2_pow_19 v s) = coeff_stream 20 (map (\<lambda>c. 524288 - c) v)"
proof -
  define c where "c = map (\<lambda>c. 524288 - c) v"
  have l: "length c = 8" using assms(1) by (simp add: c_def)
  have c: "as_i32 (524288 - v ! i) = c ! i" if "i < 8" for i
    using coeffs_in_i32 [OF assms(3,1) _ that] that by (simp add: c_def)
  show ?thesis
    unfolding c_def [symmetric] coeff_stream_nths [OF l]
    by (subst list_nths [OF assms(2)], simp add: gamma1_serialize_when_gamma1_is_2_pow_19_def unrolled encoding_constants change_t0_interval_eq assms(1) c stream_unfold del: push_bit_Suc)
      (simp add: dsa_bits coeffs_in_bit [OF assms(3) [folded c_def]] l del: push_bit_Suc, (simp add: dsa_parity)?)
qed

lemma error_serialize_when_eta_is_4_stream:
  assumes "length v = 8" and "length s = 4" and "coeffs_in 4 (map (\<lambda>c. 4 - c) v)"
  shows "byte_stream (error_serialize_when_eta_is_4 v s) = coeff_stream 4 (map (\<lambda>c. 4 - c) v)"
proof -
  define c where "c = map (\<lambda>c. 4 - c) v"
  have l: "length c = 8" using assms(1) by (simp add: c_def)
  have c: "as_i32 (4 - v ! i) = c ! i" if "i < 8" for i
    using coeffs_in_i32 [OF assms(3,1) _ that] that by (simp add: c_def)
  show ?thesis
    unfolding c_def [symmetric] coeff_stream_nths [OF l]
    by (subst list_nths [OF assms(2)], simp add: error_serialize_when_eta_is_4_def unrolled encoding_constants change_t0_interval_eq assms(1) c stream_unfold del: push_bit_Suc)
      (simp add: dsa_bits coeffs_in_bit [OF assms(3) [folded c_def]] l del: push_bit_Suc, (simp add: dsa_parity)?)
qed

lemma error_serialize_when_eta_is_2_stream:
  assumes "length v = 8" and "length s = 3" and "coeffs_in 3 (map (\<lambda>c. 2 - c) v)"
  shows "byte_stream (error_serialize_when_eta_is_2 v s) = coeff_stream 3 (map (\<lambda>c. 2 - c) v)"
proof -
  define c where "c = map (\<lambda>c. 2 - c) v"
  have l: "length c = 8" using assms(1) by (simp add: c_def)
  have c: "as_i32 (2 - v ! i) = c ! i" if "i < 8" for i
    using coeffs_in_i32 [OF assms(3,1) _ that] that by (simp add: c_def)
  show ?thesis
    unfolding c_def [symmetric] coeff_stream_nths [OF l]
    by (subst list_nths [OF assms(2)], simp add: error_serialize_when_eta_is_2_def unrolled encoding_constants change_t0_interval_eq assms(1) c stream_unfold del: push_bit_Suc)
      (simp add: dsa_bits coeffs_in_bit [OF assms(3) [folded c_def]] l del: push_bit_Suc, (simp add: dsa_parity)?)
qed

lemma t0_serialize_stream:
  assumes "length v = 8" and "length s = 13" and "coeffs_in 13 (map (\<lambda>c. 4096 - c) v)"
  shows "byte_stream (t0_serialize v s) = coeff_stream 13 (map (\<lambda>c. 4096 - c) v)"
proof -
  define c where "c = map (\<lambda>c. 4096 - c) v"
  have l: "length c = 8" using assms(1) by (simp add: c_def)
  have c: "as_i32 (4096 - v ! i) = c ! i" if "i < 8" for i
    using coeffs_in_i32 [OF assms(3,1) _ that] that by (simp add: c_def)
  show ?thesis
    unfolding c_def [symmetric] coeff_stream_nths [OF l]
    by (subst list_nths [OF assms(2)], simp add: t0_serialize_def unrolled encoding_constants change_t0_interval_eq assms(1) c stream_unfold del: push_bit_Suc)
      (simp add: dsa_bits coeffs_in_bit [OF assms(3) [folded c_def]] l del: push_bit_Suc, (simp add: dsa_parity)?)
qed

lemma t1_serialize_stream:
  assumes "length v = 8" and "length s = 10" and "coeffs_in 10 v"
  shows "byte_stream (t1_serialize v s) = coeff_stream 10 v"
  unfolding coeff_stream_nths [OF assms(1)]
  by (subst list_nths [OF assms(2)], simp add: t1_serialize_def unrolled assms(1) stream_unfold del: push_bit_Suc)
    (simp add: dsa_bits coeffs_in_bit [OF assms(3)] assms(1) del: push_bit_Suc, (simp add: dsa_parity)?)

lemma commitment_serialize_4_stream:
  assumes "length v = 8" and "length s = 4" and "coeffs_in 4 v"
  shows "byte_stream (commitment_serialize_4 v s) = coeff_stream 4 v"
  unfolding coeff_stream_nths [OF assms(1)]
  by (subst list_nths [OF assms(2)], simp add: commitment_serialize_4_def unrolled assms(1) stream_unfold del: push_bit_Suc)
    (simp add: dsa_bits coeffs_in_bit [OF assms(3)] assms(1) del: push_bit_Suc, (simp add: dsa_parity)?)

lemma commitment_serialize_6_stream:
  assumes "length v = 8" and "length s = 6" and "coeffs_in 6 v"
  shows "byte_stream (commitment_serialize_6 v s) = coeff_stream 6 v"
  unfolding coeff_stream_nths [OF assms(1)]
  by (subst list_nths [OF assms(2)], simp add: commitment_serialize_6_def unrolled assms(1) stream_unfold del: push_bit_Suc)
    (simp add: dsa_bits coeffs_in_bit [OF assms(3)] assms(1) del: push_bit_Suc, (simp add: dsa_parity)?)

lemma gamma1_deserialize_when_gamma1_is_2_pow_17_stream:
  assumes "length bs = 18" and "length v = 8"
  shows "coeffs_in 18 (map (\<lambda>c. 131072 - c) (gamma1_deserialize_when_gamma1_is_2_pow_17 bs v))"
    and "coeff_stream 18 (map (\<lambda>c. 131072 - c) (gamma1_deserialize_when_gamma1_is_2_pow_17 bs v)) = byte_stream bs"
proof -
  note unfolds = gamma1_deserialize_when_gamma1_is_2_pow_17_def unrolled encoding_constants change_t0_interval_eq assms(1) wide_masks and_low_masks u8_mask
    interval_inverse [of 18 _ 131072, simplified] fits_dsa
  show "coeffs_in 18 (map (\<lambda>c. 131072 - c) (gamma1_deserialize_when_gamma1_is_2_pow_17 bs v))"
    by (rule coeffs_in_fits, subst list_nths [OF assms(2)]) (simp add: unfolds del: push_bit_Suc)
  show "coeff_stream 18 (map (\<lambda>c. 131072 - c) (gamma1_deserialize_when_gamma1_is_2_pow_17 bs v)) = byte_stream bs"
    unfolding byte_stream_nths [OF assms(1)]
    by (subst list_nths [OF assms(2)], simp add: unfolds stream_unfold del: push_bit_Suc)
      (simp add: dsa_bits del: push_bit_Suc, (simp add: dsa_parity)?)
qed

lemma gamma1_deserialize_when_gamma1_is_2_pow_19_stream:
  assumes "length bs = 20" and "length v = 8"
  shows "coeffs_in 20 (map (\<lambda>c. 524288 - c) (gamma1_deserialize_when_gamma1_is_2_pow_19 bs v))"
    and "coeff_stream 20 (map (\<lambda>c. 524288 - c) (gamma1_deserialize_when_gamma1_is_2_pow_19 bs v)) = byte_stream bs"
proof -
  note unfolds = gamma1_deserialize_when_gamma1_is_2_pow_19_def unrolled encoding_constants change_t0_interval_eq assms(1) wide_masks and_low_masks u8_mask
    interval_inverse [of 20 _ 524288, simplified] fits_dsa
  show "coeffs_in 20 (map (\<lambda>c. 524288 - c) (gamma1_deserialize_when_gamma1_is_2_pow_19 bs v))"
    by (rule coeffs_in_fits, subst list_nths [OF assms(2)]) (simp add: unfolds del: push_bit_Suc)
  show "coeff_stream 20 (map (\<lambda>c. 524288 - c) (gamma1_deserialize_when_gamma1_is_2_pow_19 bs v)) = byte_stream bs"
    unfolding byte_stream_nths [OF assms(1)]
    by (subst list_nths [OF assms(2)], simp add: unfolds stream_unfold del: push_bit_Suc)
      (simp add: dsa_bits del: push_bit_Suc, (simp add: dsa_parity)?)
qed

lemma error_deserialize_when_eta_is_4_stream:
  assumes "length bs = 4" and "length v = 8"
  shows "coeffs_in 4 (map (\<lambda>c. 4 - c) (error_deserialize_when_eta_is_4 bs v))"
    and "coeff_stream 4 (map (\<lambda>c. 4 - c) (error_deserialize_when_eta_is_4 bs v)) = byte_stream bs"
proof -
  note unfolds = error_deserialize_when_eta_is_4_def unrolled encoding_constants change_t0_interval_eq assms(1) wide_masks and_low_masks u8_mask
    interval_inverse [of 4 _ 4, simplified] fits_dsa
  show "coeffs_in 4 (map (\<lambda>c. 4 - c) (error_deserialize_when_eta_is_4 bs v))"
    by (rule coeffs_in_fits, subst list_nths [OF assms(2)]) (simp add: unfolds del: push_bit_Suc)
  show "coeff_stream 4 (map (\<lambda>c. 4 - c) (error_deserialize_when_eta_is_4 bs v)) = byte_stream bs"
    unfolding byte_stream_nths [OF assms(1)]
    by (subst list_nths [OF assms(2)], simp add: unfolds stream_unfold del: push_bit_Suc)
      (simp add: dsa_bits del: push_bit_Suc, (simp add: dsa_parity)?)
qed

lemma error_deserialize_when_eta_is_2_stream:
  assumes "length bs = 3" and "length v = 8"
  shows "coeffs_in 3 (map (\<lambda>c. 2 - c) (error_deserialize_when_eta_is_2 bs v))"
    and "coeff_stream 3 (map (\<lambda>c. 2 - c) (error_deserialize_when_eta_is_2 bs v)) = byte_stream bs"
proof -
  note unfolds = error_deserialize_when_eta_is_2_def unrolled encoding_constants change_t0_interval_eq assms(1) wide_masks and_low_masks u8_mask
    interval_inverse [of 3 _ 2, simplified] fits_dsa
  show "coeffs_in 3 (map (\<lambda>c. 2 - c) (error_deserialize_when_eta_is_2 bs v))"
    by (rule coeffs_in_fits, subst list_nths [OF assms(2)]) (simp add: unfolds del: push_bit_Suc)
  show "coeff_stream 3 (map (\<lambda>c. 2 - c) (error_deserialize_when_eta_is_2 bs v)) = byte_stream bs"
    unfolding byte_stream_nths [OF assms(1)]
    by (subst list_nths [OF assms(2)], simp add: unfolds stream_unfold del: push_bit_Suc)
      (simp add: dsa_bits del: push_bit_Suc, (simp add: dsa_parity)?)
qed

lemma t0_deserialize_stream:
  assumes "length bs = 13" and "length v = 8"
  shows "coeffs_in 13 (map (\<lambda>c. 4096 - c) (t0_deserialize bs v))"
    and "coeff_stream 13 (map (\<lambda>c. 4096 - c) (t0_deserialize bs v)) = byte_stream bs"
proof -
  note unfolds = t0_deserialize_def unrolled encoding_constants change_t0_interval_eq assms(1) wide_masks and_low_masks u8_mask
    interval_inverse [of 13 _ 4096, simplified] fits_dsa
  show "coeffs_in 13 (map (\<lambda>c. 4096 - c) (t0_deserialize bs v))"
    by (rule coeffs_in_fits, subst list_nths [OF assms(2)]) (simp add: unfolds del: push_bit_Suc)
  show "coeff_stream 13 (map (\<lambda>c. 4096 - c) (t0_deserialize bs v)) = byte_stream bs"
    unfolding byte_stream_nths [OF assms(1)]
    by (subst list_nths [OF assms(2)], simp add: unfolds stream_unfold del: push_bit_Suc)
      (simp add: dsa_bits del: push_bit_Suc, (simp add: dsa_parity)?)
qed

lemma t1_deserialize_stream:
  assumes "length bs = 10" and "length v = 8"
  shows "coeffs_in 10 (t1_deserialize bs v)" and "coeff_stream 10 (t1_deserialize bs v) = byte_stream bs"
proof -
  note unfolds = t1_deserialize_def unrolled encoding_constants assms(1) wide_masks
  show "coeffs_in 10 (t1_deserialize bs v)"
    by (rule coeffs_in_fits, subst list_nths [OF assms(2)]) (simp add: unfolds fits_dsa del: push_bit_Suc)
  show "coeff_stream 10 (t1_deserialize bs v) = byte_stream bs"
    unfolding byte_stream_nths [OF assms(1)]
    by (subst list_nths [OF assms(2)], simp add: unfolds stream_unfold del: push_bit_Suc)
      (simp add: dsa_bits del: push_bit_Suc, (simp add: dsa_parity)?)
qed

subsection \<open>The code implements the interface\<close>

lemma serialize_lengths:
  "length (gamma1_serialize_when_gamma1_is_2_pow_17 v s) = length s"
  "length (gamma1_serialize_when_gamma1_is_2_pow_19 v s) = length s"
  "length (error_serialize_when_eta_is_4 v s) = length s"
  "length (error_serialize_when_eta_is_2 v s) = length s"
  "length (t0_serialize v s) = length s"
  "length (t1_serialize v s) = length s"
  "length (commitment_serialize_4 v s) = length s" "length (commitment_serialize_6 v s) = length s"
  by (simp_all add: gamma1_serialize_when_gamma1_is_2_pow_17_def gamma1_serialize_when_gamma1_is_2_pow_19_def error_serialize_when_eta_is_4_def error_serialize_when_eta_is_2_def t0_serialize_def t1_serialize_def
    commitment_serialize_4_def commitment_serialize_6_def unrolled)

lemma deserialize_lengths:
  "length bs = 18 \<Longrightarrow> length (gamma1_deserialize_when_gamma1_is_2_pow_17 bs v) = length v"
  "length bs = 20 \<Longrightarrow> length (gamma1_deserialize_when_gamma1_is_2_pow_19 bs v) = length v"
  "length bs = 4 \<Longrightarrow> length (error_deserialize_when_eta_is_4 bs v) = length v"
  "length bs = 3 \<Longrightarrow> length (error_deserialize_when_eta_is_2 bs v) = length v"
  "length bs = 13 \<Longrightarrow> length (t0_deserialize bs v) = length v"
  "length bs = 10 \<Longrightarrow> length (t1_deserialize bs v) = length v"
  by (simp_all add: gamma1_deserialize_when_gamma1_is_2_pow_17_def gamma1_deserialize_when_gamma1_is_2_pow_19_def error_deserialize_when_eta_is_4_def error_deserialize_when_eta_is_2_def t0_deserialize_def t1_deserialize_def unrolled)

interpretation pack_gamma1_17: bit_pack 18 "\<lambda>c. 131072 - c" gamma1_serialize_when_gamma1_is_2_pow_17 gamma1_deserialize_when_gamma1_is_2_pow_17
  by unfold_locales (simp_all add: serialize_lengths deserialize_lengths gamma1_serialize_when_gamma1_is_2_pow_17_stream gamma1_deserialize_when_gamma1_is_2_pow_17_stream)

interpretation pack_gamma1_19: bit_pack 20 "\<lambda>c. 524288 - c" gamma1_serialize_when_gamma1_is_2_pow_19 gamma1_deserialize_when_gamma1_is_2_pow_19
  by unfold_locales (simp_all add: serialize_lengths deserialize_lengths gamma1_serialize_when_gamma1_is_2_pow_19_stream gamma1_deserialize_when_gamma1_is_2_pow_19_stream)

interpretation pack_error_4: bit_pack 4 "\<lambda>c. 4 - c" error_serialize_when_eta_is_4 error_deserialize_when_eta_is_4
  by unfold_locales (simp_all add: serialize_lengths deserialize_lengths error_serialize_when_eta_is_4_stream error_deserialize_when_eta_is_4_stream)

interpretation pack_error_2: bit_pack 3 "\<lambda>c. 2 - c" error_serialize_when_eta_is_2 error_deserialize_when_eta_is_2
  by unfold_locales (simp_all add: serialize_lengths deserialize_lengths error_serialize_when_eta_is_2_stream error_deserialize_when_eta_is_2_stream)

interpretation pack_t0: bit_pack 13 "\<lambda>c. 4096 - c" t0_serialize t0_deserialize
  by unfold_locales (simp_all add: serialize_lengths deserialize_lengths t0_serialize_stream t0_deserialize_stream)

interpretation pack_t1: bit_pack 10 "\<lambda>c. c" t1_serialize t1_deserialize
  by unfold_locales (simp_all add: serialize_lengths deserialize_lengths t1_serialize_stream t1_deserialize_stream)

lemma or_aborts:
  "gamma1_serialize v s 17 = Some (gamma1_serialize_when_gamma1_is_2_pow_17 v s)"
  "gamma1_serialize v s 19 = Some (gamma1_serialize_when_gamma1_is_2_pow_19 v s)"
  "gamma1_deserialize bs v 17 = Some (gamma1_deserialize_when_gamma1_is_2_pow_17 bs v)"
  "gamma1_deserialize bs v 19 = Some (gamma1_deserialize_when_gamma1_is_2_pow_19 bs v)"
  by (simp_all add: gamma1_serialize_def gamma1_deserialize_def)

lemma commitment_serialize_eq:
  assumes "length v = 8" and "length s = d" and "d = 4 \<or> d = 6" and "coeffs_in d v"
  shows "commitment_serialize v s = Some (byte_encode d v)"
proof -
  have "byte_encode 4 v = commitment_serialize_4 v s" if "d = 4"
    using byte_encode_unique [OF commitment_serialize_4_stream] assms that by simp
  moreover have "byte_encode 6 v = commitment_serialize_6 v s" if "d = 6"
    using byte_encode_unique [OF commitment_serialize_6_stream] assms that by simp
  ultimately show ?thesis using assms(2,3) by (auto simp: commitment_serialize_def)
qed

subsection \<open>The properties of the component\<close>

text \<open>
  C36. Each pair of ML-DSA vector serializers is a bit packing: on coefficients whose image under the change of interval has \<open>d\<close> bits,
  serialization writes exactly the bytes of the reference packing of \<open>d\<close>-bit numbers, whatever the buffer held before, and deserialization into any vector
  gives the coefficients back; every string of \<open>d\<close> bytes deserializes to the coefficients of the reference and serializes back to
  itself. This holds for the mask (both ranges), the secret vectors (both \<open>eta\<close>), and the low and high parts of the
  public vector.
\<close>

theorem dsa_encoding_correct:
  assumes "(d, f, ser, deser) \<in> {
      (18, \<lambda>c. 131072 - c, \<lambda>v s. gamma1_serialize v s 17, \<lambda>bs out. gamma1_deserialize bs out 17),
      (20, \<lambda>c. 524288 - c, \<lambda>v s. gamma1_serialize v s 19, \<lambda>bs out. gamma1_deserialize bs out 19),
      (3, \<lambda>c. 2 - c, \<lambda>v s. Some (error_serialize Eta_Two v s), \<lambda>bs out. Some (error_deserialize Eta_Two bs out)),
      (4, \<lambda>c. 4 - c, \<lambda>v s. Some (error_serialize Eta_Four v s), \<lambda>bs out. Some (error_deserialize Eta_Four bs out)),
      (13, \<lambda>c. 4096 - c, \<lambda>v s. Some (t0_serialize v s), \<lambda>bs out. Some (t0_deserialize bs out)),
      (10, \<lambda>c. c, \<lambda>v s. Some (t1_serialize v s), \<lambda>bs out. Some (t1_deserialize bs out))}"
    and "length v = 8" and "length out = 8" and "length s = d" and "length bs = d" and "coeffs_in d (map f v)"
  shows "ser v s = Some (byte_encode d (map f v)) \<and> deser (byte_encode d (map f v)) out = Some v
    \<and> deser bs out = Some (map f (byte_decode d bs)) \<and> ser (map f (byte_decode d bs)) s = Some bs"
proof -
  note facts = assms(2-6) or_aborts error_serialize_def error_deserialize_def
  from assms(1) consider "d = 18 \<and> f = (\<lambda>c. 131072 - c) \<and> ser = (\<lambda>v s. gamma1_serialize v s 17) \<and> deser = (\<lambda>bs out. gamma1_deserialize bs out 17)"
    | "d = 20 \<and> f = (\<lambda>c. 524288 - c) \<and> ser = (\<lambda>v s. gamma1_serialize v s 19) \<and> deser = (\<lambda>bs out. gamma1_deserialize bs out 19)"
    | "d = 3 \<and> f = (\<lambda>c. 2 - c) \<and> ser = (\<lambda>v s. Some (error_serialize Eta_Two v s)) \<and> deser = (\<lambda>bs out. Some (error_deserialize Eta_Two bs out))"
    | "d = 4 \<and> f = (\<lambda>c. 4 - c) \<and> ser = (\<lambda>v s. Some (error_serialize Eta_Four v s)) \<and> deser = (\<lambda>bs out. Some (error_deserialize Eta_Four bs out))"
    | "d = 13 \<and> f = (\<lambda>c. 4096 - c) \<and> ser = (\<lambda>v s. Some (t0_serialize v s)) \<and> deser = (\<lambda>bs out. Some (t0_deserialize bs out))"
    | "d = 10 \<and> f = (\<lambda>c. c) \<and> ser = (\<lambda>v s. Some (t1_serialize v s)) \<and> deser = (\<lambda>bs out. Some (t1_deserialize bs out))"
    by auto
  then show ?thesis
  proof cases
    case 1
    then show ?thesis using facts pack_gamma1_17.packing by simp
  next
    case 2
    then show ?thesis using facts pack_gamma1_19.packing by simp
  next
    case 3
    then show ?thesis using facts pack_error_2.packing by simp
  next
    case 4
    then show ?thesis using facts pack_error_4.packing by simp
  next
    case 5
    then show ?thesis using facts pack_t0.packing by simp
  next
    case 6
    then show ?thesis using facts pack_t1.packing by simp
  qed
qed

theorem dsa_encoding_correct_witness:
  "(\<exists>bs. gamma1_serialize [0, 1, - 131071, 131072, 5, 6, 7, 8] (replicate 18 0) 17 = Some bs
     \<and> gamma1_deserialize bs (replicate 8 0) 17 = Some [0, 1, - 131071, 131072, 5, 6, 7, 8])
   \<and> t1_deserialize (t1_serialize [0, 1, 2, 1023, 5, 6, 7, 8] (replicate 10 0)) (replicate 8 0) = [0, 1, 2, 1023, 5, 6, 7, 8]"
  using dsa_encoding_correct [of 18 "\<lambda>c. 131072 - c" "\<lambda>v s. gamma1_serialize v s 17" "\<lambda>bs out. gamma1_deserialize bs out 17"
      "[0, 1, - 131071, 131072, 5, 6, 7, 8]" "replicate 8 0" "replicate 18 0" "replicate 18 0"]
    dsa_encoding_correct [of 10 "\<lambda>c. c" "\<lambda>v s. Some (t1_serialize v s)" "\<lambda>bs out. Some (t1_deserialize bs out)"
      "[0, 1, 2, 1023, 5, 6, 7, 8]" "replicate 8 0" "replicate 10 0" "replicate 10 0"]
  by (simp add: coeffs_in_def)

end
