(* ===== verification/MLDSA_RingEncoding.thy ===== *)
theory MLDSA_RingEncoding
  imports MLDSA_Encoding
begin

section \<open>ML-DSA: parameters and serialization of ring elements\<close>

text \<open>
  The parameter sets (\<open>libcrux_mldsa_core.h\<close> lines 111--175) as one record with three values, the sizes derived from them
  (\<open>libcrux_mldsa_core.c\<close> lines 22--150), and the serializers of ring elements, of the verification key and of the commitment: loops
  of the vector serializers over the 32 vectors of a ring element (lines 4775--5650). A mutable sub-slice handed to a callee is
  \<open>slice_apply\<close>.

  Inside the interface \<open>bit_pack\<close> the loops are shown to pack the 256 coefficients as one stream; the round trips of
  the concrete functions follow by the interpretations.
\<close>

type_synonym dsa_ring_element = "coefficients list"

subsection \<open>Parameters\<close>

record mldsa_params =
  ROWS_IN_A :: nat
  COLUMNS_IN_A :: nat
  ETA :: eta
  GAMMA1_EXPONENT :: nat
  GAMMA2 :: i32
  MAX_ONES_IN_HINT :: nat
  ONES_IN_VERIFIER_CHALLENGE :: nat
  COMMITMENT_HASH_SIZE :: nat
  BITS_PER_COMMITMENT_COEFFICIENT :: nat
  BITS_PER_ERROR_COEFFICIENT :: nat
  BITS_PER_GAMMA1_COEFFICIENT :: nat

definition mldsa44 :: mldsa_params where
  "mldsa44 = \<lparr> ROWS_IN_A = 4, COLUMNS_IN_A = 4, ETA = Eta_Two, GAMMA1_EXPONENT = 17, GAMMA2 = (DSA_FIELD_MODULUS - 1) div 88,
     MAX_ONES_IN_HINT = 80, ONES_IN_VERIFIER_CHALLENGE = 39, COMMITMENT_HASH_SIZE = 32, BITS_PER_COMMITMENT_COEFFICIENT = 6,
     BITS_PER_ERROR_COEFFICIENT = 3, BITS_PER_GAMMA1_COEFFICIENT = 18 \<rparr>"

definition mldsa65 :: mldsa_params where
  "mldsa65 = \<lparr> ROWS_IN_A = 6, COLUMNS_IN_A = 5, ETA = Eta_Four, GAMMA1_EXPONENT = 19, GAMMA2 = (DSA_FIELD_MODULUS - 1) div 32,
     MAX_ONES_IN_HINT = 55, ONES_IN_VERIFIER_CHALLENGE = 49, COMMITMENT_HASH_SIZE = 48, BITS_PER_COMMITMENT_COEFFICIENT = 4,
     BITS_PER_ERROR_COEFFICIENT = 4, BITS_PER_GAMMA1_COEFFICIENT = 20 \<rparr>"

definition mldsa87 :: mldsa_params where
  "mldsa87 = \<lparr> ROWS_IN_A = 8, COLUMNS_IN_A = 7, ETA = Eta_Two, GAMMA1_EXPONENT = 19, GAMMA2 = (DSA_FIELD_MODULUS - 1) div 32,
     MAX_ONES_IN_HINT = 75, ONES_IN_VERIFIER_CHALLENGE = 60, COMMITMENT_HASH_SIZE = 64, BITS_PER_COMMITMENT_COEFFICIENT = 4,
     BITS_PER_ERROR_COEFFICIENT = 3, BITS_PER_GAMMA1_COEFFICIENT = 20 \<rparr>"

definition DSA_COEFFICIENTS_IN_RING_ELEMENT :: nat where
  "DSA_COEFFICIENTS_IN_RING_ELEMENT = 256"

definition SEED_FOR_A_SIZE :: nat where
  "SEED_FOR_A_SIZE = 32"

definition SEED_FOR_SIGNING_SIZE :: nat where
  "SEED_FOR_SIGNING_SIZE = 32"

definition BYTES_FOR_VERIFICATION_KEY_HASH :: nat where
  "BYTES_FOR_VERIFICATION_KEY_HASH = 64"

definition RING_ELEMENT_OF_T0S_SIZE :: nat where
  "RING_ELEMENT_OF_T0S_SIZE = BITS_IN_LOWER_PART_OF_T * DSA_COEFFICIENTS_IN_RING_ELEMENT div 8"

definition RING_ELEMENT_OF_T1S_SIZE :: nat where
  "RING_ELEMENT_OF_T1S_SIZE = BITS_IN_UPPER_PART_OF_T * DSA_COEFFICIENTS_IN_RING_ELEMENT div 8"

definition dsa_beta :: "nat \<Rightarrow> eta \<Rightarrow> i32" where
  "dsa_beta ones_in_verifier_challenge eta =
     (let eta_val = (case eta of Eta_Two \<Rightarrow> 2 | Eta_Four \<Rightarrow> 4) in as_i32 (int (ones_in_verifier_challenge * eta_val)))"

definition commitment_ring_element_size :: "nat \<Rightarrow> nat" where
  "commitment_ring_element_size bits_per_commitment_coefficient = bits_per_commitment_coefficient * DSA_COEFFICIENTS_IN_RING_ELEMENT div 8"

definition commitment_vector_size :: "nat \<Rightarrow> nat \<Rightarrow> nat" where
  "commitment_vector_size bits_per_commitment_coefficient rows_in_a =
     commitment_ring_element_size bits_per_commitment_coefficient * rows_in_a"

definition error_ring_element_size :: "nat \<Rightarrow> nat" where
  "error_ring_element_size bits_per_error_coefficient = bits_per_error_coefficient * DSA_COEFFICIENTS_IN_RING_ELEMENT div 8"

definition gamma1_ring_element_size :: "nat \<Rightarrow> nat" where
  "gamma1_ring_element_size bits_per_gamma1_coefficient = bits_per_gamma1_coefficient * DSA_COEFFICIENTS_IN_RING_ELEMENT div 8"

definition signature_size :: "nat \<Rightarrow> nat \<Rightarrow> nat \<Rightarrow> nat \<Rightarrow> nat \<Rightarrow> nat" where
  "signature_size rows_in_a columns_in_a max_ones_in_hint commitment_hash_size bits_per_gamma1_coefficient =
     commitment_hash_size + columns_in_a * gamma1_ring_element_size bits_per_gamma1_coefficient + max_ones_in_hint + rows_in_a"

definition signing_key_size :: "nat \<Rightarrow> nat \<Rightarrow> nat \<Rightarrow> nat" where
  "signing_key_size rows_in_a columns_in_a error_size =
     SEED_FOR_A_SIZE + SEED_FOR_SIGNING_SIZE + BYTES_FOR_VERIFICATION_KEY_HASH
     + (rows_in_a + columns_in_a) * error_size + rows_in_a * RING_ELEMENT_OF_T0S_SIZE"

definition verification_key_size :: "nat \<Rightarrow> nat" where
  "verification_key_size rows_in_a =
     SEED_FOR_A_SIZE
     + DSA_COEFFICIENTS_IN_RING_ELEMENT * rows_in_a * (FIELD_MODULUS_MINUS_ONE_BIT_LENGTH - BITS_IN_LOWER_PART_OF_T) div 8"

definition error_chunk_size :: "eta \<Rightarrow> nat" where
  "error_chunk_size eta = (case eta of Eta_Two \<Rightarrow> 3 | Eta_Four \<Rightarrow> 4)"

subsection \<open>Ring elements\<close>

definition dsa_polynomial_zero :: dsa_ring_element where
  "dsa_polynomial_zero = replicate 32 dsa_zero"

definition from_i32_array :: "i32 list \<Rightarrow> dsa_ring_element \<Rightarrow> dsa_ring_element" where
  "from_i32_array array result =
     for_loop 0 SIMD_UNITS_IN_RING_ELEMENT (\<lambda>i result.
       result[i := from_coefficient_array
         (subslice array (i * COEFFICIENTS_IN_SIMD_UNIT) ((i + 1) * COEFFICIENTS_IN_SIMD_UNIT)) (result ! i)]) result"

definition to_i32_array :: "dsa_ring_element \<Rightarrow> i32 list" where
  "to_i32_array self =
     for_loop 0 32 (\<lambda>i result.
       slice_apply result (i * COEFFICIENTS_IN_SIMD_UNIT) ((i + 1) * COEFFICIENTS_IN_SIMD_UNIT) (to_coefficient_array (self ! i)))
       (replicate 256 0)"

definition ring_gamma1_serialize :: "dsa_ring_element \<Rightarrow> u8 list \<Rightarrow> nat \<Rightarrow> u8 list option" where
  "ring_gamma1_serialize re serialized gamma1_exponent =
     for_option 0 32 (\<lambda>i serialized.
       let simd_unit = re ! i
       in slice_apply_option serialized (i * (gamma1_exponent + 1)) ((i + 1) * (gamma1_exponent + 1))
            (\<lambda>s. gamma1_serialize simd_unit s gamma1_exponent)) serialized"

definition ring_gamma1_deserialize :: "nat \<Rightarrow> u8 list \<Rightarrow> dsa_ring_element \<Rightarrow> dsa_ring_element option" where
  "ring_gamma1_deserialize gamma1_exponent serialized result =
     for_option 0 32 (\<lambda>i result.
       map_option (\<lambda>v. result[i := v])
         (gamma1_deserialize (subslice serialized (i * (gamma1_exponent + 1)) ((i + 1) * (gamma1_exponent + 1)))
            (result ! i) gamma1_exponent)) result"

definition ring_commitment_serialize :: "dsa_ring_element \<Rightarrow> u8 list \<Rightarrow> u8 list option" where
  "ring_commitment_serialize re serialized =
     (let output_bytes_per_simd_unit = length serialized div (8 * 4)
      in for_option 0 32 (\<lambda>i serialized.
        let simd_unit = re ! i
        in slice_apply_option serialized (i * output_bytes_per_simd_unit) ((i + 1) * output_bytes_per_simd_unit)
             (commitment_serialize simd_unit)) serialized)"

definition commitment_serialize_vector :: "nat \<Rightarrow> dsa_ring_element list \<Rightarrow> u8 list \<Rightarrow> u8 list option" where
  "commitment_serialize_vector ring_element_size vector serialized =
     map_option fst (for_option 0 (length vector) (\<lambda>i (serialized, offset).
       let ring_element = vector ! i
       in map_option (\<lambda>serialized. (serialized, offset + ring_element_size))
            (slice_apply_option serialized offset (offset + ring_element_size) (ring_commitment_serialize ring_element)))
       (serialized, 0))"

definition ring_error_serialize :: "eta \<Rightarrow> dsa_ring_element \<Rightarrow> u8 list \<Rightarrow> u8 list" where
  "ring_error_serialize eta re serialized =
     (let output_bytes_per_simd_unit = error_chunk_size eta
      in for_loop 0 32 (\<lambda>i serialized.
        let simd_unit = re ! i
        in slice_apply serialized (i * output_bytes_per_simd_unit) ((i + 1) * output_bytes_per_simd_unit)
             (error_serialize eta simd_unit)) serialized)"

definition ring_error_deserialize :: "eta \<Rightarrow> u8 list \<Rightarrow> dsa_ring_element \<Rightarrow> dsa_ring_element" where
  "ring_error_deserialize eta serialized result =
     (let chunk_size = error_chunk_size eta
      in for_loop 0 32 (\<lambda>i result.
        result[i := error_deserialize eta (subslice serialized (i * chunk_size) ((i + 1) * chunk_size)) (result ! i)]) result)"

definition T0_OUTPUT_BYTES_PER_SIMD_UNIT :: nat where
  "T0_OUTPUT_BYTES_PER_SIMD_UNIT = 13"

definition ring_t0_serialize :: "dsa_ring_element \<Rightarrow> u8 list \<Rightarrow> u8 list" where
  "ring_t0_serialize re serialized =
     for_loop 0 32 (\<lambda>i serialized.
       let simd_unit = re ! i
       in slice_apply serialized (i * T0_OUTPUT_BYTES_PER_SIMD_UNIT) ((i + 1) * T0_OUTPUT_BYTES_PER_SIMD_UNIT)
            (t0_serialize simd_unit)) serialized"

definition ring_t0_deserialize :: "u8 list \<Rightarrow> dsa_ring_element \<Rightarrow> dsa_ring_element" where
  "ring_t0_deserialize serialized result =
     for_loop 0 32 (\<lambda>i result.
       result[i := t0_deserialize
         (subslice serialized (i * T0_OUTPUT_BYTES_PER_SIMD_UNIT) ((i + 1) * T0_OUTPUT_BYTES_PER_SIMD_UNIT)) (result ! i)]) result"

definition T1_SERIALIZE_OUTPUT_BYTES_PER_SIMD_UNIT :: nat where
  "T1_SERIALIZE_OUTPUT_BYTES_PER_SIMD_UNIT = 10"

definition T1_DESERIALIZE_WINDOW :: nat where
  "T1_DESERIALIZE_WINDOW = 10"

definition ring_t1_serialize :: "dsa_ring_element \<Rightarrow> u8 list \<Rightarrow> u8 list" where
  "ring_t1_serialize re serialized =
     for_loop 0 32 (\<lambda>i serialized.
       let simd_unit = re ! i
       in slice_apply serialized (i * T1_SERIALIZE_OUTPUT_BYTES_PER_SIMD_UNIT) ((i + 1) * T1_SERIALIZE_OUTPUT_BYTES_PER_SIMD_UNIT)
            (t1_serialize simd_unit)) serialized"

definition ring_t1_deserialize :: "u8 list \<Rightarrow> dsa_ring_element \<Rightarrow> dsa_ring_element" where
  "ring_t1_deserialize serialized result =
     for_loop 0 32 (\<lambda>i result.
       result[i := t1_deserialize
         (subslice serialized (i * T1_DESERIALIZE_WINDOW) ((i + 1) * T1_DESERIALIZE_WINDOW)) (result ! i)]) result"

subsection \<open>The verification key\<close>

definition verification_key_generate_serialized :: "u8 list \<Rightarrow> dsa_ring_element list \<Rightarrow> u8 list \<Rightarrow> u8 list" where
  "verification_key_generate_serialized seed t1 verification_key_serialized =
     (let verification_key_serialized = slice_copy verification_key_serialized 0 seed
      in for_loop 0 (length t1) (\<lambda>i verification_key_serialized.
        let ring_element = t1 ! i;
            offset = SEED_FOR_A_SIZE + i * RING_ELEMENT_OF_T1S_SIZE
        in slice_apply verification_key_serialized offset (offset + RING_ELEMENT_OF_T1S_SIZE) (ring_t1_serialize ring_element))
        verification_key_serialized)"

definition verification_key_deserialize :: "nat \<Rightarrow> nat \<Rightarrow> u8 list \<Rightarrow> dsa_ring_element list \<Rightarrow> dsa_ring_element list" where
  "verification_key_deserialize rows_in_a key_size serialized t1 =
     for_loop 0 rows_in_a (\<lambda>i t1.
       t1[i := ring_t1_deserialize (subslice serialized (i * RING_ELEMENT_OF_T1S_SIZE) ((i + 1) * RING_ELEMENT_OF_T1S_SIZE)) (t1 ! i)]) t1"

subsection \<open>Packing of whole ring elements\<close>

definition wf_dsa_ring :: "dsa_ring_element \<Rightarrow> bool" where
  "wf_dsa_ring re \<longleftrightarrow> length re = 32 \<and> list_all (\<lambda>v. length v = 8) re"

lemma wf_dsa_ring_nth: "wf_dsa_ring re \<Longrightarrow> i < 32 \<Longrightarrow> length (re ! i) = 8"
  by (simp add: wf_dsa_ring_def list_all_length)

lemma length_concat_ring: "wf_dsa_ring re \<Longrightarrow> length (concat re) = 256"
  using length_concat_uniform [of re 8] by (simp add: wf_dsa_ring_def list_all_iff)

lemma chunks_concat_ring: "wf_dsa_ring re \<Longrightarrow> chunks 8 (concat re) = re"
  using chunks_concat [of 8 re "\<lambda>v. v"] by (simp add: wf_dsa_ring_def list_all_iff)

lemma wf_chunks: "length xs = 256 \<Longrightarrow> wf_dsa_ring (chunks 8 xs)"
  using length_chunks [of 8 xs 32] chunks_member_length [of 8 xs 32] by (auto simp: wf_dsa_ring_def list_all_iff)

lemma stream_concat:
  "byte_stream (concat bss) = concat (map byte_stream bss)" "coeff_stream d (concat xss) = concat (map (coeff_stream d) xss)"
  by (induction bss, simp_all add: byte_stream_def, induction xss, simp_all add: coeff_stream_def)

lemma concat_nths: "length xs = n \<Longrightarrow> concat (map (\<lambda>i. g (xs ! i)) [0..<n]) = concat (map g xs)"
  using map_nth_upt [of g xs] by simp

context bit_pack
begin

abbreviation encode :: "int list \<Rightarrow> u8 list" where
  "encode xs \<equiv> byte_encode d (map f xs)"

abbreviation decode :: "u8 list \<Rightarrow> int list" where
  "decode bs \<equiv> map f (byte_decode d bs)"

lemma encode_stream: "length v = 8 \<Longrightarrow> coeffs_in d (map f v) \<Longrightarrow> byte_stream (encode v) = coeff_stream d (map f v)"
  using ser_stream [of v "replicate d 0"] ser_eq_encode [of v "replicate d 0"] by simp

lemma encode_length: "length v = 8 \<Longrightarrow> coeffs_in d (map f v) \<Longrightarrow> length (encode v) = d"
  using ser_length [of v "replicate d 0"] ser_eq_encode [of v "replicate d 0"] by simp

lemma decode_facts:
  assumes "length bs = d"
  shows "length (byte_decode d bs) = 8" and "coeffs_in d (byte_decode d bs)" and "coeff_stream d (byte_decode d bs) = byte_stream bs"
  using deser_length [OF assms, of "replicate 8 0"] deser_range [OF assms, of "replicate 8 0"] deser_stream [OF assms, of "replicate 8 0"]
    deser_eq_decode [OF assms, of "replicate 8 0"] map_f_f [of "byte_decode d bs"] by simp_all

lemma ring_unit: "wf_dsa_ring re \<Longrightarrow> coeffs_in d (map f (concat re)) \<Longrightarrow> v \<in> set re \<Longrightarrow> length v = 8 \<and> coeffs_in d (map f v)"
  by (auto simp: wf_dsa_ring_def list_all_iff coeffs_in_def)

lemma encode_concat:
  assumes "wf_dsa_ring re" and "coeffs_in d (map f (concat re))"
  shows "concat (map encode re) = encode (concat re)" and "length (encode (concat re)) = 32 * d"
    and "byte_stream (encode (concat re)) = coeff_stream d (map f (concat re))"
proof -
  have "byte_stream (concat (map encode re)) = concat (map (coeff_stream d \<circ> map f) re)"
    using ring_unit [OF assms] encode_stream by (simp add: stream_concat comp_def cong: map_cong)
  also have "\<dots> = coeff_stream d (map f (concat re))" by (simp add: map_concat stream_concat)
  finally have s: "byte_stream (concat (map encode re)) = coeff_stream d (map f (concat re))" .
  then show e: "concat (map encode re) = encode (concat re)" by (rule byte_encode_unique [symmetric])
  show "byte_stream (encode (concat re)) = coeff_stream d (map f (concat re))" using s e by simp
  have "length (encode v) = d" if "v \<in> set re" for v using ring_unit [OF assms that] encode_length by simp
  then have "length (concat (map encode re)) = length re * d" using length_concat_uniform [of "map encode re" d] by auto
  then show "length (encode (concat re)) = 32 * d" using assms(1) by (simp add: e wf_dsa_ring_def)
qed

lemma ring_ser:
  assumes "wf_dsa_ring re" and "coeffs_in d (map f (concat re))" and "length s = 32 * d"
  shows "for_loop 0 32 (\<lambda>i s. slice_apply s (i * d) ((i + 1) * d) (ser (re ! i))) s = encode (concat re)"
proof -
  have u: "length (re ! i) = 8 \<and> coeffs_in d (map f (re ! i))" if "i < 32" for i
    using ring_unit [OF assms(1,2), of "re ! i"] assms(1) that by (simp add: wf_dsa_ring_def)
  have "for_loop 0 32 (\<lambda>i s. slice_apply s (i * d) ((i + 1) * d) (ser (re ! i))) s = concat (map (\<lambda>i. encode (re ! i)) [0..<32])"
    using u ser_eq_encode encode_length assms(3) by (intro for_loop_slice_apply_0) auto
  then show ?thesis using encode_concat [OF assms(1,2)] concat_nths [of re 32 encode] assms(1) by (simp add: wf_dsa_ring_def)
qed

lemma decode_concat:
  assumes "length bs = 32 * d"
  shows "concat (map decode (chunks d bs)) = decode bs" and "length (byte_decode d bs) = 256" and "coeffs_in d (byte_decode d bs)"
    and "coeff_stream d (byte_decode d bs) = byte_stream bs"
proof -
  have m: "length c = d" if "c \<in> set (chunks d bs)" for c using chunks_member_length [OF width_pos assms that] .
  let ?x = "concat (map (byte_decode d) (chunks d bs))"
  have "coeff_stream d ?x = concat (map byte_stream (chunks d bs))"
    using m decode_facts(3) by (simp add: stream_concat comp_def cong: map_cong)
  also have "\<dots> = byte_stream bs" by (simp flip: stream_concat add: concat_chunks [OF width_pos])
  finally have s: "coeff_stream d ?x = byte_stream bs" .
  have r: "coeffs_in d ?x" using m decode_facts(2) by (fastforce simp: coeffs_in_def list_all_iff)
  note e = byte_decode_unique [OF s r width_pos]
  show "concat (map decode (chunks d bs)) = decode bs" by (simp add: e map_concat comp_def)
  show "coeffs_in d (byte_decode d bs)" "coeff_stream d (byte_decode d bs) = byte_stream bs" using r s e by simp_all
  have "length ?x = length (chunks d bs) * 8" using length_concat_uniform [of "map (byte_decode d) (chunks d bs)" 8] m decode_facts(1) by auto
  then show "length (byte_decode d bs) = 256" using length_chunks [OF width_pos assms] by (simp add: e)
qed

lemma ring_deser:
  assumes "length bs = 32 * d" and "wf_dsa_ring re"
  shows "for_loop 0 32 (\<lambda>i re. re[i := deser (subslice bs (i * d) ((i + 1) * d)) (re ! i)]) re = chunks 8 (decode bs)"
proof -
  have l: "length re = 32" using assms(2) by (simp add: wf_dsa_ring_def)
  have m: "length c = d" if "c \<in> set (chunks d bs)" for c using chunks_member_length [OF width_pos assms(1) that] .
  have c: "chunks d bs = map (\<lambda>i. subslice bs (i * d) ((i + 1) * d)) [0..<32]"
    using chunks_subslices [OF width_pos assms(1)] by (simp add: add.commute)
  have "for_loop 0 32 (\<lambda>i re. re[i := deser (subslice bs (i * d) ((i + 1) * d)) (re ! i)]) re
      = map (\<lambda>i. deser (subslice bs (i * d) ((i + 1) * d)) (re ! i)) [0..<32]"
    using for_loop_update [of 32 re "\<lambda>i v. deser (subslice bs (i * d) ((i + 1) * d)) v"] l by simp
  also have "\<dots> = map (\<lambda>i. decode (subslice bs (i * d) ((i + 1) * d))) [0..<32]"
  proof (rule map_cong [OF refl])
    fix i assume i: "i \<in> set [0..<32]"
    then have "subslice bs (i * d) ((i + 1) * d) \<in> set (chunks d bs)" unfolding c by simp
    from m [OF this] show "deser (subslice bs (i * d) ((i + 1) * d)) (re ! i) = decode (subslice bs (i * d) ((i + 1) * d))"
      using i wf_dsa_ring_nth [OF assms(2)] by (intro deser_eq_decode) simp_all
  qed
  also have "\<dots> = map decode (chunks d bs)" by (simp add: c)
  also have "\<dots> = chunks 8 (concat (map decode (chunks d bs)))" using m decode_facts(1) by (intro chunks_concat [symmetric]) auto
  finally show ?thesis by (simp add: decode_concat(1) [OF assms(1)])
qed

lemma decode_encode:
  assumes "wf_dsa_ring re" and "coeffs_in d (map f (concat re))"
  shows "chunks 8 (decode (encode (concat re))) = re"
proof -
  have "byte_decode d (encode (concat re)) = map f (concat re)"
    using encode_concat(3) [OF assms] assms(2) width_pos by (intro byte_decode_unique) simp_all
  then show ?thesis by (simp add: involution comp_def chunks_concat_ring [OF assms(1)])
qed

lemma encode_decode:
  assumes "length bs = 32 * d"
  shows "encode (concat (chunks 8 (decode bs))) = bs" and "wf_dsa_ring (chunks 8 (decode bs))"
    and "coeffs_in d (map f (concat (chunks 8 (decode bs))))"
  using decode_concat [OF assms] by (simp_all add: concat_chunks involution comp_def byte_encode_unique wf_chunks)

end

subsection \<open>The serializers of ring elements\<close>

lemma from_i32_array_eq:
  assumes "length a = 256" and "wf_dsa_ring re"
  shows "from_i32_array a re = chunks 8 a"
proof -
  have l: "length re = 32" using assms(2) by (simp add: wf_dsa_ring_def)
  have "from_i32_array a re
      = map (\<lambda>i. slice_copy (re ! i) 0 (subslice (subslice a (i * 8) ((i + 1) * 8)) 0 8)) [0..<32]"
    unfolding from_i32_array_def SIMD_UNITS_IN_RING_ELEMENT_def COEFFICIENTS_IN_SIMD_UNIT_def from_coefficient_array_def
    using for_loop_update [of 32 re "\<lambda>i v. slice_copy v 0 (subslice (subslice a (i * 8) ((i + 1) * 8)) 0 8)"] l by simp
  also have "\<dots> = map (\<lambda>i. subslice a (i * 8) (i * 8 + 8)) [0..<32]"
    using assms(1) wf_dsa_ring_nth [OF assms(2)] by (intro map_cong) (auto simp: slice_copy_def subslice_def add.commute)
  finally show ?thesis using chunks_subslices [of 8 a 32] assms(1) by simp
qed

lemma to_i32_array_eq:
  assumes "wf_dsa_ring re"
  shows "to_i32_array re = concat re"
proof -
  have "to_i32_array re = concat (map (\<lambda>i. re ! i) [0..<32])"
    unfolding to_i32_array_def COEFFICIENTS_IN_SIMD_UNIT_def
    using wf_dsa_ring_nth [OF assms] by (intro for_loop_slice_apply_0) (auto simp: to_coefficient_array_def slice_copy_def)
  then show ?thesis using map_nth [of re] assms by (simp add: wf_dsa_ring_def)
qed

text \<open>The two mask ranges behave alike; their packings differ only in the exponent.\<close>

definition gamma1_ser :: "nat \<Rightarrow> coefficients \<Rightarrow> u8 list \<Rightarrow> u8 list" where
  "gamma1_ser e = (if e = 17 then gamma1_serialize_when_gamma1_is_2_pow_17 else gamma1_serialize_when_gamma1_is_2_pow_19)"

definition gamma1_deser :: "nat \<Rightarrow> u8 list \<Rightarrow> coefficients \<Rightarrow> coefficients" where
  "gamma1_deser e = (if e = 17 then gamma1_deserialize_when_gamma1_is_2_pow_17 else gamma1_deserialize_when_gamma1_is_2_pow_19)"

lemma gamma1_pack: "e = 17 \<or> e = 19 \<Longrightarrow> bit_pack (e + 1) (\<lambda>c. 2 ^ e - c) (gamma1_ser e) (gamma1_deser e)"
  using pack_gamma1_17.bit_pack_axioms pack_gamma1_19.bit_pack_axioms by (auto simp: gamma1_ser_def gamma1_deser_def)

lemma gamma1_no_abort:
  "e = 17 \<or> e = 19 \<Longrightarrow> gamma1_serialize v s e = Some (gamma1_ser e v s)"
  "e = 17 \<or> e = 19 \<Longrightarrow> gamma1_deserialize bs v e = Some (gamma1_deser e bs v)"
  by (auto simp: gamma1_ser_def gamma1_deser_def or_aborts)

abbreviation gamma1_encode :: "nat \<Rightarrow> int list \<Rightarrow> u8 list" where
  "gamma1_encode e xs \<equiv> byte_encode (e + 1) (map (\<lambda>c. 2 ^ e - c) xs)"

abbreviation gamma1_decode :: "nat \<Rightarrow> u8 list \<Rightarrow> int list" where
  "gamma1_decode e bs \<equiv> map (\<lambda>c. 2 ^ e - c) (byte_decode (e + 1) bs)"

abbreviation gamma1_range :: "nat \<Rightarrow> int list \<Rightarrow> bool" where
  "gamma1_range e xs \<equiv> coeffs_in (e + 1) (map (\<lambda>c. 2 ^ e - c) xs)"

lemma ring_gamma1_serialize_eq:
  assumes "e = 17 \<or> e = 19" and "wf_dsa_ring re" and "gamma1_range e (concat re)" and "length s = 32 * (e + 1)"
  shows "ring_gamma1_serialize re s e = Some (gamma1_encode e (concat re))"
proof -
  have "ring_gamma1_serialize re s e = Some (for_loop 0 32 (\<lambda>i s. slice_apply s (i * (e + 1)) ((i + 1) * (e + 1)) (gamma1_ser e (re ! i))) s)"
    unfolding ring_gamma1_serialize_def Let_def by (intro for_option_Some slice_apply_option_Some gamma1_no_abort(1) assms(1))
  then show ?thesis using bit_pack.ring_ser [OF gamma1_pack [OF assms(1)] assms(2,3,4)] by simp
qed

lemma ring_gamma1_deserialize_eq:
  assumes "e = 17 \<or> e = 19" and "length bs = 32 * (e + 1)" and "wf_dsa_ring re"
  shows "ring_gamma1_deserialize e bs re = Some (chunks 8 (gamma1_decode e bs))"
proof -
  have "ring_gamma1_deserialize e bs re = Some (for_loop 0 32 (\<lambda>i re. re[i := gamma1_deser e (subslice bs (i * (e + 1)) ((i + 1) * (e + 1))) (re ! i)]) re)"
    unfolding ring_gamma1_deserialize_def by (intro for_option_Some) (simp add: gamma1_no_abort(2) [OF assms(1)])
  then show ?thesis using bit_pack.ring_deser [OF gamma1_pack [OF assms(1)] assms(2,3)] by simp
qed

lemmas gamma1_decode_encode = bit_pack.decode_encode [OF gamma1_pack]
lemmas gamma1_encode_decode = bit_pack.encode_decode [OF gamma1_pack]
lemmas gamma1_encode_length = bit_pack.encode_concat(2) [OF gamma1_pack]

lemma ring_t1_serialize_eq:
  assumes "wf_dsa_ring re" and "coeffs_in 10 (concat re)" and "length s = 320"
  shows "ring_t1_serialize re s = byte_encode 10 (concat re)"
  using pack_t1.ring_ser [of re s] assms by (simp add: ring_t1_serialize_def T1_SERIALIZE_OUTPUT_BYTES_PER_SIMD_UNIT_def)

lemma ring_t1_deserialize_eq:
  assumes "length bs = 320" and "wf_dsa_ring re"
  shows "ring_t1_deserialize bs re = chunks 8 (byte_decode 10 bs)"
  using pack_t1.ring_deser [of bs re] assms by (simp add: ring_t1_deserialize_def T1_DESERIALIZE_WINDOW_def)

lemma ring_t0_serialize_eq:
  assumes "wf_dsa_ring re" and "coeffs_in 13 (map (\<lambda>c. 4096 - c) (concat re))" and "length s = 416"
  shows "ring_t0_serialize re s = byte_encode 13 (map (\<lambda>c. 4096 - c) (concat re))"
  using pack_t0.ring_ser [of re s] assms by (simp add: ring_t0_serialize_def T0_OUTPUT_BYTES_PER_SIMD_UNIT_def)

lemma ring_t0_deserialize_eq:
  assumes "length bs = 416" and "wf_dsa_ring re"
  shows "ring_t0_deserialize bs re = chunks 8 (map (\<lambda>c. 4096 - c) (byte_decode 13 bs))"
  using pack_t0.ring_deser [of bs re] assms by (simp add: ring_t0_deserialize_def T0_OUTPUT_BYTES_PER_SIMD_UNIT_def)

lemma error_cases:
  "error_serialize Eta_Two v = error_serialize_when_eta_is_2 v" "error_serialize Eta_Four v = error_serialize_when_eta_is_4 v"
  "error_deserialize Eta_Two = error_deserialize_when_eta_is_2" "error_deserialize Eta_Four = error_deserialize_when_eta_is_4"
  by (simp_all add: fun_eq_iff error_serialize_def error_deserialize_def)

lemma ring_error_two_eq:
  assumes "wf_dsa_ring re" and "length bs = 96"
  shows "coeffs_in 3 (map (\<lambda>c. 2 - c) (concat re)) \<Longrightarrow> ring_error_serialize Eta_Two re bs = byte_encode 3 (map (\<lambda>c. 2 - c) (concat re))"
    and "ring_error_deserialize Eta_Two bs re = chunks 8 (map (\<lambda>c. 2 - c) (byte_decode 3 bs))"
  using pack_error_2.ring_ser [OF assms(1), of bs] pack_error_2.ring_deser [OF _ assms(1), of bs] assms(2)
  by (simp_all add: ring_error_serialize_def ring_error_deserialize_def error_chunk_size_def error_cases)

lemma ring_error_four_eq:
  assumes "wf_dsa_ring re" and "length bs = 128"
  shows "coeffs_in 4 (map (\<lambda>c. 4 - c) (concat re)) \<Longrightarrow> ring_error_serialize Eta_Four re bs = byte_encode 4 (map (\<lambda>c. 4 - c) (concat re))"
    and "ring_error_deserialize Eta_Four bs re = chunks 8 (map (\<lambda>c. 4 - c) (byte_decode 4 bs))"
  using pack_error_4.ring_ser [OF assms(1), of bs] pack_error_4.ring_deser [OF _ assms(1), of bs] assms(2)
  by (simp_all add: ring_error_serialize_def ring_error_deserialize_def error_chunk_size_def error_cases)

lemma ring_commitment_serialize_eq:
  assumes "wf_dsa_ring re" and "n = 4 \<or> n = 6" and "coeffs_in n (concat re)" and "length s = 32 * n"
  shows "ring_commitment_serialize re s = Some (concat (map (byte_encode n) re))"
    and "length (concat (map (byte_encode n) re)) = 32 * n"
proof -
  have r: "length re = 32" using assms(1) by (simp add: wf_dsa_ring_def)
  have u: "length (re ! i) = 8" "coeffs_in n (re ! i)" if "i < 32" for i
    using wf_dsa_ring_nth [OF assms(1) that] assms(1,3) that by (auto simp: wf_dsa_ring_def coeffs_in_def list_all_iff)
  have l: "length (byte_encode n (re ! i)) = n" if "i < 32" for i
    using u [OF that] commitment_serialize_eq [of "re ! i" "replicate n 0" n] assms(2)
    by (auto simp: commitment_serialize_def serialize_lengths dest: sym)
  have "for_option 0 32 (\<lambda>i s. slice_apply_option s (0 + i * n) (0 + i * n + n) (commitment_serialize (re ! i))) s
      = Some (take 0 s @ concat (map (\<lambda>i. byte_encode n (re ! i)) [0..<32]) @ drop (0 + 32 * n) s)"
    using u l assms(2,4) by (intro for_option_slice_apply commitment_serialize_eq) auto
  then show "ring_commitment_serialize re s = Some (concat (map (byte_encode n) re))"
    using concat_nths [OF r, of "byte_encode n"] assms(4) by (simp add: ring_commitment_serialize_def add.commute)
  show "length (concat (map (byte_encode n) re)) = 32 * n"
    using length_concat_blocks [of 32 "\<lambda>i. byte_encode n (re ! i)" n] l concat_nths [OF r, of "byte_encode n"] by simp
qed

lemma commitment_serialize_vector_eq:
  assumes "\<And>re. re \<in> set vector \<Longrightarrow> wf_dsa_ring re \<and> coeffs_in n (concat re)" and "n = 4 \<or> n = 6" and "length s = length vector * (32 * n)"
  shows "commitment_serialize_vector (32 * n) vector s = Some (concat (map (\<lambda>re. concat (map (byte_encode n) re)) vector))"
proof -
  let ?g = "\<lambda>re. concat (map (byte_encode n) re)"
  note e = ring_commitment_serialize_eq(1) [OF _ assms(2)] ring_commitment_serialize_eq(2) [OF _ assms(2), of _ "replicate (32 * n) 0"]
  have "for_option 0 (length vector) (\<lambda>i s. slice_apply_option s (0 + i * (32 * n)) (0 + i * (32 * n) + 32 * n) (ring_commitment_serialize (vector ! i))) s
      = Some (take 0 s @ concat (map (\<lambda>i. ?g (vector ! i)) [0..<length vector]) @ drop (0 + length vector * (32 * n)) s)"
    using e assms(1,3) by (intro for_option_slice_apply) auto
  then show ?thesis
    using for_option_offset [of "length vector" "32 * n" "\<lambda>i off s. slice_apply_option s off (off + 32 * n) (ring_commitment_serialize (vector ! i))" s 0]
      concat_nths [of vector "length vector" ?g] assms(3)
    by (simp add: commitment_serialize_vector_def Let_def)
qed

subsection \<open>The verification key\<close>

lemma t1_size: "RING_ELEMENT_OF_T1S_SIZE = 320" "SEED_FOR_A_SIZE = 32"
  by (simp_all add: RING_ELEMENT_OF_T1S_SIZE_def BITS_IN_UPPER_PART_OF_T_def FIELD_MODULUS_MINUS_ONE_BIT_LENGTH_def
      BITS_IN_LOWER_PART_OF_T_def DSA_COEFFICIENTS_IN_RING_ELEMENT_def SEED_FOR_A_SIZE_def)

lemma verification_key_generate_eq:
  assumes "length seed = 32" and "\<And>re. re \<in> set t1 \<Longrightarrow> wf_dsa_ring re \<and> coeffs_in 10 (concat re)" and "length key = 32 + length t1 * 320"
  shows "verification_key_generate_serialized seed t1 key = seed @ concat (map (\<lambda>re. byte_encode 10 (concat re)) t1)"
proof -
  have "for_loop 0 (length t1) (\<lambda>i key. slice_apply key (32 + i * 320) (32 + i * 320 + 320) (ring_t1_serialize (t1 ! i))) (slice_copy key 0 seed)
      = take 32 (slice_copy key 0 seed) @ concat (map (\<lambda>i. byte_encode 10 (concat (t1 ! i))) [0..<length t1]) @ drop (32 + length t1 * 320) (slice_copy key 0 seed)"
    using assms ring_t1_serialize_eq pack_t1.encode_concat(2) by (intro for_loop_slice_apply) auto
  also have "\<dots> = seed @ concat (map (\<lambda>re. byte_encode 10 (concat re)) t1)"
    using assms(1,3) concat_nths [of t1 "length t1" "\<lambda>re. byte_encode 10 (concat re)"] by (simp add: slice_copy_def)
  finally show ?thesis by (simp add: verification_key_generate_serialized_def t1_size Let_def)
qed

lemma verification_key_deserialize_eq:
  assumes "length bs = rows * 320" and "length t1 = rows" and "list_all wf_dsa_ring t1"
  shows "verification_key_deserialize rows n bs t1 = map (\<lambda>c. chunks 8 (byte_decode 10 c)) (chunks 320 bs)"
proof -
  have "verification_key_deserialize rows n bs t1
      = map (\<lambda>i. ring_t1_deserialize (subslice bs (i * 320) ((i + 1) * 320)) (t1 ! i)) [0..<rows]"
    unfolding verification_key_deserialize_def t1_size
    using for_loop_update [of rows t1 "\<lambda>i v. ring_t1_deserialize (subslice bs (i * 320) ((i + 1) * 320)) v"] assms(2) by simp
  also have "\<dots> = map (\<lambda>i. chunks 8 (byte_decode 10 (subslice bs (i * 320) (i * 320 + 320)))) [0..<rows]"
    using assms by (intro map_cong) (auto simp: list_all_length intro!: ring_t1_deserialize_eq simp: add.commute)
  finally show ?thesis using chunks_subslices [of 320 bs rows] assms(1) by simp
qed

lemma verification_key_size_eq: "verification_key_size rows = 32 + rows * 320"
  by (simp add: verification_key_size_def t1_size FIELD_MODULUS_MINUS_ONE_BIT_LENGTH_def BITS_IN_LOWER_PART_OF_T_def
      DSA_COEFFICIENTS_IN_RING_ELEMENT_def)

subsection \<open>The properties of the component\<close>

text \<open>
  C32. The verification key: serializing a seed and a vector of ring elements with ten-bit coefficients fills a buffer of the key size
  whose first 32 bytes are the seed and whose rest deserializes to the same vector; conversely every byte string of the key size
  is the serialization of its seed and of the vector it deserializes to, so the encoding is a bijection.
\<close>

theorem dsa_verification_key_roundtrip:
  assumes "length seed = 32" and "length t1 = rows" and "list_all (\<lambda>re. wf_dsa_ring re \<and> coeffs_in 10 (concat re)) t1"
    and "length out = rows" and "list_all wf_dsa_ring out"
    and "length buffer = verification_key_size rows" and "length key = verification_key_size rows"
  shows "take 32 (verification_key_generate_serialized seed t1 buffer) = seed
    \<and> length (verification_key_generate_serialized seed t1 buffer) = verification_key_size rows
    \<and> verification_key_deserialize rows (verification_key_size rows) (drop 32 (verification_key_generate_serialized seed t1 buffer)) out = t1
    \<and> verification_key_generate_serialized (take 32 key)
        (verification_key_deserialize rows (verification_key_size rows) (drop 32 key) out) buffer = key"
proof -
  let ?e = "\<lambda>re. byte_encode 10 (concat re)" and ?d = "\<lambda>c. chunks 8 (byte_decode 10 c)"
  have t1: "wf_dsa_ring re" "coeffs_in 10 (concat re)" "length (?e re) = 320" "?d (?e re) = re" if "re \<in> set t1" for re
    using that assms(3) pack_t1.encode_concat(2) [of re] pack_t1.decode_encode [of re] by (auto simp: list_all_iff)
  note k = verification_key_generate_eq [OF assms(1), of t1 buffer]
  have g: "verification_key_generate_serialized seed t1 buffer = seed @ concat (map ?e t1)"
    using k t1 assms(2,6) by (simp add: verification_key_size_eq)
  have l: "length (concat (map ?e t1)) = rows * 320" using length_concat_uniform [of "map ?e t1" 320] t1(3) assms(2) by auto
  have "chunks 320 (concat (map ?e t1)) = map ?e t1" using t1(3) by (intro chunks_concat) auto
  then have "verification_key_deserialize rows (verification_key_size rows) (concat (map ?e t1)) out = t1"
    using l assms(4,5) t1(4) by (simp add: verification_key_deserialize_eq comp_def map_idI)
  moreover have "verification_key_generate_serialized (take 32 key)
      (verification_key_deserialize rows (verification_key_size rows) (drop 32 key) out) buffer = key"
  proof -
    have c: "length (drop 32 key) = rows * 320" using assms(7) by (simp add: verification_key_size_eq)
    note m = chunks_member_length [OF _ c]
    have d: "?e (?d b) = b" "wf_dsa_ring (?d b)" "coeffs_in 10 (concat (?d b))" if "b \<in> set (chunks 320 (drop 32 key))" for b
      using pack_t1.encode_decode [of b] m [OF _ that] by simp_all
    have "verification_key_generate_serialized (take 32 key) (map ?d (chunks 320 (drop 32 key))) buffer
        = take 32 key @ concat (map ?e (map ?d (chunks 320 (drop 32 key))))"
      using d assms(6,7) length_chunks [OF _ c] by (intro verification_key_generate_eq) (auto simp: verification_key_size_eq)
    also have "map ?e (map ?d (chunks 320 (drop 32 key))) = chunks 320 (drop 32 key)" using d(1) by (simp add: map_idI)
    finally show ?thesis by (simp add: verification_key_deserialize_eq [OF c assms(4,5)] concat_chunks)
  qed
  ultimately show ?thesis using assms(1) l by (simp add: g verification_key_size_eq)
qed

theorem dsa_verification_key_roundtrip_witness:
  "take 32 (verification_key_generate_serialized (replicate 32 7) (replicate 4 (replicate 32 (replicate 8 1023))) (replicate 1312 0)) = replicate 32 7
   \<and> verification_key_deserialize 4 1312 (drop 32
       (verification_key_generate_serialized (replicate 32 7) (replicate 4 (replicate 32 (replicate 8 1023))) (replicate 1312 0)))
       (replicate 4 dsa_polynomial_zero) = replicate 4 (replicate 32 (replicate 8 1023))"
  using dsa_verification_key_roundtrip [of "replicate 32 7" "replicate 4 (replicate 32 (replicate 8 1023))" 4
      "replicate 4 dsa_polynomial_zero" "replicate 1312 0" "replicate 1312 0"]
  by (simp add: list_all_iff wf_dsa_ring_def coeffs_in_def dsa_polynomial_zero_def dsa_zero_def verification_key_size_eq)

end
