(* ===== verification/MLDSA_NTT.thy ===== *)
theory MLDSA_NTT
  imports MLDSA_RingEncoding Libcrux_Layers
begin

section \<open>ML-DSA: number-theoretic transform\<close>

text \<open>
  The forward and the inverse transform on the 32 vectors of a ring element: \<open>libcrux_mldsa_core.c\<close> lines 1718--3946. The code has one
  monomorphic copy of \<open>outer_3_plus\<close> per block; here it is one definition with the const generics \<open>OFFSET\<close>,
  \<open>STEP_BY\<close> and \<open>ZETA\<close> as arguments, and a layer is the sequence of its calls, as a \<open>fold\<close> over their arguments. The layers 2, 1
  and 0 work inside the vectors and are sequences of calls of a round function.

  The second half brings each layer to the flat list of 256 coefficients.
\<close>

subsection \<open>The forward transform\<close>

definition ntt_outer_3_plus_round :: "dsa_ring_element \<Rightarrow> nat \<Rightarrow> nat \<Rightarrow> i32 \<Rightarrow> dsa_ring_element" where
  "ntt_outer_3_plus_round re index step_by zeta =
     (let tmp = re ! (index + step_by);
          tmp = dsa_montgomery_multiply_by_constant tmp zeta;
          re = re[index + step_by := re ! index];
          re = re[index + step_by := dsa_subtract (re ! (index + step_by)) tmp];
          re = re[index := dsa_add (re ! index) tmp]
      in re)"

definition ntt_outer_3_plus :: "nat \<Rightarrow> nat \<Rightarrow> i32 \<Rightarrow> dsa_ring_element \<Rightarrow> dsa_ring_element" where
  "ntt_outer_3_plus OFFSET STEP_BY ZETA re =
     for_loop OFFSET (OFFSET + STEP_BY) (\<lambda>j re. ntt_outer_3_plus_round re j STEP_BY ZETA) re"

definition dsa_ntt_at_layer_7 :: "dsa_ring_element \<Rightarrow> dsa_ring_element" where
  "dsa_ntt_at_layer_7 re =
     fold (\<lambda>(OFFSET, ZETA). ntt_outer_3_plus OFFSET 16 ZETA)
       [(0, 25847)] re"

definition dsa_ntt_at_layer_6 :: "dsa_ring_element \<Rightarrow> dsa_ring_element" where
  "dsa_ntt_at_layer_6 re =
     fold (\<lambda>(OFFSET, ZETA). ntt_outer_3_plus OFFSET 8 ZETA)
       [(0, - 2608894), (16, - 518909)] re"

definition dsa_ntt_at_layer_5 :: "dsa_ring_element \<Rightarrow> dsa_ring_element" where
  "dsa_ntt_at_layer_5 re =
     fold (\<lambda>(OFFSET, ZETA). ntt_outer_3_plus OFFSET 4 ZETA)
       [(0, 237124), (8, - 777960), (16, - 876248), (24, 466468)] re"

definition dsa_ntt_at_layer_4 :: "dsa_ring_element \<Rightarrow> dsa_ring_element" where
  "dsa_ntt_at_layer_4 re =
     fold (\<lambda>(OFFSET, ZETA). ntt_outer_3_plus OFFSET 2 ZETA)
       [(0, 1826347), (4, 2353451), (8, - 359251), (12, - 2091905), (16, 3119733), (20, - 2884855), (24, 3111497), (28, 2680103)] re"

definition dsa_ntt_at_layer_3 :: "dsa_ring_element \<Rightarrow> dsa_ring_element" where
  "dsa_ntt_at_layer_3 re =
     fold (\<lambda>(OFFSET, ZETA). ntt_outer_3_plus OFFSET 1 ZETA)
       [(0, 2725464), (2, 1024112), (4, - 1079900), (6, 3585928), (8, - 549488), (10, - 1119584), (12, 2619752), (14, - 2108549),
        (16, - 2118186), (18, - 3859737), (20, - 1399561), (22, - 3277672), (24, 1757237), (26, - 19422), (28, 4010497), (30, 280005)] re"

definition dsa_montgomery_multiply_fe_by_fer :: "i32 \<Rightarrow> i32 \<Rightarrow> i32" where
  "dsa_montgomery_multiply_fe_by_fer fe fer = dsa_montgomery_reduce_element (as_i64 (fe * fer))"

definition simd_unit_ntt_step :: "coefficients \<Rightarrow> i32 \<Rightarrow> nat \<Rightarrow> nat \<Rightarrow> coefficients" where
  "simd_unit_ntt_step simd_unit zeta index step =
     (let t = dsa_montgomery_multiply_fe_by_fer (simd_unit ! (index + step)) zeta;
          simd_unit = simd_unit[index + step := as_i32 (simd_unit ! index - t)];
          simd_unit = simd_unit[index := as_i32 (simd_unit ! index + t)]
      in simd_unit)"

definition simd_unit_ntt_at_layer_2 :: "coefficients \<Rightarrow> i32 \<Rightarrow> coefficients" where
  "simd_unit_ntt_at_layer_2 simd_unit zeta =
     (let simd_unit = simd_unit_ntt_step simd_unit zeta 0 4;
          simd_unit = simd_unit_ntt_step simd_unit zeta 1 4;
          simd_unit = simd_unit_ntt_step simd_unit zeta 2 4;
          simd_unit = simd_unit_ntt_step simd_unit zeta 3 4
      in simd_unit)"

definition ntt_at_layer_2_round :: "dsa_ring_element \<Rightarrow> nat \<Rightarrow> i32 \<Rightarrow> dsa_ring_element" where
  "ntt_at_layer_2_round re index zeta = re[index := simd_unit_ntt_at_layer_2 (re ! index) zeta]"

definition dsa_ntt_at_layer_2 :: "dsa_ring_element \<Rightarrow> dsa_ring_element" where
  "dsa_ntt_at_layer_2 re =
     fold (\<lambda>(index, zeta) re. ntt_at_layer_2_round re index zeta)
       [(0, 2706023), (1, 95776), (2, 3077325), (3, 3530437), (4, - 1661693), (5, - 3592148),
        (6, - 2537516), (7, 3915439), (8, - 3861115), (9, - 3043716), (10, 3574422), (11, - 2867647),
        (12, 3539968), (13, - 300467), (14, 2348700), (15, - 539299), (16, - 1699267), (17, - 1643818),
        (18, 3505694), (19, - 3821735), (20, 3507263), (21, - 2140649), (22, - 1600420), (23, 3699596),
        (24, 811944), (25, 531354), (26, 954230), (27, 3881043), (28, 3900724), (29, - 2556880),
        (30, 2071892), (31, - 2797779)] re"

definition simd_unit_ntt_at_layer_1 :: "coefficients \<Rightarrow> i32 \<Rightarrow> i32 \<Rightarrow> coefficients" where
  "simd_unit_ntt_at_layer_1 simd_unit zeta1 zeta2 =
     (let simd_unit = simd_unit_ntt_step simd_unit zeta1 0 2;
          simd_unit = simd_unit_ntt_step simd_unit zeta1 1 2;
          simd_unit = simd_unit_ntt_step simd_unit zeta2 4 2;
          simd_unit = simd_unit_ntt_step simd_unit zeta2 5 2
      in simd_unit)"

definition ntt_at_layer_1_round :: "dsa_ring_element \<Rightarrow> nat \<Rightarrow> i32 \<Rightarrow> i32 \<Rightarrow> dsa_ring_element" where
  "ntt_at_layer_1_round re index zeta_0 zeta_1 = re[index := simd_unit_ntt_at_layer_1 (re ! index) zeta_0 zeta_1]"

definition dsa_ntt_at_layer_1 :: "dsa_ring_element \<Rightarrow> dsa_ring_element" where
  "dsa_ntt_at_layer_1 re =
     fold (\<lambda>(index, zeta_0, zeta_1) re. ntt_at_layer_1_round re index zeta_0 zeta_1)
       [(0, - 3930395, - 1528703), (1, - 3677745, - 3041255), (2, - 1452451, 3475950), (3, 2176455, - 1585221),
        (4, - 1257611, 1939314), (5, - 4083598, - 1000202), (6, - 3190144, - 3157330), (7, - 3632928, 126922),
        (8, 3412210, - 983419), (9, 2147896, 2715295), (10, - 2967645, - 3693493), (11, - 411027, - 2477047),
        (12, - 671102, - 1228525), (13, - 22981, - 1308169), (14, - 381987, 1349076), (15, 1852771, - 1430430),
        (16, - 3343383, 264944), (17, 508951, 3097992), (18, 44288, - 1100098), (19, 904516, 3958618),
        (20, - 3724342, - 8578), (21, 1653064, - 3249728), (22, 2389356, - 210977), (23, 759969, - 1316856),
        (24, 189548, - 3553272), (25, 3159746, - 1851402), (26, - 2409325, - 177440), (27, 1315589, 1341330),
        (28, 1285669, - 1584928), (29, - 812732, - 1439742), (30, - 3019102, - 3881060), (31, - 3628969, 3839961)] re"

definition simd_unit_ntt_at_layer_0 :: "coefficients \<Rightarrow> i32 \<Rightarrow> i32 \<Rightarrow> i32 \<Rightarrow> i32 \<Rightarrow> coefficients" where
  "simd_unit_ntt_at_layer_0 simd_unit zeta0 zeta1 zeta2 zeta3 =
     (let simd_unit = simd_unit_ntt_step simd_unit zeta0 0 1;
          simd_unit = simd_unit_ntt_step simd_unit zeta1 2 1;
          simd_unit = simd_unit_ntt_step simd_unit zeta2 4 1;
          simd_unit = simd_unit_ntt_step simd_unit zeta3 6 1
      in simd_unit)"

definition ntt_at_layer_0_round :: "dsa_ring_element \<Rightarrow> nat \<Rightarrow> i32 \<Rightarrow> i32 \<Rightarrow> i32 \<Rightarrow> i32 \<Rightarrow> dsa_ring_element" where
  "ntt_at_layer_0_round re index zeta_0 zeta_1 zeta_2 zeta_3 = re[index := simd_unit_ntt_at_layer_0 (re ! index) zeta_0 zeta_1 zeta_2 zeta_3]"

definition dsa_ntt_at_layer_0 :: "dsa_ring_element \<Rightarrow> dsa_ring_element" where
  "dsa_ntt_at_layer_0 re =
     fold (\<lambda>(index, zeta_0, zeta_1, zeta_2, zeta_3) re. ntt_at_layer_0_round re index zeta_0 zeta_1 zeta_2 zeta_3)
       [(0, 2091667, 3407706, 2316500, 3817976), (1, - 3342478, 2244091, - 2446433, - 3562462),
        (2, 266997, 2434439, - 1235728, 3513181), (3, - 3520352, - 3759364, - 1197226, - 3193378),
        (4, 900702, 1859098, 909542, 819034), (5, 495491, - 1613174, - 43260, - 522500),
        (6, - 655327, - 3122442, 2031748, 3207046), (7, - 3556995, - 525098, - 768622, - 3595838),
        (8, 342297, 286988, - 2437823, 4108315), (9, 3437287, - 3342277, 1735879, 203044),
        (10, 2842341, 2691481, - 2590150, 1265009), (11, 4055324, 1247620, 2486353, 1595974),
        (12, - 3767016, 1250494, 2635921, - 3548272), (13, - 2994039, 1869119, 1903435, - 1050970),
        (14, - 1333058, 1237275, - 3318210, - 1430225), (15, - 451100, 1312455, 3306115, - 1962642),
        (16, - 1279661, 1917081, - 2546312, - 1374803), (17, 1500165, 777191, 2235880, 3406031),
        (18, - 542412, - 2831860, - 1671176, - 1846953), (19, - 2584293, - 3724270, 594136, - 3776993),
        (20, - 2013608, 2432395, 2454455, - 164721), (21, 1957272, 3369112, 185531, - 1207385),
        (22, - 3183426, 162844, 1616392, 3014001), (23, 810149, 1652634, - 3694233, - 1799107),
        (24, - 3038916, 3523897, 3866901, 269760), (25, 2213111, - 975884, 1717735, 472078),
        (26, - 426683, 1723600, - 1803090, 1910376), (27, - 1667432, - 1104333, - 260646, - 3833893),
        (28, - 2939036, - 2235985, - 420899, - 2286327), (29, 183443, - 976891, 1612842, - 3545687),
        (30, - 554416, 3919660, - 48306, - 1362209), (31, 3937738, 1400424, - 846154, 1976782)] re"

definition dsa_ntt :: "dsa_ring_element \<Rightarrow> dsa_ring_element" where
  "dsa_ntt re =
     (let re = dsa_ntt_at_layer_7 re;
          re = dsa_ntt_at_layer_6 re;
          re = dsa_ntt_at_layer_5 re;
          re = dsa_ntt_at_layer_4 re;
          re = dsa_ntt_at_layer_3 re;
          re = dsa_ntt_at_layer_2 re;
          re = dsa_ntt_at_layer_1 re;
          re = dsa_ntt_at_layer_0 re
      in re)"

subsection \<open>The inverse transform\<close>

definition simd_unit_inv_ntt_step :: "coefficients \<Rightarrow> i32 \<Rightarrow> nat \<Rightarrow> nat \<Rightarrow> coefficients" where
  "simd_unit_inv_ntt_step simd_unit zeta index step =
     (let a_minus_b = as_i32 (simd_unit ! (index + step) - simd_unit ! index);
          simd_unit = simd_unit[index := as_i32 (simd_unit ! index + simd_unit ! (index + step))];
          simd_unit = simd_unit[index + step := dsa_montgomery_multiply_fe_by_fer a_minus_b zeta]
      in simd_unit)"

definition simd_unit_invert_ntt_at_layer_0 :: "coefficients \<Rightarrow> i32 \<Rightarrow> i32 \<Rightarrow> i32 \<Rightarrow> i32 \<Rightarrow> coefficients" where
  "simd_unit_invert_ntt_at_layer_0 simd_unit zeta0 zeta1 zeta2 zeta3 =
     (let simd_unit = simd_unit_inv_ntt_step simd_unit zeta0 0 1;
          simd_unit = simd_unit_inv_ntt_step simd_unit zeta1 2 1;
          simd_unit = simd_unit_inv_ntt_step simd_unit zeta2 4 1;
          simd_unit = simd_unit_inv_ntt_step simd_unit zeta3 6 1
      in simd_unit)"

definition invert_ntt_at_layer_0_round :: "dsa_ring_element \<Rightarrow> nat \<Rightarrow> i32 \<Rightarrow> i32 \<Rightarrow> i32 \<Rightarrow> i32 \<Rightarrow> dsa_ring_element" where
  "invert_ntt_at_layer_0_round re index zeta_0 zeta_1 zeta_2 zeta_3 = re[index := simd_unit_invert_ntt_at_layer_0 (re ! index) zeta_0 zeta_1 zeta_2 zeta_3]"

definition dsa_invert_ntt_at_layer_0 :: "dsa_ring_element \<Rightarrow> dsa_ring_element" where
  "dsa_invert_ntt_at_layer_0 re =
     fold (\<lambda>(index, zeta_0, zeta_1, zeta_2, zeta_3) re. invert_ntt_at_layer_0_round re index zeta_0 zeta_1 zeta_2 zeta_3)
       [(0, 1976782, - 846154, 1400424, 3937738), (1, - 1362209, - 48306, 3919660, - 554416),
        (2, - 3545687, 1612842, - 976891, 183443), (3, - 2286327, - 420899, - 2235985, - 2939036),
        (4, - 3833893, - 260646, - 1104333, - 1667432), (5, 1910376, - 1803090, 1723600, - 426683),
        (6, 472078, 1717735, - 975884, 2213111), (7, 269760, 3866901, 3523897, - 3038916),
        (8, - 1799107, - 3694233, 1652634, 810149), (9, 3014001, 1616392, 162844, - 3183426),
        (10, - 1207385, 185531, 3369112, 1957272), (11, - 164721, 2454455, 2432395, - 2013608),
        (12, - 3776993, 594136, - 3724270, - 2584293), (13, - 1846953, - 1671176, - 2831860, - 542412),
        (14, 3406031, 2235880, 777191, 1500165), (15, - 1374803, - 2546312, 1917081, - 1279661),
        (16, - 1962642, 3306115, 1312455, - 451100), (17, - 1430225, - 3318210, 1237275, - 1333058),
        (18, - 1050970, 1903435, 1869119, - 2994039), (19, - 3548272, 2635921, 1250494, - 3767016),
        (20, 1595974, 2486353, 1247620, 4055324), (21, 1265009, - 2590150, 2691481, 2842341),
        (22, 203044, 1735879, - 3342277, 3437287), (23, 4108315, - 2437823, 286988, 342297),
        (24, - 3595838, - 768622, - 525098, - 3556995), (25, 3207046, 2031748, - 3122442, - 655327),
        (26, - 522500, - 43260, - 1613174, 495491), (27, 819034, 909542, 1859098, 900702),
        (28, - 3193378, - 1197226, - 3759364, - 3520352), (29, 3513181, - 1235728, 2434439, 266997),
        (30, - 3562462, - 2446433, 2244091, - 3342478), (31, 3817976, 2316500, 3407706, 2091667)] re"

definition simd_unit_invert_ntt_at_layer_1 :: "coefficients \<Rightarrow> i32 \<Rightarrow> i32 \<Rightarrow> coefficients" where
  "simd_unit_invert_ntt_at_layer_1 simd_unit zeta0 zeta1 =
     (let simd_unit = simd_unit_inv_ntt_step simd_unit zeta0 0 2;
          simd_unit = simd_unit_inv_ntt_step simd_unit zeta0 1 2;
          simd_unit = simd_unit_inv_ntt_step simd_unit zeta1 4 2;
          simd_unit = simd_unit_inv_ntt_step simd_unit zeta1 5 2
      in simd_unit)"

definition invert_ntt_at_layer_1_round :: "dsa_ring_element \<Rightarrow> nat \<Rightarrow> i32 \<Rightarrow> i32 \<Rightarrow> dsa_ring_element" where
  "invert_ntt_at_layer_1_round re index zeta_0 zeta_1 = re[index := simd_unit_invert_ntt_at_layer_1 (re ! index) zeta_0 zeta_1]"

definition dsa_invert_ntt_at_layer_1 :: "dsa_ring_element \<Rightarrow> dsa_ring_element" where
  "dsa_invert_ntt_at_layer_1 re =
     fold (\<lambda>(index, zeta_0, zeta_1) re. invert_ntt_at_layer_1_round re index zeta_0 zeta_1)
       [(0, 3839961, - 3628969), (1, - 3881060, - 3019102), (2, - 1439742, - 812732), (3, - 1584928, 1285669),
        (4, 1341330, 1315589), (5, - 177440, - 2409325), (6, - 1851402, 3159746), (7, - 3553272, 189548),
        (8, - 1316856, 759969), (9, - 210977, 2389356), (10, - 3249728, 1653064), (11, - 8578, - 3724342),
        (12, 3958618, 904516), (13, - 1100098, 44288), (14, 3097992, 508951), (15, 264944, - 3343383),
        (16, - 1430430, 1852771), (17, 1349076, - 381987), (18, - 1308169, - 22981), (19, - 1228525, - 671102),
        (20, - 2477047, - 411027), (21, - 3693493, - 2967645), (22, 2715295, 2147896), (23, - 983419, 3412210),
        (24, 126922, - 3632928), (25, - 3157330, - 3190144), (26, - 1000202, - 4083598), (27, 1939314, - 1257611),
        (28, - 1585221, 2176455), (29, 3475950, - 1452451), (30, - 3041255, - 3677745), (31, - 1528703, - 3930395)] re"

definition simd_unit_invert_ntt_at_layer_2 :: "coefficients \<Rightarrow> i32 \<Rightarrow> coefficients" where
  "simd_unit_invert_ntt_at_layer_2 simd_unit zeta =
     (let simd_unit = simd_unit_inv_ntt_step simd_unit zeta 0 4;
          simd_unit = simd_unit_inv_ntt_step simd_unit zeta 1 4;
          simd_unit = simd_unit_inv_ntt_step simd_unit zeta 2 4;
          simd_unit = simd_unit_inv_ntt_step simd_unit zeta 3 4
      in simd_unit)"

definition invert_ntt_at_layer_2_round :: "dsa_ring_element \<Rightarrow> nat \<Rightarrow> i32 \<Rightarrow> dsa_ring_element" where
  "invert_ntt_at_layer_2_round re index zeta = re[index := simd_unit_invert_ntt_at_layer_2 (re ! index) zeta]"

definition dsa_invert_ntt_at_layer_2 :: "dsa_ring_element \<Rightarrow> dsa_ring_element" where
  "dsa_invert_ntt_at_layer_2 re =
     fold (\<lambda>(index, zeta) re. invert_ntt_at_layer_2_round re index zeta)
       [(0, - 2797779), (1, 2071892), (2, - 2556880), (3, 3900724), (4, 3881043), (5, 954230),
        (6, 531354), (7, 811944), (8, 3699596), (9, - 1600420), (10, - 2140649), (11, 3507263),
        (12, - 3821735), (13, 3505694), (14, - 1643818), (15, - 1699267), (16, - 539299), (17, 2348700),
        (18, - 300467), (19, 3539968), (20, - 2867647), (21, 3574422), (22, - 3043716), (23, - 3861115),
        (24, 3915439), (25, - 2537516), (26, - 3592148), (27, - 1661693), (28, 3530437), (29, 3077325),
        (30, 95776), (31, 2706023)] re"

definition invntt_outer_3_plus :: "nat \<Rightarrow> nat \<Rightarrow> i32 \<Rightarrow> dsa_ring_element \<Rightarrow> dsa_ring_element" where
  "invntt_outer_3_plus OFFSET STEP_BY ZETA re =
     for_loop OFFSET (OFFSET + STEP_BY) (\<lambda>j re.
       let rej = re ! j;
           rejs = re ! (j + STEP_BY);
           re = re[j := dsa_add (re ! j) rejs];
           re = re[j + STEP_BY := dsa_subtract (re ! (j + STEP_BY)) rej];
           re = re[j + STEP_BY := dsa_montgomery_multiply_by_constant (re ! (j + STEP_BY)) ZETA]
       in re) re"

definition dsa_invert_ntt_at_layer_3 :: "dsa_ring_element \<Rightarrow> dsa_ring_element" where
  "dsa_invert_ntt_at_layer_3 re =
     fold (\<lambda>(OFFSET, ZETA). invntt_outer_3_plus OFFSET 1 ZETA)
       [(0, 280005), (2, 4010497), (4, - 19422), (6, 1757237), (8, - 3277672), (10, - 1399561), (12, - 3859737), (14, - 2118186),
        (16, - 2108549), (18, 2619752), (20, - 1119584), (22, - 549488), (24, 3585928), (26, - 1079900), (28, 1024112), (30, 2725464)] re"

definition dsa_invert_ntt_at_layer_4 :: "dsa_ring_element \<Rightarrow> dsa_ring_element" where
  "dsa_invert_ntt_at_layer_4 re =
     fold (\<lambda>(OFFSET, ZETA). invntt_outer_3_plus OFFSET 2 ZETA)
       [(0, 2680103), (4, 3111497), (8, - 2884855), (12, 3119733), (16, - 2091905), (20, - 359251), (24, 2353451), (28, 1826347)] re"

definition dsa_invert_ntt_at_layer_5 :: "dsa_ring_element \<Rightarrow> dsa_ring_element" where
  "dsa_invert_ntt_at_layer_5 re =
     fold (\<lambda>(OFFSET, ZETA). invntt_outer_3_plus OFFSET 4 ZETA)
       [(0, 466468), (8, - 876248), (16, - 777960), (24, 237124)] re"

definition dsa_invert_ntt_at_layer_6 :: "dsa_ring_element \<Rightarrow> dsa_ring_element" where
  "dsa_invert_ntt_at_layer_6 re =
     fold (\<lambda>(OFFSET, ZETA). invntt_outer_3_plus OFFSET 8 ZETA)
       [(0, - 518909), (16, - 2608894)] re"

definition dsa_invert_ntt_at_layer_7 :: "dsa_ring_element \<Rightarrow> dsa_ring_element" where
  "dsa_invert_ntt_at_layer_7 re =
     fold (\<lambda>(OFFSET, ZETA). invntt_outer_3_plus OFFSET 16 ZETA)
       [(0, 25847)] re"

definition dsa_invert_ntt_montgomery :: "dsa_ring_element \<Rightarrow> dsa_ring_element" where
  "dsa_invert_ntt_montgomery re =
     (let re = dsa_invert_ntt_at_layer_0 re;
          re = dsa_invert_ntt_at_layer_1 re;
          re = dsa_invert_ntt_at_layer_2 re;
          re = dsa_invert_ntt_at_layer_3 re;
          re = dsa_invert_ntt_at_layer_4 re;
          re = dsa_invert_ntt_at_layer_5 re;
          re = dsa_invert_ntt_at_layer_6 re;
          re = dsa_invert_ntt_at_layer_7 re
      in for_loop 0 32 (\<lambda>i re. re[i := dsa_montgomery_multiply_by_constant (re ! i) 41978]) re)"

end
