(* ===== verification/MLDSA_NTT_Layers.thy ===== *)
theory MLDSA_NTT_Layers
  imports MLDSA_NTT
begin

section \<open>ML-DSA: the layers of the transform on flat lists\<close>

text \<open>
  Every layer of the two transforms as a \<open>layer_map\<close> on the 256 coefficients. \<open>DSA_ZETAS\<close> lists the constants of the code in
  the order of the blocks: the layer with \<open>k\<close> blocks uses the entries \<open>k\<close> to \<open>2 * k - 1\<close>, in the inverse transform in reverse
  order.
\<close>

definition DSA_ZETAS :: "int list" where
  "DSA_ZETAS =
    [0, 25847, - 2608894, - 518909, 237124, - 777960, - 876248, 466468, 1826347, 2353451, - 359251, - 2091905,
     3119733, - 2884855, 3111497, 2680103, 2725464, 1024112, - 1079900, 3585928, - 549488, - 1119584, 2619752, - 2108549,
     - 2118186, - 3859737, - 1399561, - 3277672, 1757237, - 19422, 4010497, 280005, 2706023, 95776, 3077325, 3530437,
     - 1661693, - 3592148, - 2537516, 3915439, - 3861115, - 3043716, 3574422, - 2867647, 3539968, - 300467, 2348700, - 539299,
     - 1699267, - 1643818, 3505694, - 3821735, 3507263, - 2140649, - 1600420, 3699596, 811944, 531354, 954230, 3881043,
     3900724, - 2556880, 2071892, - 2797779, - 3930395, - 1528703, - 3677745, - 3041255, - 1452451, 3475950, 2176455, - 1585221,
     - 1257611, 1939314, - 4083598, - 1000202, - 3190144, - 3157330, - 3632928, 126922, 3412210, - 983419, 2147896, 2715295,
     - 2967645, - 3693493, - 411027, - 2477047, - 671102, - 1228525, - 22981, - 1308169, - 381987, 1349076, 1852771, - 1430430,
     - 3343383, 264944, 508951, 3097992, 44288, - 1100098, 904516, 3958618, - 3724342, - 8578, 1653064, - 3249728,
     2389356, - 210977, 759969, - 1316856, 189548, - 3553272, 3159746, - 1851402, - 2409325, - 177440, 1315589, 1341330,
     1285669, - 1584928, - 812732, - 1439742, - 3019102, - 3881060, - 3628969, 3839961, 2091667, 3407706, 2316500, 3817976,
     - 3342478, 2244091, - 2446433, - 3562462, 266997, 2434439, - 1235728, 3513181, - 3520352, - 3759364, - 1197226, - 3193378,
     900702, 1859098, 909542, 819034, 495491, - 1613174, - 43260, - 522500, - 655327, - 3122442, 2031748, 3207046,
     - 3556995, - 525098, - 768622, - 3595838, 342297, 286988, - 2437823, 4108315, 3437287, - 3342277, 1735879, 203044,
     2842341, 2691481, - 2590150, 1265009, 4055324, 1247620, 2486353, 1595974, - 3767016, 1250494, 2635921, - 3548272,
     - 2994039, 1869119, 1903435, - 1050970, - 1333058, 1237275, - 3318210, - 1430225, - 451100, 1312455, 3306115, - 1962642,
     - 1279661, 1917081, - 2546312, - 1374803, 1500165, 777191, 2235880, 3406031, - 542412, - 2831860, - 1671176, - 1846953,
     - 2584293, - 3724270, 594136, - 3776993, - 2013608, 2432395, 2454455, - 164721, 1957272, 3369112, 185531, - 1207385,
     - 3183426, 162844, 1616392, 3014001, 810149, 1652634, - 3694233, - 1799107, - 3038916, 3523897, 3866901, 269760,
     2213111, - 975884, 1717735, 472078, - 426683, 1723600, - 1803090, 1910376, - 1667432, - 1104333, - 260646, - 3833893,
     - 2939036, - 2235985, - 420899, - 2286327, 183443, - 976891, 1612842, - 3545687, - 554416, 3919660, - 48306, - 1362209,
     3937738, 1400424, - 846154, 1976782]"

definition dsa_zeta :: "nat \<Rightarrow> int" where
  "dsa_zeta k = DSA_ZETAS ! k"

definition dsa_fwd_lo :: "int \<Rightarrow> int \<Rightarrow> int \<Rightarrow> int" where
  "dsa_fwd_lo z a b = as_i32 (a + dsa_montgomery_multiply_fe_by_fer b z)"

definition dsa_fwd_hi :: "int \<Rightarrow> int \<Rightarrow> int \<Rightarrow> int" where
  "dsa_fwd_hi z a b = as_i32 (a - dsa_montgomery_multiply_fe_by_fer b z)"

definition dsa_inv_lo :: "int \<Rightarrow> int \<Rightarrow> int" where
  "dsa_inv_lo a b = as_i32 (a + b)"

definition dsa_inv_hi :: "int \<Rightarrow> int \<Rightarrow> int \<Rightarrow> int" where
  "dsa_inv_hi z a b = dsa_montgomery_multiply_fe_by_fer (as_i32 (b - a)) z"

definition dsa_fwd_layer :: "nat \<Rightarrow> int list \<Rightarrow> int list" where
  "dsa_fwd_layer len = layer_map 256 len (\<lambda>r. dsa_fwd_lo (dsa_zeta (128 div len + r))) (\<lambda>r. dsa_fwd_hi (dsa_zeta (128 div len + r)))"

definition dsa_inv_layer :: "nat \<Rightarrow> int list \<Rightarrow> int list" where
  "dsa_inv_layer len = layer_map 256 len (\<lambda>r. dsa_inv_lo) (\<lambda>r. dsa_inv_hi (dsa_zeta (256 div len - 1 - r)))"

subsection \<open>Loops that combine cells at a distance\<close>

lemma pair_loop:
  assumes "\<And>j xs. off \<le> j \<Longrightarrow> j < off + step \<Longrightarrow> j + step < n \<Longrightarrow> length xs = n \<Longrightarrow>
      body j xs = xs[j + step := G (xs ! j) (xs ! (j + step)), j := F (xs ! j) (xs ! (j + step))]"
    and "length re = n" and "off + 2 * step \<le> n"
  shows "for_loop off (off + step) body re = map (\<lambda>a.
      if off \<le> a \<and> a < off + step then F (re ! a) (re ! (a + step))
      else if off + step \<le> a \<and> a < off + 2 * step then G (re ! (a - step)) (re ! a) else re ! a) [0..<n]"
proof -
  let ?r = "\<lambda>m. map (\<lambda>a. if off \<le> a \<and> a < off + m then F (re ! a) (re ! (a + step))
      else if off + step \<le> a \<and> a < off + step + m then G (re ! (a - step)) (re ! a) else re ! a) [0..<n]"
  have "for_loop off (off + m) body re = ?r m" if "m \<le> step" for m
    using that
  proof (induction m)
    case 0
    show ?case using assms(2) by (intro nth_equalityI) auto
  next
    case (Suc m)
    have "body (off + m) (?r m) = (?r m)[off + m + step := G (?r m ! (off + m)) (?r m ! (off + m + step)),
        off + m := F (?r m ! (off + m)) (?r m ! (off + m + step))]"
      using Suc.prems assms(3) by (intro assms(1)) auto
    also have "\<dots> = ?r (Suc m)"
      using Suc.prems assms(3) by (intro nth_equalityI) (auto simp: nth_list_update less_Suc_eq)
    finally show ?case using Suc by (simp add: for_loop_last)
  qed
  from this [of step] show ?thesis by (simp add: mult_2 add.assoc)
qed

lemma block_cells:
  assumes "(0 :: nat) < step"
  shows "2 * step * r \<le> a \<and> a < 2 * step * r + step \<longleftrightarrow> a div (2 * step) = r \<and> a mod (2 * step) < step"
    and "2 * step * r + step \<le> a \<and> a < 2 * step * r + 2 * step \<longleftrightarrow> a div (2 * step) = r \<and> \<not> a mod (2 * step) < step"
    and "a < 2 * step * r \<longleftrightarrow> a div (2 * step) < r"
proof -
  define d m where "d = a div (2 * step)" and "m = a mod (2 * step)"
  have a: "a = 2 * step * d + m" and m: "m < 2 * step" using assms by (simp_all add: d_def m_def)
  have lt: "2 * step * x + 2 * step \<le> 2 * step * y" if "x < y" for x y
    using mult_le_mono2 [of "x + 1" y "2 * step"] that by simp
  consider "d < r" | "d = r" | "r < d" by linarith
  then have "(2 * step * r \<le> a \<and> a < 2 * step * r + step \<longleftrightarrow> d = r \<and> m < step)
    \<and> (2 * step * r + step \<le> a \<and> a < 2 * step * r + 2 * step \<longleftrightarrow> d = r \<and> \<not> m < step) \<and> (a < 2 * step * r \<longleftrightarrow> d < r)"
  proof cases
    case 1
    then show ?thesis using lt [OF 1] a m by linarith
  next
    case 2
    then show ?thesis using a m by auto
  next
    case 3
    then show ?thesis using lt [OF 3] a m by linarith
  qed
  then show "2 * step * r \<le> a \<and> a < 2 * step * r + step \<longleftrightarrow> a div (2 * step) = r \<and> a mod (2 * step) < step"
    and "2 * step * r + step \<le> a \<and> a < 2 * step * r + 2 * step \<longleftrightarrow> a div (2 * step) = r \<and> \<not> a mod (2 * step) < step"
    and "a < 2 * step * r \<longleftrightarrow> a div (2 * step) < r" by (simp_all add: d_def m_def)
qed

lemma blocks_loop:
  assumes step: "0 < step" and n: "length re = n" "2 * step * k \<le> n"
    and op: "\<And>r xs. r < k \<Longrightarrow> length xs = n \<Longrightarrow> op (2 * step * r) (zs ! r) xs = map (\<lambda>a.
      if 2 * step * r \<le> a \<and> a < 2 * step * r + step then F (zs ! r) (xs ! a) (xs ! (a + step))
      else if 2 * step * r + step \<le> a \<and> a < 2 * step * r + 2 * step then G (zs ! r) (xs ! (a - step)) (xs ! a) else xs ! a) [0..<n]"
  shows "fold (\<lambda>(off, z). op off z) (map (\<lambda>r. (2 * step * r, zs ! r)) [0..<k]) re = map (\<lambda>a.
      if a div (2 * step) < k then (if a mod (2 * step) < step then F (zs ! (a div (2 * step))) (re ! a) (re ! (a + step))
        else G (zs ! (a div (2 * step))) (re ! (a - step)) (re ! a)) else re ! a) [0..<n]"
  using n(2) op
proof (induction k)
  case 0
  then show ?case using n(1) by (intro nth_equalityI) simp_all
next
  case (Suc k)
  let ?r = "\<lambda>k. map (\<lambda>a. if a div (2 * step) < k then (if a mod (2 * step) < step then F (zs ! (a div (2 * step))) (re ! a) (re ! (a + step))
        else G (zs ! (a div (2 * step))) (re ! (a - step)) (re ! a)) else re ! a) [0..<n]"
  have k: "2 * step * k + 2 * step \<le> n" using Suc.prems(1) by simp
  have IH: "fold (\<lambda>(off, z). op off z) (map (\<lambda>r. (2 * step * r, zs ! r)) [0..<k]) re = ?r k" using Suc by simp
  have up: "(a + step) div (2 * step) = k" "a + step < n" if "a div (2 * step) = k" "a mod (2 * step) < step" for a
    using block_cells [OF step, of k a] block_cells [OF step, of k "a + step"] that k by auto
  have down: "(a - step) div (2 * step) = k" "a - step < n" if "a div (2 * step) = k" "\<not> a mod (2 * step) < step" "a < n" for a
    using block_cells [OF step, of k a] block_cells [OF step, of k "a - step"] that k by auto
  have "op (2 * step * k) (zs ! k) (?r k) = ?r (Suc k)"
    using Suc.prems(2) [of k "?r k"] up down
    by (intro nth_equalityI) (auto simp: block_cells [OF step] less_Suc_eq)
  then show ?case by (simp add: IH)
qed

lemma blocks_loop_layer:
  assumes "0 < step" and "length re = n" and "n = k * (2 * step)"
    and "\<And>r j xs. r < k \<Longrightarrow> 2 * step * r \<le> j \<Longrightarrow> j < 2 * step * r + step \<Longrightarrow> j + step < n \<Longrightarrow> length xs = n \<Longrightarrow>
      body (zs ! r) j xs = xs[j + step := G (zs ! r) (xs ! j) (xs ! (j + step)), j := F (zs ! r) (xs ! j) (xs ! (j + step))]"
  shows "fold (\<lambda>(off, z) re. for_loop off (off + step) (body z) re) (map (\<lambda>r. (2 * step * r, zs ! r)) [0..<k]) re
    = vector_layer n (\<lambda>r. F (zs ! r)) (\<lambda>r. G (zs ! r)) step re"
proof -
  have b: "2 * step * r + 2 * step \<le> n" if "r < k" for r
    using mult_le_mono1 [of "Suc r" k "2 * step"] that assms(3) by (simp add: mult.commute)
  have "fold (\<lambda>(off, z). (\<lambda>off z re. for_loop off (off + step) (body z) re) off z) (map (\<lambda>r. (2 * step * r, zs ! r)) [0..<k]) re
    = map (\<lambda>a. if a div (2 * step) < k then (if a mod (2 * step) < step then F (zs ! (a div (2 * step))) (re ! a) (re ! (a + step))
        else G (zs ! (a div (2 * step))) (re ! (a - step)) (re ! a)) else re ! a) [0..<n]"
    using assms b by (intro blocks_loop pair_loop) (auto simp: mult.commute)
  also have "\<dots> = vector_layer n (\<lambda>r. F (zs ! r)) (\<lambda>r. G (zs ! r)) step re"
    unfolding vector_layer_def assms(3) by (intro map_cong) (auto simp: less_mult_imp_div_less)
  finally show ?thesis by simp
qed

subsection \<open>Layers across the vectors\<close>

lemma wf_blocks: "wf_dsa_ring re \<Longrightarrow> length re = 32" "wf_dsa_ring re \<Longrightarrow> v \<in> set re \<Longrightarrow> length v = 8"
  by (auto simp: wf_dsa_ring_def list_all_iff)

lemma vector_layer_flat:
  assumes "wf_dsa_ring re" and "32 = k * (2 * sv)"
    and "\<And>r a b. length a = 8 \<Longrightarrow> length b = 8 \<Longrightarrow> f r a b = map2 (F r) a b"
    and "\<And>r a b. length a = 8 \<Longrightarrow> length b = 8 \<Longrightarrow> g r a b = map2 (G r) a b"
  shows "wf_dsa_ring (vector_layer 32 f g sv re)" and "concat (vector_layer 32 f g sv re) = layer_map 256 (8 * sv) F G (concat re)"
proof -
  have up: "a + sv < 32" if "a mod (2 * sv) < sv" "a < 32" for a
    using block_start_below [OF that(1), of k] that(2) unfolding assms(2) .
  have "vector_layer 32 f g sv re = vector_layer 32 (\<lambda>r. map2 (F r)) (\<lambda>r. map2 (G r)) sv re"
    unfolding vector_layer_def using up by (intro map_cong) (auto simp: wf_dsa_ring_nth [OF assms(1)] assms(3,4))
  then show "wf_dsa_ring (vector_layer 32 f g sv re)" and "concat (vector_layer 32 f g sv re) = layer_map 256 (8 * sv) F G (concat re)"
    using layers_across_vectors [OF wf_blocks(1) [OF assms(1)] wf_blocks(2) [OF assms(1)] assms(2), where f = F and g = G]
    by (simp_all add: wf_dsa_ring_def list_all_iff)
qed

lemma map2_map_second: "map2 f xs (map g ys) = map2 (\<lambda>x y. f x (g y)) xs ys"
  by (simp add: zip_map2 split_beta comp_def)

lemma butterfly_vectors:
  assumes "length a = 8" and "length b = 8"
  shows "dsa_add a (dsa_montgomery_multiply_by_constant b z) = map2 (dsa_fwd_lo z) a b"
    and "dsa_subtract a (dsa_montgomery_multiply_by_constant b z) = map2 (dsa_fwd_hi z) a b"
    and "dsa_add a b = map2 dsa_inv_lo a b"
    and "dsa_montgomery_multiply_by_constant (dsa_subtract b a) z = map2 (dsa_inv_hi z) a b"
proof -
  have m: "dsa_montgomery_multiply_by_constant b z = map (\<lambda>x. dsa_montgomery_multiply_fe_by_fer x z) b"
    using dsa_vector_ops(4) [OF assms(2,1)] by (simp add: dsa_montgomery_multiply_fe_by_fer_def)
  show "dsa_add a (dsa_montgomery_multiply_by_constant b z) = map2 (dsa_fwd_lo z) a b"
    and "dsa_subtract a (dsa_montgomery_multiply_by_constant b z) = map2 (dsa_fwd_hi z) a b"
    using assms by (simp_all add: m dsa_vector_ops map2_map_second dsa_fwd_lo_def [abs_def] dsa_fwd_hi_def [abs_def])
  show "dsa_add a b = map2 dsa_inv_lo a b" using assms by (simp add: dsa_vector_ops dsa_inv_lo_def [abs_def])
  have "length (dsa_subtract b a) = 8" using assms by (simp add: dsa_vector_ops)
  from dsa_vector_ops(4) [OF this this]
  show "dsa_montgomery_multiply_by_constant (dsa_subtract b a) z = map2 (dsa_inv_hi z) a b"
    using assms by (simp add: dsa_vector_ops dsa_inv_hi_def [abs_def] dsa_montgomery_multiply_fe_by_fer_def)
      (auto intro: nth_equalityI)
qed

lemma ntt_outer_layer:
  assumes "wf_dsa_ring re" and "32 = k * (2 * step)" and "k = 128 div (8 * step)" and "args = map (\<lambda>r. (2 * step * r, dsa_zeta (k + r))) [0..<k]"
  shows "wf_dsa_ring (fold (\<lambda>(off, z). ntt_outer_3_plus off step z) args re)"
    and "concat (fold (\<lambda>(off, z). ntt_outer_3_plus off step z) args re) = dsa_fwd_layer (8 * step) (concat re)"
proof -
  define zs where "zs = map (\<lambda>r. dsa_zeta (k + r)) [0..<k]"
  have s: "0 < step" using assms(2) by (cases step) simp_all
  have a: "args = map (\<lambda>r. (2 * step * r, zs ! r)) [0..<k]" unfolding assms(4) zs_def by (intro map_cong) auto
  let ?f = "\<lambda>r a b. dsa_add a (dsa_montgomery_multiply_by_constant b (zs ! r))"
  let ?g = "\<lambda>r a b. dsa_subtract a (dsa_montgomery_multiply_by_constant b (zs ! r))"
  have "fold (\<lambda>(off, z) re. for_loop off (off + step) (\<lambda>j re. ntt_outer_3_plus_round re j step z) re) args re = vector_layer 32 ?f ?g step re"
    unfolding a using s assms(2) wf_blocks(1) [OF assms(1)]
    by (intro blocks_loop_layer [where F = "\<lambda>z a b. dsa_add a (dsa_montgomery_multiply_by_constant b z)"
          and G = "\<lambda>z a b. dsa_subtract a (dsa_montgomery_multiply_by_constant b z)"])
      (simp_all add: ntt_outer_3_plus_round_def Let_def nth_list_update)
  then have e: "fold (\<lambda>(off, z). ntt_outer_3_plus off step z) args re = vector_layer 32 ?f ?g step re"
    by (simp add: ntt_outer_3_plus_def [abs_def] cong: fold_cong)
  note flat = vector_layer_flat [OF assms(1,2), of ?f "\<lambda>r. dsa_fwd_lo (zs ! r)" ?g "\<lambda>r. dsa_fwd_hi (zs ! r)", OF butterfly_vectors(1) butterfly_vectors(2)]
  show "wf_dsa_ring (fold (\<lambda>(off, z). ntt_outer_3_plus off step z) args re)" unfolding e by (rule flat(1))
  have "layer_map 256 (8 * step) (\<lambda>r. dsa_fwd_lo (zs ! r)) (\<lambda>r. dsa_fwd_hi (zs ! r)) (concat re) = dsa_fwd_layer (8 * step) (concat re)"
    unfolding dsa_fwd_layer_def assms(3) [symmetric] using assms(2)
    by (intro layer_map_cong [where k = k]) (simp_all add: zs_def)
  then show "concat (fold (\<lambda>(off, z). ntt_outer_3_plus off step z) args re) = dsa_fwd_layer (8 * step) (concat re)"
    unfolding e by (simp only: flat(2))
qed

lemma invntt_outer_layer:
  assumes "wf_dsa_ring re" and "32 = k * (2 * step)" and "256 div (8 * step) = 2 * k"
    and "args = map (\<lambda>r. (2 * step * r, dsa_zeta (2 * k - 1 - r))) [0..<k]"
  shows "wf_dsa_ring (fold (\<lambda>(off, z). invntt_outer_3_plus off step z) args re)"
    and "concat (fold (\<lambda>(off, z). invntt_outer_3_plus off step z) args re) = dsa_inv_layer (8 * step) (concat re)"
proof -
  define zs where "zs = map (\<lambda>r. dsa_zeta (2 * k - 1 - r)) [0..<k]"
  have s: "0 < step" using assms(2) by (cases step) simp_all
  have a: "args = map (\<lambda>r. (2 * step * r, zs ! r)) [0..<k]" unfolding assms(4) zs_def by (intro map_cong) auto
  let ?f = "\<lambda>r a b. dsa_add a b" and ?g = "\<lambda>r a b. dsa_montgomery_multiply_by_constant (dsa_subtract b a) (zs ! r)"
  let ?b = "\<lambda>z j re. let rej = re ! j; rejs = re ! (j + step); re = re[j := dsa_add (re ! j) rejs];
      re = re[j + step := dsa_subtract (re ! (j + step)) rej];
      re = re[j + step := dsa_montgomery_multiply_by_constant (re ! (j + step)) z] in re"
  have "fold (\<lambda>(off, z) re. for_loop off (off + step) (?b z) re) args re = vector_layer 32 ?f ?g step re"
    unfolding a using s assms(2) wf_blocks(1) [OF assms(1)]
    by (intro blocks_loop_layer [where F = "\<lambda>z a b. dsa_add a b" and G = "\<lambda>z a b. dsa_montgomery_multiply_by_constant (dsa_subtract b a) z"])
      (simp_all add: Let_def list_update_swap)
  then have e: "fold (\<lambda>(off, z). invntt_outer_3_plus off step z) args re = vector_layer 32 ?f ?g step re"
    by (simp add: invntt_outer_3_plus_def [abs_def] cong: fold_cong)
  note flat = vector_layer_flat [OF assms(1,2), of ?f "\<lambda>r. dsa_inv_lo" ?g "\<lambda>r. dsa_inv_hi (zs ! r)", OF butterfly_vectors(3) butterfly_vectors(4)]
  show "wf_dsa_ring (fold (\<lambda>(off, z). invntt_outer_3_plus off step z) args re)" unfolding e by (rule flat(1))
  have "layer_map 256 (8 * step) (\<lambda>r. dsa_inv_lo) (\<lambda>r. dsa_inv_hi (zs ! r)) (concat re) = dsa_inv_layer (8 * step) (concat re)"
    unfolding dsa_inv_layer_def assms(3) using assms(2)
    by (intro layer_map_cong [where k = k]) (simp_all add: zs_def)
  then show "concat (fold (\<lambda>(off, z). invntt_outer_3_plus off step z) args re) = dsa_inv_layer (8 * step) (concat re)"
    unfolding e by (simp only: flat(2))
qed

subsection \<open>Layers inside the vectors\<close>

lemma length_8_E:
  assumes "length v = 8"
  obtains a0 a1 a2 a3 a4 a5 a6 a7 where "v = [a0, a1, a2, a3, a4, a5, a6, a7]"
  using assms by (auto simp: numeral_eq_Suc length_Suc_conv)

lemmas unit_unfold = layer_map_def Let_def upt_evals dsa_fwd_lo_def dsa_fwd_hi_def dsa_inv_lo_def dsa_inv_hi_def
  simd_unit_ntt_step_def simd_unit_inv_ntt_step_def

lemma simd_unit_ntt_at_layer_2_eq:
  assumes "length v = 8"
  shows "simd_unit_ntt_at_layer_2 v (zf 0) = layer_map 8 4 (\<lambda>r. dsa_fwd_lo (zf r)) (\<lambda>r. dsa_fwd_hi (zf r)) v"
  using assms by (rule length_8_E) (simp add: simd_unit_ntt_at_layer_2_def unit_unfold)

lemma simd_unit_ntt_at_layer_1_eq:
  assumes "length v = 8"
  shows "simd_unit_ntt_at_layer_1 v (zf 0) (zf 1) = layer_map 8 2 (\<lambda>r. dsa_fwd_lo (zf r)) (\<lambda>r. dsa_fwd_hi (zf r)) v"
  using assms by (rule length_8_E) (simp add: simd_unit_ntt_at_layer_1_def unit_unfold)

lemma simd_unit_ntt_at_layer_0_eq:
  assumes "length v = 8"
  shows "simd_unit_ntt_at_layer_0 v (zf 0) (zf 1) (zf 2) (zf 3) = layer_map 8 1 (\<lambda>r. dsa_fwd_lo (zf r)) (\<lambda>r. dsa_fwd_hi (zf r)) v"
  using assms by (rule length_8_E) (simp add: simd_unit_ntt_at_layer_0_def unit_unfold)

lemma simd_unit_invert_ntt_at_layer_2_eq:
  assumes "length v = 8"
  shows "simd_unit_invert_ntt_at_layer_2 v (zf 0) = layer_map 8 4 (\<lambda>r. dsa_inv_lo) (\<lambda>r. dsa_inv_hi (zf r)) v"
  using assms by (rule length_8_E) (simp add: simd_unit_invert_ntt_at_layer_2_def unit_unfold)

lemma simd_unit_invert_ntt_at_layer_1_eq:
  assumes "length v = 8"
  shows "simd_unit_invert_ntt_at_layer_1 v (zf 0) (zf 1) = layer_map 8 2 (\<lambda>r. dsa_inv_lo) (\<lambda>r. dsa_inv_hi (zf r)) v"
  using assms by (rule length_8_E) (simp add: simd_unit_invert_ntt_at_layer_1_def unit_unfold)

lemma simd_unit_invert_ntt_at_layer_0_eq:
  assumes "length v = 8"
  shows "simd_unit_invert_ntt_at_layer_0 v (zf 0) (zf 1) (zf 2) (zf 3) = layer_map 8 1 (\<lambda>r. dsa_inv_lo) (\<lambda>r. dsa_inv_hi (zf r)) v"
  using assms by (rule length_8_E) (simp add: simd_unit_invert_ntt_at_layer_0_def unit_unfold)

lemma unit_rounds:
  assumes "length re = n" and "\<And>i re. i < n \<Longrightarrow> body i re = re[i := h i (re ! i)]"
  shows "fold body [0..<n] re = map (\<lambda>i. h i (re ! i)) [0..<n]"
proof -
  have "fold body [0..<n] re = for_loop 0 n (\<lambda>i re. re[i := h i (re ! i)]) re"
    unfolding for_loop_def using assms(2) by (intro fold_cong) auto
  then show ?thesis using for_loop_update [of n re h] assms(1) by simp
qed

lemma unit_layer_flat:
  assumes "wf_dsa_ring re" and "8 = k * (2 * len)"
    and "\<And>a. a < 32 \<Longrightarrow> h a (re ! a) = layer_map 8 len (\<lambda>r. F (a * k + r)) (\<lambda>r. G (a * k + r)) (re ! a)"
  shows "wf_dsa_ring (map (\<lambda>a. h a (re ! a)) [0..<32])"
    and "concat (map (\<lambda>a. h a (re ! a)) [0..<32]) = layer_map 256 len F G (concat re)"
proof -
  have e: "map (\<lambda>a. h a (re ! a)) [0..<32] = map (\<lambda>a. layer_map 8 len (\<lambda>r. F (a * k + r)) (\<lambda>r. G (a * k + r)) (re ! a)) [0..<32]"
    using assms(3) by (intro map_cong) simp_all
  show "wf_dsa_ring (map (\<lambda>a. h a (re ! a)) [0..<32])" unfolding e by (simp add: wf_dsa_ring_def list_all_iff)
  show "concat (map (\<lambda>a. h a (re ! a)) [0..<32]) = layer_map 256 len F G (concat re)"
    using layers_inside_vectors [OF wf_blocks(1) [OF assms(1)] wf_blocks(2) [OF assms(1)] assms(2), of "\<lambda>a r. F (a * k + r)" F "\<lambda>a r. G (a * k + r)" G]
    unfolding e by simp
qed

subsection \<open>The layers of the code\<close>

lemma dsa_ntt_at_layer_7_flat:
  assumes "wf_dsa_ring re"
  shows "wf_dsa_ring (dsa_ntt_at_layer_7 re)" and "concat (dsa_ntt_at_layer_7 re) = dsa_fwd_layer (8 * 16) (concat re)"
  unfolding dsa_ntt_at_layer_7_def by ((rule ntt_outer_layer [OF assms, where k = 1]; code_simp)+)

lemma dsa_ntt_at_layer_6_flat:
  assumes "wf_dsa_ring re"
  shows "wf_dsa_ring (dsa_ntt_at_layer_6 re)" and "concat (dsa_ntt_at_layer_6 re) = dsa_fwd_layer (8 * 8) (concat re)"
  unfolding dsa_ntt_at_layer_6_def by ((rule ntt_outer_layer [OF assms, where k = 2]; code_simp)+)

lemma dsa_ntt_at_layer_5_flat:
  assumes "wf_dsa_ring re"
  shows "wf_dsa_ring (dsa_ntt_at_layer_5 re)" and "concat (dsa_ntt_at_layer_5 re) = dsa_fwd_layer (8 * 4) (concat re)"
  unfolding dsa_ntt_at_layer_5_def by ((rule ntt_outer_layer [OF assms, where k = 4]; code_simp)+)

lemma dsa_ntt_at_layer_4_flat:
  assumes "wf_dsa_ring re"
  shows "wf_dsa_ring (dsa_ntt_at_layer_4 re)" and "concat (dsa_ntt_at_layer_4 re) = dsa_fwd_layer (8 * 2) (concat re)"
  unfolding dsa_ntt_at_layer_4_def by ((rule ntt_outer_layer [OF assms, where k = 8]; code_simp)+)

lemma dsa_ntt_at_layer_3_flat:
  assumes "wf_dsa_ring re"
  shows "wf_dsa_ring (dsa_ntt_at_layer_3 re)" and "concat (dsa_ntt_at_layer_3 re) = dsa_fwd_layer (8 * 1) (concat re)"
  unfolding dsa_ntt_at_layer_3_def by ((rule ntt_outer_layer [OF assms, where k = 16]; code_simp)+)

lemma dsa_invert_ntt_at_layer_7_flat:
  assumes "wf_dsa_ring re"
  shows "wf_dsa_ring (dsa_invert_ntt_at_layer_7 re)" and "concat (dsa_invert_ntt_at_layer_7 re) = dsa_inv_layer (8 * 16) (concat re)"
  unfolding dsa_invert_ntt_at_layer_7_def by ((rule invntt_outer_layer [OF assms, where k = 1]; code_simp)+)

lemma dsa_invert_ntt_at_layer_6_flat:
  assumes "wf_dsa_ring re"
  shows "wf_dsa_ring (dsa_invert_ntt_at_layer_6 re)" and "concat (dsa_invert_ntt_at_layer_6 re) = dsa_inv_layer (8 * 8) (concat re)"
  unfolding dsa_invert_ntt_at_layer_6_def by ((rule invntt_outer_layer [OF assms, where k = 2]; code_simp)+)

lemma dsa_invert_ntt_at_layer_5_flat:
  assumes "wf_dsa_ring re"
  shows "wf_dsa_ring (dsa_invert_ntt_at_layer_5 re)" and "concat (dsa_invert_ntt_at_layer_5 re) = dsa_inv_layer (8 * 4) (concat re)"
  unfolding dsa_invert_ntt_at_layer_5_def by ((rule invntt_outer_layer [OF assms, where k = 4]; code_simp)+)

lemma dsa_invert_ntt_at_layer_4_flat:
  assumes "wf_dsa_ring re"
  shows "wf_dsa_ring (dsa_invert_ntt_at_layer_4 re)" and "concat (dsa_invert_ntt_at_layer_4 re) = dsa_inv_layer (8 * 2) (concat re)"
  unfolding dsa_invert_ntt_at_layer_4_def by ((rule invntt_outer_layer [OF assms, where k = 8]; code_simp)+)

lemma dsa_invert_ntt_at_layer_3_flat:
  assumes "wf_dsa_ring re"
  shows "wf_dsa_ring (dsa_invert_ntt_at_layer_3 re)" and "concat (dsa_invert_ntt_at_layer_3 re) = dsa_inv_layer (8 * 1) (concat re)"
  unfolding dsa_invert_ntt_at_layer_3_def by ((rule invntt_outer_layer [OF assms, where k = 16]; code_simp)+)

lemma dsa_ntt_at_layer_2_flat:
  assumes "wf_dsa_ring re"
  shows "wf_dsa_ring (dsa_ntt_at_layer_2 re)" and "concat (dsa_ntt_at_layer_2 re) = dsa_fwd_layer 4 (concat re)"
proof -
  have "dsa_ntt_at_layer_2 re = fold (\<lambda>(index, zeta) re. ntt_at_layer_2_round re index zeta) (map (\<lambda>a. (a, dsa_zeta (32 + (a * 1 + 0)))) [0..<32]) re"
    unfolding dsa_ntt_at_layer_2_def by (rule arg_cong [where f = "\<lambda>args. fold _ args re"]) code_simp
  then have a: "dsa_ntt_at_layer_2 re = fold (\<lambda>a re. ntt_at_layer_2_round re a (dsa_zeta (32 + (a * 1 + 0)))) [0..<32] re"
    by (simp only: fold_map comp_def prod.case)
  have e: "dsa_ntt_at_layer_2 re = map (\<lambda>a. simd_unit_ntt_at_layer_2 (re ! a) (dsa_zeta (32 + (a * 1 + 0)))) [0..<32]"
    unfolding a using wf_blocks(1) [OF assms] by (intro unit_rounds) (simp_all only: ntt_at_layer_2_round_def)
  note flat = unit_layer_flat [OF assms, of 1 4 "\<lambda>a v. simd_unit_ntt_at_layer_2 v (dsa_zeta (32 + (a * 1 + 0)))" "\<lambda>r. dsa_fwd_lo (dsa_zeta (32 + r))" "\<lambda>r. dsa_fwd_hi (dsa_zeta (32 + r))",
      OF _ simd_unit_ntt_at_layer_2_eq [where zf = "\<lambda>r. dsa_zeta (32 + (a * 1 + r))" for a, OF wf_dsa_ring_nth [OF assms]]]
  show "wf_dsa_ring (dsa_ntt_at_layer_2 re)" unfolding e by (rule flat(1)) simp_all
  show "concat (dsa_ntt_at_layer_2 re) = dsa_fwd_layer 4 (concat re)" unfolding e dsa_fwd_layer_def by (subst flat(2)) simp_all
qed

lemma dsa_ntt_at_layer_1_flat:
  assumes "wf_dsa_ring re"
  shows "wf_dsa_ring (dsa_ntt_at_layer_1 re)" and "concat (dsa_ntt_at_layer_1 re) = dsa_fwd_layer 2 (concat re)"
proof -
  have "dsa_ntt_at_layer_1 re = fold (\<lambda>(index, z0, z1) re. ntt_at_layer_1_round re index z0 z1) (map (\<lambda>a. (a, dsa_zeta (64 + (a * 2 + 0)), dsa_zeta (64 + (a * 2 + 1)))) [0..<32]) re"
    unfolding dsa_ntt_at_layer_1_def by (rule arg_cong [where f = "\<lambda>args. fold _ args re"]) code_simp
  then have a: "dsa_ntt_at_layer_1 re = fold (\<lambda>a re. ntt_at_layer_1_round re a (dsa_zeta (64 + (a * 2 + 0))) (dsa_zeta (64 + (a * 2 + 1)))) [0..<32] re"
    by (simp only: fold_map comp_def prod.case)
  have e: "dsa_ntt_at_layer_1 re = map (\<lambda>a. simd_unit_ntt_at_layer_1 (re ! a) (dsa_zeta (64 + (a * 2 + 0))) (dsa_zeta (64 + (a * 2 + 1)))) [0..<32]"
    unfolding a using wf_blocks(1) [OF assms] by (intro unit_rounds) (simp_all only: ntt_at_layer_1_round_def)
  note flat = unit_layer_flat [OF assms, of 2 2 "\<lambda>a v. simd_unit_ntt_at_layer_1 v (dsa_zeta (64 + (a * 2 + 0))) (dsa_zeta (64 + (a * 2 + 1)))" "\<lambda>r. dsa_fwd_lo (dsa_zeta (64 + r))" "\<lambda>r. dsa_fwd_hi (dsa_zeta (64 + r))",
      OF _ simd_unit_ntt_at_layer_1_eq [where zf = "\<lambda>r. dsa_zeta (64 + (a * 2 + r))" for a, OF wf_dsa_ring_nth [OF assms]]]
  show "wf_dsa_ring (dsa_ntt_at_layer_1 re)" unfolding e by (rule flat(1)) simp_all
  show "concat (dsa_ntt_at_layer_1 re) = dsa_fwd_layer 2 (concat re)" unfolding e dsa_fwd_layer_def by (subst flat(2)) simp_all
qed

lemma dsa_ntt_at_layer_0_flat:
  assumes "wf_dsa_ring re"
  shows "wf_dsa_ring (dsa_ntt_at_layer_0 re)" and "concat (dsa_ntt_at_layer_0 re) = dsa_fwd_layer 1 (concat re)"
proof -
  have "dsa_ntt_at_layer_0 re = fold (\<lambda>(index, z0, z1, z2, z3) re. ntt_at_layer_0_round re index z0 z1 z2 z3) (map (\<lambda>a. (a, dsa_zeta (128 + (a * 4 + 0)), dsa_zeta (128 + (a * 4 + 1)), dsa_zeta (128 + (a * 4 + 2)), dsa_zeta (128 + (a * 4 + 3)))) [0..<32]) re"
    unfolding dsa_ntt_at_layer_0_def by (rule arg_cong [where f = "\<lambda>args. fold _ args re"]) code_simp
  then have a: "dsa_ntt_at_layer_0 re = fold (\<lambda>a re. ntt_at_layer_0_round re a (dsa_zeta (128 + (a * 4 + 0))) (dsa_zeta (128 + (a * 4 + 1))) (dsa_zeta (128 + (a * 4 + 2))) (dsa_zeta (128 + (a * 4 + 3)))) [0..<32] re"
    by (simp only: fold_map comp_def prod.case)
  have e: "dsa_ntt_at_layer_0 re = map (\<lambda>a. simd_unit_ntt_at_layer_0 (re ! a) (dsa_zeta (128 + (a * 4 + 0))) (dsa_zeta (128 + (a * 4 + 1))) (dsa_zeta (128 + (a * 4 + 2))) (dsa_zeta (128 + (a * 4 + 3)))) [0..<32]"
    unfolding a using wf_blocks(1) [OF assms] by (intro unit_rounds) (simp_all only: ntt_at_layer_0_round_def)
  note flat = unit_layer_flat [OF assms, of 4 1 "\<lambda>a v. simd_unit_ntt_at_layer_0 v (dsa_zeta (128 + (a * 4 + 0))) (dsa_zeta (128 + (a * 4 + 1))) (dsa_zeta (128 + (a * 4 + 2))) (dsa_zeta (128 + (a * 4 + 3)))" "\<lambda>r. dsa_fwd_lo (dsa_zeta (128 + r))" "\<lambda>r. dsa_fwd_hi (dsa_zeta (128 + r))",
      OF _ simd_unit_ntt_at_layer_0_eq [where zf = "\<lambda>r. dsa_zeta (128 + (a * 4 + r))" for a, OF wf_dsa_ring_nth [OF assms]]]
  show "wf_dsa_ring (dsa_ntt_at_layer_0 re)" unfolding e by (rule flat(1)) simp_all
  show "concat (dsa_ntt_at_layer_0 re) = dsa_fwd_layer 1 (concat re)" unfolding e dsa_fwd_layer_def by (subst flat(2)) simp_all
qed

lemma dsa_invert_ntt_at_layer_2_flat:
  assumes "wf_dsa_ring re"
  shows "wf_dsa_ring (dsa_invert_ntt_at_layer_2 re)" and "concat (dsa_invert_ntt_at_layer_2 re) = dsa_inv_layer 4 (concat re)"
proof -
  have "dsa_invert_ntt_at_layer_2 re = fold (\<lambda>(index, zeta) re. invert_ntt_at_layer_2_round re index zeta) (map (\<lambda>a. (a, dsa_zeta (63 - (a * 1 + 0)))) [0..<32]) re"
    unfolding dsa_invert_ntt_at_layer_2_def by (rule arg_cong [where f = "\<lambda>args. fold _ args re"]) code_simp
  then have a: "dsa_invert_ntt_at_layer_2 re = fold (\<lambda>a re. invert_ntt_at_layer_2_round re a (dsa_zeta (63 - (a * 1 + 0)))) [0..<32] re"
    by (simp only: fold_map comp_def prod.case)
  have e: "dsa_invert_ntt_at_layer_2 re = map (\<lambda>a. simd_unit_invert_ntt_at_layer_2 (re ! a) (dsa_zeta (63 - (a * 1 + 0)))) [0..<32]"
    unfolding a using wf_blocks(1) [OF assms] by (intro unit_rounds) (simp_all only: invert_ntt_at_layer_2_round_def)
  note flat = unit_layer_flat [OF assms, of 1 4 "\<lambda>a v. simd_unit_invert_ntt_at_layer_2 v (dsa_zeta (63 - (a * 1 + 0)))" "\<lambda>r. dsa_inv_lo" "\<lambda>r. dsa_inv_hi (dsa_zeta (63 - r))",
      OF _ simd_unit_invert_ntt_at_layer_2_eq [where zf = "\<lambda>r. dsa_zeta (63 - (a * 1 + r))" for a, OF wf_dsa_ring_nth [OF assms]]]
  show "wf_dsa_ring (dsa_invert_ntt_at_layer_2 re)" unfolding e by (rule flat(1)) simp_all
  show "concat (dsa_invert_ntt_at_layer_2 re) = dsa_inv_layer 4 (concat re)" unfolding e dsa_inv_layer_def by (subst flat(2)) simp_all
qed

lemma dsa_invert_ntt_at_layer_1_flat:
  assumes "wf_dsa_ring re"
  shows "wf_dsa_ring (dsa_invert_ntt_at_layer_1 re)" and "concat (dsa_invert_ntt_at_layer_1 re) = dsa_inv_layer 2 (concat re)"
proof -
  have "dsa_invert_ntt_at_layer_1 re = fold (\<lambda>(index, z0, z1) re. invert_ntt_at_layer_1_round re index z0 z1) (map (\<lambda>a. (a, dsa_zeta (127 - (a * 2 + 0)), dsa_zeta (127 - (a * 2 + 1)))) [0..<32]) re"
    unfolding dsa_invert_ntt_at_layer_1_def by (rule arg_cong [where f = "\<lambda>args. fold _ args re"]) code_simp
  then have a: "dsa_invert_ntt_at_layer_1 re = fold (\<lambda>a re. invert_ntt_at_layer_1_round re a (dsa_zeta (127 - (a * 2 + 0))) (dsa_zeta (127 - (a * 2 + 1)))) [0..<32] re"
    by (simp only: fold_map comp_def prod.case)
  have e: "dsa_invert_ntt_at_layer_1 re = map (\<lambda>a. simd_unit_invert_ntt_at_layer_1 (re ! a) (dsa_zeta (127 - (a * 2 + 0))) (dsa_zeta (127 - (a * 2 + 1)))) [0..<32]"
    unfolding a using wf_blocks(1) [OF assms] by (intro unit_rounds) (simp_all only: invert_ntt_at_layer_1_round_def)
  note flat = unit_layer_flat [OF assms, of 2 2 "\<lambda>a v. simd_unit_invert_ntt_at_layer_1 v (dsa_zeta (127 - (a * 2 + 0))) (dsa_zeta (127 - (a * 2 + 1)))" "\<lambda>r. dsa_inv_lo" "\<lambda>r. dsa_inv_hi (dsa_zeta (127 - r))",
      OF _ simd_unit_invert_ntt_at_layer_1_eq [where zf = "\<lambda>r. dsa_zeta (127 - (a * 2 + r))" for a, OF wf_dsa_ring_nth [OF assms]]]
  show "wf_dsa_ring (dsa_invert_ntt_at_layer_1 re)" unfolding e by (rule flat(1)) simp_all
  show "concat (dsa_invert_ntt_at_layer_1 re) = dsa_inv_layer 2 (concat re)" unfolding e dsa_inv_layer_def by (subst flat(2)) simp_all
qed

lemma dsa_invert_ntt_at_layer_0_flat:
  assumes "wf_dsa_ring re"
  shows "wf_dsa_ring (dsa_invert_ntt_at_layer_0 re)" and "concat (dsa_invert_ntt_at_layer_0 re) = dsa_inv_layer 1 (concat re)"
proof -
  have "dsa_invert_ntt_at_layer_0 re = fold (\<lambda>(index, z0, z1, z2, z3) re. invert_ntt_at_layer_0_round re index z0 z1 z2 z3) (map (\<lambda>a. (a, dsa_zeta (255 - (a * 4 + 0)), dsa_zeta (255 - (a * 4 + 1)), dsa_zeta (255 - (a * 4 + 2)), dsa_zeta (255 - (a * 4 + 3)))) [0..<32]) re"
    unfolding dsa_invert_ntt_at_layer_0_def by (rule arg_cong [where f = "\<lambda>args. fold _ args re"]) code_simp
  then have a: "dsa_invert_ntt_at_layer_0 re = fold (\<lambda>a re. invert_ntt_at_layer_0_round re a (dsa_zeta (255 - (a * 4 + 0))) (dsa_zeta (255 - (a * 4 + 1))) (dsa_zeta (255 - (a * 4 + 2))) (dsa_zeta (255 - (a * 4 + 3)))) [0..<32] re"
    by (simp only: fold_map comp_def prod.case)
  have e: "dsa_invert_ntt_at_layer_0 re = map (\<lambda>a. simd_unit_invert_ntt_at_layer_0 (re ! a) (dsa_zeta (255 - (a * 4 + 0))) (dsa_zeta (255 - (a * 4 + 1))) (dsa_zeta (255 - (a * 4 + 2))) (dsa_zeta (255 - (a * 4 + 3)))) [0..<32]"
    unfolding a using wf_blocks(1) [OF assms] by (intro unit_rounds) (simp_all only: invert_ntt_at_layer_0_round_def)
  note flat = unit_layer_flat [OF assms, of 4 1 "\<lambda>a v. simd_unit_invert_ntt_at_layer_0 v (dsa_zeta (255 - (a * 4 + 0))) (dsa_zeta (255 - (a * 4 + 1))) (dsa_zeta (255 - (a * 4 + 2))) (dsa_zeta (255 - (a * 4 + 3)))" "\<lambda>r. dsa_inv_lo" "\<lambda>r. dsa_inv_hi (dsa_zeta (255 - r))",
      OF _ simd_unit_invert_ntt_at_layer_0_eq [where zf = "\<lambda>r. dsa_zeta (255 - (a * 4 + r))" for a, OF wf_dsa_ring_nth [OF assms]]]
  show "wf_dsa_ring (dsa_invert_ntt_at_layer_0 re)" unfolding e by (rule flat(1)) simp_all
  show "concat (dsa_invert_ntt_at_layer_0 re) = dsa_inv_layer 1 (concat re)" unfolding e dsa_inv_layer_def by (subst flat(2)) simp_all
qed

end
