(* ===== verification/MLDSA_NTT_Spec.thy ===== *)
theory MLDSA_NTT_Spec
  imports MLDSA_NTT_Layers Libcrux_Transform
begin

section \<open>ML-DSA: the transform of the code refines the transform of FIPS 204\<close>

text \<open>
  The reference transforms are algorithms 41 and 42 of FIPS 204: eight layers modulo 8380417 with the powers of the root of unity 1753 in
  bit-reversed order. The 255 constants of the code are those powers in Montgomery form, which is checked entry by entry. The
  lemmas show that the code computes the reference transforms modulo the field modulus, and that no intermediate value leaves the range of
  \<open>int32_t\<close>: the forward layers add at most \<open>8380416\<close> each, and the inverse layers at most double.
\<close>

subsection \<open>Reference transforms\<close>

abbreviation dsa_cong :: "int \<Rightarrow> int \<Rightarrow> bool" where
  "dsa_cong \<equiv> cong_mod 8380417"

abbreviation dsa_modq :: "int list \<Rightarrow> int list" where
  "dsa_modq \<equiv> residues 8380417"

definition dsa_zeta_spec :: "nat \<Rightarrow> int" where
  "dsa_zeta_spec k = 1753 ^ bit_reverse 8 k mod 8380417"

definition dsa_NTT :: "int list \<Rightarrow> int list" where
  "dsa_NTT p = fold (transform_layer 8380417 dsa_zeta_spec) [128, 64, 32, 16, 8, 4, 2, 1] p"

definition dsa_NTT_inverse :: "int list \<Rightarrow> int list" where
  "dsa_NTT_inverse p =
     map (\<lambda>x. (8347681 * x) mod 8380417) (fold (inverse_transform_layer 8380417 dsa_zeta_spec) [1, 2, 4, 8, 16, 32, 64, 128] p)"

lemma dsa_layer_lengths: "map (\<lambda>i. 128 div 2 ^ i) [0..<8] = [128, 64, 32, 16, 8, 4, 2, 1 :: nat]"
  by code_simp

lemma dsa_NTT_transform:
  "dsa_NTT p = transform 8380417 dsa_zeta_spec 8 p"
  "dsa_NTT_inverse p = scale_mod 8380417 8347681 (inverse_transform 8380417 dsa_zeta_spec 8 p)"
  using dsa_layer_lengths by (simp_all add: dsa_NTT_def dsa_NTT_inverse_def transform_fold scale_mod_def)

subsection \<open>The table of roots of unity\<close>

text \<open>
  The powers \<open>1753^(2^i)\<close> are computed by squaring. The constants of the code double block by block: the block that starts at \<open>2^b\<close> is
  the part of the table before it times \<open>1753^(2^(7 - b))\<close>.
\<close>

lemma square_step: "cong_mod q (g ^ 2 ^ n) c \<Longrightarrow> (c * c) mod q = d mod q \<Longrightarrow> cong_mod q (g ^ 2 ^ Suc n) d"
  using cong_mod_mult [of q "g ^ 2 ^ n" c "g ^ 2 ^ n" c] by (simp add: cong_mod_def power_add [symmetric] mult_2)

definition dsa_roots :: "int list" where
  "dsa_roots = [1753, 3073009, 3602218, 5010068, 7778734, 5178923, 3765607, 4808194]"

lemma dsa_roots_squares: "list_all (\<lambda>i. (dsa_roots ! i * dsa_roots ! i) mod 8380417 = dsa_roots ! Suc i mod 8380417) [0, 1, 2, 3, 4, 5, 6]"
  by code_simp

lemma dsa_roots_power: "i < 8 \<Longrightarrow> dsa_cong (1753 ^ 2 ^ i) (dsa_roots ! i)"
proof (induction i)
  case 0
  show ?case by (simp add: dsa_roots_def)
next
  case (Suc i)
  then have "i \<in> set [0, 1, 2, 3, 4, 5, 6]" by auto
  then have "(dsa_roots ! i * dsa_roots ! i) mod 8380417 = dsa_roots ! Suc i mod 8380417"
    using dsa_roots_squares unfolding list_all_iff by blast
  then show ?case using Suc by (intro square_step [of 8380417 1753 i "dsa_roots ! i"]) simp_all
qed

interpretation dsa: root_of_unity 8380417 1753 8
proof
  have "dsa_cong (1753 ^ 2 ^ Suc 7) (- 1)"
    by (rule square_step [OF dsa_roots_power]) (simp_all add: dsa_roots_def)
  then show "dsa_cong (1753 ^ 2 ^ 8) (- 1)" unfolding Suc_numeral by (simp only: semiring_norm)
qed simp_all

lemmas dsa_transform = dsa.inverse_after_transform dsa.transform_product
lemmas dsa_zeta_spec_transform = dsa_transform [folded dsa_zeta_spec_def [abs_def]]

text \<open>\<open>dsa_table\<close> is the table with \<open>2^32\<close>, the Montgomery form of 1, as its unused first entry.\<close>

definition dsa_table :: "int list" where
  "dsa_table = 4193792 # tl DSA_ZETAS"

definition dsa_block_ok :: "nat \<Rightarrow> bool" where
  "dsa_block_ok b \<longleftrightarrow>
     list_all2 (\<lambda>x y. (x * dsa_roots ! (7 - b) - y) mod 8380417 = 0) (take (2 ^ b) dsa_table) (take (2 ^ b) (drop (2 ^ b) dsa_table))"

lemma dsa_blocks: "list_all dsa_block_ok [0, 1, 2, 3, 4, 5, 6, 7]" "list_all (\<lambda>z. \<bar>z\<bar> \<le> 4190208) (tl DSA_ZETAS)"
  by code_simp+

lemma length_dsa_table: "length dsa_table = 256"
  by (simp add: dsa_table_def DSA_ZETAS_def)

lemma dsa_table_power: "b \<le> 8 \<Longrightarrow> k < 2 ^ b \<Longrightarrow> dsa_cong (dsa_table ! k) (4193792 * 1753 ^ bit_reverse 8 k)"
proof (induction b arbitrary: k)
  case 0
  then show ?case by (simp add: dsa_table_def)
next
  case (Suc b)
  show ?case
  proof (cases "k < 2 ^ b")
    case True
    then show ?thesis using Suc by simp
  next
    case False
    define i where "i = k - 2 ^ b"
    have k: "k = 2 ^ b + i" "i < 2 ^ b" using False Suc.prems by (auto simp: i_def)
    have "(2 :: nat) ^ Suc b \<le> 2 ^ 8" using Suc.prems(1) by (intro power_increasing) simp_all
    then have l: "2 ^ b + 2 ^ b \<le> (256 :: nat)" by simp
    have "b \<in> set [0, 1, 2, 3, 4, 5, 6, 7]" using Suc.prems(1) by auto
    then have "dsa_block_ok b" using dsa_blocks(1) unfolding list_all_iff by blast
    then have "(dsa_table ! i * dsa_roots ! (7 - b) - dsa_table ! (2 ^ b + i)) mod 8380417 = 0"
      using k(2) l list_all2_nthD [of _ "take (2 ^ b) dsa_table" "take (2 ^ b) (drop (2 ^ b) dsa_table)" i]
      by (simp add: dsa_block_ok_def length_dsa_table)
    then have "dsa_cong (dsa_table ! k) (dsa_table ! i * dsa_roots ! (7 - b))"
      unfolding cong_mod_def k(1) mod_eq_dvd_iff by (subst dvd_diff_commute) (rule mod_0_imp_dvd)
    also have "dsa_cong \<dots> ((4193792 * 1753 ^ bit_reverse 8 i) * 1753 ^ 2 ^ (7 - b))"
      using Suc.IH [of i] Suc.prems(1) k(2) by (intro cong_mod_mult cong_mod_sym [OF dsa_roots_power]) simp_all
    also have "(4193792 * 1753 ^ bit_reverse 8 i) * 1753 ^ 2 ^ (7 - b) = (4193792 * 1753 ^ bit_reverse 8 k :: int)"
      unfolding k(1) using bit_reverse_add_power [OF k(2), of 8] Suc.prems(1) by (simp add: power_add)
    finally show ?thesis .
  qed
qed

lemma dsa_zeta_values:
  assumes "1 \<le> k" and "k < 256"
  shows "\<bar>dsa_zeta k\<bar> \<le> 4190208" and "dsa_cong (dsa_zeta k * 8265825) (dsa_zeta_spec k)"
proof -
  have ne: "DSA_ZETAS \<noteq> []" "length DSA_ZETAS = 256" by (simp_all add: DSA_ZETAS_def)
  obtain i where i: "k = Suc i" "i < 255" using assms by (cases k) auto
  have z: "dsa_zeta k = tl DSA_ZETAS ! i" using i ne by (simp add: dsa_zeta_def nth_tl)
  have "tl DSA_ZETAS ! i \<in> set (tl DSA_ZETAS)" using i ne by simp
  then show "\<bar>dsa_zeta k\<bar> \<le> 4190208" using dsa_blocks(2) unfolding z list_all_iff by blast
  have "dsa_cong (dsa_zeta k) (4193792 * 1753 ^ bit_reverse 8 k)"
    using dsa_table_power [of 8 k] assms(2) unfolding z by (simp add: dsa_table_def i(1))
  then have "dsa_cong (dsa_zeta k * 8265825) (4193792 * 1753 ^ bit_reverse 8 k * 8265825)" by (intro cong_mod_mult) simp_all
  also have "4193792 * 1753 ^ bit_reverse 8 k * 8265825 = 1753 ^ bit_reverse 8 k + 8380417 * (4136447 * 1753 ^ bit_reverse 8 k :: int)"
    by simp
  also have "dsa_cong \<dots> (1753 ^ bit_reverse 8 k)" by (rule cong_mod_multiple) simp
  also have "dsa_cong \<dots> (dsa_zeta_spec k)" unfolding dsa_zeta_spec_def by (rule cong_mod_sym [OF cong_mod_mod])
  finally show "dsa_cong (dsa_zeta k * 8265825) (dsa_zeta_spec k)" .
qed

subsection \<open>One layer\<close>

lemma dsa_montgomery_cong:
  assumes "\<bar>fe * fer\<bar> \<le> 2147483648 * 8380416"
  shows "dsa_cong (dsa_montgomery_multiply_fe_by_fer fe fer) (fe * fer * 8265825)"
    and "\<bar>dsa_montgomery_multiply_fe_by_fer fe fer\<bar> \<le> 8380416"
    and "\<bar>dsa_montgomery_multiply_fe_by_fer fe fer\<bar> * 4294967296 \<le> \<bar>fe * fer\<bar> + 2147483648 * 8380417"
proof -
  have "as_i64 (fe * fer) = fe * fer" using assms by (simp add: abs_le_iff)
  then have e: "dsa_montgomery_multiply_fe_by_fer fe fer = dsa_montgomery_reduce_element (fe * fer)"
    by (simp add: dsa_montgomery_multiply_fe_by_fer_def)
  note m = dsa_montgomery_reduce_element_eq [OF assms]
  let ?r = "dsa_montgomery_reduce_element (fe * fer)"
  have "dsa_cong ?r (?r * 4294967296 * 8265825)"
    by (rule cong_mod_sym, rule cong_mod_multiple [where k = "?r * 4236238847"]) simp
  also have "dsa_cong (?r * 4294967296 * 8265825) (fe * fer * 8265825)"
    by (rule cong_mod_mult [OF _ cong_mod_refl]) (simp add: cong_mod_def m(1))
  finally show "dsa_cong (dsa_montgomery_multiply_fe_by_fer fe fer) (fe * fer * 8265825)" unfolding e .
  show "\<bar>dsa_montgomery_multiply_fe_by_fer fe fer\<bar> \<le> 8380416" using m(2) unfolding e by simp
  obtain k where "is_i32 k" "?r * 4294967296 = fe * fer - k * 8380417" using dsa_montgomery_aux [OF assms] by blast
  then show "\<bar>dsa_montgomery_multiply_fe_by_fer fe fer\<bar> * 4294967296 \<le> \<bar>fe * fer\<bar> + 2147483648 * 8380417"
    unfolding e is_i32_def by linarith
qed

lemma dsa_abs_mult_le: "\<bar>x\<bar> \<le> m \<Longrightarrow> \<bar>y\<bar> \<le> n \<Longrightarrow> \<bar>x * y\<bar> \<le> m * n" for x y m n :: int
  unfolding abs_mult by (intro mult_mono) auto

lemma dsa_zeta_multiply:
  assumes "\<bar>x\<bar> \<le> 2147483647" and "1 \<le> k" and "k < 256"
  shows "dsa_cong (dsa_montgomery_multiply_fe_by_fer x (dsa_zeta k)) (dsa_zeta_spec k * x)"
    and "\<bar>dsa_montgomery_multiply_fe_by_fer x (dsa_zeta k)\<bar> \<le> 8380416"
proof -
  note z = dsa_zeta_values [OF assms(2,3)]
  have b: "\<bar>x * dsa_zeta k\<bar> \<le> 2147483648 * 8380416" using dsa_abs_mult_le [OF assms(1) z(1)] by linarith
  note m = dsa_montgomery_cong [OF b]
  show "\<bar>dsa_montgomery_multiply_fe_by_fer x (dsa_zeta k)\<bar> \<le> 8380416" by (rule m(2))
  have "dsa_cong (x * (dsa_zeta k * 8265825)) (x * dsa_zeta_spec k)" by (intro cong_mod_mult z(2) cong_mod_refl)
  then show "dsa_cong (dsa_montgomery_multiply_fe_by_fer x (dsa_zeta k)) (dsa_zeta_spec k * x)"
    using cong_mod_trans [OF m(1)] by (simp add: mult.assoc mult.commute)
qed

lemma dsa_fwd_layer_refines:
  assumes "length p = 256" and j: "j < 8" and b: "\<And>x. x \<in> set p \<Longrightarrow> \<bar>x\<bar> \<le> B" and B: "B + 8380416 \<le> 2147483647"
  defines "len \<equiv> 128 div 2 ^ j"
  shows "dsa_modq (dsa_fwd_layer len p) = transform_layer 8380417 dsa_zeta_spec len (dsa_modq p)"
    and "x \<in> set (dsa_fwd_layer len p) \<Longrightarrow> \<bar>x\<bar> \<le> B + 8380416"
proof -
  note d = layer_dims [OF j, folded len_def]
  have z: "1 \<le> 2 ^ j + r" "2 ^ j + r < 256" if "r < 2 ^ j" for r :: nat
  proof -
    have "(2 :: nat) ^ j \<le> 2 ^ 7" using j by (intro power_increasing) simp_all
    then show "2 ^ j + r < 256" using that by simp
    show "1 \<le> 2 ^ j + r" by (simp add: Suc_le_eq)
  qed
  let ?m = "\<lambda>r y. dsa_montgomery_multiply_fe_by_fer y (dsa_zeta (2 ^ j + r))"
  have m: "dsa_cong (?m r y) (dsa_zeta_spec (2 ^ j + r) * y)" "\<bar>?m r y\<bar> \<le> 8380416" if "r < 2 ^ j" "\<bar>y\<bar> \<le> B" for r y
    using dsa_zeta_multiply [OF _ z [OF that(1)], of y] that(2) B by auto
  have v: "dsa_fwd_lo (dsa_zeta (2 ^ j + r)) a c = a + ?m r c" "dsa_fwd_hi (dsa_zeta (2 ^ j + r)) a c = a - ?m r c"
    if "r < 2 ^ j" "\<bar>a\<bar> \<le> B" "\<bar>c\<bar> \<le> B" for r a c
    using that(2) m(2) [OF that(1,3)] B unfolding dsa_fwd_lo_def dsa_fwd_hi_def
    by (intro as_i32_id; unfold is_i32_def; linarith)+
  show "dsa_modq (dsa_fwd_layer len p) = transform_layer 8380417 dsa_zeta_spec len (dsa_modq p)"
    unfolding dsa_fwd_layer_def transform_layer_def d(3)
  proof (rule layer_map_residues [OF assms(1) d(2) b])
    fix r :: nat and a c :: int assume h: "r < 2 ^ j" "\<bar>a\<bar> \<le> B" "\<bar>c\<bar> \<le> B"
    have "dsa_cong (?m r c) (dsa_zeta_spec (2 ^ j + r) * (c mod 8380417))"
      using cong_mod_trans [OF m(1) [OF h(1,3)] cong_mod_mult [OF cong_mod_refl cong_mod_sym [OF cong_mod_mod]]] by blast
    then show "dsa_fwd_lo (dsa_zeta (2 ^ j + r)) a c mod 8380417
        = (a mod 8380417 + dsa_zeta_spec (2 ^ j + r) * (c mod 8380417)) mod 8380417"
      and "dsa_fwd_hi (dsa_zeta (2 ^ j + r)) a c mod 8380417
        = (a mod 8380417 - dsa_zeta_spec (2 ^ j + r) * (c mod 8380417)) mod 8380417"
      unfolding v [OF h] using cong_mod_sym [OF cong_mod_mod, of 8380417 a]
      by (simp_all add: cong_mod_add cong_mod_diff flip: cong_mod_def)
  qed
  assume x: "x \<in> set (dsa_fwd_layer len p)"
  have "\<bar>dsa_fwd_lo (dsa_zeta (2 ^ j + r)) a c\<bar> \<le> B + 8380416" "\<bar>dsa_fwd_hi (dsa_zeta (2 ^ j + r)) a c\<bar> \<le> B + 8380416"
    if h: "r < 2 ^ j" "\<bar>a\<bar> \<le> B" "\<bar>c\<bar> \<le> B" for r a c
    unfolding v [OF h] using h(2) m(2) [OF h(1,3)] by linarith+
  then show "\<bar>x\<bar> \<le> B + 8380416"
    using layer_map_all [where P = "\<lambda>y. \<bar>y\<bar> \<le> B" and Q = "\<lambda>y. \<bar>y\<bar> \<le> B + 8380416",
        OF assms(1) d(2) b _ _ x [unfolded dsa_fwd_layer_def d(3)]] by blast
qed

lemma dsa_inv_layer_refines:
  assumes "length p = 256" and j: "j < 8" and b: "\<And>x. x \<in> set p \<Longrightarrow> \<bar>x\<bar> \<le> B" and B: "8380416 \<le> B" "2 * B \<le> 2147483647"
  defines "len \<equiv> 128 div 2 ^ j"
  shows "dsa_modq (dsa_inv_layer len p) = inverse_transform_layer 8380417 dsa_zeta_spec len (dsa_modq p)"
    and "x \<in> set (dsa_inv_layer len p) \<Longrightarrow> \<bar>x\<bar> \<le> 2 * B"
proof -
  note d = layer_dims [OF j, folded len_def]
  have z: "1 \<le> 2 * 2 ^ j - 1 - r" "2 * 2 ^ j - 1 - r < (256 :: nat)" if "r < 2 ^ j" for r :: nat
  proof -
    have "(2 :: nat) ^ j \<le> 2 ^ 7" using j by (intro power_increasing) simp_all
    then show "2 * 2 ^ j - 1 - r < (256 :: nat)" by simp
    show "1 \<le> 2 * 2 ^ j - 1 - r" using that by linarith
  qed
  have s: "as_i32 (a + c) = a + c" "as_i32 (c - a) = c - a" "\<bar>c - a\<bar> \<le> 2147483647" if "\<bar>a\<bar> \<le> B" "\<bar>c\<bar> \<le> B" for a c
    using that B by (intro as_i32_id; unfold is_i32_def; linarith | linarith)+
  have hi: "dsa_cong (dsa_inv_hi (dsa_zeta (2 * 2 ^ j - 1 - r)) a c) (dsa_zeta_spec (2 * 2 ^ j - 1 - r) * (c - a))"
      "\<bar>dsa_inv_hi (dsa_zeta (2 * 2 ^ j - 1 - r)) a c\<bar> \<le> 8380416" if "r < 2 ^ j" "\<bar>a\<bar> \<le> B" "\<bar>c\<bar> \<le> B" for r a c
    using dsa_zeta_multiply [OF s(3) [OF that(2,3)] z [OF that(1)]] s(2) [OF that(2,3)] by (simp_all add: dsa_inv_hi_def)
  show "dsa_modq (dsa_inv_layer len p) = inverse_transform_layer 8380417 dsa_zeta_spec len (dsa_modq p)"
    unfolding dsa_inv_layer_def inverse_transform_layer_def d(4)
  proof (rule layer_map_residues [OF assms(1) d(2) b])
    fix r :: nat and a c :: int assume h: "r < 2 ^ j" "\<bar>a\<bar> \<le> B" "\<bar>c\<bar> \<le> B"
    show "dsa_inv_lo a c mod 8380417 = (a mod 8380417 + c mod 8380417) mod 8380417"
      using s(1) [OF h(2,3)] by (simp add: dsa_inv_lo_def mod_add_eq)
    show "dsa_inv_hi (dsa_zeta (2 * 2 ^ j - 1 - r)) a c mod 8380417
        = (dsa_zeta_spec (2 * 2 ^ j - 1 - r) * (c mod 8380417 - a mod 8380417)) mod 8380417"
      unfolding cong_mod_def [symmetric]
      by (rule cong_mod_trans [OF hi(1) [OF h]]) (intro cong_mod_mult cong_mod_diff cong_mod_refl cong_mod_sym [OF cong_mod_mod])
  qed
  assume x: "x \<in> set (dsa_inv_layer len p)"
  have "\<bar>dsa_inv_lo a c\<bar> \<le> 2 * B" "\<bar>dsa_inv_hi (dsa_zeta (2 * 2 ^ j - 1 - r)) a c\<bar> \<le> 2 * B"
    if h: "r < 2 ^ j" "\<bar>a\<bar> \<le> B" "\<bar>c\<bar> \<le> B" for r a c
    using s(1) [OF h(2,3)] h(2,3) hi(2) [OF h] B(1) by (simp_all add: dsa_inv_lo_def)
  then show "\<bar>x\<bar> \<le> 2 * B"
    using layer_map_all [where P = "\<lambda>y. \<bar>y\<bar> \<le> B" and Q = "\<lambda>y. \<bar>y\<bar> \<le> 2 * B",
        OF assms(1) d(2) b _ _ x [unfolded dsa_inv_layer_def d(4)]] by blast
qed

subsection \<open>The whole transforms\<close>

definition dsa_bounded :: "int \<Rightarrow> dsa_ring_element \<Rightarrow> bool" where
  "dsa_bounded B re \<longleftrightarrow> wf_dsa_ring re \<and> list_all (\<lambda>x. \<bar>x\<bar> \<le> B) (concat re)"

lemma dsa_bounded_wf: "dsa_bounded B re \<Longrightarrow> wf_dsa_ring re"
  by (simp add: dsa_bounded_def)

lemma dsa_bounded_coeff: "dsa_bounded B re \<Longrightarrow> x \<in> set (concat re) \<Longrightarrow> \<bar>x\<bar> \<le> B"
  unfolding dsa_bounded_def list_all_iff by blast

lemma dsa_boundedI: "wf_dsa_ring re \<Longrightarrow> (\<And>x. x \<in> set (concat re) \<Longrightarrow> \<bar>x\<bar> \<le> B) \<Longrightarrow> dsa_bounded B re"
  unfolding dsa_bounded_def list_all_iff by blast

lemma dsa_bounded_mono: "dsa_bounded B re \<Longrightarrow> B \<le> C \<Longrightarrow> dsa_bounded C re"
  by (rule dsa_boundedI [OF dsa_bounded_wf]) (use dsa_bounded_coeff [of B re] in fastforce)+

definition dsa_fwd_layers :: "nat \<Rightarrow> int list \<Rightarrow> int list" where
  "dsa_fwd_layers j p = fold dsa_fwd_layer (map (\<lambda>i. 128 div 2 ^ i) [0..<j]) p"

definition dsa_inv_layers :: "nat \<Rightarrow> int list \<Rightarrow> int list" where
  "dsa_inv_layers j p = fold dsa_inv_layer (rev (map (\<lambda>i. 128 div 2 ^ i) [0..<j])) p"

lemma dsa_layers_Suc:
  "dsa_fwd_layers (Suc j) p = dsa_fwd_layer (128 div 2 ^ j) (dsa_fwd_layers j p)"
  "dsa_inv_layers (Suc j) p = dsa_inv_layers j (dsa_inv_layer (128 div 2 ^ j) p)"
  by (simp_all add: dsa_fwd_layers_def dsa_inv_layers_def)

lemma length_dsa_layers [simp]:
  "length (dsa_fwd_layer len p) = 256" "length (dsa_inv_layer len p) = 256" "length p = 256 \<Longrightarrow> length (dsa_fwd_layers j p) = 256"
proof -
  have l: "length (dsa_fwd_layer len p) = 256" for len p by (simp add: dsa_fwd_layer_def)
  show "length (dsa_fwd_layer len p) = 256" "length (dsa_inv_layer len p) = 256"
    by (simp_all add: dsa_fwd_layer_def dsa_inv_layer_def)
  show "length p = 256 \<Longrightarrow> length (dsa_fwd_layers j p) = 256"
    by (cases j) (simp_all only: dsa_layers_Suc l, simp add: dsa_fwd_layers_def)
qed

lemma dsa_fwd_layers_refine:
  assumes "length p = 256" and "j \<le> 8" and b: "\<And>x. x \<in> set p \<Longrightarrow> \<bar>x\<bar> \<le> B" and B: "B + 8 * 8380416 \<le> 2147483647"
  shows "dsa_modq (dsa_fwd_layers j p) = transform 8380417 dsa_zeta_spec j (dsa_modq p)
    \<and> (\<forall>x \<in> set (dsa_fwd_layers j p). \<bar>x\<bar> \<le> B + int j * 8380416)"
  using assms(2)
proof (induction j)
  case 0
  then show ?case using b by (simp add: dsa_fwd_layers_def)
next
  case (Suc j)
  then have IH: "dsa_modq (dsa_fwd_layers j p) = transform 8380417 dsa_zeta_spec j (dsa_modq p)"
    "\<And>x. x \<in> set (dsa_fwd_layers j p) \<Longrightarrow> \<bar>x\<bar> \<le> B + int j * 8380416" by auto
  have bnd: "B + int j * 8380416 + 8380416 \<le> 2147483647" using B Suc.prems by linarith
  note L = dsa_fwd_layer_refines [OF length_dsa_layers(3) [OF assms(1)] _ IH(2) bnd, of j j]
  show ?case using L Suc.prems IH(1) by (auto simp: dsa_layers_Suc algebra_simps)
qed

lemma dsa_inv_layers_refine:
  assumes "length p = 256" and "j \<le> 8" and "\<And>x. x \<in> set p \<Longrightarrow> \<bar>x\<bar> \<le> B" and "8380416 \<le> B" and "2 ^ j * B \<le> 2147483647"
  shows "dsa_modq (dsa_inv_layers j p) = inverse_transform 8380417 dsa_zeta_spec j (dsa_modq p)
    \<and> (\<forall>x \<in> set (dsa_inv_layers j p). \<bar>x\<bar> \<le> 2 ^ j * B)"
  using assms
proof (induction j arbitrary: p B)
  case 0
  then show ?case by (simp add: dsa_inv_layers_def)
next
  case (Suc j)
  have "1 * (2 * B) \<le> 2 ^ j * (2 * B)" using Suc.prems(4) by (intro mult_right_mono) simp_all
  then have B: "2 * B \<le> 2147483647" using Suc.prems(5) by simp
  have j: "j < 8" using Suc.prems(2) by simp
  note L = dsa_inv_layer_refines [OF Suc.prems(1) j Suc.prems(3,4) B]
  have "dsa_modq (dsa_inv_layers j (dsa_inv_layer (128 div 2 ^ j) p))
      = inverse_transform 8380417 dsa_zeta_spec j (dsa_modq (dsa_inv_layer (128 div 2 ^ j) p))
    \<and> (\<forall>x \<in> set (dsa_inv_layers j (dsa_inv_layer (128 div 2 ^ j) p)). \<bar>x\<bar> \<le> 2 ^ j * (2 * B))"
    using Suc.prems L(2) by (intro Suc.IH) simp_all
  then show ?case using L(1) by (simp add: dsa_layers_Suc mult.assoc mult.left_commute)
qed

lemma dsa_ntt_flat:
  assumes "wf_dsa_ring re"
  shows "wf_dsa_ring (dsa_ntt re)" and "concat (dsa_ntt re) = dsa_fwd_layers 8 (concat re)"
proof -
  note s7 = dsa_ntt_at_layer_7_flat [OF assms]
  note s6 = dsa_ntt_at_layer_6_flat [OF s7(1)]
  note s5 = dsa_ntt_at_layer_5_flat [OF s6(1)]
  note s4 = dsa_ntt_at_layer_4_flat [OF s5(1)]
  note s3 = dsa_ntt_at_layer_3_flat [OF s4(1)]
  note s2 = dsa_ntt_at_layer_2_flat [OF s3(1)]
  note s1 = dsa_ntt_at_layer_1_flat [OF s2(1)]
  note s0 = dsa_ntt_at_layer_0_flat [OF s1(1)]
  show "wf_dsa_ring (dsa_ntt re)" unfolding dsa_ntt_def Let_def by (rule s0(1))
  show "concat (dsa_ntt re) = dsa_fwd_layers 8 (concat re)"
    unfolding dsa_ntt_def Let_def dsa_fwd_layers_def dsa_layer_lengths s0(2) s1(2) s2(2) s3(2) s4(2) s5(2) s6(2) s7(2) by simp
qed

lemma dsa_ntt_refines:
  assumes "dsa_bounded B re" and "B \<le> 2080440319"
  shows "dsa_modq (concat (dsa_ntt re)) = dsa_NTT (dsa_modq (concat re))" and "dsa_bounded (B + 67043328) (dsa_ntt re)"
proof -
  note f = dsa_ntt_flat [OF dsa_bounded_wf [OF assms(1)]]
  have r: "dsa_modq (dsa_fwd_layers 8 (concat re)) = transform 8380417 dsa_zeta_spec 8 (dsa_modq (concat re))
    \<and> (\<forall>x \<in> set (dsa_fwd_layers 8 (concat re)). \<bar>x\<bar> \<le> B + int 8 * 8380416)"
    using assms dsa_bounded_coeff [OF assms(1)]
    by (intro dsa_fwd_layers_refine length_concat_ring dsa_bounded_wf [OF assms(1)]) simp_all
  then show "dsa_modq (concat (dsa_ntt re)) = dsa_NTT (dsa_modq (concat re))" by (simp add: f(2) dsa_NTT_transform)
  show "dsa_bounded (B + 67043328) (dsa_ntt re)" using r f by (intro dsa_boundedI) simp_all
qed

lemma dsa_loop_map:
  assumes "wf_dsa_ring re" and "\<And>v. length v = 8 \<Longrightarrow> h v = map f v"
  shows "wf_dsa_ring (for_loop 0 32 (\<lambda>i re. re[i := h (re ! i)]) re)"
    and "concat (for_loop 0 32 (\<lambda>i re. re[i := h (re ! i)]) re) = map f (concat re)"
proof -
  have "for_loop 0 32 (\<lambda>i re. re[i := h (re ! i)]) re = map h re"
    using assms(1) by (intro for_loop_map) (simp add: wf_dsa_ring_def)
  also have "\<dots> = map (map f) re" using assms by (simp add: wf_dsa_ring_def list_all_iff)
  finally have e: "for_loop 0 32 (\<lambda>i re. re[i := h (re ! i)]) re = map (map f) re" .
  show "wf_dsa_ring (for_loop 0 32 (\<lambda>i re. re[i := h (re ! i)]) re)" using assms(1) by (simp add: e wf_dsa_ring_def list_all_iff)
  show "concat (for_loop 0 32 (\<lambda>i re. re[i := h (re ! i)]) re) = map f (concat re)" by (simp add: e map_concat)
qed

lemma dsa_invert_ntt_flat:
  assumes "wf_dsa_ring re"
  shows "wf_dsa_ring (dsa_invert_ntt_montgomery re)"
    and "concat (dsa_invert_ntt_montgomery re)
      = map (\<lambda>x. dsa_montgomery_multiply_fe_by_fer x 41978) (dsa_inv_layers 8 (concat re))"
proof -
  note s0 = dsa_invert_ntt_at_layer_0_flat [OF assms]
  note s1 = dsa_invert_ntt_at_layer_1_flat [OF s0(1)]
  note s2 = dsa_invert_ntt_at_layer_2_flat [OF s1(1)]
  note s3 = dsa_invert_ntt_at_layer_3_flat [OF s2(1)]
  note s4 = dsa_invert_ntt_at_layer_4_flat [OF s3(1)]
  note s5 = dsa_invert_ntt_at_layer_5_flat [OF s4(1)]
  note s6 = dsa_invert_ntt_at_layer_6_flat [OF s5(1)]
  note s7 = dsa_invert_ntt_at_layer_7_flat [OF s6(1)]
  have v: "dsa_montgomery_multiply_by_constant v 41978 = map (\<lambda>x. dsa_montgomery_multiply_fe_by_fer x 41978) v" if "length v = 8" for v
    using dsa_vector_ops(4) [OF that that] by (simp add: dsa_montgomery_multiply_fe_by_fer_def)
  note f = dsa_loop_map [where h = "\<lambda>v. dsa_montgomery_multiply_by_constant v 41978", OF s7(1) v]
  show "wf_dsa_ring (dsa_invert_ntt_montgomery re)" unfolding dsa_invert_ntt_montgomery_def Let_def by (rule f(1)) simp
  show "concat (dsa_invert_ntt_montgomery re)
      = map (\<lambda>x. dsa_montgomery_multiply_fe_by_fer x 41978) (dsa_inv_layers 8 (concat re))"
    unfolding dsa_invert_ntt_montgomery_def Let_def dsa_inv_layers_def dsa_layer_lengths
    by (rule trans [OF f(2)]) (simp_all add: s0(2) s1(2) s2(2) s3(2) s4(2) s5(2) s6(2) s7(2))
qed

lemma dsa_invert_ntt_refines:
  assumes "dsa_bounded 8380416 re"
  shows "dsa_modq (concat (dsa_invert_ntt_montgomery re)) = scale_mod 8380417 4193792 (dsa_NTT_inverse (dsa_modq (concat re)))"
    and "dsa_bounded 4211177 (dsa_invert_ntt_montgomery re)"
proof -
  let ?p = "dsa_inv_layers 8 (concat re)" and ?m = "\<lambda>x. dsa_montgomery_multiply_fe_by_fer x 41978"
  note f = dsa_invert_ntt_flat [OF dsa_bounded_wf [OF assms]]
  have r: "dsa_modq ?p = inverse_transform 8380417 dsa_zeta_spec 8 (dsa_modq (concat re)) \<and> (\<forall>x \<in> set ?p. \<bar>x\<bar> \<le> 2 ^ 8 * 8380416)"
    using dsa_bounded_coeff [OF assms] by (intro dsa_inv_layers_refine length_concat_ring dsa_bounded_wf [OF assms]) simp_all
  have a: "\<bar>x * 41978\<bar> \<le> 90059034329088" if "x \<in> set ?p" for x
    using dsa_abs_mult_le [of x "2 ^ 8 * 8380416" 41978 41978] r that by auto
  have b: "\<bar>x * 41978\<bar> \<le> 2147483648 * 8380416" if "x \<in> set ?p" for x using a [OF that] by simp
  have "?m x mod 8380417 = (4193792 * (8347681 * (x mod 8380417) mod 8380417)) mod 8380417" if "x \<in> set ?p" for x
  proof -
    have "dsa_cong (?m x) (x * 41978 * 8265825)" by (rule dsa_montgomery_cong(1) [OF b [OF that]])
    also have "dsa_cong (x * 41978 * 8265825) (4193792 * (8347681 * x))"
      by (rule cong_mod_multiple [where k = "- 4136006 * x"]) simp
    also have "dsa_cong \<dots> (4193792 * (8347681 * (x mod 8380417) mod 8380417))"
      by (intro cong_mod_mult cong_mod_refl cong_mod_trans [OF _ cong_mod_sym [OF cong_mod_mod]] cong_mod_sym [OF cong_mod_mod])
    finally show ?thesis by (simp only: cong_mod_def)
  qed
  then have "dsa_modq (map ?m ?p) = scale_mod 8380417 4193792 (scale_mod 8380417 8347681 (dsa_modq ?p))"
    unfolding residues_def scale_mod_def map_map by (intro map_cong) simp_all
  then show "dsa_modq (concat (dsa_invert_ntt_montgomery re)) = scale_mod 8380417 4193792 (dsa_NTT_inverse (dsa_modq (concat re)))"
    using r by (simp only: f(2) dsa_NTT_transform)
  have "\<bar>?m x\<bar> \<le> 4211177" if "x \<in> set ?p" for x using dsa_montgomery_cong(3) [OF b [OF that]] a [OF that] by linarith
  then show "dsa_bounded 4211177 (dsa_invert_ntt_montgomery re)" using f by (intro dsa_boundedI) auto
qed

subsection \<open>Algebra of the reference transforms\<close>

definition dsa_ring_mul :: "int list \<Rightarrow> int list \<Rightarrow> int list" where
  "dsa_ring_mul a b = block_product 8380417 256 (\<lambda>r. - 1) a b"

definition dsa_multiply_ntts :: "int list \<Rightarrow> int list \<Rightarrow> int list" where
  "dsa_multiply_ntts a b = map2 (\<lambda>x y. (x * y) mod 8380417) a b"

definition dsa_field_list :: "int list \<Rightarrow> bool" where
  "dsa_field_list p \<longleftrightarrow> length p = 256 \<and> list_all (\<lambda>x. 0 \<le> x \<and> x < 8380417) p"

lemma dsa_NTT_inverses:
  assumes "dsa_field_list p"
  shows "dsa_NTT_inverse (dsa_NTT p) = p" and "dsa_NTT (dsa_NTT_inverse p) = p"
proof -
  have l: "length p = 256" using assms by (simp add: dsa_field_list_def)
  have one: "scale_mod 8380417 (8347681 * 2 ^ 8) p = p"
    using assms by (intro scale_mod_one) (auto simp: dsa_field_list_def list_all_iff cong_mod_def)
  show "dsa_NTT_inverse (dsa_NTT p) = p"
    using dsa_zeta_spec_transform(1) [OF l, of 8] one by (simp add: dsa_NTT_transform scale_mod_scale_mod)
  show "dsa_NTT (dsa_NTT_inverse p) = p"
    using dsa_zeta_spec_transform(2) [OF l, of 8] one l by (simp add: dsa_NTT_transform scale_mod_scale_mod transforms_scale)
qed

lemma block_product_1:
  assumes "length a = 256" and "length b = 256"
  shows "block_product 8380417 1 c a b = dsa_multiply_ntts a b"
proof (rule nth_equalityI)
  fix i assume "i < length (block_product 8380417 1 c a b)"
  then have i: "i < 256" by simp
  show "block_product 8380417 1 c a b ! i = dsa_multiply_ntts a b ! i"
    using block_product_nth [of 1 i 0 8380417 c a b] i assms mul_mod_1 [of "c i" "block 1 i a" "block 1 i b"]
    by (simp add: dsa_multiply_ntts_def block_def)
qed (simp add: dsa_multiply_ntts_def assms)

lemma dsa_NTT_ring_mul:
  assumes "length a = 256" and "length b = 256"
  shows "dsa_NTT (dsa_ring_mul a b) = dsa_multiply_ntts (dsa_NTT a) (dsa_NTT b)"
proof -
  have "dsa_ring_mul a b = block_product 8380417 256 (block_root dsa_zeta_spec 256) a b"
    by (simp add: dsa_ring_mul_def block_product_def block_root_def)
  then show ?thesis
    using dsa_zeta_spec_transform(3) [of 8 a b] assms by (simp add: dsa_NTT_transform block_product_1 [unfolded One_nat_def])
qed

end
