(* ===== verification/MLDSA_Signature.thy ===== *)
theory MLDSA_Signature
  imports MLDSA_RingEncoding
begin

section \<open>ML-DSA: the signature encoding\<close>

text \<open>
  Serialization and deserialization of signatures: \<open>libcrux_mldsa_core.c\<close> lines 155--163, 4803--4912 and 5004--5056. A signature is
  the commitment hash, the packed response vector and the hint: the positions of the ones of each row, in a field of
  \<open>max_ones_in_hint\<close> bytes, then one byte per row with the number of positions so far. The loops of the code that end early on a malformed hint
  carry the flag and skip the remaining iterations once it is set.

  \<open>hint_pack\<close> is the reference encoding (HintBitPack of FIPS 204) on lists of positions. The lemmas show that the code writes it,
  and that deserialization accepts exactly the strings it produces, so each accepted signature has one encoding only.
\<close>

datatype verification_error =
  MalformedHintError | SignerResponseExceedsBoundError | CommitmentHashesDontMatchError | VerificationContextTooLongError

definition set_hint :: "i32 list list \<Rightarrow> nat \<Rightarrow> nat \<Rightarrow> i32 list list" where
  "set_hint out_hint i j = out_hint[i := (out_hint ! i)[j := 1]]"

subsection \<open>Serialization\<close>

definition serialize_hint_row :: "i32 list \<Rightarrow> nat \<Rightarrow> u8 list \<times> nat \<Rightarrow> u8 list \<times> nat" where
  "serialize_hint_row row offset =
     for_loop 0 256 (\<lambda>j (signature, true_hints_seen).
       if row ! j = 1 then (signature[offset + true_hints_seen := word_of_nat j], true_hints_seen + 1)
       else (signature, true_hints_seen))"

definition serialize_hints :: "i32 list list \<Rightarrow> nat \<Rightarrow> nat \<Rightarrow> nat \<Rightarrow> u8 list \<Rightarrow> u8 list \<times> nat" where
  "serialize_hints hint rows_in_a max_ones_in_hint offset signature =
     for_loop 0 rows_in_a (\<lambda>i s.
       let (signature, true_hints_seen) = serialize_hint_row (hint ! i) offset s
       in (signature[offset + max_ones_in_hint + i := word_of_nat true_hints_seen], true_hints_seen)) (signature, 0)"

definition signature_serialize ::
  "u8 list \<Rightarrow> dsa_ring_element list \<Rightarrow> i32 list list \<Rightarrow> nat \<Rightarrow> nat \<Rightarrow> nat \<Rightarrow> nat \<Rightarrow> nat \<Rightarrow> nat \<Rightarrow> u8 list \<Rightarrow> u8 list option" where
  "signature_serialize commitment_hash signer_response hint commitment_hash_size columns_in_a rows_in_a gamma1_exponent
       ring_element_size max_ones_in_hint signature =
     (let offset = 0;
          signature = slice_copy signature offset commitment_hash;
          offset = offset + commitment_hash_size
      in map_option (\<lambda>(signature, offset). fst (serialize_hints hint rows_in_a max_ones_in_hint offset signature))
           (for_option 0 columns_in_a (\<lambda>i (signature, offset).
              map_option (\<lambda>signature. (signature, offset + ring_element_size))
                (slice_apply_option signature offset (offset + ring_element_size)
                   (\<lambda>s. ring_gamma1_serialize (signer_response ! i) s gamma1_exponent))) (signature, offset)))"

subsection \<open>Deserialization\<close>

definition deserialize_hint_row :: "u8 list \<Rightarrow> nat \<Rightarrow> nat \<Rightarrow> nat \<Rightarrow> bool \<times> i32 list list \<Rightarrow> bool \<times> i32 list list" where
  "deserialize_hint_row hint_serialized i previous_true_hints_seen current_true_hints_seen =
     for_loop previous_true_hints_seen current_true_hints_seen (\<lambda>j (malformed_hint, out_hint).
       if malformed_hint then (malformed_hint, out_hint)
       else if previous_true_hints_seen < j \<and> hint_serialized ! j \<le> hint_serialized ! (j - 1) then (True, out_hint)
       else (malformed_hint, set_hint out_hint i (unat (hint_serialized ! j))))"

definition deserialize_hint_step :: "u8 list \<Rightarrow> nat \<Rightarrow> nat \<Rightarrow> nat \<times> bool \<times> i32 list list \<Rightarrow> nat \<times> bool \<times> i32 list list" where
  "deserialize_hint_step hint_serialized max_ones_in_hint i = (\<lambda>(previous_true_hints_seen, malformed_hint, out_hint).
     if malformed_hint then (previous_true_hints_seen, malformed_hint, out_hint)
     else
       let current_true_hints_seen = unat (hint_serialized ! (max_ones_in_hint + i))
       in if current_true_hints_seen < previous_true_hints_seen then (previous_true_hints_seen, True, out_hint)
       else if max_ones_in_hint < current_true_hints_seen then (previous_true_hints_seen, True, out_hint)
       else
         let (malformed_hint, out_hint) =
               deserialize_hint_row hint_serialized i previous_true_hints_seen current_true_hints_seen (malformed_hint, out_hint)
         in if malformed_hint then (previous_true_hints_seen, malformed_hint, out_hint)
            else (current_true_hints_seen, malformed_hint, out_hint))"

definition deserialize_hints :: "u8 list \<Rightarrow> nat \<Rightarrow> nat \<Rightarrow> i32 list list \<Rightarrow> bool \<times> i32 list list" where
  "deserialize_hints hint_serialized rows_in_a max_ones_in_hint out_hint =
     (let (previous_true_hints_seen, malformed_hint, out_hint) =
            for_loop 0 rows_in_a (deserialize_hint_step hint_serialized max_ones_in_hint) (0, False, out_hint);
          malformed_hint = for_loop previous_true_hints_seen max_ones_in_hint (\<lambda>j malformed_hint.
            if hint_serialized ! j \<noteq> 0 then True else malformed_hint) malformed_hint
      in (malformed_hint, out_hint))"

definition signature_deserialize ::
  "nat \<Rightarrow> nat \<Rightarrow> nat \<Rightarrow> nat \<Rightarrow> nat \<Rightarrow> nat \<Rightarrow> nat \<Rightarrow> u8 list \<Rightarrow> u8 list \<Rightarrow> dsa_ring_element list \<Rightarrow> i32 list list
   \<Rightarrow> ((verification_error + unit) \<times> u8 list \<times> dsa_ring_element list \<times> i32 list list) option" where
  "signature_deserialize columns_in_a rows_in_a commitment_hash_size gamma1_exponent ring_element_size max_ones_in_hint
       size_of_signature serialized out_commitment_hash out_signer_response out_hint =
     (let commitment_hash = take commitment_hash_size serialized;
          rest_of_serialized = drop commitment_hash_size serialized;
          out_commitment_hash = slice_copy out_commitment_hash 0 commitment_hash;
          signer_response_serialized = take (ring_element_size * columns_in_a) rest_of_serialized;
          hint_serialized = drop (ring_element_size * columns_in_a) rest_of_serialized
      in map_option (\<lambda>out_signer_response.
           let (malformed_hint, out_hint) = deserialize_hints hint_serialized rows_in_a max_ones_in_hint out_hint
           in (if malformed_hint then Inl MalformedHintError else Inr (), out_commitment_hash, out_signer_response, out_hint))
         (for_option 0 columns_in_a (\<lambda>i out_signer_response.
            map_option (\<lambda>re. out_signer_response[i := re])
              (ring_gamma1_deserialize gamma1_exponent
                 (subslice signer_response_serialized (i * ring_element_size) ((i + 1) * ring_element_size))
                 (out_signer_response ! i))) out_signer_response))"

subsection \<open>The reference encoding of hints\<close>

definition hint_indices :: "i32 list \<Rightarrow> nat list" where
  "hint_indices row = filter (\<lambda>j. row ! j = 1) [0..<256]"

fun hint_counts :: "nat \<Rightarrow> nat list list \<Rightarrow> nat list" where
  "hint_counts n [] = []"
| "hint_counts n (js # rows) = (n + length js) # hint_counts (n + length js) rows"

definition hint_pack :: "nat \<Rightarrow> nat list list \<Rightarrow> u8 list" where
  "hint_pack m rows =
     map word_of_nat (concat rows) @ replicate (m - length (concat rows)) 0 @ map word_of_nat (hint_counts 0 rows)"

fun hint_unpack :: "u8 list \<Rightarrow> nat \<Rightarrow> nat \<Rightarrow> u8 list \<Rightarrow> nat list list option" where
  "hint_unpack bs m n [] = (if list_all (\<lambda>b. b = 0) (subslice bs n m) then Some [] else None)"
| "hint_unpack bs m n (c # cs) =
     (if unat c < n \<or> m < unat c \<or> \<not> sorted_wrt (<) (subslice bs n (unat c)) then None
      else map_option ((#) (map unat (subslice bs n (unat c)))) (hint_unpack bs m (unat c) cs))"

definition set_ones :: "i32 list \<Rightarrow> nat list \<Rightarrow> i32 list" where
  "set_ones row js = fold (\<lambda>j row. row[j := 1]) js row"

subsection \<open>Unpacking inverts packing\<close>

definition wf_positions :: "nat list \<Rightarrow> bool" where
  "wf_positions js \<longleftrightarrow> sorted_wrt (<) js \<and> list_all (\<lambda>j. j < 256) js"

lemma sorted_unat: "sorted_wrt (<) (map unat bs) \<longleftrightarrow> sorted_wrt (<) (bs :: u8 list)"
  by (induction bs) (auto simp: word_less_nat_alt)

lemma map_unat_word_of_nat: "list_all (\<lambda>j. j < 256) js \<Longrightarrow> map unat (map word_of_nat js :: u8 list) = js"
  by (simp add: list_all_iff map_idI unat_of_nat)

lemma map_word_of_nat_unat: "map word_of_nat (map unat bs) = (bs :: u8 list)"
  by (simp add: comp_def)

lemma unat_u8_less: "unat (b :: u8) < 256"
  using unsigned_less [of b, where 'a = nat] by simp

lemma wf_positions_unat: "sorted_wrt (<) bs \<Longrightarrow> wf_positions (map unat (bs :: u8 list))"
  by (simp add: wf_positions_def sorted_unat list_all_iff unat_u8_less)

lemma hint_unpack_sound:
  assumes "hint_unpack bs m n cs = Some rows" and "n \<le> m" and "m \<le> length bs"
  shows "list_all wf_positions rows \<and> n + length (concat rows) \<le> m \<and> length rows = length cs
    \<and> subslice bs n m = map word_of_nat (concat rows) @ replicate (m - n - length (concat rows)) 0
    \<and> cs = map word_of_nat (hint_counts n rows)"
  using assms
proof (induction cs arbitrary: n rows)
  case Nil
  then have "list_all (\<lambda>b. b = 0) (subslice bs n m)" "rows = []" by (auto split: if_splits)
  then show ?case using Nil(2,3) by (auto simp: list_all_length intro: nth_equalityI)
next
  case (Cons c cs)
  let ?xs = "subslice bs n (unat c)"
  obtain rows' where r: "n \<le> unat c" "unat c \<le> m" "sorted_wrt (<) ?xs" "rows = map unat ?xs # rows'" "hint_unpack bs m (unat c) cs = Some rows'"
    using Cons.prems(1) by (auto split: if_splits)
  note IH = Cons.IH [OF r(5,2) Cons.prems(3)]
  have l: "length ?xs = unat c - n" using r(1,2) Cons.prems(3) by simp
  have "subslice bs n m = ?xs @ subslice bs (unat c) m" using r(1,2) by (simp add: subslice_append)
  then show ?case using IH r(1,2,4) l wf_positions_unat [OF r(3)] by (simp add: comp_def)
qed

lemma hint_unpack_complete:
  assumes "list_all wf_positions rows" and "n + length (concat rows) \<le> m" and "m \<le> length bs" and "m < 256"
    and "subslice bs n m = map word_of_nat (concat rows) @ replicate (m - n - length (concat rows)) 0"
  shows "hint_unpack bs m n (map word_of_nat (hint_counts n rows)) = Some rows"
  using assms
proof (induction rows arbitrary: n)
  case Nil
  then show ?case by (simp add: list_all_iff)
next
  case (Cons js rows)
  let ?c = "n + length js"
  have c: "?c \<le> m" "n \<le> ?c" using Cons.prems(2) by simp_all
  have u: "unat (word_of_nat ?c :: u8) = ?c" using c(1) Cons.prems(4) by (simp add: unat_of_nat del: of_nat_add)
  have a: "subslice bs n ?c @ subslice bs ?c m = subslice bs n m" using c by (simp add: subslice_append)
  have "length (subslice bs n ?c) = length js" using c Cons.prems(3) by simp
  then have x: "subslice bs n ?c = map word_of_nat js"
    and y: "subslice bs ?c m = map word_of_nat (concat rows) @ replicate (m - ?c - length (concat rows)) 0"
    using a Cons.prems(5) by (simp_all add: append_eq_append_conv)
  have js: "wf_positions js" using Cons.prems(1) by simp
  then have e: "map unat (map word_of_nat js :: u8 list) = js" by (simp only: wf_positions_def map_unat_word_of_nat)
  have s: "sorted_wrt (<) (map word_of_nat js :: u8 list)" using js by (simp only: sorted_unat [symmetric] e wf_positions_def)
  have "hint_unpack bs m ?c (map word_of_nat (hint_counts ?c rows)) = Some rows"
    using Cons.prems y by (intro Cons.IH) simp_all
  then show ?case using u x e s c by simp
qed

lemma hint_counts_length [simp]: "length (hint_counts n rows) = length rows"
  by (induction rows arbitrary: n) simp_all

text \<open>Positions and rows of zeros and ones.\<close>

definition wf_hint_row :: "i32 list \<Rightarrow> bool" where
  "wf_hint_row row \<longleftrightarrow> length row = 256 \<and> list_all (\<lambda>h. h = 0 \<or> h = 1) row"

lemma length_set_ones [simp]: "length (set_ones row js) = length row"
  unfolding set_ones_def by (induction js arbitrary: row) simp_all

lemma nth_set_ones: "j < length row \<Longrightarrow> set_ones row js ! j = (if j \<in> set js then 1 else row ! j)"
  unfolding set_ones_def by (induction js arbitrary: row) (auto simp: nth_list_update)

lemma set_ones_snoc: "set_ones row (js @ [j]) = (set_ones row js)[j := 1]"
  by (simp add: set_ones_def)

lemma wf_set_ones: "wf_hint_row (set_ones (replicate 256 0) js)"
  by (auto simp: wf_hint_row_def list_all_length nth_set_ones)

lemma wf_hint_indices: "wf_positions (hint_indices row)"
  by (auto simp: wf_positions_def hint_indices_def list_all_iff intro: sorted_wrt_filter)

lemma set_ones_hint_indices: "wf_hint_row row \<Longrightarrow> set_ones (replicate 256 0) (hint_indices row) = row"
  by (rule nth_equalityI) (auto simp: wf_hint_row_def nth_set_ones hint_indices_def list_all_length)

lemma hint_indices_set_ones:
  assumes "wf_positions js"
  shows "hint_indices (set_ones (replicate 256 0) js) = js"
proof -
  have s: "set (hint_indices (set_ones (replicate 256 0) js)) = set js"
    using assms by (auto simp: hint_indices_def nth_set_ones wf_positions_def list_all_iff split: if_splits)
  then show ?thesis
    using wf_hint_indices [of "set_ones (replicate 256 0) js"] assms
    by (intro sorted_distinct_set_unique) (auto simp: wf_positions_def strict_sorted_iff)
qed

subsection \<open>The loops of deserialization\<close>

lemma subslice_snoc: "n \<le> c \<Longrightarrow> c < length bs \<Longrightarrow> subslice bs n (Suc c) = subslice bs n c @ [bs ! c]"
  by (simp add: subslice_def Suc_diff_le take_Suc_conv_app_nth)

lemma unused_bytes_loop:
  "m \<le> length hs \<Longrightarrow> for_loop n m (\<lambda>j b. if hs ! j \<noteq> 0 then True else b) b \<longleftrightarrow> b \<or> \<not> list_all (\<lambda>b. b = 0) (subslice hs n m)"
proof (induction m)
  case (Suc m)
  show ?case
  proof (cases "n \<le> m")
    case True
    then show ?thesis using Suc by (auto simp: for_loop_last subslice_snoc)
  qed (simp add: subslice_def)
qed (simp add: subslice_def)

lemma sorted_snoc:
  "sorted_wrt (<) (subslice hs n (Suc c)) \<longleftrightarrow> sorted_wrt (<) (subslice hs n c) \<and> (n < c \<longrightarrow> hs ! (c - 1) < (hs ! c :: u8))"
  if "n \<le> c" "c < length hs"
proof (cases "n < c")
  case True
  then have "subslice hs n c = subslice hs n (c - 1) @ [hs ! (c - 1)]" using subslice_snoc [of n "c - 1" hs] that by simp
  then show ?thesis using True that by (auto simp: subslice_snoc sorted_wrt_append)
next
  case False
  then have "n = c" using that by simp
  then show ?thesis using that by (simp add: subslice_snoc) (simp add: subslice_def)
qed

lemma deserialize_hint_row_last:
  "n \<le> c \<Longrightarrow> deserialize_hint_row hs i n (Suc c) s = (case deserialize_hint_row hs i n c s of (malformed, h) \<Rightarrow>
     if malformed then (malformed, h)
     else if n < c \<and> hs ! c \<le> hs ! (c - 1) then (True, h) else (malformed, set_hint h i (unat (hs ! c))))"
  by (simp add: deserialize_hint_row_def for_loop_last)

lemma deserialize_hint_row_eq:
  assumes "n \<le> c" and "c \<le> length hs" and "i < length h"
  shows "if sorted_wrt (<) (subslice hs n c)
    then deserialize_hint_row hs i n c (False, h) = (False, h[i := set_ones (h ! i) (map unat (subslice hs n c))])
    else fst (deserialize_hint_row hs i n c (False, h))"
  using assms
proof (induction c)
  case 0
  then show ?case by (simp add: subslice_def set_ones_def deserialize_hint_row_def)
next
  case (Suc c)
  show ?case
  proof (cases "n \<le> c")
    case True
    then have c: "c < length hs" using Suc.prems by simp
    show ?thesis
    proof (cases "sorted_wrt (<) (subslice hs n c)")
      case s: True
      then have "deserialize_hint_row hs i n c (False, h) = (False, h[i := set_ones (h ! i) (map unat (subslice hs n c))])"
        using Suc True by simp
      moreover have "set_ones (h ! i) (map unat (subslice hs n (Suc c)))
          = (set_ones (h ! i) (map unat (subslice hs n c)))[unat (hs ! c) := 1]"
        using True c by (simp add: subslice_snoc set_ones_snoc)
      ultimately show ?thesis
        using s c True Suc.prems(3) by (simp add: deserialize_hint_row_last sorted_snoc set_hint_def not_le not_less)
    next
      case False
      then have "fst (deserialize_hint_row hs i n c (False, h))" using Suc True by simp
      then show ?thesis using False c True by (auto simp: deserialize_hint_row_last sorted_snoc split: prod.splits)
    qed
  next
    case False
    then have "n = Suc c" using Suc.prems(1) by simp
    then show ?thesis by (simp add: subslice_def set_ones_def deserialize_hint_row_def)
  qed
qed

abbreviation deserialize_hints_from :: "u8 list \<Rightarrow> nat \<Rightarrow> nat \<Rightarrow> nat \<Rightarrow> nat \<times> bool \<times> i32 list list \<Rightarrow> bool \<times> i32 list list" where
  "deserialize_hints_from hs m i rows s \<equiv>
     (case for_loop i rows (deserialize_hint_step hs m) s of (n, malformed, h) \<Rightarrow>
        (for_loop n m (\<lambda>j malformed. if hs ! j \<noteq> 0 then True else malformed) malformed, h))"

lemma malformed_stays:
  assumes "m \<le> length hs"
  shows "fst (deserialize_hints_from hs m i rows (n, True, h))"
proof -
  have "for_loop i rows (deserialize_hint_step hs m) (n, True, h) = (n, True, h)"
  proof (induction rows)
    case (Suc rows)
    then show ?case by (cases "i \<le> rows") (simp_all add: for_loop_last deserialize_hint_step_def)
  qed simp
  then show ?thesis using assms by (simp add: unused_bytes_loop)
qed

lemma deserialize_hints_from_eq:
  assumes "i \<le> rows" and "length hs = m + rows" and "length h = rows" and "n \<le> m"
  shows "case hint_unpack hs m n (drop (m + i) hs) of
      None \<Rightarrow> fst (deserialize_hints_from hs m i rows (n, False, h))
    | Some js \<Rightarrow> deserialize_hints_from hs m i rows (n, False, h) = (False, take i h @ map2 set_ones (drop i h) js)"
  using assms
proof (induction "rows - i" arbitrary: i n h)
  case 0
  then show ?case by (simp add: unused_bytes_loop)
next
  case (Suc k)
  have i: "i < rows" using Suc.hyps(2) by simp
  let ?c = "hs ! (m + i)"
  have d: "drop (m + i) hs = ?c # drop (m + Suc i) hs" using i Suc.prems(2) by (simp add: Cons_nth_drop_Suc)
  have f: "deserialize_hints_from hs m i rows s = deserialize_hints_from hs m (Suc i) rows (deserialize_hint_step hs m i s)" for s
    using i by (simp add: for_loop_step)
  have bad: "fst (deserialize_hints_from hs m (Suc i) rows (n', True, h'))" for n' h'
    using Suc.prems(2) by (intro malformed_stays) simp
  show ?case
  proof (cases "unat ?c < n \<or> m < unat ?c")
    case True
    then have "deserialize_hint_step hs m i (n, False, h) = (n, True, h)" by (auto simp: deserialize_hint_step_def Let_def)
    then show ?thesis unfolding f d using True bad by auto
  next
    case False
    note row = deserialize_hint_row_eq [of n "unat ?c" hs i h]
    show ?thesis
    proof (cases "sorted_wrt (<) (subslice hs n (unat ?c))")
      case True
      let ?h = "h[i := set_ones (h ! i) (map unat (subslice hs n (unat ?c)))]"
      have "deserialize_hint_step hs m i (n, False, h) = (unat ?c, False, ?h)"
        using row True False i Suc.prems by (simp add: deserialize_hint_step_def Let_def)
      moreover have "take (Suc i) ?h @ zs = take i h @ set_ones (h ! i) (map unat (subslice hs n (unat ?c))) # zs" for zs
        using i Suc.prems(3) by (simp add: take_Suc_conv_app_nth)
      moreover have "drop i h = h ! i # drop (Suc i) h" using i Suc.prems(3) by (simp add: Cons_nth_drop_Suc)
      ultimately show ?thesis
        unfolding f d using Suc.hyps(1) [of "Suc i" ?h "unat ?c"] Suc.hyps(2) Suc.prems i False True
        by (auto split: option.splits)
    next
      case s: False
      then have "\<exists>n' h'. deserialize_hint_step hs m i (n, False, h) = (n', True, h')"
        using row False i Suc.prems by (auto simp: deserialize_hint_step_def Let_def split: prod.splits)
      then show ?thesis unfolding f d using s bad by auto
    qed
  qed
qed

subsection \<open>The hint field\<close>

definition wf_hint :: "nat \<Rightarrow> nat \<Rightarrow> i32 list list \<Rightarrow> bool" where
  "wf_hint m rows hint \<longleftrightarrow> length hint = rows \<and> list_all wf_hint_row hint \<and> length (concat (map hint_indices hint)) \<le> m"

definition hint_bytes :: "nat \<Rightarrow> i32 list list \<Rightarrow> u8 list" where
  "hint_bytes m hint = hint_pack m (map hint_indices hint)"

abbreviation zero_hint :: "nat \<Rightarrow> i32 list list" where
  "zero_hint rows \<equiv> replicate rows (replicate 256 0)"

lemma length_hint_bytes: "wf_hint m rows hint \<Longrightarrow> length (hint_bytes m hint) = m + rows"
  by (simp add: wf_hint_def hint_bytes_def hint_pack_def)

lemma map_set_ones_zero: "length js = rows \<Longrightarrow> map2 set_ones (zero_hint rows) js = map (set_ones (replicate 256 0)) js"
  by (rule nth_equalityI) simp_all

lemma deserialize_hints_bytes:
  assumes "wf_hint m rows hint" and "m < 256"
  shows "deserialize_hints (hint_bytes m hint) rows m (zero_hint rows) = (False, hint)"
proof -
  let ?js = "map hint_indices hint" and ?hs = "hint_bytes m hint"
  have l: "length hint = rows" "length (concat ?js) \<le> m" using assms(1) by (simp_all add: wf_hint_def)
  have d: "drop m ?hs = map word_of_nat (hint_counts 0 ?js)"
    and t: "subslice ?hs 0 m = map word_of_nat (concat ?js) @ replicate (m - 0 - length (concat ?js)) 0"
    using l(2) by (simp_all add: hint_bytes_def hint_pack_def subslice_def)
  have "hint_unpack ?hs m 0 (drop m ?hs) = Some ?js"
    unfolding d using l assms(2) t length_hint_bytes [OF assms(1)]
    by (intro hint_unpack_complete) (simp_all add: wf_hint_indices list_all_iff)
  moreover have "map (set_ones (replicate 256 0)) ?js = hint"
    using assms(1) by (simp add: wf_hint_def list_all_iff set_ones_hint_indices map_idI)
  ultimately show ?thesis
    using deserialize_hints_from_eq [of 0 rows ?hs m "zero_hint rows" 0] length_hint_bytes [OF assms(1)] map_set_ones_zero [of ?js rows] l(1)
    by (simp add: deserialize_hints_def Let_def case_prod_beta)
qed

lemma deserialize_hints_accepts:
  assumes "length hs = m + rows" and "\<not> fst (deserialize_hints hs rows m (zero_hint rows))"
  obtains hint where "deserialize_hints hs rows m (zero_hint rows) = (False, hint)" and "wf_hint m rows hint" and "hs = hint_bytes m hint"
proof -
  obtain js where u: "hint_unpack hs m 0 (drop m hs) = Some js"
    and e: "deserialize_hints hs rows m (zero_hint rows) = (False, map2 set_ones (zero_hint rows) js)"
    using deserialize_hints_from_eq [of 0 rows hs m "zero_hint rows" 0] assms
    by (auto simp: deserialize_hints_def Let_def case_prod_beta split: option.splits)
  let ?hint = "map (set_ones (replicate 256 0)) js"
  note s = hint_unpack_sound [OF u _, simplified assms(1), simplified]
  have l: "length js = rows" using s assms(1) by simp
  have i: "map hint_indices ?hint = js" using s by (simp add: list_all_iff hint_indices_set_ones map_idI)
  have "wf_hint m rows ?hint" using s l i by (simp only: wf_hint_def) (auto simp: list_all_iff wf_set_ones)
  moreover have "hs = hint_bytes m ?hint"
  proof -
    have "hs = subslice hs 0 m @ drop m hs" by (simp add: subslice_def)
    then show ?thesis unfolding hint_bytes_def i hint_pack_def using s by simp
  qed
  moreover have "deserialize_hints hs rows m (zero_hint rows) = (False, ?hint)" using e map_set_ones_zero [OF l] by simp
  ultimately show thesis by (rule that [rotated])
qed

lemma hint_counts_snoc: "hint_counts n (rows @ [js]) = hint_counts n rows @ [n + length (concat rows) + length js]"
  by (induction rows arbitrary: n) (simp_all add: add.assoc)

lemma slice_copy_snoc:
  assumes "start + length xs < length H"
  shows "(slice_copy H start xs)[start + length xs := x] = slice_copy H start (xs @ [x])"
proof -
  have "drop (start + length xs) H = H ! (start + length xs) # drop (Suc (start + length xs)) H"
    using assms by (simp add: Cons_nth_drop_Suc)
  then show ?thesis using assms by (simp add: slice_copy_def list_update_append)
qed

lemma serialize_hint_row_eq:
  assumes "length P = offset" and "seen + length (hint_indices row) \<le> length H"
  shows "serialize_hint_row row offset (P @ H, seen)
    = (P @ slice_copy H seen (map word_of_nat (hint_indices row)), seen + length (hint_indices row))"
proof -
  let ?b = "\<lambda>j (signature, seen). if row ! j = 1 then (signature[offset + seen := word_of_nat j :: u8], seen + 1) else (signature, seen)"
  let ?x = "\<lambda>k. filter (\<lambda>j. row ! j = 1) [0..<k]"
  have "seen + length (?x k) \<le> length H \<Longrightarrow> for_loop 0 k ?b (P @ H, seen) = (P @ slice_copy H seen (map word_of_nat (?x k)), seen + length (?x k))" for k
  proof (induction k)
    case 0
    then show ?case by (simp add: slice_copy_def)
  next
    case (Suc k)
    then show ?case using assms(1)
      by (cases "row ! k = 1")
        (simp_all add: for_loop_last list_update_append slice_copy_snoc [where xs = "map word_of_nat (?x k)", simplified])
  qed
  from this [of 256] show ?thesis using assms(2) by (simp add: serialize_hint_row_def hint_indices_def)
qed

lemma list_update_middle: "length A = m \<Longrightarrow> length B = i \<Longrightarrow> (A @ B @ x # C)[m + i := y] = A @ B @ y # C"
  by (simp add: list_update_append)

lemma serialize_hints_eq:
  assumes "wf_hint m rows hint" and "length P = offset"
  shows "fst (serialize_hints hint rows m offset (P @ replicate (m + rows) 0)) = P @ hint_bytes m hint"
proof -
  let ?js = "\<lambda>i. map hint_indices (take i hint)"
  let ?t = "\<lambda>i. length (concat (?js i))"
  let ?area = "\<lambda>i. map word_of_nat (concat (?js i)) @ replicate (m - ?t i) 0 @ map word_of_nat (hint_counts 0 (?js i)) @ replicate (rows - i) (0 :: u8)"
  have l: "length hint = rows" "?t rows \<le> m" using assms(1) by (simp_all add: wf_hint_def)
  have "for_loop 0 i (\<lambda>i s. let (signature, seen) = serialize_hint_row (hint ! i) offset s
      in (signature[offset + m + i := word_of_nat seen], seen)) (P @ replicate (m + rows) 0, 0) = (P @ ?area i, ?t i)" if "i \<le> rows" for i
    using that
  proof (induction i)
    case 0
    then show ?case by (simp add: replicate_add)
  next
    case (Suc i)
    have i: "i < length hint" using Suc.prems l by simp
    have j: "?js (Suc i) = ?js i @ [hint_indices (hint ! i)]" using i by (simp add: take_Suc_conv_app_nth)
    have t: "?t (Suc i) = ?t i + length (hint_indices (hint ! i))" by (simp add: j)
    have "?t (Suc i) \<le> ?t rows"
    proof -
      have "?js rows = ?js (Suc i) @ map hint_indices (drop (Suc i) hint)" using l(1) by (simp flip: map_append)
      then show ?thesis by simp
    qed
    then have m: "?t i + length (hint_indices (hint ! i)) \<le> m" using l(2) t by simp
    have r: "replicate (rows - i) (0 :: u8) = 0 # replicate (rows - Suc i) 0" using Suc.prems by (simp add: Suc_diff_Suc flip: replicate_Suc)
    have c: "slice_copy (?area i) (?t i) (map word_of_nat (hint_indices (hint ! i))) = (map word_of_nat (concat (?js (Suc i))) @ replicate (m - ?t (Suc i)) 0)
        @ map word_of_nat (hint_counts 0 (?js i)) @ replicate (rows - i) 0"
      using m by (simp add: slice_copy_def j)
    have u: "(slice_copy (?area i) (?t i) (map word_of_nat (hint_indices (hint ! i))))[m + i := word_of_nat (?t (Suc i))] = ?area (Suc i)"
    proof -
      have "length (map word_of_nat (concat (?js (Suc i))) @ replicate (m - ?t (Suc i)) (0 :: u8)) = m" using m t by simp
      moreover have "length (map word_of_nat (hint_counts 0 (?js i)) :: u8 list) = i" using i by simp
      ultimately show ?thesis
        unfolding c by (simp only: r list_update_middle) (simp add: j hint_counts_snoc)
    qed
    have "serialize_hint_row (hint ! i) offset (P @ ?area i, ?t i) = (P @ slice_copy (?area i) (?t i) (map word_of_nat (hint_indices (hint ! i))), ?t (Suc i))"
      unfolding t using m assms(2) i by (intro serialize_hint_row_eq) simp_all
    then show ?case using Suc u assms(2) by (simp add: for_loop_last list_update_append)
  qed
  from this [of rows] show ?thesis using l by (simp add: serialize_hints_def hint_bytes_def hint_pack_def)
qed

subsection \<open>The whole signature\<close>

definition wf_response :: "nat \<Rightarrow> nat \<Rightarrow> dsa_ring_element list \<Rightarrow> bool" where
  "wf_response columns e z \<longleftrightarrow> length z = columns \<and> list_all (\<lambda>re. wf_dsa_ring re \<and> gamma1_range e (concat re)) z"

abbreviation encode_response :: "nat \<Rightarrow> dsa_ring_element list \<Rightarrow> u8 list" where
  "encode_response e z \<equiv> concat (map (\<lambda>re. gamma1_encode e (concat re)) z)"

abbreviation decode_response :: "nat \<Rightarrow> u8 list \<Rightarrow> dsa_ring_element list" where
  "decode_response e bs \<equiv> map (\<lambda>c. chunks 8 (gamma1_decode e c)) (chunks (32 * (e + 1)) bs)"

lemma response_encoding:
  assumes "e = 17 \<or> e = 19" and "wf_response columns e z"
  shows "length (encode_response e z) = columns * (32 * (e + 1))" and "decode_response e (encode_response e z) = z"
proof -
  have z: "wf_dsa_ring re" "gamma1_range e (concat re)" if "re \<in> set z" for re using that assms(2) by (auto simp: wf_response_def list_all_iff)
  have l: "length (gamma1_encode e (concat re)) = 32 * (e + 1)" if "re \<in> set z" for re
    using gamma1_encode_length [OF assms(1) z [OF that]] .
  then show "length (encode_response e z) = columns * (32 * (e + 1))"
    using length_concat_uniform [of "map (\<lambda>re. gamma1_encode e (concat re)) z" "32 * (e + 1)"] assms(2) by (auto simp: wf_response_def)
  have "chunks (32 * (e + 1)) (encode_response e z) = map (\<lambda>re. gamma1_encode e (concat re)) z"
    using l by (intro chunks_concat) simp_all
  then show "decode_response e (encode_response e z) = z"
    using gamma1_decode_encode [OF assms(1) z] by (simp add: map_idI)
qed

lemma response_decoding:
  assumes "e = 17 \<or> e = 19" and "length bs = columns * (32 * (e + 1))"
  shows "wf_response columns e (decode_response e bs)" and "encode_response e (decode_response e bs) = bs"
proof -
  have p: "0 < 32 * (e + 1)" by simp
  have d: "length c = 32 * (e + 1)" if "c \<in> set (chunks (32 * (e + 1)) bs)" for c using chunks_member_length [OF p assms(2) that] .
  note g = gamma1_encode_decode [OF assms(1) d]
  show "wf_response columns e (decode_response e bs)"
    using g(2,3) length_chunks [OF p assms(2)] by (simp add: wf_response_def list_all_iff)
  have "map (\<lambda>re. gamma1_encode e (concat re)) (decode_response e bs) = chunks (32 * (e + 1)) bs" using g(1) by (simp add: map_idI)
  then show "encode_response e (decode_response e bs) = bs" using concat_chunks [OF p] by simp
qed

lemma signature_serialize_eq:
  assumes "e = 17 \<or> e = 19" and "length hash = hsize" and "wf_response columns e z" and "wf_hint m rows hint"
  shows "signature_serialize hash z hint hsize columns rows e (32 * (e + 1)) m (replicate (hsize + columns * (32 * (e + 1)) + m + rows) 0)
    = Some (hash @ encode_response e z @ hint_bytes m hint)"
proof -
  let ?g = "32 * (e + 1)"
  let ?s = "slice_copy (replicate (hsize + columns * ?g + m + rows) 0) 0 hash"
  have s: "?s = hash @ replicate (columns * ?g + m + rows) 0" using assms(2) by (simp add: slice_copy_def)
  have z: "length z = columns" "\<And>i. i < columns \<Longrightarrow> wf_dsa_ring (z ! i) \<and> gamma1_range e (concat (z ! i))"
    using assms(3) by (auto simp: wf_response_def list_all_length)
  have "for_option 0 columns (\<lambda>i s. slice_apply_option s (hsize + i * ?g) (hsize + i * ?g + ?g) (\<lambda>s. ring_gamma1_serialize (z ! i) s e)) ?s
      = Some (take hsize ?s @ concat (map (\<lambda>i. gamma1_encode e (concat (z ! i))) [0..<columns]) @ drop (hsize + columns * ?g) ?s)"
    using z(2) ring_gamma1_serialize_eq [OF assms(1)] gamma1_encode_length [OF assms(1)] assms(2)
    by (intro for_option_slice_apply) (auto simp: s)
  also have "take hsize ?s @ concat (map (\<lambda>i. gamma1_encode e (concat (z ! i))) [0..<columns]) @ drop (hsize + columns * ?g) ?s
      = (hash @ encode_response e z) @ replicate (m + rows) 0"
    unfolding s using concat_nths [OF z(1), of "\<lambda>re. gamma1_encode e (concat re)"] assms(2) by simp
  finally have r: "for_option 0 columns (\<lambda>i s. slice_apply_option s (hsize + i * ?g) (hsize + i * ?g + ?g) (\<lambda>s. ring_gamma1_serialize (z ! i) s e)) ?s
      = Some ((hash @ encode_response e z) @ replicate (m + rows) 0)" .
  have "length (hash @ encode_response e z) = hsize + columns * ?g" using response_encoding(1) [OF assms(1,3)] assms(2) by simp
  from serialize_hints_eq [OF assms(4) this] r
    for_option_offset [of columns ?g "\<lambda>i off s. slice_apply_option s off (off + ?g) (\<lambda>s. ring_gamma1_serialize (z ! i) s e)" ?s hsize]
  show ?thesis by (simp add: signature_serialize_def)
qed

lemma signature_deserialize_eq:
  assumes "e = 17 \<or> e = 19" and "length hash = hsize" and "length zs = columns * (32 * (e + 1))"
    and "length out_hash = hsize" and "length out_z = columns" and "list_all wf_dsa_ring out_z"
  shows "signature_deserialize columns rows hsize e (32 * (e + 1)) m n (hash @ zs @ hs) out_hash out_z out_hint
    = Some (case deserialize_hints hs rows m out_hint of (malformed, h) \<Rightarrow>
        (if malformed then Inl MalformedHintError else Inr (), hash, decode_response e zs, h))"
proof -
  let ?g = "32 * (e + 1)"
  have i: "length (subslice zs (i * ?g) ((i + 1) * ?g)) = ?g" if "i < columns" for i
  proof -
    have "(i + 1) * ?g \<le> columns * ?g" using that by (intro mult_le_mono1) simp
    then show ?thesis using assms(3) by simp
  qed
  have "ring_gamma1_deserialize e (subslice zs (i * ?g) ((i + 1) * ?g)) (out_z ! i) = Some (chunks 8 (gamma1_decode e (subslice zs (i * ?g) ((i + 1) * ?g))))"
    if "i < columns" for i
    using that assms(5,6) i [OF that] by (intro ring_gamma1_deserialize_eq [OF assms(1)]) (simp_all add: list_all_length)
  then have "for_option 0 columns (\<lambda>i out. map_option (\<lambda>re. out[i := re]) (ring_gamma1_deserialize e (subslice zs (i * ?g) ((i + 1) * ?g)) (out ! i))) out_z
      = Some (map (\<lambda>i. chunks 8 (gamma1_decode e (subslice zs (i * ?g) ((i + 1) * ?g)))) [0..<columns])"
    using for_option_update [of columns "\<lambda>i. ring_gamma1_deserialize e (subslice zs (i * ?g) ((i + 1) * ?g))" out_z] assms(5) by simp
  also have "map (\<lambda>i. chunks 8 (gamma1_decode e (subslice zs (i * ?g) ((i + 1) * ?g)))) [0..<columns] = decode_response e zs"
    using chunks_subslices [of ?g zs columns] assms(3) by (simp add: add.commute)
  finally show ?thesis
    using assms(2,3,4) by (simp add: signature_deserialize_def slice_copy_def mult.commute case_prod_beta)
qed

subsection \<open>The properties of the component\<close>

abbreviation size_for :: "mldsa_params \<Rightarrow> nat" where
  "size_for p \<equiv> signature_size (ROWS_IN_A p) (COLUMNS_IN_A p) (MAX_ONES_IN_HINT p) (COMMITMENT_HASH_SIZE p) (BITS_PER_GAMMA1_COEFFICIENT p)"

abbreviation serialize_for :: "mldsa_params \<Rightarrow> u8 list \<Rightarrow> dsa_ring_element list \<Rightarrow> i32 list list \<Rightarrow> u8 list option" where
  "serialize_for p hash z hint \<equiv> signature_serialize hash z hint (COMMITMENT_HASH_SIZE p) (COLUMNS_IN_A p) (ROWS_IN_A p) (GAMMA1_EXPONENT p)
     (gamma1_ring_element_size (BITS_PER_GAMMA1_COEFFICIENT p)) (MAX_ONES_IN_HINT p) (replicate (size_for p) 0)"

abbreviation deserialize_for ::
  "mldsa_params \<Rightarrow> u8 list \<Rightarrow> u8 list \<Rightarrow> dsa_ring_element list
   \<Rightarrow> ((verification_error + unit) \<times> u8 list \<times> dsa_ring_element list \<times> i32 list list) option" where
  "deserialize_for p sig out_hash out_z \<equiv> signature_deserialize (COLUMNS_IN_A p) (ROWS_IN_A p) (COMMITMENT_HASH_SIZE p) (GAMMA1_EXPONENT p)
     (gamma1_ring_element_size (BITS_PER_GAMMA1_COEFFICIENT p)) (MAX_ONES_IN_HINT p) (size_for p) sig out_hash out_z (zero_hint (ROWS_IN_A p))"

abbreviation wf_signature :: "mldsa_params \<Rightarrow> u8 list \<Rightarrow> dsa_ring_element list \<Rightarrow> i32 list list \<Rightarrow> bool" where
  "wf_signature p hash z hint \<equiv> length hash = COMMITMENT_HASH_SIZE p \<and> wf_response (COLUMNS_IN_A p) (GAMMA1_EXPONENT p) z
     \<and> wf_hint (MAX_ONES_IN_HINT p) (ROWS_IN_A p) hint"

lemma mldsa_params_facts:
  assumes "p \<in> {mldsa44, mldsa65, mldsa87}"
  shows "GAMMA1_EXPONENT p = 17 \<or> GAMMA1_EXPONENT p = 19" and "MAX_ONES_IN_HINT p < 256"
    and "gamma1_ring_element_size (BITS_PER_GAMMA1_COEFFICIENT p) = 32 * (GAMMA1_EXPONENT p + 1)"
    and "size_for p = COMMITMENT_HASH_SIZE p + COLUMNS_IN_A p * (32 * (GAMMA1_EXPONENT p + 1)) + MAX_ONES_IN_HINT p + ROWS_IN_A p"
  using assms by (auto simp: mldsa44_def mldsa65_def mldsa87_def gamma1_ring_element_size_def signature_size_def DSA_COEFFICIENTS_IN_RING_ELEMENT_def)

lemma serialize_for_eq:
  assumes "p \<in> {mldsa44, mldsa65, mldsa87}" and "wf_signature p hash z hint"
  shows "serialize_for p hash z hint = Some (hash @ encode_response (GAMMA1_EXPONENT p) z @ hint_bytes (MAX_ONES_IN_HINT p) hint)"
    and "length (hash @ encode_response (GAMMA1_EXPONENT p) z @ hint_bytes (MAX_ONES_IN_HINT p) hint) = size_for p"
proof -
  note f = mldsa_params_facts [OF assms(1)]
  show "serialize_for p hash z hint = Some (hash @ encode_response (GAMMA1_EXPONENT p) z @ hint_bytes (MAX_ONES_IN_HINT p) hint)"
    unfolding f(3,4) using assms(2) by (intro signature_serialize_eq f(1)) simp_all
  show "length (hash @ encode_response (GAMMA1_EXPONENT p) z @ hint_bytes (MAX_ONES_IN_HINT p) hint) = size_for p"
    unfolding f(4) using assms(2) response_encoding(1) [OF f(1), of "COLUMNS_IN_A p" z]
      length_hint_bytes [of "MAX_ONES_IN_HINT p" "ROWS_IN_A p" hint] by simp
qed

text \<open>
  C31. Signatures round trip: for each of the three parameter sets, a commitment hash, a response whose coefficients are in the mask
  range and a hint of zeros and ones with at most \<open>MAX_ONES_IN_HINT\<close> ones serialize, without aborting and into exactly the size of a signature,
  to a byte string that deserializes without error to the same three parts, whatever the output buffers held.
\<close>

theorem dsa_signature_roundtrip:
  assumes "p \<in> {mldsa44, mldsa65, mldsa87}" and "wf_signature p hash z hint"
    and "length out_hash = COMMITMENT_HASH_SIZE p" and "length out_z = COLUMNS_IN_A p" and "list_all wf_dsa_ring out_z"
  shows "\<exists>sig. serialize_for p hash z hint = Some sig \<and> length sig = size_for p
    \<and> deserialize_for p sig out_hash out_z = Some (Inr (), hash, z, hint)"
proof -
  note f = mldsa_params_facts [OF assms(1)] and s = serialize_for_eq [OF assms(1,2)]
  have "deserialize_for p (hash @ encode_response (GAMMA1_EXPONENT p) z @ hint_bytes (MAX_ONES_IN_HINT p) hint) out_hash out_z
      = Some (Inr (), hash, z, hint)"
    unfolding f(3) using assms(2-5) response_encoding [OF f(1), of "COLUMNS_IN_A p" z] deserialize_hints_bytes [OF _ f(2), of "ROWS_IN_A p" hint]
    by (subst signature_deserialize_eq [OF f(1)]) simp_all
  then show ?thesis using s by blast
qed

theorem dsa_signature_roundtrip_witness:
  "\<exists>sig. serialize_for mldsa44 (replicate 32 1) (replicate 4 dsa_polynomial_zero) (zero_hint 4) = Some sig \<and> length sig = 2420
     \<and> deserialize_for mldsa44 sig (replicate 32 0) (replicate 4 dsa_polynomial_zero)
       = Some (Inr (), replicate 32 1, replicate 4 dsa_polynomial_zero, zero_hint 4)"
proof -
  have "wf_signature mldsa44 (replicate 32 1) (replicate 4 dsa_polynomial_zero) (zero_hint 4)"
    by (simp add: mldsa44_def wf_response_def wf_hint_def wf_hint_row_def list_all_iff wf_dsa_ring_def dsa_polynomial_zero_def
        dsa_zero_def coeffs_in_def hint_indices_def)
  then show ?thesis
    using dsa_signature_roundtrip [of mldsa44 "replicate 32 1" "replicate 4 dsa_polynomial_zero" "zero_hint 4"
        "replicate 32 0" "replicate 4 dsa_polynomial_zero"]
    by (simp add: mldsa44_def signature_size_def gamma1_ring_element_size_def DSA_COEFFICIENTS_IN_RING_ELEMENT_def
        list_all_iff wf_dsa_ring_def dsa_polynomial_zero_def dsa_zero_def)
qed

text \<open>
  C30. Signature encodings are canonical: every byte string of the signature size either deserializes without error to well-formed parts,
  and serializing these parts gives back exactly the string, or is rejected with \<open>MalformedHintError\<close>, and then
  it is not the encoding of any well-formed signature. So positions out of order or repeated, counters that decrease or exceed the
  maximum, and non-zero bytes after the last position are all rejected, and no accepted signature can be re-encoded.
\<close>

theorem dsa_signature_canonical:
  assumes "p \<in> {mldsa44, mldsa65, mldsa87}" and "length sig = size_for p"
    and "length out_hash = COMMITMENT_HASH_SIZE p" and "length out_z = COLUMNS_IN_A p" and "list_all wf_dsa_ring out_z"
  shows "(\<exists>hash z hint. deserialize_for p sig out_hash out_z = Some (Inr (), hash, z, hint)
      \<and> wf_signature p hash z hint \<and> serialize_for p hash z hint = Some sig)
    \<or> (\<exists>hash z h. deserialize_for p sig out_hash out_z = Some (Inl MalformedHintError, hash, z, h)
      \<and> (\<forall>hash' z' hint'. wf_signature p hash' z' hint' \<longrightarrow> serialize_for p hash' z' hint' \<noteq> Some sig))"
proof -
  note f = mldsa_params_facts [OF assms(1)]
  let ?g = "32 * (GAMMA1_EXPONENT p + 1)" and ?m = "MAX_ONES_IN_HINT p" and ?rows = "ROWS_IN_A p" and ?c = "COMMITMENT_HASH_SIZE p"
  define hash where "hash = take ?c sig"
  define zs where "zs = take (COLUMNS_IN_A p * ?g) (drop ?c sig)"
  define hs where "hs = drop (COLUMNS_IN_A p * ?g) (drop ?c sig)"
  have sig: "sig = hash @ zs @ hs" unfolding hash_def zs_def hs_def append_take_drop_id ..
  have l: "length hash = ?c" "length zs = COLUMNS_IN_A p * ?g" "length hs = ?m + ?rows"
    using assms(2) unfolding f(4) by (simp_all add: hash_def zs_def hs_def)
  define z where "z = decode_response (GAMMA1_EXPONENT p) zs"
  have d: "deserialize_for p sig out_hash out_z = Some (case deserialize_hints hs ?rows ?m (zero_hint ?rows) of (malformed, h) \<Rightarrow>
      (if malformed then Inl MalformedHintError else Inr (), hash, z, h))"
    unfolding f(3) sig z_def by (rule signature_deserialize_eq [OF f(1) l(1,2) assms(3-5)])
  note z = response_decoding [OF f(1) l(2), folded z_def]
  show ?thesis
  proof (cases "fst (deserialize_hints hs ?rows ?m (zero_hint ?rows))")
    case False
    obtain hint where h: "deserialize_hints hs ?rows ?m (zero_hint ?rows) = (False, hint)" "wf_hint ?m ?rows hint" "hs = hint_bytes ?m hint"
      using deserialize_hints_accepts [OF l(3) False] .
    then have w: "wf_signature p hash z hint" using l(1) z(1) by simp
    have "serialize_for p hash z hint = Some sig"
      unfolding serialize_for_eq(1) [OF assms(1) w] z(2) h(3) [symmetric] sig ..
    then show ?thesis using d h(1) w by auto
  next
    case True
    have "serialize_for p hash' z' hint' \<noteq> Some sig" if w: "wf_signature p hash' z' hint'" for hash' z' hint'
    proof
      assume "serialize_for p hash' z' hint' = Some sig"
      then have "hash' @ encode_response (GAMMA1_EXPONENT p) z' @ hint_bytes ?m hint' = hash @ zs @ hs"
        unfolding serialize_for_eq(1) [OF assms(1) w] by (simp add: sig)
      moreover have "length hash' = length hash" "length (encode_response (GAMMA1_EXPONENT p) z') = length zs"
        using w l response_encoding(1) [OF f(1)] by simp_all
      ultimately have "hs = hint_bytes ?m hint'" by (simp add: append_eq_append_conv)
      then show False using True deserialize_hints_bytes [OF _ f(2), of ?rows hint'] w by simp
    qed
    then show ?thesis using d True by (auto simp: case_prod_beta)
  qed
qed

theorem dsa_signature_canonical_witness:
  "\<exists>hash z hint. deserialize_for mldsa44 (replicate 2420 0) (replicate 32 0) (replicate 4 dsa_polynomial_zero) = Some (Inr (), hash, z, hint)
     \<and> serialize_for mldsa44 hash z hint = Some (replicate 2420 0)"
proof -
  have h: "wf_hint 80 4 (zero_hint 4)" "hint_bytes 80 (zero_hint 4) = replicate 84 0" by code_simp+
  have "\<exists>hash z. deserialize_for mldsa44 (replicate 2420 0) (replicate 32 0) (replicate 4 dsa_polynomial_zero) = Some (Inr (), hash, z, zero_hint 4)"
    using signature_deserialize_eq [of 17 "replicate 32 0" 32 "replicate 2304 0" 4 "replicate 32 0" "replicate 4 dsa_polynomial_zero" 4 80 2420 "replicate 84 0" "zero_hint 4"]
      deserialize_hints_bytes [OF h(1)] h(2)
    by (simp add: mldsa44_def signature_size_def gamma1_ring_element_size_def DSA_COEFFICIENTS_IN_RING_ELEMENT_def
        list_all_iff wf_dsa_ring_def dsa_polynomial_zero_def dsa_zero_def flip: replicate_add)
  then show ?thesis
    using dsa_signature_canonical [of mldsa44 "replicate 2420 0" "replicate 32 0" "replicate 4 dsa_polynomial_zero"]
    by (auto simp: mldsa44_def signature_size_def gamma1_ring_element_size_def DSA_COEFFICIENTS_IN_RING_ELEMENT_def
        list_all_iff wf_dsa_ring_def dsa_polynomial_zero_def dsa_zero_def)
qed

end
