(* ===== verification/MLDSA_Matrix.thy ===== *)
theory MLDSA_Matrix
  imports MLDSA_NTT_Spec MLDSA_Signature
begin

section \<open>ML-DSA: ring elements, vectors and matrices\<close>

text \<open>
  The loops over the 32 vectors of a ring element and over the ring elements of a vector or a matrix:
  \<open>libcrux_mldsa_core.c\<close> lines 4554--4766, 5085--5395, 5420--5510 and 5640--5770. A matrix is the flat list of its ring elements, row by row, in
  the transformed domain.

  The lemmas give the value of every operation modulo 8380417 and the bound of its coefficients. No sum or product leaves the range of its machine type
  for vectors of up to seven ring elements, the largest parameter set.
\<close>

subsection \<open>Ring elements\<close>

definition dsa_ntt_multiply_montgomery :: "dsa_ring_element \<Rightarrow> dsa_ring_element \<Rightarrow> dsa_ring_element" where
  "dsa_ntt_multiply_montgomery lhs rhs = for_loop 0 32 (\<lambda>i lhs. lhs[i := dsa_montgomery_multiply (lhs ! i) (rhs ! i)]) lhs"

definition dsa_polynomial_add :: "dsa_ring_element \<Rightarrow> dsa_ring_element \<Rightarrow> dsa_ring_element" where
  "dsa_polynomial_add self rhs = for_loop 0 32 (\<lambda>i self. self[i := dsa_add (self ! i) (rhs ! i)]) self"

definition dsa_polynomial_subtract :: "dsa_ring_element \<Rightarrow> dsa_ring_element \<Rightarrow> dsa_ring_element" where
  "dsa_polynomial_subtract self rhs = for_loop 0 32 (\<lambda>i self. self[i := dsa_subtract (self ! i) (rhs ! i)]) self"

definition dsa_polynomial_barrett_reduce :: "dsa_ring_element \<Rightarrow> dsa_ring_element" where
  "dsa_polynomial_barrett_reduce self = for_loop 0 32 (\<lambda>i self. self[i := barrett_reduce_simd_unit (self ! i)]) self"

definition ring_shift_left_then_reduce :: "nat \<Rightarrow> dsa_ring_element \<Rightarrow> dsa_ring_element" where
  "ring_shift_left_then_reduce SHIFT_BY re = for_loop 0 32 (\<lambda>i re. re[i := shift_left_then_reduce SHIFT_BY (re ! i)]) re"

definition dsa_polynomial_infinity_norm_exceeds :: "dsa_ring_element \<Rightarrow> i32 \<Rightarrow> bool" where
  "dsa_polynomial_infinity_norm_exceeds self bound =
     for_loop 0 32 (\<lambda>i result.
       let coeff_exceeds = infinity_norm_exceeds (self ! i) bound in if result then True else coeff_exceeds) False"

subsection \<open>Vectors\<close>

definition vector_infinity_norm_exceeds :: "dsa_ring_element list \<Rightarrow> i32 \<Rightarrow> bool" where
  "vector_infinity_norm_exceeds vector bound =
     for_loop 0 (length vector) (\<lambda>i result.
       if result then True else dsa_polynomial_infinity_norm_exceeds (vector ! i) bound) False"

definition subtract_vectors :: "nat \<Rightarrow> dsa_ring_element list \<Rightarrow> dsa_ring_element list \<Rightarrow> dsa_ring_element list" where
  "subtract_vectors dimension lhs rhs = for_loop 0 dimension (\<lambda>i lhs. lhs[i := dsa_polynomial_subtract (lhs ! i) (rhs ! i)]) lhs"

definition add_vectors :: "nat \<Rightarrow> dsa_ring_element list \<Rightarrow> dsa_ring_element list \<Rightarrow> dsa_ring_element list" where
  "add_vectors dimension lhs rhs = for_loop 0 dimension (\<lambda>i lhs. lhs[i := dsa_polynomial_add (lhs ! i) (rhs ! i)]) lhs"

definition vector_times_ring_element :: "dsa_ring_element list \<Rightarrow> dsa_ring_element \<Rightarrow> dsa_ring_element list" where
  "vector_times_ring_element vector ring_element =
     for_loop 0 (length vector) (\<lambda>i vector.
       let vector = vector[i := dsa_ntt_multiply_montgomery (vector ! i) ring_element]
       in vector[i := dsa_invert_ntt_montgomery (vector ! i)]) vector"

definition decompose_vector ::
  "nat \<Rightarrow> i32 \<Rightarrow> dsa_ring_element list \<Rightarrow> dsa_ring_element list \<Rightarrow> dsa_ring_element list
   \<Rightarrow> (dsa_ring_element list \<times> dsa_ring_element list) option" where
  "decompose_vector dimension gamma2 t low high =
     for_option 0 dimension (\<lambda>i (low, high).
       map_option (\<lambda>(l, h). (low[i := l], high[i := h]))
         (for_option 0 32 (\<lambda>j (l, h).
            map_option (\<lambda>(lj, hj). (l[j := lj], h[j := hj])) (dsa_decompose gamma2 (t ! i ! j) (l ! j) (h ! j)))
            (low ! i, high ! i))) (low, high)"

definition power2round_vector :: "dsa_ring_element list \<Rightarrow> dsa_ring_element list \<Rightarrow> dsa_ring_element list \<times> dsa_ring_element list" where
  "power2round_vector t t1 =
     for_loop 0 (length t) (\<lambda>i (t, t1).
       let (x, y) = for_loop 0 32 (\<lambda>j (x, y). let (xj, yj) = dsa_power2round (x ! j) (y ! j) in (x[j := xj], y[j := yj])) (t ! i, t1 ! i)
       in (t[i := x], t1[i := y])) (t, t1)"

definition make_hint ::
  "dsa_ring_element list \<Rightarrow> dsa_ring_element list \<Rightarrow> i32 \<Rightarrow> i32 list list \<Rightarrow> nat \<times> i32 list list" where
  "make_hint low high gamma2 hint =
     (let (true_hints, hint_simd, hint) =
        for_loop 0 (length low) (\<lambda>i (true_hints, hint_simd, hint).
          let (true_hints, hint_simd) = for_loop 0 32 (\<lambda>j (true_hints, hint_simd).
                let (one_hints_count, h) = compute_hint (low ! i ! j) (high ! i ! j) gamma2 (hint_simd ! j)
                in (true_hints + one_hints_count, hint_simd[j := h])) (true_hints, hint_simd)
          in (true_hints, hint_simd, hint[i := to_i32_array hint_simd])) (0, dsa_polynomial_zero, hint)
      in (true_hints, hint))"

definition vector_use_hint :: "i32 \<Rightarrow> i32 list list \<Rightarrow> dsa_ring_element list \<Rightarrow> dsa_ring_element list option" where
  "vector_use_hint gamma2 hint re_vector =
     for_option 0 (length re_vector) (\<lambda>i re_vector.
       let tmp = from_i32_array (hint ! i) dsa_polynomial_zero
       in map_option (\<lambda>tmp. re_vector[i := tmp])
            (for_option 0 32 (\<lambda>j tmp. map_option (\<lambda>h. tmp[j := h]) (dsa_use_hint gamma2 (re_vector ! i ! j) (tmp ! j))) tmp)) re_vector"

subsection \<open>Matrices\<close>

definition compute_as1_plus_s2 ::
  "nat \<Rightarrow> nat \<Rightarrow> dsa_ring_element list \<Rightarrow> dsa_ring_element list \<Rightarrow> dsa_ring_element list \<Rightarrow> dsa_ring_element list
   \<Rightarrow> dsa_ring_element list \<times> dsa_ring_element list" where
  "compute_as1_plus_s2 rows_in_a columns_in_a a_as_ntt s1_ntt s1_s2 result =
     (let (a_as_ntt, result) =
        for_loop 0 rows_in_a (\<lambda>i. for_loop 0 columns_in_a (\<lambda>j (a_as_ntt, result).
          let a_as_ntt = a_as_ntt[i * columns_in_a + j := dsa_ntt_multiply_montgomery (a_as_ntt ! (i * columns_in_a + j)) (s1_ntt ! j)];
              result = result[i := dsa_polynomial_add (result ! i) (a_as_ntt ! (i * columns_in_a + j))]
          in (a_as_ntt, result))) (a_as_ntt, result);
        result = for_loop 0 (length result) (\<lambda>i result.
          let result = result[i := dsa_polynomial_barrett_reduce (result ! i)];
              result = result[i := dsa_invert_ntt_montgomery (result ! i)]
          in result[i := dsa_polynomial_add (result ! i) (s1_s2 ! (columns_in_a + i))]) result
      in (a_as_ntt, result))"

definition compute_matrix_x_mask ::
  "nat \<Rightarrow> nat \<Rightarrow> dsa_ring_element list \<Rightarrow> dsa_ring_element list \<Rightarrow> dsa_ring_element list \<Rightarrow> dsa_ring_element list" where
  "compute_matrix_x_mask rows_in_a columns_in_a matrix mask_vector result =
     for_loop 0 rows_in_a (\<lambda>i result.
       let result = for_loop 0 columns_in_a (\<lambda>j result.
             let product = mask_vector ! j;
                 product = dsa_ntt_multiply_montgomery product (matrix ! (i * columns_in_a + j))
             in result[i := dsa_polynomial_add (result ! i) product]) result;
           result = result[i := dsa_polynomial_barrett_reduce (result ! i)]
       in result[i := dsa_invert_ntt_montgomery (result ! i)]) result"

definition compute_w_approx ::
  "nat \<Rightarrow> nat \<Rightarrow> dsa_ring_element list \<Rightarrow> dsa_ring_element list \<Rightarrow> dsa_ring_element \<Rightarrow> dsa_ring_element list \<Rightarrow> dsa_ring_element list" where
  "compute_w_approx rows_in_a columns_in_a matrix signer_response verifier_challenge_as_ntt t1 =
     for_loop 0 rows_in_a (\<lambda>i t1.
       let inner_result = for_loop 0 columns_in_a (\<lambda>j inner_result.
             let product = matrix ! (i * columns_in_a + j);
                 product = dsa_ntt_multiply_montgomery product (signer_response ! j)
             in dsa_polynomial_add inner_result product) dsa_polynomial_zero;
           t1 = t1[i := ring_shift_left_then_reduce 13 (t1 ! i)];
           t1 = t1[i := dsa_ntt (t1 ! i)];
           t1 = t1[i := dsa_ntt_multiply_montgomery (t1 ! i) verifier_challenge_as_ntt];
           inner_result = dsa_polynomial_subtract inner_result (t1 ! i);
           t1 = t1[i := inner_result];
           t1 = t1[i := dsa_polynomial_barrett_reduce (t1 ! i)]
       in t1[i := dsa_invert_ntt_montgomery (t1 ! i)]) t1"

definition t0_deserialize_to_vector_then_ntt :: "u8 list \<Rightarrow> dsa_ring_element list \<Rightarrow> dsa_ring_element list" where
  "t0_deserialize_to_vector_then_ntt serialized ring_elements =
     for_loop 0 (length serialized div RING_ELEMENT_OF_T0S_SIZE) (\<lambda>i ring_elements.
       let bytes = subslice serialized (i * RING_ELEMENT_OF_T0S_SIZE) (i * RING_ELEMENT_OF_T0S_SIZE + RING_ELEMENT_OF_T0S_SIZE);
           ring_elements = ring_elements[i := ring_t0_deserialize bytes (ring_elements ! i)]
       in ring_elements[i := dsa_ntt (ring_elements ! i)]) ring_elements"

definition error_deserialize_to_vector_then_ntt :: "eta \<Rightarrow> nat \<Rightarrow> u8 list \<Rightarrow> dsa_ring_element list \<Rightarrow> dsa_ring_element list" where
  "error_deserialize_to_vector_then_ntt eta ring_element_size serialized ring_elements =
     for_loop 0 (length serialized div ring_element_size) (\<lambda>i ring_elements.
       let bytes = subslice serialized (i * ring_element_size) (i * ring_element_size + ring_element_size);
           ring_elements = ring_elements[i := ring_error_deserialize eta bytes (ring_elements ! i)]
       in ring_elements[i := dsa_ntt (ring_elements ! i)]) ring_elements"

end
