(* ===== verification/SHA3_Xof.thy ===== *)
theory SHA3_Xof
  imports SHA3_Sponge
begin

section \<open>SHA-3: the incremental extendable-output functions\<close>

text \<open>
  The buffered state of \<open>libcrux_sha3_portable.c\<close> lines 2411--2890 (rate 136, \<open>Shake256Xof\<close>) and 4018--4490
  (rate 168, \<open>Shake128Xof\<close>), which absorbs and squeezes byte strings of any length across calls. The record
  is the C struct; the rate is an argument. A state that is absorbing represents the message absorbed so
  far, a state that is squeezing the number of bytes produced so far; every operation is shown
  to respect this.
\<close>

record keccak_xof_state =
  inner :: keccak_state
  buf :: "u8 list"
  buf_len :: nat
  sponge :: bool
  squeeze_buf :: "u8 list"
  squeeze_pos :: nat

definition zero_block :: "nat \<Rightarrow> u8 list" where
  "zero_block rate = replicate rate 0"

definition xof_new :: "nat \<Rightarrow> keccak_xof_state" where
  "xof_new rate =
     \<lparr>inner = keccak_new, buf = zero_block rate, buf_len = 0, sponge = False,
      squeeze_buf = zero_block rate, squeeze_pos = rate\<rparr>"

definition fill_buffer :: "nat \<Rightarrow> keccak_xof_state \<Rightarrow> u8 list \<Rightarrow> keccak_xof_state \<times> nat" where
  "fill_buffer rate self inputs =
     (let input_len = length inputs
      in if buf_len self \<noteq> 0
         then if input_len \<ge> rate - buf_len self
              then let consumed = rate - buf_len self;
                       self = self\<lparr>buf := slice_copy (buf self) (buf_len self) (take consumed inputs)\<rparr>
                   in (self\<lparr>buf_len := rate\<rparr>, consumed)
              else (self, 0)
         else (self, 0))"

definition absorb_full :: "nat \<Rightarrow> keccak_xof_state \<Rightarrow> u8 list \<Rightarrow> keccak_xof_state \<times> nat" where
  "absorb_full rate self inputs =
     (let (self, consumed) = fill_buffer rate self inputs;
          self = (if buf_len self = rate
                  then self\<lparr>inner := keccakf1600 (load_block rate (inner self) (buf self) 0), buf_len := 0\<rparr>
                  else self);
          input_to_consume = length inputs - consumed;
          num_blocks = input_to_consume div rate;
          remainder = input_to_consume mod rate;
          self = for_loop 0 num_blocks
            (\<lambda>i self.
               let start = i * rate + consumed
               in self\<lparr>inner := keccakf1600 (load_block rate (inner self) inputs start)\<rparr>) self
      in (self, remainder))"

definition xof_absorb :: "nat \<Rightarrow> keccak_xof_state \<Rightarrow> u8 list \<Rightarrow> keccak_xof_state" where
  "xof_absorb rate self inputs =
     (let (self, remainder) = absorb_full rate self inputs
      in if remainder > 0
         then let input_len = length inputs;
                  self = self\<lparr>buf := slice_copy (buf self) (buf_len self)
                                      (subslice inputs (input_len - remainder) input_len)\<rparr>
              in self\<lparr>buf_len := buf_len self + remainder\<rparr>
         else self)"

definition xof_absorb_final :: "nat \<Rightarrow> u8 \<Rightarrow> keccak_xof_state \<Rightarrow> u8 list \<Rightarrow> keccak_xof_state" where
  "xof_absorb_final rate delim self inputs =
     (let self = xof_absorb rate self inputs
      in self\<lparr>inner := keccakf1600 (load_last rate delim (inner self) (buf self) 0 (buf_len self))\<rparr>)"

definition xof_squeeze :: "nat \<Rightarrow> keccak_xof_state \<Rightarrow> u8 list \<Rightarrow> keccak_xof_state \<times> u8 list" where
  "xof_squeeze rate self out =
     (let out_len = length out
      in if out_len = 0 then (self, out)
         else
           let (self, out, out_offset) =
                 (if squeeze_pos self < rate
                  then let avail = rate - squeeze_pos self;
                           tk = (if avail < out_len then avail else out_len);
                           out = slice_copy out 0 (subslice (squeeze_buf self) (squeeze_pos self) (squeeze_pos self + tk))
                       in (self\<lparr>squeeze_pos := squeeze_pos self + tk\<rparr>, out, tk)
                  else (self, out, 0))
           in if out_offset = out_len then (self, out)
              else
                let self = (if sponge self then self\<lparr>inner := keccakf1600 (inner self)\<rparr> else self);
                    self = self\<lparr>sponge := True\<rparr>;
                    remaining = out_len - out_offset;
                    blocks = remaining div rate;
                    last_full = out_offset + blocks * rate
                in if blocks = 0
                   then let self = self\<lparr>squeeze_buf := store_block (inner self) (squeeze_buf self) 0 rate\<rparr>;
                            out = slice_copy out out_offset (take remaining (squeeze_buf self))
                        in (self\<lparr>squeeze_pos := remaining\<rparr>, out)
                   else
                     let out = store_block (inner self) out out_offset rate;
                         (s, out) = for_loop 1 blocks
                           (\<lambda>i (s, out).
                              let s = keccakf1600 s in (s, store_block s out (out_offset + i * rate) rate))
                           (inner self, out);
                         self = self\<lparr>inner := s\<rparr>;
                         trailing = out_len - last_full
                     in if trailing > 0
                        then let self = self\<lparr>inner := keccakf1600 (inner self)\<rparr>;
                                 self = self\<lparr>squeeze_buf := store_block (inner self) (squeeze_buf self) 0 rate\<rparr>;
                                 out = slice_copy out last_full (take trailing (squeeze_buf self))
                             in (self\<lparr>squeeze_pos := trailing\<rparr>, out)
                        else (self, out))"

subsection \<open>What a state represents\<close>

definition xof_absorbed :: "nat \<Rightarrow> keccak_xof_state \<Rightarrow> u8 list \<Rightarrow> bool" where
  "xof_absorbed rate st m \<longleftrightarrow>
     buf_len st = length m mod rate
     \<and> length (buf st) = rate
     \<and> take (buf_len st) (buf st) = drop (length m - buf_len st) m
     \<and> inner st = absorb_blocks rate (take (length m - buf_len st) m) (replicate 25 0)
     \<and> \<not> sponge st \<and> length (squeeze_buf st) = rate \<and> squeeze_pos st = rate"

definition xof_squeezed :: "nat \<Rightarrow> keccak_xof_state \<Rightarrow> keccak_state \<Rightarrow> nat \<Rightarrow> nat \<Rightarrow> bool" where
  "xof_squeezed rate st S j k \<longleftrightarrow>
     length (squeeze_buf st) = rate \<and> squeeze_pos st \<le> rate
     \<and> inner st = (keccak_f_spec ^^ j) S
     \<and> (if sponge st then k = j * rate + squeeze_pos st else j = 0 \<and> k = 0 \<and> squeeze_pos st = rate)
     \<and> (squeeze_pos st < rate \<longrightarrow> squeeze_buf st = take rate (state_bytes (inner st)))"

subsection \<open>Absorbing\<close>

text \<open>The part of \<open>xof_absorb\<close> after the buffer has been completed and absorbed.\<close>

definition absorb_rest :: "nat \<Rightarrow> keccak_xof_state \<Rightarrow> u8 list \<Rightarrow> nat \<Rightarrow> keccak_xof_state" where
  "absorb_rest rate st inputs consumed =
     (let n = length inputs - consumed;
          st = st\<lparr>inner := for_loop 0 (n div rate) (\<lambda>i s. absorb_block rate s inputs (i * rate + consumed)) (inner st)\<rparr>;
          r = n mod rate
      in if r > 0
         then st\<lparr>buf := slice_copy (buf st) (buf_len st) (subslice inputs (length inputs - r) (length inputs)),
                 buf_len := buf_len st + r\<rparr>
         else st)"

lemma for_loop_inner:
  "for_loop 0 n (\<lambda>i self. self\<lparr>inner := g i (inner self)\<rparr>) st = st\<lparr>inner := for_loop 0 n g (inner st)\<rparr>"
  by (induction n) (simp_all add: for_loop_last)

lemma xof_absorb_rest:
  "xof_absorb rate st inputs =
     (let (st, consumed) = fill_buffer rate st inputs;
          st = (if buf_len st = rate then st\<lparr>inner := absorb_block rate (inner st) (buf st) 0, buf_len := 0\<rparr> else st)
      in absorb_rest rate st inputs consumed)"
  by (simp add: xof_absorb_def absorb_full_def absorb_rest_def Let_def split_beta absorb_block_def
      for_loop_inner [where g = "\<lambda>i s. keccakf1600 (load_block rate s inputs (i * rate + c))" for c])

context sponge_rate
begin

lemma xof_absorbedI:
  assumes "m = M @ T" and "length M = k * rate" and "length T < rate" and "buf_len st = length T"
    and "length (buf st) = rate" and "take (length T) (buf st) = T"
    and "inner st = absorb_blocks rate M (replicate 25 0)"
    and "\<not> sponge st" and "length (squeeze_buf st) = rate" and "squeeze_pos st = rate"
  shows "xof_absorbed rate st m"
  using assms by (simp add: xof_absorbed_def)

lemma xof_absorbedE:
  assumes "xof_absorbed rate st m"
  obtains M T k where "m = M @ T" "length M = k * rate" "length T < rate" "buf_len st = length T"
    "length (buf st) = rate" "take (length T) (buf st) = T"
    "inner st = absorb_blocks rate M (replicate 25 0)"
    "\<not> sponge st" "length (squeeze_buf st) = rate" "squeeze_pos st = rate"
proof -
  let ?r = "buf_len st"
  have r: "?r = length m mod rate" using assms by (simp add: xof_absorbed_def)
  then have "?r < rate" "?r \<le> length m" using rate_pos by simp_all
  moreover from this have "length (drop (length m - ?r) m) = ?r" by simp
  moreover have "length (take (length m - ?r) m) = length m div rate * rate" by (simp add: r minus_mod_eq_div_mult)
  ultimately show thesis
    using assms unfolding xof_absorbed_def
    by (elim conjE, intro that [of "take (length m - ?r) m" "drop (length m - ?r) m" "length m div rate"])
       (simp_all only: append_take_drop_id not_False_eq_True)
qed

lemma absorb_rest_full:
  assumes "length M = k * rate" and "c \<le> length inputs" and "buf_len st = 0" and "length (buf st) = rate"
    and "inner st = absorb_blocks rate M (replicate 25 0)"
    and "\<not> sponge st" and "length (squeeze_buf st) = rate" and "squeeze_pos st = rate"
  shows "xof_absorbed rate (absorb_rest rate st inputs c) (M @ drop c inputs)"
proof -
  define b r where "b = (length inputs - c) div rate" and "r = (length inputs - c) mod rate"
  have n: "c + b * rate + r = length inputs" "r < rate" using assms(2) rate_pos by (simp_all add: b_def r_def)
  let ?B = "subslice inputs c (c + b * rate)" and ?T = "subslice inputs (length inputs - r) (length inputs)"
  have e: "length inputs - r = c + b * rate" using n(1) by linarith
  have split: "drop c inputs = ?B @ ?T"
    unfolding e using n(1) by (subst subslice_append) (simp_all add: subslice_def)
  have B: "length ?B = b * rate" and T: "length ?T = r" using n(1) by simp_all
  have loop: "for_loop 0 b (\<lambda>i s. absorb_block rate s inputs (i * rate + c)) (inner st)
      = absorb_blocks rate (M @ ?B) (replicate 25 0)"
    unfolding assms(5) absorb_blocks_append [OF assms(1)] using n(1) by (subst absorb_loop) simp_all
  have st': "absorb_rest rate st inputs c = st\<lparr>inner := absorb_blocks rate (M @ ?B) (replicate 25 0),
      buf := slice_copy (buf st) 0 ?T, buf_len := r\<rparr>"
    using loop assms(3) by (cases "r = 0") (simp_all add: absorb_rest_def Let_def flip: b_def r_def, simp_all add: subslice_def)
  show ?thesis
    unfolding st' split using assms n(2) T B
    by (intro xof_absorbedI [where M = "M @ ?B" and T = ?T and k = "k + b"])
       (simp_all add: slice_copy_def algebra_simps)
qed

lemma absorb_rest_short:
  assumes "xof_absorbed rate st m" and "buf_len st + length inputs < rate"
  shows "xof_absorbed rate (absorb_rest rate st inputs 0) (m @ inputs)"
  using assms(1)
proof (rule xof_absorbedE)
  fix M T k
  assume st: "m = M @ T" "length M = k * rate" "length T < rate" "buf_len st = length T"
    "length (buf st) = rate" "take (length T) (buf st) = T"
    "inner st = absorb_blocks rate M (replicate 25 0)"
    "\<not> sponge st" "length (squeeze_buf st) = rate" "squeeze_pos st = rate"
  have "absorb_rest rate st inputs 0 = st\<lparr>buf := slice_copy (buf st) (length T) inputs, buf_len := length T + length inputs\<rparr>"
    using assms(2) st(4) by (cases "inputs = []") (simp_all add: absorb_rest_def Let_def subslice_full)
  then show ?thesis
    using st assms(2) by (intro xof_absorbedI [where M = M and T = "T @ inputs" and k = k]) (simp_all add: slice_copy_def)
qed

lemma xof_absorb_absorbed:
  assumes "xof_absorbed rate st m"
  shows "xof_absorbed rate (xof_absorb rate st inputs) (m @ inputs)"
  using assms
proof (rule xof_absorbedE)
  fix M T k
  assume st: "m = M @ T" "length M = k * rate" "length T < rate" "buf_len st = length T"
    "length (buf st) = rate" "take (length T) (buf st) = T"
    "inner st = absorb_blocks rate M (replicate 25 0)"
    "\<not> sponge st" "length (squeeze_buf st) = rate" "squeeze_pos st = rate"
  let ?c = "rate - length T"
  consider "T = []" | "T \<noteq> []" "?c \<le> length inputs" | "T \<noteq> []" "length T + length inputs < rate" by linarith
  then show ?thesis
  proof cases
    case 1
    then have "xof_absorb rate st inputs = absorb_rest rate st inputs 0"
      using st(4) rate_pos by (simp add: xof_absorb_rest fill_buffer_def)
    then show ?thesis using absorb_rest_full [OF st(2), of 0 inputs st] st 1 by simp
  next
    case 2
    let ?B = "T @ take ?c inputs"
    let ?st = "st\<lparr>buf := ?B, inner := absorb_block rate (inner st) ?B 0, buf_len := 0\<rparr>"
    have B: "length ?B = rate" using 2 st(3) by simp
    have "slice_copy (buf st) (length T) (take ?c inputs) = ?B" using 2 st(3,5,6) by (simp add: slice_copy_def)
    then have "xof_absorb rate st inputs = absorb_rest rate ?st inputs ?c"
      using st(4) 2 by (simp add: xof_absorb_rest fill_buffer_def Let_def)
    moreover have "absorb_block rate (inner st) ?B 0 = absorb_blocks rate (M @ ?B) (replicate 25 0)"
      using absorb_block_eq [of "inner st" 0 ?B] B
      by (simp add: st(7) subslice_full absorb_blocks_append [OF st(2)] absorb_blocks_single)
    moreover have "m @ inputs = (M @ ?B) @ drop ?c inputs" by (simp add: st(1))
    moreover have "length (M @ ?B) = (k + 1) * rate" using st(2) B by simp
    ultimately show ?thesis
      using absorb_rest_full [of "M @ ?B" "k + 1" ?c inputs ?st] 2 st B by simp
  next
    case 3
    then have "xof_absorb rate st inputs = absorb_rest rate st inputs 0"
      using st(3,4) by (simp add: xof_absorb_rest fill_buffer_def)
    then show ?thesis using absorb_rest_short [OF assms] 3 st(4) by simp
  qed
qed

lemma xof_new_absorbed: "xof_absorbed rate (xof_new rate) []"
  using rate_pos by (intro xof_absorbedI [where M = "[]" and T = "[]" and k = 0])
    (simp_all add: xof_new_def zero_block_def keccak_new_def zero_d2_def map_replicate_const absorb_blocks_def)

lemma xof_absorb_final_squeezed:
  assumes "xof_absorbed rate st m"
  shows "xof_squeezed rate (xof_absorb_final rate delim st inputs) (sponge_state rate delim (m @ inputs)) 0 0"
  using xof_absorb_absorbed [OF assms, of inputs]
proof (rule xof_absorbedE)
  fix M T k
  let ?st = "xof_absorb rate st inputs"
  assume st: "m @ inputs = M @ T" "length M = k * rate" "length T < rate" "buf_len ?st = length T"
    "length (buf ?st) = rate" "take (length T) (buf ?st) = T"
    "inner ?st = absorb_blocks rate M (replicate 25 0)"
    "\<not> sponge ?st" "length (squeeze_buf ?st) = rate" "squeeze_pos ?st = rate"
  have "pad_message rate delim (M @ T) = M @ pad_last rate delim T"
    using st(2,3) by (simp add: pad_message_def)
  then have "sponge_state rate delim (m @ inputs) = absorb_blocks rate (pad_last rate delim T) (inner ?st)"
    unfolding sponge_state_def st(1) st(7) using absorb_blocks_append [OF st(2)] by simp
  also have "\<dots> = absorb_final rate delim (inner ?st) (buf ?st) 0 (length T)"
    using absorb_final_eq [of "inner ?st" "length T" 0 "buf ?st" delim] st(3,5,6,7) by (simp add: subslice_def)
  finally show ?thesis using st by (simp add: xof_squeezed_def xof_absorb_final_def absorb_final_def Let_def)
qed

end

subsection \<open>Squeezing\<close>

text \<open>The two phases of \<open>xof_squeeze\<close>: the rest of the buffered block, then whole blocks and a new buffer.\<close>

definition squeeze_buffered :: "nat \<Rightarrow> keccak_xof_state \<Rightarrow> u8 list \<Rightarrow> keccak_xof_state \<times> u8 list \<times> nat" where
  "squeeze_buffered rate st out =
     (if squeeze_pos st < rate
      then let n = (if rate - squeeze_pos st < length out then rate - squeeze_pos st else length out)
           in (st\<lparr>squeeze_pos := squeeze_pos st + n\<rparr>,
               slice_copy out 0 (subslice (squeeze_buf st) (squeeze_pos st) (squeeze_pos st + n)), n)
      else (st, out, 0))"

definition refill_buffer :: "nat \<Rightarrow> keccak_xof_state \<Rightarrow> u8 list \<Rightarrow> nat \<Rightarrow> nat \<Rightarrow> keccak_xof_state \<times> u8 list" where
  "refill_buffer rate st out off n =
     (let b = store_block (inner st) (squeeze_buf st) 0 rate
      in (st\<lparr>squeeze_buf := b, squeeze_pos := n\<rparr>, slice_copy out off (take n b)))"

definition squeeze_blocks :: "nat \<Rightarrow> keccak_xof_state \<Rightarrow> u8 list \<Rightarrow> nat \<Rightarrow> keccak_xof_state \<times> u8 list" where
  "squeeze_blocks rate st out off =
     (let n = length out - off; b = n div rate; r = n mod rate
      in if b = 0 then refill_buffer rate st out off n
         else let (s, out) = for_loop 1 b
                    (\<lambda>i (s, out). let s = keccakf1600 s in (s, store_block s out (off + i * rate) rate))
                    (inner st, store_block (inner st) out off rate)
              in if r > 0 then refill_buffer rate (st\<lparr>inner := keccakf1600 s\<rparr>) out (off + b * rate) r
                 else (st\<lparr>inner := s\<rparr>, out))"

definition begin_squeeze :: "keccak_xof_state \<Rightarrow> keccak_xof_state" where
  "begin_squeeze st = (if sponge st then st\<lparr>inner := keccakf1600 (inner st)\<rparr> else st)\<lparr>sponge := True\<rparr>"

lemma length_store_block [simp]: "length s = 25 \<Longrightarrow> len \<le> 200 \<Longrightarrow> start + len \<le> length out \<Longrightarrow> length (store_block s out start len) = length out"
  by (simp add: rate_168.store_block_eq)

lemma trailing_mod: "off \<le> m \<Longrightarrow> m - (off + (m - off) div r * r) = (m - off) mod r" for m off r :: nat
  using div_mult_mod_eq [of "m - off" r] by linarith

lemma squeeze_buffered_length:
  "squeeze_buffered rate st out = (st', out', off) \<Longrightarrow> length out' = length out \<and> off \<le> length out"
  by (auto simp: squeeze_buffered_def Let_def split: if_splits)

lemma xof_squeeze_phases:
  "xof_squeeze rate st out =
     (if length out = 0 then (st, out)
      else let (st, out', off) = squeeze_buffered rate st out
           in if off = length out then (st, out') else squeeze_blocks rate (begin_squeeze st) out' off)"
proof -
  obtain st' out' off where b: "squeeze_buffered rate st out = (st', out', off)" by (metis prod_cases3)
  note l = squeeze_buffered_length [OF b]
  have "(if squeeze_pos st < rate
         then let avail = rate - squeeze_pos st; tk = (if avail < length out then avail else length out);
                  out = slice_copy out 0 (subslice (squeeze_buf st) (squeeze_pos st) (squeeze_pos st + tk))
              in (st\<lparr>squeeze_pos := squeeze_pos st + tk\<rparr>, out, tk)
         else (st, out, 0)) = (st', out', off)"
    unfolding b [symmetric] by (simp add: squeeze_buffered_def Let_def)
  then show ?thesis
    using l trailing_mod [of off "length out" rate]
    by (simp add: xof_squeeze_def b squeeze_blocks_def begin_squeeze_def refill_buffer_def Let_def split_beta)
qed

context sponge_rate
begin

lemma stream_range:
  assumes "length S = 25" and "p + n \<le> rate"
  shows "subslice (take rate (state_bytes ((keccak_f_spec ^^ j) S))) p (p + n)
    = map (sponge_stream rate S) [j * rate + p..<j * rate + p + n]"
proof (rule nth_equalityI)
  have "length (state_bytes ((keccak_f_spec ^^ j) S)) = 200" using assms(1) by simp
  then show "length (subslice (take rate (state_bytes ((keccak_f_spec ^^ j) S))) p (p + n))
      = length (map (sponge_stream rate S) [j * rate + p..<j * rate + p + n])"
    using assms(2) rate_le by simp
  fix i assume "i < length (subslice (take rate (state_bytes ((keccak_f_spec ^^ j) S))) p (p + n))"
  then have i: "i < n" "p + i < rate" using assms(2) by simp_all
  have "(j * rate + p + i) div rate = j" "(j * rate + p + i) mod rate = p + i"
    using i(2) rate_pos by (simp_all add: add.assoc)
  then show "subslice (take rate (state_bytes ((keccak_f_spec ^^ j) S))) p (p + n) ! i
      = map (sponge_stream rate S) [j * rate + p..<j * rate + p + n] ! i"
    using i rate_le \<open>length (state_bytes _) = 200\<close> by (simp add: sponge_stream_def)
qed

lemma squeeze_buffered_eq:
  assumes "length S = 25" and "xof_squeezed rate st S j k" and "squeeze_buffered rate st out = (st', out', off)"
  shows "xof_squeezed rate st' S j (k + off)"
    and "out' = map (sponge_stream rate S) [k..<k + off] @ drop off out"
    and "off < length out \<Longrightarrow> squeeze_pos st' = rate"
proof -
  let ?p = "squeeze_pos st"
  have "xof_squeezed rate st' S j (k + off) \<and> out' = map (sponge_stream rate S) [k..<k + off] @ drop off out
    \<and> (off < length out \<longrightarrow> squeeze_pos st' = rate)"
  proof (cases "?p < rate")
    case True
    have st: "sponge st" "k = j * rate + ?p" "squeeze_buf st = take rate (state_bytes ((keccak_f_spec ^^ j) S))"
      using assms(2) True by (auto simp: xof_squeezed_def split: if_splits)
    have e: "st' = st\<lparr>squeeze_pos := ?p + off\<rparr>" "out' = slice_copy out 0 (subslice (squeeze_buf st) ?p (?p + off))"
      and off: "off = (if rate - ?p < length out then rate - ?p else length out)"
      using assms(3) True unfolding squeeze_buffered_def Let_def if_P [OF True] by (elim Pair_inject, blast)+
    have l: "?p + off \<le> rate" "off < length out \<Longrightarrow> ?p + off = rate" using True off by (simp_all split: if_splits)
    have "out' = map (sponge_stream rate S) [k..<k + off] @ drop off out"
      using stream_range [OF assms(1) l(1), of j] by (simp add: e(2) st(2,3) slice_copy_def)
    moreover have "xof_squeezed rate st' S j (k + off)"
      using assms(2) st(1,2) l(1) by (simp add: e(1) xof_squeezed_def)
    moreover have "squeeze_pos st' = ?p + off" by (simp add: e(1))
    ultimately show ?thesis using l(2) by simp
  next
    case False
    then have "st' = st" "out' = out" "off = 0" "?p = rate"
      using assms(2,3) by (simp_all add: squeeze_buffered_def xof_squeezed_def)
    then show ?thesis using assms(2) by simp
  qed
  then show "xof_squeezed rate st' S j (k + off)"
    and "out' = map (sponge_stream rate S) [k..<k + off] @ drop off out"
    and "off < length out \<Longrightarrow> squeeze_pos st' = rate" by simp_all
qed

lemma begin_squeeze_eq:
  assumes "length S = 25" and "xof_squeezed rate st S j k" and "squeeze_pos st = rate"
  obtains J where "k = J * rate" "inner (begin_squeeze st) = (keccak_f_spec ^^ J) S" "sponge (begin_squeeze st)"
    "length (squeeze_buf (begin_squeeze st)) = rate" "squeeze_pos (begin_squeeze st) = rate"
proof (cases "sponge st")
  case True
  then show thesis
    using that [of "Suc j"] assms keccakf1600_refines(1) [of "(keccak_f_spec ^^ j) S"]
    by (simp add: xof_squeezed_def begin_squeeze_def)
next
  case False
  then show thesis using that [of 0] assms by (simp add: xof_squeezed_def begin_squeeze_def)
qed

lemma refill_buffer_eq:
  assumes "length S = 25" and "inner st = (keccak_f_spec ^^ J) S" and "sponge st" and "length (squeeze_buf st) = rate"
    and "k + off = J * rate" and "0 < n" and "n < rate" and "off + n = length out"
    and "refill_buffer rate st (map (sponge_stream rate S) [k..<k + off] @ drop off out) off n = (st', out')"
  shows "xof_squeezed rate st' S J (k + length out)" and "out' = map (sponge_stream rate S) [k..<k + length out]"
proof -
  have b: "store_block (inner st) (squeeze_buf st) 0 rate = take rate (state_bytes ((keccak_f_spec ^^ J) S))"
    using store_block_eq [of "inner st" rate 0 "squeeze_buf st"] assms(1,2,4) rate_le by (simp add: slice_copy_def)
  have e: "st' = st\<lparr>squeeze_buf := take rate (state_bytes ((keccak_f_spec ^^ J) S)), squeeze_pos := n\<rparr>"
    "out' = slice_copy (map (sponge_stream rate S) [k..<k + off] @ drop off out) off
       (take n (take rate (state_bytes ((keccak_f_spec ^^ J) S))))"
    using assms(9) by (simp_all add: refill_buffer_def b)
  have "take n (take rate (state_bytes ((keccak_f_spec ^^ J) S))) = map (sponge_stream rate S) [k + off..<k + off + n]"
    using stream_block [OF assms(1), of n J] assms(5,7) by (simp add: min_def)
  moreover have "[k..<k + length out] = [k..<k + off] @ [k + off..<k + off + n]"
    using upt_add_eq_append [of k "k + off" n] assms(8) by (simp add: add.assoc)
  ultimately show "out' = map (sponge_stream rate S) [k..<k + length out]"
    using assms(8) by (simp add: e(2) slice_copy_def)
  show "xof_squeezed rate st' S J (k + length out)"
    using assms rate_le by (simp add: e(1) xof_squeezed_def)
qed

lemma squeeze_blocks_eq:
  assumes S: "length S = 25" and st: "inner st = (keccak_f_spec ^^ J) S" "sponge st" "length (squeeze_buf st) = rate"
      "squeeze_pos st = rate"
    and k: "k + off = J * rate" and off: "off < length out"
    and e: "squeeze_blocks rate st (map (sponge_stream rate S) [k..<k + off] @ drop off out) off = (st', out')"
  shows "\<exists>j. xof_squeezed rate st' S j (k + length out)" and "out' = map (sponge_stream rate S) [k..<k + length out]"
proof -
  define n b r where "n = length out - off" and "b = n div rate" and "r = n mod rate"
  have n: "n = b * rate + r" "r < rate" "off + n = length out" using rate_pos off by (simp_all add: n_def b_def r_def)
  let ?w = "\<lambda>m. map (sponge_stream rate S) [k..<k + m] @ drop m out"
  have l: "length (?w off) - off = n" using off by (simp add: n_def)
  note e2 = e [unfolded squeeze_blocks_def Let_def l, folded b_def r_def]
  have "(\<exists>j. xof_squeezed rate st' S j (k + length out)) \<and> out' = map (sponge_stream rate S) [k..<k + length out]"
  proof (cases "b = 0")
    case True
    then have "refill_buffer rate st (?w off) off n = (st', out')" using e2 by simp
    then show ?thesis
      using refill_buffer_eq [OF S st(1,2,3) k, of n out] n True off by (auto simp: n_def)
  next
    case False
    then have br: "rate \<le> b * rate" by simp
    then have lr: "off + rate \<le> length out" "off + b * rate \<le> length out" using n by linarith+
    have first: "store_block (inner st) (?w off) off rate = ?w (off + rate)"
      using store_stream [OF S k, of rate out] lr by (simp add: st(1))
    have loop: "for_loop 1 b (\<lambda>i (s, out). let s = keccakf1600 s in (s, store_block s out (off + i * rate) rate)) (inner st, ?w (off + rate))
        = ((keccak_f_spec ^^ (J + b - 1)) S, ?w (off + b * rate))"
      using squeeze_loop [OF S k, of b out] False lr by (simp add: st(1))
    let ?st = "st\<lparr>inner := (keccak_f_spec ^^ (J + b - 1)) S\<rparr>"
    have e': "(st', out') = (if r > 0
        then refill_buffer rate (?st\<lparr>inner := keccakf1600 (inner ?st)\<rparr>) (?w (off + b * rate)) (off + b * rate) r
        else (?st, ?w (off + b * rate)))"
      using e2 False loop [unfolded Let_def] by (simp add: first split: if_splits)
    have K: "k + (off + b * rate) = (J + b) * rate" using k by (simp add: algebra_simps)
    show ?thesis
    proof (cases "r = 0")
      case True
      then have "off + b * rate = length out" using n by simp
      moreover have "xof_squeezed rate ?st S (J + b - 1) (k + length out)"
        using st K \<open>off + b * rate = length out\<close> False by (cases b) (simp_all add: xof_squeezed_def)
      ultimately show ?thesis using e' True by auto
    next
      case r: False
      have "keccakf1600 (inner ?st) = (keccak_f_spec ^^ (J + b)) S"
        using False keccakf1600_refines(1) [of "(keccak_f_spec ^^ (J + b - 1)) S"] S by (cases b) simp_all
      then show ?thesis
        using refill_buffer_eq [OF S _ _ _ K, of "?st\<lparr>inner := keccakf1600 (inner ?st)\<rparr>" r out st' out'] e' r st n by auto
    qed
  qed
  then show "\<exists>j. xof_squeezed rate st' S j (k + length out)" "out' = map (sponge_stream rate S) [k..<k + length out]" by simp_all
qed

lemma xof_squeeze_eq:
  assumes "length S = 25" and "xof_squeezed rate st S j k" and "xof_squeeze rate st out = (st', out')"
  shows "\<exists>j. xof_squeezed rate st' S j (k + length out)" and "out' = map (sponge_stream rate S) [k..<k + length out]"
proof -
  obtain st1 out1 off where b: "squeeze_buffered rate st out = (st1, out1, off)" by (metis prod_cases3)
  note B = squeeze_buffered_eq [OF assms(1,2) b] and l = squeeze_buffered_length [OF b]
  have "(\<exists>j. xof_squeezed rate st' S j (k + length out)) \<and> out' = map (sponge_stream rate S) [k..<k + length out]"
  proof (cases "length out = 0 \<or> off = length out")
    case True
    then have "st' = (if length out = 0 then st else st1)" "out' = (if length out = 0 then out else out1)"
      using assms(3) by (auto simp: xof_squeeze_phases b)
    then show ?thesis using True assms(2) B(1,2) l by auto
  next
    case False
    then have off: "off < length out" using l by simp
    note pos = B(3) [OF off]
    have e: "squeeze_blocks rate (begin_squeeze st1) (map (sponge_stream rate S) [k..<k + off] @ drop off out) off = (st', out')"
      using assms(3) False by (simp add: xof_squeeze_phases b B(2))
    show ?thesis
      using begin_squeeze_eq [OF assms(1) B(1) pos] squeeze_blocks_eq [OF assms(1) _ _ _ _ _ off e] by metis
  qed
  then show "\<exists>j. xof_squeezed rate st' S j (k + length out)" "out' = map (sponge_stream rate S) [k..<k + length out]" by simp_all
qed

end

text \<open>A sequence of squeezes into buffers of the given lengths.\<close>

fun xof_squeezes :: "nat \<Rightarrow> keccak_xof_state \<Rightarrow> nat list \<Rightarrow> u8 list" where
  "xof_squeezes rate st [] = []"
| "xof_squeezes rate st (n # ns) =
     (let (st, out) = xof_squeeze rate st (replicate n 0) in out @ xof_squeezes rate st ns)"

context sponge_rate
begin

lemma xof_squeezes_eq:
  "length S = 25 \<Longrightarrow> xof_squeezed rate st S j k \<Longrightarrow>
   xof_squeezes rate st ns = map (sponge_stream rate S) [k..<k + sum_list ns]"
proof (induction ns arbitrary: st j k)
  case (Cons n ns)
  obtain st' out' where e: "xof_squeeze rate st (replicate n 0) = (st', out')" by fastforce
  note q = xof_squeeze_eq [OF Cons.prems e, simplified]
  obtain j' where "xof_squeezed rate st' S j' (k + n)" using q(1) by blast
  then have "xof_squeezes rate st' ns = map (sponge_stream rate S) [k + n..<k + n + sum_list ns]"
    by (rule Cons.IH [OF Cons.prems(1)])
  moreover have "[k..<k + sum_list (n # ns)] = [k..<k + n] @ [k + n..<k + n + sum_list ns]"
    using upt_add_eq_append [of k "k + n" "sum_list ns"] by (simp add: add.assoc)
  ultimately show ?case using q(2) by (simp add: e)
qed simp

lemma xof_absorbs_absorbed:
  "xof_absorbed rate st m \<Longrightarrow> xof_absorbed rate (fold (\<lambda>i st. xof_absorb rate st i) inputs st) (m @ concat inputs)"
proof (induction inputs arbitrary: st m)
  case (Cons i inputs)
  show ?case using Cons.IH [OF xof_absorb_absorbed [OF Cons.prems, of i]] by simp
qed simp

lemma xof_incremental:
  "xof_squeezes rate (xof_absorb_final rate delim (fold (\<lambda>i st. xof_absorb rate st i) inputs (xof_new rate)) final) ns
   = sponge_spec rate delim (concat inputs @ final) (sum_list ns)"
  using xof_squeezes_eq [OF _ xof_absorb_final_squeezed [OF xof_absorbs_absorbed [OF xof_new_absorbed, of inputs], of delim final], of ns]
  by (simp add: sponge_spec_def)

end

text \<open>
  C28. The incremental functions: whatever way a message is cut into calls of \<open>absorb\<close> and a last call of
  \<open>absorb_final\<close>, and whatever sizes the output is squeezed in, the bytes that come out are those of the
  one-shot function on the whole message, for SHAKE-256 (rate 136) and SHAKE-128 (rate 168). In particular no
  byte of the input of \<open>absorb_final\<close> is dropped, however long it is.
\<close>

theorem xof_incremental_correct:
  "xof_squeezes 136 (xof_absorb_final 136 31 (fold (\<lambda>i st. xof_absorb 136 st i) inputs (xof_new 136)) final) ns
     = portable_shake256 (replicate (sum_list ns) 0) (concat inputs @ final)
   \<and> xof_squeezes 168 (xof_absorb_final 168 31 (fold (\<lambda>i st. xof_absorb 168 st i) inputs (xof_new 168)) final) ns
     = portable_shake128 (replicate (sum_list ns) 0) (concat inputs @ final)"
  by (simp add: rate_136.xof_incremental rate_168.xof_incremental shake_eqs)

text \<open>
  C29. The invariant of the absorbing state: after any sequence of \<open>absorb\<close> calls the buffer holds exactly the bytes
  of the message that do not fill a block, fewer than a block, and the inner state has
  absorbed all others; the state never reports squeezed bytes.
\<close>

theorem xof_absorb_invariant:
  fixes inputs :: "u8 list list"
  assumes "rate = 136 \<or> rate = 168"
  defines "st \<equiv> fold (\<lambda>i st. xof_absorb rate st i) inputs (xof_new rate)"
  shows "buf_len st < rate \<and> buf_len st = length (concat inputs) mod rate \<and> length (buf st) = rate
    \<and> take (buf_len st) (buf st) = drop (length (concat inputs) - buf_len st) (concat inputs)
    \<and> inner st = absorb_blocks rate (take (length (concat inputs) - buf_len st) (concat inputs)) (replicate 25 0)
    \<and> squeeze_pos st = rate \<and> \<not> sponge st"
proof -
  have "xof_absorbed rate st (concat inputs)"
    using assms(1) rate_136.xof_absorbs_absorbed [OF rate_136.xof_new_absorbed, of inputs]
      rate_168.xof_absorbs_absorbed [OF rate_168.xof_new_absorbed, of inputs] unfolding st_def by auto
  moreover have "length (concat inputs) mod rate < rate" using assms(1) by auto
  ultimately show ?thesis unfolding xof_absorbed_def by metis
qed

theorem xof_absorb_invariant_witness:
  "buf_len (fold (\<lambda>i st. xof_absorb 136 st i) [replicate 100 1, replicate 50 2] (xof_new 136)) = 14"
  using xof_absorb_invariant [where rate = 136 and inputs = "[replicate 100 1, replicate 50 2]"] by simp

end
