(* ===== verification/MLDSA_Sampling.thy ===== *)
theory MLDSA_Sampling
  imports MLDSA_Matrix SHA3_Xof Libcrux_Stream
begin

section \<open>ML-DSA: sampling\<close>

text \<open>
  Sampling of the matrix, of the secret vectors, of the mask and of the challenge from SHAKE streams: \<open>libcrux_mldsa_core.c\<close> lines 162--205, 264--293, 791--905
  and 5812--5983, and \<open>libcrux_mldsa_portable.c\<close> lines 23--960 and 1309--1625.

  The code works on four lanes at a time: the four states \<open>state0\<close>, ..., \<open>state3\<close>, counters \<open>sampled0\<close>, ..., flags \<open>done0\<close>, ... and output
  buffers are lists of length four here. The nested conditionals of the sampling loops leave the loop when all four flags are set and otherwise run the same body,
  so they are one condition. A loop that need not end is a \<open>while_option\<close>, whose value is \<open>None\<close> when it does not; \<open>None\<close> is also an abort on an unknown
  exponent of the mask.
\<close>

subsection \<open>Domain separators\<close>

definition add_error_domain_separator :: "u8 list \<Rightarrow> u16 \<Rightarrow> u8 list" where
  "add_error_domain_separator bytes domain_separator =
     (let out = slice_copy (replicate 66 0) 0 bytes;
          out = out[64 := ucast domain_separator]
      in out[65 := ucast (drop_bit 8 domain_separator)])"

definition flat_xy :: "nat \<Rightarrow> nat \<Rightarrow> u8 \<times> u8" where
  "flat_xy index width = (word_of_nat (index div width), word_of_nat (index mod width))"

definition generate_domain_separator :: "u8 \<times> u8 \<Rightarrow> u16" where
  "generate_domain_separator = (\<lambda>(row, column). ucast column OR push_bit 8 (ucast row))"

definition add_domain_separator :: "u8 list \<Rightarrow> u8 \<times> u8 \<Rightarrow> u8 list" where
  "add_domain_separator bytes indices =
     (let out = slice_copy (replicate 34 0) 0 bytes;
          domain_separator = generate_domain_separator indices;
          out = out[32 := ucast domain_separator]
      in out[33 := ucast (drop_bit 8 domain_separator)])"

subsection \<open>Rejection sampling from bytes\<close>

definition unit_rejection_sample_less_than_field_modulus :: "u8 list \<Rightarrow> i32 list \<Rightarrow> nat \<times> i32 list" where
  "unit_rejection_sample_less_than_field_modulus randomness out =
     for_loop 0 (length randomness div 3) (\<lambda>i (sampled, out).
       let b0 = uint (randomness ! (i * 3));
           b1 = uint (randomness ! (i * 3 + 1));
           b2 = uint (randomness ! (i * 3 + 2));
           coefficient = ((shl_i32 b2 16 OR shl_i32 b1 8) OR b0) AND 8388607
       in if coefficient < DSA_FIELD_MODULUS then (sampled + 1, out[sampled := coefficient]) else (sampled, out)) (0, out)"

definition unit_rejection_sample_less_than_eta_equals_2 :: "u8 list \<Rightarrow> i32 list \<Rightarrow> nat \<times> i32 list" where
  "unit_rejection_sample_less_than_eta_equals_2 randomness out =
     for_loop 0 (length randomness) (\<lambda>i (sampled, out).
       let byte = randomness ! i;
           try_0 = byte AND 15;
           try_1 = drop_bit 4 byte;
           try_0_comp = try_0 < 15;
           try_1_comp = try_1 < 15;
           (sampled, out) =
             (if try_0_comp then
                let try_00 = uint try_0;
                    try_0_mod_5 = as_i32 (try_00 - as_i32 (drop_bit 7 (as_i32 (try_00 * 26)) * 5))
                in (sampled + 1, out[sampled := as_i32 (2 - try_0_mod_5)])
              else (sampled, out))
       in if try_1_comp then
            let try_10 = uint try_1;
                try_1_mod_5 = as_i32 (try_10 - as_i32 (drop_bit 7 (as_i32 (try_10 * 26)) * 5))
            in (sampled + 1, out[sampled := as_i32 (2 - try_1_mod_5)])
          else (sampled, out)) (0, out)"

definition unit_rejection_sample_less_than_eta_equals_4 :: "u8 list \<Rightarrow> i32 list \<Rightarrow> nat \<times> i32 list" where
  "unit_rejection_sample_less_than_eta_equals_4 randomness out =
     for_loop 0 (length randomness) (\<lambda>i (sampled, out).
       let byte = randomness ! i;
           try_0 = byte AND 15;
           try_1 = drop_bit 4 byte;
           try_0_comp = try_0 < 9;
           try_1_comp = try_1 < 9;
           (sampled, out) = (if try_0_comp then (sampled + 1, out[sampled := as_i32 (4 - uint try_0)]) else (sampled, out))
       in if try_1_comp then (sampled + 1, out[sampled := as_i32 (4 - uint try_1)]) else (sampled, out)) (0, out)"

text \<open>
  The three functions that fill the 263 cells of a buffer differ in the number of bytes per step and in the sampler. The callee gets the part of the buffer after the
  coefficients sampled so far.
\<close>

definition rejection_sample_steps ::
  "nat \<Rightarrow> (u8 list \<Rightarrow> i32 list \<Rightarrow> nat \<times> i32 list) \<Rightarrow> u8 list \<Rightarrow> nat \<Rightarrow> i32 list \<Rightarrow> bool \<times> nat \<times> i32 list" where
  "rejection_sample_steps n sample randomness sampled_coefficients out =
     for_loop 0 (length randomness div n) (\<lambda>i (done, sampled_coefficients, out).
       let random_bytes = subslice randomness (i * n) (i * n + n)
       in if \<not> done then
            let (sampled, cells) = sample random_bytes (drop sampled_coefficients out);
                out = slice_copy out sampled_coefficients cells;
                sampled_coefficients = sampled_coefficients + sampled
            in (if DSA_COEFFICIENTS_IN_RING_ELEMENT \<le> sampled_coefficients then True else done, sampled_coefficients, out)
          else (done, sampled_coefficients, out)) (False, sampled_coefficients, out)"

definition rejection_sample_less_than_field_modulus :: "u8 list \<Rightarrow> nat \<Rightarrow> i32 list \<Rightarrow> bool \<times> nat \<times> i32 list" where
  "rejection_sample_less_than_field_modulus = rejection_sample_steps 24 unit_rejection_sample_less_than_field_modulus"

definition rejection_sample_less_than_eta_equals_4 :: "u8 list \<Rightarrow> nat \<Rightarrow> i32 list \<Rightarrow> bool \<times> nat \<times> i32 list" where
  "rejection_sample_less_than_eta_equals_4 = rejection_sample_steps 4 unit_rejection_sample_less_than_eta_equals_4"

definition rejection_sample_less_than_eta_equals_2 :: "u8 list \<Rightarrow> nat \<Rightarrow> i32 list \<Rightarrow> bool \<times> nat \<times> i32 list" where
  "rejection_sample_less_than_eta_equals_2 = rejection_sample_steps 4 unit_rejection_sample_less_than_eta_equals_2"

definition rejection_sample_less_than_eta :: "eta \<Rightarrow> u8 list \<Rightarrow> nat \<Rightarrow> i32 list \<Rightarrow> bool \<times> nat \<times> i32 list" where
  "rejection_sample_less_than_eta eta randomness sampled out =
     (case eta of Eta_Two \<Rightarrow> rejection_sample_less_than_eta_equals_2 randomness sampled out
      | Eta_Four \<Rightarrow> rejection_sample_less_than_eta_equals_4 randomness sampled out)"

subsection \<open>Four SHAKE states\<close>

definition shake128x4_init_absorb :: "u8 list list \<Rightarrow> keccak_state list" where
  "shake128x4_init_absorb inputs = map (shake128_absorb_final shake128_init) inputs"

definition shake128x4_squeeze_first_five_blocks :: "keccak_state list \<Rightarrow> u8 list list \<Rightarrow> keccak_state list \<times> u8 list list" where
  "shake128x4_squeeze_first_five_blocks state outs =
     (let r = map2 shake128_squeeze_first_five_blocks state outs in (map fst r, map snd r))"

definition shake128x4_squeeze_next_block :: "keccak_state list \<Rightarrow> keccak_state list \<times> u8 list list" where
  "shake128x4_squeeze_next_block state =
     (let r = map (\<lambda>s. shake128_squeeze_next_block s (replicate 168 0)) state in (map fst r, map snd r))"

definition shake256x4_init_absorb :: "u8 list list \<Rightarrow> keccak_state list" where
  "shake256x4_init_absorb inputs = map (shake256_absorb_final shake256_init) inputs"

definition shake256x4_squeeze_first_block :: "keccak_state list \<Rightarrow> u8 list list" where
  "shake256x4_squeeze_first_block state = map (\<lambda>s. shake256_squeeze_first_block s (replicate 136 0)) state"

definition shake256x4_squeeze_next_block :: "keccak_state list \<Rightarrow> keccak_state list \<times> u8 list list" where
  "shake256x4_squeeze_next_block state =
     (let r = map (\<lambda>s. shake256_squeeze_next_block s (replicate 136 0)) state in (map fst r, map snd r))"

definition shake256x4 :: "nat \<Rightarrow> u8 list list \<Rightarrow> u8 list list" where
  "shake256x4 OUT_LEN inputs = map (portable_shake256 (replicate OUT_LEN 0)) inputs"

subsection \<open>The sampling loop on four lanes\<close>

type_synonym sampling_lane = "bool \<times> nat \<times> i32 list"

definition sampling_loop ::
  "(keccak_state list \<Rightarrow> keccak_state list \<times> u8 list list) \<Rightarrow> (u8 list \<Rightarrow> nat \<Rightarrow> i32 list \<Rightarrow> sampling_lane)
   \<Rightarrow> keccak_state list \<times> sampling_lane list \<Rightarrow> (keccak_state list \<times> sampling_lane list) option" where
  "sampling_loop squeeze sample =
     while_option (\<lambda>(state, lanes). \<not> list_all fst lanes)
       (\<lambda>(state, lanes).
          let (state, randomnesses) = squeeze state
          in (state, map2 (\<lambda>(done, sampled, out) randomness.
                if \<not> done then sample randomness sampled out else (done, sampled, out)) lanes randomnesses))"

subsection \<open>The secret vectors\<close>

definition sample_four_error_ring_elements :: "eta \<Rightarrow> u8 list \<Rightarrow> u16 \<Rightarrow> dsa_ring_element list \<Rightarrow> dsa_ring_element list option" where
  "sample_four_error_ring_elements eta seed start_index re =
     (let seeds = [add_error_domain_separator seed start_index, add_error_domain_separator seed (start_index + 1),
                   add_error_domain_separator seed (start_index + 2), add_error_domain_separator seed (start_index + 3)];
          state = shake256x4_init_absorb seeds;
          randomnesses = shake256x4_squeeze_first_block state;
          lanes = map (\<lambda>randomness. rejection_sample_less_than_eta eta randomness 0 (replicate 263 0)) randomnesses
      in map_option (\<lambda>(state, lanes).
           let out = map (snd \<circ> snd) lanes;
               max0 = unat start_index + 4;
               max = (if length re < max0 then length re else max0)
           in for_loop (unat start_index) max (\<lambda>i re. re[i := from_i32_array (out ! (i mod 4)) (re ! i)]) re)
         (sampling_loop shake256x4_squeeze_next_block (rejection_sample_less_than_eta eta) (state, lanes)))"

definition sample_s1_and_s2 :: "eta \<Rightarrow> u8 list \<Rightarrow> dsa_ring_element list \<Rightarrow> dsa_ring_element list option" where
  "sample_s1_and_s2 eta seed s1_s2 =
     (let len = length s1_s2;
          remainder = len mod 4
      in Option.bind
           (for_option 0 (len div 4) (\<lambda>i s1_s2. sample_four_error_ring_elements eta seed (4 * word_of_nat i) s1_s2) s1_s2)
           (\<lambda>s1_s2. if remainder \<noteq> 0 then sample_four_error_ring_elements eta seed (word_of_nat (len - remainder)) s1_s2 else Some s1_s2))"

subsection \<open>The matrix\<close>

definition sample_up_to_four_ring_elements_flat ::
  "nat \<Rightarrow> u8 list \<Rightarrow> nat \<Rightarrow> nat \<Rightarrow> dsa_ring_element list \<times> u8 list list \<times> i32 list list
   \<Rightarrow> (dsa_ring_element list \<times> u8 list list \<times> i32 list list) option" where
  "sample_up_to_four_ring_elements_flat columns seed start_index elements_requested = (\<lambda>(matrix, rand_stack, tmp_stack).
     let seeds = map (\<lambda>k. add_domain_separator seed (flat_xy (start_index + k) columns)) [0, 1, 2, 3];
         state = shake128x4_init_absorb seeds;
         (state, rand_stack) = shake128x4_squeeze_first_five_blocks state rand_stack;
         lanes = map2 (\<lambda>randomness out. rejection_sample_less_than_field_modulus randomness 0 out) rand_stack tmp_stack
     in map_option (\<lambda>(state, lanes).
          let tmp_stack = map (snd \<circ> snd) lanes
          in (for_loop 0 elements_requested (\<lambda>k matrix.
                matrix[start_index + k := from_i32_array (tmp_stack ! k) (matrix ! (start_index + k))]) matrix, rand_stack, tmp_stack))
        (sampling_loop shake128x4_squeeze_next_block rejection_sample_less_than_field_modulus (state, lanes)))"

text \<open>The loop is left at the first index past the matrix; the indices grow, so no later one would do anything.\<close>

definition matrix_flat :: "nat \<Rightarrow> u8 list \<Rightarrow> dsa_ring_element list \<Rightarrow> dsa_ring_element list option" where
  "matrix_flat columns seed matrix =
     map_option fst (for_option 0 (length matrix div 4 + 1) (\<lambda>start_index (matrix, rand_stack, tmp_stack).
       let start_index = start_index * 4
       in if length matrix \<le> start_index then Some (matrix, rand_stack, tmp_stack)
          else let elements_requested = (if start_index + 4 \<le> length matrix then 4 else length matrix - start_index)
               in sample_up_to_four_ring_elements_flat columns seed start_index elements_requested (matrix, rand_stack, tmp_stack))
       (matrix, replicate 4 (replicate 840 0), replicate 4 (replicate 263 0)))"

subsection \<open>The mask\<close>

definition sample_mask_ring_element :: "u8 list \<Rightarrow> dsa_ring_element \<Rightarrow> nat \<Rightarrow> dsa_ring_element option" where
  "sample_mask_ring_element seed result gamma1_exponent =
     (if gamma1_exponent = 17 then ring_gamma1_deserialize gamma1_exponent (portable_shake256 (replicate 576 0) seed) result
      else if gamma1_exponent = 19 then ring_gamma1_deserialize gamma1_exponent (portable_shake256 (replicate 640 0) seed) result
      else None)"

definition sample_mask_vector ::
  "nat \<Rightarrow> nat \<Rightarrow> u8 list \<Rightarrow> u16 \<Rightarrow> dsa_ring_element list \<Rightarrow> (u16 \<times> dsa_ring_element list) option" where
  "sample_mask_vector dimension gamma1_exponent seed domain_separator mask_vec =
     (let seeds = [add_error_domain_separator seed domain_separator, add_error_domain_separator seed (domain_separator + 1),
                   add_error_domain_separator seed (domain_separator + 2), add_error_domain_separator seed (domain_separator + 3)];
          domain_separator = domain_separator + 4;
          deserialize = (\<lambda>outs. for_option 0 4 (\<lambda>i mask_vec.
            map_option (\<lambda>re. mask_vec[i := re]) (ring_gamma1_deserialize gamma1_exponent (outs ! i) (mask_vec ! i))) mask_vec)
      in Option.bind
           (if gamma1_exponent = 17 then deserialize (shake256x4 576 seeds)
            else if gamma1_exponent = 19 then deserialize (shake256x4 640 seeds)
            else None)
           (\<lambda>mask_vec. for_option 4 dimension (\<lambda>i (domain_separator, mask_vec).
              let seed4 = add_error_domain_separator seed domain_separator;
                  domain_separator = domain_separator + 1
              in map_option (\<lambda>re. (domain_separator, mask_vec[i := re])) (sample_mask_ring_element seed4 (mask_vec ! i) gamma1_exponent))
              (domain_separator, mask_vec)))"

subsection \<open>The challenge\<close>

type_synonym shuffle_state = "bool \<times> nat \<times> u64 \<times> i32 list"

definition inside_out_shuffle :: "u8 list \<Rightarrow> nat \<Rightarrow> u64 \<Rightarrow> i32 list \<Rightarrow> shuffle_state" where
  "inside_out_shuffle randomness out_index signs result =
     for_loop 0 (length randomness) (\<lambda>i (done, out_index, signs, result).
       let byte = randomness ! i
       in if \<not> done then
            let sample_at = unat byte;
                (out_index, signs, result) =
                  (if sample_at \<le> out_index then
                     let result = result[out_index := result ! sample_at];
                         out_index = out_index + 1;
                         result = result[sample_at := 1 - 2 * uint (signs AND 1)];
                         signs = drop_bit 1 signs
                     in (out_index, signs, result)
                   else (out_index, signs, result))
            in (out_index = 256, out_index, signs, result)
          else (done, out_index, signs, result)) (False, out_index, signs, result)"

definition sample_challenge_ring_element :: "u8 list \<Rightarrow> nat \<Rightarrow> dsa_ring_element \<Rightarrow> dsa_ring_element option" where
  "sample_challenge_ring_element seed number_of_ones re =
     (let state = shake256_absorb_final shake256_init seed;
          randomness0 = shake256_squeeze_first_block state (replicate 136 0);
          signs = from_le_bytes (subslice randomness0 0 8);
          result = replicate 256 0;
          out_index = 256 - number_of_ones;
          shuffled = inside_out_shuffle (drop 8 randomness0) out_index signs result
      in map_option (\<lambda>(state, done, out_index, signs, result). from_i32_array result re)
           (while_option (\<lambda>(state, done, _). \<not> done)
              (\<lambda>(state, done, out_index, signs, result).
                 let (state, randomness) = shake256_squeeze_next_block state (replicate 136 0)
                 in (state, inside_out_shuffle randomness out_index signs result)) (state, shuffled)))"

end
