(* ===== verification/MLDSA_Generic.thy ===== *)
theory MLDSA_Generic
  imports MLDSA_Sampling "HOL-Library.Monad_Syntax"
begin

section \<open>ML-DSA: key generation, signing and verification\<close>

text \<open>
  The generic code of the scheme, \<open>libcrux_mldsa_portable.c\<close> lines 280--330 and 999--4560. The C code has one copy of every function per parameter set, which
  differ in the constants and in the sizes of the arrays only; here each is one definition over the record \<open>mldsa_params\<close>.

  \<open>None\<close> is a sampling loop that does not end or an abort. Errors that the code returns are values of \<open>signing_error\<close> and \<open>verification_error\<close>, and a result that is written
  through a pointer is returned next to them.
\<close>

subsection \<open>Constants, errors and contexts\<close>

definition SEED_FOR_ERROR_VECTORS_SIZE :: nat where
  "SEED_FOR_ERROR_VECTORS_SIZE = 64"

definition REJECTION_SAMPLE_BOUND_SIGN :: nat where
  "REJECTION_SAMPLE_BOUND_SIGN = 814"

definition CONTEXT_MAX_LEN :: nat where
  "CONTEXT_MAX_LEN = 255"

definition SHAKE128_OID :: "u8 list" where
  "SHAKE128_OID = [6, 9, 96, 134, 72, 1, 101, 3, 4, 2, 11]"

datatype signing_error = RejectionSamplingError | ContextTooLongError

datatype domain_separation_error = DomainSeparationContextTooLong

record domain_separation_context =
  dsc_context :: "u8 list"
  dsc_pre_hash_oid :: "u8 list option"

definition pre_hash_new :: "u8 list \<Rightarrow> u8 list option \<Rightarrow> domain_separation_error + domain_separation_context" where
  "pre_hash_new ctx pre_hash_oid =
     (if \<not> CONTEXT_MAX_LEN < length ctx then Inr \<lparr> dsc_context = ctx, dsc_pre_hash_oid = pre_hash_oid \<rparr>
      else Inl DomainSeparationContextTooLong)"

definition pre_hash_hash :: "u8 list \<Rightarrow> u8 list \<Rightarrow> u8 list" where
  "pre_hash_hash message buffer = portable_shake128 buffer message"

subsection \<open>The incremental SHAKE256 of the scheme\<close>

definition shake256xof_init :: keccak_xof_state where
  "shake256xof_init = xof_new 136"

definition shake256xof_absorb :: "u8 list \<Rightarrow> keccak_xof_state \<Rightarrow> keccak_xof_state" where
  "shake256xof_absorb input self = xof_absorb 136 self input"

definition shake256xof_absorb_final :: "u8 list \<Rightarrow> keccak_xof_state \<Rightarrow> keccak_xof_state" where
  "shake256xof_absorb_final input self = xof_absorb_final 136 31 self input"

definition shake256xof_squeeze :: "keccak_xof_state \<Rightarrow> u8 list \<Rightarrow> u8 list" where
  "shake256xof_squeeze self out = snd (xof_squeeze 136 self out)"

definition derive_message_representative :: "u8 list \<Rightarrow> domain_separation_context option \<Rightarrow> u8 list \<Rightarrow> u8 list" where
  "derive_message_representative verification_key_hash domain_separation_context message =
     (let shake = shake256xof_absorb verification_key_hash shake256xof_init;
          shake = (case domain_separation_context of
              None \<Rightarrow> shake
            | Some dsc \<Rightarrow>
                let shake = shake256xof_absorb [if dsc_pre_hash_oid dsc \<noteq> None then 1 else 0] shake;
                    shake = shake256xof_absorb [word_of_nat (length (dsc_context dsc))] shake;
                    shake = shake256xof_absorb (dsc_context dsc) shake
                in case dsc_pre_hash_oid dsc of None \<Rightarrow> shake | Some pre_hash_oid \<Rightarrow> shake256xof_absorb pre_hash_oid shake);
          shake = shake256xof_absorb_final message shake
      in shake256xof_squeeze shake (replicate 64 0))"

subsection \<open>Keys\<close>

abbreviation error_size :: "mldsa_params \<Rightarrow> nat" where
  "error_size p \<equiv> error_ring_element_size (BITS_PER_ERROR_COEFFICIENT p)"

abbreviation zero_vector :: "nat \<Rightarrow> dsa_ring_element list" where
  "zero_vector n \<equiv> replicate n dsa_polynomial_zero"

definition signing_key_generate_serialized ::
  "eta \<Rightarrow> nat \<Rightarrow> u8 list \<Rightarrow> u8 list \<Rightarrow> u8 list \<Rightarrow> dsa_ring_element list \<Rightarrow> dsa_ring_element list \<Rightarrow> u8 list \<Rightarrow> u8 list" where
  "signing_key_generate_serialized eta ring_element_size seed_matrix seed_signing verification_key s1_2 t0 signing_key_serialized =
     (let offset = 0;
          signing_key_serialized = slice_copy signing_key_serialized offset seed_matrix;
          offset = offset + SEED_FOR_A_SIZE;
          signing_key_serialized = slice_copy signing_key_serialized offset seed_signing;
          offset = offset + SEED_FOR_SIGNING_SIZE;
          verification_key_hash = portable_shake256 (replicate 64 0) verification_key;
          signing_key_serialized = slice_copy signing_key_serialized offset verification_key_hash;
          offset = offset + BYTES_FOR_VERIFICATION_KEY_HASH;
          (offset, signing_key_serialized) = for_loop 0 (length s1_2) (\<lambda>i (offset, s).
            (offset + ring_element_size, slice_apply s offset (offset + ring_element_size) (ring_error_serialize eta (s1_2 ! i))))
            (offset, signing_key_serialized);
          (offset, signing_key_serialized) = for_loop 0 (length t0) (\<lambda>i (offset, s).
            (offset + RING_ELEMENT_OF_T0S_SIZE, slice_apply s offset (offset + RING_ELEMENT_OF_T0S_SIZE) (ring_t0_serialize (t0 ! i))))
            (offset, signing_key_serialized)
      in signing_key_serialized)"

definition ntt_vector :: "nat \<Rightarrow> dsa_ring_element list \<Rightarrow> dsa_ring_element list" where
  "ntt_vector n v = for_loop 0 n (\<lambda>i v. v[i := dsa_ntt (v ! i)]) v"

definition generate_key_pair :: "mldsa_params \<Rightarrow> u8 list \<Rightarrow> u8 list \<Rightarrow> u8 list \<Rightarrow> (u8 list \<times> u8 list) option" where
  "generate_key_pair p randomness signing_key verification_key =
     (let shake = shake256xof_absorb randomness shake256xof_init;
          shake = shake256xof_absorb_final [word_of_nat (ROWS_IN_A p), word_of_nat (COLUMNS_IN_A p)] shake;
          seed_expanded0 = shake256xof_squeeze shake (replicate 128 0);
          seed_for_a = take SEED_FOR_A_SIZE seed_expanded0;
          seed_expanded = drop SEED_FOR_A_SIZE seed_expanded0;
          seed_for_error_vectors = take SEED_FOR_ERROR_VECTORS_SIZE seed_expanded;
          seed_for_signing = drop SEED_FOR_ERROR_VECTORS_SIZE seed_expanded
      in do {
           s1_s2 \<leftarrow> sample_s1_and_s2 (ETA p) seed_for_error_vectors (zero_vector (ROWS_IN_A p + COLUMNS_IN_A p));
           a_as_ntt \<leftarrow> matrix_flat (COLUMNS_IN_A p) seed_for_a (zero_vector (ROWS_IN_A p * COLUMNS_IN_A p));
           let s1_ntt = slice_copy (zero_vector (COLUMNS_IN_A p)) 0 (subslice s1_s2 0 (COLUMNS_IN_A p));
           let s1_ntt = ntt_vector (COLUMNS_IN_A p) s1_ntt;
           let (a_as_ntt, t0) = compute_as1_plus_s2 (ROWS_IN_A p) (COLUMNS_IN_A p) a_as_ntt s1_ntt s1_s2 (zero_vector (ROWS_IN_A p));
           let (t0, t1) = power2round_vector t0 (zero_vector (ROWS_IN_A p));
           let verification_key = verification_key_generate_serialized seed_for_a t1 verification_key;
           let signing_key = signing_key_generate_serialized (ETA p) (error_size p) seed_for_a seed_for_signing verification_key s1_s2 t0 signing_key;
           Some (signing_key, verification_key)
         })"

subsection \<open>Signing\<close>

text \<open>
  One attempt: the new domain separator and, unless the candidate is rejected, the hash of the commitment, the response and the hint. A successful attempt sets the
  counter of the loop to its bound, which ends the loop; the argument of \<open>signing_loop\<close> is the number of attempts that are left.
\<close>

definition commitment_hash_of :: "mldsa_params \<Rightarrow> u8 list \<Rightarrow> dsa_ring_element list \<Rightarrow> u8 list option" where
  "commitment_hash_of p message_representative commitment =
     do {
       commitment_serialized \<leftarrow> commitment_serialize_vector (commitment_ring_element_size (BITS_PER_COMMITMENT_COEFFICIENT p)) commitment
         (replicate (commitment_vector_size (BITS_PER_COMMITMENT_COEFFICIENT p) (ROWS_IN_A p)) 0);
       let shake = shake256xof_absorb message_representative shake256xof_init;
       let shake = shake256xof_absorb_final commitment_serialized shake;
       Some (shake256xof_squeeze shake (replicate (COMMITMENT_HASH_SIZE p) 0))
     }"

type_synonym candidate = "u8 list \<times> dsa_ring_element list \<times> i32 list list"

definition signing_attempt ::
  "mldsa_params \<Rightarrow> dsa_ring_element list \<Rightarrow> dsa_ring_element list \<Rightarrow> dsa_ring_element list \<Rightarrow> dsa_ring_element list
   \<Rightarrow> u8 list \<Rightarrow> u8 list \<Rightarrow> u16 \<Rightarrow> (u16 \<times> candidate option) option" where
  "signing_attempt p matrix s1_as_ntt s2_as_ntt t0_as_ntt message_representative mask_seed domain_separator_for_mask =
     do {
       (domain_separator_for_mask, mask_vec) \<leftarrow>
         sample_mask_vector (COLUMNS_IN_A p) (GAMMA1_EXPONENT p) mask_seed domain_separator_for_mask (zero_vector (COLUMNS_IN_A p));
       let mask_ntt = ntt_vector (COLUMNS_IN_A p) mask_vec;
       let a_x_mask = compute_matrix_x_mask (ROWS_IN_A p) (COLUMNS_IN_A p) matrix mask_ntt (zero_vector (ROWS_IN_A p));
       (w0, commitment) \<leftarrow> decompose_vector (ROWS_IN_A p) (GAMMA2 p) a_x_mask (zero_vector (ROWS_IN_A p)) (zero_vector (ROWS_IN_A p));
       commitment_hash_candidate \<leftarrow> commitment_hash_of p message_representative commitment;
       verifier_challenge \<leftarrow>
         sample_challenge_ring_element commitment_hash_candidate (ONES_IN_VERIFIER_CHALLENGE p) dsa_polynomial_zero;
       let verifier_challenge = dsa_ntt verifier_challenge;
       let challenge_times_s1 = vector_times_ring_element s1_as_ntt verifier_challenge;
       let challenge_times_s2 = vector_times_ring_element s2_as_ntt verifier_challenge;
       let mask_vec = add_vectors (COLUMNS_IN_A p) mask_vec challenge_times_s1;
       let w0 = subtract_vectors (ROWS_IN_A p) w0 challenge_times_s2;
       Some (domain_separator_for_mask,
         if \<not> vector_infinity_norm_exceeds mask_vec (as_i32 (shl_i32 1 (GAMMA1_EXPONENT p) - dsa_beta (ONES_IN_VERIFIER_CHALLENGE p) (ETA p))) then
           if \<not> vector_infinity_norm_exceeds w0 (as_i32 (GAMMA2 p - dsa_beta (ONES_IN_VERIFIER_CHALLENGE p) (ETA p))) then
             let challenge_times_t0 = vector_times_ring_element t0_as_ntt verifier_challenge
             in if \<not> vector_infinity_norm_exceeds challenge_times_t0 (GAMMA2 p) then
                  let w0 = add_vectors (ROWS_IN_A p) w0 challenge_times_t0;
                      (ones_in_hint, hint_candidate) = make_hint w0 commitment (GAMMA2 p) (zero_hint (ROWS_IN_A p))
                  in if \<not> MAX_ONES_IN_HINT p < ones_in_hint
                     then Some (commitment_hash_candidate, mask_vec, hint_candidate) else None
                else None
           else None
         else None)
     }"

primrec signing_loop :: "nat \<Rightarrow> (u16 \<Rightarrow> (u16 \<times> candidate option) option) \<Rightarrow> u16 \<Rightarrow> candidate option option" where
  "signing_loop 0 attempt domain_separator = Some None"
| "signing_loop (Suc n) attempt domain_separator =
     Option.bind (attempt domain_separator) (\<lambda>(domain_separator, result).
       case result of Some candidate \<Rightarrow> Some (Some candidate) | None \<Rightarrow> signing_loop n attempt domain_separator)"

definition sign_internal ::
  "mldsa_params \<Rightarrow> u8 list \<Rightarrow> u8 list \<Rightarrow> domain_separation_context option \<Rightarrow> u8 list \<Rightarrow> u8 list \<Rightarrow> ((signing_error + unit) \<times> u8 list) option" where
  "sign_internal p signing_key message domain_separation_context randomness signature =
     (let seed_for_a = take SEED_FOR_A_SIZE signing_key;
          remaining_serialized = drop SEED_FOR_A_SIZE signing_key;
          seed_for_signing = take SEED_FOR_SIGNING_SIZE remaining_serialized;
          remaining_serialized = drop SEED_FOR_SIGNING_SIZE remaining_serialized;
          verification_key_hash = take BYTES_FOR_VERIFICATION_KEY_HASH remaining_serialized;
          remaining_serialized = drop BYTES_FOR_VERIFICATION_KEY_HASH remaining_serialized;
          s1_serialized = take (error_size p * COLUMNS_IN_A p) remaining_serialized;
          remaining_serialized = drop (error_size p * COLUMNS_IN_A p) remaining_serialized;
          s2_serialized = take (error_size p * ROWS_IN_A p) remaining_serialized;
          t0_serialized = drop (error_size p * ROWS_IN_A p) remaining_serialized;
          s1_as_ntt = error_deserialize_to_vector_then_ntt (ETA p) (error_size p) s1_serialized (zero_vector (COLUMNS_IN_A p));
          s2_as_ntt = error_deserialize_to_vector_then_ntt (ETA p) (error_size p) s2_serialized (zero_vector (ROWS_IN_A p));
          t0_as_ntt = t0_deserialize_to_vector_then_ntt t0_serialized (zero_vector (ROWS_IN_A p))
      in do {
           matrix \<leftarrow> matrix_flat (COLUMNS_IN_A p) seed_for_a (zero_vector (ROWS_IN_A p * COLUMNS_IN_A p));
           let message_representative = derive_message_representative verification_key_hash domain_separation_context message;
           let shake = shake256xof_absorb seed_for_signing shake256xof_init;
           let shake = shake256xof_absorb randomness shake;
           let shake = shake256xof_absorb_final message_representative shake;
           let mask_seed = shake256xof_squeeze shake (replicate 64 0);
           result \<leftarrow> signing_loop REJECTION_SAMPLE_BOUND_SIGN
             (signing_attempt p matrix s1_as_ntt s2_as_ntt t0_as_ntt message_representative mask_seed) 0;
           case result of
             None \<Rightarrow> Some (Inl RejectionSamplingError, signature)
           | Some (commitment_hash, signer_response, hint) \<Rightarrow>
               map_option (Pair (Inr ())) (signature_serialize commitment_hash signer_response hint (COMMITMENT_HASH_SIZE p) (COLUMNS_IN_A p) (ROWS_IN_A p)
                 (GAMMA1_EXPONENT p) (gamma1_ring_element_size (BITS_PER_GAMMA1_COEFFICIENT p)) (MAX_ONES_IN_HINT p) signature)
         })"

definition sign_mut ::
  "mldsa_params \<Rightarrow> u8 list \<Rightarrow> u8 list \<Rightarrow> u8 list \<Rightarrow> u8 list \<Rightarrow> u8 list \<Rightarrow> ((signing_error + unit) \<times> u8 list) option" where
  "sign_mut p signing_key message ctx randomness signature =
     (case pre_hash_new ctx None of
        Inl _ \<Rightarrow> Some (Inl ContextTooLongError, signature)
      | Inr dsc \<Rightarrow> sign_internal p signing_key message (Some dsc) randomness signature)"

definition sign :: "mldsa_params \<Rightarrow> u8 list \<Rightarrow> u8 list \<Rightarrow> u8 list \<Rightarrow> u8 list \<Rightarrow> (signing_error + u8 list) option" where
  "sign p signing_key message ctx randomness =
     map_option (\<lambda>(result, signature). case result of Inl e \<Rightarrow> Inl e | Inr () \<Rightarrow> Inr signature)
       (sign_mut p signing_key message ctx randomness (replicate (size_for p) 0))"

text \<open>The functions that hash the message first leave the hash in the buffer of the caller, which is returned last.\<close>

definition sign_pre_hashed_mut ::
  "mldsa_params \<Rightarrow> u8 list \<Rightarrow> u8 list \<Rightarrow> u8 list \<Rightarrow> u8 list \<Rightarrow> u8 list \<Rightarrow> u8 list \<Rightarrow> ((signing_error + unit) \<times> u8 list \<times> u8 list) option" where
  "sign_pre_hashed_mut p signing_key message ctx pre_hash_buffer randomness signature =
     (if \<not> CONTEXT_MAX_LEN < length ctx then
        let pre_hash_buffer = pre_hash_hash message pre_hash_buffer
        in case pre_hash_new ctx (Some SHAKE128_OID) of
             Inl _ \<Rightarrow> Some (Inl ContextTooLongError, signature, pre_hash_buffer)
           | Inr dsc \<Rightarrow> map_option (\<lambda>(result, signature). (result, signature, pre_hash_buffer))
               (sign_internal p signing_key pre_hash_buffer (Some dsc) randomness signature)
      else Some (Inl ContextTooLongError, signature, pre_hash_buffer))"

definition sign_pre_hashed ::
  "mldsa_params \<Rightarrow> u8 list \<Rightarrow> u8 list \<Rightarrow> u8 list \<Rightarrow> u8 list \<Rightarrow> u8 list \<Rightarrow> ((signing_error + u8 list) \<times> u8 list) option" where
  "sign_pre_hashed p signing_key message ctx pre_hash_buffer randomness =
     map_option (\<lambda>(result, signature, pre_hash_buffer). (case result of Inl e \<Rightarrow> Inl e | Inr () \<Rightarrow> Inr signature, pre_hash_buffer))
       (sign_pre_hashed_mut p signing_key message ctx pre_hash_buffer randomness (replicate (size_for p) 0))"

subsection \<open>Verification\<close>

definition verify_internal ::
  "mldsa_params \<Rightarrow> u8 list \<Rightarrow> u8 list \<Rightarrow> domain_separation_context option \<Rightarrow> u8 list \<Rightarrow> (verification_error + unit) option" where
  "verify_internal p verification_key message domain_separation_context signature_serialized =
     (let seed_for_a = take SEED_FOR_A_SIZE verification_key;
          t1_serialized = drop SEED_FOR_A_SIZE verification_key;
          t1 = verification_key_deserialize (ROWS_IN_A p) (verification_key_size (ROWS_IN_A p)) t1_serialized (zero_vector (ROWS_IN_A p))
      in do {
           (result, deserialized_commitment_hash, deserialized_signer_response, deserialized_hint) \<leftarrow>
             signature_deserialize (COLUMNS_IN_A p) (ROWS_IN_A p) (COMMITMENT_HASH_SIZE p) (GAMMA1_EXPONENT p)
               (gamma1_ring_element_size (BITS_PER_GAMMA1_COEFFICIENT p)) (MAX_ONES_IN_HINT p) (size_for p) signature_serialized
               (replicate (COMMITMENT_HASH_SIZE p) 0) (zero_vector (COLUMNS_IN_A p)) (zero_hint (ROWS_IN_A p));
           case result of
             Inl e \<Rightarrow> Some (Inl e)
           | Inr () \<Rightarrow>
               if vector_infinity_norm_exceeds deserialized_signer_response
                    (as_i32 (shl_i32 1 (GAMMA1_EXPONENT p) - dsa_beta (ONES_IN_VERIFIER_CHALLENGE p) (ETA p)))
               then Some (Inl SignerResponseExceedsBoundError)
               else do {
                 matrix \<leftarrow> matrix_flat (COLUMNS_IN_A p) seed_for_a (zero_vector (ROWS_IN_A p * COLUMNS_IN_A p));
                 let verification_key_hash = portable_shake256 (replicate 64 0) verification_key;
                 let message_representative = derive_message_representative verification_key_hash domain_separation_context message;
                 verifier_challenge \<leftarrow>
                   sample_challenge_ring_element deserialized_commitment_hash (ONES_IN_VERIFIER_CHALLENGE p) dsa_polynomial_zero;
                 let verifier_challenge = dsa_ntt verifier_challenge;
                 let deserialized_signer_response = ntt_vector (COLUMNS_IN_A p) deserialized_signer_response;
                 let t1 = compute_w_approx (ROWS_IN_A p) (COLUMNS_IN_A p) matrix deserialized_signer_response verifier_challenge t1;
                 t1 \<leftarrow> vector_use_hint (GAMMA2 p) deserialized_hint t1;
                 recomputed_commitment_hash \<leftarrow> commitment_hash_of p message_representative t1;
                 Some (if deserialized_commitment_hash = recomputed_commitment_hash then Inr ()
                       else Inl CommitmentHashesDontMatchError)
               }
         })"

definition verify :: "mldsa_params \<Rightarrow> u8 list \<Rightarrow> u8 list \<Rightarrow> u8 list \<Rightarrow> u8 list \<Rightarrow> (verification_error + unit) option" where
  "verify p verification_key_serialized message ctx signature_serialized =
     (case pre_hash_new ctx None of
        Inl _ \<Rightarrow> Some (Inl VerificationContextTooLongError)
      | Inr dsc \<Rightarrow> verify_internal p verification_key_serialized message (Some dsc) signature_serialized)"

definition verify_pre_hashed ::
  "mldsa_params \<Rightarrow> u8 list \<Rightarrow> u8 list \<Rightarrow> u8 list \<Rightarrow> u8 list \<Rightarrow> u8 list \<Rightarrow> ((verification_error + unit) \<times> u8 list) option" where
  "verify_pre_hashed p verification_key_serialized message ctx pre_hash_buffer signature_serialized =
     (let pre_hash_buffer = pre_hash_hash message pre_hash_buffer
      in map_option (\<lambda>result. (result, pre_hash_buffer))
           (case pre_hash_new ctx (Some SHAKE128_OID) of
              Inl _ \<Rightarrow> Some (Inl VerificationContextTooLongError)
            | Inr dsc \<Rightarrow> verify_internal p verification_key_serialized pre_hash_buffer (Some dsc) signature_serialized))"

end
