(* ===== verification/MLDSA_RingArith.thy ===== *)
theory MLDSA_RingArith
  imports MLDSA_Matrix
begin

section \<open>ML-DSA: values and bounds of the ring operations\<close>

text \<open>
  Every loop of \<open>MLDSA_Matrix\<close> over the 32 vectors of a ring element, as an operation on its 256 coefficients \<open>dsa_coeff re k\<close>: a bound of the
  result and its coefficients modulo 8380417 (or exactly, for rounding and hints).
\<close>

subsection \<open>Coefficients\<close>

definition dsa_coeff :: "dsa_ring_element \<Rightarrow> nat \<Rightarrow> int" where
  "dsa_coeff re k = concat re ! k"

lemma concat_map2:
  "list_all2 (\<lambda>u v. length u = length v) a b \<Longrightarrow> concat (map2 (map2 f) a b) = map2 f (concat a) (concat b)"
  by (induction rule: list_all2_induct) simp_all

lemma wf_all2: "wf_dsa_ring a \<Longrightarrow> wf_dsa_ring b \<Longrightarrow> list_all2 (\<lambda>u v. length u = length v) a b"
  by (simp add: wf_dsa_ring_def list_all2_conv_all_nth list_all_length)

lemma dsa_loop_map2:
  assumes "wf_dsa_ring a" and "wf_dsa_ring b" and h: "\<And>u v. length u = 8 \<Longrightarrow> length v = 8 \<Longrightarrow> h u v = map2 f u v"
  shows "wf_dsa_ring (for_loop 0 32 (\<lambda>i a. a[i := h (a ! i) (b ! i)]) a)"
    and "concat (for_loop 0 32 (\<lambda>i a. a[i := h (a ! i) (b ! i)]) a) = map2 f (concat a) (concat b)"
proof -
  have "for_loop 0 32 (\<lambda>i a. a[i := h (a ! i) (b ! i)]) a = map2 h a b"
    using assms(1,2) by (intro for_loop_map2) (simp_all add: wf_dsa_ring_def)
  also have "\<dots> = map2 (map2 f) a b"
    using assms by (intro nth_equalityI) (simp_all add: wf_dsa_ring_def list_all_length)
  finally have e: "for_loop 0 32 (\<lambda>i a. a[i := h (a ! i) (b ! i)]) a = map2 (map2 f) a b" .
  show "wf_dsa_ring (for_loop 0 32 (\<lambda>i a. a[i := h (a ! i) (b ! i)]) a)"
    using assms(1,2) by (simp add: e wf_dsa_ring_def list_all_length)
  show "concat (for_loop 0 32 (\<lambda>i a. a[i := h (a ! i) (b ! i)]) a) = map2 f (concat a) (concat b)"
    unfolding e by (rule concat_map2 [OF wf_all2 [OF assms(1,2)]])
qed

lemma dsa_bounded_iff: "dsa_bounded B re \<longleftrightarrow> wf_dsa_ring re \<and> (\<forall>k < 256. \<bar>dsa_coeff re k\<bar> \<le> B)"
  using length_concat_ring [of re] by (auto simp: dsa_bounded_def list_all_length dsa_coeff_def)

lemma dsa_bounded_nth: "dsa_bounded B re \<Longrightarrow> k < 256 \<Longrightarrow> \<bar>dsa_coeff re k\<bar> \<le> B"
  by (simp add: dsa_bounded_iff)

lemma dsa_coeff_zero [simp]: "k < 256 \<Longrightarrow> dsa_coeff dsa_polynomial_zero k = 0" "dsa_bounded 0 dsa_polynomial_zero"
proof -
  have e: "concat dsa_polynomial_zero = replicate 256 0"
    by (simp add: dsa_polynomial_zero_def dsa_zero_def concat_replicate_trivial numeral_eq_Suc)
  show "k < 256 \<Longrightarrow> dsa_coeff dsa_polynomial_zero k = 0" by (simp add: dsa_coeff_def e)
  show "dsa_bounded 0 dsa_polynomial_zero"
    by (simp add: dsa_bounded_def e list_all_iff) (simp add: wf_dsa_ring_def dsa_polynomial_zero_def dsa_zero_def list_all_iff)
qed

lemma coeff_map2:
  assumes "wf_dsa_ring a" and "wf_dsa_ring b" and "concat r = map2 f (concat a) (concat b)" and "k < 256"
  shows "dsa_coeff r k = f (dsa_coeff a k) (dsa_coeff b k)"
  using assms by (simp add: dsa_coeff_def length_concat_ring)

lemma coeff_map:
  assumes "wf_dsa_ring a" and "concat r = map f (concat a)" and "k < 256"
  shows "dsa_coeff r k = f (dsa_coeff a k)"
  using assms by (simp add: dsa_coeff_def length_concat_ring)

subsection \<open>Arithmetic\<close>

lemma dsa_multiply_values:
  assumes "dsa_bounded A a" and "dsa_bounded B b" and AB: "A * B \<le> 2147483648 * 8380416"
  shows "dsa_bounded 8380416 (dsa_ntt_multiply_montgomery a b)"
    and "k < 256 \<Longrightarrow> dsa_cong (dsa_coeff (dsa_ntt_multiply_montgomery a b) k) (dsa_coeff a k * dsa_coeff b k * 8265825)"
proof -
  note wf = dsa_bounded_wf [OF assms(1)] dsa_bounded_wf [OF assms(2)]
  have h: "dsa_montgomery_multiply u v = map2 dsa_montgomery_multiply_fe_by_fer u v" if "length u = 8" "length v = 8" for u v
    using dsa_vector_ops(3) [OF that] by (simp add: dsa_montgomery_multiply_fe_by_fer_def [abs_def])
  have L: "wf_dsa_ring (dsa_ntt_multiply_montgomery a b)"
      "concat (dsa_ntt_multiply_montgomery a b) = map2 dsa_montgomery_multiply_fe_by_fer (concat a) (concat b)"
    unfolding dsa_ntt_multiply_montgomery_def by (rule dsa_loop_map2 [OF wf h], assumption+)+
  have c: "dsa_coeff (dsa_ntt_multiply_montgomery a b) k = dsa_montgomery_multiply_fe_by_fer (dsa_coeff a k) (dsa_coeff b k)"
    if "k < 256" for k by (rule coeff_map2 [OF wf L(2) that])
  have b: "\<bar>dsa_coeff a k * dsa_coeff b k\<bar> \<le> 2147483648 * 8380416" if "k < 256" for k
    using dsa_abs_mult_le [OF dsa_bounded_nth [OF assms(1) that] dsa_bounded_nth [OF assms(2) that]] AB by linarith
  show "dsa_bounded 8380416 (dsa_ntt_multiply_montgomery a b)"
    using L(1) c dsa_montgomery_cong(2) [OF b] by (simp add: dsa_bounded_iff)
  show "k < 256 \<Longrightarrow> dsa_cong (dsa_coeff (dsa_ntt_multiply_montgomery a b) k) (dsa_coeff a k * dsa_coeff b k * 8265825)"
    using c dsa_montgomery_cong(1) [OF b] by simp
qed

lemma dsa_add_values:
  assumes "dsa_bounded A a" and "dsa_bounded B b" and AB: "A + B \<le> 2147483647"
  shows "dsa_bounded (A + B) (dsa_polynomial_add a b)"
    and "k < 256 \<Longrightarrow> dsa_coeff (dsa_polynomial_add a b) k = dsa_coeff a k + dsa_coeff b k"
    and "dsa_bounded (A + B) (dsa_polynomial_subtract a b)"
    and "k < 256 \<Longrightarrow> dsa_coeff (dsa_polynomial_subtract a b) k = dsa_coeff a k - dsa_coeff b k"
proof -
  note wf = dsa_bounded_wf [OF assms(1)] dsa_bounded_wf [OF assms(2)]
  have L: "wf_dsa_ring (dsa_polynomial_add a b)" "concat (dsa_polynomial_add a b) = map2 (\<lambda>x y. as_i32 (x + y)) (concat a) (concat b)"
    unfolding dsa_polynomial_add_def by (rule dsa_loop_map2 [OF wf dsa_vector_ops(1)], assumption+)+
  have M: "wf_dsa_ring (dsa_polynomial_subtract a b)"
      "concat (dsa_polynomial_subtract a b) = map2 (\<lambda>x y. as_i32 (x - y)) (concat a) (concat b)"
    unfolding dsa_polynomial_subtract_def by (rule dsa_loop_map2 [OF wf dsa_vector_ops(2)], assumption+)+
  have i: "is_i32 (dsa_coeff a k + dsa_coeff b k)" "is_i32 (dsa_coeff a k - dsa_coeff b k)"
    "\<bar>dsa_coeff a k + dsa_coeff b k\<bar> \<le> A + B" "\<bar>dsa_coeff a k - dsa_coeff b k\<bar> \<le> A + B" if "k < 256" for k
    using dsa_bounded_nth [OF assms(1) that] dsa_bounded_nth [OF assms(2) that] AB unfolding is_i32_def by linarith+
  show c: "k < 256 \<Longrightarrow> dsa_coeff (dsa_polynomial_add a b) k = dsa_coeff a k + dsa_coeff b k" for k
    using coeff_map2 [OF wf L(2)] i(1) by simp
  show d: "k < 256 \<Longrightarrow> dsa_coeff (dsa_polynomial_subtract a b) k = dsa_coeff a k - dsa_coeff b k" for k
    using coeff_map2 [OF wf M(2)] i(2) by simp
  show "dsa_bounded (A + B) (dsa_polynomial_add a b)" using L(1) c i(3) by (simp add: dsa_bounded_iff)
  show "dsa_bounded (A + B) (dsa_polynomial_subtract a b)" using M(1) d i(4) by (simp add: dsa_bounded_iff)
qed

lemma dsa_barrett_values:
  assumes "dsa_bounded 2143289343 a"
  shows "dsa_bounded 6291200 (dsa_polynomial_barrett_reduce a)"
    and "k < 256 \<Longrightarrow> dsa_cong (dsa_coeff (dsa_polynomial_barrett_reduce a) k) (dsa_coeff a k)"
proof -
  note wf = dsa_bounded_wf [OF assms]
  have h: "barrett_reduce_simd_unit v = map dsa_barrett_reduce_element v" if "length v = 8" for v
    using dsa_vector_ops(5) [OF that that] .
  have L: "wf_dsa_ring (dsa_polynomial_barrett_reduce a)"
      "concat (dsa_polynomial_barrett_reduce a) = map dsa_barrett_reduce_element (concat a)"
    unfolding dsa_polynomial_barrett_reduce_def by (rule dsa_loop_map [OF wf h], assumption+)+
  have c: "dsa_coeff (dsa_polynomial_barrett_reduce a) k = dsa_barrett_reduce_element (dsa_coeff a k)" if "k < 256" for k
    by (rule coeff_map [OF wf L(2) that])
  note b = dsa_barrett_reduce_element_eq [OF dsa_bounded_nth [OF assms]]
  show "dsa_bounded 6291200 (dsa_polynomial_barrett_reduce a)" using L(1) c b(2) by (simp add: dsa_bounded_iff)
  show "k < 256 \<Longrightarrow> dsa_cong (dsa_coeff (dsa_polynomial_barrett_reduce a) k) (dsa_coeff a k)"
    using c b(1) by (simp add: cong_mod_def)
qed

lemma dsa_shift_values:
  assumes "dsa_bounded 1023 a"
  shows "dsa_bounded 6291200 (ring_shift_left_then_reduce 13 a)"
    and "k < 256 \<Longrightarrow> dsa_cong (dsa_coeff (ring_shift_left_then_reduce 13 a) k) (dsa_coeff a k * 8192)"
proof -
  note wf = dsa_bounded_wf [OF assms]
  have h: "shift_left_then_reduce 13 v = map (\<lambda>x. dsa_barrett_reduce_element (shl_i32 x 13)) v" if "length v = 8" for v
    using dsa_vector_ops(6) [OF that that] .
  have L: "wf_dsa_ring (ring_shift_left_then_reduce 13 a)"
      "concat (ring_shift_left_then_reduce 13 a) = map (\<lambda>x. dsa_barrett_reduce_element (shl_i32 x 13)) (concat a)"
    unfolding ring_shift_left_then_reduce_def by (rule dsa_loop_map [OF wf h], assumption+)+
  have s: "shl_i32 (dsa_coeff a k) 13 = dsa_coeff a k * 8192" "\<bar>dsa_coeff a k * 8192\<bar> \<le> 2143289343" if "k < 256" for k
    using dsa_bounded_nth [OF assms that] by (simp_all add: shl_i32_eq is_i32_def abs_le_iff)
  have c: "dsa_coeff (ring_shift_left_then_reduce 13 a) k = dsa_barrett_reduce_element (dsa_coeff a k * 8192)" if "k < 256" for k
    using coeff_map [OF wf L(2) that] s(1) [OF that] by simp
  note b = dsa_barrett_reduce_element_eq [OF s(2)]
  show "dsa_bounded 6291200 (ring_shift_left_then_reduce 13 a)" using L(1) c b(2) by (simp add: dsa_bounded_iff)
  show "k < 256 \<Longrightarrow> dsa_cong (dsa_coeff (ring_shift_left_then_reduce 13 a) k) (dsa_coeff a k * 8192)"
    using c b(1) by (simp add: cong_mod_def)
qed

lemma wf_dsa_ring_ex: "wf_dsa_ring a \<Longrightarrow> (\<exists>i < 32. Q (a ! i)) \<longleftrightarrow> (\<exists>v \<in> set a. Q v)"
  unfolding wf_dsa_ring_def by (metis in_set_conv_nth)

lemma dsa_norm_values:
  assumes "dsa_bounded 1073741823 a"
  shows "dsa_polynomial_infinity_norm_exceeds a bound \<longleftrightarrow> (\<exists>k < 256. bound \<le> \<bar>dsa_coeff a k\<bar>)"
proof -
  note wf = dsa_bounded_wf [OF assms]
  have u: "infinity_norm_exceeds (a ! i) bound \<longleftrightarrow> (\<exists>x \<in> set (a ! i). bound \<le> \<bar>x\<bar>)" if "i < 32" for i
  proof (rule infinity_norm_exceeds_eq [OF wf_dsa_ring_nth [OF wf that]])
    have "a ! i \<in> set a" using wf that by (simp add: wf_dsa_ring_def)
    then show "\<forall>x \<in> set (a ! i). \<bar>x\<bar> \<le> 1073741823" using dsa_bounded_coeff [OF assms] by auto
  qed
  have "for_loop 0 n (\<lambda>i result. let coeff_exceeds = infinity_norm_exceeds (a ! i) bound in if result then True else coeff_exceeds) False
      \<longleftrightarrow> (\<exists>i < n. \<exists>x \<in> set (a ! i). bound \<le> \<bar>x\<bar>)" if "n \<le> 32" for n
    using that
  proof (induction n)
    case (Suc n)
    then show ?case using u [of n] by (auto simp: for_loop_last less_Suc_eq)
  qed simp
  from this [of 32] have "dsa_polynomial_infinity_norm_exceeds a bound \<longleftrightarrow> (\<exists>i < 32. \<exists>x \<in> set (a ! i). bound \<le> \<bar>x\<bar>)"
    unfolding dsa_polynomial_infinity_norm_exceeds_def by blast
  also have "\<dots> \<longleftrightarrow> (\<exists>v \<in> set a. \<exists>x \<in> set v. bound \<le> \<bar>x\<bar>)"
    by (rule wf_dsa_ring_ex [OF wf])
  also have "\<dots> \<longleftrightarrow> (\<exists>x \<in> set (concat a). bound \<le> \<bar>x\<bar>)" by auto
  also have "\<dots> \<longleftrightarrow> (\<exists>k < 256. bound \<le> \<bar>dsa_coeff a k\<bar>)"
    unfolding dsa_coeff_def using length_concat_ring [OF wf] by (metis in_set_conv_nth)
  finally show ?thesis .
qed

end
