(* ===== verification/MLDSA_Hints.thy ===== *)
theory MLDSA_Hints
  imports MLDSA_RingArith
begin

section \<open>ML-DSA: rounding and hints of vectors\<close>

text \<open>
  The rounding and hint functions of \<open>MLDSA_Matrix\<close> on whole vectors: \<open>Power2Round\<close> and \<open>Decompose\<close> of FIPS 204 coefficient by coefficient,
  the norm check as a bound on every coefficient, and the hint of a vector with the count of its ones, from which \<open>vector_use_hint\<close> recovers the high parts.
\<close>

subsection \<open>Loops that update two arrays\<close>

lemma for_option_pair:
  assumes "length a = n" and "length b = n" and "\<And>i. i < n \<Longrightarrow> F i (a ! i) (b ! i) = Some (f i, g i)"
  shows "for_option 0 n (\<lambda>i (a, b). map_option (\<lambda>(x, y). (a[i := x], b[i := y])) (F i (a ! i) (b ! i))) (a, b)
    = Some (map f [0..<n], map g [0..<n])"
proof -
  have "for_option 0 k (\<lambda>i (a, b). map_option (\<lambda>(x, y). (a[i := x], b[i := y])) (F i (a ! i) (b ! i))) (a, b)
      = Some (map f [0..<k] @ drop k a, map g [0..<k] @ drop k b)" if "k \<le> n" for k
    using that
  proof (induction k)
    case (Suc k)
    have "drop k a = a ! k # drop (Suc k) a" "drop k b = b ! k # drop (Suc k) b"
      using Suc.prems assms(1,2) by (simp_all add: Cons_nth_drop_Suc)
    then show ?case using Suc assms by (simp add: for_option_last nth_append list_update_append)
  qed (simp add: for_option_def)
  from this [of n] show ?thesis using assms(1,2) by simp
qed

lemma for_loop_pair_update:
  assumes "length a = n" and "length b = n" and "\<And>i. i < n \<Longrightarrow> F i (a ! i) (b ! i) = (f i, g i)"
  shows "for_loop 0 n (\<lambda>i (a, b). let (x, y) = F i (a ! i) (b ! i) in (a[i := x], b[i := y])) (a, b) = (map f [0..<n], map g [0..<n])"
proof -
  have "Some (for_loop 0 n (\<lambda>i (a, b). let (x, y) = F i (a ! i) (b ! i) in (a[i := x], b[i := y])) (a, b))
      = for_option 0 n (\<lambda>i (a, b). map_option (\<lambda>(x, y). (a[i := x], b[i := y])) (Some (F i (a ! i) (b ! i)))) (a, b)"
    by (rule for_option_Some [symmetric]) (simp add: split_beta)
  then show ?thesis using for_option_pair [where F = "\<lambda>i x y. Some (F i x y)", OF assms(1,2)] assms(3) by simp
qed

subsection \<open>Bounded vectors\<close>

definition dsa_vector :: "nat \<Rightarrow> int \<Rightarrow> dsa_ring_element list \<Rightarrow> bool" where
  "dsa_vector n B v \<longleftrightarrow> length v = n \<and> (\<forall>re \<in> set v. dsa_bounded B re)"

lemma dsa_vectorI: "length v = n \<Longrightarrow> (\<And>i. i < n \<Longrightarrow> dsa_bounded B (v ! i)) \<Longrightarrow> dsa_vector n B v"
  by (auto simp: dsa_vector_def in_set_conv_nth)

lemma dsa_vector_length: "dsa_vector n B v \<Longrightarrow> length v = n"
  by (simp add: dsa_vector_def)

lemma dsa_vector_nth: "dsa_vector n B v \<Longrightarrow> i < n \<Longrightarrow> dsa_bounded B (v ! i)"
  by (simp add: dsa_vector_def)

lemma dsa_vector_wf: "dsa_vector n B v \<Longrightarrow> i < n \<Longrightarrow> wf_dsa_ring (v ! i)"
  using dsa_vector_nth dsa_bounded_wf by blast

lemma dsa_vector_mono: "dsa_vector n A v \<Longrightarrow> A \<le> B \<Longrightarrow> dsa_vector n B v"
  using dsa_bounded_mono by (auto simp: dsa_vector_def)

lemma subtract_vectors_eq:
  "length a = n \<Longrightarrow> length b = n \<Longrightarrow> subtract_vectors n a b = map2 dsa_polynomial_subtract a b"
  "length a = n \<Longrightarrow> length b = n \<Longrightarrow> add_vectors n a b = map2 dsa_polynomial_add a b"
  unfolding subtract_vectors_def add_vectors_def by (intro for_loop_map2; simp)+

lemma vector_sum_values:
  assumes "dsa_vector n A a" and "dsa_vector n B b" and "A + B \<le> 2147483647"
  shows "dsa_vector n (A + B) (add_vectors n a b)" and "dsa_vector n (A + B) (subtract_vectors n a b)"
    and "i < n \<Longrightarrow> k < 256 \<Longrightarrow> dsa_coeff (add_vectors n a b ! i) k = dsa_coeff (a ! i) k + dsa_coeff (b ! i) k"
    and "i < n \<Longrightarrow> k < 256 \<Longrightarrow> dsa_coeff (subtract_vectors n a b ! i) k = dsa_coeff (a ! i) k - dsa_coeff (b ! i) k"
proof -
  note l = dsa_vector_length [OF assms(1)] dsa_vector_length [OF assms(2)]
  note v = dsa_add_values [OF dsa_vector_nth [OF assms(1)] dsa_vector_nth [OF assms(2)] assms(3)]
  show "dsa_vector n (A + B) (add_vectors n a b)" "dsa_vector n (A + B) (subtract_vectors n a b)"
    using v(1,3) l by (auto simp: subtract_vectors_eq intro!: dsa_vectorI)
  show "i < n \<Longrightarrow> k < 256 \<Longrightarrow> dsa_coeff (add_vectors n a b ! i) k = dsa_coeff (a ! i) k + dsa_coeff (b ! i) k"
    "i < n \<Longrightarrow> k < 256 \<Longrightarrow> dsa_coeff (subtract_vectors n a b ! i) k = dsa_coeff (a ! i) k - dsa_coeff (b ! i) k"
    using v(2,4) l by (simp_all add: subtract_vectors_eq)
qed

lemma vector_norm_values:
  assumes "dsa_vector n 1073741823 v"
  shows "vector_infinity_norm_exceeds v bound \<longleftrightarrow> (\<exists>i < n. \<exists>k < 256. bound \<le> \<bar>dsa_coeff (v ! i) k\<bar>)"
proof -
  have "for_loop 0 m (\<lambda>i result. if result then True else dsa_polynomial_infinity_norm_exceeds (v ! i) bound) False
      \<longleftrightarrow> (\<exists>i < m. \<exists>k < 256. bound \<le> \<bar>dsa_coeff (v ! i) k\<bar>)" if "m \<le> n" for m
    using that
  proof (induction m)
    case (Suc m)
    then show ?case using dsa_norm_values [OF dsa_vector_nth [OF assms, of m], of bound] by (auto simp: for_loop_last less_Suc_eq)
  qed simp
  then show ?thesis using dsa_vector_length [OF assms] by (simp add: vector_infinity_norm_exceeds_def)
qed

lemma vector_norm_bound:
  assumes "dsa_vector n 1073741823 v" and "\<not> vector_infinity_norm_exceeds v bound"
  shows "dsa_vector n (bound - 1) v"
  using assms(2) dsa_vector_wf [OF assms(1)] dsa_vector_length [OF assms(1)]
  by (intro dsa_vectorI) (force simp: vector_norm_values [OF assms(1)] dsa_bounded_iff)+

subsection \<open>Rounding\<close>

abbreviation map_vector :: "(int \<Rightarrow> int) \<Rightarrow> dsa_ring_element list \<Rightarrow> dsa_ring_element list" where
  "map_vector f \<equiv> map (map (map f))"

lemma dsa_coeff_map: "wf_dsa_ring re \<Longrightarrow> k < 256 \<Longrightarrow> dsa_coeff (map (map f) re) k = f (dsa_coeff re k)"
  by (simp add: dsa_coeff_def map_concat [symmetric] length_concat_ring)

lemma wf_dsa_ring_map [simp]: "wf_dsa_ring (map (map f) re) \<longleftrightarrow> wf_dsa_ring re"
  by (simp add: wf_dsa_ring_def list_all_iff)

lemma unit_range: "dsa_bounded 8380416 re \<Longrightarrow> i < 32 \<Longrightarrow> x \<in> set (re ! i) \<Longrightarrow> - 8380417 < x \<and> x < 8380417"
proof -
  assume re: "dsa_bounded 8380416 re" and "i < 32" "x \<in> set (re ! i)"
  then have "x \<in> set (concat re)" using dsa_bounded_wf [OF re] by (auto simp: wf_dsa_ring_def)
  then show ?thesis using dsa_bounded_coeff [OF re] by fastforce
qed

lemma decompose_vector_eq:
  assumes "gamma2 = 95232 \<or> gamma2 = 261888" and "dsa_vector n 8380416 t"
    and "length low = n" "list_all wf_dsa_ring low" and "length high = n" "list_all wf_dsa_ring high"
  shows "decompose_vector n gamma2 t low high
    = Some (map_vector (fst \<circ> decompose_spec gamma2) t, map_vector (snd \<circ> decompose_spec gamma2) t)"
proof -
  let ?f = "fst \<circ> decompose_spec gamma2" and ?g = "snd \<circ> decompose_spec gamma2"
  have ring: "for_option 0 32 (\<lambda>j (l, h). map_option (\<lambda>(lj, hj). (l[j := lj], h[j := hj])) (dsa_decompose gamma2 (t ! i ! j) (l ! j) (h ! j)))
      (low ! i, high ! i) = Some (map (map ?f) (t ! i), map (map ?g) (t ! i))" if i: "i < n" for i
  proof -
    note re = dsa_vector_nth [OF assms(2) i]
    have w: "wf_dsa_ring (t ! i)" "wf_dsa_ring (low ! i)" "wf_dsa_ring (high ! i)"
      using dsa_bounded_wf [OF re] assms(3-6) i by (simp_all add: list_all_length)
    have "dsa_decompose gamma2 (t ! i ! j) (low ! i ! j) (high ! i ! j) = Some (map ?f (t ! i ! j), map ?g (t ! i ! j))" if "j < 32" for j
      using w wf_dsa_ring_nth that unit_range [OF re that] by (intro dsa_decompose_eq [OF assms(1)]) auto
    from for_option_pair [where F = "\<lambda>j. dsa_decompose gamma2 (t ! i ! j)" and f = "\<lambda>j. map ?f (t ! i ! j)" and g = "\<lambda>j. map ?g (t ! i ! j)", OF _ _ this]
    show ?thesis using w map_nth_upt [of "map ?f" "t ! i"] map_nth_upt [of "map ?g" "t ! i"] by (simp add: wf_dsa_ring_def)
  qed
  show ?thesis
    unfolding decompose_vector_def
    using for_option_pair [where F = "\<lambda>i l h. for_option 0 32 (\<lambda>j (l, h). map_option (\<lambda>(lj, hj). (l[j := lj], h[j := hj]))
        (dsa_decompose gamma2 (t ! i ! j) (l ! j) (h ! j))) (l, h)", OF assms(3,5) ring]
      map_nth_upt [of "map (map ?f)" t] map_nth_upt [of "map (map ?g)" t] dsa_vector_length [OF assms(2)] by simp
qed

lemma power2round_vector_eq:
  assumes "dsa_vector n 8380416 t" and "length t1 = n" "list_all wf_dsa_ring t1"
  shows "power2round_vector t t1 = (map_vector (fst \<circ> power2round_spec) t, map_vector (snd \<circ> power2round_spec) t)"
proof -
  let ?f = "fst \<circ> power2round_spec" and ?g = "snd \<circ> power2round_spec"
  let ?F = "\<lambda>i x y. for_loop 0 32 (\<lambda>j (x, y). let (xj, yj) = dsa_power2round (x ! j) (y ! j) in (x[j := xj], y[j := yj])) (x, y)"
  have ring: "?F i (t ! i) (t1 ! i) = (map (map ?f) (t ! i), map (map ?g) (t ! i))" if i: "i < n" for i
  proof -
    note re = dsa_vector_nth [OF assms(1) i]
    have w: "wf_dsa_ring (t ! i)" "wf_dsa_ring (t1 ! i)" using dsa_bounded_wf [OF re] assms(2,3) i by (simp_all add: list_all_length)
    have "dsa_power2round (t ! i ! j) (t1 ! i ! j) = (map ?f (t ! i ! j), map ?g (t ! i ! j))" if "j < 32" for j
      using w wf_dsa_ring_nth that unit_range [OF re that] by (intro dsa_power2round_eq) auto
    from for_loop_pair_update [where F = "\<lambda>j. dsa_power2round" and f = "\<lambda>j. map ?f (t ! i ! j)" and g = "\<lambda>j. map ?g (t ! i ! j)", OF _ _ this]
    show ?thesis using w map_nth_upt [of "map ?f" "t ! i"] map_nth_upt [of "map ?g" "t ! i"] by (simp add: wf_dsa_ring_def)
  qed
  show ?thesis
    unfolding power2round_vector_def
    using for_loop_pair_update [where F = ?F, OF dsa_vector_length [OF assms(1)] assms(2) ring]
      map_nth_upt [of "map (map ?f)" t] map_nth_upt [of "map (map ?g)" t] dsa_vector_length [OF assms(1)] by simp
qed

subsection \<open>Hints\<close>

definition hint_row :: "i32 \<Rightarrow> dsa_ring_element \<Rightarrow> dsa_ring_element \<Rightarrow> i32 list" where
  "hint_row gamma2 low high = map2 (\<lambda>x y. compute_one_hint x y gamma2) (concat low) (concat high)"

lemma hint_row_nth:
  assumes "wf_dsa_ring low" and "wf_dsa_ring high" and "k < 256"
  shows "hint_row gamma2 low high ! k = compute_one_hint (dsa_coeff low k) (dsa_coeff high k) gamma2"
  using assms by (simp add: hint_row_def dsa_coeff_def length_concat_ring)

lemma wf_hint_row_hint_row: "wf_dsa_ring low \<Longrightarrow> wf_dsa_ring high \<Longrightarrow> wf_hint_row (hint_row gamma2 low high)"
  by (auto simp: wf_hint_row_def hint_row_def length_concat_ring list_all_iff compute_one_hint_def set_zip)

lemma length_hint_indices: "length row = 256 \<Longrightarrow> length (hint_indices row) = length (filter (\<lambda>h. h = 1) row)"
proof -
  assume l: "length row = 256"
  have "filter (\<lambda>h. h = 1) row = map (\<lambda>j. row ! j) (hint_indices row)"
    using l by (metis (no_types, lifting) filter_map hint_indices_def map_nth comp_apply filter_cong)
  then show ?thesis by simp
qed

lemma hint_ring_loop:
  assumes "wf_dsa_ring low" and "wf_dsa_ring high" and "wf_dsa_ring simd"
  shows "for_loop 0 32 (\<lambda>j (true_hints, hint_simd).
      let (one_hints_count, h) = compute_hint (low ! j) (high ! j) gamma2 (hint_simd ! j) in (true_hints + one_hints_count, hint_simd[j := h])) (c, simd)
    = (c + length (filter (\<lambda>h. h = 1) (hint_row gamma2 low high)), map2 (map2 (\<lambda>x y. compute_one_hint x y gamma2)) low high)"
    (is "for_loop 0 32 ?body _ = _")
proof -
  let ?m = "map2 (\<lambda>x y. compute_one_hint x y gamma2)"
  have l: "length low = 32" "length high = 32" "length simd = 32" using assms by (simp_all add: wf_dsa_ring_def)
  have unit: "compute_hint (low ! j) (high ! j) gamma2 (simd ! j) = (length (filter (\<lambda>h. h = 1) (?m (low ! j) (high ! j))), ?m (low ! j) (high ! j))"
    if "j < 32" for j
    using compute_hint_eq [OF wf_dsa_ring_nth [OF assms(3) that]] wf_dsa_ring_nth [OF assms(1) that] wf_dsa_ring_nth [OF assms(2) that]
      map2_nth_upt [of "low ! j" "high ! j" "\<lambda>x y. compute_one_hint x y gamma2", symmetric] by (simp add: filter_map comp_def)
  have "for_loop 0 k ?body (c, simd)
      = (c + length (filter (\<lambda>h. h = 1) (concat (map2 ?m (take k low) (take k high)))), map2 ?m (take k low) (take k high) @ drop k simd)"
    if "k \<le> 32" for k
    using that
  proof (induction k)
    case (Suc k)
    have "take (Suc k) low = take k low @ [low ! k]" "take (Suc k) high = take k high @ [high ! k]" "drop k simd = simd ! k # drop (Suc k) simd"
      using Suc.prems l by (simp_all add: take_Suc_conv_app_nth Cons_nth_drop_Suc)
    then show ?case using Suc unit [of k] l by (simp add: for_loop_last nth_append list_update_append)
  qed simp
  moreover have "hint_row gamma2 low high = concat (map2 ?m low high)"
    unfolding hint_row_def by (rule concat_map2 [OF wf_all2 [OF assms(1,2)], symmetric])
  ultimately show ?thesis using l by simp
qed

lemma make_hint_eq:
  assumes "length low = n" and "length high = n" and "list_all wf_dsa_ring low" and "list_all wf_dsa_ring high" and "length hint = n"
  shows "make_hint low high gamma2 hint
    = (length (concat (map hint_indices (map2 (hint_row gamma2) low high))), map2 (hint_row gamma2) low high)"
proof -
  let ?body = "\<lambda>i (true_hints, hint_simd, hint).
      let (true_hints, hint_simd) = for_loop 0 32 (\<lambda>j (true_hints, hint_simd).
            let (one_hints_count, h) = compute_hint (low ! i ! j) (high ! i ! j) gamma2 (hint_simd ! j)
            in (true_hints + one_hints_count, hint_simd[j := h])) (true_hints, hint_simd)
      in (true_hints, hint_simd, hint[i := to_i32_array hint_simd])"
  have "\<exists>simd. wf_dsa_ring simd \<and> for_loop 0 k ?body (0, dsa_polynomial_zero, hint)
      = (length (concat (map hint_indices (map2 (hint_row gamma2) (take k low) (take k high)))), simd,
         map2 (hint_row gamma2) (take k low) (take k high) @ drop k hint)" if "k \<le> n" for k
    using that
  proof (induction k)
    case 0
    then show ?case using dsa_bounded_wf [OF dsa_coeff_zero(2)] by simp
  next
    case (Suc k)
    then obtain simd where simd: "wf_dsa_ring simd" and k: "for_loop 0 k ?body (0, dsa_polynomial_zero, hint)
      = (length (concat (map hint_indices (map2 (hint_row gamma2) (take k low) (take k high)))), simd,
         map2 (hint_row gamma2) (take k low) (take k high) @ drop k hint)" by auto
    have w: "wf_dsa_ring (low ! k)" "wf_dsa_ring (high ! k)" using Suc.prems assms(1-4) by (simp_all add: list_all_length)
    let ?m = "map2 (map2 (\<lambda>x y. compute_one_hint x y gamma2)) (low ! k) (high ! k)"
    have m: "wf_dsa_ring ?m" using w by (simp add: wf_dsa_ring_def list_all_length)
    have c: "to_i32_array ?m = hint_row gamma2 (low ! k) (high ! k)"
      using to_i32_array_eq [OF m] concat_map2 [OF wf_all2 [OF w]] by (simp add: hint_row_def)
    have len: "length (filter (\<lambda>h. h = 1) (hint_row gamma2 (low ! k) (high ! k))) = length (hint_indices (hint_row gamma2 (low ! k) (high ! k)))"
      using wf_hint_row_hint_row [OF w, of gamma2] by (intro length_hint_indices [symmetric]) (simp add: wf_hint_row_def)
    have "take (Suc k) low = take k low @ [low ! k]" "take (Suc k) high = take k high @ [high ! k]" "drop k hint = hint ! k # drop (Suc k) hint"
      using Suc.prems assms(1,2,5) by (simp_all add: take_Suc_conv_app_nth Cons_nth_drop_Suc)
    then show ?case
      using m k hint_ring_loop [OF w simd] Suc.prems assms(1,2,5) len c by (intro exI [of _ ?m]) (simp add: for_loop_last list_update_append)
  qed
  from this [of n] show ?thesis using assms by (auto simp: make_hint_def)
qed

lemma vector_use_hint_eq:
  assumes "(gamma2, m) \<in> {(95232, 44), (261888, 16)}" and "length high = n" "length low = n" "length w = n" "list_all wf_dsa_ring high" "list_all wf_dsa_ring low"
    and w: "dsa_vector n 8380416 w"
    and "\<And>i k. i < n \<Longrightarrow> k < 256 \<Longrightarrow> 0 \<le> dsa_coeff (high ! i) k \<and> dsa_coeff (high ! i) k < m \<and> \<bar>dsa_coeff (low ! i) k\<bar> < 2 * gamma2
      \<and> dsa_cong (dsa_coeff (w ! i) k) (dsa_coeff (high ! i) k * (2 * gamma2) + dsa_coeff (low ! i) k)"
  shows "vector_use_hint gamma2 (map2 (hint_row gamma2) low high) w = Some high"
proof -
  let ?row = "\<lambda>i. hint_row gamma2 (low ! i) (high ! i)"
  have ring: "for_option 0 32 (\<lambda>j tmp. map_option (\<lambda>h. tmp[j := h]) (dsa_use_hint gamma2 (w ! i ! j) (tmp ! j))) (chunks 8 (?row i)) = Some (high ! i)"
    if i: "i < n" for i
  proof -
    have wf: "wf_dsa_ring (high ! i)" "wf_dsa_ring (low ! i)" "wf_dsa_ring (w ! i)"
      using assms(2,3,5,6) i dsa_vector_wf [OF w i] by (simp_all add: list_all_length)
    have l: "length (?row i) = 256" using wf_hint_row_hint_row [OF wf(2,1)] by (simp add: wf_hint_row_def)
    have wc: "wf_dsa_ring (chunks 8 (?row i))" by (rule wf_chunks [OF l])
    have "use_one_hint gamma2 (w ! i ! j ! k) (chunks 8 (?row i) ! j ! k) = Some (high ! i ! j ! k)" if jk: "j < 32" "k < 8" for j k
    proof -
      have c: "re ! j ! k = dsa_coeff re (j * 8 + k)" if "wf_dsa_ring re" for re
        using nth_concat_uniform [of re 8 "j * 8 + k"] that jk by (simp add: dsa_coeff_def wf_dsa_ring_def list_all_iff)
      have b: "j * 8 + k < 256" using jk by simp
      have "chunks 8 (?row i) ! j ! k = compute_one_hint (dsa_coeff (low ! i) (j * 8 + k)) (dsa_coeff (high ! i) (j * 8 + k)) gamma2"
        using c [OF wc] hint_row_nth [OF wf(2,1) b] concat_chunks [of 8 "?row i"] by (simp add: dsa_coeff_def)
      then show ?thesis
        using assms(1) assms(8) [OF i b] dsa_bounded_nth [OF dsa_vector_nth [OF w i] b] c [OF wf(1)] c [OF wf(3)]
          rounding_44.hint_recovers_high [of "high ! i ! j ! k" "dsa_coeff (low ! i) (j * 8 + k)" "w ! i ! j ! k"]
          rounding_16.hint_recovers_high [of "high ! i ! j ! k" "dsa_coeff (low ! i) (j * 8 + k)" "w ! i ! j ! k"]
        by (auto simp: cong_mod_def)
    qed
    then have "dsa_use_hint gamma2 (w ! i ! j) (chunks 8 (?row i) ! j) = Some (high ! i ! j)" if "j < 32" for j
      using dsa_use_hint_eq [OF wf_dsa_ring_nth [OF wc that], of gamma2 "w ! i ! j" "\<lambda>k. high ! i ! j ! k"] that
        map_nth [of "high ! i ! j"] wf_dsa_ring_nth [OF wf(1) that] by simp
    from for_option_update [where f = "\<lambda>j. dsa_use_hint gamma2 (w ! i ! j)", OF this, of 32] show ?thesis
      using wc wf map_nth [of "high ! i"] by (simp add: wf_dsa_ring_def)
  qed
  have "for_option 0 n (\<lambda>i v. map_option (\<lambda>tmp. v[i := tmp])
      (for_option 0 32 (\<lambda>j tmp. map_option (\<lambda>h. tmp[j := h]) (dsa_use_hint gamma2 (v ! i ! j) (tmp ! j)))
        (from_i32_array (map2 (hint_row gamma2) low high ! i) dsa_polynomial_zero))) w = Some (map (\<lambda>i. high ! i) [0..<n] @ drop n w)"
  proof (rule for_option_update [where f = "\<lambda>i v. for_option 0 32 (\<lambda>j tmp. map_option (\<lambda>h. tmp[j := h]) (dsa_use_hint gamma2 (v ! j) (tmp ! j)))
        (from_i32_array (map2 (hint_row gamma2) low high ! i) dsa_polynomial_zero)"])
    fix i assume i: "i < n"
    have "length (?row i) = 256" using wf_hint_row_hint_row [of "low ! i" "high ! i" gamma2] assms(2,3,5,6) i by (simp add: wf_hint_row_def list_all_length)
    then show "for_option 0 32 (\<lambda>j tmp. map_option (\<lambda>h. tmp[j := h]) (dsa_use_hint gamma2 (w ! i ! j) (tmp ! j)))
        (from_i32_array (map2 (hint_row gamma2) low high ! i) dsa_polynomial_zero) = Some (high ! i)"
      using ring [OF i] from_i32_array_eq [OF _ dsa_bounded_wf [OF dsa_coeff_zero(2)]] i assms(2,3) by simp
  qed (simp add: assms(4))
  then show ?thesis using map_nth [of high] assms(2,4) by (simp add: vector_use_hint_def)
qed

end
