(* ===== verification/MLDSA_SamplingCorrect.thy ===== *)
theory MLDSA_SamplingCorrect
  imports MLDSA_Sampling MLDSA_Hints
begin

section \<open>ML-DSA: the samplers compute the samplers of FIPS 204\<close>

text \<open>
  The reference samplers are loops over one stream of bytes: algorithm 30 (\<open>RejNTTPoly\<close>, three bytes at a time) and algorithm 31 (\<open>RejBoundedPoly\<close>, one byte, that is two
  half bytes, at a time). The code reads whole blocks on four streams at once, in steps of several units, and stops when all four have enough coefficients; up to seven surplus
  coefficients of the last step are stored behind the 256-th and dropped.

  The locale \<open>rejection_sampler\<close> states what the step function of a sampler promises; inside it the loop on the lanes is shown to return exactly when the reference returns on
  all the streams, with the same coefficients. The three samplers of the code interpret it.
\<close>

subsection \<open>Reference samplers\<close>

definition stream_unit :: "nat \<Rightarrow> (nat \<Rightarrow> u8) \<Rightarrow> nat \<Rightarrow> u8 list" where
  "stream_unit u B i = map B [i * u..<i * u + u]"

definition rej_poly_step :: "nat \<Rightarrow> (u8 list \<Rightarrow> int list) \<Rightarrow> (nat \<Rightarrow> u8) \<Rightarrow> nat \<times> int list \<Rightarrow> nat \<times> int list" where
  "rej_poly_step u accept B = (\<lambda>(i, a). (i + 1, take 256 (a @ accept (stream_unit u B i))))"

definition rej_poly :: "nat \<Rightarrow> (u8 list \<Rightarrow> int list) \<Rightarrow> (nat \<Rightarrow> u8) \<Rightarrow> int list option" where
  "rej_poly u accept B = map_option snd (while_option (\<lambda>(i, a). length a < 256) (rej_poly_step u accept B) (0, []))"

definition coeff_from_three_bytes :: "u8 list \<Rightarrow> int list" where
  "coeff_from_three_bytes b =
     (let z = 65536 * (uint (b ! 2) mod 128) + 256 * uint (b ! 1) + uint (b ! 0) in if z < 8380417 then [z] else [])"

definition coeff_from_half_byte :: "eta \<Rightarrow> int \<Rightarrow> int list" where
  "coeff_from_half_byte eta b =
     (case eta of Eta_Two \<Rightarrow> if b < 15 then [2 - b mod 5] else [] | Eta_Four \<Rightarrow> if b < 9 then [4 - b] else [])"

definition coeff_from_byte :: "eta \<Rightarrow> u8 list \<Rightarrow> int list" where
  "coeff_from_byte eta z = coeff_from_half_byte eta (uint (z ! 0) mod 16) @ coeff_from_half_byte eta (uint (z ! 0) div 16)"

definition rej_ntt_poly :: "u8 list \<Rightarrow> int list option" where
  "rej_ntt_poly seed = rej_poly 3 coeff_from_three_bytes (shake128_stream seed)"

definition rej_bounded_poly :: "eta \<Rightarrow> u8 list \<Rightarrow> int list option" where
  "rej_bounded_poly eta seed = rej_poly 1 (coeff_from_byte eta) (shake256_stream seed)"

subsection \<open>The accepted coefficients of a stream\<close>

definition accepted_units :: "nat \<Rightarrow> (u8 list \<Rightarrow> int list) \<Rightarrow> (nat \<Rightarrow> u8) \<Rightarrow> nat \<Rightarrow> int list" where
  "accepted_units u accept B n = concat (map (\<lambda>i. accept (stream_unit u B i)) [0..<n])"

lemma accepted_units_add:
  "accepted_units u accept B (m + n) = accepted_units u accept B m @ concat (map (\<lambda>i. accept (stream_unit u B (m + i))) [0..<n])"
proof -
  have "map (\<lambda>i. accept (stream_unit u B i)) [0..<m + n]
      = map (\<lambda>i. accept (stream_unit u B i)) [0..<m] @ map (\<lambda>i. accept (stream_unit u B (m + i))) [0..<n]"
    by (rule nth_equalityI) (auto simp: nth_append)
  then show ?thesis by (simp add: accepted_units_def)
qed

lemma accepted_units_mono: "m \<le> n \<Longrightarrow> length (accepted_units u accept B m) \<le> length (accepted_units u accept B n)"
  using accepted_units_add [of u accept B m "n - m"] by simp

lemma take_accepted_units:
  assumes "256 \<le> length (accepted_units u accept B m)" and "256 \<le> length (accepted_units u accept B n)"
  shows "take 256 (accepted_units u accept B m) = take 256 (accepted_units u accept B n)"
  using assms accepted_units_add [of u accept B m "n - m"] accepted_units_add [of u accept B n "m - n"] by (cases "m \<le> n") simp_all

lemma rej_poly_iter: "(rej_poly_step u accept B ^^ k) (0, []) = (k, take 256 (accepted_units u accept B k))"
proof (induction k)
  case (Suc k)
  have "take 256 (take 256 xs @ ys) = take 256 (xs @ ys)" for xs ys :: "int list" by (cases "256 \<le> length xs") simp_all
  then show ?case using Suc accepted_units_add [of u accept B k 1] by (simp add: rej_poly_step_def)
qed (simp add: accepted_units_def)

lemma rej_poly_Some:
  assumes "256 \<le> length (accepted_units u accept B n)"
  shows "rej_poly u accept B = Some (take 256 (accepted_units u accept B n))"
proof -
  define k where "k = (LEAST n. 256 \<le> length (accepted_units u accept B n))"
  have k: "256 \<le> length (accepted_units u accept B k)" unfolding k_def using assms by (rule LeastI)
  have less: "length (accepted_units u accept B j) < 256" if "j < k" for j using not_less_Least [OF that [unfolded k_def]] by simp
  have "while_option (\<lambda>(i, a). length a < 256) (rej_poly_step u accept B) (0, []) = Some ((rej_poly_step u accept B ^^ k) (0, []))"
    using k less by (intro while_option_least) (auto simp: rej_poly_iter)
  then show ?thesis using take_accepted_units [OF k assms] by (simp add: rej_poly_def rej_poly_iter)
qed

lemma rej_poly_None:
  assumes "\<And>n. length (accepted_units u accept B n) < 256"
  shows "rej_poly u accept B = None"
proof -
  have "while_option (\<lambda>(i, a). length a < 256) (rej_poly_step u accept B) (0, []) = None"
    using assms by (intro while_option_never) (auto simp: rej_poly_iter)
  then show ?thesis by (simp add: rej_poly_def)
qed

lemma rej_poly_values:
  assumes "rej_poly u accept B = Some a"
  shows "length a = 256" and "(\<And>bs y. length bs = u \<Longrightarrow> y \<in> set (accept bs) \<Longrightarrow> P y) \<Longrightarrow> x \<in> set a \<Longrightarrow> P x"
proof -
  obtain n where n: "256 \<le> length (accepted_units u accept B n)" using assms rej_poly_None [of u accept B] by (metis not_le option.distinct(1))
  then have a: "a = take 256 (accepted_units u accept B n)" using assms rej_poly_Some by simp
  show "length a = 256" using a n by simp
  assume P: "\<And>bs y. length bs = u \<Longrightarrow> y \<in> set (accept bs) \<Longrightarrow> P y" and "x \<in> set a"
  then obtain i where "x \<in> set (accept (stream_unit u B i))" using a by (auto simp: accepted_units_def dest!: in_set_takeD)
  then show "P x" by (intro P [of "stream_unit u B i"]) (simp_all add: stream_unit_def)
qed

subsection \<open>Loops that append to a buffer\<close>

lemma push_loop:
  assumes "\<And>i s out. i < n \<Longrightarrow> s + length (A i) \<le> length out \<Longrightarrow> body i (s, out) = (s + length (A i), slice_copy out s (A i))"
    and "length (concat (map A [0..<n])) \<le> length out"
  shows "for_loop 0 n body (0, out) = (length (concat (map A [0..<n])), concat (map A [0..<n]) @ drop (length (concat (map A [0..<n]))) out)"
  using assms
proof (induction n)
  case (Suc n)
  let ?L = "concat (map A [0..<n])"
  have "for_loop 0 n body (0, out) = (length ?L, ?L @ drop (length ?L) out)" using Suc.prems by (intro Suc.IH) auto
  moreover have "body n (length ?L, ?L @ drop (length ?L) out) = (length ?L + length (A n), slice_copy (?L @ drop (length ?L) out) (length ?L) (A n))"
    using Suc.prems(2) by (intro Suc.prems(1)) simp_all
  ultimately show ?case by (simp add: for_loop_last slice_copy_def add.commute)
qed simp

lemma slice_copy_push: "s < length out \<Longrightarrow> out[s := x] = slice_copy out s [x]"
  by (simp add: slice_copy_def upd_conv_take_nth_drop)

lemma slice_copy_twice: "s + length a + length b \<le> length out \<Longrightarrow> slice_copy (slice_copy out s a) (s + length a) b = slice_copy out s (a @ b)"
  by (simp add: slice_copy_def ac_simps)

subsection \<open>The loop on the lanes\<close>

lemma subslice_map_upt: "i \<le> j \<Longrightarrow> p + j \<le> q \<Longrightarrow> subslice (map f [p..<q]) i j = map f [p + i..<p + j]"
  by (simp add: subslice_def drop_map take_map)

lemma those_None: "None \<in> set xs \<Longrightarrow> those xs = None"
  by (induction xs) (auto split: option.split)

text \<open>
  A lane that has read the coefficients \<open>L\<close>: as long as they are fewer than 256 the buffer holds all of them; afterwards it holds the first 256 and is left alone.
\<close>

definition lane_holds :: "int list \<Rightarrow> sampling_lane \<Rightarrow> bool" where
  "lane_holds L = (\<lambda>(done, sampled, out). length out = 263 \<and>
     (if done then 256 \<le> length L \<and> take 256 out = take 256 L else length L < 256 \<and> sampled = length L \<and> take sampled out = L))"

lemma lane_holds_start: "length out = 263 \<Longrightarrow> lane_holds [] (False, 0, out)"
  by (simp add: lane_holds_def)

lemma lane_holds_more: "lane_holds L (True, sampled, out) \<Longrightarrow> lane_holds (L @ L') (True, sampled, out)"
  by (simp add: lane_holds_def)

lemma lane_done: "lane_holds L l \<Longrightarrow> fst l \<longleftrightarrow> 256 \<le> length L"
  by (auto simp: lane_holds_def split: if_splits prod.splits)

lemma lane_length: "lane_holds L l \<Longrightarrow> length (snd (snd l)) = 263"
  by (auto simp: lane_holds_def split: prod.splits)

lemma lane_buffer: "lane_holds L l \<Longrightarrow> fst l \<Longrightarrow> take 256 (snd (snd l)) = take 256 L"
  by (auto simp: lane_holds_def split: prod.splits)

locale rejection_sampler =
  fixes u c :: nat and accept :: "u8 list \<Rightarrow> int list" and sample :: "u8 list \<Rightarrow> i32 list \<Rightarrow> nat \<times> i32 list"
  assumes units: "0 < u" "0 < c"
    and at_most_eight: "length bs = c * u \<Longrightarrow> length (concat (map (\<lambda>i. accept (subslice bs (i * u) (i * u + u))) [0..<c])) \<le> 8"
    and sample_appends: "length bs = c * u \<Longrightarrow> 8 \<le> length out \<Longrightarrow>
      sample bs out = (length (concat (map (\<lambda>i. accept (subslice bs (i * u) (i * u + u))) [0..<c])),
        concat (map (\<lambda>i. accept (subslice bs (i * u) (i * u + u))) [0..<c])
          @ drop (length (concat (map (\<lambda>i. accept (subslice bs (i * u) (i * u + u))) [0..<c]))) out)"
begin

abbreviation bytes :: nat where
  "bytes \<equiv> c * u"

lemma stream_step_units:
  "concat (map (\<lambda>i. accept (subslice (map B [k * bytes..<k * bytes + bytes]) (i * u) (i * u + u))) [0..<c])
   = concat (map (\<lambda>i. accept (stream_unit u B (k * c + i))) [0..<c])"
proof -
  have "subslice (map B [k * bytes..<k * bytes + bytes]) (i * u) (i * u + u) = stream_unit u B (k * c + i)" if "i < c" for i
  proof -
    have "i * u + u \<le> c * u" using mult_le_mono1 [of "Suc i" c u] that by simp
    then show ?thesis
      by (subst subslice_map_upt) (simp_all add: stream_unit_def distrib_right mult.assoc add.assoc)
  qed
  then show ?thesis by (intro arg_cong [where f = concat] map_cong) auto
qed

lemma sample_step:
  assumes "lane_holds L (False, sampled, out)" and "bs = map B [k * bytes..<k * bytes + bytes]"
    and "L = accepted_units u accept B (k * c)" and "sample bs (drop sampled out) = (n, cells)"
  shows "lane_holds (accepted_units u accept B (Suc k * c)) (256 \<le> sampled + n, sampled + n, slice_copy out sampled cells)"
proof -
  let ?A = "concat (map (\<lambda>i. accept (stream_unit u B (k * c + i))) [0..<c])"
  have o: "length out = 263" "length L < 256" "sampled = length L" "take sampled out = L" using assms(1) by (auto simp: lane_holds_def)
  have l: "length bs = c * u" by (simp add: assms(2))
  have A: "length ?A \<le> 8" using at_most_eight [OF l] stream_step_units [of B k] by (simp add: assms(2))
  have "sample bs (drop sampled out) = (length ?A, ?A @ drop (length ?A) (drop sampled out))"
    using sample_appends [OF l, of "drop sampled out"] o unfolding assms(2) stream_step_units by simp
  then have nc: "n = length ?A" "cells = ?A @ drop (length ?A) (drop sampled out)" using assms(4) by simp_all
  have L: "accepted_units u accept B (Suc k * c) = L @ ?A" using accepted_units_add [of u accept B "k * c" c] by (simp add: assms(3) add.commute)
  have "slice_copy out sampled cells = L @ ?A @ drop (length L + length ?A) out" using o A by (simp add: slice_copy_def nc add.commute)
  then show ?thesis unfolding L using o A by (simp add: lane_holds_def nc)
qed

lemma steps_hold:
  assumes "lane_holds (accepted_units u accept B (a * c)) (False, sampled, out)" and "a \<le> b"
  shows "lane_holds (accepted_units u accept B (b * c)) (rejection_sample_steps bytes sample (map B [a * bytes..<b * bytes]) sampled out)"
proof -
  let ?R = "map B [a * bytes..<b * bytes]"
  let ?body = "\<lambda>i (done, sampled_coefficients, out).
       let random_bytes = subslice ?R (i * bytes) (i * bytes + bytes)
       in if \<not> done then
            let (sampled, cells) = sample random_bytes (drop sampled_coefficients out);
                out = slice_copy out sampled_coefficients cells;
                sampled_coefficients = sampled_coefficients + sampled
            in (if DSA_COEFFICIENTS_IN_RING_ELEMENT \<le> sampled_coefficients then True else done, sampled_coefficients, out)
          else (done, sampled_coefficients, out)"
  have all: "lane_holds (accepted_units u accept B ((a + m) * c)) (for_loop 0 m ?body (False, sampled, out))" if "m \<le> b - a" for m
    using that
  proof (induction m)
    case 0
    then show ?case using assms(1) by simp
  next
    case (Suc m)
    obtain dn s out' where st: "for_loop 0 m ?body (False, sampled, out) = (dn, s, out')" by (rule prod_cases3)
    have h: "lane_holds (accepted_units u accept B ((a + m) * c)) (dn, s, out')" using Suc st by simp
    have "(a + Suc m) * bytes \<le> b * bytes" using Suc.prems assms(2) by (intro mult_le_mono1) simp
    then have r: "subslice ?R (m * bytes) (m * bytes + bytes) = map B [(a + m) * bytes..<(a + m) * bytes + bytes]"
      by (subst subslice_map_upt) (simp_all add: distrib_right add.assoc)
    show ?case
    proof (cases dn)
      case True
      have e: "accepted_units u accept B ((a + Suc m) * c)
          = accepted_units u accept B ((a + m) * c) @ concat (map (\<lambda>i. accept (stream_unit u B ((a + m) * c + i))) [0..<c])"
        using accepted_units_add [of u accept B "(a + m) * c" c] by (simp add: add.commute)
      show ?thesis unfolding for_loop_last [OF le0] st e using True h by (simp add: lane_holds_more)
    next
      case False
      obtain n cells where sc: "sample (subslice ?R (m * bytes) (m * bytes + bytes)) (drop s out') = (n, cells)" by (rule prod.exhaust)
      from h False have h': "lane_holds (accepted_units u accept B ((a + m) * c)) (False, s, out')" by simp
      have "lane_holds (accepted_units u accept B (Suc (a + m) * c)) (256 \<le> s + n, s + n, slice_copy out' s cells)"
        by (rule sample_step [OF h' r refl sc])
      moreover have "for_loop 0 (Suc m) ?body (False, sampled, out) = (256 \<le> s + n, s + n, slice_copy out' s cells)"
        unfolding for_loop_last [OF le0] st using False sc by (simp add: DSA_COEFFICIENTS_IN_RING_ELEMENT_def Let_def)
      ultimately show ?thesis by (simp only: add_Suc_right)
    qed
  qed
  have "length ?R div bytes = b - a" using units by (simp add: diff_mult_distrib [symmetric])
  then show ?thesis using all [of "b - a"] assms(2) by (simp add: rejection_sample_steps_def)
qed

text \<open>The body of the loop on the lanes, its state after \<open>m\<close> iterations, and a number of iterations after which all lanes have enough.\<close>

abbreviation lanes_step ::
  "(keccak_state list \<Rightarrow> keccak_state list \<times> u8 list list) \<Rightarrow> keccak_state list \<times> sampling_lane list \<Rightarrow> keccak_state list \<times> sampling_lane list" where
  "lanes_step squeeze \<equiv> (\<lambda>(state, lanes). let (state, randomnesses) = squeeze state
     in (state, map2 (\<lambda>(done, sampled, out) randomness.
           if \<not> done then rejection_sample_steps bytes sample randomness sampled out else (done, sampled, out)) lanes randomnesses))"

lemma lanes_after:
  assumes squeeze: "\<And>m. squeeze (st m) = (st (Suc m), map (\<lambda>B. map B [(N + m * d) * bytes..<(N + Suc m * d) * bytes]) Bs)"
    and start: "length ls0 = length Bs" "\<And>j. j < length Bs \<Longrightarrow> lane_holds (accepted_units u accept (Bs ! j) (N * c)) (ls0 ! j)"
  shows "\<exists>ls. (lanes_step squeeze ^^ m) (st 0, ls0) = (st m, ls) \<and> length ls = length Bs
    \<and> (\<forall>j < length Bs. lane_holds (accepted_units u accept (Bs ! j) ((N + m * d) * c)) (ls ! j))"
proof (induction m)
  case 0
  then show ?case using start by simp
next
  case (Suc m)
  let ?acc = "\<lambda>m j. accepted_units u accept (Bs ! j) ((N + m * d) * c)"
  from Suc obtain ls where ls: "(lanes_step squeeze ^^ m) (st 0, ls0) = (st m, ls)" "length ls = length Bs" "\<And>j. j < length Bs \<Longrightarrow> lane_holds (?acc m j) (ls ! j)" by auto
  define R where "R = map (\<lambda>B. map B [(N + m * d) * bytes..<(N + Suc m * d) * bytes]) Bs"
  define next' where "next' = map2 (\<lambda>(done, sampled, out) randomness.
              if \<not> done then rejection_sample_steps bytes sample randomness sampled out else (done, sampled, out)) ls R"
  have "lane_holds (?acc (Suc m) j) (next' ! j)" if j: "j < length Bs" for j
  proof -
    obtain dn s out where lane: "ls ! j = (dn, s, out)" by (rule prod_cases3)
    have h: "lane_holds (?acc m j) (dn, s, out)" using ls(3) [OF j] lane by simp
    have e: "?acc (Suc m) j = ?acc m j @ concat (map (\<lambda>i. accept (stream_unit u (Bs ! j) ((N + m * d) * c + i))) [0..<d * c])"
      using accepted_units_add [of u accept "Bs ! j" "(N + m * d) * c" "d * c"] by (simp add: algebra_simps)
    show ?thesis
    proof (cases dn)
      case True
      then show ?thesis using h lane_holds_more [of "?acc m j" s out] e j ls(2) lane by (simp add: next'_def R_def)
    next
      case False
      then show ?thesis using steps_hold [of "Bs ! j" "N + m * d" s out "N + Suc m * d"] h j ls(2) lane by (simp add: next'_def R_def)
    qed
  qed
  moreover have "(lanes_step squeeze ^^ Suc m) (st 0, ls0) = (st (Suc m), next')" using ls(1) squeeze [of m] by (simp add: next'_def R_def)
  moreover have "length next' = length Bs" using ls(2) by (simp add: next'_def R_def)
  ultimately show ?case by blast
qed

lemma lanes_enough:
  assumes "0 < d" and "those (map (rej_poly u accept) Bs) \<noteq> None"
  shows "\<exists>m. \<forall>j < length Bs. 256 \<le> length (accepted_units u accept (Bs ! j) ((N + m * d) * c))"
proof -
  have "rej_poly u accept (Bs ! j) \<noteq> None" if "j < length Bs" for j using assms(2) those_None that by (metis in_set_conv_nth length_map nth_map)
  then have "\<forall>j. \<exists>n. j < length Bs \<longrightarrow> 256 \<le> length (accepted_units u accept (Bs ! j) n)" using rej_poly_None by (metis not_less)
  then obtain n where n: "\<And>j. j < length Bs \<Longrightarrow> 256 \<le> length (accepted_units u accept (Bs ! j) (n j))" by metis
  define m where "m = Max (n ` {..<length Bs} \<union> {0})"
  have "256 \<le> length (accepted_units u accept (Bs ! j) ((N + m * d) * c))" if j: "j < length Bs" for j
  proof -
    have "n j \<le> m" unfolding m_def using j by (intro Max_ge) auto
    also have "m \<le> m * (d * c)" using assms(1) units by simp
    also have "\<dots> \<le> (N + m * d) * c" by (simp add: algebra_simps)
    finally show ?thesis using n [OF j] accepted_units_mono order_trans by blast
  qed
  then show ?thesis by blast
qed

lemma lanes_result_values:
  assumes "length ls = length Bs" and "\<And>j. j < length Bs \<Longrightarrow> lane_holds (accepted_units u accept (Bs ! j) n) (ls ! j)"
    and "\<And>j. j < length Bs \<Longrightarrow> 256 \<le> length (accepted_units u accept (Bs ! j) n)"
  shows "Some (map (take 256 \<circ> snd \<circ> snd) ls) = those (map (rej_poly u accept) Bs)" and "list_all (\<lambda>l. length (snd (snd l)) = 263) ls"
proof -
  have "take 256 (snd (snd (ls ! i))) = take 256 (accepted_units u accept (Bs ! i) n)" if "i < length Bs" for i
    using assms(2,3) [OF that] lane_buffer lane_done by blast
  then have "map (rej_poly u accept) Bs = map Some (map (take 256 \<circ> snd \<circ> snd) ls)"
    using assms(1,3) rej_poly_Some by (intro nth_equalityI) simp_all
  moreover have "those (map Some xs) = Some xs" for xs :: "int list list" by (induction xs) simp_all
  ultimately show "Some (map (take 256 \<circ> snd \<circ> snd) ls) = those (map (rej_poly u accept) Bs)" by (simp only:)
  show "list_all (\<lambda>l. length (snd (snd l)) = 263) ls" unfolding list_all_length using assms(1,2) lane_length by metis
qed

lemma sampling_loop_eq:
  assumes squeeze: "\<And>m. squeeze (st m) = (st (Suc m), map (\<lambda>B. map B [(N + m * d) * bytes..<(N + Suc m * d) * bytes]) Bs)" and "0 < d"
    and start: "length ls0 = length Bs" "\<And>j. j < length Bs \<Longrightarrow> lane_holds (accepted_units u accept (Bs ! j) (N * c)) (ls0 ! j)"
  shows "map_option (map (take 256 \<circ> snd \<circ> snd) \<circ> snd) (sampling_loop squeeze (rejection_sample_steps bytes sample) (st 0, ls0))
      = those (map (rej_poly u accept) Bs)" (is ?result)
    and "sampling_loop squeeze (rejection_sample_steps bytes sample) (st 0, ls0) = Some (state, ls')
      \<Longrightarrow> length ls' = length Bs \<and> list_all (\<lambda>l. length (snd (snd l)) = 263) ls'" (is "_ \<Longrightarrow> ?lengths")
proof -
  let ?b = "\<lambda>(state :: keccak_state list, lanes :: sampling_lane list). \<not> list_all fst lanes"
  let ?acc = "\<lambda>m j. accepted_units u accept (Bs ! j) ((N + m * d) * c)"
  note after = lanes_after [OF squeeze start]
  have exit: "\<not> ?b ((lanes_step squeeze ^^ m) (st 0, ls0)) \<longleftrightarrow> (\<forall>j < length Bs. 256 \<le> length (?acc m j))" for m
  proof -
    obtain ls where ls: "(lanes_step squeeze ^^ m) (st 0, ls0) = (st m, ls)" "length ls = length Bs" "\<And>j. j < length Bs \<Longrightarrow> lane_holds (?acc m j) (ls ! j)"
      using after [of m] by auto
    show ?thesis unfolding ls(1) using ls(2) lane_done [OF ls(3)] by (simp add: list_all_length)
  qed
  have "?result \<and> (sampling_loop squeeze (rejection_sample_steps bytes sample) (st 0, ls0) = Some (state, ls') \<longrightarrow> ?lengths)"
  proof (cases "\<exists>m. \<forall>j < length Bs. 256 \<le> length (?acc m j)")
    case True
    define m where "m = (LEAST m. \<forall>j < length Bs. 256 \<le> length (?acc m j))"
    have m: "\<forall>j < length Bs. 256 \<le> length (?acc m j)" unfolding m_def using True by (rule LeastI_ex)
    obtain ls where ls: "(lanes_step squeeze ^^ m) (st 0, ls0) = (st m, ls)" "length ls = length Bs" "\<forall>j < length Bs. lane_holds (?acc m j) (ls ! j)"
      using after [of m] by auto
    have w: "while_option ?b (lanes_step squeeze) (st 0, ls0) = Some (st m, ls)"
      unfolding ls(1) [symmetric]
    proof (rule while_option_least)
      show "\<not> ?b ((lanes_step squeeze ^^ m) (st 0, ls0))" by (rule iffD2 [OF exit m])
      fix j assume "j < m"
      then have "\<not> (\<forall>i < length Bs. 256 \<le> length (?acc j i))" unfolding m_def by (rule not_less_Least)
      then show "?b ((lanes_step squeeze ^^ j) (st 0, ls0))" by (rule contrapos_np) (erule iffD1 [OF exit])
    qed
    have "Some (map (take 256 \<circ> snd \<circ> snd) ls) = those (map (rej_poly u accept) Bs)" "list_all (\<lambda>l. length (snd (snd l)) = 263) ls"
      using lanes_result_values [OF ls(2), of "(N + m * d) * c"] ls(3) m by blast+
    then show ?thesis unfolding sampling_loop_def w using ls(2) by auto
  next
    case False
    have w: "while_option ?b (lanes_step squeeze) (st 0, ls0) = None"
    proof (rule while_option_never)
      fix m
      have "\<not> (\<forall>i < length Bs. 256 \<le> length (?acc m i))" using False by blast
      then show "?b ((lanes_step squeeze ^^ m) (st 0, ls0))" by (rule contrapos_np) (erule iffD1 [OF exit])
    qed
    have "those (map (rej_poly u accept) Bs) = None" using False lanes_enough [OF assms(2), of Bs N] by blast
    then show ?thesis unfolding sampling_loop_def w by simp
  qed
  then show ?result and "sampling_loop squeeze (rejection_sample_steps bytes sample) (st 0, ls0) = Some (state, ls') \<Longrightarrow> ?lengths" by blast+
qed

end

subsection \<open>The three samplers\<close>

lemma uint_nibbles: "uint ((b :: u8) AND 15) = uint b mod 16" "uint (drop_bit 4 (b :: u8)) = uint b div 16"
proof -
  have "uint b AND 15 = uint b mod 16" using take_bit_eq_mask [of 4 "uint b"] by (simp add: take_bit_eq_mod mask_eq_exp_minus_1)
  then show "uint (b AND 15) = uint b mod 16" by (simp add: unsigned_and_eq)
  show "uint (drop_bit 4 b) = uint b div 16" by (simp add: drop_bit_eq_div uint_div)
qed

lemma nibble_range: "0 \<le> uint (b :: u8) mod 16" "uint (b :: u8) mod 16 < 16" "0 \<le> uint (b :: u8) div 16" "uint (b :: u8) div 16 < 16"
  using uint_u8_range [of b] by (simp_all add: pos_imp_zdiv_nonneg_iff int_div_less)

lemma mod_5_by_multiplication:
  fixes x :: int
  assumes "0 \<le> x" and "x < 15"
  shows "as_i32 (2 - as_i32 (x - as_i32 (drop_bit 7 (as_i32 (x * 26)) * 5))) = 2 - x mod 5"
proof -
  have "x = 0 \<or> x = 1 \<or> x = 2 \<or> x = 3 \<or> x = 4 \<or> x = 5 \<or> x = 6 \<or> x = 7 \<or> x = 8 \<or> x = 9 \<or> x = 10 \<or> x = 11 \<or> x = 12 \<or> x = 13 \<or> x = 14"
    using assms by presburger
  then show ?thesis by (elim disjE; simp add: is_i32_def drop_bit_eq_div)
qed

lemma subslice_nth_same: "i * u + u \<le> length bs \<Longrightarrow> j < u \<Longrightarrow> subslice bs (i * u) (i * u + u) ! j = bs ! (i * u + j)"
  by (simp add: subslice_def)

lemma eta_2_body:
  assumes "s + length (coeff_from_byte Eta_Two [byte]) \<le> length out"
  shows "(let try_0 = byte AND 15;
           try_1 = drop_bit 4 byte;
           try_0_comp = try_0 < 15;
           try_1_comp = try_1 < 15;
           (sampled, out) =
             (if try_0_comp then
                let try_00 = uint try_0;
                    try_0_mod_5 = as_i32 (try_00 - as_i32 (drop_bit 7 (as_i32 (try_00 * 26)) * 5))
                in (s + 1, out[s := as_i32 (2 - try_0_mod_5)])
              else (s, out))
       in if try_1_comp then
            let try_10 = uint try_1;
                try_1_mod_5 = as_i32 (try_10 - as_i32 (drop_bit 7 (as_i32 (try_10 * 26)) * 5))
            in (sampled + 1, out[sampled := as_i32 (2 - try_1_mod_5)])
          else (sampled, out))
    = (s + length (coeff_from_byte Eta_Two [byte]), slice_copy out s (coeff_from_byte Eta_Two [byte]))"
proof -
  have w: "byte AND 15 < 15 \<longleftrightarrow> uint byte mod 16 < 15" "drop_bit 4 byte < 15 \<longleftrightarrow> uint byte div 16 < 15"
    by (simp_all add: word_less_def uint_nibbles)
  note m = mod_5_by_multiplication [OF nibble_range(1) [of byte]] mod_5_by_multiplication [OF nibble_range(3) [of byte]]
  show ?thesis
    using assms slice_copy_twice [of s "[2 - uint byte mod 16 mod 5]" "[2 - uint byte div 16 mod 5]" out]
    by (auto simp: coeff_from_byte_def coeff_from_half_byte_def w uint_nibbles m slice_copy_push slice_copy_def [of _ _ "[]"])
qed

lemma eta_4_body:
  assumes "s + length (coeff_from_byte Eta_Four [byte]) \<le> length out"
  shows "(let try_0 = byte AND 15;
           try_1 = drop_bit 4 byte;
           try_0_comp = try_0 < 9;
           try_1_comp = try_1 < 9;
           (sampled, out) = (if try_0_comp then (s + 1, out[s := as_i32 (4 - uint try_0)]) else (s, out))
       in if try_1_comp then (sampled + 1, out[sampled := as_i32 (4 - uint try_1)]) else (sampled, out))
    = (s + length (coeff_from_byte Eta_Four [byte]), slice_copy out s (coeff_from_byte Eta_Four [byte]))"
proof -
  have w: "byte AND 15 < 9 \<longleftrightarrow> uint byte mod 16 < 9" "drop_bit 4 byte < 9 \<longleftrightarrow> uint byte div 16 < 9"
    by (simp_all add: word_less_def uint_nibbles)
  have i: "as_i32 (4 - uint byte mod 16) = 4 - uint byte mod 16" "as_i32 (4 - uint byte div 16) = 4 - uint byte div 16"
  proof -
    have "is_i32 (4 - uint byte mod 16)" "is_i32 (4 - uint byte div 16)" using nibble_range [of byte] unfolding is_i32_def by linarith+
    then show "as_i32 (4 - uint byte mod 16) = 4 - uint byte mod 16" "as_i32 (4 - uint byte div 16) = 4 - uint byte div 16" by simp_all
  qed
  show ?thesis
    using assms slice_copy_twice [of s "[4 - uint byte mod 16]" "[4 - uint byte div 16]" out]
    by (auto simp: coeff_from_byte_def coeff_from_half_byte_def w uint_nibbles i slice_copy_push slice_copy_def [of _ _ "[]"])
qed

lemma length_coeff_from_byte: "length (coeff_from_byte eta z) \<le> 2"
  by (simp add: coeff_from_byte_def coeff_from_half_byte_def split: eta.split)

lemma length_concat_bound: "(\<And>i. i < n \<Longrightarrow> length (f i) \<le> k) \<Longrightarrow> length (concat (map f [0..<n])) \<le> n * k"
proof (induction n)
  case (Suc n)
  have "length (concat (map f [0..<n])) \<le> n * k" "length (f n) \<le> k" using Suc by simp_all
  then show ?case by simp
qed simp

lemma subslice_single: "i < length bs \<Longrightarrow> subslice bs i (Suc i) = [bs ! i]"
  by (simp add: subslice_def take_Suc_conv_app_nth Cons_nth_drop_Suc [symmetric])

interpretation sampler_eta_2: rejection_sampler 1 4 "coeff_from_byte Eta_Two" unit_rejection_sample_less_than_eta_equals_2
proof
  fix bs :: "u8 list" and out :: "i32 list" assume bs: "length bs = 4 * 1"
  let ?A = "\<lambda>i. coeff_from_byte Eta_Two (subslice bs (i * 1) (i * 1 + 1))"
  have A: "?A i = coeff_from_byte Eta_Two [bs ! i]" if "i < 4" for i using that bs by (simp add: subslice_single)
  show few: "length (concat (map ?A [0..<4])) \<le> 8" using length_concat_bound [of 4 ?A 2] length_coeff_from_byte by simp
  assume out: "8 \<le> length out"
  have n: "length bs = 4" using bs by simp
  show "unit_rejection_sample_less_than_eta_equals_2 bs out
      = (length (concat (map ?A [0..<4])), concat (map ?A [0..<4]) @ drop (length (concat (map ?A [0..<4]))) out)"
    unfolding unit_rejection_sample_less_than_eta_equals_2_def n
  proof (rule push_loop)
    show "length (concat (map ?A [0..<4])) \<le> length out" using few out by simp
  qed (simp only: A split Let_def [of "bs ! _"], rule eta_2_body)
qed simp_all

interpretation sampler_eta_4: rejection_sampler 1 4 "coeff_from_byte Eta_Four" unit_rejection_sample_less_than_eta_equals_4
proof
  fix bs :: "u8 list" and out :: "i32 list" assume bs: "length bs = 4 * 1"
  let ?A = "\<lambda>i. coeff_from_byte Eta_Four (subslice bs (i * 1) (i * 1 + 1))"
  have A: "?A i = coeff_from_byte Eta_Four [bs ! i]" if "i < 4" for i using that bs by (simp add: subslice_single)
  show few: "length (concat (map ?A [0..<4])) \<le> 8" using length_concat_bound [of 4 ?A 2] length_coeff_from_byte by simp
  assume out: "8 \<le> length out"
  have n: "length bs = 4" using bs by simp
  show "unit_rejection_sample_less_than_eta_equals_4 bs out
      = (length (concat (map ?A [0..<4])), concat (map ?A [0..<4]) @ drop (length (concat (map ?A [0..<4]))) out)"
    unfolding unit_rejection_sample_less_than_eta_equals_4_def n
  proof (rule push_loop)
    show "length (concat (map ?A [0..<4])) \<le> length out" using few out by simp
  qed (simp only: A split Let_def [of "bs ! _"], rule eta_4_body)
qed simp_all

lemma shl_i32_small:
  assumes "0 \<le> x" and "2 ^ k * x \<le> 2147483647"
  shows "shl_i32 x k = 2 ^ k * x"
proof -
  have "0 \<le> 2 ^ k * x" using assms(1) by simp
  then have "is_i32 (2 ^ k * x)" unfolding is_i32_def using assms(2) by linarith
  then show ?thesis using shl_i32_eq [of x k] by (simp add: mult.commute)
qed

lemma three_bytes:
  fixes b0 b1 b2 :: u8
  shows "((shl_i32 (uint b2) 16 OR shl_i32 (uint b1) 8) OR uint b0) AND 8388607 = 65536 * (uint b2 mod 128) + 256 * uint b1 + uint b0"
proof -
  note b = uint_u8_range [of b0] uint_u8_range [of b1] uint_u8_range [of b2]
  have h: "256 * (256 * uint b2 + uint b1) = 65536 * uint b2 + 256 * uint b1" by simp
  have "65536 * uint b2 OR 256 * uint b1 = 65536 * uint b2 + 256 * uint b1"
    using or_disjoint [of "256 * uint b1" 16 "uint b2"] b by simp
  moreover have "(65536 * uint b2 + 256 * uint b1) OR uint b0 = 65536 * uint b2 + 256 * uint b1 + uint b0"
    using or_disjoint [of "uint b0" 8 "256 * uint b2 + uint b1"] b h by simp
  moreover have "x AND 8388607 = x mod 8388608" for x :: int
    using take_bit_eq_mask [of 23 x] by (simp add: take_bit_eq_mod mask_eq_exp_minus_1)
  moreover have "(65536 * uint b2 + 256 * uint b1 + uint b0) mod 8388608 = 65536 * (uint b2 mod 128) + 256 * uint b1 + uint b0"
  proof -
    define d m where "d = uint b2 div 128" and "m = uint b2 mod 128"
    have e: "uint b2 = 128 * d + m" "0 \<le> m" "m < 128" unfolding d_def m_def by simp_all
    have "65536 * uint b2 + 256 * uint b1 + uint b0 = (65536 * m + 256 * uint b1 + uint b0) + d * 8388608" using e(1) by simp
    then have "(65536 * uint b2 + 256 * uint b1 + uint b0) mod 8388608 = (65536 * m + 256 * uint b1 + uint b0) mod 8388608"
      by (simp only: mod_mult_self1)
    also have "\<dots> = 65536 * m + 256 * uint b1 + uint b0" using e b by (intro mod_pos_pos_trivial) linarith+
    finally show ?thesis by (simp add: m_def)
  qed
  ultimately show ?thesis using b shl_i32_small [of "uint b2" 16] shl_i32_small [of "uint b1" 8] by simp
qed

interpretation sampler_field: rejection_sampler 3 8 coeff_from_three_bytes unit_rejection_sample_less_than_field_modulus
proof
  fix bs :: "u8 list" and out :: "i32 list" assume bs: "length bs = 8 * 3"
  let ?A = "\<lambda>i. coeff_from_three_bytes (subslice bs (i * 3) (i * 3 + 3))"
  show few: "length (concat (map ?A [0..<8])) \<le> 8" using length_concat_bound [of 8 ?A 1] by (simp add: coeff_from_three_bytes_def Let_def)
  assume out: "8 \<le> length out"
  have n: "length bs div 3 = 8" using bs by simp
  show "unit_rejection_sample_less_than_field_modulus bs out
      = (length (concat (map ?A [0..<8])), concat (map ?A [0..<8]) @ drop (length (concat (map ?A [0..<8]))) out)"
    unfolding unit_rejection_sample_less_than_field_modulus_def n
  proof (rule push_loop)
    show "length (concat (map ?A [0..<8])) \<le> length out" using few out by simp
    fix i s and out :: "i32 list" assume i: "i < 8" and l: "s + length (?A i) \<le> length out"
    have b: "subslice bs (i * 3) (i * 3 + 3) ! j = bs ! (i * 3 + j)" if "j < 3" for j using subslice_nth_same [of i 3 bs j] that i bs by simp
    show "(\<lambda>(sampled, out).
         let b0 = uint (bs ! (i * 3)); b1 = uint (bs ! (i * 3 + 1)); b2 = uint (bs ! (i * 3 + 2));
             coefficient = ((shl_i32 b2 16 OR shl_i32 b1 8) OR b0) AND 8388607
         in if coefficient < DSA_FIELD_MODULUS then (sampled + 1, out[sampled := coefficient]) else (sampled, out)) (s, out)
      = (s + length (?A i), slice_copy out s (?A i))"
      using l b [of 0] b [of 1] b [of 2]
      by (auto simp: three_bytes coeff_from_three_bytes_def DSA_FIELD_MODULUS_def Let_def slice_copy_push slice_copy_def [of _ _ "[]"])
  qed
qed simp_all

lemma eta_sampler:
  "rejection_sample_less_than_eta eta = rejection_sample_steps 4 (case eta of Eta_Two \<Rightarrow> unit_rejection_sample_less_than_eta_equals_2
     | Eta_Four \<Rightarrow> unit_rejection_sample_less_than_eta_equals_4)"
  by (simp add: fun_eq_iff rejection_sample_less_than_eta_def rejection_sample_less_than_eta_equals_2_def
      rejection_sample_less_than_eta_equals_4_def split: eta.split)

lemma error_sampler: "rejection_sampler 1 4 (coeff_from_byte eta)
    (case eta of Eta_Two \<Rightarrow> unit_rejection_sample_less_than_eta_equals_2 | Eta_Four \<Rightarrow> unit_rejection_sample_less_than_eta_equals_4)"
  using sampler_eta_2.rejection_sampler_axioms sampler_eta_4.rejection_sampler_axioms by (cases eta) simp_all

subsection \<open>Four ring elements\<close>

lemma from_i32_array_long:
  assumes "256 \<le> length a" and "wf_dsa_ring re"
  shows "from_i32_array a re = chunks 8 (take 256 a)"
proof -
  have "from_i32_array a re = from_i32_array (take 256 a) re"
    unfolding from_i32_array_def SIMD_UNITS_IN_RING_ELEMENT_def COEFFICIENTS_IN_SIMD_UNIT_def
    by (rule for_loop_cong) (simp_all add: subslice_def take_drop min_def)
  then show ?thesis using from_i32_array_eq [OF _ assms(2), of "take 256 a"] assms(1) by simp
qed

lemma length_domain_separators:
  "length seed \<le> 64 \<Longrightarrow> length (add_error_domain_separator seed i) = 66" "length seed \<le> 32 \<Longrightarrow> length (add_domain_separator seed xy) = 34"
  by (simp_all add: add_error_domain_separator_def add_domain_separator_def slice_copy_def Let_def)

lemma those_Some: "those xs = Some ys \<longleftrightarrow> xs = map Some ys"
  by (induction xs arbitrary: ys) (auto split: option.splits)

lemma those_length: "those xs = Some L \<Longrightarrow> length L = length xs"
  by (simp add: those_Some)

lemma those_member: "those (map f xs) = Some L \<Longrightarrow> l \<in> set L \<Longrightarrow> \<exists>x \<in> set xs. f x = Some l"
  unfolding those_Some by (metis (no_types, lifting) image_iff list.set_map)

lemma those_append: "those (xs @ ys) = Option.bind (those xs) (\<lambda>a. map_option ((@) a) (those ys))"
proof (induction xs)
  case (Cons x xs)
  then show ?case by (cases x; cases "those xs"; cases "those ys") simp_all
qed (cases "those ys"; simp)

text \<open>The lanes of the code at the end of the loop, and the four results of the reference.\<close>

definition lanes_result :: "int list list option \<Rightarrow> (keccak_state list \<times> sampling_lane list) option \<Rightarrow> bool" where
  "lanes_result ref r = (case ref of None \<Rightarrow> r = None
     | Some L \<Rightarrow> \<exists>state ls. r = Some (state, ls) \<and> length L = length ls \<and>
         (\<forall>j < length ls. length (snd (snd (ls ! j))) = 263 \<and> take 256 (snd (snd (ls ! j))) = L ! j))"

lemma lanes_resultI:
  assumes "map_option (map (take 256 \<circ> snd \<circ> snd) \<circ> snd) r = ref"
    and "\<And>state ls. r = Some (state, ls) \<Longrightarrow> list_all (\<lambda>l. length (snd (snd l)) = 263) ls"
  shows "lanes_result ref r"
  using assms by (cases r) (auto simp: lanes_result_def list_all_length)

lemma error_lanes:
  assumes "\<And>seed. seed \<in> set seeds \<Longrightarrow> length seed = 66"
  shows "lanes_result (those (map (rej_bounded_poly eta) seeds))
    (sampling_loop shake256x4_squeeze_next_block (rejection_sample_less_than_eta eta)
      (shake256x4_init_absorb seeds, map (\<lambda>randomness. rejection_sample_less_than_eta eta randomness 0 (replicate 263 0))
        (shake256x4_squeeze_first_block (shake256x4_init_absorb seeds))))"
proof -
  let ?Bs = "map shake256_stream seeds" and ?st = "\<lambda>m. map (shake256_after m) seeds"
  let ?s = "case eta of Eta_Two \<Rightarrow> unit_rejection_sample_less_than_eta_equals_2 | Eta_Four \<Rightarrow> unit_rejection_sample_less_than_eta_equals_4"
  let ?ls = "map (\<lambda>randomness. rejection_sample_steps 4 ?s randomness 0 (replicate 263 0)) (shake256x4_squeeze_first_block (shake256x4_init_absorb seeds))"
  have st: "shake256x4_init_absorb seeds = ?st 0" using assms by (simp add: shake256x4_init_absorb_def shake_absorb_after)
  have first: "shake256x4_squeeze_first_block (?st 0) = map (\<lambda>B. map B [0 * (4 * 1)..<34 * (4 * 1)]) ?Bs"
    by (simp add: shake256x4_squeeze_first_block_def shake_first_after)
  have nxt: "shake256x4_squeeze_next_block (?st m) = (?st (Suc m), map (\<lambda>B. map B [(34 + m * 34) * (4 * 1)..<(34 + Suc m * 34) * (4 * 1)]) ?Bs)" for m
    by (simp add: shake256x4_squeeze_next_block_def shake_next_after comp_def algebra_simps)
  have start: "lane_holds (accepted_units 1 (coeff_from_byte eta) (?Bs ! j) (34 * 4)) (?ls ! j)" if "j < length ?Bs" for j
    using rejection_sampler.steps_hold [OF error_sampler [of eta], of "?Bs ! j" 0 0 "replicate 263 0" 34] that
      lane_holds_start [of "replicate 263 0"] by (simp add: st first accepted_units_def)
  note e = rejection_sampler.sampling_loop_eq [OF error_sampler [of eta] nxt, of ?ls]
  show ?thesis
    unfolding eta_sampler st
    using e(1) e(2) start by (intro lanes_resultI) (simp_all add: st first rej_bounded_poly_def [abs_def] comp_def)
qed

lemma matrix_lanes:
  assumes "\<And>seed. seed \<in> set seeds \<Longrightarrow> length seed = 34" and "length rand_stack = length seeds" "\<And>r. r \<in> set rand_stack \<Longrightarrow> length r = 840"
    and "length tmp_stack = length seeds" "\<And>r. r \<in> set tmp_stack \<Longrightarrow> length r = 263"
  defines "sq \<equiv> shake128x4_squeeze_first_five_blocks (shake128x4_init_absorb seeds) rand_stack"
  shows "lanes_result (those (map rej_ntt_poly seeds))
      (sampling_loop shake128x4_squeeze_next_block rejection_sample_less_than_field_modulus
        (fst sq, map2 (\<lambda>randomness out. rejection_sample_less_than_field_modulus randomness 0 out) (snd sq) tmp_stack))"
    and "length (snd sq) = length seeds" and "r \<in> set (snd sq) \<Longrightarrow> length r = 840"
proof -
  let ?Bs = "map shake128_stream seeds" and ?st = "\<lambda>m. map (shake128_after (4 + m)) seeds"
  have sq: "sq = (?st 0, map (\<lambda>B. map B [0 * (8 * 3)..<35 * (8 * 3)]) ?Bs)"
    using assms(1,2,3) by (auto simp: sq_def shake128x4_init_absorb_def shake128x4_squeeze_first_five_blocks_def shake_absorb_after shake_first_after
        map_eq_conv set_zip intro!: nth_equalityI)
  let ?ls = "map2 (\<lambda>randomness out. rejection_sample_steps (8 * 3) unit_rejection_sample_less_than_field_modulus randomness 0 out) (snd sq) tmp_stack"
  have nxt: "shake128x4_squeeze_next_block (?st m) = (?st (Suc m), map (\<lambda>B. map B [(35 + m * 7) * (8 * 3)..<(35 + Suc m * 7) * (8 * 3)]) ?Bs)" for m
    by (simp add: shake128x4_squeeze_next_block_def shake_next_after comp_def algebra_simps)
  have start: "lane_holds (accepted_units 3 coeff_from_three_bytes (?Bs ! j) (35 * 8)) (?ls ! j)" if "j < length ?Bs" for j
    using sampler_field.steps_hold [of "?Bs ! j" 0 0 "tmp_stack ! j" 35] that assms(4,5)
      lane_holds_start [of "tmp_stack ! j"] by (simp add: sq accepted_units_def)
  note e = sampler_field.sampling_loop_eq [OF nxt, of ?ls]
  show "lanes_result (those (map rej_ntt_poly seeds))
      (sampling_loop shake128x4_squeeze_next_block rejection_sample_less_than_field_modulus
        (fst sq, map2 (\<lambda>randomness out. rejection_sample_less_than_field_modulus randomness 0 out) (snd sq) tmp_stack))"
    using e start assms(4) by (intro lanes_resultI) (simp_all add: sq rejection_sample_less_than_field_modulus_def rej_ntt_poly_def [abs_def] comp_def)
  show "length (snd sq) = length seeds" "r \<in> set (snd sq) \<Longrightarrow> length r = 840" by (auto simp: sq)
qed

subsection \<open>Filling a vector four at a time\<close>

lemma group_loop:
  assumes step: "\<And>g \<sigma>. 4 * g < n \<Longrightarrow> I \<sigma> \<Longrightarrow> case those (map f [4 * g..<4 * g + 4]) of None \<Rightarrow> step g \<sigma> = None
      | Some L \<Rightarrow> \<exists>\<sigma>'. step g \<sigma> = Some \<sigma>' \<and> I \<sigma>' \<and> \<pi> \<sigma>' = slice_copy (\<pi> \<sigma>) (4 * g) (take (n - 4 * g) (map h L))"
    and "I \<sigma>\<^sub>0" and "length (\<pi> \<sigma>\<^sub>0) = n" and "m \<le> (n + 3) div 4"
  shows "case those (map f [0..<4 * m]) of None \<Rightarrow> for_option 0 m step \<sigma>\<^sub>0 = None
    | Some L \<Rightarrow> \<exists>\<sigma>'. for_option 0 m step \<sigma>\<^sub>0 = Some \<sigma>' \<and> I \<sigma>' \<and> \<pi> \<sigma>' = slice_copy (\<pi> \<sigma>\<^sub>0) 0 (take n (map h L))"
  using assms(4)
proof (induction m)
  case 0
  then show ?case using assms(2) by (simp add: for_option_def slice_copy_def)
next
  case (Suc m)
  have m: "4 * m < n" using Suc.prems by linarith
  have f: "map f [0..<4 * Suc m] = map f [0..<4 * m] @ map f [4 * m..<4 * m + 4]"
    using upt_add_eq_append [of 0 "4 * m" 4] by (simp add: add.commute)
  show ?case
  proof (cases "those (map f [0..<4 * m])")
    case None
    then show ?thesis unfolding f those_append using Suc by (simp add: for_option_last)
  next
    case (Some L)
    then obtain \<sigma> where s: "for_option 0 m step \<sigma>\<^sub>0 = Some \<sigma>" "I \<sigma>" "\<pi> \<sigma> = slice_copy (\<pi> \<sigma>\<^sub>0) 0 (take n (map h L))" using Suc by auto
    have L: "length L = 4 * m" using Some by (auto simp: those_Some dest: arg_cong [where f = length])
    show ?thesis
    proof (cases "those (map f [4 * m..<4 * m + 4])")
      case None
      then show ?thesis unfolding f those_append Some using step [OF m s(2)] s(1) by (simp add: for_option_last)
    next
      case (Some L')
      then obtain \<sigma>' where s': "step m \<sigma> = Some \<sigma>'" "I \<sigma>'" "\<pi> \<sigma>' = slice_copy (\<pi> \<sigma>) (4 * m) (take (n - 4 * m) (map h L'))"
        using step [OF m s(2)] by auto
      have L': "length L' = 4" using Some by (auto simp: those_Some dest: arg_cong [where f = length])
      have "\<pi> \<sigma>' = slice_copy (\<pi> \<sigma>\<^sub>0) 0 (take n (map h (L @ L')))"
        using m L L' assms(3) by (simp add: s'(3) s(3) slice_copy_def min_def ac_simps)
      then show ?thesis unfolding f those_append \<open>those (map f [0..<4 * m]) = Some L\<close> Some using s(1) s'(1,2) by (simp add: for_option_last)
    qed
  qed
qed

lemma for_loop_shift: "for_loop a (a + k) body s = for_loop 0 k (\<lambda>i. body (a + i)) s"
  by (induction k) (simp_all add: for_loop_last)

lemma write_loop:
  assumes "a + k \<le> length M" and "\<And>i. i < k \<Longrightarrow> F i (M ! (a + i)) = v i"
  shows "for_loop 0 k (\<lambda>i M. M[a + i := F i (M ! (a + i))]) M = slice_copy M a (map v [0..<k])"
  using assms
proof (induction k)
  case 0
  then show ?case by (simp add: slice_copy_def)
next
  case (Suc k)
  let ?S = "slice_copy M a (map v [0..<k])"
  have l: "length ?S = length M" using Suc.prems(1) by (simp add: slice_copy_def)
  have "?S ! (a + k) = M ! (a + k)" using Suc.prems(1) by (simp add: slice_copy_def nth_append)
  then have "for_loop 0 (Suc k) (\<lambda>i M. M[a + i := F i (M ! (a + i))]) M = ?S[a + k := v k]" using Suc by (simp add: for_loop_last)
  also have "\<dots> = slice_copy ?S (a + k) [v k]" using l Suc.prems(1) by (intro slice_copy_push) simp
  also have "\<dots> = slice_copy M a (map v [0..<k] @ [v k])" using slice_copy_twice [of a "map v [0..<k]" "[v k]" M] Suc.prems(1) by simp
  finally show ?case by simp
qed

definition wf_vector :: "nat \<Rightarrow> dsa_ring_element list \<Rightarrow> bool" where
  "wf_vector n v \<longleftrightarrow> length v = n \<and> list_all wf_dsa_ring v"

lemma wf_vector_zero: "wf_vector n (replicate n dsa_polynomial_zero)"
  using dsa_bounded_wf [OF dsa_coeff_zero(2)] by (simp add: wf_vector_def list_all_iff)

lemma wf_vector_slice_copy:
  assumes "wf_vector n v" and "a + length xs \<le> n" and "list_all wf_dsa_ring xs"
  shows "wf_vector n (slice_copy v a xs)"
  using assms by (auto simp: wf_vector_def slice_copy_def list_all_iff dest: in_set_takeD in_set_dropD)

lemma map_nth_prefix: "k \<le> length xs \<Longrightarrow> map (\<lambda>i. g (xs ! i)) [0..<k] = take k (map g xs)"
  by (rule nth_equalityI) simp_all

lemma four_upt: "[4 * g..<4 * g + 4] = [4 * g, 4 * g + 1, 4 * g + 2, 4 * g + 3 :: nat]"
  by (simp add: upt_rec)

lemma error_group:
  assumes "length seed = 64" and "wf_vector n re" and "4 * g < n" and "n \<le> 60000" and "start = word_of_nat (4 * g)"
  shows "case those (map (\<lambda>i. rej_bounded_poly eta (add_error_domain_separator seed (word_of_nat i))) [4 * g..<4 * g + 4]) of
      None \<Rightarrow> sample_four_error_ring_elements eta seed start re = None
    | Some L \<Rightarrow> \<exists>re'. sample_four_error_ring_elements eta seed start re = Some re' \<and> wf_vector n re'
        \<and> re' = slice_copy re (4 * g) (take (n - 4 * g) (map (chunks 8) L))"
proof -
  let ?seeds = "[add_error_domain_separator seed start, add_error_domain_separator seed (start + 1),
                   add_error_domain_separator seed (start + 2), add_error_domain_separator seed (start + 3)]"
  have seeds: "map (\<lambda>i. rej_bounded_poly eta (add_error_domain_separator seed (word_of_nat i))) [4 * g..<4 * g + 4] = map (rej_bounded_poly eta) ?seeds"
    unfolding four_upt by (simp add: assms(5) add.commute)
  have u: "unat start = 4 * g" using assms(3,4) unfolding assms(5) unat_of_nat by simp
  have "lanes_result (those (map (rej_bounded_poly eta) ?seeds))
    (sampling_loop shake256x4_squeeze_next_block (rejection_sample_less_than_eta eta)
      (shake256x4_init_absorb ?seeds, map (\<lambda>randomness. rejection_sample_less_than_eta eta randomness 0 (replicate 263 0))
        (shake256x4_squeeze_first_block (shake256x4_init_absorb ?seeds))))" (is "lanes_result ?ref ?loop")
    using length_domain_separators(1) assms(1) by (intro error_lanes) auto
  moreover have def: "sample_four_error_ring_elements eta seed start re = map_option (\<lambda>(state, ls).
       for_loop (4 * g) (if n < 4 * g + 4 then n else 4 * g + 4) (\<lambda>i re. re[i := from_i32_array (map (snd \<circ> snd) ls ! (i mod 4)) (re ! i)]) re) ?loop"
    using assms(2) by (simp add: sample_four_error_ring_elements_def u wf_vector_def Let_def)
  show ?thesis
  proof (cases ?ref)
    case None
    then show ?thesis unfolding seeds using calculation def by (simp add: lanes_result_def)
  next
    case (Some L)
    then obtain state ls where loop: "?loop = Some (state, ls)" "length L = length ls"
      "\<And>j. j < length ls \<Longrightarrow> length (snd (snd (ls ! j))) = 263 \<and> take 256 (snd (snd (ls ! j))) = L ! j"
      using calculation by (auto simp: lanes_result_def)
    have L: "length L = 4" using those_length [OF Some] by simp
    define k where "k = min 4 (n - 4 * g)"
    have k: "(if n < 4 * g + 4 then n else 4 * g + 4) = 4 * g + k" "k \<le> 4" "4 * g + k \<le> n" using assms(3) by (auto simp: k_def)
    have w: "for_loop (4 * g) (4 * g + k) (\<lambda>i re. re[i := from_i32_array (map (snd \<circ> snd) ls ! (i mod 4)) (re ! i)]) re
        = slice_copy re (4 * g) (map (\<lambda>i. chunks 8 (L ! i)) [0..<k])"
      unfolding for_loop_shift
    proof (rule write_loop)
      fix i assume i: "i < k"
      have "wf_dsa_ring (re ! (4 * g + i))" using assms(2) i k(3) by (simp add: wf_vector_def list_all_length)
      moreover have "(4 * g + i) mod 4 = i" using i k(2) by simp
      ultimately show "from_i32_array (map (snd \<circ> snd) ls ! ((4 * g + i) mod 4)) (re ! (4 * g + i)) = chunks 8 (L ! i)"
        using loop(2,3) L i k(2) by (simp add: from_i32_array_long)
    qed (use assms(2) k(3) in \<open>simp add: wf_vector_def\<close>)
    also have "map (\<lambda>i. chunks 8 (L ! i)) [0..<k] = take (n - 4 * g) (map (chunks 8) L)"
      using map_nth_prefix [of k L "chunks 8"] L k(2) by (simp add: k_def min_def split: if_splits)
    finally have r: "sample_four_error_ring_elements eta seed start re = Some (slice_copy re (4 * g) (take (n - 4 * g) (map (chunks 8) L)))"
      unfolding def loop(1) k(1) by (simp add: comp_def)
    have "length l = 256" if "l \<in> set L" for l
      using those_member [OF Some that] rej_poly_values(1) unfolding rej_bounded_poly_def by blast
    then have "wf_vector n (slice_copy re (4 * g) (take (n - 4 * g) (map (chunks 8) L)))"
      using assms(2,3) by (intro wf_vector_slice_copy) (auto simp: list_all_iff wf_chunks dest!: in_set_takeD)
    then show ?thesis unfolding seeds Some using r by simp
  qed
qed

lemma sample_s1_and_s2_eq:
  assumes "length seed = 64" and "wf_vector n v" and "n \<le> 60000"
  shows "sample_s1_and_s2 eta seed v = map_option (\<lambda>L. take n (map (chunks 8) L))
    (those (map (\<lambda>i. rej_bounded_poly eta (add_error_domain_separator seed (word_of_nat i))) [0..<4 * ((n + 3) div 4)]))"
proof -
  let ?f = "\<lambda>i. rej_bounded_poly eta (add_error_domain_separator seed (word_of_nat i))"
  let ?step = "\<lambda>g v. sample_four_error_ring_elements eta seed (word_of_nat (4 * g)) v"
  have n: "length v = n" using assms(2) by (simp add: wf_vector_def)
  have "sample_s1_and_s2 eta seed v = for_option 0 ((n + 3) div 4) ?step v"
  proof (cases "n mod 4 = 0")
    case True
    then have "(n + 3) div 4 = n div 4" by presburger
    then show ?thesis using True by (simp add: sample_s1_and_s2_def n cong: option.case_cong)
  next
    case False
    then have "(n + 3) div 4 = Suc (n div 4)" and "n - n mod 4 = 4 * (n div 4)" by presburger (simp add: minus_mod_eq_mult_div)
    then show ?thesis using False by (simp add: sample_s1_and_s2_def n for_option_last)
  qed
  moreover have "case those (map ?f [0..<4 * ((n + 3) div 4)]) of None \<Rightarrow> for_option 0 ((n + 3) div 4) ?step v = None
    | Some L \<Rightarrow> \<exists>v'. for_option 0 ((n + 3) div 4) ?step v = Some v' \<and> wf_vector n v' \<and> v' = slice_copy v 0 (take n (map (chunks 8) L))"
  proof (rule group_loop [where I = "wf_vector n" and \<pi> = "\<lambda>v. v"])
    fix g \<sigma> assume g: "4 * g < n" and \<sigma>: "wf_vector n \<sigma>"
    show "case those (map ?f [4 * g..<4 * g + 4]) of None \<Rightarrow> ?step g \<sigma> = None
      | Some L \<Rightarrow> \<exists>\<sigma>'. ?step g \<sigma> = Some \<sigma>' \<and> wf_vector n \<sigma>' \<and> \<sigma>' = slice_copy \<sigma> (4 * g) (take (n - 4 * g) (map (chunks 8) L))"
      by (rule error_group [OF assms(1) \<sigma> g assms(3) refl])
  qed (use assms(2) n in auto)
  moreover have "slice_copy v 0 (take n (map (chunks 8) L)) = take n (map (chunks 8) L)" if "length L = 4 * ((n + 3) div 4)" for L :: "int list list"
  proof -
    have "n \<le> 4 * ((n + 3) div 4)" by presburger
    then show ?thesis using that n by (simp add: slice_copy_def)
  qed
  ultimately show ?thesis using those_length [of "map ?f [0..<4 * ((n + 3) div 4)]"] by (cases "those (map ?f [0..<4 * ((n + 3) div 4)])") auto
qed

lemma matrix_group:
  assumes "length seed = 32" and "wf_vector n M" and "4 * g < n"
    and "length rand_stack = 4" "\<And>r. r \<in> set rand_stack \<Longrightarrow> length r = 840" and "length tmp_stack = 4" "\<And>r. r \<in> set tmp_stack \<Longrightarrow> length r = 263"
  shows "case those (map (\<lambda>i. rej_ntt_poly (add_domain_separator seed (flat_xy i columns))) [4 * g..<4 * g + 4]) of
      None \<Rightarrow> sample_up_to_four_ring_elements_flat columns seed (4 * g) (min 4 (n - 4 * g)) (M, rand_stack, tmp_stack) = None
    | Some L \<Rightarrow> \<exists>M' rand' tmp'. sample_up_to_four_ring_elements_flat columns seed (4 * g) (min 4 (n - 4 * g)) (M, rand_stack, tmp_stack) = Some (M', rand', tmp')
        \<and> wf_vector n M' \<and> (length rand' = 4 \<and> (\<forall>r \<in> set rand'. length r = 840)) \<and> (length tmp' = 4 \<and> (\<forall>r \<in> set tmp'. length r = 263))
        \<and> M' = slice_copy M (4 * g) (take (n - 4 * g) (map (chunks 8) L))"
proof -
  let ?seeds = "map (\<lambda>k. add_domain_separator seed (flat_xy (4 * g + k) columns)) [0, 1, 2, 3]"
  have seeds: "map (\<lambda>i. rej_ntt_poly (add_domain_separator seed (flat_xy i columns))) [4 * g..<4 * g + 4] = map rej_ntt_poly ?seeds"
    by (simp add: four_upt)
  define sq where "sq = shake128x4_squeeze_first_five_blocks (shake128x4_init_absorb ?seeds) rand_stack"
  have sl: "length (add_domain_separator seed (flat_xy i columns)) = 34" for i using length_domain_separators(2) [of seed] assms(1) by simp
  have sls: "length s = 34" if "s \<in> set ?seeds" for s using that sl by (auto simp del: add_Suc_right)
  have four: "length rand_stack = length ?seeds" "length tmp_stack = length ?seeds" using assms(4,6) by simp_all
  note lanes = matrix_lanes [of ?seeds rand_stack tmp_stack, OF sls four(1) assms(5) four(2) assms(7), folded sq_def]
  have rand: "length (snd sq) = 4" "\<forall>r \<in> set (snd sq). length r = 840" using lanes(2,3) by auto
  have "lanes_result (those (map rej_ntt_poly ?seeds))
      (sampling_loop shake128x4_squeeze_next_block rejection_sample_less_than_field_modulus
        (fst sq, map2 (\<lambda>randomness out. rejection_sample_less_than_field_modulus randomness 0 out) (snd sq) tmp_stack))" (is "lanes_result ?ref ?loop")
    by (rule lanes(1))
  moreover have def: "sample_up_to_four_ring_elements_flat columns seed (4 * g) (min 4 (n - 4 * g)) (M, rand_stack, tmp_stack)
     = map_option (\<lambda>(state, ls). (for_loop 0 (min 4 (n - 4 * g)) (\<lambda>k M. M[4 * g + k := from_i32_array (map (snd \<circ> snd) ls ! k) (M ! (4 * g + k))]) M,
          snd sq, map (snd \<circ> snd) ls)) ?loop"
    by (simp add: sample_up_to_four_ring_elements_flat_def sq_def split_beta Let_def del: list.map)
  show ?thesis
  proof (cases ?ref)
    case None
    then show ?thesis unfolding seeds using calculation def by (simp add: lanes_result_def)
  next
    case (Some L)
    then obtain state ls where loop: "?loop = Some (state, ls)" "length L = length ls"
      "\<And>j. j < length ls \<Longrightarrow> length (snd (snd (ls ! j))) = 263 \<and> take 256 (snd (snd (ls ! j))) = L ! j"
      using calculation by (auto simp: lanes_result_def)
    have L: "length L = 4" using those_length [OF Some] by simp
    let ?k = "min 4 (n - 4 * g)"
    have w: "for_loop 0 ?k (\<lambda>k M. M[4 * g + k := from_i32_array (map (snd \<circ> snd) ls ! k) (M ! (4 * g + k))]) M
        = slice_copy M (4 * g) (map (\<lambda>i. chunks 8 (L ! i)) [0..<?k])"
    proof (rule write_loop)
      fix i assume i: "i < ?k"
      then have "4 * g + i < n" by auto
      then have "wf_dsa_ring (M ! (4 * g + i))" using assms(2) by (simp add: wf_vector_def list_all_length)
      then show "from_i32_array (map (snd \<circ> snd) ls ! i) (M ! (4 * g + i)) = chunks 8 (L ! i)"
        using loop(2,3) L i by (simp add: from_i32_array_long)
    qed (use assms(2,3) in \<open>simp add: wf_vector_def\<close>)
    also have "map (\<lambda>i. chunks 8 (L ! i)) [0..<?k] = take (n - 4 * g) (map (chunks 8) L)"
      using map_nth_prefix [of ?k L "chunks 8"] L by (simp add: min_def split: if_splits)
    finally have r: "sample_up_to_four_ring_elements_flat columns seed (4 * g) ?k (M, rand_stack, tmp_stack)
        = Some (slice_copy M (4 * g) (take (n - 4 * g) (map (chunks 8) L)), snd sq, map (snd \<circ> snd) ls)"
      unfolding def loop(1) by (simp add: comp_def)
    have "length l = 256" if "l \<in> set L" for l
      using those_member [OF Some that] rej_poly_values(1) unfolding rej_ntt_poly_def by blast
    then have "wf_vector n (slice_copy M (4 * g) (take (n - 4 * g) (map (chunks 8) L)))"
      using assms(2,3) by (intro wf_vector_slice_copy) (auto simp: list_all_iff wf_chunks dest!: in_set_takeD)
    moreover have "length (snd (snd x)) = 263" if "x \<in> set ls" for x using that loop(3) by (metis in_set_conv_nth)
    then have "length (map (snd \<circ> snd) ls) = 4" "\<forall>r \<in> set (map (snd \<circ> snd) ls). length r = 263"
      using loop(2) L by auto
    ultimately show ?thesis unfolding seeds Some using r rand by simp
  qed
qed

lemma matrix_flat_eq:
  assumes "length seed = 32" and "wf_vector n M"
  shows "matrix_flat columns seed M = map_option (\<lambda>L. take n (map (chunks 8) L))
    (those (map (\<lambda>i. rej_ntt_poly (add_domain_separator seed (flat_xy i columns))) [0..<4 * ((n + 3) div 4)]))"
proof -
  let ?f = "\<lambda>i. rej_ntt_poly (add_domain_separator seed (flat_xy i columns))"
  let ?step = "\<lambda>start_index (matrix, rand_stack, tmp_stack).
       let start_index = start_index * 4
       in if length matrix \<le> start_index then Some (matrix, rand_stack, tmp_stack)
          else let elements_requested = (if start_index + 4 \<le> length matrix then 4 else length matrix - start_index)
               in sample_up_to_four_ring_elements_flat columns seed start_index elements_requested (matrix, rand_stack, tmp_stack)"
  let ?s0 = "(M, replicate 4 (replicate 840 (0 :: u8)), replicate 4 (replicate 263 (0 :: i32)))"
  let ?I = "\<lambda>(M, rand, tmp). wf_vector n M \<and> (length rand = 4 \<and> (\<forall>r \<in> set rand. length (r :: u8 list) = 840)) \<and> (length tmp = 4 \<and> (\<forall>r \<in> set tmp. length (r :: i32 list) = 263))"
  have n: "length M = n" using assms(2) by (simp add: wf_vector_def)
  have loop: "case those (map ?f [0..<4 * ((n + 3) div 4)]) of None \<Rightarrow> for_option 0 ((n + 3) div 4) ?step ?s0 = None
    | Some L \<Rightarrow> \<exists>s'. for_option 0 ((n + 3) div 4) ?step ?s0 = Some s' \<and> ?I s' \<and> fst s' = slice_copy (fst ?s0) 0 (take n (map (chunks 8) L))"
  proof (rule group_loop [where I = ?I and \<pi> = fst and f = ?f and h = "chunks 8" and step = ?step and \<sigma>\<^sub>0 = ?s0 and n = n])
    fix g and \<sigma> :: "dsa_ring_element list \<times> u8 list list \<times> i32 list list" assume g: "4 * g < n" and I: "?I \<sigma>"
    obtain M rand tmp where \<sigma>: "\<sigma> = (M, rand, tmp)" by (rule prod_cases3)
    have "?step g \<sigma> = sample_up_to_four_ring_elements_flat columns seed (4 * g) (min 4 (n - 4 * g)) (M, rand, tmp)"
      using I g by (auto simp: \<sigma> wf_vector_def mult.commute min_def Let_def)
    then show "case those (map ?f [4 * g..<4 * g + 4]) of None \<Rightarrow> ?step g \<sigma> = None
      | Some L \<Rightarrow> \<exists>\<sigma>'. ?step g \<sigma> = Some \<sigma>' \<and> ?I \<sigma>' \<and> fst \<sigma>' = slice_copy (fst \<sigma>) (4 * g) (take (n - 4 * g) (map (chunks 8) L))"
      using matrix_group [OF assms(1) _ g, of M rand tmp columns] I unfolding \<sigma> by (fastforce split: option.splits)
  qed (use assms(2) n in auto)
  have flat: "matrix_flat columns seed M = map_option fst (for_option 0 ((n + 3) div 4) ?step ?s0)"
  proof (cases "n mod 4 = 0")
    case True
    then have e: "(n + 3) div 4 = n div 4" "n div 4 * 4 = n" by presburger+
    show ?thesis
    proof (cases "for_option 0 (n div 4) ?step ?s0")
      case None
      then show ?thesis unfolding matrix_flat_def n e(1) by (simp add: for_option_last)
    next
      case (Some s')
      then have "?I s'" using loop by (auto simp: e(1) split: option.splits)
      then have "?step (n div 4) s' = Some s'" by (cases s') (auto simp: wf_vector_def e(2))
      then show ?thesis unfolding matrix_flat_def n e(1) using Some by (simp add: for_option_last)
    qed
  next
    case False
    then have "(n + 3) div 4 = n div 4 + 1" by presburger
    then show ?thesis unfolding matrix_flat_def n by simp
  qed
  have "slice_copy M 0 (take n (map (chunks 8) L)) = take n (map (chunks 8) L)" if "length L = 4 * ((n + 3) div 4)" for L :: "int list list"
  proof -
    have "n \<le> 4 * ((n + 3) div 4)" by presburger
    then show ?thesis using that n by (simp add: slice_copy_def)
  qed
  with loop show ?thesis unfolding flat using those_length [of "map ?f [0..<4 * ((n + 3) div 4)]"] by (cases "those (map ?f [0..<4 * ((n + 3) div 4)])") auto
qed

subsection \<open>Ranges of the sampled coefficients\<close>

definition eta_value :: "eta \<Rightarrow> int" where
  "eta_value eta = (case eta of Eta_Two \<Rightarrow> 2 | Eta_Four \<Rightarrow> 4)"

lemma dsa_bounded_chunks: "length xs = 256 \<Longrightarrow> (\<And>x. x \<in> set xs \<Longrightarrow> \<bar>x\<bar> \<le> B) \<Longrightarrow> dsa_bounded B (chunks 8 xs)"
  using wf_chunks [of xs] concat_chunks [of 8 xs] by (simp add: dsa_bounded_def list_all_iff)

lemma coeff_from_byte_range: "x \<in> set (coeff_from_byte eta bs) \<Longrightarrow> \<bar>x\<bar> \<le> eta_value eta"
  by (cases eta) (auto simp: coeff_from_byte_def coeff_from_half_byte_def eta_value_def uint_nonnegative abs_le_iff pos_imp_zdiv_nonneg_iff split: if_splits)

lemma coeff_from_three_bytes_range: "x \<in> set (coeff_from_three_bytes bs) \<Longrightarrow> \<bar>x\<bar> \<le> 8380416"
  by (auto simp: coeff_from_three_bytes_def Let_def uint_nonnegative split: if_splits)

lemma take_chunks_vector:
  assumes "those (map f [0..<m]) = Some L" and "n \<le> m" and "\<And>i a. f i = Some a \<Longrightarrow> length a = 256 \<and> (\<forall>x \<in> set a. \<bar>x\<bar> \<le> B)"
  shows "dsa_vector n B (take n (map (chunks 8) L))"
proof -
  have "dsa_bounded B (chunks 8 l)" if "l \<in> set L" for l
    using those_member [OF assms(1) that] assms(3) by (intro dsa_bounded_chunks) auto
  then show ?thesis using those_length [OF assms(1)] assms(2) by (auto simp: dsa_vector_def take_map dest: in_set_takeD)
qed

lemma sample_s1_and_s2_values:
  assumes "length seed = 64" and "wf_vector n v" and "n \<le> 60000" and "sample_s1_and_s2 eta seed v = Some s"
  shows "dsa_vector n (eta_value eta) s"
proof -
  have "length a = 256 \<and> (\<forall>x \<in> set a. \<bar>x\<bar> \<le> eta_value eta)" if "rej_bounded_poly eta t = Some a" for t a
    using rej_poly_values(1) [OF that [unfolded rej_bounded_poly_def]]
      rej_poly_values(2) [OF that [unfolded rej_bounded_poly_def], of "\<lambda>x. \<bar>x\<bar> \<le> eta_value eta"] coeff_from_byte_range by metis
  moreover have "n \<le> 4 * ((n + 3) div 4)" by presburger
  moreover obtain L where L: "those (map (\<lambda>i. rej_bounded_poly eta (add_error_domain_separator seed (word_of_nat i))) [0..<4 * ((n + 3) div 4)]) = Some L"
    and s: "s = take n (map (chunks 8) L)"
    using assms(4) unfolding sample_s1_and_s2_eq [OF assms(1-3)] by (auto simp only: map_option_eq_Some)
  ultimately show ?thesis unfolding s by (intro take_chunks_vector [OF L])
qed

lemma matrix_flat_values:
  assumes "length seed = 32" and "wf_vector n M" and "matrix_flat columns seed M = Some a"
  shows "dsa_vector n 8380416 a"
proof -
  have "length a = 256 \<and> (\<forall>x \<in> set a. \<bar>x\<bar> \<le> 8380416)" if "rej_ntt_poly t = Some a" for t a
    using rej_poly_values(1) [OF that [unfolded rej_ntt_poly_def]]
      rej_poly_values(2) [OF that [unfolded rej_ntt_poly_def], of "\<lambda>x. \<bar>x\<bar> \<le> 8380416"] coeff_from_three_bytes_range by metis
  moreover have "n \<le> 4 * ((n + 3) div 4)" by presburger
  moreover obtain L where L: "those (map (\<lambda>i. rej_ntt_poly (add_domain_separator seed (flat_xy i columns))) [0..<4 * ((n + 3) div 4)]) = Some L"
    and a: "a = take n (map (chunks 8) L)"
    using assms(3) unfolding matrix_flat_eq [OF assms(1,2)] by (auto simp only: map_option_eq_Some)
  ultimately show ?thesis unfolding a by (intro take_chunks_vector [OF L])
qed

text \<open>The seeds of the polynomials: the index as two bytes in little-endian order, and the column and the row.\<close>

lemma domain_separators_eq:
  "length seed = 64 \<Longrightarrow> add_error_domain_separator seed i = seed @ [ucast i, ucast (drop_bit 8 i)]"
  "length seed = 32 \<Longrightarrow> add_domain_separator seed (row, column) = seed @ [column, row]"
proof -
  have two: "replicate 2 (0 :: u8) = [0, 0]" by (simp add: numeral_2_eq_2)
  show "length seed = 64 \<Longrightarrow> add_error_domain_separator seed i = seed @ [ucast i, ucast (drop_bit 8 i)]"
    by (simp add: add_error_domain_separator_def slice_copy_def two list_update_append)
  have "ucast (ucast column OR push_bit 8 (ucast row) :: u16) = column" "ucast (drop_bit 8 (ucast column OR push_bit 8 (ucast row) :: u16)) = row"
    by (rule bit_word_eqI; auto simp: bit_simps dest: bit_imp_le_length)+
  then show "length seed = 32 \<Longrightarrow> add_domain_separator seed (row, column) = seed @ [column, row]"
    by (simp add: add_domain_separator_def generate_domain_separator_def slice_copy_def two list_update_append)
qed

subsection \<open>The mask\<close>

lemma gamma1_decode_vector:
  assumes "e = 17 \<or> e = 19" and "length bs = 32 * (e + 1)"
  shows "dsa_bounded (2 ^ e) (chunks 8 (gamma1_decode e bs))"
proof (rule dsa_bounded_chunks)
  note d = bit_pack.decode_concat [OF gamma1_pack [OF assms(1)] assms(2)]
  show "length (gamma1_decode e bs) = 256" using d(2) by simp
  show "\<bar>x\<bar> \<le> 2 ^ e" if "x \<in> set (gamma1_decode e bs)" for x
    using that d(3) by (auto simp: coeffs_in_def list_all_iff abs_le_iff)
qed

lemma sample_mask_vector_values:
  assumes "e = 17 \<or> e = 19" and "4 \<le> n" and "wf_vector n v"
  obtains ds mask where "sample_mask_vector n e seed d v = Some (ds, mask)" and "dsa_vector n (2 ^ e) mask"
proof -
  let ?step = "\<lambda>i (ds, mask). let seed4 = add_error_domain_separator seed ds; ds = ds + 1
      in map_option (\<lambda>re. (ds, mask[i := re])) (sample_mask_ring_element seed4 (mask ! i) e)"
  have ring: "\<exists>re'. ring_gamma1_deserialize e bs re = Some re' \<and> dsa_bounded (2 ^ e) re'" if "wf_dsa_ring re" "length bs = 32 * (e + 1)" for bs re
    using ring_gamma1_deserialize_eq [OF assms(1) that(2,1)] gamma1_decode_vector [OF assms(1) that(2)] by simp
  have elem: "\<exists>re'. sample_mask_ring_element s re e = Some re' \<and> dsa_bounded (2 ^ e) re'" if "wf_dsa_ring re" for s re
    using ring [OF that] assms(1) by (auto simp: sample_mask_ring_element_def shake_eqs)
  let ?J = "\<lambda>k v. length v = n \<and> (\<forall>i < k. dsa_bounded (2 ^ e) (v ! i)) \<and> (\<forall>i < n. wf_dsa_ring (v ! i))"
  have upd: "?J (Suc k) (v[k := re])" if "?J k v" "dsa_bounded (2 ^ e) re" "k < n" for k v re
    using that dsa_bounded_wf by (auto simp: nth_list_update less_Suc_eq)
  have first: "\<exists>v'. for_option 0 k (\<lambda>i v. map_option (\<lambda>re. v[i := re]) (ring_gamma1_deserialize e (outs ! i) (v ! i))) v = Some v' \<and> ?J k v'"
    if "\<And>i. i < k \<Longrightarrow> length (outs ! i) = 32 * (e + 1)" "k \<le> n" for k and outs :: "u8 list list"
    using that
  proof (induction k)
    case 0
    then show ?case using assms(3) by (simp add: wf_vector_def list_all_length for_option_def)
  next
    case (Suc k)
    then obtain v' where v': "for_option 0 k (\<lambda>i v. map_option (\<lambda>re. v[i := re]) (ring_gamma1_deserialize e (outs ! i) (v ! i))) v = Some v'" "?J k v'" by auto
    then show ?case using ring [of "v' ! k" "outs ! k"] Suc.prems upd [of v' k] by (auto simp: for_option_last)
  qed
  have second: "\<exists>ds' v'. for_option 4 k ?step (ds, v) = Some (ds', v') \<and> ?J k v'" if "?J 4 v" "4 \<le> k" "k \<le> n" for k ds v
    using that(2,3)
  proof (induction k rule: dec_induct)
    case base
    then show ?case using that(1) by (auto simp: for_option_def)
  next
    case (step k)
    then obtain ds' v' where v': "for_option 4 k ?step (ds, v) = Some (ds', v')" "?J k v'" by auto
    then show ?case using elem [of "v' ! k" "add_error_domain_separator seed ds'"] step upd [of v' k] by (auto simp: for_option_last)
  qed
  let ?outs = "shake256x4 (32 * (e + 1)) [add_error_domain_separator seed d, add_error_domain_separator seed (d + 1),
                   add_error_domain_separator seed (d + 2), add_error_domain_separator seed (d + 3)]"
  have "length (?outs ! i) = 32 * (e + 1)" if "i < 4" for i
    using that by (simp add: shake256x4_def shake_eqs nth_Cons' split: if_splits)
  then obtain v4 where v4: "for_option 0 4 (\<lambda>i v. map_option (\<lambda>re. v[i := re]) (ring_gamma1_deserialize e (?outs ! i) (v ! i))) v = Some v4" "?J 4 v4"
    using first [of 4 ?outs] assms(2) by auto
  then obtain ds v' where "for_option 4 n ?step (d + 4, v4) = Some (ds, v')" "?J n v'" using second [of v4 n "d + 4"] assms(2) by auto
  then show ?thesis using v4(1) assms(1) by (intro that [of ds v'] dsa_vectorI) (auto simp: sample_mask_vector_def Let_def)
qed

subsection \<open>The challenge\<close>

definition wf_shuffle :: "i32 list \<Rightarrow> bool" where
  "wf_shuffle result \<longleftrightarrow> length result = 256 \<and> (\<forall>x \<in> set result. \<bar>x\<bar> \<le> 1)"

lemma wf_shuffle_step:
  fixes byte :: u8 and signs :: u64
  assumes "wf_shuffle result"
  shows "wf_shuffle ((result[k := result ! unat byte])[unat byte := 1 - 2 * uint (signs AND 1)])"
proof -
  have "uint (signs AND 1) = uint signs mod 2" unfolding unsigned_and_eq by (simp add: and_one_eq)
  then have "\<bar>1 - 2 * uint (signs AND 1)\<bar> \<le> 1" by presburger
  moreover have "result ! unat byte \<in> set result" using assms unat_u8_less [of byte] by (simp add: wf_shuffle_def)
  ultimately show ?thesis using assms set_update_subset_insert [of "result[k := result ! unat byte]"] set_update_subset_insert [of result]
    by (fastforce simp: wf_shuffle_def)
qed

lemma inside_out_shuffle_wf:
  assumes "wf_shuffle result"
  shows "wf_shuffle (snd (snd (snd (inside_out_shuffle randomness out_index signs result))))"
  unfolding inside_out_shuffle_def
  by (rule for_loop_invariant [where P = "\<lambda>_ s. wf_shuffle (snd (snd (snd s)))"]) (use assms wf_shuffle_step in \<open>auto simp: Let_def\<close>)

lemma sample_challenge_values:
  assumes "sample_challenge_ring_element seed tau re = Some c" and "wf_dsa_ring re"
  shows "dsa_bounded 1 c"
proof -
  have wf0: "wf_shuffle (replicate 256 0)" by (simp add: wf_shuffle_def)
  obtain s where w: "while_option (\<lambda>(state, done, _). \<not> done)
       (\<lambda>(state, done, out_index, signs, result).
          let (state, randomness) = shake256_squeeze_next_block state (replicate 136 0)
          in (state, inside_out_shuffle randomness out_index signs result))
       (shake256_absorb_final shake256_init seed,
        inside_out_shuffle (drop 8 (shake256_squeeze_first_block (shake256_absorb_final shake256_init seed) (replicate 136 0))) (256 - tau)
          (from_le_bytes (subslice (shake256_squeeze_first_block (shake256_absorb_final shake256_init seed) (replicate 136 0)) 0 8)) (replicate 256 0)) = Some s"
    and c: "c = from_i32_array (snd (snd (snd (snd s)))) re"
    using assms(1) by (auto simp: sample_challenge_ring_element_def Let_def)
  have "wf_shuffle (snd (snd (snd (snd s))))"
    by (rule while_option_rule [where P = "\<lambda>s. wf_shuffle (snd (snd (snd (snd s))))", OF _ w])
      (use inside_out_shuffle_wf wf0 in \<open>auto simp: Let_def split_beta\<close>)
  then show ?thesis using from_i32_array_eq [OF _ assms(2)] unfolding c by (simp add: wf_shuffle_def dsa_bounded_chunks)
qed

subsection \<open>Properties\<close>

text \<open>
  C39. For every 32-byte seed and every \<open>n\<close>, the expansion of \<open>n\<close> matrix entries returns exactly when the rejection sampler of FIPS 204 (three bytes of a SHAKE128 stream at a
  time) returns on the seed extended by the column and the row of \<open>i\<close>, for every index \<open>i\<close> below \<open>n\<close> rounded up to a multiple of four: the code samples in groups of four and
  waits for all four lanes, so it also needs the up to three padding streams past the last entry (two for ML-DSA-65, none for the other two sets). Then the entries are the first
  \<open>n\<close> results of the reference, with coefficients of absolute value less than \<open>q\<close>. Buffered reading of five blocks, the surplus coefficients of a step and the joint loop
  on four streams are not observable otherwise.
\<close>

theorem dsa_matrix_sampling_correct:
  assumes "length seed = 32"
  shows "matrix_flat columns seed (replicate n dsa_polynomial_zero) = map_option (\<lambda>L. take n (map (chunks 8) L))
      (those (map (\<lambda>i. rej_ntt_poly (seed @ [word_of_nat (i mod columns), word_of_nat (i div columns)])) [0..<4 * ((n + 3) div 4)]))
    \<and> (case matrix_flat columns seed (replicate n dsa_polynomial_zero) of None \<Rightarrow> True | Some a \<Rightarrow> dsa_vector n 8380416 a)"
  using matrix_flat_eq [OF assms wf_vector_zero, of columns n] matrix_flat_values [OF assms wf_vector_zero, of columns n] domain_separators_eq(2) [OF assms]
  by (simp add: flat_xy_def split: option.split)

theorem dsa_matrix_sampling_correct_witness:
  "matrix_flat 5 (replicate 32 7) (replicate 30 dsa_polynomial_zero) = map_option (\<lambda>L. take 30 (map (chunks 8) L))
     (those (map (\<lambda>i. rej_ntt_poly (replicate 32 7 @ [word_of_nat (i mod 5), word_of_nat (i div 5)])) [0..<32]))"
  using dsa_matrix_sampling_correct [of "replicate 32 7" 5 30] by simp

text \<open>
  C40. For every 64-byte seed and at most 60000 polynomials (indices are 16-bit words), the sampling of \<open>n\<close> secret polynomials returns exactly when the bounded rejection
  sampler of FIPS 204 (two half bytes of a SHAKE256 stream at a time) returns on the seed extended by the 16-bit index \<open>i\<close>, for every \<open>i\<close> below \<open>n\<close> rounded up to a multiple
  of four: like the matrix, the polynomials are sampled in groups of four, and the code waits for the up to three padding streams past the last one (one for ML-DSA-65 and for
  ML-DSA-87, none for ML-DSA-44). Then the polynomials are the first \<open>n\<close> results of the reference and their coefficients are at most eta in absolute value.
\<close>

theorem dsa_secret_sampling_correct:
  assumes "length seed = 64" and "n \<le> 60000"
  shows "sample_s1_and_s2 eta seed (replicate n dsa_polynomial_zero) = map_option (\<lambda>L. take n (map (chunks 8) L))
      (those (map (\<lambda>i. rej_bounded_poly eta (seed @ [word_of_nat i, word_of_nat (i div 256)])) [0..<4 * ((n + 3) div 4)]))
    \<and> (case sample_s1_and_s2 eta seed (replicate n dsa_polynomial_zero) of None \<Rightarrow> True | Some s \<Rightarrow> dsa_vector n (eta_value eta) s)"
proof -
  have "add_error_domain_separator seed (word_of_nat i) = seed @ [word_of_nat i, word_of_nat (i div 256)]" if "i < 4 * ((n + 3) div 4)" for i
  proof -
    have "i < 2 ^ 16" using that assms(2) by simp
    then have "unat (word_of_nat i :: u16) = i" by (simp add: unat_of_nat take_bit_nat_eq_self)
    then have "ucast (word_of_nat i :: u16) = (word_of_nat i :: u8)" and "ucast (drop_bit 8 (word_of_nat i :: u16)) = (word_of_nat (i div 256) :: u8)"
      by (simp_all add: word_unat_eq_iff unsigned_ucast_eq drop_bit_eq_div unat_div_distrib unat_of_nat take_bit_eq_mod)
    then show ?thesis using domain_separators_eq(1) [OF assms(1)] by simp
  qed
  then have m: "map (\<lambda>i. rej_bounded_poly eta (add_error_domain_separator seed (word_of_nat i))) [0..<4 * ((n + 3) div 4)]
      = map (\<lambda>i. rej_bounded_poly eta (seed @ [word_of_nat i, word_of_nat (i div 256)])) [0..<4 * ((n + 3) div 4)]" by simp
  show ?thesis
    using sample_s1_and_s2_eq [OF assms(1) wf_vector_zero assms(2), of eta, unfolded m] sample_s1_and_s2_values [OF assms(1) wf_vector_zero assms(2), of eta]
    by (auto split: option.split)
qed

theorem dsa_secret_sampling_correct_witness:
  "sample_s1_and_s2 Eta_Four (replicate 64 9) (replicate 11 dsa_polynomial_zero) = map_option (\<lambda>L. take 11 (map (chunks 8) L))
     (those (map (\<lambda>i. rej_bounded_poly Eta_Four (replicate 64 9 @ [word_of_nat i, word_of_nat (i div 256)])) [0..<12]))"
  using dsa_secret_sampling_correct [of "replicate 64 9" 11 Eta_Four] by simp

end
