(* ===== verification/MLDSA_Algebra.thy ===== *)
theory MLDSA_Algebra
  imports MLDSA_RingArith
begin

section \<open>ML-DSA: ring elements in the transformed domain\<close>

text \<open>
  \<open>dsa_hat re k\<close> is coefficient \<open>k\<close> of the reference transform of a ring element. The lemmas make every equation between ring elements
  an equation between integers modulo 8380417, coefficient by coefficient: the code's transform computes \<open>dsa_hat\<close>, the code's inverse transform is undone by it,
  \<open>dsa_hat\<close> is linear, and ring elements with equal \<open>dsa_hat\<close> are equal modulo 8380417. The product of the code is the product modulo \<open>X^256 + 1\<close>.
\<close>

subsection \<open>Transformed coefficients\<close>

definition dsa_hat :: "dsa_ring_element \<Rightarrow> nat \<Rightarrow> int" where
  "dsa_hat re k = dsa_NTT (dsa_modq (concat re)) ! k"

lemma dsa_modq_nth: "wf_dsa_ring re \<Longrightarrow> k < 256 \<Longrightarrow> dsa_modq (concat re) ! k = dsa_coeff re k mod 8380417"
  by (simp add: residues_def dsa_coeff_def length_concat_ring)

lemma dsa_field_list_modq: "wf_dsa_ring re \<Longrightarrow> dsa_field_list (dsa_modq (concat re))"
  by (simp add: dsa_field_list_def length_concat_ring list_all_iff residues_def)

lemma dsa_hat_linear:
  assumes "wf_dsa_ring a" "wf_dsa_ring b" "wf_dsa_ring c"
    and "\<And>k. k < 256 \<Longrightarrow> dsa_cong (dsa_coeff c k) (\<alpha> * dsa_coeff a k + \<beta> * dsa_coeff b k)" and "k < 256"
  shows "dsa_cong (dsa_hat c k) (\<alpha> * dsa_hat a k + \<beta> * dsa_hat b k)"
proof -
  have "linear_mod 8380417 \<alpha> \<beta> (dsa_modq (concat c)) (dsa_modq (concat a)) (dsa_modq (concat b))"
    unfolding linear_mod_def
  proof (intro allI impI)
    fix i :: nat assume i: "i < 256"
    have "dsa_cong (dsa_coeff c i mod 8380417) (\<alpha> * dsa_coeff a i + \<beta> * dsa_coeff b i)"
      using assms(4) [OF i] cong_mod_mod cong_mod_trans by blast
    moreover have "dsa_cong (\<alpha> * dsa_coeff a i + \<beta> * dsa_coeff b i) (\<alpha> * (dsa_coeff a i mod 8380417) + \<beta> * (dsa_coeff b i mod 8380417))"
      by (intro cong_mod_add cong_mod_mult cong_mod_refl cong_mod_sym [OF cong_mod_mod])
    ultimately show "dsa_cong (dsa_modq (concat c) ! i) (\<alpha> * dsa_modq (concat a) ! i + \<beta> * dsa_modq (concat b) ! i)"
      unfolding dsa_modq_nth [OF assms(1) i] dsa_modq_nth [OF assms(2) i] dsa_modq_nth [OF assms(3) i] by (rule cong_mod_trans)
  qed
  from transform_linear [OF this, of 8 dsa_zeta_spec] assms(5) show ?thesis
    by (simp add: linear_mod_def dsa_hat_def dsa_NTT_transform)
qed

lemma dsa_hat_cong:
  assumes "wf_dsa_ring a" "wf_dsa_ring b" and "\<And>k. k < 256 \<Longrightarrow> dsa_cong (dsa_coeff a k) (dsa_coeff b k)" and "k < 256"
  shows "dsa_cong (dsa_hat a k) (dsa_hat b k)"
  using dsa_hat_linear [OF assms(2,2,1), of 1 0 k] assms(3,4) by simp

lemma length_dsa_NTT: "length p = 256 \<Longrightarrow> length (dsa_NTT p) = 256"
  by (simp add: dsa_NTT_transform)

lemma transform_Suc_mod: "x \<in> set (transform q z (Suc j) p) \<Longrightarrow> x mod q = x"
  by (auto simp: transform_layer_def layer_map_def)

lemma dsa_hat_range:
  assumes "wf_dsa_ring re" and "k < 256"
  shows "dsa_hat re k mod 8380417 = dsa_hat re k"
proof -
  have "dsa_hat re k \<in> set (dsa_NTT (dsa_modq (concat re)))"
    unfolding dsa_hat_def by (rule nth_mem) (simp add: length_dsa_NTT length_concat_ring assms(1,2))
  then show ?thesis
    using transform_Suc_mod [of "dsa_hat re k" 8380417 dsa_zeta_spec 7] by (simp only: dsa_NTT_transform Suc_numeral semiring_norm)
qed

lemma dsa_hat_inject:
  assumes "wf_dsa_ring a" "wf_dsa_ring b" and "\<And>k. k < 256 \<Longrightarrow> dsa_cong (dsa_hat a k) (dsa_hat b k)" and "k < 256"
  shows "dsa_cong (dsa_coeff a k) (dsa_coeff b k)"
proof -
  note p = dsa_field_list_modq [OF assms(1)] dsa_field_list_modq [OF assms(2)]
  have "dsa_NTT (dsa_modq (concat a)) = dsa_NTT (dsa_modq (concat b))"
  proof (rule nth_equalityI)
    fix i assume "i < length (dsa_NTT (dsa_modq (concat a)))"
    then have i: "i < 256" by (simp add: length_dsa_NTT length_concat_ring assms(1,2))
    have "dsa_hat a i = dsa_hat b i" using assms(3) [OF i] dsa_hat_range [OF assms(1) i] dsa_hat_range [OF assms(2) i] unfolding cong_mod_def by (rule box_equals)
    then show "dsa_NTT (dsa_modq (concat a)) ! i = dsa_NTT (dsa_modq (concat b)) ! i" by (simp add: dsa_hat_def)
  qed (simp add: length_dsa_NTT length_concat_ring assms(1,2))
  then have "dsa_modq (concat a) = dsa_modq (concat b)" using dsa_NTT_inverses(1) [OF p(1)] dsa_NTT_inverses(1) [OF p(2)] by metis
  then show ?thesis using dsa_modq_nth [OF assms(1,4)] dsa_modq_nth [OF assms(2,4)] unfolding cong_mod_def by metis
qed

lemma dsa_ntt_values:
  assumes "dsa_bounded B re" and "B \<le> 2080440319"
  shows "dsa_bounded (B + 67043328) (dsa_ntt re)" and "k < 256 \<Longrightarrow> dsa_cong (dsa_coeff (dsa_ntt re) k) (dsa_hat re k)"
proof -
  note r = dsa_ntt_refines [OF assms]
  show "dsa_bounded (B + 67043328) (dsa_ntt re)" by (rule r(2))
  show "k < 256 \<Longrightarrow> dsa_cong (dsa_coeff (dsa_ntt re) k) (dsa_hat re k)"
    using dsa_modq_nth [OF dsa_bounded_wf [OF r(2)], of k] by (simp add: r(1) dsa_hat_def cong_mod_def)
qed

lemma dsa_invert_values:
  assumes "dsa_bounded 8380416 re"
  shows "dsa_bounded 4211177 (dsa_invert_ntt_montgomery re)"
    and "k < 256 \<Longrightarrow> dsa_cong (dsa_hat (dsa_invert_ntt_montgomery re) k) (4193792 * dsa_coeff re k)"
proof -
  note r = dsa_invert_ntt_refines [OF assms]
  note p = dsa_field_list_modq [OF dsa_bounded_wf [OF assms]]
  show "dsa_bounded 4211177 (dsa_invert_ntt_montgomery re)" by (rule r(2))
  have l: "length (dsa_NTT_inverse (dsa_modq (concat re))) = 256" using p by (simp add: dsa_field_list_def dsa_NTT_transform)
  have "dsa_NTT (dsa_modq (concat (dsa_invert_ntt_montgomery re))) = scale_mod 8380417 4193792 (dsa_modq (concat re))"
    unfolding r(1) dsa_NTT_transform(1) transforms_scale(1) [OF l order_refl] unfolding dsa_NTT_transform(1) [symmetric] dsa_NTT_inverses(2) [OF p] ..
  then show "k < 256 \<Longrightarrow> dsa_cong (dsa_hat (dsa_invert_ntt_montgomery re) k) (4193792 * dsa_coeff re k)"
    using dsa_modq_nth [OF dsa_bounded_wf [OF assms], of k] p
    by (simp add: dsa_hat_def scale_mod_def dsa_field_list_def cong_mod_def mod_simps)
qed

subsection \<open>Products\<close>

lemma dsa_hat_product:
  assumes "dsa_bounded A a" and "dsa_bounded B b" and "A * B \<le> 2147483648 * 8380416" and "k < 256"
  shows "dsa_cong (dsa_hat (dsa_invert_ntt_montgomery (dsa_ntt_multiply_montgomery a b)) k) (dsa_coeff a k * dsa_coeff b k)"
proof -
  note m = dsa_multiply_values [OF assms(1,2,3)]
  note dsa_invert_values(2) [OF m(1) assms(4)]
  also have "dsa_cong (4193792 * dsa_coeff (dsa_ntt_multiply_montgomery a b) k) (4193792 * (dsa_coeff a k * dsa_coeff b k * 8265825))"
    by (intro cong_mod_mult cong_mod_refl m(2) assms(4))
  also have "dsa_cong \<dots> (dsa_coeff a k * dsa_coeff b k)"
    by (rule cong_mod_multiple [where k = "dsa_coeff a k * dsa_coeff b k * 4136447"]) simp
  finally show ?thesis .
qed

text \<open>
  C37. Products of ring elements: transforming two ring elements of \<open>int32_t\<close> coefficients up to the field modulus, multiplying them coefficient by
  coefficient and transforming back gives the product modulo \<open>X^256 + 1\<close> and modulo 8380417, with all coefficients of absolute value at most 4211177.
\<close>

theorem dsa_product_correct:
  assumes "dsa_bounded 8380416 a" and "dsa_bounded 8380416 b"
  shows "dsa_modq (concat (dsa_invert_ntt_montgomery (dsa_ntt_multiply_montgomery (dsa_ntt a) (dsa_ntt b))))
      = dsa_ring_mul (dsa_modq (concat a)) (dsa_modq (concat b))
    \<and> dsa_bounded 4211177 (dsa_invert_ntt_montgomery (dsa_ntt_multiply_montgomery (dsa_ntt a) (dsa_ntt b)))"
proof -
  define r where "r = dsa_invert_ntt_montgomery (dsa_ntt_multiply_montgomery (dsa_ntt a) (dsa_ntt b))"
  note na = dsa_ntt_values [OF assms(1)] and nb = dsa_ntt_values [OF assms(2)]
  note m = dsa_multiply_values [OF na(1) nb(1)]
  have r: "dsa_bounded 4211177 r" unfolding r_def by (intro dsa_invert_values m) simp_all
  have "dsa_cong (dsa_hat r k) (dsa_hat a k * dsa_hat b k)" if k: "k < 256" for k
    unfolding r_def using na(2) [OF _ k] nb(2) [OF _ k]
    by (intro cong_mod_trans [OF dsa_hat_product [OF na(1) nb(1) _ k]] cong_mod_mult) simp_all
  then have "dsa_NTT (dsa_modq (concat r)) ! k = dsa_multiply_ntts (dsa_NTT (dsa_modq (concat a))) (dsa_NTT (dsa_modq (concat b))) ! k"
    if "k < 256" for k
    using that dsa_hat_range [OF dsa_bounded_wf [OF r] that] dsa_bounded_wf [OF assms(1)] dsa_bounded_wf [OF assms(2)]
    by (simp add: dsa_multiply_ntts_def cong_mod_def dsa_hat_def length_dsa_NTT length_concat_ring)
  then have "dsa_NTT (dsa_modq (concat r)) = dsa_NTT (dsa_ring_mul (dsa_modq (concat a)) (dsa_modq (concat b)))"
    by (simp add: dsa_NTT_ring_mul dsa_bounded_wf [OF assms(1)] dsa_bounded_wf [OF assms(2)] dsa_bounded_wf [OF r] length_concat_ring
        list_eq_iff_nth_eq length_dsa_NTT dsa_multiply_ntts_def)
  moreover have "dsa_field_list (dsa_ring_mul (dsa_modq (concat a)) (dsa_modq (concat b)))"
    by (auto simp: dsa_field_list_def dsa_ring_mul_def list_all_iff block_product_def)
  ultimately have "dsa_modq (concat r) = dsa_ring_mul (dsa_modq (concat a)) (dsa_modq (concat b))"
    using dsa_NTT_inverses(1) dsa_field_list_modq [OF dsa_bounded_wf [OF r]] by metis
  then show ?thesis using r by (simp add: r_def)
qed

theorem dsa_product_correct_witness:
  "dsa_modq (concat (dsa_invert_ntt_montgomery (dsa_ntt_multiply_montgomery
      (dsa_ntt (replicate 32 [1, 2, 3, 4, 5, 6, 7, 8])) (dsa_ntt (replicate 32 (replicate 8 (- 8380416)))))))
    = dsa_ring_mul (dsa_modq (concat (replicate 32 [1, 2, 3, 4, 5, 6, 7, 8]))) (dsa_modq (concat (replicate 32 (replicate 8 (- 8380416)))))"
  using dsa_product_correct [of "replicate 32 [1, 2, 3, 4, 5, 6, 7, 8]" "replicate 32 (replicate 8 (- 8380416))"]
  by (simp add: dsa_bounded_def wf_dsa_ring_def list_all_iff)

text \<open>
  C38. The transforms: on coefficients of absolute value at most 2080440319 the forward transform computes the transform of FIPS 204 modulo 8380417, and on coefficients below
  the field modulus the inverse transform computes the inverse transform of FIPS 204 times \<open>2^32\<close>, the Montgomery factor that a preceding product takes
  away. No intermediate value leaves the range of \<open>int32_t\<close>.
\<close>

theorem dsa_ntt_correct:
  assumes "dsa_bounded 2080440319 a" and "dsa_bounded 8380416 b"
  shows "dsa_modq (concat (dsa_ntt a)) = dsa_NTT (dsa_modq (concat a)) \<and> dsa_bounded 2147483647 (dsa_ntt a)
    \<and> dsa_modq (concat (dsa_invert_ntt_montgomery b)) = map (\<lambda>x. (2 ^ 32 * x) mod 8380417) (dsa_NTT_inverse (dsa_modq (concat b)))
    \<and> dsa_bounded 4211177 (dsa_invert_ntt_montgomery b)"
proof -
  have "(4193792 * x) mod 8380417 = (2 ^ 32 * x) mod 8380417" for x :: int
    using cong_mod_mult [of 8380417 4193792 "2 ^ 32" x x] by (simp add: cong_mod_def)
  then show ?thesis using dsa_ntt_refines [OF assms(1)] dsa_invert_ntt_refines [OF assms(2)] by (simp add: scale_mod_def)
qed

theorem dsa_ntt_correct_witness:
  "dsa_modq (concat (dsa_ntt (replicate 32 [1, 2, 3, 4, 5, 6, 7, 2080440319])))
    = dsa_NTT (dsa_modq (concat (replicate 32 [1, 2, 3, 4, 5, 6, 7, 2080440319])))
  \<and> dsa_bounded 4211177 (dsa_invert_ntt_montgomery (replicate 32 (replicate 8 (- 8380416))))"
  using dsa_ntt_correct [of "replicate 32 [1, 2, 3, 4, 5, 6, 7, 2080440319]" "replicate 32 (replicate 8 (- 8380416))"]
  by (simp add: dsa_bounded_def wf_dsa_ring_def list_all_iff)

end
