(* ===== verification/MLDSA_MatrixCorrect.thy ===== *)
theory MLDSA_MatrixCorrect
  imports MLDSA_Algebra MLDSA_Hints
begin

section \<open>ML-DSA: products with the matrix\<close>

text \<open>
  The three products with the matrix, in the transformed domain: row \<open>i\<close> of the result is the sum over the columns of the products of
  the entries, for up to seven columns without overflow. The entries of the matrix are already in the transformed domain, as the code samples them.
\<close>

definition dsa_row :: "nat \<Rightarrow> dsa_ring_element list \<Rightarrow> nat \<Rightarrow> (nat \<Rightarrow> nat \<Rightarrow> int) \<Rightarrow> nat \<Rightarrow> int" where
  "dsa_row columns a i v k = (\<Sum>j < columns. dsa_coeff (a ! (i * columns + j)) k * v j k)"

lemma matrix_index: "i < rows \<Longrightarrow> j < columns \<Longrightarrow> i * columns + j < rows * columns" for i j rows columns :: nat
  using mult_le_mono1 [of "Suc i" rows columns] by simp

lemma for_loop_at:
  assumes "i < length r"
  shows "for_loop 0 n (\<lambda>j r. r[i := h j (r ! i)]) r = r[i := for_loop 0 n h (r ! i)]"
  using assms by (induction n) (simp_all add: for_loop_last)

lemma for_loop_rows:
  assumes "length r = n" and "\<And>i r. i < n \<Longrightarrow> length r = n \<Longrightarrow> body i r = r[i := H i (r ! i)]"
  shows "for_loop 0 n body r = map (\<lambda>i. H i (r ! i)) [0..<n]"
proof -
  have "for_loop 0 m body r = for_loop 0 m (\<lambda>i r. r[i := H i (r ! i)]) r \<and> length (for_loop 0 m body r) = n" if "m \<le> n" for m
    using that
  proof (induction m)
    case (Suc m)
    then have i: "for_loop 0 m body r = for_loop 0 m (\<lambda>i r. r[i := H i (r ! i)]) r" "length (for_loop 0 m body r) = n" "m < n" by auto
    from assms(2) [OF i(3,2)] show ?case using i(2) unfolding i(1) by (simp add: for_loop_last i(1))
  qed (simp add: assms(1))
  then show ?thesis using assms(1) by (simp add: for_loop_update)
qed

subsection \<open>Sums of products\<close>

lemma dsa_sum_products:
  assumes "\<And>j. j < n \<Longrightarrow> dsa_bounded A (f j)" and "\<And>j. j < n \<Longrightarrow> dsa_bounded B (g j)" and "A * B \<le> 2147483648 * 8380416" and "n \<le> 7"
  defines "s \<equiv> for_loop 0 n (\<lambda>j s. dsa_polynomial_add s (dsa_ntt_multiply_montgomery (f j) (g j))) dsa_polynomial_zero"
  shows "dsa_bounded 58662912 s"
    and "k < 256 \<Longrightarrow> dsa_cong (dsa_coeff s k) ((\<Sum>j < n. dsa_coeff (f j) k * dsa_coeff (g j) k) * 8265825)"
proof -
  let ?s = "\<lambda>m. for_loop 0 m (\<lambda>j s. dsa_polynomial_add s (dsa_ntt_multiply_montgomery (f j) (g j))) dsa_polynomial_zero"
  have ind: "dsa_bounded (int m * 8380416) (?s m) \<and> (\<forall>k < 256. dsa_cong (dsa_coeff (?s m) k) ((\<Sum>j < m. dsa_coeff (f j) k * dsa_coeff (g j) k) * 8265825))"
    if "m \<le> n" for m
    using that
  proof (induction m)
    case (Suc m)
    have m: "m < n" using Suc.prems by simp
    note p = dsa_multiply_values [OF assms(1) [OF m] assms(2) [OF m] assms(3)]
    have s: "dsa_bounded (int m * 8380416) (?s m)" using Suc by simp
    have le: "int m * 8380416 + 8380416 \<le> 2147483647" using Suc.prems assms(4) by simp
    note a = dsa_add_values(1,2) [OF s p(1) le]
    have k: "dsa_cong (dsa_coeff (?s (Suc m)) k) ((\<Sum>j < Suc m. dsa_coeff (f j) k * dsa_coeff (g j) k) * 8265825)" if "k < 256" for k
      using a(2) [OF that] Suc cong_mod_add [OF _ p(2) [OF that]] that by (simp add: for_loop_last distrib_right)
    have "int (Suc m) * 8380416 = int m * 8380416 + 8380416" by simp
    then have "dsa_bounded (int (Suc m) * 8380416) (?s (Suc m))" using a(1) by (simp only: for_loop_last [OF le0])
    then show ?case using k by blast
  qed simp
  from ind [of n] show "dsa_bounded 58662912 s" using assms(4) dsa_bounded_mono [of "int n * 8380416" s 58662912] by (simp add: s_def)
  from ind [of n] show "k < 256 \<Longrightarrow> dsa_cong (dsa_coeff s k) ((\<Sum>j < n. dsa_coeff (f j) k * dsa_coeff (g j) k) * 8265825)" by (simp add: s_def)
qed

lemma dsa_montgomery_factor: "dsa_cong u (x * 8265825) \<Longrightarrow> dsa_cong (4193792 * u) x"
proof -
  assume "dsa_cong u (x * 8265825)"
  then have "dsa_cong (4193792 * u) (4193792 * (x * 8265825))" by (intro cong_mod_mult cong_mod_refl)
  also have "dsa_cong \<dots> x" by (rule cong_mod_multiple [where k = "x * 4136447"]) simp
  finally show ?thesis .
qed

lemma dsa_reduce_invert:
  assumes "dsa_bounded 2143289343 s"
  defines "r \<equiv> dsa_invert_ntt_montgomery (dsa_polynomial_barrett_reduce s)"
  shows "dsa_bounded 4211177 r" and "k < 256 \<Longrightarrow> dsa_cong (dsa_coeff s k) (x * 8265825) \<Longrightarrow> dsa_cong (dsa_hat r k) x"
proof -
  note b = dsa_barrett_values [OF assms(1)]
  note i = dsa_invert_values [OF dsa_bounded_mono [OF b(1)]]
  show "dsa_bounded 4211177 r" unfolding r_def by (rule i(1)) simp
  assume k: "k < 256" "dsa_cong (dsa_coeff s k) (x * 8265825)"
  have "dsa_cong (dsa_hat r k) (4193792 * dsa_coeff (dsa_polynomial_barrett_reduce s) k)" unfolding r_def by (rule i(2) [OF _ k(1)]) simp
  also have "dsa_cong \<dots> x" by (rule dsa_montgomery_factor [OF cong_mod_trans [OF b(2) [OF k(1)] k(2)]])
  finally show "dsa_cong (dsa_hat r k) x" .
qed

subsection \<open>The products\<close>

lemma compute_matrix_x_mask_rows:
  "compute_matrix_x_mask rows columns a v (replicate rows dsa_polynomial_zero)
   = map (\<lambda>i. dsa_invert_ntt_montgomery (dsa_polynomial_barrett_reduce (for_loop 0 columns (\<lambda>j s.
       dsa_polynomial_add s (dsa_ntt_multiply_montgomery (v ! j) (a ! (i * columns + j)))) dsa_polynomial_zero))) [0..<rows]"
proof -
  let ?h = "\<lambda>i j s. dsa_polynomial_add s (dsa_ntt_multiply_montgomery (v ! j) (a ! (i * columns + j)))"
  have "compute_matrix_x_mask rows columns a v (replicate rows dsa_polynomial_zero)
      = map (\<lambda>i. dsa_invert_ntt_montgomery (dsa_polynomial_barrett_reduce (for_loop 0 columns (?h i) (replicate rows dsa_polynomial_zero ! i)))) [0..<rows]"
    unfolding compute_matrix_x_mask_def Let_def
    by (rule for_loop_rows [where H = "\<lambda>i s. dsa_invert_ntt_montgomery (dsa_polynomial_barrett_reduce (for_loop 0 columns (?h i) s))"])
      (simp_all add: for_loop_at [where h = "?h _"])
  then show ?thesis by simp
qed

lemma compute_matrix_x_mask_values:
  assumes "dsa_vector (rows * columns) 8380416 a" and "dsa_vector columns 100000000 v" and "columns \<le> 7"
  defines "w \<equiv> compute_matrix_x_mask rows columns a v (replicate rows dsa_polynomial_zero)"
  shows "dsa_vector rows 4211177 w"
    and "i < rows \<Longrightarrow> k < 256 \<Longrightarrow> dsa_cong (dsa_hat (w ! i) k) (dsa_row columns a i (\<lambda>j. dsa_coeff (v ! j)) k)"
proof -
  note w = w_def [unfolded compute_matrix_x_mask_rows]
  let ?s = "\<lambda>i. for_loop 0 columns (\<lambda>j s. dsa_polynomial_add s (dsa_ntt_multiply_montgomery (v ! j) (a ! (i * columns + j)))) dsa_polynomial_zero"
  have s: "dsa_bounded 58662912 (?s i)"
    "k < 256 \<Longrightarrow> dsa_cong (dsa_coeff (?s i) k) ((\<Sum>j < columns. dsa_coeff (v ! j) k * dsa_coeff (a ! (i * columns + j)) k) * 8265825)" if "i < rows" for i k
    using dsa_vector_nth [OF assms(2)] dsa_vector_nth [OF assms(1) matrix_index [OF that]] assms(3)
    by (intro dsa_sum_products [where A = 100000000 and B = 8380416]; simp)+
  have m: "dsa_bounded 2143289343 (?s i)" if "i < rows" for i using dsa_bounded_mono [OF s(1) [OF that]] by simp
  show "dsa_vector rows 4211177 w" using dsa_reduce_invert(1) [OF m] by (intro dsa_vectorI) (simp_all add: w)
  assume i: "i < rows" and k: "k < 256"
  have "dsa_row columns a i (\<lambda>j. dsa_coeff (v ! j)) k = (\<Sum>j < columns. dsa_coeff (v ! j) k * dsa_coeff (a ! (i * columns + j)) k)"
    by (simp add: dsa_row_def mult.commute)
  then show "dsa_cong (dsa_hat (w ! i) k) (dsa_row columns a i (\<lambda>j. dsa_coeff (v ! j)) k)"
    using dsa_reduce_invert(2) [OF m [OF i] k s(2) [OF i k]] i by (simp add: w)
qed

lemma compute_w_approx_rows:
  assumes "length t1 = rows"
  shows "compute_w_approx rows columns a z c t1
   = map (\<lambda>i. dsa_invert_ntt_montgomery (dsa_polynomial_barrett_reduce (dsa_polynomial_subtract (for_loop 0 columns (\<lambda>j s.
       dsa_polynomial_add s (dsa_ntt_multiply_montgomery (a ! (i * columns + j)) (z ! j))) dsa_polynomial_zero)
       (dsa_ntt_multiply_montgomery (dsa_ntt (ring_shift_left_then_reduce 13 (t1 ! i))) c)))) [0..<rows]"
  unfolding compute_w_approx_def Let_def using assms
  by (intro for_loop_rows [where H = "\<lambda>i t. dsa_invert_ntt_montgomery (dsa_polynomial_barrett_reduce (dsa_polynomial_subtract (for_loop 0 columns (\<lambda>j s.
       dsa_polynomial_add s (dsa_ntt_multiply_montgomery (a ! (i * columns + j)) (z ! j))) dsa_polynomial_zero)
       (dsa_ntt_multiply_montgomery (dsa_ntt (ring_shift_left_then_reduce 13 t)) c)))"]) simp_all

lemma compute_w_approx_values:
  assumes "dsa_vector (rows * columns) 8380416 a" and "dsa_vector columns 100000000 z" and "dsa_bounded 100000000 c" and "dsa_vector rows 1023 t1" and "columns \<le> 7"
  defines "w \<equiv> compute_w_approx rows columns a z c t1"
  shows "dsa_vector rows 4211177 w"
    and "i < rows \<Longrightarrow> k < 256 \<Longrightarrow> dsa_cong (dsa_hat (w ! i) k)
      (dsa_row columns a i (\<lambda>j. dsa_coeff (z ! j)) k - 8192 * dsa_hat (t1 ! i) k * dsa_coeff c k)"
proof -
  note w = w_def [unfolded compute_w_approx_rows [OF dsa_vector_length [OF assms(4)]]]
  let ?p = "\<lambda>i. dsa_ntt_multiply_montgomery (dsa_ntt (ring_shift_left_then_reduce 13 (t1 ! i))) c"
  let ?s = "\<lambda>i. for_loop 0 columns (\<lambda>j s. dsa_polynomial_add s (dsa_ntt_multiply_montgomery (a ! (i * columns + j)) (z ! j))) dsa_polynomial_zero"
  have s: "dsa_bounded 58662912 (?s i)"
    "k < 256 \<Longrightarrow> dsa_cong (dsa_coeff (?s i) k) (dsa_row columns a i (\<lambda>j. dsa_coeff (z ! j)) k * 8265825)" if "i < rows" for i k
    using dsa_vector_nth [OF assms(2)] dsa_vector_nth [OF assms(1) matrix_index [OF that]] assms(5) unfolding dsa_row_def
    by (intro dsa_sum_products [where A = 8380416 and B = 100000000]; simp)+
  note t = dsa_shift_values [OF dsa_vector_nth [OF assms(4)]]
  note n = dsa_ntt_values [OF t(1)]
  note p = dsa_multiply_values [OF n(1) assms(3)]
  note d = dsa_add_values(3,4) [OF s(1) p(1)]
  have m: "dsa_bounded 2143289343 (dsa_polynomial_subtract (?s i) (?p i))" if "i < rows" for i
    using dsa_bounded_mono [OF d(1) [OF that that]] that by simp
  show "dsa_vector rows 4211177 w" using dsa_reduce_invert(1) [OF m] by (intro dsa_vectorI) (simp_all add: w)
  assume i: "i < rows" and k: "k < 256"
  have t1: "wf_dsa_ring (t1 ! i)" "wf_dsa_ring (ring_shift_left_then_reduce 13 (t1 ! i))"
    using dsa_vector_wf [OF assms(4) i] dsa_bounded_wf [OF t(1) [OF i]] .
  have h: "dsa_cong (dsa_hat (ring_shift_left_then_reduce 13 (t1 ! i)) k) (8192 * dsa_hat (t1 ! i) k)"
    using dsa_hat_linear [OF t1(1,1,2), of 8192 0 k] t(2) [OF i] k by (simp add: mult.commute)
  have "dsa_cong (dsa_coeff (?p i) k) (dsa_coeff (dsa_ntt (ring_shift_left_then_reduce 13 (t1 ! i))) k * dsa_coeff c k * 8265825)"
    using p(2) [OF i] k by simp
  also have "dsa_cong \<dots> (8192 * dsa_hat (t1 ! i) k * dsa_coeff c k * 8265825)"
    using cong_mod_trans [OF n(2) [OF i _ k] h] by (intro cong_mod_mult cong_mod_refl) simp
  finally have "dsa_cong (dsa_coeff (?s i) k - dsa_coeff (?p i) k)
      (dsa_row columns a i (\<lambda>j. dsa_coeff (z ! j)) k * 8265825 - 8192 * dsa_hat (t1 ! i) k * dsa_coeff c k * 8265825)"
    using s(2) [OF i k] by (intro cong_mod_diff)
  then have "dsa_cong (dsa_coeff (dsa_polynomial_subtract (?s i) (?p i)) k)
      ((dsa_row columns a i (\<lambda>j. dsa_coeff (z ! j)) k - 8192 * dsa_hat (t1 ! i) k * dsa_coeff c k) * 8265825)"
    using d(2) [OF i i] k by (simp add: left_diff_distrib)
  from dsa_reduce_invert(2) [OF m [OF i] k this]
  show "dsa_cong (dsa_hat (w ! i) k) (dsa_row columns a i (\<lambda>j. dsa_coeff (z ! j)) k - 8192 * dsa_hat (t1 ! i) k * dsa_coeff c k)"
    using i by (simp add: w)
qed

text \<open>
  \<open>compute_as1_plus_s2\<close> multiplies in place: entry \<open>i * columns + j\<close> of the matrix is overwritten by its product just before it is added, so every
  entry is read once, with its original value.
\<close>

lemma as1_row_loop:
  assumes "i < length r" and "\<forall>p \<ge> i * columns. b ! p = a ! p" and "length b = length a" and "i * columns + columns \<le> length a"
  shows "\<exists>b'. for_loop 0 columns (\<lambda>j (a, r). let a = a[i * columns + j := dsa_ntt_multiply_montgomery (a ! (i * columns + j)) (s1 ! j)];
          r = r[i := dsa_polynomial_add (r ! i) (a ! (i * columns + j))] in (a, r)) (b, r)
      = (b', r[i := for_loop 0 columns (\<lambda>j s. dsa_polynomial_add s (dsa_ntt_multiply_montgomery (a ! (i * columns + j)) (s1 ! j))) (r ! i)])
    \<and> (\<forall>p \<ge> Suc i * columns. b' ! p = a ! p) \<and> length b' = length a"
proof -
  let ?body = "\<lambda>j (a, r). let a = a[i * columns + j := dsa_ntt_multiply_montgomery (a ! (i * columns + j)) (s1 ! j)];
          r = r[i := dsa_polynomial_add (r ! i) (a ! (i * columns + j))] in (a, r)"
  have "\<exists>b'. for_loop 0 m ?body (b, r)
      = (b', r[i := for_loop 0 m (\<lambda>j s. dsa_polynomial_add s (dsa_ntt_multiply_montgomery (a ! (i * columns + j)) (s1 ! j))) (r ! i)])
    \<and> (\<forall>p \<ge> i * columns + m. b' ! p = a ! p) \<and> length b' = length a" if "m \<le> columns" for m
    using that
  proof (induction m)
    case (Suc m)
    then obtain b' where b': "for_loop 0 m ?body (b, r)
        = (b', r[i := for_loop 0 m (\<lambda>j s. dsa_polynomial_add s (dsa_ntt_multiply_montgomery (a ! (i * columns + j)) (s1 ! j))) (r ! i)])"
      "\<forall>p \<ge> i * columns + m. b' ! p = a ! p" "length b' = length a" by auto
    show ?case
      using b' Suc.prems assms(1,4)
      by (intro exI [of _ "b'[i * columns + m := dsa_ntt_multiply_montgomery (b' ! (i * columns + m)) (s1 ! m)]"]) (simp add: for_loop_last)
  qed (use assms in auto)
  from this [of columns] show ?thesis by (simp add: add.commute)
qed

lemma as1_loop:
  assumes "length a = rows * columns" and "length r = rows"
  shows "snd (for_loop 0 rows (\<lambda>i. for_loop 0 columns (\<lambda>j (a, r).
      let a = a[i * columns + j := dsa_ntt_multiply_montgomery (a ! (i * columns + j)) (s1 ! j)];
          r = r[i := dsa_polynomial_add (r ! i) (a ! (i * columns + j))] in (a, r))) (a, r))
    = map (\<lambda>i. for_loop 0 columns (\<lambda>j s. dsa_polynomial_add s (dsa_ntt_multiply_montgomery (a ! (i * columns + j)) (s1 ! j))) (r ! i)) [0..<rows]"
proof -
  let ?body = "\<lambda>i. for_loop 0 columns (\<lambda>j (a, r). let a = a[i * columns + j := dsa_ntt_multiply_montgomery (a ! (i * columns + j)) (s1 ! j)];
          r = r[i := dsa_polynomial_add (r ! i) (a ! (i * columns + j))] in (a, r))"
  let ?H = "\<lambda>i. for_loop 0 columns (\<lambda>j s. dsa_polynomial_add s (dsa_ntt_multiply_montgomery (a ! (i * columns + j)) (s1 ! j)))"
  have "\<exists>b. for_loop 0 m ?body (a, r) = (b, map (\<lambda>i. ?H i (r ! i)) [0..<m] @ drop m r)
      \<and> (\<forall>p \<ge> m * columns. b ! p = a ! p) \<and> length b = length a" if "m \<le> rows" for m
    using that
  proof (induction m)
    case (Suc m)
    let ?r = "map (\<lambda>i. ?H i (r ! i)) [0..<m] @ drop m r"
    from Suc obtain b where b: "for_loop 0 m ?body (a, r) = (b, ?r)" "\<forall>p \<ge> m * columns. b ! p = a ! p" "length b = length a" by auto
    have m: "m < length ?r" "m * columns + columns \<le> length a"
      using Suc.prems assms mult_le_mono1 [of "Suc m" rows columns] by simp_all
    have r: "?r[m := ?H m (?r ! m)] = map (\<lambda>i. ?H i (r ! i)) [0..<Suc m] @ drop (Suc m) r"
      using Suc.prems assms(2) Cons_nth_drop_Suc [of m r, symmetric] by (simp add: nth_append list_update_append)
    from as1_row_loop [OF m(1) b(2,3) m(2), of s1] show ?case unfolding r for_loop_last [OF le0] b(1) .
  qed simp
  from this [of rows] show ?thesis using assms(2) by auto
qed

lemma compute_as1_plus_s2_rows:
  assumes "length a = rows * columns"
  shows "snd (compute_as1_plus_s2 rows columns a s1_ntt s1_s2 (replicate rows dsa_polynomial_zero))
   = map (\<lambda>i. dsa_polynomial_add (dsa_invert_ntt_montgomery (dsa_polynomial_barrett_reduce (for_loop 0 columns (\<lambda>j s.
       dsa_polynomial_add s (dsa_ntt_multiply_montgomery (a ! (i * columns + j)) (s1_ntt ! j))) dsa_polynomial_zero))) (s1_s2 ! (columns + i))) [0..<rows]"
proof -
  let ?H = "\<lambda>i. for_loop 0 columns (\<lambda>j s. dsa_polynomial_add s (dsa_ntt_multiply_montgomery (a ! (i * columns + j)) (s1_ntt ! j)))"
  let ?r = "map (\<lambda>i. ?H i (replicate rows dsa_polynomial_zero ! i)) [0..<rows]"
  have "snd (compute_as1_plus_s2 rows columns a s1_ntt s1_s2 (replicate rows dsa_polynomial_zero))
      = for_loop 0 (length ?r) (\<lambda>i result. let result = result[i := dsa_polynomial_barrett_reduce (result ! i)];
              result = result[i := dsa_invert_ntt_montgomery (result ! i)]
          in result[i := dsa_polynomial_add (result ! i) (s1_s2 ! (columns + i))]) ?r"
    unfolding compute_as1_plus_s2_def using as1_loop [OF assms, of "replicate rows dsa_polynomial_zero" s1_ntt] by (simp only: split_beta Let_def snd_conv length_replicate)
  also have "\<dots> = map (\<lambda>i. dsa_polynomial_add (dsa_invert_ntt_montgomery (dsa_polynomial_barrett_reduce (?r ! i))) (s1_s2 ! (columns + i))) [0..<length ?r]"
    by (rule for_loop_rows [where H = "\<lambda>i s. dsa_polynomial_add (dsa_invert_ntt_montgomery (dsa_polynomial_barrett_reduce s)) (s1_s2 ! (columns + i))"])
      (simp_all add: Let_def)
  finally show ?thesis by simp
qed

lemma compute_as1_plus_s2_values:
  assumes "dsa_vector (rows * columns) 8380416 a" and "dsa_vector columns 100000000 s1_ntt" and "dsa_vector (columns + rows) 4 s1_s2" and "columns \<le> 7"
  defines "t \<equiv> snd (compute_as1_plus_s2 rows columns a s1_ntt s1_s2 (replicate rows dsa_polynomial_zero))"
  shows "dsa_vector rows 4211181 t"
    and "i < rows \<Longrightarrow> k < 256 \<Longrightarrow> dsa_cong (dsa_hat (t ! i) k) (dsa_row columns a i (\<lambda>j. dsa_coeff (s1_ntt ! j)) k + dsa_hat (s1_s2 ! (columns + i)) k)"
proof -
  note t = t_def [unfolded compute_as1_plus_s2_rows [OF dsa_vector_length [OF assms(1)]]]
  let ?s = "\<lambda>i. for_loop 0 columns (\<lambda>j s. dsa_polynomial_add s (dsa_ntt_multiply_montgomery (a ! (i * columns + j)) (s1_ntt ! j))) dsa_polynomial_zero"
  let ?r = "\<lambda>i. dsa_invert_ntt_montgomery (dsa_polynomial_barrett_reduce (?s i))"
  have s: "dsa_bounded 58662912 (?s i)"
    "k < 256 \<Longrightarrow> dsa_cong (dsa_coeff (?s i) k) (dsa_row columns a i (\<lambda>j. dsa_coeff (s1_ntt ! j)) k * 8265825)" if "i < rows" for i k
    using dsa_vector_nth [OF assms(2)] dsa_vector_nth [OF assms(1) matrix_index [OF that]] assms(4) unfolding dsa_row_def
    by (intro dsa_sum_products [where A = 8380416 and B = 100000000]; simp)+
  have m: "dsa_bounded 2143289343 (?s i)" if "i < rows" for i using dsa_bounded_mono [OF s(1) [OF that]] by simp
  have e: "dsa_bounded 4 (s1_s2 ! (columns + i))" if "i < rows" for i using dsa_vector_nth [OF assms(3)] that by simp
  note r = dsa_reduce_invert [OF m]
  note v = dsa_add_values(1,2) [OF r(1) e]
  show "dsa_vector rows 4211181 t" using v(1) by (intro dsa_vectorI) (simp_all add: t)
  assume i: "i < rows" and k: "k < 256"
  have "dsa_cong (dsa_hat (dsa_polynomial_add (?r i) (s1_s2 ! (columns + i))) k) (1 * dsa_hat (?r i) k + 1 * dsa_hat (s1_s2 ! (columns + i)) k)"
    using v(2) [OF i i] dsa_bounded_wf [OF r(1) [OF i]] dsa_bounded_wf [OF e [OF i]] dsa_bounded_wf [OF v(1) [OF i i]] k
    by (intro dsa_hat_linear) simp_all
  also have "dsa_cong \<dots> (dsa_row columns a i (\<lambda>j. dsa_coeff (s1_ntt ! j)) k + dsa_hat (s1_s2 ! (columns + i)) k)"
    using r(2) [OF i k s(2) [OF i k]] by (simp add: cong_mod_add)
  finally show "dsa_cong (dsa_hat (t ! i) k) (dsa_row columns a i (\<lambda>j. dsa_coeff (s1_ntt ! j)) k + dsa_hat (s1_s2 ! (columns + i)) k)"
    using i by (simp add: t)
qed

lemma vector_times_ring_element_eq:
  "vector_times_ring_element v c = map (\<lambda>re. dsa_invert_ntt_montgomery (dsa_ntt_multiply_montgomery re c)) v"
proof -
  have "vector_times_ring_element v c = map (\<lambda>i. dsa_invert_ntt_montgomery (dsa_ntt_multiply_montgomery (v ! i) c)) [0..<length v]"
    unfolding vector_times_ring_element_def Let_def
    by (rule for_loop_rows [where H = "\<lambda>i re. dsa_invert_ntt_montgomery (dsa_ntt_multiply_montgomery re c)"]) simp_all
  then show ?thesis using map_nth_upt [of "\<lambda>re. dsa_invert_ntt_montgomery (dsa_ntt_multiply_montgomery re c)" v] by simp
qed

lemma vector_times_ring_element_values:
  assumes "dsa_vector n 100000000 v" and "dsa_bounded 100000000 c"
  shows "dsa_vector n 4211177 (vector_times_ring_element v c)"
    and "i < n \<Longrightarrow> k < 256 \<Longrightarrow> dsa_cong (dsa_hat (vector_times_ring_element v c ! i) k) (dsa_coeff (v ! i) k * dsa_coeff c k)"
proof -
  note m = dsa_multiply_values(1) [OF dsa_vector_nth [OF assms(1)] assms(2)]
  show "dsa_vector n 4211177 (vector_times_ring_element v c)"
    using dsa_invert_values(1) [OF m] dsa_vector_length [OF assms(1)] by (intro dsa_vectorI) (simp_all add: vector_times_ring_element_eq)
  show "i < n \<Longrightarrow> k < 256 \<Longrightarrow> dsa_cong (dsa_hat (vector_times_ring_element v c ! i) k) (dsa_coeff (v ! i) k * dsa_coeff c k)"
    using dsa_hat_product [OF dsa_vector_nth [OF assms(1)] assms(2)] dsa_vector_length [OF assms(1)] by (simp add: vector_times_ring_element_eq)
qed

end
