(* ===== verification/MLDSA_Keys.thy ===== *)
theory MLDSA_Keys
  imports MLDSA_Generic MLDSA_SamplingCorrect MLDSA_MatrixCorrect
begin

section \<open>ML-DSA: the encoding of signing keys\<close>

text \<open>
  What key generation writes into a signing key is what signing reads back: the two seeds, the hash of the verification key, and the transforms of the secret vectors and
  of the low part of the public vector.
\<close>

subsection \<open>Ring elements\<close>

definition error_encode :: "eta \<Rightarrow> dsa_ring_element \<Rightarrow> u8 list" where
  "error_encode eta re = byte_encode (error_chunk_size eta) (map (\<lambda>c. eta_value eta - c) (concat re))"

definition t0_encode :: "dsa_ring_element \<Rightarrow> u8 list" where
  "t0_encode re = byte_encode 13 (map (\<lambda>c. 4096 - c) (concat re))"

definition t0_range :: "dsa_ring_element \<Rightarrow> bool" where
  "t0_range re \<longleftrightarrow> wf_dsa_ring re \<and> coeffs_in 13 (map (\<lambda>c. 4096 - c) (concat re))"

lemma error_encode_facts:
  assumes "dsa_bounded (eta_value eta) re"
  shows "length s = 32 * error_chunk_size eta \<Longrightarrow> ring_error_serialize eta re s = error_encode eta re"
    and "length (error_encode eta re) = 32 * error_chunk_size eta"
    and "wf_dsa_ring out \<Longrightarrow> ring_error_deserialize eta (error_encode eta re) out = re"
proof -
  have wf: "wf_dsa_ring re" using assms by (rule dsa_bounded_wf)
  have r: "\<bar>x\<bar> \<le> eta_value eta" if "x \<in> set (concat re)" for x using that assms by (auto simp: dsa_bounded_def list_all_iff)
  have "ring_error_serialize eta re s = error_encode eta re \<and> length (error_encode eta re) = 32 * error_chunk_size eta
      \<and> ring_error_deserialize eta (error_encode eta re) out = re" if "length s = 32 * error_chunk_size eta" "wf_dsa_ring out" for s out
  proof (cases eta)
    case Eta_Two
    then have c: "coeffs_in 3 (map (\<lambda>c. 2 - c) (concat re))" using r by (fastforce simp: coeffs_in_def list_all_iff eta_value_def)
    note e = pack_error_2.encode_concat(2) [OF wf c] pack_error_2.decode_encode [OF wf c]
    show ?thesis using ring_error_two_eq(1) [OF wf _ c, of s] ring_error_two_eq(2) [OF that(2), of "byte_encode 3 (map (\<lambda>c. 2 - c) (concat re))"] e that(1)
      by (simp add: Eta_Two error_encode_def error_chunk_size_def eta_value_def)
  next
    case Eta_Four
    then have c: "coeffs_in 4 (map (\<lambda>c. 4 - c) (concat re))" using r by (fastforce simp: coeffs_in_def list_all_iff eta_value_def)
    note e = pack_error_4.encode_concat(2) [OF wf c] pack_error_4.decode_encode [OF wf c]
    show ?thesis using ring_error_four_eq(1) [OF wf _ c, of s] ring_error_four_eq(2) [OF that(2), of "byte_encode 4 (map (\<lambda>c. 4 - c) (concat re))"] e that(1)
      by (simp add: Eta_Four error_encode_def error_chunk_size_def eta_value_def)
  qed
  note all = this
  have z: "wf_dsa_ring dsa_polynomial_zero" "length (replicate (32 * error_chunk_size eta) (0 :: u8)) = 32 * error_chunk_size eta"
    using dsa_bounded_wf [OF dsa_coeff_zero(2)] by simp_all
  show "length s = 32 * error_chunk_size eta \<Longrightarrow> ring_error_serialize eta re s = error_encode eta re" using all z(1) by blast
  show "length (error_encode eta re) = 32 * error_chunk_size eta" using all z by blast
  show "wf_dsa_ring out \<Longrightarrow> ring_error_deserialize eta (error_encode eta re) out = re" using all z(2) by blast
qed

lemma t0_encode_facts:
  assumes "t0_range re"
  shows "length s = 416 \<Longrightarrow> ring_t0_serialize re s = t0_encode re" and "length (t0_encode re) = 416"
    and "wf_dsa_ring out \<Longrightarrow> ring_t0_deserialize (t0_encode re) out = re"
proof -
  have wf: "wf_dsa_ring re" and c: "coeffs_in 13 (map (\<lambda>c. 4096 - c) (concat re))" using assms by (simp_all add: t0_range_def)
  show "length s = 416 \<Longrightarrow> ring_t0_serialize re s = t0_encode re" using ring_t0_serialize_eq [OF wf c] by (simp add: t0_encode_def)
  show l: "length (t0_encode re) = 416" using pack_t0.encode_concat(2) [OF wf c] by (simp add: t0_encode_def)
  show "wf_dsa_ring out \<Longrightarrow> ring_t0_deserialize (t0_encode re) out = re"
    using ring_t0_deserialize_eq [OF l] pack_t0.decode_encode [OF wf c] by (simp add: t0_encode_def)
qed

subsection \<open>Vectors\<close>

lemma for_loop_offset:
  "for_loop 0 k (\<lambda>i (offset, s). (offset + n, g i offset s)) (off, s) = (off + k * n, for_loop 0 k (\<lambda>i s. g i (off + i * n) s) s)"
  by (induction k) (simp_all add: for_loop_last ac_simps)

lemma deserialize_rows:
  assumes "\<And>v. v \<in> set vs \<Longrightarrow> length (enc v) = n" "\<And>v out. v \<in> set vs \<Longrightarrow> wf_dsa_ring out \<Longrightarrow> dec (enc v) out = v" and "0 < n" and "wf_vector (length vs) out"
  shows "for_loop 0 (length (concat (map enc vs)) div n) (\<lambda>i out.
      let bytes = subslice (concat (map enc vs)) (i * n) (i * n + n); out = out[i := dec bytes (out ! i)] in out[i := dsa_ntt (out ! i)]) out
    = map dsa_ntt vs"
proof -
  let ?bs = "concat (map enc vs)"
  have l: "length ?bs = length vs * n" using length_concat_uniform [of "map enc vs" n] assms(1) by auto
  have c: "subslice ?bs (i * n) (i * n + n) = enc (vs ! i)" if "i < length vs" for i
  proof -
    have "chunks n ?bs = map enc vs" using assms(1,3) by (intro chunks_concat) auto
    then show ?thesis using chunks_subslices [OF assms(3) l] that by (metis (no_types, lifting) add.left_neutral diff_zero length_upt nth_map nth_upt)
  qed
  have "for_loop 0 (length vs) (\<lambda>i out.
      let bytes = subslice ?bs (i * n) (i * n + n); out = out[i := dec bytes (out ! i)] in out[i := dsa_ntt (out ! i)]) out
    = map (\<lambda>i. dsa_ntt (dec (subslice ?bs (i * n) (i * n + n)) (out ! i))) [0..<length vs]"
    using assms(4) by (intro for_loop_rows) (simp_all add: wf_vector_def Let_def)
  also have "\<dots> = map (\<lambda>i. dsa_ntt (vs ! i)) [0..<length vs]"
    using assms(2,4) c by (intro map_cong) (auto simp: wf_vector_def list_all_length)
  finally show ?thesis using l assms(3) by (simp add: map_nth_upt)
qed

lemma error_deserialize_vector:
  assumes "dsa_vector n (eta_value eta) v" and "wf_vector n out" and "len = 32 * error_chunk_size eta"
  shows "error_deserialize_to_vector_then_ntt eta len (concat (map (error_encode eta) v)) out = map dsa_ntt v"
proof -
  have "0 < len" using assms(3) by (cases eta) (simp_all add: error_chunk_size_def)
  moreover have "length v = n" and "dsa_bounded (eta_value eta) x" if "x \<in> set v" for x using assms(1) that by (simp_all add: dsa_vector_def)
  ultimately show ?thesis unfolding error_deserialize_to_vector_then_ntt_def
    using assms dsa_vector_length [OF assms(1)] error_encode_facts(2,3) by (intro deserialize_rows) auto
qed

lemma t0_deserialize_vector:
  assumes "\<And>x. x \<in> set v \<Longrightarrow> t0_range x" and "wf_vector (length v) out"
  shows "t0_deserialize_to_vector_then_ntt (concat (map t0_encode v)) out = map dsa_ntt v"
proof -
  have "RING_ELEMENT_OF_T0S_SIZE = 416" by (simp add: RING_ELEMENT_OF_T0S_SIZE_def BITS_IN_LOWER_PART_OF_T_def DSA_COEFFICIENTS_IN_RING_ELEMENT_def)
  then show ?thesis unfolding t0_deserialize_to_vector_then_ntt_def
    using assms t0_encode_facts(2,3) by (intro deserialize_rows) auto
qed

lemma signing_key_generate_eq:
  assumes "length seed_matrix = 32" and "length seed_signing = 32" and "dsa_vector n (eta_value eta) s1_2" and "\<And>x. x \<in> set t0 \<Longrightarrow> t0_range x"
    and "len = 32 * error_chunk_size eta" and "length key = 128 + n * len + length t0 * 416"
  shows "signing_key_generate_serialized eta len seed_matrix seed_signing verification_key s1_2 t0 key
    = seed_matrix @ seed_signing @ portable_shake256 (replicate 64 0) verification_key @ concat (map (error_encode eta) s1_2) @ concat (map t0_encode t0)"
proof -
  have t0s: "RING_ELEMENT_OF_T0S_SIZE = 416" by (simp add: RING_ELEMENT_OF_T0S_SIZE_def BITS_IN_LOWER_PART_OF_T_def DSA_COEFFICIENTS_IN_RING_ELEMENT_def)
  define H where "H = portable_shake256 (replicate 64 0) verification_key"
  have H: "length H = 64" by (simp add: H_def shake_eqs)
  let ?k = "slice_copy (slice_copy (slice_copy key 0 seed_matrix) 32 seed_signing) 64 H"
  have k: "?k = seed_matrix @ seed_signing @ H @ drop 128 key" using assms(1,2,6) H by (simp add: slice_copy_def)
  have n: "length s1_2 = n" using assms(3) by (rule dsa_vector_length)
  have b: "dsa_bounded (eta_value eta) (s1_2 ! i)" if "i < length s1_2" for i using dsa_vector_nth [OF assms(3)] that n by simp
  let ?e = "concat (map (error_encode eta) s1_2)"
  have le: "length ?e = n * len" using length_concat_uniform [of "map (error_encode eta) s1_2" len] assms(3,5) error_encode_facts(2) n by (auto simp: dsa_vector_def)
  have one: "for_loop 0 (length s1_2) (\<lambda>i s. slice_apply s (128 + i * len) (128 + i * len + len) (ring_error_serialize eta (s1_2 ! i))) ?k
      = seed_matrix @ seed_signing @ H @ ?e @ drop (128 + n * len) key"
    (is "?l = _")
  proof -
    have "?l = take 128 ?k @ concat (map (\<lambda>i. error_encode eta (s1_2 ! i)) [0..<length s1_2]) @ drop (128 + length s1_2 * len) ?k"
      using error_encode_facts(1,2) [OF b] assms(1,2,5,6) H n by (intro for_loop_slice_apply) (simp_all add: k)
    also have "map (\<lambda>i. error_encode eta (s1_2 ! i)) [0..<length s1_2] = map (error_encode eta) s1_2" by (rule map_nth_upt)
    finally show ?thesis unfolding k using assms(1,2) H n by (simp add: add.commute)
  qed
  let ?k2 = "seed_matrix @ seed_signing @ H @ ?e @ drop (128 + n * len) key" and ?o = "128 + n * len"
  have two: "for_loop 0 (length t0) (\<lambda>i s. slice_apply s (?o + i * 416) (?o + i * 416 + 416) (ring_t0_serialize (t0 ! i))) ?k2
      = seed_matrix @ seed_signing @ H @ ?e @ concat (map t0_encode t0)"
    (is "?l = _")
  proof -
    have "?l = take ?o ?k2 @ concat (map (\<lambda>i. t0_encode (t0 ! i)) [0..<length t0]) @ drop (?o + length t0 * 416) ?k2"
      using t0_encode_facts(1,2) assms(1,2,4,6) H le by (intro for_loop_slice_apply) simp_all
    also have "map (\<lambda>i. t0_encode (t0 ! i)) [0..<length t0] = map t0_encode t0" by (rule map_nth_upt)
    finally show ?thesis using assms(1,2,6) H le by simp
  qed
  show ?thesis unfolding signing_key_generate_serialized_def Let_def t0s SEED_FOR_A_SIZE_def SEED_FOR_SIGNING_SIZE_def BYTES_FOR_VERIFICATION_KEY_HASH_def
    H_def [symmetric] for_loop_offset using one two n by simp
qed

end
