(* ===== verification/MLDSA_SignVerify.thy ===== *)
theory MLDSA_SignVerify
  imports MLDSA_Keys
begin

section \<open>ML-DSA: signatures verify\<close>

text \<open>
  Every signature that signing returns for a generated key pair is accepted by verification. The locale \<open>dsa_parameters\<close> states what the argument needs of a parameter
  set; the three sets of the code interpret it. Inside the locale: the relation between the parts of a generated key pair, the equation
  \<open>w\<close> - \<open>c s2\<close> + \<open>c t0\<close> that the verifier recomputes, and the return of the commitment by the hint.
\<close>

subsection \<open>Transforms of vectors\<close>

lemma ntt_vector_eq: "length v = n \<Longrightarrow> ntt_vector n v = map dsa_ntt v"
  unfolding ntt_vector_def by (rule for_loop_map) simp

lemma ntt_vector_values:
  assumes "dsa_vector n B v" and "B \<le> 30000000"
  shows "dsa_vector n 100000000 (map dsa_ntt v)"
    and "i < n \<Longrightarrow> k < 256 \<Longrightarrow> dsa_cong (dsa_coeff (map dsa_ntt v ! i) k) (dsa_hat (v ! i) k)"
proof -
  have B: "B \<le> 2080440319" "B + 67043328 \<le> 100000000" using assms(2) by simp_all
  have l: "length v = n" using assms(1) by (rule dsa_vector_length)
  have "dsa_vector n (B + 67043328) (map dsa_ntt v)"
    using dsa_ntt_values(1) [OF _ B(1)] dsa_vector_nth [OF assms(1)] l by (intro dsa_vectorI) auto
  then show "dsa_vector n 100000000 (map dsa_ntt v)" using B(2) by (rule dsa_vector_mono)
  show "i < n \<Longrightarrow> k < 256 \<Longrightarrow> dsa_cong (dsa_coeff (map dsa_ntt v ! i) k) (dsa_hat (v ! i) k)"
    using dsa_ntt_values(2) [OF dsa_vector_nth [OF assms(1)] B(1)] l by simp
qed

lemma dsa_row_cong: "(\<And>j. j < columns \<Longrightarrow> dsa_cong (u j k) (v j k)) \<Longrightarrow> dsa_cong (dsa_row columns a i u k) (dsa_row columns a i v k)"
  unfolding dsa_row_def by (intro cong_mod_sum cong_mod_mult) auto

lemma dsa_row_add: "dsa_row columns a i (\<lambda>j k. u j k + v j k * c k) k = dsa_row columns a i u k + dsa_row columns a i v k * c k"
  unfolding dsa_row_def by (simp add: sum.distrib sum_distrib_right distrib_left mult.assoc)

lemma recomputed_algebra:
  assumes "cong_mod q w' (z - 8192 * t1 * c)" and "cong_mod q z (y + s1 * c)" and "cong_mod q w y" and "cong_mod q (8192 * t1 + t0) (s1 + s2)"
    and "cong_mod q cs2 (s2 * c)" and "cong_mod q ct0 (t0 * c)" and "cong_mod q x (w - cs2 + ct0)"
  shows "cong_mod q w' x"
proof -
  have "q dvd (w' - (z - 8192 * t1 * c)) + (z - (y + s1 * c)) - (w - y) - c * ((8192 * t1 + t0) - (s1 + s2)) + (cs2 - s2 * c) - (ct0 - t0 * c) - (x - (w - cs2 + ct0))"
    using assms unfolding cong_mod_def mod_eq_dvd_iff by (simp only: dvd_add dvd_diff dvd_mult)
  moreover have "(w' - (z - 8192 * t1 * c)) + (z - (y + s1 * c)) - (w - y) - c * ((8192 * t1 + t0) - (s1 + s2)) + (cs2 - s2 * c) - (ct0 - t0 * c)
      - (x - (w - cs2 + ct0)) = w' - x" by (simp add: algebra_simps)
  ultimately show ?thesis unfolding cong_mod_def mod_eq_dvd_iff by (simp only:)
qed

lemma dsa_hat_difference_sum:
  assumes "dsa_bounded 4211177 u" "dsa_bounded 4211177 v" "dsa_bounded 4211177 w"
  defines "x \<equiv> dsa_polynomial_add (dsa_polynomial_subtract u v) w"
  shows "wf_dsa_ring x" and "k < 256 \<Longrightarrow> dsa_coeff x k = dsa_coeff u k - dsa_coeff v k + dsa_coeff w k"
    and "k < 256 \<Longrightarrow> dsa_cong (dsa_hat x k) (dsa_hat u k - dsa_hat v k + dsa_hat w k)"
proof -
  note d = dsa_add_values [OF assms(1,2), simplified]
  note xs = dsa_add_values [OF d(3) assms(3), folded x_def, simplified]
  show wf: "wf_dsa_ring x" using xs(1) by (rule dsa_bounded_wf)
  show "k < 256 \<Longrightarrow> dsa_coeff x k = dsa_coeff u k - dsa_coeff v k + dsa_coeff w k" using xs(2) d(4) by simp
  assume k: "k < 256"
  have sub: "dsa_cong (dsa_hat (dsa_polynomial_subtract u v) k) (1 * dsa_hat u k + - 1 * dsa_hat v k)"
    using k d(4) assms(1,2) d(3) by (intro dsa_hat_linear) (simp_all add: dsa_bounded_wf)
  have "dsa_cong (dsa_hat x k) (1 * dsa_hat (dsa_polynomial_subtract u v) k + 1 * dsa_hat w k)"
    using k xs(2) assms(3) d(3) wf by (intro dsa_hat_linear) (simp_all add: dsa_bounded_wf)
  then show "dsa_cong (dsa_hat x k) (dsa_hat u k - dsa_hat v k + dsa_hat w k)"
    using cong_mod_trans [OF _ cong_mod_add [OF sub cong_mod_refl [of _ "dsa_hat w k"]]] by simp
qed

lemma response_transform:
  assumes y: "dsa_vector n 524288 y" and s: "dsa_vector n 4 s" and c: "dsa_bounded 100000000 c"
  defines "z \<equiv> add_vectors n y (vector_times_ring_element (map dsa_ntt s) c)"
  shows "dsa_vector n 4735465 z"
    and "j < n \<Longrightarrow> k < 256 \<Longrightarrow> dsa_cong (dsa_coeff (map dsa_ntt z ! j) k) (dsa_coeff (map dsa_ntt y ! j) k + dsa_hat (s ! j) k * dsa_coeff c k)"
proof -
  define cs where "cs = vector_times_ring_element (map dsa_ntt s) c"
  note sn = ntt_vector_values [OF s, simplified]
  note cs = vector_times_ring_element_values [OF sn(1) c, folded cs_def]
  note z = vector_sum_values [OF y cs(1), folded z_def [folded cs_def], simplified]
  show Z: "dsa_vector n 4735465 z" by (rule z(1))
  assume j: "j < n" and k: "k < 256"
  have "dsa_cong (dsa_hat (z ! j) k) (1 * dsa_hat (y ! j) k + 1 * dsa_hat (cs ! j) k)"
    using j k z(3) dsa_vector_wf [OF y j] dsa_vector_wf [OF cs(1) j] dsa_vector_wf [OF Z j] by (intro dsa_hat_linear) simp_all
  moreover have "dsa_cong (dsa_hat (cs ! j) k) (dsa_hat (s ! j) k * dsa_coeff c k)"
    by (rule cong_mod_trans [OF cs(2) [OF j k] cong_mod_mult [OF sn(2) [OF j k] cong_mod_refl]])
  ultimately have "dsa_cong (dsa_hat (z ! j) k) (dsa_coeff (map dsa_ntt y ! j) k + dsa_hat (s ! j) k * dsa_coeff c k)"
    using cong_mod_trans [OF _ cong_mod_add [OF cong_mod_sym [OF ntt_vector_values(2) [OF y _ j k]]]] by simp
  then show "dsa_cong (dsa_coeff (map dsa_ntt z ! j) k) (dsa_coeff (map dsa_ntt y ! j) k + dsa_hat (s ! j) k * dsa_coeff c k)"
    using ntt_vector_values(2) [OF Z _ j k] by (auto intro: cong_mod_trans)
qed

subsection \<open>Ranges of the rounding functions\<close>

lemma mod_pm_range:
  assumes "even a" and "0 < a"
  obtains k where "x = mod_pm x a + k * a" and "- (a div 2) < mod_pm x a" and "mod_pm x a \<le> a div 2"
proof (cases "a div 2 < x mod a")
  case True
  have "x = (x mod a - a) + (x div a + 1) * a" using div_mult_mod_eq [of x a] by (simp add: algebra_simps)
  moreover have "x mod a < a" using assms(2) by (rule pos_mod_bound)
  moreover obtain b where b: "a = 2 * b" using assms(1) by (rule evenE)
  moreover have "a div 2 = b" using b by simp
  ultimately have "- (a div 2) < x mod a - a" "x mod a - a \<le> a div 2" "x = (x mod a - a) + (x div a + 1) * a" using True assms(2) by linarith+
  then show ?thesis using True by (intro that [of "x div a + 1"]) (simp_all add: mod_pm_def)
next
  case False
  moreover have "0 \<le> x mod a" "0 < a div 2" using assms by (simp, presburger)
  then have "- (a div 2) < x mod a" by linarith
  ultimately show ?thesis using div_mult_mod_eq [of x a] by (intro that [of "x div a"]) (auto simp: mod_pm_def add.commute)
qed

lemma power2round_spec_range:
  shows "dsa_cong r (snd (power2round_spec r) * 8192 + fst (power2round_spec r))" and "- 4096 < fst (power2round_spec r)" and "fst (power2round_spec r) \<le> 4096"
    and "0 \<le> snd (power2round_spec r)" and "snd (power2round_spec r) < 1024"
proof -
  define rp where "rp = r mod 8380417"
  obtain k where k: "rp = mod_pm rp 8192 + k * 8192" "- 4096 < mod_pm rp 8192" "mod_pm rp 8192 \<le> 4096" by (rule mod_pm_range [of 8192 rp]) simp_all
  have rp: "0 \<le> rp" "rp < 8380417" by (simp_all add: rp_def)
  have "rp - mod_pm rp 8192 = k * 8192" using k(1) by simp
  then have e: "power2round_spec r = (mod_pm rp 8192, k)" by (simp add: power2round_spec_def rp_def [symmetric])
  have "dsa_cong r rp" unfolding rp_def by (rule cong_mod_sym [OF cong_mod_mod])
  moreover have "rp = k * 8192 + mod_pm rp 8192" using k(1) by simp
  ultimately show "dsa_cong r (snd (power2round_spec r) * 8192 + fst (power2round_spec r))" unfolding e by simp
  show "- 4096 < fst (power2round_spec r)" "fst (power2round_spec r) \<le> 4096" "0 \<le> snd (power2round_spec r)" "snd (power2round_spec r) < 1024"
    unfolding e using k rp by simp_all
qed

lemma decompose_spec_range:
  assumes "(gamma2, m) \<in> {(95232, 44), (261888, 16 :: int)}"
  shows "dsa_cong r (snd (decompose_spec gamma2 r) * (2 * gamma2) + fst (decompose_spec gamma2 r))" and "\<bar>fst (decompose_spec gamma2 r)\<bar> \<le> gamma2"
    and "0 \<le> snd (decompose_spec gamma2 r)" and "snd (decompose_spec gamma2 r) < m"
proof -
  define rp where "rp = r mod 8380417"
  have g: "0 < gamma2" "m * (2 * gamma2) = 8380416" and m: "0 < m" using assms by auto
  obtain k where k: "rp = mod_pm rp (2 * gamma2) + k * (2 * gamma2)" "- gamma2 < mod_pm rp (2 * gamma2)" "mod_pm rp (2 * gamma2) \<le> gamma2"
    using g(1) by (auto intro: mod_pm_range [of "2 * gamma2" rp])
  have rp: "0 \<le> rp" "rp < 8380417" by (simp_all add: rp_def)
  have c: "dsa_cong r rp" unfolding rp_def by (rule cong_mod_sym [OF cong_mod_mod])
  have d: "rp - mod_pm rp (2 * gamma2) = k * (2 * gamma2)" using k(1) by simp
  have "- (2 * gamma2) < k * (2 * gamma2)" "k * (2 * gamma2) < m * (2 * gamma2) + 2 * gamma2" unfolding d [symmetric] g(2) using k(2,3) rp g(1) by linarith+
  then have "- 1 * (2 * gamma2) < k * (2 * gamma2)" "k * (2 * gamma2) < (m + 1) * (2 * gamma2)" unfolding distrib_right by simp_all
  then have km: "0 \<le> k" "k \<le> m" using g(1) unfolding mult_less_cancel_right by simp_all
  have "dsa_cong r (snd (decompose_spec gamma2 r) * (2 * gamma2) + fst (decompose_spec gamma2 r)) \<and> \<bar>fst (decompose_spec gamma2 r)\<bar> \<le> gamma2
    \<and> 0 \<le> snd (decompose_spec gamma2 r) \<and> snd (decompose_spec gamma2 r) < m"
  proof (cases "k = m")
    case True
    then have e: "decompose_spec gamma2 r = (mod_pm rp (2 * gamma2) - 1, 0)" using d g(2) by (simp add: decompose_spec_def rp_def [symmetric] Let_def)
    have "rp = mod_pm rp (2 * gamma2) - 1 + 8380417 * 1" using k(1) True g(2) by simp
    then have "dsa_cong rp (mod_pm rp (2 * gamma2) - 1)" by (rule cong_mod_multiple)
    then have "dsa_cong r (mod_pm rp (2 * gamma2) - 1)" by (rule cong_mod_trans [OF c])
    then show ?thesis unfolding e using k True rp g m by simp
  next
    case False
    then have "k * (2 * gamma2) \<noteq> m * (2 * gamma2)" using g(1) by simp
    then have "k * (2 * gamma2) \<noteq> 8380416" unfolding g(2) .
    then have e: "decompose_spec gamma2 r = (mod_pm rp (2 * gamma2), k)" using d g(1) by (simp add: decompose_spec_def rp_def [symmetric] Let_def)
    have "k * (2 * gamma2) + mod_pm rp (2 * gamma2) = rp" using k(1) by simp
    then have "dsa_cong r (k * (2 * gamma2) + mod_pm rp (2 * gamma2))" using c by simp
    then show ?thesis unfolding e using k(2,3) km False by simp
  qed
  then show "dsa_cong r (snd (decompose_spec gamma2 r) * (2 * gamma2) + fst (decompose_spec gamma2 r))" "\<bar>fst (decompose_spec gamma2 r)\<bar> \<le> gamma2"
    "0 \<le> snd (decompose_spec gamma2 r)" "snd (decompose_spec gamma2 r) < m" by simp_all
qed

subsection \<open>The relation between the parts of a key pair\<close>

definition key_relation ::
  "nat \<Rightarrow> nat \<Rightarrow> eta \<Rightarrow> dsa_ring_element list \<Rightarrow> dsa_ring_element list \<Rightarrow> dsa_ring_element list \<Rightarrow> dsa_ring_element list \<Rightarrow> bool" where
  "key_relation rows columns eta a s t0 t1 \<longleftrightarrow>
     dsa_vector (rows * columns) 8380416 a \<and> dsa_vector (columns + rows) (eta_value eta) s
     \<and> length t0 = rows \<and> (\<forall>x \<in> set t0. t0_range x) \<and> length t1 = rows \<and> (\<forall>x \<in> set t1. wf_dsa_ring x \<and> coeffs_in 10 (concat x))
     \<and> (\<forall>i < rows. \<forall>k < 256. dsa_cong (8192 * dsa_hat (t1 ! i) k + dsa_hat (t0 ! i) k)
          (dsa_row columns a i (\<lambda>j. dsa_hat (s ! j)) k + dsa_hat (s ! (columns + i)) k))"

lemma key_relation_bounds:
  assumes "key_relation rows columns eta a s t0 t1"
  shows "dsa_vector rows 4096 t0" and "dsa_vector rows 1023 t1" and "dsa_vector columns 4 (take columns s)" and "dsa_vector rows 4 (drop columns s)"
proof -
  have "dsa_bounded 4096 x" if "t0_range x" for x using that by (fastforce simp: t0_range_def dsa_bounded_def coeffs_in_def list_all_iff)
  then show "dsa_vector rows 4096 t0" using assms by (simp add: key_relation_def dsa_vector_def)
  have "dsa_bounded 1023 x" if "wf_dsa_ring x" "coeffs_in 10 (concat x)" for x using that by (fastforce simp: dsa_bounded_def coeffs_in_def list_all_iff)
  then show "dsa_vector rows 1023 t1" using assms by (simp add: key_relation_def dsa_vector_def)
  have "eta_value eta \<le> 4" by (cases eta) (simp_all add: eta_value_def)
  then have "dsa_vector (columns + rows) 4 s" using assms by (auto simp: key_relation_def intro: dsa_vector_mono)
  then show "dsa_vector columns 4 (take columns s)" and "dsa_vector rows 4 (drop columns s)"
    by (auto simp: dsa_vector_def dest: in_set_takeD in_set_dropD)
qed

lemma power2round_ring:
  assumes "wf_dsa_ring re"
  shows "t0_range (map (map (fst \<circ> power2round_spec)) re)" and "coeffs_in 10 (concat (map (map (snd \<circ> power2round_spec)) re))"
proof -
  have "0 \<le> 4096 - fst (power2round_spec x) \<and> 4096 - fst (power2round_spec x) < 8192" for x
    using power2round_spec_range(2,3) [of x] by simp
  then show "t0_range (map (map (fst \<circ> power2round_spec)) re)"
    using assms by (simp add: t0_range_def coeffs_in_def map_concat [symmetric] list_all_iff)
  show "coeffs_in 10 (concat (map (map (snd \<circ> power2round_spec)) re))"
    using power2round_spec_range(4,5) by (simp add: coeffs_in_def map_concat [symmetric] list_all_iff)
qed

lemma xof_squeeze_lengths:
  "length (shake256xof_squeeze (shake256xof_absorb_final b (shake256xof_absorb a shake256xof_init)) (replicate n 0)) = n"
proof -
  have "xof_squeezes 136 (xof_absorb_final 136 31 (fold (\<lambda>i st. xof_absorb 136 st i) [a] (xof_new 136)) b) [n] = sponge_spec 136 31 (a @ b) n"
    using rate_136.xof_incremental [of 31 "[a]" b "[n]"] by simp
  then show ?thesis
    by (simp add: shake256xof_squeeze_def shake256xof_absorb_final_def shake256xof_absorb_def shake256xof_init_def split_beta)
qed

lemma verification_key_vector:
  assumes "length t1 = rows" and "\<forall>x \<in> set t1. wf_dsa_ring x \<and> coeffs_in 10 (concat x)"
  shows "verification_key_deserialize rows n (concat (map (\<lambda>re. byte_encode 10 (concat re)) t1)) (zero_vector rows) = t1"
proof -
  let ?e = "\<lambda>re. byte_encode 10 (concat re)"
  have l: "length (?e re) = 320" "chunks 8 (byte_decode 10 (?e re)) = re" if "re \<in> set t1" for re
    using assms(2) that pack_t1.encode_concat(2) [of re] pack_t1.decode_encode [of re] by auto
  have "length (concat (map ?e t1)) = rows * 320" using length_concat_uniform [of "map ?e t1" 320] l(1) assms(1) by auto
  moreover have "chunks 320 (concat (map ?e t1)) = map ?e t1" using l(1) by (intro chunks_concat) auto
  ultimately show ?thesis using wf_vector_zero [of rows] l(2) by (simp add: verification_key_deserialize_eq wf_vector_def comp_def map_idI)
qed

lemma signing_loop_success:
  assumes "signing_loop n attempt ds = Some (Some candidate)"
  obtains ds1 ds2 where "attempt ds1 = Some (ds2, Some candidate)"
  using assms
proof (induction n arbitrary: ds)
  case (Suc n)
  then show ?case by (auto simp: Option.bind_eq_Some_conv split: option.splits)
qed simp

subsection \<open>Parameter sets\<close>

locale dsa_parameters =
  fixes p :: mldsa_params and m :: int and d :: nat
  assumes member: "p \<in> {mldsa44, mldsa65, mldsa87}"
    and rounding: "(GAMMA2 p, m) \<in> {(95232, 44), (261888, 16)}"
    and commitment_bits: "BITS_PER_COMMITMENT_COEFFICIENT p = d" "d = 4 \<or> d = 6" "m \<le> 2 ^ d"
    and shape: "4 \<le> COLUMNS_IN_A p" "COLUMNS_IN_A p \<le> 7" "ROWS_IN_A p \<le> 8"
    and error_width: "error_size p = 32 * error_chunk_size (ETA p)"
    and beta: "0 \<le> dsa_beta (ONES_IN_VERIFIER_CHALLENGE p) (ETA p)" "dsa_beta (ONES_IN_VERIFIER_CHALLENGE p) (ETA p) \<le> 1000"
begin

lemma rounded_key_relation:
  assumes ba: "dsa_vector (ROWS_IN_A p * COLUMNS_IN_A p) 8380416 a" and bs: "dsa_vector (COLUMNS_IN_A p + ROWS_IN_A p) (eta_value (ETA p)) s"
  defines "t \<equiv> snd (compute_as1_plus_s2 (ROWS_IN_A p) (COLUMNS_IN_A p) a (map dsa_ntt (take (COLUMNS_IN_A p) s)) s (zero_vector (ROWS_IN_A p)))"
  shows "power2round_vector t (zero_vector (ROWS_IN_A p)) = (map_vector (fst \<circ> power2round_spec) t, map_vector (snd \<circ> power2round_spec) t)"
    and "key_relation (ROWS_IN_A p) (COLUMNS_IN_A p) (ETA p) a s (map_vector (fst \<circ> power2round_spec) t) (map_vector (snd \<circ> power2round_spec) t)"
proof -
  let ?R = "ROWS_IN_A p" and ?C = "COLUMNS_IN_A p"
  let ?t0 = "map_vector (fst \<circ> power2round_spec) t" and ?t1 = "map_vector (snd \<circ> power2round_spec) t"
  have eta: "eta_value (ETA p) \<le> 4" by (cases "ETA p") (simp_all add: eta_value_def)
  have "dsa_vector ?C 4 (take ?C s)" using dsa_vector_mono [OF bs eta] by (auto simp: dsa_vector_def dest: in_set_takeD)
  note n1 = ntt_vector_values [OF this, simplified]
  have t: "dsa_vector ?R 4211181 t"
    and th: "i < ?R \<Longrightarrow> k < 256 \<Longrightarrow> dsa_cong (dsa_hat (t ! i) k) (dsa_row ?C a i (\<lambda>j. dsa_coeff (map dsa_ntt (take ?C s) ! j)) k + dsa_hat (s ! (?C + i)) k)" for i k
    unfolding t_def using compute_as1_plus_s2_values [OF ba n1(1) dsa_vector_mono [OF bs eta] shape(2)] by simp_all
  have wt: "wf_dsa_ring x" if "x \<in> set t" for x using that t dsa_bounded_wf by (auto simp: dsa_vector_def)
  have lt: "length t = ?R" using t by (rule dsa_vector_length)
  show "power2round_vector t (zero_vector ?R) = (?t0, ?t1)"
    using power2round_vector_eq [OF dsa_vector_mono [OF t]] wf_vector_zero [of ?R] by (simp add: wf_vector_def)
  show "key_relation ?R ?C (ETA p) a s ?t0 ?t1" unfolding key_relation_def
  proof (intro conjI ballI allI impI)
    fix i k assume i: "i < ?R" and k: "k < (256 :: nat)"
    have t: "dsa_cong (dsa_hat (t ! i) k) (8192 * dsa_hat (?t1 ! i) k + 1 * dsa_hat (?t0 ! i) k)"
      using i k lt wt power2round_spec_range(1) by (intro dsa_hat_linear) (simp_all add: dsa_coeff_map mult.commute)
    have "dsa_cong (dsa_row ?C a i (\<lambda>j. dsa_coeff (map dsa_ntt (take ?C s) ! j)) k) (dsa_row ?C a i (\<lambda>j. dsa_hat (s ! j)) k)"
      using n1(2) [OF _ k] by (intro dsa_row_cong) simp
    then have "dsa_cong (dsa_hat (t ! i) k) (dsa_row ?C a i (\<lambda>j. dsa_hat (s ! j)) k + dsa_hat (s ! (?C + i)) k)"
      using th [OF i k] by (blast intro: cong_mod_trans cong_mod_add)
    then show "dsa_cong (8192 * dsa_hat (?t1 ! i) k + dsa_hat (?t0 ! i) k) (dsa_row ?C a i (\<lambda>j. dsa_hat (s ! j)) k + dsa_hat (s ! (?C + i)) k)"
      using cong_mod_trans [OF cong_mod_sym [OF t]] by (simp del: nth_map)
  qed (use ba bs lt wt power2round_ring in auto)
qed

lemma key_pair_relation:
  assumes "generate_key_pair p randomness sk0 vk0 = Some (sk, vk)"
    and "length sk0 = signing_key_size (ROWS_IN_A p) (COLUMNS_IN_A p) (error_size p)" and "length vk0 = verification_key_size (ROWS_IN_A p)"
  obtains rho K a s t0 t1 where "length rho = 32" and "length K = 32"
    and "matrix_flat (COLUMNS_IN_A p) rho (zero_vector (ROWS_IN_A p * COLUMNS_IN_A p)) = Some a"
    and "key_relation (ROWS_IN_A p) (COLUMNS_IN_A p) (ETA p) a s t0 t1"
    and "vk = rho @ concat (map (\<lambda>re. byte_encode 10 (concat re)) t1)"
    and "sk = rho @ K @ portable_shake256 (replicate 64 0) vk @ concat (map (error_encode (ETA p)) s) @ concat (map t0_encode t0)"
proof -
  let ?R = "ROWS_IN_A p" and ?C = "COLUMNS_IN_A p"
  define E where "E = shake256xof_squeeze (shake256xof_absorb_final [word_of_nat ?R, word_of_nat ?C] (shake256xof_absorb randomness shake256xof_init)) (replicate 128 0)"
  have E: "length E = 128" unfolding E_def by (rule xof_squeeze_lengths)
  let ?rho = "take 32 E" and ?K = "drop 96 E"
  obtain s a where s: "sample_s1_and_s2 (ETA p) (take 64 (drop 32 E)) (zero_vector (?R + ?C)) = Some s"
    and a: "matrix_flat ?C ?rho (zero_vector (?R * ?C)) = Some a"
    and out: "(sk, vk) = (let s1_ntt = ntt_vector ?C (slice_copy (zero_vector ?C) 0 (subslice s 0 ?C));
           t = snd (compute_as1_plus_s2 ?R ?C a s1_ntt s (zero_vector ?R));
           (t0, t1) = power2round_vector t (zero_vector ?R);
           verification_key = verification_key_generate_serialized ?rho t1 vk0
         in (signing_key_generate_serialized (ETA p) (error_size p) ?rho ?K verification_key s t0 sk0, verification_key))"
    using assms(1) unfolding generate_key_pair_def E_def [symmetric]
    by (auto simp: Let_def Option.bind_eq_Some_conv split_beta SEED_FOR_A_SIZE_def SEED_FOR_ERROR_VECTORS_SIZE_def E_def [symmetric])
  have bs: "dsa_vector (?C + ?R) (eta_value (ETA p)) s"
    using sample_s1_and_s2_values [OF _ wf_vector_zero _ s] E shape by (simp add: add.commute)
  have ba: "dsa_vector (?R * ?C) 8380416 a" using matrix_flat_values [OF _ wf_vector_zero a] E by simp
  have s1: "ntt_vector ?C (slice_copy (zero_vector ?C) 0 (subslice s 0 ?C)) = map dsa_ntt (take ?C s)"
    using dsa_vector_length [OF bs] by (subst ntt_vector_eq) (simp_all add: slice_copy_def subslice_def)
  define t where "t = snd (compute_as1_plus_s2 ?R ?C a (map dsa_ntt (take ?C s)) s (zero_vector ?R))"
  define t0 t1 where t01: "t0 = map_vector (fst \<circ> power2round_spec) t" "t1 = map_vector (snd \<circ> power2round_spec) t"
  note rounded = rounded_key_relation [OF ba bs, folded t_def, folded t01]
  have r: "\<And>x. x \<in> set t0 \<Longrightarrow> t0_range x" "\<And>x. x \<in> set t1 \<Longrightarrow> wf_dsa_ring x \<and> coeffs_in 10 (concat x)" "length t0 = ?R" "length t1 = ?R"
    using rounded(2) by (simp_all add: key_relation_def)
  have sk: "sk = signing_key_generate_serialized (ETA p) (error_size p) ?rho ?K vk s t0 sk0" and "vk = verification_key_generate_serialized ?rho t1 vk0"
    using out by (simp_all add: s1 t_def [symmetric] rounded(1) Let_def)
  then have vk: "vk = ?rho @ concat (map (\<lambda>re. byte_encode 10 (concat re)) t1)"
    using verification_key_generate_eq [of ?rho t1 vk0] r assms(3) E by (simp add: verification_key_size_eq)
  have t0s: "RING_ELEMENT_OF_T0S_SIZE = 416" by (simp add: RING_ELEMENT_OF_T0S_SIZE_def BITS_IN_LOWER_PART_OF_T_def DSA_COEFFICIENTS_IN_RING_ELEMENT_def)
  have "sk = ?rho @ ?K @ portable_shake256 (replicate 64 0) vk @ concat (map (error_encode (ETA p)) s) @ concat (map t0_encode t0)"
    unfolding sk using r E assms(2) bs error_width
    by (intro signing_key_generate_eq [where n = "?C + ?R"])
      (simp_all add: signing_key_size_def t0s SEED_FOR_A_SIZE_def SEED_FOR_SIGNING_SIZE_def BYTES_FOR_VERIFICATION_KEY_HASH_def add.commute)
  then show ?thesis by (intro that [OF _ _ a rounded(2) vk]) (use E in simp_all)
qed

text \<open>
  The vector that the verifier recomputes, as polynomials modulo \<open>q\<close>: with \<open>z = y + c s1\<close> and \<open>t1 2^13 = A s1 + s2 - t0\<close> it is \<open>A y - c s2 + c t0\<close>.
\<close>

lemma recomputed_commitment:
  assumes key: "key_relation (ROWS_IN_A p) (COLUMNS_IN_A p) (ETA p) a s t0 t1" and y: "dsa_vector (COLUMNS_IN_A p) (2 ^ GAMMA1_EXPONENT p) y" and c: "dsa_bounded 1 c"
  defines "w \<equiv> compute_matrix_x_mask (ROWS_IN_A p) (COLUMNS_IN_A p) a (map dsa_ntt y) (zero_vector (ROWS_IN_A p))"
    and "cs2 \<equiv> vector_times_ring_element (map dsa_ntt (drop (COLUMNS_IN_A p) s)) (dsa_ntt c)" and "ct0 \<equiv> vector_times_ring_element (map dsa_ntt t0) (dsa_ntt c)"
    and "z \<equiv> add_vectors (COLUMNS_IN_A p) y (vector_times_ring_element (map dsa_ntt (take (COLUMNS_IN_A p) s)) (dsa_ntt c))"
  defines "w' \<equiv> compute_w_approx (ROWS_IN_A p) (COLUMNS_IN_A p) a (map dsa_ntt z) (dsa_ntt c) t1"
  shows "dsa_vector (ROWS_IN_A p) 4211177 w" and "dsa_vector (ROWS_IN_A p) 4211177 cs2" and "dsa_vector (ROWS_IN_A p) 4211177 ct0"
    and "dsa_vector (COLUMNS_IN_A p) 4735465 z" and "dsa_vector (ROWS_IN_A p) 4211177 w'"
    and "i < ROWS_IN_A p \<Longrightarrow> k < 256 \<Longrightarrow> dsa_cong (dsa_coeff (w' ! i) k) (dsa_coeff (w ! i) k - dsa_coeff (cs2 ! i) k + dsa_coeff (ct0 ! i) k)"
proof -
  let ?R = "ROWS_IN_A p" and ?C = "COLUMNS_IN_A p" and ?c = "dsa_coeff (dsa_ntt c)"
  have Y: "dsa_vector ?C 524288 y" using mldsa_params_facts(1) [OF member] by (intro dsa_vector_mono [OF y]) auto
  have a: "dsa_vector (?R * ?C) 8380416 a" and ls: "length s = ?C + ?R" using key by (simp_all add: key_relation_def dsa_vector_def)
  note b = key_relation_bounds [OF key]
  have C: "dsa_bounded 100000000 (dsa_ntt c)" using ntt_vector_values(1) [of 1 1 "[c]"] c by (simp add: dsa_vector_def)
  note yn = ntt_vector_values [OF Y, simplified] and s2 = ntt_vector_values [OF b(4), simplified] and t0 = ntt_vector_values [OF b(1), simplified]
  note cs2 = vector_times_ring_element_values [OF s2(1) C, folded cs2_def] and ct0 = vector_times_ring_element_values [OF t0(1) C, folded ct0_def]
  note w = compute_matrix_x_mask_values [OF a yn(1) shape(2), folded w_def] and z = response_transform [OF Y b(3) C, folded z_def]
  note w' = compute_w_approx_values [OF a ntt_vector_values(1) [OF z(1), simplified] C b(2) shape(2), folded w'_def]
  show "dsa_vector ?R 4211177 w" "dsa_vector ?R 4211177 cs2" "dsa_vector ?R 4211177 ct0" "dsa_vector ?C 4735465 z" "dsa_vector ?R 4211177 w'"
    by (rule w(1) cs2(1) ct0(1) z(1) w'(1))+
  assume i: "i < ?R" and k: "k < (256 :: nat)"
  note x = dsa_hat_difference_sum [OF dsa_vector_nth [OF w(1) i] dsa_vector_nth [OF cs2(1) i] dsa_vector_nth [OF ct0(1) i]]
  have "dsa_cong (dsa_hat (w' ! i) l) (dsa_hat (dsa_polynomial_add (dsa_polynomial_subtract (w ! i) (cs2 ! i)) (ct0 ! i)) l)" if l: "l < 256" for l
  proof -
    have r: "dsa_cong (dsa_row ?C a i (\<lambda>j. dsa_coeff (map dsa_ntt z ! j)) l)
        (dsa_row ?C a i (\<lambda>j. dsa_coeff (map dsa_ntt y ! j)) l + dsa_row ?C a i (\<lambda>j. dsa_hat (s ! j)) l * ?c l)"
      unfolding dsa_row_add [of ?C a i "\<lambda>j. dsa_coeff (map dsa_ntt y ! j)" "\<lambda>j. dsa_hat (s ! j)" ?c l, symmetric]
    proof (rule dsa_row_cong)
      fix j assume j: "j < ?C"
      show "dsa_cong (dsa_coeff (map dsa_ntt z ! j) l) (dsa_coeff (map dsa_ntt y ! j) l + dsa_hat (s ! j) l * ?c l)" using z(2) [OF j l] j by simp
    qed
    have s2l: "dsa_cong (dsa_hat (cs2 ! i) l) (dsa_hat (s ! (?C + i)) l * ?c l)"
      using cong_mod_trans [OF cs2(2) [OF i l] cong_mod_mult [OF s2(2) [OF i l] cong_mod_refl]] ls i by simp
    have t0l: "dsa_cong (dsa_hat (ct0 ! i) l) (dsa_hat (t0 ! i) l * ?c l)"
      by (rule cong_mod_trans [OF ct0(2) [OF i l] cong_mod_mult [OF t0(2) [OF i l] cong_mod_refl]])
    have kl: "dsa_cong (8192 * dsa_hat (t1 ! i) l + dsa_hat (t0 ! i) l) (dsa_row ?C a i (\<lambda>j. dsa_hat (s ! j)) l + dsa_hat (s ! (?C + i)) l)"
      using key i l by (simp add: key_relation_def)
    show ?thesis by (rule recomputed_algebra [OF w'(2) [OF i l] r w(2) [OF i l] kl s2l t0l x(3) [OF l]])
  qed
  then show "dsa_cong (dsa_coeff (w' ! i) k) (dsa_coeff (w ! i) k - dsa_coeff (cs2 ! i) k + dsa_coeff (ct0 ! i) k)"
    unfolding x(2) [OF k, symmetric] using dsa_vector_wf [OF w'(1) i] x(1) k by (intro dsa_hat_inject)
qed

text \<open>What an attempt that is not rejected has computed and checked.\<close>

lemma attempt_success:
  assumes "signing_attempt p a s1n s2n t0n mu mask_seed ds = Some (ds', Some (h, z, hint))"
  obtains y w0 w1 c where "dsa_vector (COLUMNS_IN_A p) (2 ^ GAMMA1_EXPONENT p) y"
    and "decompose_vector (ROWS_IN_A p) (GAMMA2 p) (compute_matrix_x_mask (ROWS_IN_A p) (COLUMNS_IN_A p) a (ntt_vector (COLUMNS_IN_A p) y) (zero_vector (ROWS_IN_A p)))
      (zero_vector (ROWS_IN_A p)) (zero_vector (ROWS_IN_A p)) = Some (w0, w1)"
    and "commitment_hash_of p mu w1 = Some h" and "sample_challenge_ring_element h (ONES_IN_VERIFIER_CHALLENGE p) dsa_polynomial_zero = Some c"
    and "z = add_vectors (COLUMNS_IN_A p) y (vector_times_ring_element s1n (dsa_ntt c))"
    and "\<not> vector_infinity_norm_exceeds z (as_i32 (shl_i32 1 (GAMMA1_EXPONENT p) - dsa_beta (ONES_IN_VERIFIER_CHALLENGE p) (ETA p)))"
    and "\<not> vector_infinity_norm_exceeds (subtract_vectors (ROWS_IN_A p) w0 (vector_times_ring_element s2n (dsa_ntt c)))
      (as_i32 (GAMMA2 p - dsa_beta (ONES_IN_VERIFIER_CHALLENGE p) (ETA p)))"
    and "\<not> vector_infinity_norm_exceeds (vector_times_ring_element t0n (dsa_ntt c)) (GAMMA2 p)"
    and "snd (make_hint (add_vectors (ROWS_IN_A p) (subtract_vectors (ROWS_IN_A p) w0 (vector_times_ring_element s2n (dsa_ntt c)))
      (vector_times_ring_element t0n (dsa_ntt c))) w1 (GAMMA2 p) (zero_hint (ROWS_IN_A p))) = hint"
    and "fst (make_hint (add_vectors (ROWS_IN_A p) (subtract_vectors (ROWS_IN_A p) w0 (vector_times_ring_element s2n (dsa_ntt c)))
      (vector_times_ring_element t0n (dsa_ntt c))) w1 (GAMMA2 p) (zero_hint (ROWS_IN_A p))) \<le> MAX_ONES_IN_HINT p"
proof -
  obtain ds2 y where y: "sample_mask_vector (COLUMNS_IN_A p) (GAMMA1_EXPONENT p) mask_seed ds (zero_vector (COLUMNS_IN_A p)) = Some (ds2, y)"
    "dsa_vector (COLUMNS_IN_A p) (2 ^ GAMMA1_EXPONENT p) y"
    by (rule sample_mask_vector_values [OF mldsa_params_facts(1) [OF member] shape(1) wf_vector_zero])
  show ?thesis
    using assms y(1) unfolding signing_attempt_def
    by (auto simp: Let_def Option.bind_eq_Some_conv split_beta not_less split: if_splits intro!: that [OF y(2)])
qed

lemma commitment_decomposition:
  assumes "dsa_vector (ROWS_IN_A p) 4211177 w"
    and "decompose_vector (ROWS_IN_A p) (GAMMA2 p) w (zero_vector (ROWS_IN_A p)) (zero_vector (ROWS_IN_A p)) = Some (w0, w1)"
  shows "dsa_vector (ROWS_IN_A p) 261888 w0" and "length w1 = ROWS_IN_A p" and "list_all wf_dsa_ring w1"
    and "i < ROWS_IN_A p \<Longrightarrow> k < 256 \<Longrightarrow> 0 \<le> dsa_coeff (w1 ! i) k \<and> dsa_coeff (w1 ! i) k < m
      \<and> dsa_cong (dsa_coeff (w ! i) k) (dsa_coeff (w1 ! i) k * (2 * GAMMA2 p) + dsa_coeff (w0 ! i) k)"
proof -
  let ?R = "ROWS_IN_A p" and ?g = "GAMMA2 p"
  have g: "?g = 95232 \<or> ?g = 261888" "?g \<le> 261888" using rounding by auto
  have w01: "w0 = map_vector (fst \<circ> decompose_spec ?g) w" "w1 = map_vector (snd \<circ> decompose_spec ?g) w"
    using assms(2) decompose_vector_eq [OF g(1) dsa_vector_mono [OF assms(1)], of "zero_vector ?R" "zero_vector ?R"] wf_vector_zero [of ?R] by (simp_all add: wf_vector_def)
  have lw: "length w = ?R" and ww: "wf_dsa_ring (w ! i)" if "i < ?R" for i using dsa_vector_length [OF assms(1)] dsa_vector_wf [OF assms(1)] that by simp_all
  have cw: "dsa_coeff (w0 ! i) k = fst (decompose_spec ?g (dsa_coeff (w ! i) k))" "dsa_coeff (w1 ! i) k = snd (decompose_spec ?g (dsa_coeff (w ! i) k))"
    if "i < ?R" "k < 256" for i k using that ww lw [OF that(1)] unfolding w01 by (simp_all add: dsa_coeff_map)
  show "dsa_vector ?R 261888 w0"
  proof (rule dsa_vectorI)
    show "length w0 = ?R" using dsa_vector_length [OF assms(1)] by (simp add: w01)
    fix i assume i: "i < ?R"
    have "wf_dsa_ring (w0 ! i)" using i ww lw [OF i] by (simp add: w01)
    then show "dsa_bounded 261888 (w0 ! i)" using cw(1) [OF i] decompose_spec_range(2) [OF rounding] g(2) by (auto simp: dsa_bounded_iff intro: order_trans)
  qed
  show "length w1 = ?R" "list_all wf_dsa_ring w1" using dsa_vector_length [OF assms(1)] ww by (auto simp: w01 list_all_length)
  show "i < ?R \<Longrightarrow> k < 256 \<Longrightarrow> 0 \<le> dsa_coeff (w1 ! i) k \<and> dsa_coeff (w1 ! i) k < m
      \<and> dsa_cong (dsa_coeff (w ! i) k) (dsa_coeff (w1 ! i) k * (2 * ?g) + dsa_coeff (w0 ! i) k)"
    using decompose_spec_range(1,3,4) [OF rounding] by (simp add: cw)
qed

text \<open>
  The hint of the low part \<open>w0 - cs2 + ct0\<close>, small enough by the norm checks, returns the high part \<open>w1\<close> of \<open>w\<close> from any \<open>w'\<close> congruent to \<open>w - cs2 + ct0\<close>.
\<close>

lemma hint_returns_commitment:
  assumes w: "dsa_vector (ROWS_IN_A p) 4211177 w"
      "decompose_vector (ROWS_IN_A p) (GAMMA2 p) w (zero_vector (ROWS_IN_A p)) (zero_vector (ROWS_IN_A p)) = Some (w0, w1)"
    and cs2: "dsa_vector (ROWS_IN_A p) 4211177 cs2" and ct0: "dsa_vector (ROWS_IN_A p) 4211177 ct0"
    and w': "dsa_vector (ROWS_IN_A p) 4211177 w'"
      "\<And>i k. i < ROWS_IN_A p \<Longrightarrow> k < 256 \<Longrightarrow> dsa_cong (dsa_coeff (w' ! i) k) (dsa_coeff (w ! i) k - dsa_coeff (cs2 ! i) k + dsa_coeff (ct0 ! i) k)"
    and nw: "\<not> vector_infinity_norm_exceeds (subtract_vectors (ROWS_IN_A p) w0 cs2) (GAMMA2 p - dsa_beta (ONES_IN_VERIFIER_CHALLENGE p) (ETA p))"
    and nt: "\<not> vector_infinity_norm_exceeds ct0 (GAMMA2 p)"
  defines "low \<equiv> add_vectors (ROWS_IN_A p) (subtract_vectors (ROWS_IN_A p) w0 cs2) ct0"
  shows "length low = ROWS_IN_A p" and "list_all wf_dsa_ring low"
    and "vector_use_hint (GAMMA2 p) (map2 (hint_row (GAMMA2 p)) low w1) w' = Some w1"
proof -
  let ?R = "ROWS_IN_A p" and ?g = "GAMMA2 p" and ?b = "dsa_beta (ONES_IN_VERIFIER_CHALLENGE p) (ETA p)"
  have g: "0 < ?g" "?g \<le> 261888" using rounding by auto
  note d = commitment_decomposition [OF w]
  note sub = vector_sum_values [OF d(1) cs2, simplified]
  have bsub: "dsa_vector ?R (?g - ?b - 1) (subtract_vectors ?R w0 cs2)" using vector_norm_bound [OF dsa_vector_mono [OF sub(2)] nw] by simp
  have bct: "dsa_vector ?R (?g - 1) ct0" using vector_norm_bound [OF dsa_vector_mono [OF ct0] nt] by simp
  note sum = vector_sum_values [OF bsub bct, folded low_def]
  have lowv: "dsa_vector ?R (?g - ?b - 1 + (?g - 1)) low" using sum(1) g beta by simp
  show wl: "length low = ?R" "list_all wf_dsa_ring low" using dsa_vector_length [OF lowv] dsa_vector_wf [OF lowv] by (auto simp: list_all_length)
  show "vector_use_hint ?g (map2 (hint_row ?g) low w1) w' = Some w1"
  proof (rule vector_use_hint_eq [OF rounding])
    fix i k assume i: "i < ?R" and k: "k < (256 :: nat)"
    have "\<bar>dsa_coeff (low ! i) k\<bar> < 2 * ?g" using dsa_bounded_nth [OF dsa_vector_nth [OF lowv i] k] beta by simp
    moreover have l: "dsa_coeff (w1 ! i) k * (2 * ?g) + dsa_coeff (low ! i) k
        = dsa_coeff (w1 ! i) k * (2 * ?g) + dsa_coeff (w0 ! i) k - dsa_coeff (cs2 ! i) k + dsa_coeff (ct0 ! i) k"
      using sum(3) [OF _ i k] sub(4) [OF i k] g beta by simp
    have "dsa_cong (dsa_coeff (w' ! i) k) (dsa_coeff (w1 ! i) k * (2 * ?g) + dsa_coeff (low ! i) k)"
      unfolding l using d(4) [OF i k] by (intro cong_mod_trans [OF w'(2) [OF i k]] cong_mod_add cong_mod_diff cong_mod_refl) simp
    ultimately show "0 \<le> dsa_coeff (w1 ! i) k \<and> dsa_coeff (w1 ! i) k < m \<and> \<bar>dsa_coeff (low ! i) k\<bar> < 2 * ?g
      \<and> dsa_cong (dsa_coeff (w' ! i) k) (dsa_coeff (w1 ! i) k * (2 * ?g) + dsa_coeff (low ! i) k)" using d(4) [OF i k] by blast
  qed (use wl d w'(1) dsa_vector_length [OF w'(1)] in \<open>auto intro: dsa_vector_mono\<close>)
qed

text \<open>The checks make the low part small and the commitment is what the verifier recovers.\<close>

lemma response_verifies:
  assumes key: "key_relation (ROWS_IN_A p) (COLUMNS_IN_A p) (ETA p) a s t0 t1"
    and att: "signing_attempt p a (map dsa_ntt (take (COLUMNS_IN_A p) s)) (map dsa_ntt (drop (COLUMNS_IN_A p) s)) (map dsa_ntt t0) mu mask_seed ds = Some (ds', Some (h, z, hint))"
  obtains c w1 where "wf_signature p h z hint"
    and "\<not> vector_infinity_norm_exceeds z (as_i32 (shl_i32 1 (GAMMA1_EXPONENT p) - dsa_beta (ONES_IN_VERIFIER_CHALLENGE p) (ETA p)))"
    and "sample_challenge_ring_element h (ONES_IN_VERIFIER_CHALLENGE p) dsa_polynomial_zero = Some c"
    and "vector_use_hint (GAMMA2 p) hint (compute_w_approx (ROWS_IN_A p) (COLUMNS_IN_A p) a (ntt_vector (COLUMNS_IN_A p) z) (dsa_ntt c) t1) = Some w1"
    and "commitment_hash_of p mu w1 = Some h"
proof -
  let ?R = "ROWS_IN_A p" and ?C = "COLUMNS_IN_A p" and ?g = "GAMMA2 p" and ?e = "GAMMA1_EXPONENT p"
  let ?b = "dsa_beta (ONES_IN_VERIFIER_CHALLENGE p) (ETA p)"
  let ?s1 = "take ?C s" and ?s2 = "drop ?C s"
  obtain y w0 w1 c where y: "dsa_vector ?C (2 ^ ?e) y"
    and w: "decompose_vector ?R ?g (compute_matrix_x_mask ?R ?C a (ntt_vector ?C y) (zero_vector ?R)) (zero_vector ?R) (zero_vector ?R) = Some (w0, w1)"
    and h: "commitment_hash_of p mu w1 = Some h" and c: "sample_challenge_ring_element h (ONES_IN_VERIFIER_CHALLENGE p) dsa_polynomial_zero = Some c"
    and z: "z = add_vectors ?C y (vector_times_ring_element (map dsa_ntt ?s1) (dsa_ntt c))"
    and nz: "\<not> vector_infinity_norm_exceeds z (as_i32 (shl_i32 1 ?e - ?b))"
    and nw: "\<not> vector_infinity_norm_exceeds (subtract_vectors ?R w0 (vector_times_ring_element (map dsa_ntt ?s2) (dsa_ntt c))) (as_i32 (?g - ?b))"
    and nt: "\<not> vector_infinity_norm_exceeds (vector_times_ring_element (map dsa_ntt t0) (dsa_ntt c)) ?g"
    and hint: "snd (make_hint (add_vectors ?R (subtract_vectors ?R w0 (vector_times_ring_element (map dsa_ntt ?s2) (dsa_ntt c)))
      (vector_times_ring_element (map dsa_ntt t0) (dsa_ntt c))) w1 ?g (zero_hint ?R)) = hint"
    and ones: "fst (make_hint (add_vectors ?R (subtract_vectors ?R w0 (vector_times_ring_element (map dsa_ntt ?s2) (dsa_ntt c)))
      (vector_times_ring_element (map dsa_ntt t0) (dsa_ntt c))) w1 ?g (zero_hint ?R)) \<le> MAX_ONES_IN_HINT p"
    using att by (rule attempt_success)
  let ?cs2 = "vector_times_ring_element (map dsa_ntt ?s2) (dsa_ntt c)" and ?ct0 = "vector_times_ring_element (map dsa_ntt t0) (dsa_ntt c)"
  let ?low = "add_vectors ?R (subtract_vectors ?R w0 ?cs2) ?ct0"
  have c1: "dsa_bounded 1 c" using sample_challenge_values [OF c dsa_bounded_wf [OF dsa_coeff_zero(2)]] .
  note rc = recomputed_commitment [OF key y c1, folded z]
  have "0 < ?g" "?g \<le> 261888" using rounding by auto
  then have eb: "as_i32 (shl_i32 1 ?e - ?b) = 2 ^ ?e - ?b" "as_i32 (?g - ?b) = ?g - ?b"
    using mldsa_params_facts(1) [OF member] beta by (auto simp: shl_i32_def is_i32_def)
  have ny: "ntt_vector ?C y = map dsa_ntt y" "ntt_vector ?C z = map dsa_ntt z"
    using dsa_vector_length [OF y] dsa_vector_length [OF rc(4)] by (simp_all add: ntt_vector_eq)
  note w1v = commitment_decomposition(2,3) [OF rc(1) w [unfolded ny]]
  note low = hint_returns_commitment [OF rc(1) w [unfolded ny] rc(2,3,5,6) nw [unfolded eb] nt]
  have mh: "make_hint ?low w1 ?g (zero_hint ?R) = (length (concat (map hint_indices (map2 (hint_row ?g) ?low w1))), map2 (hint_row ?g) ?low w1)"
    using low(1,2) w1v by (intro make_hint_eq) simp_all
  have bz: "dsa_vector ?C (2 ^ ?e - ?b - 1) z" using vector_norm_bound [OF dsa_vector_mono [OF rc(4)] nz] eb(1) by simp
  have "gamma1_range ?e (concat re)" if "re \<in> set z" for re
    using that bz beta(1) by (force simp: dsa_vector_def dsa_bounded_def coeffs_in_def list_all_iff)
  then have "wf_response ?C ?e z" using bz dsa_bounded_wf by (auto simp: wf_response_def dsa_vector_def list_all_iff)
  moreover have "length h = COMMITMENT_HASH_SIZE p"
    using h xof_squeeze_lengths by (auto simp: commitment_hash_of_def Option.bind_eq_Some_conv Let_def)
  moreover have "wf_hint (MAX_ONES_IN_HINT p) ?R hint"
    using hint ones low(1,2) w1v unfolding mh by (auto simp: wf_hint_def list_all_length intro!: wf_hint_row_hint_row)
  ultimately show ?thesis using nz c h low(3) hint unfolding mh by (intro that [of c w1]) (simp_all add: ny)
qed

text \<open>Signing reads the key that generation wrote, so a signature is the serialization of an accepted attempt, and verification deserializes it.\<close>

lemma signed_message_verifies:
  assumes "generate_key_pair p randomness sk0 vk0 = Some (sk, vk)"
    and "length sk0 = signing_key_size (ROWS_IN_A p) (COLUMNS_IN_A p) (error_size p)" and "length vk0 = verification_key_size (ROWS_IN_A p)"
    and sign: "sign_internal p sk message dsc sign_randomness (replicate (size_for p) 0) = Some (Inr (), sig)"
  shows "verify_internal p vk message dsc sig = Some (Inr ()) \<and> length sig = size_for p"
proof -
  let ?R = "ROWS_IN_A p" and ?C = "COLUMNS_IN_A p"
  obtain rho K a s t0 t1 where rho: "length rho = 32" and K: "length K = 32" and a: "matrix_flat ?C rho (zero_vector (?R * ?C)) = Some a"
    and rel: "key_relation ?R ?C (ETA p) a s t0 t1" and vk: "vk = rho @ concat (map (\<lambda>re. byte_encode 10 (concat re)) t1)"
    and sk: "sk = rho @ K @ portable_shake256 (replicate 64 0) vk @ concat (map (error_encode (ETA p)) s) @ concat (map t0_encode t0)"
    using assms(1-3) by (rule key_pair_relation)
  let ?H = "portable_shake256 (replicate 64 0) vk" and ?enc = "error_encode (ETA p)"
  have H: "length ?H = 64" by (simp add: shake_eqs)
  have bs: "dsa_vector (?C + ?R) (eta_value (ETA p)) s" and lt: "length t0 = ?R" "length t1 = ?R" using rel by (simp_all add: key_relation_def)
  have parts: "dsa_vector ?C (eta_value (ETA p)) (take ?C s)" "dsa_vector ?R (eta_value (ETA p)) (drop ?C s)"
    using bs by (auto simp: dsa_vector_def dest: in_set_takeD in_set_dropD)
  have le: "length (concat (map ?enc v)) = error_size p * n" if "dsa_vector n (eta_value (ETA p)) v" for n v
    using length_concat_uniform [of "map ?enc v" "error_size p"] error_encode_facts(2) that error_width by (auto simp: dsa_vector_def mult.commute)
  have split: "concat (map ?enc s) = concat (map ?enc (take ?C s)) @ concat (map ?enc (drop ?C s))"
    by (metis append_take_drop_id concat_append map_append)
  have s1n: "error_deserialize_to_vector_then_ntt (ETA p) (error_size p) (concat (map ?enc (take ?C s))) (zero_vector ?C) = map dsa_ntt (take ?C s)"
    and s2n: "error_deserialize_to_vector_then_ntt (ETA p) (error_size p) (concat (map ?enc (drop ?C s))) (zero_vector ?R) = map dsa_ntt (drop ?C s)"
    using error_deserialize_vector [OF parts(1) wf_vector_zero error_width] error_deserialize_vector [OF parts(2) wf_vector_zero error_width] by simp_all
  have t0n: "t0_deserialize_to_vector_then_ntt (concat (map t0_encode t0)) (zero_vector ?R) = map dsa_ntt t0"
    using rel lt(1) wf_vector_zero [of ?R] by (intro t0_deserialize_vector) (simp_all add: key_relation_def)
  define mu where "mu = derive_message_representative ?H dsc message"
  let ?att = "\<lambda>seed. signing_attempt p a (map dsa_ntt (take ?C s)) (map dsa_ntt (drop ?C s)) (map dsa_ntt t0) mu seed"
  obtain seed h z hint where loop: "signing_loop REJECTION_SAMPLE_BOUND_SIGN (?att seed) 0 = Some (Some (h, z, hint))"
    and ser: "serialize_for p h z hint = Some sig"
    using sign le [OF parts(1)] le [OF parts(2)] unfolding sign_internal_def sk split
    by (auto simp: rho K H SEED_FOR_A_SIZE_def SEED_FOR_SIGNING_SIZE_def BYTES_FOR_VERIFICATION_KEY_HASH_def Let_def s1n s2n t0n a mu_def [symmetric]
        Option.bind_eq_Some_conv split: option.splits)
  obtain ds ds' where "?att seed ds = Some (ds', Some (h, z, hint))" using loop by (rule signing_loop_success)
  then obtain c w1 where wf: "wf_signature p h z hint"
    and nz: "\<not> vector_infinity_norm_exceeds z (as_i32 (shl_i32 1 (GAMMA1_EXPONENT p) - dsa_beta (ONES_IN_VERIFIER_CHALLENGE p) (ETA p)))"
    and c: "sample_challenge_ring_element h (ONES_IN_VERIFIER_CHALLENGE p) dsa_polynomial_zero = Some c"
    and use: "vector_use_hint (GAMMA2 p) hint (compute_w_approx ?R ?C a (ntt_vector ?C z) (dsa_ntt c) t1) = Some w1"
    and h: "commitment_hash_of p mu w1 = Some h"
    by (rule response_verifies [OF rel])
  have sig: "sig = h @ encode_response (GAMMA1_EXPONENT p) z @ hint_bytes (MAX_ONES_IN_HINT p) hint" and len: "length sig = size_for p"
    using serialize_for_eq [OF member wf] ser by simp_all
  have "deserialize_for p sig (replicate (COMMITMENT_HASH_SIZE p) 0) (zero_vector ?C) = Some (Inr (), h, z, hint)"
  proof -
    have "deserialize_for p sig (replicate (COMMITMENT_HASH_SIZE p) 0) (zero_vector ?C)
        = Some (case deserialize_hints (hint_bytes (MAX_ONES_IN_HINT p) hint) ?R (MAX_ONES_IN_HINT p) (zero_hint ?R) of (malformed, hnt) \<Rightarrow>
            (if malformed then Inl MalformedHintError else Inr (), h, decode_response (GAMMA1_EXPONENT p) (encode_response (GAMMA1_EXPONENT p) z), hnt))"
      unfolding sig mldsa_params_facts(3) [OF member] using wf wf_vector_zero [of ?C] response_encoding(1) [OF mldsa_params_facts(1) [OF member]]
      by (intro signature_deserialize_eq [OF mldsa_params_facts(1) [OF member]]) (simp_all add: wf_vector_def)
    moreover have "decode_response (GAMMA1_EXPONENT p) (encode_response (GAMMA1_EXPONENT p) z) = z"
      using wf by (intro response_encoding(2) [OF mldsa_params_facts(1) [OF member], of ?C]) simp
    moreover have "deserialize_hints (hint_bytes (MAX_ONES_IN_HINT p) hint) ?R (MAX_ONES_IN_HINT p) (zero_hint ?R) = (False, hint)"
      using wf by (intro deserialize_hints_bytes [OF _ mldsa_params_facts(2) [OF member]]) simp
    ultimately show ?thesis by (simp only: prod.case if_False)
  qed
  moreover have "verification_key_deserialize ?R (verification_key_size ?R) (concat (map (\<lambda>re. byte_encode 10 (concat re)) t1)) (zero_vector ?R) = t1"
    using rel lt(2) by (intro verification_key_vector) (simp_all add: key_relation_def)
  moreover have "take 32 vk = rho" "drop 32 vk = concat (map (\<lambda>re. byte_encode 10 (concat re)) t1)" using rho by (simp_all add: vk)
  ultimately show ?thesis using nz c use h a len unfolding verify_internal_def Let_def case_unit_Unity by (simp add: SEED_FOR_A_SIZE_def mu_def)
qed

end

interpretation dsa_44: dsa_parameters mldsa44 44 6
  by unfold_locales (simp_all add: mldsa44_def DSA_FIELD_MODULUS_def error_ring_element_size_def error_chunk_size_def DSA_COEFFICIENTS_IN_RING_ELEMENT_def dsa_beta_def is_i32_def)

interpretation dsa_65: dsa_parameters mldsa65 16 4
  by unfold_locales (simp_all add: mldsa65_def DSA_FIELD_MODULUS_def error_ring_element_size_def error_chunk_size_def DSA_COEFFICIENTS_IN_RING_ELEMENT_def dsa_beta_def is_i32_def)

interpretation dsa_87: dsa_parameters mldsa87 16 4
  by unfold_locales (simp_all add: mldsa87_def DSA_FIELD_MODULUS_def error_ring_element_size_def error_chunk_size_def DSA_COEFFICIENTS_IN_RING_ELEMENT_def dsa_beta_def is_i32_def)

subsection \<open>Properties\<close>

lemma dsa_signed_verifies:
  assumes "p \<in> {mldsa44, mldsa65, mldsa87}" and "generate_key_pair p randomness sk0 vk0 = Some (sk, vk)"
    and "length sk0 = signing_key_size (ROWS_IN_A p) (COLUMNS_IN_A p) (error_size p)" and "length vk0 = verification_key_size (ROWS_IN_A p)"
    and "sign_internal p sk message dsc sign_randomness (replicate (size_for p) 0) = Some (Inr (), sig)"
  shows "verify_internal p vk message dsc sig = Some (Inr ()) \<and> length sig = size_for p"
proof -
  consider "p = mldsa44" | "p = mldsa65" | "p = mldsa87" using assms(1) by auto
  then show ?thesis
  proof cases
    case 1
    show ?thesis using assms(2-5) unfolding 1 by (rule dsa_44.signed_message_verifies)
  next
    case 2
    show ?thesis using assms(2-5) unfolding 2 by (rule dsa_65.signed_message_verifies)
  next
    case 3
    show ?thesis using assms(2-5) unfolding 3 by (rule dsa_87.signed_message_verifies)
  qed
qed

text \<open>
  C2. Signatures verify, for each of the three parameter sets and for every seed, message, context and randomness: generating a key pair, signing and verifying the
  signature gives what generating and signing alone gives, with acceptance in the place of the signature; in particular verification returns whenever signing does.
  The errors of signing (context too long, all attempts rejected) are the only other outcomes.
\<close>

theorem dsa_sign_then_verify:
  assumes "p \<in> {mldsa44, mldsa65, mldsa87}"
    and "length sk0 = signing_key_size (ROWS_IN_A p) (COLUMNS_IN_A p) (error_size p)" and "length vk0 = verification_key_size (ROWS_IN_A p)"
  shows "do { (sk, vk) \<leftarrow> generate_key_pair p randomness sk0 vk0;
             signed \<leftarrow> sign p sk message ctx sign_randomness;
             case signed of Inl e \<Rightarrow> Some (Inl e)
             | Inr sig \<Rightarrow> map_option (\<lambda>verdict. Inr (verdict, length sig)) (verify p vk message ctx sig) }
    = do { (sk, vk) \<leftarrow> generate_key_pair p randomness sk0 vk0;
           map_option (map_sum id (\<lambda>sig. (Inr (), size_for p))) (sign p sk message ctx sign_randomness) }"
proof (rule Option.bind_cong [OF refl], clarify, goal_cases)
  case (1 sk vk)
  show ?case
  proof (cases "pre_hash_new ctx None")
    case (Inr dsc)
    have "verify_internal p vk message (Some dsc) sig = Some (Inr ()) \<and> length sig = size_for p"
      if "sign_internal p sk message (Some dsc) sign_randomness (replicate (size_for p) 0) = Some (Inr (), sig)" for sig
      using dsa_signed_verifies [OF assms(1) 1 assms(2,3) that] .
    note V = this
    show ?thesis
    proof (cases "sign_internal p sk message (Some dsc) sign_randomness (replicate (size_for p) 0)")
      case (Some r)
      then show ?thesis using V [of "snd r"] by (cases r; cases "fst r") (simp_all add: sign_def sign_mut_def verify_def Inr case_unit_Unity)
    qed (simp add: sign_def sign_mut_def Inr)
  qed (simp add: sign_def sign_mut_def)
qed

lemmas dsa_size_defs = mldsa44_def mldsa65_def signing_key_size_def verification_key_size_eq signature_size_def gamma1_ring_element_size_def error_ring_element_size_def
  SEED_FOR_A_SIZE_def SEED_FOR_SIGNING_SIZE_def BYTES_FOR_VERIFICATION_KEY_HASH_def RING_ELEMENT_OF_T0S_SIZE_def BITS_IN_LOWER_PART_OF_T_def DSA_COEFFICIENTS_IN_RING_ELEMENT_def

theorem dsa_sign_then_verify_witness:
  "do { (sk, vk) \<leftarrow> generate_key_pair mldsa65 (replicate 32 3) (replicate 4032 0) (replicate 1952 0);
        signed \<leftarrow> sign mldsa65 sk [1, 2, 3] [4] (replicate 32 5);
        case signed of Inl e \<Rightarrow> Some (Inl e)
        | Inr sig \<Rightarrow> map_option (\<lambda>verdict. Inr (verdict, length sig)) (verify mldsa65 vk [1, 2, 3] [4] sig) }
    = do { (sk, vk) \<leftarrow> generate_key_pair mldsa65 (replicate 32 3) (replicate 4032 0) (replicate 1952 0);
           map_option (map_sum id (\<lambda>sig. (Inr (), 3309))) (sign mldsa65 sk [1, 2, 3] [4] (replicate 32 5)) }"
proof -
  have sizes: "signing_key_size (ROWS_IN_A mldsa65) (COLUMNS_IN_A mldsa65) (error_size mldsa65) = 4032" "verification_key_size (ROWS_IN_A mldsa65) = 1952" "size_for mldsa65 = 3309"
    by (simp_all add: dsa_size_defs)
  show ?thesis using dsa_sign_then_verify [of mldsa65 "replicate 4032 0" "replicate 1952 0" "replicate 32 3" "[1, 2, 3]" "[4]" "replicate 32 5", unfolded sizes] by simp
qed

text \<open>
  C3. The same for the variant that hashes the message first: signing and verifying with the SHAKE128 pre-hash of the message, with buffers of the same length for the
  hash, accepts exactly what signing returns.
\<close>

theorem dsa_pre_hashed_sign_then_verify:
  assumes "p \<in> {mldsa44, mldsa65, mldsa87}"
    and "length sk0 = signing_key_size (ROWS_IN_A p) (COLUMNS_IN_A p) (error_size p)" and "length vk0 = verification_key_size (ROWS_IN_A p)"
    and "length buffer = length buffer'"
  shows "do { (sk, vk) \<leftarrow> generate_key_pair p randomness sk0 vk0;
             (signed, hash) \<leftarrow> sign_pre_hashed p sk message ctx buffer sign_randomness;
             case signed of Inl e \<Rightarrow> Some (Inl e)
             | Inr sig \<Rightarrow> map_option (\<lambda>(verdict, hash'). Inr (verdict, hash = hash', length sig)) (verify_pre_hashed p vk message ctx buffer' sig) }
    = do { (sk, vk) \<leftarrow> generate_key_pair p randomness sk0 vk0;
           map_option (\<lambda>(signed, hash). map_sum id (\<lambda>sig. (Inr (), True, size_for p)) signed) (sign_pre_hashed p sk message ctx buffer sign_randomness) }"
proof (rule Option.bind_cong [OF refl], clarify, goal_cases)
  case (1 sk vk)
  show ?case
  proof (cases "pre_hash_new ctx (Some SHAKE128_OID)")
    case (Inr dsc)
    have "verify_internal p vk msg (Some dsc) sig = Some (Inr ()) \<and> length sig = size_for p"
      if "sign_internal p sk msg (Some dsc) sign_randomness (replicate (size_for p) 0) = Some (Inr (), sig)" for sig msg
      using dsa_signed_verifies [OF assms(1) 1 assms(2,3) that] .
    moreover have "pre_hash_hash message buffer = pre_hash_hash message buffer'" using assms(4) by (simp add: pre_hash_hash_def shake_eqs)
    note V = calculation this
    show ?thesis
    proof (cases "sign_internal p sk (pre_hash_hash message buffer) (Some dsc) sign_randomness (replicate (size_for p) 0)")
      case (Some r)
      then show ?thesis using V(1) [of "pre_hash_hash message buffer" "snd r"] V(2)
        by (cases r; cases "fst r") (simp_all add: sign_pre_hashed_def sign_pre_hashed_mut_def verify_pre_hashed_def Inr case_unit_Unity)
    qed (simp add: sign_pre_hashed_def sign_pre_hashed_mut_def Inr)
  qed (simp add: sign_pre_hashed_def sign_pre_hashed_mut_def)
qed

theorem dsa_pre_hashed_sign_then_verify_witness:
  "do { (sk, vk) \<leftarrow> generate_key_pair mldsa44 (replicate 32 3) (replicate 2560 0) (replicate 1312 0);
        (signed, hash) \<leftarrow> sign_pre_hashed mldsa44 sk [1, 2, 3] [] (replicate 256 0) (replicate 32 5);
        case signed of Inl e \<Rightarrow> Some (Inl e)
        | Inr sig \<Rightarrow> map_option (\<lambda>(verdict, hash'). Inr (verdict, hash = hash', length sig)) (verify_pre_hashed mldsa44 vk [1, 2, 3] [] (replicate 256 1) sig) }
    = do { (sk, vk) \<leftarrow> generate_key_pair mldsa44 (replicate 32 3) (replicate 2560 0) (replicate 1312 0);
           map_option (\<lambda>(signed, hash). map_sum id (\<lambda>sig. (Inr (), True, 2420)) signed) (sign_pre_hashed mldsa44 sk [1, 2, 3] [] (replicate 256 0) (replicate 32 5)) }"
proof -
  have sizes: "signing_key_size (ROWS_IN_A mldsa44) (COLUMNS_IN_A mldsa44) (error_size mldsa44) = 2560" "verification_key_size (ROWS_IN_A mldsa44) = 1312" "size_for mldsa44 = 2420"
    by (simp_all add: dsa_size_defs)
  show ?thesis using dsa_pre_hashed_sign_then_verify [of mldsa44 "replicate 2560 0" "replicate 1312 0" "replicate 256 0" "replicate 256 1" "replicate 32 3" "[1, 2, 3]" "[]" "replicate 32 5", unfolded sizes]
    by simp
qed

end
