(* ===== verification/Spec2Isabelle.thy ===== *)
theory Spec2Isabelle
  imports MLKEM_Kem MLDSA_SignVerify
begin

text \<open>
  Verification of the portable C code of libcrux, \<open>src/combined_extraction/c\<close>: the hash functions SHA-3 and SHAKE (FIPS 202), the key encapsulation mechanism ML-KEM
  (FIPS 203) and the signature scheme ML-DSA (FIPS 204), each down to the arithmetic on vectors of machine integers and the packing of bits.

  \<^bold>\<open>The program and its parts.\<close> \<open>libcrux_sha3_portable.c\<close> has the permutation, the one-shot functions, the block-wise functions and the incremental functions.
  \<open>libcrux_mlkem_portable.c\<close> and \<open>libcrux_mlkem_core.c\<close> have ML-KEM: the vectors of sixteen coefficients, ring elements of sixteen such vectors, the encryption scheme
  (\<open>ind_cpa\<close>) over SHAKE128 for the matrix and SHAKE256 for the noise, and the encapsulation (\<open>ind_cca\<close>), which uses the comparison and the selection of
  \<open>libcrux_ct_ops.c\<close>. \<open>libcrux_mldsa_core.c\<close> has the arithmetic, the encodings, the transform and the matrix operations of ML-DSA on ring elements of thirty-two vectors
  of eight coefficients, and \<open>libcrux_mldsa_portable.c\<close> the sampling, key generation, signing and verification. The C code is generated and has one copy of a function per
  parameter set, length or rate; where the copies differ in these only, the model has one definition with an argument or with the record of parameters.

  \<^bold>\<open>How the model is written.\<close> Signed C integers are \<open>int\<close> with \<open>as_i16\<close>, \<open>as_i32\<close>, \<open>as_i64\<close> at every operation that can wrap; unsigned ones are words;
  \<open>size_t\<close> counters are \<open>nat\<close>. Arrays and slices are lists; what is written through a pointer is returned. \<open>for_loop\<close> is the counting loop of the code. A loop that need
  not end is a \<open>while_option\<close>, so \<open>None\<close> means that the code does not return, or that it aborts; there is no fuel. The 814 attempts of ML-DSA signing are the bound
  of the code. Errors that the code returns are values of sum types.

  \<^bold>\<open>Shared theories.\<close>
  \<^item> \<open>Libcrux_Prelude\<close>: machine integers, loops, slices, congruence. \<open>Libcrux_Bits\<close>: ByteEncode and ByteDecode on streams of bits.
  \<^item> \<open>Libcrux_Layers\<close>, \<open>Libcrux_Transform\<close>: number-theoretic transforms as layers of butterflies, independent of the scheme. The locales \<open>root_table\<close> and
    \<open>root_of_unity\<close> show that the forward and the inverse transform are linear, invert each other and turn products into products of leaves; ML-KEM (modulus 3329,
    root 17, seven layers) and ML-DSA (8380417, 1753, eight) interpret them.
  \<^item> \<open>Libcrux_Stream\<close>: the block-wise SHAKE functions as readers of one stream, and the end of \<open>while_option\<close> loops.

  \<^bold>\<open>SHA-3.\<close>
  \<^item> \<open>SHA3_Keccak\<close>: \<open>keccakf1600\<close> is Keccak-f[1600] as FIPS 202 defines it. \<open>SHA3_Sponge\<close>: absorbing, padding and squeezing (locale \<open>sponge_rate\<close>, interpreted for
    the five rates); the six one-shot functions are the sponge. \<open>SHA3_Xof\<close>: the buffered interface; any division of the input and of the output gives the bytes of the one-shot
    function, and the invariant of the buffer.

  \<^bold>\<open>ML-KEM.\<close>
  \<^item> \<open>MLKEM_Arith\<close>, \<open>MLKEM_Serialize\<close> (locale \<open>byte_codec\<close>), \<open>MLKEM_Compress\<close>, \<open>MLKEM_RingSerialize\<close>: reductions, the six unrolled serializers against
    ByteEncode and ByteDecode, compression against rounding, ring elements, messages and ciphertext parts with their round trips.
  \<^item> \<open>MLKEM_NTT\<close>, \<open>MLKEM_NTT_Layers\<close>, \<open>MLKEM_NTT_Spec\<close>, \<open>MLKEM_NTT_Algebra\<close>, \<open>MLKEM_NTT_Product\<close>, \<open>MLKEM_Ring\<close> (locale \<open>ring_op2\<close>): the transform of the
    code refines the transform of the standard within the bounds of sixteen-bit integers; transform, multiply and transform back is the product of the ring.
  \<^item> \<open>MLKEM_Sampling\<close>, \<open>MLKEM_UniformSampling\<close>: the binomial sampler, and the parallel rejection sampler, which returns exactly when the sampler of the standard returns
    on every lane. \<open>MLKEM_CtOps\<close>: comparison and selection.
  \<^item> \<open>MLKEM_IndCpa\<close> (definitions and the locale \<open>valid_params\<close>, interpreted for the three parameter sets), \<open>MLKEM_Module\<close>, \<open>MLKEM_IndCpaAlgebra\<close>,
    \<open>MLKEM_IndCpaCorrect\<close>, \<open>MLKEM_IndCpaKeys\<close>: decryption recovers the message when the noise is below the rounding threshold, a hypothesis on the sampled vectors that holds
    with overwhelming probability but not always; packed and unpacked keys agree.
  \<^item> \<open>MLKEM_IndCca\<close>, \<open>MLKEM_IndCcaCorrect\<close>, \<open>MLKEM_Kem\<close>: the code is the Fujisaki-Okamoto transform with implicit rejection (locale \<open>pke\<close>, which the scheme of the code provides by a sublocale from
    \<open>valid_params\<close>); both sides agree on the secret; validation accepts exactly the canonical keys; packed and unpacked interfaces agree.

  \<^bold>\<open>ML-DSA.\<close>
  \<^item> \<open>MLDSA_Arith\<close> (locale \<open>rounding\<close>): reductions, Power2Round, Decompose and hints, as in the standard. \<open>MLDSA_Encoding\<close> (locale \<open>bit_pack\<close>),
    \<open>MLDSA_RingEncoding\<close>, \<open>MLDSA_Signature\<close>: bit packing, the verification key, and the signature with its hint, whose decoder accepts exactly the canonical encodings.
  \<^item> \<open>MLDSA_NTT\<close>, \<open>MLDSA_NTT_Layers\<close>, \<open>MLDSA_NTT_Spec\<close>, \<open>MLDSA_Algebra\<close>: the transforms of the code refine those of the standard without overflow, and
    compute products of the ring.
  \<^item> \<open>MLDSA_Matrix\<close> (definitions), \<open>MLDSA_RingArith\<close>, \<open>MLDSA_Hints\<close>, \<open>MLDSA_MatrixCorrect\<close>: values and bounds of the operations on ring elements, vectors and
    the matrix.
  \<^item> \<open>MLDSA_Sampling\<close> (definitions), \<open>MLDSA_SamplingCorrect\<close> (locale \<open>rejection_sampler\<close>, interpreted for the three samplers): the samplers of the matrix and of the secret
    vectors return exactly when those of the standard return on all the streams that the code reads. It reads four at a time and waits for all four, so these include up to three padding
    streams when the number of polynomials is not a multiple of four. Ranges of the mask and of the challenge.
  \<^item> \<open>MLDSA_Generic\<close> (definitions), \<open>MLDSA_Keys\<close>, \<open>MLDSA_SignVerify\<close> (locale \<open>dsa_parameters\<close>, interpreted for the three parameter sets): signing reads the key that
    generation wrote, and every signature that signing returns is accepted, for plain and for pre-hashed messages.

  \<^bold>\<open>Not modelled.\<close> The functions of \<open>libcrux_mlkem{512,768,1024}_portable.c\<close> and \<open>libcrux_mldsa{44,65,87}_portable.c\<close>, which forward to the modelled ones; the
  conversions between arrays and slices of \<open>combined_core.c\<close>; the AVX2 variants, which need the semantics of processor intrinsics; the header-only and the older copies of the
  extraction; vendored code (HACL*, libjade, PQClean); the Rust sources, protocols, bindings, tests and benchmarks. Timing and memory are not part of the model: of the constant-time
  functions the results are shown, not that their time is constant. Cryptographic security is not claimed, nor that a sampling loop ends on every seed.
\<close>

end
